(* ===== verification/Prelude.thy ===== *)
theory Prelude
  imports Complex_Main "HOL-Library.AList" "HOL-Library.Multiset"
begin

text \<open>
  What the components share: the containers of the program as the model writes them, the
  outcome of a computation that may throw, and the fact collections the proofs draw on.

  A JavaScript \<open>Map\<close> and an object used as a dictionary keep their entries in insertion order,
  and iterate in that order; both are association lists here. \<open>AList.update\<close> overwrites in
  place or appends, as \<open>Map.set\<close> does, and \<open>AList.delete\<close> is \<open>delete\<close>.
\<close>

named_theorems store_simps \<open>reading a field after writing one\<close>
named_theorems step_simps \<open>one step of a loop, by cases\<close>

section \<open>Outcomes\<close>

text \<open>
  A call that may throw returns \<open>Throw e s\<close> or \<open>Return a s\<close>. Both carry the state: a JavaScript
  exception does not roll back what was written before it.
\<close>

datatype ('e, 's, 'a) outcome = Throw 'e 's | Return 'a 's

fun outcome_state :: "('e, 's, 'a) outcome \<Rightarrow> 's" where
  "outcome_state (Throw e s) = s"
| "outcome_state (Return a s) = s"

fun is_return :: "('e, 's, 'a) outcome \<Rightarrow> bool" where
  "is_return (Throw e s) = False"
| "is_return (Return a s) = True"

lemma is_return_iff: "is_return x \<longleftrightarrow> (\<exists>a s. x = Return a s)"
  by (cases x) auto

section \<open>Arrays\<close>

text \<open>\<open>xs.splice(i, 1)\<close>, \<open>xs.findIndex(p)\<close> (\<open>None\<close> for -1) and \<open>xs.find(p)\<close>.\<close>

definition splice1 :: "nat \<Rightarrow> 'a list \<Rightarrow> 'a list" where
  "splice1 i xs = take i xs @ drop (Suc i) xs"

fun find_index :: "('a \<Rightarrow> bool) \<Rightarrow> 'a list \<Rightarrow> nat option" where
  "find_index P [] = None"
| "find_index P (x # xs) = (if P x then Some 0 else map_option Suc (find_index P xs))"

lemma length_splice1: "i < length xs \<Longrightarrow> length (splice1 i xs) = length xs - 1"
  by (simp add: splice1_def)

lemma set_splice1_subset: "set (splice1 i xs) \<subseteq> set xs"
  using set_take_subset[of i xs] set_drop_subset[of "Suc i" xs] by (auto simp: splice1_def)

lemma in_splice1D: "x \<in> set (splice1 i xs) \<Longrightarrow> x \<in> set xs"
  using set_splice1_subset by fast

lemma mset_splice1: "i < length xs \<Longrightarrow> mset (splice1 i xs) = mset xs - {# xs ! i #}"
proof -
  assume "i < length xs"
  then have "mset (take i xs @ xs ! i # drop (Suc i) xs) = mset xs" by (simp add: id_take_nth_drop [symmetric])
  then show ?thesis by (simp add: splice1_def add_mset_remove_trivial_eq flip: \<open>mset _ = _\<close>)
qed

lemma map_splice1: "map f (splice1 i xs) = splice1 i (map f xs)"
  by (simp add: splice1_def take_map drop_map)

lemma distinct_splice1: "distinct xs \<Longrightarrow> distinct (splice1 i xs)"
  by (simp add: splice1_def) (metis Suc_n_not_le_n linorder_le_cases set_take_disj_set_drop_if_distinct)

lemma map_list_update_same: "i < length xs \<Longrightarrow> f (xs ! i) = f x \<Longrightarrow> map f (xs[i := x]) = map f xs"
  by (metis list_update_id map_update)

lemma find_index_Some:
  "find_index P xs = Some i \<Longrightarrow> i < length xs \<and> P (xs ! i) \<and> (\<forall>j < i. \<not> P (xs ! j))"
  by (induction xs arbitrary: i) (auto split: if_splits simp: less_Suc_eq_0_disj)

lemma find_index_None: "find_index P xs = None \<longleftrightarrow> (\<forall>x \<in> set xs. \<not> P x)"
  by (induction xs) auto

lemma find_index_nth: "find_index P xs = Some i \<Longrightarrow> xs ! i \<in> set xs \<and> P (xs ! i)"
  by (auto dest: find_index_Some)

text \<open>\<open>new Set(xs)\<close> as the list of its members: the first of equal ones stays.\<close>

definition uniqueOf :: "'a list \<Rightarrow> 'a list" where
  "uniqueOf xs = foldl (\<lambda>s x. if x \<in> set s then s else s @ [x]) [] xs"

lemma uniqueOf_set [simp]: "set (uniqueOf xs) = set xs"
proof -
  have "set (foldl (\<lambda>s x. if x \<in> set s then s else s @ [x]) init xs) = set init \<union> set xs" for init
    by (induction xs arbitrary: init) auto
  then show ?thesis by (simp add: uniqueOf_def)
qed

section \<open>Dictionaries\<close>

lemma in_set_update:
  "(k, v) \<in> set (AList.update k' v' al) \<Longrightarrow> (k, v) = (k', v') \<or> (k, v) \<in> set al"
  by (induction al) (auto split: if_splits)

lemma in_set_delete: "(k, v) \<in> set (AList.delete k' al) \<Longrightarrow> (k, v) \<in> set al \<and> k \<noteq> k'"
  by (induction al) (auto split: if_splits)

lemma map_fst_update:
  "map fst (AList.update k v al) = (if k \<in> fst ` set al then map fst al else map fst al @ [k])"
  by (simp add: AList.update_keys)

lemma map_fst_delete: "map fst (AList.delete k al) = removeAll k (map fst al)"
  by (simp add: AList.delete_keys)

end
