(* ===== verification/JsNumber.thy ===== *)
theory JsNumber
  imports Prelude "HOL-Library.Log_Nat"
begin

text \<open>
  The number type of the program. Every TypeScript \<open>number\<close> is an IEEE-754 binary64 value and
  every operator rounds, so the model computes with rationals and rounds after each operation,
  to nearest with ties to even, with gradual underflow below 2 powi -1022 and overflow to
  the infinities from 2 powi 1024 on.

  One value of the format is identified with another: the negative zero with zero. They differ
  only as a divisor (and under \<open>Object.is\<close>, which the program does not use), and no divisor of
  the modelled code is a negative zero: divisors are quantities and margins that were compared
  with zero, absolute values, differences of equal numbers (which are positive zeros) and index
  prices that were tested for truth.

  The theory ends with the laws of rounding as a locale, and its interpretation on the
  rounding function defined here: the bounds of the matching engine rest on those laws only.
\<close>

section \<open>Rounding a rational to binary64\<close>

text \<open>\<open>flog2 r\<close> is the binary exponent of a positive rational.\<close>

definition flog2 :: "rat \<Rightarrow> int" where
  "flog2 r =
     (let (n, d) = quotient_of r; e = bitlen n - bitlen d
      in if 2 powi e \<le> r then e else e - 1)"

definition round_half_even :: "rat \<Rightarrow> int" where
  "round_half_even x =
     (let f = \<lfloor>x\<rfloor>; d = x - of_int f
      in if d < 1 / 2 then f
         else if 1 / 2 < d then f + 1
         else if even f then f else f + 1)"

text \<open>
  \<open>quantum r\<close> is the exponent of the spacing of the format around \<open>r\<close>: 53 significant bits,
  never finer than the least subnormal.
\<close>

definition quantum :: "rat \<Rightarrow> int" where
  "quantum r = max (flog2 \<bar>r\<bar> - 52) (- 1074)"

definition round64 :: "rat \<Rightarrow> rat" where
  "round64 r =
     (if r = 0 then 0
      else of_int (round_half_even (r / 2 powi quantum r)) * 2 powi quantum r)"

text \<open>The rationals the format holds (the range check is apart, in \<open>js\<close>).\<close>

definition binary64 :: "rat \<Rightarrow> bool" where
  "binary64 r \<longleftrightarrow> round64 r = r"

section \<open>Facts about rounding\<close>

lemma powi2_pos [simp]: "0 < (2::rat) powi k"
  by (simp add: zero_less_power_int)

lemma powi2_add: "(2::rat) powi (a + b) = 2 powi a * 2 powi b"
  by (simp add: power_int_add)

lemma powi2_mono: "a \<le> b \<Longrightarrow> (2::rat) powi a \<le> 2 powi b"
  by (rule power_int_increasing) auto

lemma powi2_less_iff: "(2::rat) powi a < 2 powi b \<longleftrightarrow> a < b"
  by (metis linorder_not_less one_less_numeral_iff power_int_strict_increasing powi2_mono semiring_norm(76))

lemma flog2_bounds:
  assumes "0 < r"
  shows "2 powi flog2 r \<le> r" and "r < 2 powi (flog2 r + 1)"
proof -
  obtain n d where nd: "quotient_of r = (n, d)" by force
  have d: "0 < d" using quotient_of_denom_pos[OF nd] .
  have r: "r = of_int n / of_int d" using quotient_of_div[OF nd] .
  have n: "0 < n" using assms d by (simp add: r zero_less_divide_iff)
  define e where "e = bitlen n - bitlen d"
  have bn: "2 ^ nat (bitlen n - 1) \<le> n" "n < 2 ^ nat (bitlen n)" using bitlen_bounds[OF n] by auto
  have bd: "2 ^ nat (bitlen d - 1) \<le> d" "d < 2 ^ nat (bitlen d)" using bitlen_bounds[OF d] by auto
  have pos: "0 < bitlen n" "0 < bitlen d"
    using n d bitlen_nonneg[of n] bitlen_nonneg[of d] bitlen_eq_zero_iff[of n] bitlen_eq_zero_iff[of d]
    by linarith+
  have n1: "2 powi (bitlen n - 1) \<le> (of_int n :: rat)" using bn(1) pos
    by (simp add: power_int_def)
  have n2: "(of_int n :: rat) < 2 powi (bitlen n)" using bn(2) pos
    by (simp add: power_int_def)
  have d1: "2 powi (bitlen d - 1) \<le> (of_int d :: rat)" using bd(1) pos
    by (simp add: power_int_def)
  have d2: "(of_int d :: rat) < 2 powi (bitlen d)" using bd(2) pos
    by (simp add: power_int_def)
  have lo: "2 powi (e - 1) \<le> r"
  proof -
    have "(2::rat) powi (e - 1) * of_int d \<le> 2 powi (e - 1) * 2 powi (bitlen d)" using d2 by simp
    also have "\<dots> = (2::rat) powi (bitlen n - 1)" by (simp add: e_def flip: powi2_add)
    finally show ?thesis using n1 d by (simp add: r pos_le_divide_eq)
  qed
  have hi: "r < 2 powi (e + 1)"
  proof -
    have "(2::rat) powi bitlen n = 2 powi (e + 1) * 2 powi (bitlen d - 1)" by (simp add: e_def flip: powi2_add)
    also have "\<dots> \<le> 2 powi (e + 1) * of_int d" using d1 by simp
    finally show ?thesis using n2 d by (simp add: r pos_divide_less_eq)
  qed
  have fl: "flog2 r = (if 2 powi e \<le> r then e else e - 1)" by (simp add: flog2_def nd e_def Let_def)
  show "2 powi flog2 r \<le> r" using lo by (simp add: fl)
  show "r < 2 powi (flog2 r + 1)" using hi by (simp add: fl)
qed

lemma flog2_mono:
  assumes "0 < r" "r \<le> s" shows "flog2 r \<le> flog2 s"
proof -
  have "(2::rat) powi flog2 r < 2 powi (flog2 s + 1)"
    using flog2_bounds[of r] flog2_bounds[of s] assms by linarith
  then show ?thesis by (simp add: powi2_less_iff)
qed

lemma round_half_even_of_int [simp]: "round_half_even (of_int k) = k"
  by (simp add: round_half_even_def)

lemma round_half_even_bounds: "\<lfloor>x\<rfloor> \<le> round_half_even x" "round_half_even x \<le> \<lfloor>x\<rfloor> + 1"
  by (simp_all add: round_half_even_def Let_def)

lemma round_half_even_mono:
  assumes "x \<le> y" shows "round_half_even x \<le> round_half_even y"
proof (cases "\<lfloor>x\<rfloor> = \<lfloor>y\<rfloor>")
  case True
  with assms show ?thesis by (simp add: round_half_even_def Let_def)
next
  case False
  with assms have "\<lfloor>x\<rfloor> + 1 \<le> \<lfloor>y\<rfloor>" using floor_mono[OF assms] by linarith
  with round_half_even_bounds[of x] round_half_even_bounds[of y] show ?thesis by linarith
qed

lemma round_half_even_minus: "round_half_even (- x) = - round_half_even x"
proof (cases "x \<in> \<int>")
  case True
  then obtain k where "x = of_int k" by (rule Ints_cases)
  then show ?thesis using round_half_even_of_int[of "- k"] by simp
next
  case False
  then have "x \<noteq> of_int \<lfloor>x\<rfloor>" by (metis Ints_of_int)
  then have c: "\<lceil>x\<rceil> = \<lfloor>x\<rfloor> + 1" by (simp add: ceiling_altdef)
  have f: "\<lfloor>- x\<rfloor> = - (\<lfloor>x\<rfloor> + 1)" using c by (simp add: floor_minus)
  show ?thesis by (simp add: round_half_even_def Let_def f)
qed

lemma round_half_even_near: "\<bar>of_int (round_half_even x) - x\<bar> \<le> 1 / 2"
  unfolding round_half_even_def Let_def abs_le_iff
  using of_int_floor_le[of x] floor_correct[of x] by (simp split: if_splits) linarith

lemma round64_0 [simp]: "round64 0 = 0"
  by (simp add: round64_def)

lemma round64_minus [simp]: "round64 (- r) = - round64 r"
  by (simp add: round64_def quantum_def round_half_even_minus)

lemma quantum_ge: "- 1074 \<le> quantum r" by (simp add: quantum_def)

lemma abs_less_quantum:
  assumes "r \<noteq> 0" shows "\<bar>r\<bar> < 2 powi (quantum r + 53)"
proof -
  have "\<bar>r\<bar> < 2 powi (flog2 \<bar>r\<bar> + 1)" using flog2_bounds[of "\<bar>r\<bar>"] assms by simp
  also have "\<dots> \<le> 2 powi (quantum r + 53)" by (rule powi2_mono) (simp add: quantum_def)
  finally show ?thesis .
qed

lemma quantum_scaled:
  assumes "r \<noteq> 0" shows "\<bar>round_half_even (r / 2 powi quantum r)\<bar> \<le> 2 ^ 53"
proof -
  have "\<bar>r / 2 powi quantum r\<bar> \<le> 2 ^ 53"
    using abs_less_quantum[OF assms] by (simp add: powi2_add abs_divide pos_divide_le_eq mult.commute)
  then have "r / 2 powi quantum r \<le> of_int (2 ^ 53)" "of_int (- (2 ^ 53)) \<le> r / 2 powi quantum r"
    unfolding abs_le_iff by simp_all
  then have "round_half_even (r / 2 powi quantum r) \<le> 2 ^ 53" "- (2 ^ 53) \<le> round_half_even (r / 2 powi quantum r)"
    by (metis round_half_even_mono round_half_even_of_int)+
  then show ?thesis by linarith
qed

lemma round64_exact:
  assumes m: "\<bar>m\<bar> \<le> 2 ^ 53" and q: "- 1074 \<le> q"
  shows "round64 (of_int m * 2 powi q) = of_int m * 2 powi q"
proof (cases "m = 0")
  case False
  define r where "r = (of_int m :: rat) * 2 powi q"
  have r0: "r \<noteq> 0" using False by (simp add: r_def)
  have "\<exists>k. r / 2 powi quantum r = of_int k"
  proof (cases "quantum r \<le> q")
    case True
    have "r / 2 powi quantum r = of_int m * 2 powi (q - quantum r)"
      by (simp add: r_def power_int_diff)
    also have "\<dots> = of_int (m * 2 ^ nat (q - quantum r))" using True by (simp add: power_int_def)
    finally show ?thesis by blast
  next
    case False
    then have "quantum r = flog2 \<bar>r\<bar> - 52" using q by (auto simp: quantum_def max_def split: if_splits)
    then have le: "2 powi (quantum r + 52) \<le> \<bar>r\<bar>" using flog2_bounds(1)[of "\<bar>r\<bar>"] r0 by simp
    have m': "\<bar>of_int m\<bar> \<le> (2::rat) ^ 53"
      using m of_int_le_iff[of "\<bar>m\<bar>" "2 ^ 53", where 'a = rat] by simp
    have ab: "\<bar>r\<bar> = \<bar>of_int m\<bar> * 2 powi q" by (simp add: r_def abs_mult)
    have "\<bar>r\<bar> \<le> 2 powi (53 + q)" using m' by (simp add: ab powi2_add)
    with le have "(2::rat) powi (quantum r + 52) \<le> 2 powi (53 + q)" by linarith
    then have "quantum r + 52 \<le> 53 + q" using powi2_less_iff[of "53 + q" "quantum r + 52"] by linarith
    with False have Q: "quantum r = q + 1" by linarith
    have "2 powi (53 + q) \<le> \<bar>r\<bar>" using le by (simp add: Q add.commute)
    then have "(2::rat) ^ 53 \<le> \<bar>of_int m\<bar>" by (simp add: ab powi2_add)
    then have "\<bar>m\<bar> = 2 ^ 53" using m of_int_le_iff[of "2 ^ 53" "\<bar>m\<bar>", where 'a = rat] by simp
    then have "m = 2 * 2 ^ 52 \<or> m = 2 * - (2 ^ 52)" by (auto simp: abs_if split: if_splits)
    then obtain k where k: "m = 2 * k" by blast
    have "r / 2 powi quantum r = of_int m / 2" unfolding Q by (simp add: r_def powi2_add)
    then show ?thesis by (auto simp: k)
  qed
  then obtain k where k: "r / 2 powi quantum r = of_int k" by blast
  have "of_int k * 2 powi quantum r = r" by (simp flip: k)
  then show ?thesis using r0 by (simp add: round64_def k flip: r_def)
qed simp

lemma round64_representable:
  "\<exists>m q. round64 r = of_int m * 2 powi q \<and> \<bar>m\<bar> \<le> 2 ^ 53 \<and> - 1074 \<le> q"
proof (cases "r = 0")
  case True
  then show ?thesis by (intro exI[of _ 0]) simp
next
  case False
  then show ?thesis using quantum_scaled[OF False] quantum_ge by (auto simp: round64_def)
qed

lemma round64_idem [simp]: "round64 (round64 r) = round64 r"
  using round64_representable[of r] round64_exact by metis

lemma round64_of_int: "\<bar>k\<bar> \<le> 2 ^ 53 \<Longrightarrow> round64 (of_int k) = of_int k"
  using round64_exact[of k 0] by simp

lemma round64_mono_pos:
  assumes "0 < r" "r \<le> s" shows "round64 r \<le> round64 s"
proof -
  have s0: "0 < s" using assms by linarith
  have qle: "quantum r \<le> quantum s" using flog2_mono[OF assms] assms by (simp add: quantum_def)
  show ?thesis
  proof (cases "quantum r = quantum s")
    case True
    have "r / 2 powi quantum s \<le> s / 2 powi quantum s" using assms(2) by (simp add: divide_right_mono)
    then show ?thesis using assms s0 round_half_even_mono by (simp add: round64_def True)
  next
    case False
    with qle have lt: "quantum r < quantum s" by linarith
    then have Qs: "quantum s = flog2 s - 52" using quantum_ge[of r] s0 by (auto simp: quantum_def max_def split: if_splits)
    then have "2 powi (quantum s + 52) \<le> s" using flog2_bounds(1)[OF s0] by simp
    then have "of_int (2 ^ 52) \<le> s / 2 powi quantum s" by (simp add: powi2_add pos_le_divide_eq mult.commute)
    then have "2 ^ 52 \<le> round_half_even (s / 2 powi quantum s)" by (metis round_half_even_mono round_half_even_of_int)
    then have "(of_int (2 ^ 52) :: rat) \<le> of_int (round_half_even (s / 2 powi quantum s))" by (simp only: of_int_le_iff)
    then have a: "2 ^ 52 * 2 powi quantum s \<le> round64 s" using s0 by (simp add: round64_def)
    have "round_half_even (r / 2 powi quantum r) \<le> 2 ^ 53" using quantum_scaled[of r] assms by linarith
    then have "(of_int (round_half_even (r / 2 powi quantum r)) :: rat) \<le> of_int (2 ^ 53)" by (simp only: of_int_le_iff)
    then have b: "round64 r \<le> 2 ^ 53 * 2 powi quantum r" using assms by (simp add: round64_def)
    have "(2::rat) ^ 53 * 2 powi quantum r = 2 powi (quantum r + 53)" by (simp add: powi2_add)
    also have "\<dots> \<le> 2 powi (quantum s + 52)" using lt by (intro powi2_mono) simp
    also have "\<dots> = 2 ^ 52 * 2 powi quantum s" by (simp add: powi2_add)
    finally show ?thesis using a b by linarith
  qed
qed

lemma round64_nonneg: "0 \<le> r \<Longrightarrow> 0 \<le> round64 r"
  using round_half_even_mono[of 0 "r / 2 powi quantum r"] round_half_even_of_int[of 0]
  by (auto simp: round64_def zero_le_mult_iff)

lemma round64_mono:
  assumes "r \<le> s" shows "round64 r \<le> round64 s"
proof -
  consider "0 < r" | "r \<le> 0" "0 \<le> s" | "s < 0" by linarith
  then show ?thesis
  proof cases
    case 1 then show ?thesis using assms by (rule round64_mono_pos)
  next
    case 2 then show ?thesis using round64_nonneg[of s] round64_nonneg[of "- r"] by simp
  next
    case 3 then show ?thesis using round64_mono_pos[of "- s" "- r"] assms by simp
  qed
qed

lemma binary64_round64 [simp, intro]: "binary64 (round64 r)"
  by (simp add: binary64_def)

lemma binary64_0 [simp, intro]: "binary64 0"
  by (simp add: binary64_def)

lemma binary64_minus [simp]: "binary64 (- r) \<longleftrightarrow> binary64 r"
  by (simp add: binary64_def)

lemma binary64_of_int: "\<bar>k\<bar> \<le> 2 ^ 53 \<Longrightarrow> binary64 (of_int k)"
  by (simp add: binary64_def round64_of_int)

lemma binary64_abs [simp]: "binary64 \<bar>r\<bar> \<longleftrightarrow> binary64 r"
  by (simp add: abs_if)

lemma binary64_grid:
  assumes "binary64 r" shows "\<exists>m. r = of_int m * 2 powi (- 1074)"
proof -
  obtain m q where r: "r = of_int m * 2 powi q" and q: "- 1074 \<le> q"
    using round64_representable[of r] assms by (auto simp: binary64_def)
  have "(2::rat) powi q = 2 powi (q + 1074) * 2 powi (- 1074)" by (simp only: powi2_add [symmetric]) simp
  also have "(2::rat) powi (q + 1074) = of_int (2 ^ nat (q + 1074))" using q by (simp add: power_int_def)
  finally have "r = of_int (m * 2 ^ nat (q + 1074)) * 2 powi (- 1074)" by (simp only: r of_int_mult mult.assoc)
  then show ?thesis by blast
qed

text \<open>Gradual underflow: the rounded difference of two different doubles is not zero.\<close>

lemma round64_diff_pos:
  assumes "binary64 a" "binary64 b" "b < a" shows "0 < round64 (a - b)"
proof -
  obtain m n where mn: "a = of_int m * 2 powi (- 1074)" "b = of_int n * 2 powi (- 1074)"
    using assms binary64_grid by blast
  then have "n < m" using assms(3) by (simp add: mult_less_cancel_right)
  then have "(1::rat) \<le> of_int (m - n)" by simp
  then have "2 powi (- 1074) \<le> of_int (m - n) * (2::rat) powi (- 1074)"
    by (simp only: mult_le_cancel_right1) simp
  then have "2 powi (- 1074) \<le> a - b" by (simp add: mn left_diff_distrib)
  then have "round64 (2 powi (- 1074)) \<le> round64 (a - b)" by (rule round64_mono)
  moreover have "round64 (2 powi (- 1074)) = 2 powi (- 1074)" using round64_exact[of 1 "- 1074"] by simp
  ultimately show ?thesis using powi2_pos[of "- 1074"] by linarith
qed

section \<open>The laws of rounding\<close>

locale rounding =
  fixes rnd :: "rat \<Rightarrow> rat"
  assumes rnd_mono: "x \<le> y \<Longrightarrow> rnd x \<le> rnd y"
    and rnd_idem: "rnd (rnd x) = rnd x"
    and rnd_minus: "rnd (- x) = - rnd x"
    and rnd_int: "\<bar>k\<bar> \<le> 2 ^ 53 \<Longrightarrow> rnd (of_int k) = of_int k"
    and rnd_diff_pos: "rnd a = a \<Longrightarrow> rnd b = b \<Longrightarrow> b < a \<Longrightarrow> 0 < rnd (a - b)"
begin

lemma rnd_zero: "rnd 0 = 0"
  using rnd_int[of 0] by simp

lemma rnd_nonneg: "0 \<le> x \<Longrightarrow> 0 \<le> rnd x"
  using rnd_mono[of 0 x] by (simp add: rnd_zero)

lemma rnd_le_fixed: "rnd b = b \<Longrightarrow> x \<le> b \<Longrightarrow> rnd x \<le> b"
  using rnd_mono[of x b] by simp

lemma rnd_ge_fixed: "rnd b = b \<Longrightarrow> b \<le> x \<Longrightarrow> b \<le> rnd x"
  using rnd_mono[of b x] by simp

text \<open>A value of the format strictly below a rounded one is below the exact one.\<close>

lemma below_rounded: "rnd x = x \<Longrightarrow> x < rnd y \<Longrightarrow> x \<le> y"
  using rnd_le_fixed[of x y] by linarith

lemma rnd_diff_nonneg: "b \<le> a \<Longrightarrow> 0 \<le> rnd (a - b)"
  by (rule rnd_nonneg) simp

lemma rnd_diff_le: "rnd a = a \<Longrightarrow> 0 \<le> b \<Longrightarrow> rnd (a - b) \<le> a"
  by (rule rnd_le_fixed) auto

lemma rnd_diff_pos_iff: "rnd a = a \<Longrightarrow> rnd b = b \<Longrightarrow> 0 < rnd (a - b) \<longleftrightarrow> b < a"
  using rnd_diff_pos[of a b] rnd_nonneg[of "b - a"] rnd_minus[of "a - b"] by fastforce

text \<open>
  Taking strictly less than the rounded remainder \<open>q - f\<close> never overshoots the total \<open>q\<close>, in
  spite of both roundings.
\<close>

lemma rnd_add_within: "rnd q = q \<Longrightarrow> rnd r = r \<Longrightarrow> r < rnd (q - f) \<Longrightarrow> rnd (f + r) \<le> q"
  using below_rounded[of r "q - f"] by (intro rnd_le_fixed) auto

lemma rnd_add_ge: "rnd f = f \<Longrightarrow> 0 \<le> r \<Longrightarrow> f \<le> rnd (f + r)"
  by (rule rnd_ge_fixed) auto

end

interpretation b64: rounding round64
  by unfold_locales (auto simp: round64_mono round64_of_int intro: round64_diff_pos simp: binary64_def)

section \<open>Numbers and their operators\<close>

datatype jsnum = Fin rat | PInf | NInf | NaN

definition js :: "rat \<Rightarrow> jsnum" where
  "js r =
     (let v = round64 r
      in if 2 ^ 1024 \<le> v then PInf else if v \<le> - (2 ^ 1024) then NInf else Fin v)"

definition is_double :: "jsnum \<Rightarrow> bool" where
  "is_double x = (case x of Fin r \<Rightarrow> binary64 r \<and> \<bar>r\<bar> < 2 ^ 1024 | _ \<Rightarrow> True)"

text \<open>The sign of a nonzero rational as an infinity; \<open>0 * Infinity\<close> and \<open>0 / 0\<close> are \<open>NaN\<close>.\<close>

definition signed_inf :: "rat \<Rightarrow> jsnum" where
  "signed_inf r = (if r = 0 then NaN else if 0 < r then PInf else NInf)"

fun js_neg :: "jsnum \<Rightarrow> jsnum" where
  "js_neg (Fin a) = Fin (- a)"
| "js_neg PInf = NInf"
| "js_neg NInf = PInf"
| "js_neg NaN = NaN"

fun js_add :: "jsnum \<Rightarrow> jsnum \<Rightarrow> jsnum" where
  "js_add (Fin a) (Fin b) = js (a + b)"
| "js_add NaN y = NaN"
| "js_add x NaN = NaN"
| "js_add PInf y = (if y = NInf then NaN else PInf)"
| "js_add NInf y = (if y = PInf then NaN else NInf)"
| "js_add (Fin a) y = y"

fun js_mult :: "jsnum \<Rightarrow> jsnum \<Rightarrow> jsnum" where
  "js_mult (Fin a) (Fin b) = js (a * b)"
| "js_mult NaN y = NaN"
| "js_mult x NaN = NaN"
| "js_mult (Fin a) PInf = signed_inf a"
| "js_mult (Fin a) NInf = signed_inf (- a)"
| "js_mult PInf (Fin b) = signed_inf b"
| "js_mult NInf (Fin b) = signed_inf (- b)"
| "js_mult x y = (if x = y then PInf else NInf)"

fun js_div :: "jsnum \<Rightarrow> jsnum \<Rightarrow> jsnum" where
  "js_div (Fin a) (Fin b) = (if b = 0 then signed_inf a else js (a / b))"
| "js_div NaN y = NaN"
| "js_div x NaN = NaN"
| "js_div (Fin a) y = Fin 0"
| "js_div PInf (Fin b) = (if 0 \<le> b then PInf else NInf)"
| "js_div NInf (Fin b) = (if 0 \<le> b then NInf else PInf)"
| "js_div x y = NaN"

fun js_less :: "jsnum \<Rightarrow> jsnum \<Rightarrow> bool" where
  "js_less (Fin a) (Fin b) = (a < b)"
| "js_less NaN y = False"
| "js_less x NaN = False"
| "js_less NInf y = (y \<noteq> NInf)"
| "js_less x PInf = (x \<noteq> PInf)"
| "js_less x y = False"

instantiation jsnum :: "{zero, one, plus, minus, uminus, times, inverse, ord, abs}"
begin

definition zero_jsnum :: jsnum where
  "0 = Fin 0"

definition one_jsnum :: jsnum where
  "1 = Fin 1"

definition uminus_jsnum :: "jsnum \<Rightarrow> jsnum" where
  "- x = js_neg x"

definition plus_jsnum :: "jsnum \<Rightarrow> jsnum \<Rightarrow> jsnum" where
  "x + y = js_add x y"

definition minus_jsnum :: "jsnum \<Rightarrow> jsnum \<Rightarrow> jsnum" where
  "x - y = js_add x (js_neg y)"

definition times_jsnum :: "jsnum \<Rightarrow> jsnum \<Rightarrow> jsnum" where
  "x * y = js_mult x y"

definition divide_jsnum :: "jsnum \<Rightarrow> jsnum \<Rightarrow> jsnum" where
  "x div y = js_div x y"

definition inverse_jsnum :: "jsnum \<Rightarrow> jsnum" where
  "inverse x = js_div (Fin 1) x"

definition less_jsnum :: "jsnum \<Rightarrow> jsnum \<Rightarrow> bool" where
  "x < y = js_less x y"

definition less_eq_jsnum :: "jsnum \<Rightarrow> jsnum \<Rightarrow> bool" where
  "x \<le> y = (js_less x y \<or> (x = y \<and> x \<noteq> NaN))"

definition abs_jsnum :: "jsnum \<Rightarrow> jsnum" where
  "\<bar>x\<bar> = (if js_less x (Fin 0) then js_neg x else x)"

instance
  by standard

end

text \<open>\<open>===\<close> on numbers: \<open>NaN\<close> equals nothing. \<open>!x\<close> is true of zero and \<open>NaN\<close>.\<close>

definition js_eq :: "jsnum \<Rightarrow> jsnum \<Rightarrow> bool" where
  "js_eq x y \<longleftrightarrow> x = y \<and> x \<noteq> NaN"

definition js_truthy :: "jsnum \<Rightarrow> bool" where
  "js_truthy x \<longleftrightarrow> x \<noteq> NaN \<and> x \<noteq> Fin 0"

text \<open>
  \<open>+x.toFixed(d)\<close>: the nearest multiple of ten to the power \<open>- d\<close>, halves away from zero, read
  back as a double. From ten to the power 21 on \<open>toFixed\<close> prints the number itself.
\<close>

definition js_fixed :: "nat \<Rightarrow> jsnum \<Rightarrow> jsnum" where
  "js_fixed d x =
     (case x of
        Fin r \<Rightarrow>
          (if 10 ^ 21 \<le> \<bar>r\<bar> then Fin r
           else js (sgn r * of_int \<lfloor>\<bar>r\<bar> * 10 ^ d + 1 / 2\<rfloor> / 10 ^ d))
      | _ \<Rightarrow> x)"

section \<open>Computing with the operators\<close>

lemma js_arith_simps [simp]:
  "(0::jsnum) = Fin 0" "(1::jsnum) = Fin 1"
  "- Fin a = Fin (- a)" "- PInf = NInf" "- NInf = PInf" "- NaN = NaN"
  "Fin a + Fin b = js (a + b)" "Fin a - Fin b = js (a - b)" "Fin a * Fin b = js (a * b)"
  "Fin a / Fin b = (if b = 0 then signed_inf a else js (a / b))"
  "NaN + x = NaN" "x + NaN = NaN" "NaN - x = NaN" "x - NaN = NaN"
  "NaN * x = NaN" "x * NaN = NaN" "NaN / x = NaN" "x / NaN = NaN"
  "\<bar>Fin a\<bar> = Fin \<bar>a\<bar>"
  by (cases x; simp add: zero_jsnum_def one_jsnum_def uminus_jsnum_def plus_jsnum_def
      minus_jsnum_def times_jsnum_def divide_jsnum_def abs_jsnum_def)+

lemma js_order_simps [simp]:
  "Fin a < Fin b \<longleftrightarrow> a < b" "Fin a \<le> Fin b \<longleftrightarrow> a \<le> b"
  "\<not> NaN < x" "\<not> x < NaN" "\<not> NaN \<le> x" "\<not> x \<le> NaN"
  "Fin a < PInf" "NInf < Fin a" "\<not> PInf < x" "\<not> x < NInf"
  "x \<le> PInf \<longleftrightarrow> x \<noteq> NaN" "NInf \<le> x \<longleftrightarrow> x \<noteq> NaN"
  "NInf < PInf" "\<not> PInf \<le> NInf" "\<not> PInf \<le> Fin a" "\<not> Fin a \<le> NInf"
  by (cases x; auto simp: less_jsnum_def less_eq_jsnum_def)+

lemma js_eq_Fin [simp]: "js_eq (Fin a) (Fin b) \<longleftrightarrow> a = b"
  by (auto simp: js_eq_def)

lemma js_truthy_Fin [simp]: "js_truthy (Fin a) \<longleftrightarrow> a \<noteq> 0"
  by (simp add: js_truthy_def)

lemma js_less_irrefl [simp]: "\<not> (x::jsnum) < x"
  by (cases x) auto

lemma js_less_imp_le: "(x::jsnum) < y \<Longrightarrow> x \<le> y"
  by (simp add: less_jsnum_def less_eq_jsnum_def)

lemma js_less_trans: "(x::jsnum) < y \<Longrightarrow> y < z \<Longrightarrow> x < z"
  by (cases x; cases y; cases z) auto

lemma js_le_trans: "(x::jsnum) \<le> y \<Longrightarrow> y \<le> z \<Longrightarrow> x \<le> z"
  by (cases x; cases y; cases z) auto

lemma js_le_less_trans: "(x::jsnum) \<le> y \<Longrightarrow> y < z \<Longrightarrow> x < z"
  by (cases x; cases y; cases z) auto

lemma js_less_le_trans: "(x::jsnum) < y \<Longrightarrow> y \<le> z \<Longrightarrow> x < z"
  by (cases x; cases y; cases z) auto

lemma js_le_refl: "(x::jsnum) \<noteq> NaN \<Longrightarrow> x \<le> x"
  by (cases x) auto

lemma js_linear: "(x::jsnum) \<noteq> NaN \<Longrightarrow> y \<noteq> NaN \<Longrightarrow> x < y \<or> x = y \<or> y < x"
  by (cases x; cases y) auto

lemma js_not_less: "(x::jsnum) \<noteq> NaN \<Longrightarrow> y \<noteq> NaN \<Longrightarrow> \<not> x < y \<longleftrightarrow> y \<le> x"
  by (cases x; cases y) auto

lemma js_not_le: "(x::jsnum) \<noteq> NaN \<Longrightarrow> y \<noteq> NaN \<Longrightarrow> \<not> x \<le> y \<longleftrightarrow> y < x"
  by (cases x; cases y) auto

lemma js_less_not_NaN: "(x::jsnum) < y \<Longrightarrow> x \<noteq> NaN \<and> y \<noteq> NaN"
  by (cases x; cases y) auto

lemma is_double_js [simp, intro]: "is_double (js r)"
  by (auto simp: is_double_def js_def Let_def)

lemma is_double_simps [simp]:
  "is_double PInf" "is_double NInf" "is_double NaN"
  "is_double (Fin r) \<longleftrightarrow> binary64 r \<and> \<bar>r\<bar> < 2 ^ 1024"
  by (simp_all add: is_double_def)

lemma js_binary64: "binary64 r \<Longrightarrow> \<bar>r\<bar> < 2 ^ 1024 \<Longrightarrow> js r = Fin r"
  by (auto simp: js_def binary64_def Let_def)

lemma js_is_double: "is_double (Fin r) \<Longrightarrow> js r = Fin r"
  by (auto intro: js_binary64)

lemma js_bounded:
  assumes "\<bar>r\<bar> \<le> b" "binary64 b" "b < 2 ^ 1024" shows "js r = Fin (round64 r)"
proof -
  have "round64 r \<le> b" "- b \<le> round64 r"
    using assms b64.rnd_le_fixed[of b r] b64.rnd_ge_fixed[of "- b" r] by (auto simp: binary64_def abs_le_iff)
  with assms(3) show ?thesis by (simp add: js_def Let_def)
qed

lemma js_of_int: "\<bar>k\<bar> \<le> 2 ^ 53 \<Longrightarrow> js (of_int k) = Fin (of_int k)"
proof -
  assume k: "\<bar>k\<bar> \<le> 2 ^ 53"
  then have "\<bar>of_int k :: rat\<bar> \<le> of_int (2 ^ 53)" by (metis of_int_abs of_int_le_iff)
  then have "\<bar>of_int k :: rat\<bar> < 2 ^ 1024" by (rule le_less_trans) simp
  then show ?thesis using k by (intro js_binary64 binary64_of_int)
qed

lemma js_numeral [simp]:
  "js 0 = Fin 0" "js 1 = Fin 1" "js (- 1) = Fin (- 1)"
  "(numeral n :: int) \<le> 2 ^ 53 \<Longrightarrow> js (numeral n) = Fin (numeral n)"
  "(numeral n :: int) \<le> 2 ^ 53 \<Longrightarrow> js (- numeral n) = Fin (- numeral n)"
  using js_of_int[of 0] js_of_int[of 1] js_of_int[of "- 1"] js_of_int[of "numeral n"]
    js_of_int[of "- numeral n"] by simp_all

text \<open>
  Evaluation of one operation on concrete operands: scaled by a power of two so that it lies in the
  binade of 53 bits, the result is the integer nearest to it.
\<close>

lemma js_eval:
  assumes "2 ^ 52 \<le> r * 2 ^ k" "r * 2 ^ k < 2 ^ 53" "k \<le> 1074" "\<bar>r * 2 ^ k - of_int m\<bar> < 1 / 2"
  shows "js r = Fin (of_int m / 2 ^ k)"
proof -
  have "0 < r * 2 ^ k" using assms(1) by (rule less_le_trans[rotated]) simp
  then have pos: "0 < r" by (simp add: zero_less_mult_iff)
  have pk: "(2::rat) powi (- int k) = 1 / 2 ^ k" by (simp add: power_int_minus inverse_eq_divide)
  have p2: "(2::rat) powi (int n - int k) = 2 ^ n / 2 ^ k" for n
    using powi2_add[of "int n" "- int k"] pk by simp
  have b: "2 powi (int 52 - int k) \<le> r" "r < 2 powi (int 53 - int k)"
    unfolding p2 using assms(1,2) by (simp_all only: divide_le_eq less_divide_eq zero_less_power zero_less_numeral if_True)
  have f: "2 powi (flog2 r) \<le> r" "r < 2 powi (flog2 r + 1)" using flog2_bounds[OF pos] by auto
  have "(2::rat) powi (flog2 r) < 2 powi (int 53 - int k)" using f(1) b(2) by (rule le_less_trans)
  moreover have "(2::rat) powi (int 52 - int k) < 2 powi (flog2 r + 1)" using b(1) f(2) by (rule le_less_trans)
  ultimately have fl: "flog2 r = 52 - int k" unfolding powi2_less_iff by linarith
  have q: "quantum r = - int k" using pos fl assms(3) by (simp add: quantum_def)
  have "round_half_even (r * 2 ^ k) = m" using assms(4) round_half_even_near[of "r * 2 ^ k"] by linarith
  then have r: "round64 r = of_int m / 2 ^ k" using pos q pk by (simp add: round64_def)
  have "r \<le> r * 2 ^ k" using pos by simp
  then have "r \<le> of_int (2 ^ 53)" using assms(2) by simp
  then have "round64 r \<le> 2 ^ 53" using round64_mono[of r "of_int (2 ^ 53)"] round64_of_int[of "2 ^ 53"] by simp
  moreover have "(2::rat) ^ 53 < 2 ^ 1024" by (rule power_strict_increasing) auto
  ultimately have hi: "round64 r < 2 ^ 1024" by (rule le_less_trans)
  moreover have "0 \<le> round64 r" using pos round64_nonneg[of r] by simp
  then have "- (2 ^ 1024) < round64 r" by (rule less_le_trans[rotated]) simp
  ultimately show ?thesis unfolding js_def Let_def r[symmetric] by (simp only: if_False linorder_not_le[symmetric] simp_thms)
qed

lemma js_hundredth: "js (1 / 100) = Fin (5764607523034235 / 2 ^ 59)"
  using js_eval[of "1 / 100" 59 5764607523034235] by simp

lemma floor_rat_numeral: "\<lfloor>numeral a / numeral b :: rat\<rfloor> = numeral a div numeral b"
  using floor_divide_of_int_eq[of "numeral a" "numeral b", where ?'a = rat] by simp

end
