(* ===== verification/JsString.thy ===== *)
theory JsString
  imports JsNumber
begin

text \<open>
  Numbers as strings. \<open>js_string\<close> is the conversion of a number to a string (template literals,
  \<open>toString\<close>): the shortest decimal that reads back as the number, in positional notation for
  exponents from -6 to 21 and in scientific notation outside. \<open>js_number\<close> is the conversion
  of a string to a number (\<open>Number(s)\<close>, unary plus). The engine keys the levels of its book by
  such strings and reads every payload through them, so what the proofs need is the round trip:
  reading the string of a double gives the double back.
\<close>

section \<open>Digits\<close>

definition digit_char :: "nat \<Rightarrow> char" where
  "digit_char d = char_of (48 + d)"

definition is_digit :: "char \<Rightarrow> bool" where
  "is_digit c \<longleftrightarrow> 48 \<le> (of_char c :: nat) \<and> (of_char c :: nat) \<le> 57"

definition digit_val :: "char \<Rightarrow> nat" where
  "digit_val c = of_char c - 48"

fun digits_of :: "nat \<Rightarrow> string" where
  "digits_of n = (if n < 10 then [digit_char n] else digits_of (n div 10) @ [digit_char (n mod 10)])"

definition nat_of_digits :: "string \<Rightarrow> nat" where
  "nat_of_digits ds = foldl (\<lambda>a c. 10 * a + digit_val c) 0 ds"

fun num_digits :: "nat \<Rightarrow> nat" where
  "num_digits n = (if n = 0 then 0 else Suc (num_digits (n div 10)))"

declare digits_of.simps [simp del] num_digits.simps [simp del]

text \<open>The exponent \<open>n\<close> with \<open>10 powi (n - 1) \<le> x < 10 powi n\<close>.\<close>

definition decimal_exponent :: "rat \<Rightarrow> int" where
  "decimal_exponent x =
     (if 1 \<le> x then int (num_digits (nat \<lfloor>x\<rfloor>))
      else 1 - int (num_digits (nat (\<lceil>1 / x\<rceil> - 1))))"

section \<open>Number to string\<close>

text \<open>
  A \<open>k\<close>-digit decimal that rounds to \<open>x\<close>, if there is one: the closest of the two neighbours,
  the even one on a tie. Rounding up can reach ten to the power \<open>k\<close>, which is one digit and a
  larger exponent.
\<close>

definition digits_candidate :: "rat \<Rightarrow> int \<Rightarrow> nat \<Rightarrow> (nat \<times> int) option" where
  "digits_candidate x n k =
     (let y = x * 10 powi (int k - n);
          lo = nat \<lfloor>y\<rfloor>; hi = lo + 1;
          ok = (\<lambda>s. 0 < s \<and> round64 (of_nat s * 10 powi (n - int k)) = x);
          norm = (\<lambda>s. if s = 10 ^ k then (10 ^ (k - 1), n + 1) else (s, n))
      in if ok lo \<and> ok hi
         then (if y - of_nat lo < of_nat hi - y \<or> (y - of_nat lo = of_nat hi - y \<and> even lo)
               then Some (norm lo) else Some (norm hi))
         else if ok lo then Some (norm lo)
         else if ok hi then Some (norm hi)
         else None)"

text \<open>
  The least number of digits that works. The guard of the last branch holds before the search
  ends: with \<open>n + 1074\<close> digits the decimal is the number itself (\<open>digits_search_sound\<close>).
\<close>

function digits_search :: "rat \<Rightarrow> int \<Rightarrow> nat \<Rightarrow> nat \<times> nat \<times> int" where
  "digits_search x n k =
     (case digits_candidate x n k of
        Some (s, n') \<Rightarrow> (k, s, n')
      | None \<Rightarrow> (if int k < n + 1074 then digits_search x n (k + 1) else (k, 0, n)))"
  by pat_completeness auto
termination
  by (relation "measure (\<lambda>(x, n, k). nat (n + 1074 - int k))") auto

declare digits_search.simps [simp del]

definition format_decimal :: "nat \<Rightarrow> nat \<Rightarrow> int \<Rightarrow> string" where
  "format_decimal k s n =
     (let ds = digits_of s
      in if int k \<le> n \<and> n \<le> 21 then ds @ replicate (nat (n - int k)) (CHR ''0'')
         else if 0 < n \<and> n \<le> 21 then take (nat n) ds @ ''.'' @ drop (nat n) ds
         else if - 6 < n \<and> n \<le> 0 then ''0.'' @ replicate (nat (- n)) (CHR ''0'') @ ds
         else take 1 ds @ (if k = 1 then [] else ''.'' @ drop 1 ds) @ ''e''
              @ (if 0 \<le> n - 1 then ''+'' else ''-'') @ digits_of (nat \<bar>n - 1\<bar>))"

definition string_of_pos :: "rat \<Rightarrow> string" where
  "string_of_pos x =
     (case digits_search x (decimal_exponent x) 1 of (k, s, n) \<Rightarrow> format_decimal k s n)"

fun js_string :: "jsnum \<Rightarrow> string" where
  "js_string NaN = ''NaN''"
| "js_string PInf = ''Infinity''"
| "js_string NInf = ''-Infinity''"
| "js_string (Fin r) =
     (if r = 0 then ''0'' else if r < 0 then ''-'' @ string_of_pos (- r) else string_of_pos r)"

section \<open>String to number\<close>

definition is_space :: "char \<Rightarrow> bool" where
  "is_space c \<longleftrightarrow> (of_char c :: nat) \<in> {9, 10, 11, 12, 13, 32, 160}"

definition trim :: "string \<Rightarrow> string" where
  "trim s = rev (dropWhile is_space (rev (dropWhile is_space s)))"

definition js_exponent :: "string \<Rightarrow> int option" where
  "js_exponent s =
     (let neg = (take 1 s = ''-'');
          ds = (if take 1 s = ''-'' \<or> take 1 s = ''+'' then drop 1 s else s)
      in if ds = [] \<or> \<not> list_all is_digit ds then None
         else Some (if neg then - int (nat_of_digits ds) else int (nat_of_digits ds)))"

definition js_unsigned :: "string \<Rightarrow> rat option" where
  "js_unsigned s =
     (let ip = takeWhile is_digit s; r1 = dropWhile is_digit s;
          fp = (if take 1 r1 = ''.'' then takeWhile is_digit (drop 1 r1) else []);
          r2 = (if take 1 r1 = ''.'' then dropWhile is_digit (drop 1 r1) else r1);
          mant = (\<lambda>e. of_nat (nat_of_digits (ip @ fp)) * 10 powi (e - int (length fp)))
      in if ip = [] \<and> fp = [] then None
         else if r2 = [] then Some (mant 0)
         else if take 1 r2 = ''e'' \<or> take 1 r2 = ''E''
         then map_option mant (js_exponent (drop 1 r2))
         else None)"

definition hex_val :: "char \<Rightarrow> nat option" where
  "hex_val c =
     (let n = of_char c :: nat
      in if is_digit c then Some (digit_val c)
         else if 65 \<le> n \<and> n \<le> 70 then Some (n - 55)
         else if 97 \<le> n \<and> n \<le> 102 then Some (n - 87) else None)"

definition radix_value :: "nat \<Rightarrow> string \<Rightarrow> rat option" where
  "radix_value b s =
     (if s = [] \<or> \<not> list_all (\<lambda>c. case hex_val c of None \<Rightarrow> False | Some d \<Rightarrow> d < b) s then None
      else Some (of_nat (foldl (\<lambda>a c. b * a + the (hex_val c)) 0 s)))"

definition js_number :: "string \<Rightarrow> jsnum" where
  "js_number s0 =
     (let s = trim s0; p = take 2 s;
          body = (if take 1 s = ''-'' \<or> take 1 s = ''+'' then drop 1 s else s);
          num = (\<lambda>v. case v of None \<Rightarrow> NaN | Some r \<Rightarrow> js r)
      in if s = [] then Fin 0
         else if p = ''0x'' \<or> p = ''0X'' then num (radix_value 16 (drop 2 s))
         else if p = ''0o'' \<or> p = ''0O'' then num (radix_value 8 (drop 2 s))
         else if p = ''0b'' \<or> p = ''0B'' then num (radix_value 2 (drop 2 s))
         else if body = ''Infinity'' then (if take 1 s = ''-'' then NInf else PInf)
         else if take 1 s = ''-'' then - num (js_unsigned body)
         else num (js_unsigned body))"

section \<open>The round trip\<close>

lemma is_digit_digit_char [simp]: "d < 10 \<Longrightarrow> is_digit (digit_char d)"
  by (simp add: is_digit_def digit_char_def)

lemma digit_val_digit_char [simp]: "d < 10 \<Longrightarrow> digit_val (digit_char d) = d"
  by (simp add: digit_val_def digit_char_def)

lemma nat_of_digits_snoc: "nat_of_digits (ds @ [c]) = 10 * nat_of_digits ds + digit_val c"
  by (simp add: nat_of_digits_def)

lemma nat_of_digits_of [simp]: "nat_of_digits (digits_of n) = n"
proof (induction n rule: digits_of.induct)
  case (1 n)
  show ?case
  proof (cases "n < 10")
    case True
    then show ?thesis by (simp add: digits_of.simps[of n] nat_of_digits_def)
  next
    case False
    then show ?thesis using 1 by (simp add: digits_of.simps[of n] nat_of_digits_snoc)
  qed
qed

lemma digits_of_digits: "list_all is_digit (digits_of n)"
proof (induction n rule: digits_of.induct)
  case (1 n)
  then show ?case by (cases "n < 10") (simp_all add: digits_of.simps[of n])
qed

lemma digits_of_not_Nil [simp]: "digits_of n \<noteq> []"
  by (subst digits_of.simps) simp

lemma length_digits_of:
  "10 ^ k \<le> n \<Longrightarrow> n < 10 ^ Suc k \<Longrightarrow> length (digits_of n) = Suc k"
proof (induction k arbitrary: n)
  case 0
  then show ?case by (simp add: digits_of.simps[of n])
next
  case (Suc k)
  have "(10::nat) ^ Suc k \<ge> 10" by simp
  then have "\<not> n < 10" using Suc.prems(1) by linarith
  moreover have "10 ^ k \<le> n div 10" "n div 10 < 10 ^ Suc k" using Suc.prems by auto
  ultimately show ?case using Suc.IH[of "n div 10"] by (simp add: digits_of.simps[of n])
qed

lemma nat_of_digits_zeros: "nat_of_digits (ds @ replicate j (CHR ''0'')) = nat_of_digits ds * 10 ^ j"
proof (induction j)
  case (Suc j)
  have "ds @ replicate (Suc j) (CHR ''0'') = (ds @ replicate j (CHR ''0'')) @ [CHR ''0'']"
    by (simp add: replicate_append_same)
  then show ?case using Suc by (simp only: nat_of_digits_snoc) (simp add: digit_val_def)
qed simp

lemma nat_of_zeros_digits: "nat_of_digits (replicate j (CHR ''0'') @ ds) = nat_of_digits ds"
proof -
  have "foldl (\<lambda>a c. 10 * a + digit_val c) 0 (replicate j (CHR ''0'')) = 0"
    by (induction j) (simp_all add: digit_val_def)
  then show ?thesis by (simp add: nat_of_digits_def)
qed

lemma num_digits_bounds:
  "0 < n \<Longrightarrow> 10 ^ (num_digits n - 1) \<le> n \<and> n < 10 ^ num_digits n \<and> 0 < num_digits n"
proof (induction n rule: num_digits.induct)
  case (1 n)
  have sd: "num_digits n = Suc (num_digits (n div 10))" using 1 by (simp add: num_digits.simps[of n])
  show ?case
  proof (cases "n div 10 = 0")
    case True
    then show ?thesis using 1 by (auto simp: sd num_digits.simps[of 0])
  next
    case False
    then have IH: "10 ^ (num_digits (n div 10) - 1) \<le> n div 10" "n div 10 < 10 ^ num_digits (n div 10)"
      "0 < num_digits (n div 10)" using 1 by auto
    then obtain m where m: "num_digits (n div 10) = Suc m" using gr0_implies_Suc by blast
    show ?thesis using IH by (simp add: sd m) linarith
  qed
qed

lemma powi10_nat: "(10::rat) powi int k = 10 ^ k"
  by simp

lemma decimal_exponent_bounds:
  assumes "0 < x"
  shows "10 powi (decimal_exponent x - 1) \<le> x" "x < 10 powi decimal_exponent x"
proof -
  have "10 powi (decimal_exponent x - 1) \<le> x \<and> x < 10 powi decimal_exponent x"
  proof (cases "1 \<le> x")
    case True
    define m where "m = nat \<lfloor>x\<rfloor>"
    have fl: "1 \<le> \<lfloor>x\<rfloor>" using True by simp
    have m: "0 < m" "of_nat m \<le> x" "x < of_nat m + 1" using fl of_int_floor_le[of x] floor_correct[of x] by (simp_all add: m_def)
    have b: "10 ^ (num_digits m - 1) \<le> m" "m < 10 ^ num_digits m" "0 < num_digits m" using num_digits_bounds[OF m(1)] by auto
    have "(of_nat (10 ^ (num_digits m - 1)) :: rat) \<le> of_nat m" using b(1) by (simp only: of_nat_le_iff)
    then have "10 ^ (num_digits m - 1) \<le> x" using m(2) by (metis of_nat_numeral of_nat_power order_trans)
    moreover have "(of_nat (m + 1) :: rat) \<le> of_nat (10 ^ num_digits m)" using b(2) by (simp only: of_nat_le_iff)
    then have "x < 10 ^ num_digits m" using m(3) by simp
    ultimately show ?thesis using True b(3) by (simp add: decimal_exponent_def power_int_def nat_diff_distrib flip: m_def)
  next
    case False
    define i where "i = 1 / x"
    define m where "m = nat (\<lceil>i\<rceil> - 1)"
    have i: "1 < i" using False assms by (simp add: i_def)
    then have c: "2 \<le> \<lceil>i\<rceil>" by linarith
    have m: "0 < m" "of_nat m < i" "i \<le> of_nat m + 1"
      using c ceiling_correct[of i] by (simp_all add: m_def)
    have b: "10 ^ (num_digits m - 1) \<le> m" "m < 10 ^ num_digits m" "0 < num_digits m" using num_digits_bounds[OF m(1)] by auto
    have "(of_nat (10 ^ (num_digits m - 1)) :: rat) \<le> of_nat m" using b(1) by (simp only: of_nat_le_iff)
    then have lo: "10 ^ (num_digits m - 1) < i" using m(2) by (metis of_nat_numeral of_nat_power le_less_trans)
    have "(of_nat (m + 1) :: rat) \<le> of_nat (10 ^ num_digits m)" using b(2) by (simp only: of_nat_le_iff)
    then have hi: "i \<le> 10 ^ num_digits m" using m by simp
    have de: "decimal_exponent x = 1 - int (num_digits m)" using False by (simp add: decimal_exponent_def i_def m_def)
    have x: "x = 1 / i" by (simp add: i_def)
    have e1: "10 powi (decimal_exponent x - 1) = 1 / (10::rat) ^ num_digits m"
      by (simp add: de power_int_minus divide_inverse)
    have e2: "10 powi decimal_exponent x = 1 / (10::rat) ^ (num_digits m - 1)"
      using b(3) by (cases "num_digits m") (simp_all add: de power_int_minus divide_inverse)
    have "1 / 10 ^ num_digits m \<le> 1 / i" using hi i by (intro frac_le) auto
    moreover have "1 / i < 1 / 10 ^ (num_digits m - 1)" using lo i by (intro frac_less2) auto
    ultimately show ?thesis by (simp add: e1 e2 flip: x)
  qed
  then show "10 powi (decimal_exponent x - 1) \<le> x" "x < 10 powi decimal_exponent x" by auto
qed

lemma powi10_pos [simp]: "0 < (10::rat) powi k"
  by (simp add: zero_less_power_int)

lemma powi10_add: "(10::rat) powi (a + b) = 10 powi a * 10 powi b"
  by (simp add: power_int_add)

lemma digits_candidate_sound:
  assumes x: "10 powi (n - 1) \<le> x" "x < 10 powi n" and k: "1 \<le> k"
    and c: "digits_candidate x n k = Some (s, n')"
  shows "round64 (of_nat s * 10 powi (n' - int k)) = x" "10 ^ (k - 1) \<le> s" "s < 10 ^ k"
proof -
  define y where "y = x * 10 powi (int k - n)"
  define lo where "lo = nat \<lfloor>y\<rfloor>"
  define ok where "ok = (\<lambda>s. 0 < s \<and> round64 (of_nat s * 10 powi (n - int k)) = x)"
  define norm where "norm = (\<lambda>s::nat. if s = 10 ^ k then (10 ^ (k - 1), n + 1) else (s, n))"
  have yb: "10 ^ (k - 1) \<le> y" "y < 10 ^ k"
  proof -
    have "10 powi (n - 1) * 10 powi (int k - n) \<le> y" unfolding y_def using x by (intro mult_right_mono) auto
    then have "10 powi (int k - 1) \<le> y" by (simp flip: powi10_add)
    then show "10 ^ (k - 1) \<le> y" using k by (simp add: power_int_def nat_diff_distrib)
    have "y < 10 powi n * 10 powi (int k - n)" unfolding y_def using x by (intro mult_strict_right_mono) auto
    then show "y < 10 ^ k" by (simp flip: powi10_add)
  qed
  have lob: "10 ^ (k - 1) \<le> lo" "lo < 10 ^ k"
  proof -
    have "(10::int) ^ (k - 1) \<le> \<lfloor>y\<rfloor>" using yb(1) by (simp add: le_floor_iff)
    then show "10 ^ (k - 1) \<le> lo" by (simp add: lo_def nat_le_iff le_nat_iff)
    have "\<lfloor>y\<rfloor> < 10 ^ k" using yb(2) by (simp add: floor_less_iff)
    then show "lo < 10 ^ k" by (simp add: lo_def nat_less_iff)
  qed
  have "\<exists>t. ok t \<and> (t = lo \<or> t = lo + 1) \<and> (s, n') = norm t"
    using c unfolding digits_candidate_def Let_def y_def[symmetric] lo_def[symmetric] ok_def[symmetric] norm_def[symmetric]
    by (auto split: if_splits)
  then obtain t where t: "ok t" "t = lo \<or> t = lo + 1" "(s, n') = norm t" by blast
  have v: "(of_nat (10 ^ (k - 1)) :: rat) * 10 powi (n + 1 - int k) = of_nat (10 ^ k) * 10 powi (n - int k)"
  proof -
    have "n + 1 - int k = 1 + (n - int k)" by simp
    then have "(10::rat) powi (n + 1 - int k) = 10 * 10 powi (n - int k)" by (simp only: powi10_add) simp
    then show ?thesis using k by (cases k) simp_all
  qed
  have "of_nat s * 10 powi (n' - int k) = (of_nat t :: rat) * 10 powi (n - int k)"
    using t(3) v by (cases "t = 10 ^ k") (simp_all add: norm_def)
  with t(1) show "round64 (of_nat s * 10 powi (n' - int k)) = x" by (simp add: ok_def)
  show "10 ^ (k - 1) \<le> s" "s < 10 ^ k" using t(2,3) lob k by (auto simp: norm_def split: if_splits)
qed

lemma grid_scaled: "m * 2 powi (- int N) * 10 ^ (N + i) = (m * (5 ^ N * 10 ^ i) :: rat)"
proof -
  have "(10::rat) ^ N = 2 ^ N * 5 ^ N" by (simp flip: power_mult_distrib)
  then show ?thesis by (simp add: power_add power_int_minus)
qed

lemma binary64_decimal:
  assumes "binary64 x" "n + 1074 \<le> int k" shows "\<exists>z. x * 10 powi (int k - n) = of_int z"
proof -
  obtain m where m: "x = of_int m * 2 powi (- int 1074)" using assms binary64_grid[of x] by auto
  have "1074 \<le> nat (int k - n)" using assms(2) by linarith
  then obtain i where i: "nat (int k - n) = 1074 + i" using le_Suc_ex by blast
  have "(10::rat) powi (int k - n) = 10 ^ (1074 + i)" using assms(2) unfolding i[symmetric] power_int_def by simp
  then have "x * 10 powi (int k - n) = of_int m * (5 ^ 1074 * 10 ^ i)" by (simp only: m grid_scaled)
  also have "\<dots> = of_int (m * (5 ^ 1074 * 10 ^ i))" by (simp only: of_int_mult of_int_power of_int_numeral)
  finally show ?thesis by blast
qed

lemma digits_candidate_exact:
  assumes "0 < x" "binary64 x" "n + 1074 \<le> int k" shows "digits_candidate x n k \<noteq> None"
proof -
  obtain z where z: "x * 10 powi (int k - n) = of_int z" using binary64_decimal assms by blast
  have "0 < x * 10 powi (int k - n)" using assms(1) by simp
  then have z0: "0 < z" by (simp add: z)
  have "of_int z * 10 powi (n - int k) = x * (10 powi (int k - n) * 10 powi (n - int k))"
    by (simp only: z[symmetric] mult.assoc)
  then have "of_int z * 10 powi (n - int k) = x" by (simp flip: powi10_add)
  then have "round64 (of_nat (nat z) * 10 powi (n - int k)) = x"
    using z0 assms(2) by (simp add: binary64_def)
  then show ?thesis using z0 by (simp add: digits_candidate_def Let_def z)
qed

lemma digits_search_sound:
  assumes "0 < x" "binary64 x" "1 \<le> k0"
  shows "digits_search x n k0 = (k, s, n') \<Longrightarrow> 1 \<le> k \<and> digits_candidate x n k = Some (s, n')"
  using assms
proof (induction x n k0 rule: digits_search.induct)
  case (1 x n k0)
  show ?case
  proof (cases "digits_candidate x n k0")
    case None
    then have lt: "int k0 < n + 1074" using digits_candidate_exact[of x n k0] 1 by force
    with None 1 show ?thesis by (simp add: digits_search.simps[of x n k0])
  next
    case (Some a)
    with 1 show ?thesis by (cases a) (simp add: digits_search.simps[of x n k0])
  qed
qed


definition plain_char :: "char \<Rightarrow> bool" where
  "plain_char c \<longleftrightarrow> is_digit c \<or> c \<in> set ''.e+-''"

lemma takeWhile_digits_app:
  "list_all is_digit ds \<Longrightarrow> takeWhile is_digit (ds @ r) = ds @ takeWhile is_digit r"
  "list_all is_digit ds \<Longrightarrow> dropWhile is_digit (ds @ r) = dropWhile is_digit r"
  by (induction ds) auto

lemma takeWhile_digits:
  "list_all is_digit ds \<Longrightarrow> takeWhile is_digit ds = ds"
  "list_all is_digit ds \<Longrightarrow> dropWhile is_digit ds = []"
  by (induction ds) auto

lemma not_digit [simp]: "\<not> is_digit (CHR ''.'')" "\<not> is_digit (CHR ''e'')" "\<not> is_digit (CHR ''-'')" "\<not> is_digit (CHR ''+'')"
  "is_digit (CHR ''0'')"
  by (simp_all add: is_digit_def)

lemma js_exponent_digits:
  "js_exponent ((if 0 \<le> e then ''+'' else ''-'') @ digits_of (nat \<bar>e\<bar>)) = Some e"
  using digits_of_digits by (simp add: js_exponent_def)

lemma js_unsigned_format:
  assumes s: "10 ^ (k - 1) \<le> s" "s < 10 ^ k" "1 \<le> k"
  shows "js_unsigned (format_decimal k s n) = Some (of_nat s * 10 powi (n - int k))"
proof -
  define ds where "ds = digits_of s"
  have len: "length ds = k" using length_digits_of[of "k - 1" s] s by (simp add: ds_def)
  have dig: "list_all is_digit ds" by (simp add: ds_def digits_of_digits)
  have val: "nat_of_digits ds = s" by (simp add: ds_def)
  have tk: "list_all is_digit (take m ds)" "list_all is_digit (drop m ds)" for m
    using dig by (metis append_take_drop_id list_all_append)+
  have z: "list_all is_digit (replicate m (CHR ''0''))" for m by (simp add: list_all_iff)
  consider (a) "int k \<le> n" "n \<le> 21" | (b) "0 < n" "n < int k" "n \<le> 21" | (c) "- 6 < n" "n \<le> 0"
    | (d) "\<not> (int k \<le> n \<and> n \<le> 21)" "\<not> (0 < n \<and> n \<le> 21)" "\<not> (- 6 < n \<and> n \<le> 0)" by linarith
  then show ?thesis
  proof cases
    case a
    then have f: "format_decimal k s n = ds @ replicate (nat (n - int k)) (CHR ''0'')"
      by (simp add: format_decimal_def flip: ds_def)
    have "(10::rat) ^ nat (n - int k) = 10 powi (n - int k)" using a by (simp add: power_int_def)
    then show ?thesis using len s(3) unfolding f js_unsigned_def Let_def
      by (simp add: takeWhile_digits_app[OF dig] takeWhile_digits[OF z]
          nat_of_digits_zeros val) (use len s(3) in auto)
  next
    case b
    then have f: "format_decimal k s n = take (nat n) ds @ ''.'' @ drop (nat n) ds"
      by (simp add: format_decimal_def flip: ds_def)
    have ne: "take (nat n) ds \<noteq> []" using b len by auto
    have "int (length (drop (nat n) ds)) = int k - n" using b len by simp
    then show ?thesis using ne unfolding f js_unsigned_def Let_def
      by (simp add: takeWhile_digits_app[OF tk(1)] takeWhile_digits[OF tk(2)] takeWhile_digits_app[OF tk(2)] val)
  next
    case c
    then have f: "format_decimal k s n = ''0.'' @ replicate (nat (- n)) (CHR ''0'') @ ds"
      using s(3) by (simp add: format_decimal_def flip: ds_def)
    have dz: "list_all is_digit (replicate (nat (- n)) (CHR ''0'') @ ds)" using z dig by simp
    have "nat_of_digits (CHR ''0'' # replicate (nat (- n)) (CHR ''0'') @ ds) = s"
      using nat_of_zeros_digits[of "Suc (nat (- n))" ds] val by simp
    then show ?thesis using c len unfolding f js_unsigned_def Let_def
      by (simp add: takeWhile_digits[OF dz])
  next
    case d
    then have f: "format_decimal k s n = take 1 ds @ (if k = 1 then [] else ''.'' @ drop 1 ds) @ ''e''
              @ (if 0 \<le> n - 1 then ''+'' else ''-'') @ digits_of (nat \<bar>n - 1\<bar>)"
      unfolding format_decimal_def Let_def ds_def [symmetric] by (simp only: d if_False)
    have ne: "take 1 ds \<noteq> []" using s(3) len by auto
    have e: "n - 1 - int (k - 1) = n - int k" using s(3) by simp
    have ex: "js_exponent ((if 0 \<le> n - 1 then ''+'' else ''-'') @ digits_of (nat \<bar>n - 1\<bar>)) = Some (n - 1)"
      by (rule js_exponent_digits)
    show ?thesis
    proof (cases "k = 1")
      case True
      then have "take 1 ds = ds" using len by simp
      then show ?thesis using ne True ex e unfolding f js_unsigned_def Let_def
        by (simp add: takeWhile_digits_app[OF tk(1)] takeWhile_digits_app[OF dig] val del: take_eq_Nil)
    next
      case False
      show ?thesis using ne False ex e len unfolding f js_unsigned_def Let_def
        by (simp add: takeWhile_digits_app[OF tk(1)] takeWhile_digits[OF tk(2)] takeWhile_digits_app[OF tk(2)] val del: take_eq_Nil)
    qed
  qed
qed

lemma plain_digits: "list_all is_digit ds \<Longrightarrow> list_all plain_char ds"
  by (auto simp: list_all_iff plain_char_def)

lemma plain_format: "list_all plain_char (format_decimal k s n)"
proof -
  have D: "list_all plain_char (digits_of m)" for m using digits_of_digits plain_digits by blast
  then have T: "list_all plain_char (take j (digits_of m))" "list_all plain_char (drop j (digits_of m))" for j m
    by (meson in_set_dropD in_set_takeD list_all_iff)+
  have C: "plain_char (CHR ''0'')" "plain_char (CHR ''.'')" "plain_char (CHR ''e'')" "plain_char (CHR ''+'')"
    "plain_char (CHR ''-'')" by (simp_all add: plain_char_def)
  have Z: "list_all plain_char (replicate j (CHR ''0''))" for j by (induction j) (simp_all add: C)
  show ?thesis by (simp add: format_decimal_def Let_def D T C Z)
qed

lemma trim_plain: "list_all plain_char s \<Longrightarrow> trim s = s"
proof -
  assume "list_all plain_char s"
  then have ns: "\<forall>c \<in> set s. \<not> is_space c" by (auto simp: list_all_iff plain_char_def is_digit_def is_space_def)
  then have "dropWhile is_space s = s" "dropWhile is_space (rev s) = rev s"
    by (metis dropWhile_eq_self_iff hd_in_set, metis dropWhile_eq_self_iff hd_in_set set_rev)
  then show ?thesis by (simp add: trim_def)
qed


lemma string_of_pos_props:
  assumes "0 < x" "binary64 x" "x < 2 ^ 1024"
  shows "list_all plain_char (string_of_pos x)" "\<exists>v. js_unsigned (string_of_pos x) = Some v \<and> js v = Fin x"
proof -
  obtain k s n' where d: "digits_search x (decimal_exponent x) 1 = (k, s, n')" by (metis prod_cases3)
  then have f: "string_of_pos x = format_decimal k s n'" by (simp add: string_of_pos_def)
  show "list_all plain_char (string_of_pos x)" by (simp add: f plain_format)
  have k: "1 \<le> k" and c: "digits_candidate x (decimal_exponent x) k = Some (s, n')"
    using digits_search_sound[OF assms(1,2) order_refl d] by auto
  have r: "round64 (of_nat s * 10 powi (n' - int k)) = x" and b: "10 ^ (k - 1) \<le> s" "s < 10 ^ k"
    using digits_candidate_sound[OF decimal_exponent_bounds[OF assms(1)] k c] by auto
  have "js (of_nat s * 10 powi (n' - int k)) = Fin x"
    using assms by (simp add: js_def r Let_def)
  then show "\<exists>v. js_unsigned (string_of_pos x) = Some v \<and> js v = Fin x"
    using js_unsigned_format[OF b k] by (simp add: f)
qed

lemma js_minus: "js (- r) = - js r"
  by (auto simp: js_def Let_def)

lemma js_unsigned_head:
  "js_unsigned s = Some v \<Longrightarrow> \<exists>c t. s = c # t \<and> (is_digit c \<or> c = CHR ''.'')"
  by (cases s) (auto simp: js_unsigned_def Let_def split: if_splits)

text \<open>Reading the string of a number gives the number back, for every value of the type.\<close>

lemma js_number_string:
  assumes "is_double x" shows "js_number (js_string x) = x"
proof (cases x)
  case (Fin r)
  have pos: "js_number (string_of_pos a) = Fin a \<and> js_number (''-'' @ string_of_pos a) = Fin (- a)"
    if a: "0 < a" "binary64 a" "a < 2 ^ 1024" for a
  proof -
    obtain v where v: "js_unsigned (string_of_pos a) = Some v" "js v = Fin a" using string_of_pos_props[OF a] by blast
    have p: "list_all plain_char (string_of_pos a)" using string_of_pos_props[OF a] by blast
    obtain c t where ct: "string_of_pos a = c # t" "is_digit c \<or> c = CHR ''.''" using js_unsigned_head v(1) by blast
    have c: "c \<noteq> CHR ''-''" "c \<noteq> CHR ''+''" "c \<noteq> CHR ''I''" using ct(2) by (auto simp: is_digit_def)
    have np: "\<not> plain_char (CHR ''x'')" "\<not> plain_char (CHR ''X'')" "\<not> plain_char (CHR ''o'')"
      "\<not> plain_char (CHR ''O'')" "\<not> plain_char (CHR ''b'')" "\<not> plain_char (CHR ''B'')"
      by (simp_all add: plain_char_def is_digit_def)
    have t: "list_all plain_char (c # t)" using p by (simp add: ct(1))
    have pm: "list_all plain_char (CHR ''-'' # c # t)" using t by (simp add: plain_char_def)
    have h: "take 1 t \<noteq> [d]" if "\<not> plain_char d" for d using t that by (cases t) auto
    have "take 2 (c # t) = c # take 1 t" by (simp add: numeral_2_eq_2)
    then have "js_number (c # t) = Fin a"
      using v c h np ct(1) unfolding js_number_def trim_plain[OF t] Let_def by simp
    moreover have "js_number (CHR ''-'' # c # t) = Fin (- a)"
      using v c ct(1) unfolding js_number_def trim_plain[OF pm] Let_def by simp
    ultimately show ?thesis by (simp add: ct(1))
  qed
  show ?thesis
  proof (cases r "0 :: rat" rule: linorder_cases)
    case less
    then show ?thesis using Fin assms pos[of "- r"] by auto
  next
    case equal
    have "trim ''0'' = ''0''" by (simp add: trim_def is_space_def)
    then have "js_number ''0'' = Fin 0"
      by (simp add: js_number_def js_unsigned_def nat_of_digits_def digit_val_def)
    then show ?thesis using Fin equal by simp
  next
    case greater
    then show ?thesis using Fin assms pos[of r] by auto
  qed
qed (simp_all add: js_number_def trim_def is_space_def js_unsigned_def is_digit_def)

lemma js_string_inj: "is_double x \<Longrightarrow> is_double y \<Longrightarrow> js_string x = js_string y \<longleftrightarrow> x = y"
  using js_number_string by metis

lemma is_double_js_neg: "is_double x \<Longrightarrow> is_double (- x)"
  by (cases x) (auto simp: is_double_def)

lemma is_double_js_number [simp, intro]: "is_double (js_number s)"
  by (auto simp: js_number_def Let_def intro!: is_double_js_neg split: option.split)

declare js_string.simps [simp del]

end
