(* ===== verification/EngineTypes.thy ===== *)
theory EngineTypes
  imports JsString
begin

text \<open>
  The data of the matching engine: the in-memory store of \<open>apps/engine/src/store.ts\<close>, the rows of
  \<open>packages/db/src/schema.ts\<close> it exchanges with the other services, the payloads of
  \<open>packages/shared/src/redis-events.ts\<close> it emits, and the market table of
  \<open>packages/db/src/markets.ts\<close>. Record fields carry a prefix for their type, since Isabelle has
  one name space for the fields of all records. Dates are milliseconds since the epoch.
\<close>

section \<open>Enumerations\<close>

datatype TPositionType = LONG | SHORT

datatype TOrderType = Market | Limit

datatype TOrderStatus = Pending | Open | PartiallyFilled | Filled | Cancelled

datatype TExitType = MANUAL | LIQUIDATED

datatype TSupportedAssets = SOL | ETH | BTC

text \<open>The strings the statuses are on the wire and in the database.\<close>

fun status_string :: "TOrderStatus \<Rightarrow> string" where
  "status_string Pending = ''pending''"
| "status_string Open = ''open''"
| "status_string PartiallyFilled = ''partially_filled''"
| "status_string Filled = ''filled''"
| "status_string Cancelled = ''cancelled''"

fun opposite :: "TPositionType \<Rightarrow> TPositionType" where
  "opposite LONG = SHORT"
| "opposite SHORT = LONG"

lemma opposite_opposite [simp]: "opposite (opposite t) = t"
  by (cases t) auto

lemma opposite_neq [simp]: "opposite t \<noteq> t" "t \<noteq> opposite t"
  by (cases t; simp)+

lemma neq_opposite: "a \<noteq> b \<longleftrightarrow> a = opposite (b :: TPositionType)"
  by (cases a; cases b) auto

section \<open>Users and positions\<close>

record TPosition =
  p_marketId :: string
  p_type :: TPositionType
  p_qty :: jsnum
  p_margin :: jsnum
  p_liquidationPrice :: jsnum
  p_pnL :: "jsnum option"
  p_averagePrice :: jsnum

record TClosedPosition = TPosition +
  c_exitType :: TExitType

record TCollateral =
  available :: jsnum
  locked :: jsnum

record TUser =
  u_userId :: string
  u_collateral :: TCollateral
  u_positions :: "TPosition list"
  u_closedPositions :: "TClosedPosition list"

type_synonym TUsers = "(string \<times> TUser) list"

text \<open>The account \<open>handle\<close> creates for a user it has not seen.\<close>

definition new_user :: "string \<Rightarrow> jsnum \<Rightarrow> TUser" where
  "new_user userId amount =
     \<lparr>u_userId = userId, u_collateral = \<lparr>available = amount, locked = 0\<rparr>,
      u_positions = [], u_closedPositions = []\<rparr>"

section \<open>The order book\<close>

record TOpenOrder =
  o_userId :: string
  o_qty :: jsnum
  o_filledQty :: jsnum
  o_orderId :: string
  o_status :: TOrderStatus
  o_margin :: jsnum
  o_marketId :: string
  o_positionType :: TPositionType
  o_createdAt :: int

record TBid =
  availableQty :: jsnum
  openOrders :: "TOpenOrder list"

text \<open>One side of the book: the levels by the string of their price.\<close>

type_synonym TSide = "(string \<times> TBid) list"

record TOrderbook =
  bids :: TSide
  asks :: TSide
  lastTradedPrice :: jsnum
  indexPrice :: jsnum
  allowedLeverage :: jsnum

section \<open>Orders and fills as rows\<close>

text \<open>
  \<open>SelectOrderRecord\<close>: an \<open>orders\<close> row, its money columns strings. The dates are absent in the rows
  a liquidation hands to the writer.
\<close>

record SelectOrderRecord =
  r_id :: string
  r_userId :: string
  r_marketId :: string
  r_positionType :: TPositionType
  r_orderType :: TOrderType
  r_status :: TOrderStatus
  r_qty :: string
  r_filledQty :: string
  r_price :: string
  r_slippage :: jsnum
  r_initialMargin :: string
  r_createdAt :: "int option"
  r_updatedAt :: "int option"

text \<open>\<open>OrderRecordNumberified\<close>: the same row with its money columns read as numbers.\<close>

record OrderRecordNumberified =
  n_id :: string
  n_userId :: string
  n_marketId :: string
  n_positionType :: TPositionType
  n_orderType :: TOrderType
  n_status :: TOrderStatus
  n_qty :: jsnum
  n_filledQty :: jsnum
  n_price :: jsnum
  n_slippage :: jsnum
  n_initialMargin :: jsnum
  n_createdAt :: "int option"

record FillRecordNumberified =
  f_id :: string
  f_makerId :: string
  f_takerId :: string
  f_marketId :: string
  f_qty :: jsnum
  f_price :: jsnum
  f_makerOrderId :: string
  f_takerOrderId :: string

text \<open>\<open>InsertFillRecord\<close>: a fill as the writer payload carries it.\<close>

record InsertFillRecord =
  if_id :: string
  if_makerId :: string
  if_takerId :: string
  if_marketId :: string
  if_qty :: string
  if_price :: string
  if_makerOrderId :: string
  if_takerOrderId :: string

record TOrderDataForWriter =
  w_orderId :: string
  w_userId :: string
  w_status :: TOrderStatus
  w_filledQty :: jsnum

text \<open>The writer payload: the rows of one table per entry, discriminated by the table.\<close>

datatype TWriterEntry =
    FillsEntry "InsertFillRecord list"
  | OrderUpdatesEntry "TOrderDataForWriter list"
  | OrderInsertsEntry "SelectOrderRecord list"

section \<open>What the engine publishes\<close>

datatype TTradeSide = Buy | Sell

record TTradePrint =
  t_id :: string
  t_price :: string
  t_qty :: string
  t_side :: TTradeSide
  t_ts :: int

record TMarketDepth =
  d_market :: string
  d_lastUpdateId :: jsnum
  d_timestamp :: int
  d_bids :: "(string \<times> string) list"
  d_asks :: "(string \<times> string) list"

record TWsServer =
  ws_depth :: TMarketDepth
  ws_lastTradedPrice :: string
  ws_indexPrice :: string
  ws_trades :: "TTradePrint list option"

record TUserPosition =
  up_marketId :: string
  up_type :: TPositionType
  up_qty :: string
  up_margin :: string
  up_averagePrice :: string
  up_liquidationPrice :: string

record TUserOrder =
  uo_id :: string
  uo_marketId :: string
  uo_positionType :: TPositionType
  uo_orderType :: TOrderType
  uo_status :: TOrderStatus
  uo_qty :: string
  uo_filledQty :: string
  uo_price :: string
  uo_slippage :: jsnum
  uo_initialMargin :: string
  uo_createdAt :: int

datatype TOrigin = User | Liquidation

datatype TRole = Maker | Taker

datatype TUserEvent =
    OrderUpdate string string TOrderStatus string
      \<comment> \<open>orderId, marketId, status, filledQty\<close>
  | OrderNew TUserOrder TOrigin
  | FillEvent string string string TPositionType TRole string string int
      \<comment> \<open>fillId, orderId, marketId, side, role, price, qty, ts\<close>
  | PositionEvent string "TUserPosition option"
      \<comment> \<open>marketId, the position or null\<close>
  | BalanceEvent string string
      \<comment> \<open>available, locked\<close>

type_synonym TWsUser = "(string \<times> TUserEvent list) list"

section \<open>The store\<close>

text \<open>The \<open>fills\<close> array and \<open>totalSystemDeposits\<close> of the store are written by nothing and left out.\<close>

record TStore =
  orderbooks :: "(string \<times> TOrderbook) list"
  users :: TUsers
  supportedAssets :: "(TSupportedAssets \<times> string) list"
  lastUpdateId :: jsnum

text \<open>
  What the engine draws from the runtime: \<open>crypto.randomUUID\<close> and the clock. Both are parameters,
  functions of how often they were called, so that a run of the engine is determined by them.
\<close>

record runtime =
  uuid_of :: "nat \<Rightarrow> string"
  date_now :: "nat \<Rightarrow> int"

text \<open>
  The engine: its store, the counters of the runtime, and what it handed to \<open>uploadToS3\<close> (a service
  outside the repository), the message id and the store of each backup.
\<close>

record engine =
  store :: TStore
  uuids_used :: nat
  clock_reads :: nat
  uploads :: "(string \<times> TStore) list"

text \<open>Errors: a thrown \<open>Error\<close> with its message, or a property read off \<open>undefined\<close>.\<close>

datatype engine_error = Error string | TypeError

section \<open>The initial store\<close>

definition SOL_ID :: string where "SOL_ID = ''e3289213-372c-44d2-8cc8-2a6eb55b11b1''"
definition ETH_ID :: string where "ETH_ID = ''13931aa2-9054-4e34-ac0f-4a8afad48226''"
definition BTC_ID :: string where "BTC_ID = ''e59931c4-c54a-435f-8c57-382fa60fca58''"

text \<open>\<open>MARKETS\<close>: market identity and the leverage cap.\<close>

fun market_id :: "TSupportedAssets \<Rightarrow> string" where
  "market_id SOL = SOL_ID"
| "market_id ETH = ETH_ID"
| "market_id BTC = BTC_ID"

fun market_maxLeverage :: "TSupportedAssets \<Rightarrow> jsnum" where
  "market_maxLeverage SOL = Fin 30"
| "market_maxLeverage ETH = Fin 3"
| "market_maxLeverage BTC = Fin 8"

text \<open>\<open>SUPPORTED_ASSETS\<close>: per asset, the seed prices.\<close>

fun seed_prices :: "TSupportedAssets \<Rightarrow> jsnum \<times> jsnum" where
  "seed_prices SOL = (Fin 90, Fin 85)"
| "seed_prices ETH = (Fin 1900, Fin 1850)"
| "seed_prices BTC = (Fin 5000, Fin 4930)"

definition seed_book :: "TSupportedAssets \<Rightarrow> TOrderbook" where
  "seed_book a =
     \<lparr>bids = [], asks = [], lastTradedPrice = fst (seed_prices a), indexPrice = snd (seed_prices a),
      allowedLeverage = market_maxLeverage a\<rparr>"

definition createExchangeStore :: "TStore option \<Rightarrow> TStore" where
  "createExchangeStore backupStore =
     (case backupStore of
        Some s \<Rightarrow> s
      | None \<Rightarrow>
          \<lparr>orderbooks = map (\<lambda>a. (market_id a, seed_book a)) [SOL, ETH, BTC],
           users = [],
           supportedAssets = map (\<lambda>a. (a, market_id a)) [SOL, ETH, BTC],
           lastUpdateId = 0\<rparr>)"

lemma market_id_inj: "market_id a = market_id b \<longleftrightarrow> a = b"
  by (cases a; cases b) (simp_all add: SOL_ID_def ETH_ID_def BTC_ID_def)

section \<open>Reading and writing the store\<close>

definition getUserById :: "TUsers \<Rightarrow> string \<Rightarrow> TUser option" where
  "getUserById us userId = map_of us userId"

definition setUser :: "string \<Rightarrow> TUser \<Rightarrow> TUsers \<Rightarrow> TUsers" where
  "setUser userId u us = AList.update userId u us"

lemma getUserById_setUser [store_simps, simp]:
  "getUserById (setUser k u us) k' = (if k' = k then Some u else getUserById us k')"
  by (simp add: getUserById_def setUser_def update_conv')

text \<open>A write through the reference \<open>store.users.get(userId)\<close>.\<close>

definition modifyUser :: "string \<Rightarrow> (TUser \<Rightarrow> TUser) \<Rightarrow> TUsers \<Rightarrow> TUsers" where
  "modifyUser userId f us =
     (case getUserById us userId of None \<Rightarrow> us | Some u \<Rightarrow> setUser userId (f u) us)"

lemma setUser_keys: "k \<in> fst ` set us \<Longrightarrow> map fst (setUser k u us) = map fst us"
  by (simp add: setUser_def map_fst_update)

lemma setUser_keys_known: "getUserById us k = Some u' \<Longrightarrow> map fst (setUser k u us) = map fst us"
  by (rule setUser_keys) (auto simp: getUserById_def dest: map_of_SomeD intro: rev_image_eqI)

lemma modifyUser_keys [store_simps, simp]: "map fst (modifyUser k f us) = map fst us"
  by (simp add: modifyUser_def setUser_keys_known split: option.split)

lemma getUserById_modifyUser [store_simps, simp]:
  "getUserById (modifyUser k f us) k' =
     (if k' = k then map_option f (getUserById us k) else getUserById us k')"
  by (simp add: modifyUser_def split: option.split)

lemma getUserById_key: "getUserById us k = Some u \<Longrightarrow> k \<in> fst ` set us"
  by (auto simp: getUserById_def dest: map_of_SomeD intro: rev_image_eqI)

end
