(* ===== verification/OrderBook.thy ===== *)
theory OrderBook
  imports EngineTypes
begin

text \<open>
  The read side of the book, from \<open>apps/engine/src/services/exchange-engine.ts\<close>: the best price of
  a side beyond a given one, the oldest order of a level, and the depth snapshot. Price priority
  and time priority are proved here, of the scans the code runs.
\<close>

section \<open>Best prices\<close>

definition ask_scan :: "jsnum \<Rightarrow> jsnum \<Rightarrow> string \<times> TBid \<Rightarrow> jsnum" where
  "ask_scan startFrom minPrice = (\<lambda>(price, ask).
     let currentPrice = js_number price
     in if minPrice > currentPrice \<and> currentPrice > startFrom \<and> availableQty ask > 0
        then currentPrice else minPrice)"

definition getNextBestAskPrice :: "TSide \<Rightarrow> jsnum \<Rightarrow> jsnum option" where
  "getNextBestAskPrice as startFrom =
     (let minPrice = foldl (ask_scan startFrom) PInf as
      in if minPrice = PInf then None else Some minPrice)"

definition bid_scan :: "jsnum \<Rightarrow> jsnum \<Rightarrow> string \<times> TBid \<Rightarrow> jsnum" where
  "bid_scan startFrom maxPrice = (\<lambda>(price, bid).
     let currentPrice = js_number price
     in if currentPrice > maxPrice \<and> startFrom > currentPrice \<and> availableQty bid > 0
        then currentPrice else maxPrice)"

definition getNextBestBidPrice :: "TSide \<Rightarrow> jsnum \<Rightarrow> jsnum option" where
  "getNextBestBidPrice bs startFrom =
     (let maxPrice = foldl (bid_scan startFrom) NInf bs
      in if maxPrice = NInf then None else Some maxPrice)"

text \<open>The default arguments of the two functions.\<close>

definition ask_start :: jsnum where "ask_start = Fin (- 1)"
definition bid_start :: jsnum where "bid_start = PInf"

text \<open>A level a taker can reach: positive quantity at a price beyond \<open>startFrom\<close>.\<close>

definition live_ask :: "jsnum \<Rightarrow> string \<times> TBid \<Rightarrow> bool" where
  "live_ask startFrom e \<longleftrightarrow>
     js_number (fst e) < PInf \<and> startFrom < js_number (fst e) \<and> 0 < availableQty (snd e)"

definition live_bid :: "jsnum \<Rightarrow> string \<times> TBid \<Rightarrow> bool" where
  "live_bid startFrom e \<longleftrightarrow>
     NInf < js_number (fst e) \<and> js_number (fst e) < startFrom \<and> 0 < availableQty (snd e)"

text \<open>
  Both scans are one scan with a different order: prices are better downwards for a buyer and
  upwards for a seller. The contract of the scan is proved once.
\<close>

locale price_priority =
  fixes better :: "jsnum \<Rightarrow> jsnum \<Rightarrow> bool" and worst :: jsnum
  assumes better_trans: "better x y \<Longrightarrow> better y z \<Longrightarrow> better x z"
    and better_irrefl: "\<not> better x x"
    and better_numbers: "better x y \<Longrightarrow> x \<noteq> NaN \<and> y \<noteq> NaN"
    and better_total: "x \<noteq> NaN \<Longrightarrow> y \<noteq> NaN \<Longrightarrow> better x y \<or> x = y \<or> better y x"
    and worst_number: "worst \<noteq> NaN"
begin

abbreviation scan :: "(string \<times> TBid \<Rightarrow> bool) \<Rightarrow> jsnum \<Rightarrow> string \<times> TBid \<Rightarrow> jsnum" where
  "scan P m e \<equiv> (if better (js_number (fst e)) m \<and> P e then js_number (fst e) else m)"

lemma scan_number: "m \<noteq> NaN \<Longrightarrow> foldl (scan P) m es \<noteq> NaN"
  by (induction es arbitrary: m) (auto dest: better_numbers)

lemma scan_improves: "foldl (scan P) m es = m \<or> better (foldl (scan P) m es) m"
proof (induction es arbitrary: m)
  case (Cons e es)
  define m' where "m' = scan P m e"
  have f: "foldl (scan P) m (e # es) = foldl (scan P) m' es" by (simp add: m'_def)
  have "m' = m \<or> better m' m" by (auto simp: m'_def)
  then show ?case unfolding f using Cons.IH[of m'] by (elim disjE) (auto dest: better_trans)
qed simp

lemma scan_source:
  "foldl (scan P) m es = m \<or>
    (\<exists>e \<in> set es. js_number (fst e) = foldl (scan P) m es \<and> P e \<and> better (js_number (fst e)) m)"
proof (induction es arbitrary: m)
  case (Cons e es)
  define m' where "m' = scan P m e"
  have f: "foldl (scan P) m (e # es) = foldl (scan P) m' es" by (simp add: m'_def)
  have m': "m' = m \<or> (js_number (fst e) = m' \<and> P e \<and> better m' m)" by (auto simp: m'_def)
  have "foldl (scan P) m' es = m' \<or>
    (\<exists>e \<in> set es. js_number (fst e) = foldl (scan P) m' es \<and> P e \<and> better (js_number (fst e)) m')"
    by (rule Cons.IH)
  then show ?case unfolding f
  proof (elim disjE bexE conjE)
    fix x assume x: "x \<in> set es" "js_number (fst x) = foldl (scan P) m' es" "P x" "better (js_number (fst x)) m'"
    have "better (js_number (fst x)) m" using m' x(4) better_trans by blast
    with x show "foldl (scan P) m' es = m \<or> (\<exists>e \<in> set (e # es).
      js_number (fst e) = foldl (scan P) m' es \<and> P e \<and> better (js_number (fst e)) m)" by auto
  next
    assume eq: "foldl (scan P) m' es = m'"
    show "foldl (scan P) m' es = m \<or> (\<exists>e \<in> set (e # es).
      js_number (fst e) = foldl (scan P) m' es \<and> P e \<and> better (js_number (fst e)) m)"
      unfolding eq using m' by (metis list.set_intros(1))
  qed
qed simp

lemma scan_best:
  assumes "m \<noteq> NaN" "e \<in> set es" "P e" shows "\<not> better (js_number (fst e)) (foldl (scan P) m es)"
  using assms
proof (induction es arbitrary: m)
  case (Cons a es)
  define m' where "m' = scan P m a"
  have m': "m' \<noteq> NaN" using Cons.prems(1) by (auto simp: m'_def dest: better_numbers)
  have f: "foldl (scan P) m (a # es) = foldl (scan P) m' es" by (simp add: m'_def)
  show ?case
  proof (cases "e \<in> set es")
    case True
    then show ?thesis using Cons.IH[OF m' _ Cons.prems(3)] f by simp
  next
    case False
    then have a: "a = e" using Cons.prems(2) by simp
    show ?thesis
    proof
      define X where "X = foldl (scan P) m' es"
      assume "better (js_number (fst e)) (foldl (scan P) m (a # es))"
      then have b: "better (js_number (fst e)) X" unfolding f X_def .
      have "X = m' \<or> better X m'" unfolding X_def by (rule scan_improves)
      then have b': "better (js_number (fst e)) m'" using b better_trans by blast
      show False
      proof (cases "better (js_number (fst e)) m")
        case True
        then show False using b' Cons.prems(3) better_irrefl by (simp add: m'_def a)
      next
        case False
        then show False using b' by (simp add: m'_def a)
      qed
    qed
  qed
qed simp

end

interpretation ask: price_priority "(<)" PInf
  by unfold_locales (auto dest: js_less_trans js_linear js_less_not_NaN)

interpretation bid: price_priority "(>)" NInf
  by unfold_locales (auto dest: js_less_trans js_linear js_less_not_NaN)

lemma ask_scan_scan:
  "ask_scan s = ask.scan (\<lambda>e. s < js_number (fst e) \<and> 0 < availableQty (snd e))"
  by (auto simp: ask_scan_def fun_eq_iff Let_def)

lemma bid_scan_scan:
  "bid_scan s = bid.scan (\<lambda>e. js_number (fst e) < s \<and> 0 < availableQty (snd e))"
  by (auto simp: bid_scan_def fun_eq_iff Let_def)

lemma getNextBestAskPrice_Some:
  assumes "getNextBestAskPrice as s = Some p"
  shows "\<exists>e \<in> set as. live_ask s e \<and> js_number (fst e) = p"
    and "e \<in> set as \<Longrightarrow> live_ask s e \<Longrightarrow> p \<le> js_number (fst e)"
proof -
  let ?P = "\<lambda>e. s < js_number (fst e) \<and> 0 < availableQty (snd e)"
  have f: "foldl (ask.scan ?P) PInf as = p" "p \<noteq> PInf"
    using assms by (auto simp: getNextBestAskPrice_def ask_scan_scan Let_def split: if_splits)
  then show "\<exists>e \<in> set as. live_ask s e \<and> js_number (fst e) = p"
    using ask.scan_source[of ?P PInf as] by (auto simp: live_ask_def)
  assume e: "e \<in> set as" "live_ask s e"
  have "\<not> js_number (fst e) < p" using ask.scan_best[of PInf e as ?P] e f by (simp add: live_ask_def)
  moreover have "p \<noteq> NaN" using ask.scan_number[of PInf ?P as] f by simp
  ultimately show "p \<le> js_number (fst e)" using e js_not_less js_less_not_NaN by (auto simp: live_ask_def)
qed

lemma getNextBestAskPrice_None:
  assumes "getNextBestAskPrice as s = None" "e \<in> set as" shows "\<not> live_ask s e"
proof -
  let ?P = "\<lambda>e. s < js_number (fst e) \<and> 0 < availableQty (snd e)"
  have "foldl (ask.scan ?P) PInf as = PInf"
    using assms(1) by (auto simp: getNextBestAskPrice_def ask_scan_scan Let_def split: if_splits)
  then show ?thesis using ask.scan_best[of PInf e as ?P] assms(2) by (auto simp: live_ask_def)
qed

lemma getNextBestBidPrice_Some:
  assumes "getNextBestBidPrice bs s = Some p"
  shows "\<exists>e \<in> set bs. live_bid s e \<and> js_number (fst e) = p"
    and "e \<in> set bs \<Longrightarrow> live_bid s e \<Longrightarrow> js_number (fst e) \<le> p"
proof -
  let ?P = "\<lambda>e. js_number (fst e) < s \<and> 0 < availableQty (snd e)"
  have f: "foldl (bid.scan ?P) NInf bs = p" "p \<noteq> NInf"
    using assms by (auto simp: getNextBestBidPrice_def bid_scan_scan Let_def split: if_splits)
  then show "\<exists>e \<in> set bs. live_bid s e \<and> js_number (fst e) = p"
    using bid.scan_source[of ?P NInf bs] by (auto simp: live_bid_def)
  assume e: "e \<in> set bs" "live_bid s e"
  have "\<not> p < js_number (fst e)" using bid.scan_best[of NInf e bs ?P] e f by (simp add: live_bid_def)
  moreover have "p \<noteq> NaN" using bid.scan_number[of NInf ?P bs] f by simp
  ultimately show "js_number (fst e) \<le> p" using e js_not_less js_less_not_NaN by (auto simp: live_bid_def)
qed

lemma getNextBestBidPrice_None:
  assumes "getNextBestBidPrice bs s = None" "e \<in> set bs" shows "\<not> live_bid s e"
proof -
  let ?P = "\<lambda>e. js_number (fst e) < s \<and> 0 < availableQty (snd e)"
  have "foldl (bid.scan ?P) NInf bs = NInf"
    using assms(1) by (auto simp: getNextBestBidPrice_def bid_scan_scan Let_def split: if_splits)
  then show ?thesis using bid.scan_best[of NInf e bs ?P] assms(2) by (auto simp: live_bid_def)
qed

lemma next_ask_gt: "getNextBestAskPrice as s = Some p \<Longrightarrow> s < p \<and> p < PInf \<and> is_double p"
  using getNextBestAskPrice_Some(1) by (fastforce simp: live_ask_def)

lemma next_bid_lt: "getNextBestBidPrice bs s = Some p \<Longrightarrow> p < s \<and> NInf < p \<and> is_double p"
  using getNextBestBidPrice_Some(1) by (fastforce simp: live_bid_def)

section \<open>The oldest order of a level\<close>

fun first_created_scan :: "TOpenOrder \<Rightarrow> nat \<Rightarrow> nat \<Rightarrow> TOpenOrder list \<Rightarrow> nat \<times> TOpenOrder" where
  "first_created_scan firstOrder minIndex i [] = (minIndex, firstOrder)"
| "first_created_scan firstOrder minIndex i (currentOrder # rest) =
     (if o_createdAt firstOrder > o_createdAt currentOrder
      then first_created_scan currentOrder i (i + 1) rest
      else first_created_scan firstOrder minIndex (i + 1) rest)"

definition getFirstCreatedOrder :: "TOpenOrder list \<Rightarrow> (nat \<times> TOpenOrder) option" where
  "getFirstCreatedOrder os =
     (case os of [] \<Rightarrow> None | o1 # rest \<Rightarrow> Some (first_created_scan o1 0 1 rest))"

lemma first_created_scan_spec:
  assumes "first_created_scan f m (length pre) rest = (i, ord)" "m < length pre" "pre ! m = f"
    "\<forall>j < length pre. o_createdAt f \<le> o_createdAt (pre ! j)"
    "\<forall>j < m. o_createdAt f < o_createdAt (pre ! j)"
  shows "i < length (pre @ rest) \<and> (pre @ rest) ! i = ord
    \<and> (\<forall>j < length (pre @ rest). o_createdAt ord \<le> o_createdAt ((pre @ rest) ! j))
    \<and> (\<forall>j < i. o_createdAt ord < o_createdAt ((pre @ rest) ! j))"
  using assms
proof (induction rest arbitrary: f m pre)
  case Nil
  then show ?case by simp
next
  case (Cons c rest)
  have app: "pre @ c # rest = (pre @ [c]) @ rest" "length pre + 1 = length (pre @ [c])" by simp_all
  show ?case
  proof (cases "o_createdAt f > o_createdAt c")
    case True
    have "\<forall>j < length (pre @ [c]). o_createdAt c \<le> o_createdAt ((pre @ [c]) ! j)"
      "\<forall>j < length pre. o_createdAt c < o_createdAt ((pre @ [c]) ! j)"
      using True Cons.prems(4) by (fastforce simp: nth_append less_Suc_eq)+
    then show ?thesis using Cons.IH[where f = c and pre = "pre @ [c]" and m = "length pre"] Cons.prems(1) True unfolding app(1) by simp
  next
    case False
    have "\<forall>j < length (pre @ [c]). o_createdAt f \<le> o_createdAt ((pre @ [c]) ! j)"
      "\<forall>j < m. o_createdAt f < o_createdAt ((pre @ [c]) ! j)" "(pre @ [c]) ! m = f"
      using False Cons.prems by (auto simp: nth_append less_Suc_eq)
    then show ?thesis using Cons.IH[where f = f and pre = "pre @ [c]" and m = m] Cons.prems(1,2) False unfolding app(1) by simp
  qed
qed

lemma getFirstCreatedOrder_Some:
  assumes "getFirstCreatedOrder os = Some (i, ord)"
  shows "i < length os" "os ! i = ord"
    "j < length os \<Longrightarrow> o_createdAt ord \<le> o_createdAt (os ! j)"
    "j < i \<Longrightarrow> o_createdAt ord < o_createdAt (os ! j)"
proof -
  obtain o1 rest where os: "os = o1 # rest"
    using assms by (auto simp: getFirstCreatedOrder_def split: list.splits)
  have "first_created_scan o1 0 (length [o1]) rest = (i, ord)" using assms by (simp add: getFirstCreatedOrder_def os)
  from first_created_scan_spec[OF this]
  show "i < length os" "os ! i = ord"
    "j < length os \<Longrightarrow> o_createdAt ord \<le> o_createdAt (os ! j)"
    "j < i \<Longrightarrow> o_createdAt ord < o_createdAt (os ! j)" by (auto simp: os)
qed

lemma getFirstCreatedOrder_None [simp]: "getFirstCreatedOrder os = None \<longleftrightarrow> os = []"
  by (auto simp: getFirstCreatedOrder_def split: list.splits)

text \<open>Orders in the order of their creation: the oldest is the first.\<close>

lemma getFirstCreatedOrder_sorted:
  assumes "sorted (map o_createdAt (o1 # rest))"
  shows "getFirstCreatedOrder (o1 # rest) = Some (0, o1)"
proof -
  obtain i ord where g: "getFirstCreatedOrder (o1 # rest) = Some (i, ord)"
    by (metis getFirstCreatedOrder_None list.distinct(1) not_None_eq old.prod.exhaust)
  have "i = 0"
  proof (rule ccontr)
    assume "i \<noteq> 0"
    then have "o_createdAt ord < o_createdAt o1" using getFirstCreatedOrder_Some(4)[OF g, of 0] by simp
    moreover have "o_createdAt o1 \<le> o_createdAt ord"
      using assms getFirstCreatedOrder_Some(1,2)[OF g] \<open>i \<noteq> 0\<close> by (cases i) auto
    ultimately show False by simp
  qed
  then show ?thesis using g getFirstCreatedOrder_Some(2)[OF g] by simp
qed

section \<open>The depth snapshot\<close>

definition maxDepth :: nat where "maxDepth = 20"

text \<open>
  The two loops of \<open>getMarketDepth\<close>. The counter of the code stops a loop at \<open>maxDepth\<close>; here it
  counts down. A best price whose level is not found under its own string would be a property
  read off \<open>undefined\<close>.
\<close>

fun depth_bids :: "nat \<Rightarrow> TSide \<Rightarrow> jsnum option \<Rightarrow> engine_error + (string \<times> string) list" where
  "depth_bids 0 bs best = Inr []"
| "depth_bids (Suc k) bs best =
     (case best of
        None \<Rightarrow> Inr []
      | Some p \<Rightarrow>
          (if \<not> js_truthy p then Inr []
           else (case map_of bs (js_string p) of
                   None \<Rightarrow> Inl TypeError
                 | Some l \<Rightarrow>
                     map_sum id (\<lambda>ls. (js_string p, js_string (availableQty l)) # ls)
                       (depth_bids k bs (getNextBestBidPrice bs p)))))"

fun depth_asks :: "nat \<Rightarrow> TSide \<Rightarrow> jsnum option \<Rightarrow> engine_error + (string \<times> string) list" where
  "depth_asks 0 as best = Inr []"
| "depth_asks (Suc k) as best =
     (case best of
        None \<Rightarrow> Inr []
      | Some p \<Rightarrow>
          (if \<not> js_truthy p then Inr []
           else (case map_of as (js_string p) of
                   None \<Rightarrow> Inl TypeError
                 | Some l \<Rightarrow>
                     map_sum id (\<lambda>ls. (js_string p, js_string (availableQty l)) # ls)
                       (depth_asks k as (getNextBestAskPrice as p)))))"

text \<open>
  \<open>store.orderbooks\<close> and the sides are plain objects: a key they do not have is \<open>undefined\<close>, unless it
  is the name of a member of \<open>Object.prototype\<close>. Those members are functions and one object; none has
  \<open>bids\<close>, \<open>asks\<close>, \<open>openOrders\<close> or \<open>allowedLeverage\<close>, so reading on in them ends in a \<open>TypeError\<close>.
\<close>

definition prototypeMembers :: "string list" where
  "prototypeMembers =
     [''constructor'', ''__defineGetter__'', ''__defineSetter__'', ''hasOwnProperty'', ''__lookupGetter__'',
      ''__lookupSetter__'', ''isPrototypeOf'', ''propertyIsEnumerable'', ''toString'', ''valueOf'', ''__proto__'',
      ''toLocaleString'']"

definition inherited :: "string \<Rightarrow> bool" where
  "inherited key \<longleftrightarrow> key \<in> set prototypeMembers"

text \<open>None of these names is the string of a number.\<close>

lemma inherited_NaN: "inherited k \<Longrightarrow> js_number k = NaN"
  unfolding inherited_def prototypeMembers_def
  by (simp only: list.set insert_iff empty_iff, elim disjE FalseE; hypsubst) code_simp+

definition getMarketDepth :: "TStore \<Rightarrow> string \<Rightarrow> int \<Rightarrow> engine_error + TMarketDepth" where
  "getMarketDepth s marketId now =
     (case map_of (orderbooks s) marketId of
        None \<Rightarrow> Inl (if inherited marketId then TypeError else Error ''Unsupported market symbol'')
      | Some ob \<Rightarrow>
          (case depth_bids maxDepth (bids ob) (getNextBestBidPrice (bids ob) bid_start) of
             Inl e \<Rightarrow> Inl e
           | Inr ds_bids \<Rightarrow>
               (case depth_asks maxDepth (asks ob) (getNextBestAskPrice (asks ob) ask_start) of
                  Inl e \<Rightarrow> Inl e
                | Inr ds_asks \<Rightarrow>
                    Inr \<lparr>d_market = marketId, d_lastUpdateId = lastUpdateId s, d_timestamp = now,
                         d_bids = ds_bids, d_asks = ds_asks\<rparr>)))"

text \<open>
  The keys of a side are canonical when each is the string of the number it reads as. The engine
  only ever writes such keys, and with them every best price has its level.
\<close>

definition canonical :: "TSide \<Rightarrow> bool" where
  "canonical sd \<longleftrightarrow> (\<forall>k \<in> fst ` set sd. js_string (js_number k) = k) \<and> distinct (map fst sd)"

lemma canonical_lookup:
  assumes "canonical sd" "(k, l) \<in> set sd" shows "map_of sd (js_string (js_number k)) = Some l"
  using assms by (force simp: canonical_def)

lemma canonical_update: "canonical sd \<Longrightarrow> is_double p \<Longrightarrow> canonical (AList.update (js_string p) l sd)"
  by (auto simp: canonical_def js_number_string distinct_update dom_update)

lemma canonical_delete: "canonical sd \<Longrightarrow> canonical (AList.delete k sd)"
  by (auto simp: canonical_def AList.distinct_delete dest!: in_set_delete)

lemma canonical_Nil [simp]: "canonical []"
  by (simp add: canonical_def)

end
