(* ===== verification/Positions.thy ===== *)
theory Positions
  imports OrderBook
begin

text \<open>
  Margin and position arithmetic of \<open>apps/engine/src/services/exchange-engine.ts\<close>: the averages and
  the liquidation price, \<open>createPosition\<close> with its one-way netting, the mark-to-market pass over
  all users and the hourly funding. All of it in doubles, rounded to cents where the code does.
\<close>

section \<open>Arithmetic\<close>

definition getRoudedNumber :: "jsnum \<Rightarrow> jsnum" where
  "getRoudedNumber numberToRound = js_fixed 2 numberToRound"

definition getUserMarketPosition :: "TPosition list \<Rightarrow> string \<Rightarrow> (nat \<times> TPosition) option" where
  "getUserMarketPosition positions marketId =
     (case find_index (\<lambda>pos. p_marketId pos = marketId) positions of
        None \<Rightarrow> None
      | Some positionIndex \<Rightarrow> Some (positionIndex, positions ! positionIndex))"

definition calculateRelativeMargin :: "jsnum \<Rightarrow> jsnum \<Rightarrow> jsnum \<Rightarrow> jsnum" where
  "calculateRelativeMargin totalMargin totalQty filledQty =
     getRoudedNumber ((totalMargin / totalQty) * filledQty)"

text \<open>The arguments are the quantity and the price of the past and of the new data.\<close>

definition calculateWeightedAveragePrice :: "jsnum \<times> jsnum \<Rightarrow> jsnum \<times> jsnum \<Rightarrow> jsnum" where
  "calculateWeightedAveragePrice pastData newData =
     (let pastTotal = fst pastData * snd pastData;
          newTotal = fst newData * snd newData;
          totalPrice = pastTotal + newTotal;
          totalQty = fst pastData + fst newData
      in getRoudedNumber (totalPrice / totalQty))"

text \<open>The literal \<open>0.01\<close> of the code is the double nearest to a hundredth.\<close>

definition js_0_01 :: jsnum where
  "js_0_01 = js (1 / 100)"

definition calculateLiquidationPrice ::
  "jsnum \<Rightarrow> jsnum \<Rightarrow> TPositionType \<Rightarrow> jsnum \<Rightarrow> jsnum" where
  "calculateLiquidationPrice margin qty type averagePrice =
     (let maintenanceMarginPercentage = js_0_01;
          maintenanceMarginAmt = maintenanceMarginPercentage * margin;
          maxAllowedLoss = margin - maintenanceMarginAmt;
          maxAllowedLossPerUnit = maxAllowedLoss / qty
      in if type = LONG then getRoudedNumber (averagePrice - maxAllowedLossPerUnit)
         else getRoudedNumber (averagePrice + maxAllowedLossPerUnit))"

section \<open>Opening, growing and netting a position\<close>

text \<open>The payload of \<open>createPosition\<close>: a position without its liquidation price (and without a PnL).\<close>

record TPositionPayload =
  pp_marketId :: string
  pp_type :: TPositionType
  pp_qty :: jsnum
  pp_margin :: jsnum
  pp_averagePrice :: jsnum

text \<open>
  \<open>createPosition user payload lastTradedPrice\<close> returns the user as the call leaves it; no caller
  uses the position it returns. A position netted flat is taken out of the list first, so what the
  code writes to it afterwards is not seen again.
\<close>

definition createPosition :: "TUser \<Rightarrow> TPositionPayload \<Rightarrow> jsnum \<Rightarrow> TUser" where
  "createPosition user payload lastTraded =
     (let marketId = pp_marketId payload; type = pp_type payload; qty = pp_qty payload;
          margin = pp_margin payload; averagePrice = pp_averagePrice payload
      in case getUserMarketPosition (u_positions user) marketId of
           None \<Rightarrow>
             user\<lparr>u_positions := u_positions user @
               [\<lparr>p_marketId = marketId, p_type = type, p_qty = qty, p_margin = margin,
                 p_liquidationPrice = calculateLiquidationPrice margin qty type averagePrice,
                 p_pnL = None, p_averagePrice = averagePrice\<rparr>]\<rparr>
         | Some (positionIndex, existingPosition) \<Rightarrow>
             if p_type existingPosition \<noteq> type then
               (let updatedQuantity = p_qty existingPosition - qty;
                    absUpdatedQuantity = \<bar>updatedQuantity\<bar>;
                    newAveragePrice = calculateWeightedAveragePrice
                      (p_qty existingPosition, p_averagePrice existingPosition)
                      (absUpdatedQuantity, averagePrice);
                    currentTotalPrice = lastTraded * qty;
                    newTotalPrice = newAveragePrice * qty;
                    pnLAfterNetting =
                      (if p_type existingPosition = LONG then currentTotalPrice - newTotalPrice
                       else newTotalPrice - currentTotalPrice);
                    flat = js_eq updatedQuantity 0;
                    marginNeededAfterNetting =
                      (if flat then Some (p_margin existingPosition)
                       else if updatedQuantity > 0 then
                         Some (calculateRelativeMargin (p_margin existingPosition)
                                 (p_qty existingPosition) absUpdatedQuantity)
                       else if updatedQuantity < 0 then
                         Some (calculateRelativeMargin margin qty absUpdatedQuantity)
                       else None);
                    collateral =
                      (case marginNeededAfterNetting of
                         None \<Rightarrow> u_collateral user
                       | Some m \<Rightarrow>
                           \<lparr>available = available (u_collateral user) + (pnLAfterNetting + m),
                            locked = locked (u_collateral user) - m\<rparr>);
                    newType =
                      (if \<not> flat \<and> \<not> updatedQuantity > 0 \<and> updatedQuantity < 0 then type
                       else p_type existingPosition);
                    newMargin =
                      (case marginNeededAfterNetting of
                         None \<Rightarrow> p_margin existingPosition | Some m \<Rightarrow> m);
                    position = existingPosition
                      \<lparr>p_type := newType, p_margin := newMargin, p_averagePrice := newAveragePrice,
                       p_qty := absUpdatedQuantity, p_pnL := Some pnLAfterNetting,
                       p_liquidationPrice :=
                         calculateLiquidationPrice newMargin absUpdatedQuantity type newAveragePrice\<rparr>
                in if flat then
                     user\<lparr>u_collateral := collateral,
                       u_closedPositions := u_closedPositions user @
                         [TPosition.extend existingPosition (TClosedPosition.fields MANUAL)],
                       u_positions := splice1 positionIndex (u_positions user)\<rparr>
                   else
                     user\<lparr>u_collateral := collateral,
                       u_positions := (u_positions user)[positionIndex := position]\<rparr>)
             else
               (let updatedQuantity = p_qty existingPosition + qty;
                    newAveragePrice = calculateWeightedAveragePrice
                      (p_qty existingPosition, p_averagePrice existingPosition)
                      (updatedQuantity, averagePrice);
                    newMargin = p_margin existingPosition + margin;
                    position = existingPosition
                      \<lparr>p_averagePrice := newAveragePrice, p_qty := updatedQuantity, p_margin := newMargin,
                       p_liquidationPrice :=
                         calculateLiquidationPrice newMargin updatedQuantity type newAveragePrice\<rparr>
                in user\<lparr>u_positions := (u_positions user)[positionIndex := position]\<rparr>))"

section \<open>Marking to market and funding\<close>

definition unrealisedPnL :: "jsnum \<Rightarrow> TPosition \<Rightarrow> jsnum" where
  "unrealisedPnL lastTraded p =
     (if p_type p = LONG then (lastTraded - p_averagePrice p) * p_qty p
      else (p_averagePrice p - lastTraded) * p_qty p)"

definition updateUnrealisedPnL :: "jsnum \<Rightarrow> string \<Rightarrow> TUser \<Rightarrow> TUser" where
  "updateUnrealisedPnL lastTraded marketId user =
     (case find_index (\<lambda>p. p_marketId p = marketId) (u_positions user) of
        None \<Rightarrow> user
      | Some i \<Rightarrow>
          user\<lparr>u_positions := (u_positions user)
            [i := (u_positions user ! i)
               \<lparr>p_pnL := Some (getRoudedNumber (unrealisedPnL lastTraded (u_positions user ! i)))\<rparr>]\<rparr>)"

definition updateUnrealisedPnLForAllUsers :: "jsnum \<Rightarrow> string \<Rightarrow> TUsers \<Rightarrow> TUsers" where
  "updateUnrealisedPnLForAllUsers lastTraded marketId us =
     map (\<lambda>(k, u). (k, updateUnrealisedPnL lastTraded marketId u)) us"

definition fundPosition :: "(string \<times> TOrderbook) list \<Rightarrow> TPosition \<Rightarrow> TPosition" where
  "fundPosition obs position =
     (case map_of obs (p_marketId position) of
        None \<Rightarrow> position
      | Some ob \<Rightarrow>
          (let inflationRate = (lastTradedPrice ob - indexPrice ob) / indexPrice ob;
               notionalValue = p_qty position * lastTradedPrice ob;
               margin = (if p_type position = LONG
                         then p_margin position - notionalValue * inflationRate
                         else p_margin position + notionalValue * inflationRate)
           in position\<lparr>p_margin := margin,
                p_liquidationPrice :=
                  calculateLiquidationPrice margin (p_qty position) (p_type position)
                    (p_averagePrice position)\<rparr>))"

definition disperseFundingRate :: "TStore \<Rightarrow> TStore" where
  "disperseFundingRate s =
     s\<lparr>users := map (\<lambda>(k, u). (k, u\<lparr>u_positions := map (fundPosition (orderbooks s)) (u_positions u)\<rparr>))
                 (users s)\<rparr>"

section \<open>What a position update leaves alone\<close>

text \<open>One-way netting: at most one position per market.\<close>

definition one_way :: "TUser \<Rightarrow> bool" where
  "one_way u \<longleftrightarrow> distinct (map p_marketId (u_positions u))"

lemma getUserMarketPosition_Some:
  assumes "getUserMarketPosition ps m = Some (i, p)"
  shows "i < length ps" "ps ! i = p" "p_marketId p = m" "p \<in> set ps"
  using assms find_index_Some[of _ ps] by (auto simp: getUserMarketPosition_def split: option.splits)

lemma getUserMarketPosition_None:
  "getUserMarketPosition ps m = None \<longleftrightarrow> m \<notin> p_marketId ` set ps"
  using find_index_None[of "\<lambda>p. p_marketId p = m" ps]
  by (cases "find_index (\<lambda>p. p_marketId p = m) ps") (auto simp: getUserMarketPosition_def)

lemma createPosition_cases:
  obtains (fresh) "getUserMarketPosition (u_positions u) (pp_marketId pl) = None"
      "createPosition u pl t = u\<lparr>u_positions := u_positions u @
         [\<lparr>p_marketId = pp_marketId pl, p_type = pp_type pl, p_qty = pp_qty pl, p_margin = pp_margin pl,
           p_liquidationPrice = calculateLiquidationPrice (pp_margin pl) (pp_qty pl) (pp_type pl) (pp_averagePrice pl),
           p_pnL = None, p_averagePrice = pp_averagePrice pl\<rparr>]\<rparr>"
  | (close) i p where "getUserMarketPosition (u_positions u) (pp_marketId pl) = Some (i, p)"
      "p_type p \<noteq> pp_type pl" "js_eq (p_qty p - pp_qty pl) 0"
      "u_positions (createPosition u pl t) = splice1 i (u_positions u)"
      "u_closedPositions (createPosition u pl t) =
         u_closedPositions u @ [TPosition.extend p (TClosedPosition.fields MANUAL)]"
  | (net) i p q where "getUserMarketPosition (u_positions u) (pp_marketId pl) = Some (i, p)"
      "p_type p \<noteq> pp_type pl" "\<not> js_eq (p_qty p - pp_qty pl) 0"
      "u_positions (createPosition u pl t) = (u_positions u)[i := q]"
      "p_marketId q = p_marketId p" "p_qty q = \<bar>p_qty p - pp_qty pl\<bar>"
      "p_type q = (if \<not> p_qty p - pp_qty pl > 0 \<and> p_qty p - pp_qty pl < 0 then pp_type pl else p_type p)"
  | (grow) i p q where "getUserMarketPosition (u_positions u) (pp_marketId pl) = Some (i, p)"
      "p_type p = pp_type pl"
      "createPosition u pl t = u\<lparr>u_positions := (u_positions u)[i := q]\<rparr>"
      "p_marketId q = p_marketId p" "p_qty q = p_qty p + pp_qty pl" "p_type q = p_type p"
      "p_margin q = p_margin p + pp_margin pl"
proof (cases "getUserMarketPosition (u_positions u) (pp_marketId pl)")
  case None
  then show ?thesis by (intro fresh) (simp_all add: createPosition_def Let_def)
next
  case (Some ip)
  obtain i p where ip: "ip = (i, p)" by force
  note S = Some[unfolded ip]
  show ?thesis
  proof (cases "p_type p = pp_type pl")
    case True
    let ?avg = "calculateWeightedAveragePrice (p_qty p, p_averagePrice p) (p_qty p + pp_qty pl, pp_averagePrice pl)"
    show ?thesis
      by (rule grow[OF S True, where q = "p\<lparr>p_averagePrice := ?avg, p_qty := p_qty p + pp_qty pl,
          p_margin := p_margin p + pp_margin pl, p_liquidationPrice := calculateLiquidationPrice
            (p_margin p + pp_margin pl) (p_qty p + pp_qty pl) (pp_type pl) ?avg\<rparr>"])
        (simp_all add: createPosition_def S True Let_def)
  next
    case ne: False
    show ?thesis
    proof (cases "js_eq (p_qty p - pp_qty pl) 0")
      case True
      show ?thesis by (rule close[OF S ne True]) (simp_all add: createPosition_def S ne True[unfolded zero_jsnum_def] Let_def)
    next
      case False
      have i: "i < length (u_positions u)" using getUserMarketPosition_Some[OF S] by blast
      show ?thesis
        by (rule net[OF S ne False, where q = "u_positions (createPosition u pl t) ! i"])
          (simp_all add: createPosition_def S ne False[unfolded zero_jsnum_def] Let_def i)
    qed
  qed
qed

lemma createPosition_userId [simp]: "u_userId (createPosition u pl t) = u_userId u"
  by (simp add: createPosition_def Let_def split: option.split prod.split)

lemma createPosition_one_way: "one_way u \<Longrightarrow> one_way (createPosition u pl t)"
proof (cases rule: createPosition_cases[of u pl t])
  case fresh
  moreover assume "one_way u"
  ultimately show ?thesis by (simp add: one_way_def getUserMarketPosition_None)
next
  case (close i p)
  moreover assume "one_way u"
  ultimately show ?thesis by (simp add: one_way_def map_splice1 distinct_splice1)
next
  case (net i p q)
  moreover assume "one_way u"
  ultimately show ?thesis using getUserMarketPosition_Some[OF net(1)]
    by (simp add: one_way_def map_list_update_same)
next
  case (grow i p q)
  moreover assume "one_way u"
  ultimately show ?thesis using getUserMarketPosition_Some[OF grow(1)]
    by (simp add: one_way_def map_list_update_same)
qed

text \<open>The positions of the other markets are the same before and after.\<close>

lemma createPosition_other_markets:
  assumes "m \<noteq> pp_marketId pl"
  shows "filter (\<lambda>p. p_marketId p = m) (u_positions (createPosition u pl t))
       = filter (\<lambda>p. p_marketId p = m) (u_positions u)"
proof -
  have upd: "filter P (xs[i := x]) = filter P xs" if "i < length xs" "\<not> P (xs ! i)" "\<not> P x"
    for P and xs :: "TPosition list" and i x
    using that by (simp add: upd_conv_take_nth_drop filter_append) (subst (2) id_take_nth_drop[of i xs], simp_all)
  have spl: "filter P (splice1 i xs) = filter P xs" if "i < length xs" "\<not> P (xs ! i)"
    for P and xs :: "TPosition list" and i
    using that by (simp add: splice1_def filter_append) (subst (3) id_take_nth_drop[of i xs], simp_all)
  show ?thesis
  proof (cases rule: createPosition_cases[of u pl t])
    case (close i p)
    then show ?thesis using assms getUserMarketPosition_Some[OF close(1)] by (simp add: spl)
  next
    case (net i p q)
    then show ?thesis using assms getUserMarketPosition_Some[OF net(1)] by (simp add: upd)
  next
    case (grow i p q)
    then show ?thesis using assms getUserMarketPosition_Some[OF grow(1)] by (simp add: upd)
  qed (use assms in simp)
qed

text \<open>
  Sizes stay strictly positive: a position is never left open with nothing in it. The proof is
  gradual underflow: the rounded difference of two different sizes is not zero.
\<close>

definition proper_qty :: "jsnum \<Rightarrow> bool" where
  "proper_qty x \<longleftrightarrow> is_double x \<and> 0 < x"

lemma js_pos: "0 < round64 r \<Longrightarrow> 0 < js r"
  by (auto simp: js_def Let_def)

lemma proper_qty_add:
  assumes "proper_qty x" "proper_qty y" shows "proper_qty (x + y)"
proof (cases "\<exists>a b. x = Fin a \<and> y = Fin b")
  case True
  then obtain a b where ab: "x = Fin a" "y = Fin b" by blast
  then have "a \<le> round64 (a + b)" using assms by (intro b64.rnd_add_ge) (auto simp: proper_qty_def binary64_def)
  then have "0 < js (a + b)" using assms ab by (intro js_pos) (auto simp: proper_qty_def)
  then show ?thesis using ab by (simp add: proper_qty_def)
next
  case False
  then show ?thesis using assms
    by (cases x; cases y) (auto simp: proper_qty_def plus_jsnum_def)
qed

lemma proper_qty_net:
  assumes "proper_qty x" "proper_qty y" "y < PInf" "\<not> js_eq (x - y) 0"
  shows "proper_qty \<bar>x - y\<bar>"
proof -
  obtain b where y: "y = Fin b" using assms(2,3) by (cases y) (auto simp: proper_qty_def)
  show ?thesis
  proof (cases x)
    case (Fin a)
    then have ab: "binary64 a" "binary64 b" using assms y by (auto simp: proper_qty_def)
    have "a \<noteq> b" using assms(4) Fin y by auto
    then consider "b < a" | "a < b" by linarith
    then show ?thesis
    proof cases
      case 1
      then have "0 < js (a - b)" using round64_diff_pos[OF ab] by (intro js_pos)
      then show ?thesis using Fin y by (cases "js (a - b)") (auto simp: proper_qty_def abs_jsnum_def less_jsnum_def is_double_js[of "a - b"] dest: arg_cong[of _ _ is_double])
    next
      case 2
      then have "0 < js (b - a)" using round64_diff_pos[OF ab(2,1)] by (intro js_pos)
      moreover have "js (a - b) = - js (b - a)" using js_minus[of "b - a"] by simp
      ultimately show ?thesis using Fin y is_double_js[of "b - a"]
        by (cases "js (b - a)") (auto simp: proper_qty_def abs_jsnum_def less_jsnum_def)
    qed
  qed (use assms y in \<open>auto simp: proper_qty_def minus_jsnum_def abs_jsnum_def\<close>)
qed

lemma createPosition_sizes:
  assumes "\<forall>p \<in> set (u_positions u). proper_qty (p_qty p)" "proper_qty (pp_qty pl)" "pp_qty pl < PInf"
  shows "\<forall>p \<in> set (u_positions (createPosition u pl t)). proper_qty (p_qty p)"
proof (cases rule: createPosition_cases[of u pl t])
  case (close i p)
  then show ?thesis using assms by (auto dest: in_splice1D)
next
  case (net i p q)
  have "proper_qty (p_qty q)"
    using net assms getUserMarketPosition_Some[OF net(1)] proper_qty_net[of "p_qty p" "pp_qty pl"] by simp
  then show ?thesis using net assms set_update_subset_insert[of "u_positions u" i q] by auto
next
  case (grow i p q)
  have "proper_qty (p_qty q)"
    using grow assms getUserMarketPosition_Some[OF grow(1)] proper_qty_add[of "p_qty p" "pp_qty pl"] by simp
  then show ?thesis using grow assms set_update_subset_insert[of "u_positions u" i q] by auto
qed (use assms in auto)

end
