(* ===== verification/Matching.thy ===== *)
theory Matching
  imports Positions
begin

text \<open>
  The matching loop of \<open>apps/engine/src/services/exchange-engine.ts\<close>: \<open>matchLongOrder\<close> and
  \<open>matchShortOrder\<close>. The two functions are one loop run against the asks or against the bids, and
  are modelled as that loop with the taker's side as a parameter. The price level the code holds a
  reference to is threaded through the inner loop with a flag that says whether it is still in the
  book: after \<open>delete orderbook.asks[price]\<close> the code keeps filling the orders of the level it holds.
\<close>

section \<open>The two sides\<close>

text \<open>The side an order takes from, and the one it rests on.\<close>

fun taken_side :: "TPositionType \<Rightarrow> TOrderbook \<Rightarrow> TSide" where
  "taken_side LONG ob = asks ob"
| "taken_side SHORT ob = bids ob"

fun put_taken :: "TPositionType \<Rightarrow> TSide \<Rightarrow> TOrderbook \<Rightarrow> TOrderbook" where
  "put_taken LONG sd ob = ob\<lparr>asks := sd\<rparr>"
| "put_taken SHORT sd ob = ob\<lparr>bids := sd\<rparr>"

fun next_best :: "TPositionType \<Rightarrow> TSide \<Rightarrow> jsnum \<Rightarrow> jsnum option" where
  "next_best LONG sd startFrom = getNextBestAskPrice sd startFrom"
| "next_best SHORT sd startFrom = getNextBestBidPrice sd startFrom"

fun scan_start :: "TPositionType \<Rightarrow> jsnum" where
  "scan_start LONG = ask_start"
| "scan_start SHORT = bid_start"

text \<open>A price the taker accepts, and a price worse than another for the taker.\<close>

fun reaches :: "TPositionType \<Rightarrow> jsnum \<Rightarrow> jsnum \<Rightarrow> bool" where
  "reaches LONG best limit \<longleftrightarrow> best \<le> limit"
| "reaches SHORT best limit \<longleftrightarrow> best \<ge> limit"

fun beyond :: "TPositionType \<Rightarrow> jsnum \<Rightarrow> jsnum \<Rightarrow> bool" where
  "beyond LONG p q \<longleftrightarrow> p < q"
| "beyond SHORT p q \<longleftrightarrow> q < p"

section \<open>One fill\<close>

text \<open>The variables of a match: the taken side of the book and the locals of the function.\<close>

record match_state =
  ms_side :: TSide
  ms_lastTraded :: jsnum
  ms_users :: TUsers
  ms_uuids :: nat
  ms_remaining :: jsnum
  ms_filled :: jsnum
  ms_total :: jsnum
  ms_status :: TOrderStatus
  ms_fills :: "FillRecordNumberified list"
  ms_updates :: "TOrderDataForWriter list"

text \<open>The level the inner loop holds, whether the book still has it, and the rest of the state.\<close>

type_synonym level_state = "TBid \<times> bool \<times> match_state"

text \<open>
  What one pass of the inner loop does to the quantities: the fill's quantity, the taker's remaining
  quantity and status, the resting order's status, and whether the loop breaks.
\<close>

definition fill_split :: "jsnum \<Rightarrow> jsnum \<Rightarrow> jsnum \<times> jsnum \<times> TOrderStatus \<times> TOrderStatus \<times> bool" where
  "fill_split restingQty remainingQty =
     (if restingQty > remainingQty then (remainingQty, 0, Filled, PartiallyFilled, True)
      else if js_eq restingQty remainingQty then (remainingQty, 0, Filled, Filled, True)
      else (restingQty, remainingQty - restingQty, PartiallyFilled, Filled, False))"

text \<open>
  One pass: the taker against the resting order at an index of the level. Returns \<open>shouldBreak\<close>. A
  maker the store does not know is \<open>undefined\<close> to \<open>createPosition\<close>, which reads its positions.
\<close>

definition fillResting ::
  "runtime \<Rightarrow> OrderRecordNumberified \<Rightarrow> string \<Rightarrow> jsnum \<Rightarrow> nat \<Rightarrow> TOpenOrder \<Rightarrow> level_state
    \<Rightarrow> (engine_error, level_state, bool) outcome" where
  "fillResting rt currentOrder takerId bestNextPrice restingIndex resting = (\<lambda>(level, attached, s).
     let restingQty = o_qty resting - o_filledQty resting
     in case fill_split restingQty (ms_remaining s) of
       (qty, remaining', status', restingStatus, shouldBreak) \<Rightarrow>
         (let partial = (restingStatus = PartiallyFilled);
              fill = \<lparr>f_id = uuid_of rt (ms_uuids s), f_makerId = o_userId resting, f_takerId = takerId,
                      f_marketId = n_marketId currentOrder, f_qty = qty, f_price = bestNextPrice,
                      f_makerOrderId = o_orderId resting, f_takerOrderId = n_id currentOrder\<rparr>;
              filledOrder = resting\<lparr>o_filledQty := o_filledQty resting + qty, o_status := restingStatus\<rparr>;
              level1 = level\<lparr>availableQty := availableQty level - qty,
                         openOrders := (if partial then (openOrders level)[restingIndex := filledOrder]
                                        else splice1 restingIndex (openOrders level))\<rparr>;
              attached1 = (attached \<and> (partial \<or> \<not> availableQty level1 \<le> 0));
              s1 = s\<lparr>ms_lastTraded := bestNextPrice, ms_uuids := ms_uuids s + 1,
                     ms_remaining := remaining', ms_filled := ms_filled s + qty,
                     ms_total := ms_total s + bestNextPrice * qty, ms_status := status',
                     ms_fills := ms_fills s @ [fill]\<rparr>
          in case getUserById (ms_users s) (o_userId resting) of
               None \<Rightarrow> Throw TypeError (level1, attached1, s1)
             | Some maker \<Rightarrow>
                 (let maker' = createPosition maker
                        \<lparr>pp_marketId = o_marketId resting, pp_type = o_positionType resting, pp_qty = qty,
                         pp_margin = calculateRelativeMargin (o_margin resting) (o_qty resting) qty,
                         pp_averagePrice = bestNextPrice\<rparr> bestNextPrice;
                      leftOrder = filledOrder\<lparr>o_margin :=
                        calculateRelativeMargin (o_margin resting) restingQty (restingQty - qty)\<rparr>;
                      level2 = (if partial
                                then level1\<lparr>openOrders := (openOrders level)[restingIndex := leftOrder]\<rparr>
                                else level1);
                      update = \<lparr>w_orderId = o_orderId resting, w_userId = o_userId resting,
                                w_status = restingStatus, w_filledQty = o_filledQty filledOrder\<rparr>
                  in Return shouldBreak (level2, attached1,
                       s1\<lparr>ms_users := setUser (o_userId resting) maker' (ms_users s),
                          ms_updates := ms_updates s @ [update]\<rparr>))))"

lemma fill_split_continue:
  "fill_split a r = (q, r', st, rst, False) \<Longrightarrow> q = a \<and> r' = r - a \<and> rst = Filled \<and> st = PartiallyFilled
     \<and> \<not> a > r \<and> \<not> js_eq a r"
  by (auto simp: fill_split_def split: if_splits)

lemma fillResting_continue:
  assumes "fillResting rt ord tk p i resting (level, att, s) = Return False (level', att', s')"
  shows "openOrders level' = splice1 i (openOrders level)"
  using assms by (auto simp: fillResting_def Let_def split: prod.splits option.splits dest!: fill_split_continue)

section \<open>A price level\<close>

function (sequential) matchLevel ::
  "runtime \<Rightarrow> OrderRecordNumberified \<Rightarrow> string \<Rightarrow> jsnum \<Rightarrow> level_state
    \<Rightarrow> (engine_error, level_state, unit) outcome" where
  "matchLevel rt currentOrder takerId bestNextPrice (level, attached, s) =
     (case getFirstCreatedOrder (openOrders level) of
        None \<Rightarrow> Return () (level, attached, s)
      | Some (restingIndex, resting) \<Rightarrow>
          (case fillResting rt currentOrder takerId bestNextPrice restingIndex resting (level, attached, s) of
             Throw e ls \<Rightarrow> Throw e ls
           | Return shouldBreak ls \<Rightarrow>
               if shouldBreak then Return () ls
               else matchLevel rt currentOrder takerId bestNextPrice ls))"
  by pat_completeness auto
termination
proof (relation "measure (\<lambda>(rt, ord, tk, p, level, att, s). length (openOrders level))", goal_cases)
  case (2 rt ord tk p level att s ir i resting b ls)
  obtain level' att' s' where ls: "ls = (level', att', s')" by (cases ls) auto
  have "getFirstCreatedOrder (openOrders level) = Some (i, resting)" using 2(1,2) by simp
  then have "i < length (openOrders level)" by (rule getFirstCreatedOrder_Some(1))
  then show ?case using fillResting_continue[of rt ord tk p i resting level att s level' att' s'] 2 ls
    by (simp add: length_splice1)
qed simp

declare matchLevel.simps [simp del]

section \<open>The levels of a side\<close>

definition put_level :: "string \<Rightarrow> TBid \<Rightarrow> bool \<Rightarrow> TSide \<Rightarrow> TSide" where
  "put_level key level attached sd = (if attached then AList.update key level sd else AList.delete key sd)"

lemma put_level_keys:
  "map_of sd key = Some l \<Longrightarrow> map fst (put_level key level att sd) =
     (if att then map fst sd else removeAll key (map fst sd))"
  by (auto simp: put_level_def map_fst_update map_fst_delete dest!: map_of_SomeD intro: rev_image_eqI)

lemma next_best_beyond: "next_best t sd p = Some q \<Longrightarrow> beyond t p q \<and> is_double q"
  by (cases t) (auto dest: next_ask_gt next_bid_lt)

lemma next_best_key: "next_best t sd p = Some q \<Longrightarrow> \<exists>k \<in> fst ` set sd. js_number k = q"
  by (cases t) (force dest: getNextBestAskPrice_Some(1) getNextBestBidPrice_Some(1))+

lemma beyond_trans: "beyond t p q \<Longrightarrow> beyond t q r \<Longrightarrow> beyond t p r"
  by (cases t) (auto intro: js_less_trans)

lemma beyond_irrefl [simp]: "\<not> beyond t p p"
  by (cases t) auto

definition keys_beyond :: "TPositionType \<Rightarrow> jsnum option \<Rightarrow> TSide \<Rightarrow> nat" where
  "keys_beyond t best sd =
     (case best of None \<Rightarrow> 0 | Some b \<Rightarrow> Suc (length (filter (\<lambda>k. beyond t b (js_number k)) (map fst sd))))"

lemma keys_beyond_next:
  assumes "map fst sd' = map fst sd \<or> map fst sd' = removeAll key (map fst sd)"
  shows "keys_beyond t (next_best t sd' b) sd' < keys_beyond t (Some b) sd"
proof (cases "next_best t sd' b")
  case None
  then show ?thesis by (simp add: keys_beyond_def)
next
  case (Some q)
  let ?P = "\<lambda>p k. beyond t p (js_number k)"
  obtain k where k: "k \<in> set (map fst sd')" "js_number k = q" using next_best_key[OF Some] by auto
  have b: "beyond t b q" using next_best_beyond[OF Some] by simp
  have "length (filter (?P q) (map fst sd')) < length (filter (?P b) (map fst sd'))"
  proof -
    have "filter (?P q) (map fst sd') = filter (?P q) (filter (?P b) (map fst sd'))"
      by (auto simp: filter_filter intro!: filter_cong dest: beyond_trans[OF b])
    moreover have "k \<in> set (filter (?P b) (map fst sd'))" "\<not> ?P q k" using k b by auto
    ultimately show ?thesis using length_filter_less[of k "filter (?P b) (map fst sd')" "?P q"] by simp
  qed
  also have "\<dots> \<le> length (filter (?P b) (map fst sd))"
  proof -
    have "length (filter P (removeAll x xs)) \<le> length (filter P xs)" for P x and xs :: "string list"
      by (induction xs) auto
    then show ?thesis using assms by (elim disjE) (simp_all only: order_refl)
  qed
  finally show ?thesis by (simp add: keys_beyond_def Some)
qed

text \<open>
  The outer loop. \<open>bestNextPrice\<close> is tested for truth, so 0 stops it as \<open>null\<close> does. The side is
  written back after each level; a level the book does not have under the string of its price would
  be a property read off \<open>undefined\<close>.
\<close>

function (sequential) matchLoop ::
  "runtime \<Rightarrow> TPositionType \<Rightarrow> OrderRecordNumberified \<Rightarrow> string \<Rightarrow> jsnum option \<Rightarrow> match_state
    \<Rightarrow> (engine_error, match_state, unit) outcome" where
  "matchLoop rt t currentOrder takerId None s = Return () s"
| "matchLoop rt t currentOrder takerId (Some bestNextPrice) s =
     (if ms_remaining s > 0 \<and> js_truthy bestNextPrice \<and> reaches t bestNextPrice (n_price currentOrder) then
        (let key = js_string bestNextPrice
         in case map_of (ms_side s) key of
              None \<Rightarrow> Throw TypeError s
            | Some level \<Rightarrow>
                if availableQty level \<le> 0 then
                  matchLoop rt t currentOrder takerId (next_best t (ms_side s) bestNextPrice) s
                else
                  (case matchLevel rt currentOrder takerId bestNextPrice (level, True, s) of
                     Throw e (level', attached, s') \<Rightarrow>
                       Throw e (s'\<lparr>ms_side := put_level key level' attached (ms_side s)\<rparr>)
                   | Return _ (level', attached, s') \<Rightarrow>
                       (let side' = put_level key level' attached (ms_side s)
                        in matchLoop rt t currentOrder takerId (next_best t side' bestNextPrice)
                             (s'\<lparr>ms_side := side'\<rparr>))))
      else Return () s)"
  by pat_completeness auto
termination
proof (relation "measure (\<lambda>(rt, t, ord, tk, best, s). keys_beyond t best (ms_side s))", goal_cases)
  case (2 rt t ord tk b s key level)
  then show ?case using keys_beyond_next[of "ms_side s" "ms_side s"] by simp
next
  case (3 rt t ord tk b s key level u ls level' y att s' side')
  then have "map fst side' = map fst (ms_side s) \<or> map fst side' = removeAll key (map fst (ms_side s))"
    by (simp add: put_level_keys)
  then show ?case using keys_beyond_next[of side' "ms_side s" key] by simp
qed simp

declare matchLoop.simps [simp del]

section \<open>Settling the taker\<close>

definition stringifyFill :: "FillRecordNumberified \<Rightarrow> InsertFillRecord" where
  "stringifyFill fill =
     \<lparr>if_id = f_id fill, if_makerId = f_makerId fill, if_takerId = f_takerId fill,
      if_marketId = f_marketId fill, if_qty = js_string (f_qty fill), if_price = js_string (f_price fill),
      if_makerOrderId = f_makerOrderId fill, if_takerOrderId = f_takerOrderId fill\<rparr>"

record TBackendMatch =
  bm_orderId :: string
  bm_status :: TOrderStatus
  bm_filledQty :: jsnum
  bm_totalPrice :: jsnum
  bm_averagePrice :: jsnum
  bm_fills :: "FillRecordNumberified list"

record TMatchOrderFunctionResponse =
  backend :: "TBackendMatch option"
  writer :: "TWriterEntry list"

definition takerAveragePrice :: "match_state \<Rightarrow> jsnum" where
  "takerAveragePrice s =
     (if ms_filled s > 0 then getRoudedNumber (ms_total s / ms_filled s) else 0)"

text \<open>The taker's own position, then the mark-to-market of the whole market.\<close>

definition settleTaker :: "OrderRecordNumberified \<Rightarrow> string \<Rightarrow> match_state \<Rightarrow> TUsers" where
  "settleTaker currentOrder userKey s =
     (let relativeMarginForFilledQty =
        calculateRelativeMargin (n_initialMargin currentOrder) (n_qty currentOrder) (ms_filled s)
      in if ms_filled s > 0 then
           updateUnrealisedPnLForAllUsers (ms_lastTraded s) (n_marketId currentOrder)
             (modifyUser userKey
                (\<lambda>u. createPosition u
                  \<lparr>pp_marketId = n_marketId currentOrder, pp_type = n_positionType currentOrder,
                   pp_qty = ms_filled s, pp_margin = relativeMarginForFilledQty,
                   pp_averagePrice = takerAveragePrice s\<rparr> (ms_lastTraded s))
                (ms_users s))
         else ms_users s)"

text \<open>Resting what is left: at the level of the order's price, made if there is none.\<close>

definition addOpenOrder :: "string \<Rightarrow> jsnum \<Rightarrow> TOpenOrder \<Rightarrow> TSide \<Rightarrow> TSide" where
  "addOpenOrder key additionalAvailableQty newOpenOrder sd =
     (case map_of sd key of
        None \<Rightarrow> AList.update key \<lparr>availableQty = additionalAvailableQty, openOrders = [newOpenOrder]\<rparr> sd
      | Some level \<Rightarrow>
          AList.update key \<lparr>availableQty = availableQty level + additionalAvailableQty,
                            openOrders = openOrders level @ [newOpenOrder]\<rparr> sd)"

definition newOpenOrder :: "OrderRecordNumberified \<Rightarrow> string \<Rightarrow> int \<Rightarrow> match_state \<Rightarrow> TOpenOrder" where
  "newOpenOrder currentOrder takerId now s =
     \<lparr>o_userId = takerId, o_qty = n_qty currentOrder, o_filledQty = ms_filled s,
      o_orderId = n_id currentOrder, o_status = Open,
      o_margin = calculateRelativeMargin (n_initialMargin currentOrder) (n_qty currentOrder) (ms_remaining s),
      o_marketId = n_marketId currentOrder, o_positionType = n_positionType currentOrder,
      o_createdAt = now\<rparr>"

text \<open>The remainder rests (limit) or is cancelled (market). The own side, the clock and the status.\<close>

definition restRemainder ::
  "runtime \<Rightarrow> TPositionType \<Rightarrow> OrderRecordNumberified \<Rightarrow> string \<Rightarrow> nat \<Rightarrow> TSide \<Rightarrow> match_state
    \<Rightarrow> TSide \<times> nat \<times> TOrderStatus" where
  "restRemainder rt t currentOrder takerId clock sd s =
     (if ms_remaining s > 0 then
        if n_orderType currentOrder = Limit then
          (addOpenOrder (js_string (n_price currentOrder)) (n_qty currentOrder - ms_filled s)
             (newOpenOrder currentOrder takerId (date_now rt clock) s) sd,
           clock + 1,
           if t = LONG \<and> ms_status s = Pending then Open else ms_status s)
        else (sd, clock, Cancelled)
      else (sd, clock, ms_status s))"

definition matchResponse ::
  "OrderRecordNumberified \<Rightarrow> TOrderStatus \<Rightarrow> match_state \<Rightarrow> TMatchOrderFunctionResponse" where
  "matchResponse currentOrder status s =
     \<lparr>backend = Some \<lparr>bm_orderId = n_id currentOrder, bm_status = status, bm_filledQty = ms_filled s,
        bm_totalPrice = ms_total s, bm_averagePrice = takerAveragePrice s, bm_fills = ms_fills s\<rparr>,
      writer = [FillsEntry (map stringifyFill (ms_fills s)),
        OrderUpdatesEntry (ms_updates s @
          [\<lparr>w_orderId = n_id currentOrder, w_userId = n_userId currentOrder, w_status = status,
            w_filledQty = ms_filled s\<rparr>])]\<rparr>"

section \<open>The match\<close>

text \<open>What a match reads and writes: the book, the users, and the runtime's counters.\<close>

record venue =
  v_book :: TOrderbook
  v_users :: TUsers
  v_uuids :: nat
  v_clock :: nat

definition startMatch :: "TPositionType \<Rightarrow> OrderRecordNumberified \<Rightarrow> venue \<Rightarrow> match_state" where
  "startMatch t currentOrder v =
     \<lparr>ms_side = taken_side t (v_book v), ms_lastTraded = lastTradedPrice (v_book v),
      ms_users = v_users v, ms_uuids = v_uuids v, ms_remaining = n_qty currentOrder, ms_filled = 0,
      ms_total = 0, ms_status = n_status currentOrder, ms_fills = [], ms_updates = []\<rparr>"

definition afterLoop :: "TPositionType \<Rightarrow> match_state \<Rightarrow> venue \<Rightarrow> venue" where
  "afterLoop t s v =
     v\<lparr>v_book := (put_taken t (ms_side s) (v_book v))\<lparr>lastTradedPrice := ms_lastTraded s\<rparr>,
       v_users := ms_users s, v_uuids := ms_uuids s\<rparr>"

definition finishMatch ::
  "runtime \<Rightarrow> TPositionType \<Rightarrow> OrderRecordNumberified \<Rightarrow> string \<Rightarrow> string \<Rightarrow> match_state \<Rightarrow> venue
    \<Rightarrow> venue \<times> OrderRecordNumberified \<times> TMatchOrderFunctionResponse" where
  "finishMatch rt t currentOrder userKey takerId s v =
     (let v1 = afterLoop t s v;
          (own, clock, status) = restRemainder rt t currentOrder takerId (v_clock v1)
            (taken_side (opposite t) (v_book v1)) s
      in (v1\<lparr>v_users := settleTaker currentOrder userKey s,
            v_book := put_taken (opposite t) own (v_book v1), v_clock := clock\<rparr>,
          currentOrder\<lparr>n_status := status\<rparr>, matchResponse currentOrder status s))"

definition matchLongLoop where "matchLongLoop rt = matchLoop rt LONG"
definition matchShortLoop where "matchShortLoop rt = matchLoop rt SHORT"
definition finishLong where "finishLong rt = finishMatch rt LONG"
definition finishShort where "finishShort rt = finishMatch rt SHORT"

text \<open>
  Both functions return the order as they leave it (the caller reads its status) and the response.
  \<open>userKey\<close> stands for the reference to the taker's account, \<open>takerId\<close> is its \<open>userId\<close> field.
\<close>

definition matchLongOrder ::
  "runtime \<Rightarrow> OrderRecordNumberified \<Rightarrow> string \<Rightarrow> string \<Rightarrow> venue
    \<Rightarrow> (engine_error, venue, OrderRecordNumberified \<times> TMatchOrderFunctionResponse) outcome" where
  "matchLongOrder rt currentOrder userKey takerId v =
     (case matchLongLoop rt currentOrder takerId (getNextBestAskPrice (asks (v_book v)) ask_start)
             (startMatch LONG currentOrder v) of
        Throw e s \<Rightarrow> Throw e (afterLoop LONG s v)
      | Return _ s \<Rightarrow>
          (case finishLong rt currentOrder userKey takerId s v of
             (v', order', res) \<Rightarrow> Return (order', res) v'))"

definition matchShortOrder ::
  "runtime \<Rightarrow> OrderRecordNumberified \<Rightarrow> string \<Rightarrow> string \<Rightarrow> venue
    \<Rightarrow> (engine_error, venue, OrderRecordNumberified \<times> TMatchOrderFunctionResponse) outcome" where
  "matchShortOrder rt currentOrder userKey takerId v =
     (case matchShortLoop rt currentOrder takerId (getNextBestBidPrice (bids (v_book v)) bid_start)
             (startMatch SHORT currentOrder v) of
        Throw e s \<Rightarrow> Throw e (afterLoop SHORT s v)
      | Return _ s \<Rightarrow>
          (case finishShort rt currentOrder userKey takerId s v of
             (v', order', res) \<Rightarrow> Return (order', res) v'))"

definition matchOrder ::
  "runtime \<Rightarrow> OrderRecordNumberified \<Rightarrow> string \<Rightarrow> string \<Rightarrow> venue
    \<Rightarrow> (engine_error, venue, OrderRecordNumberified \<times> TMatchOrderFunctionResponse) outcome" where
  "matchOrder rt order userKey takerId v =
     (if n_positionType order = LONG then matchLongOrder rt order userKey takerId v
      else matchShortOrder rt order userKey takerId v)"

end
