(* ===== verification/UserEvents.thy ===== *)
theory UserEvents
  imports Matching
begin

text \<open>
  What the engine tells the outside of a match, from \<open>apps/engine/src/services/exchange-engine.ts\<close>:
  the public prints (\<open>tradesFromFills\<close>) and the private channel (\<open>userEventsForMatch\<close> and its
  helpers). The private channel is a dictionary of event lists by user id.
\<close>

section \<open>Public prints\<close>

definition tradesFromFills :: "FillRecordNumberified list \<Rightarrow> TPositionType \<Rightarrow> int \<Rightarrow> TTradePrint list" where
  "tradesFromFills fills takerPositionType ts =
     map (\<lambda>fill. \<lparr>t_id = f_id fill, t_price = js_string (f_price fill), t_qty = js_string (f_qty fill),
                 t_side = (if takerPositionType = LONG then Buy else Sell), t_ts = ts\<rparr>) fills"

section \<open>The private channel\<close>

definition eventsOf :: "TWsUser \<Rightarrow> string \<Rightarrow> TUserEvent list" where
  "eventsOf evs userId = (case map_of evs userId of None \<Rightarrow> [] | Some es \<Rightarrow> es)"

definition pushEvents :: "TWsUser \<Rightarrow> string \<Rightarrow> TUserEvent list \<Rightarrow> TWsUser" where
  "pushEvents evs userId new = AList.update userId (eventsOf evs userId @ new) evs"

definition mergeUserEvents :: "TWsUser \<Rightarrow> TWsUser \<Rightarrow> TWsUser" where
  "mergeUserEvents into from' =
     foldl (\<lambda>into (userId, events). if events = [] then into else pushEvents into userId events) into from'"

text \<open>\<open>order.createdAt ?? Date.now()\<close> reads the clock only when the row has no date.\<close>

definition userOrderFrom :: "runtime \<Rightarrow> nat \<Rightarrow> OrderRecordNumberified \<Rightarrow> jsnum \<Rightarrow> TUserOrder \<times> nat" where
  "userOrderFrom rt clock order filledQty =
     (let (createdAt, clock') =
        (case n_createdAt order of Some d \<Rightarrow> (d, clock) | None \<Rightarrow> (date_now rt clock, clock + 1))
      in (\<lparr>uo_id = n_id order, uo_marketId = n_marketId order, uo_positionType = n_positionType order,
           uo_orderType = n_orderType order, uo_status = n_status order, uo_qty = js_string (n_qty order),
           uo_filledQty = js_string filledQty, uo_price = js_string (n_price order),
           uo_slippage = n_slippage order, uo_initialMargin = js_string (n_initialMargin order),
           uo_createdAt = createdAt\<rparr>, clock'))"

definition stateEventsFor :: "TUsers \<Rightarrow> string \<Rightarrow> string \<Rightarrow> TUserEvent list" where
  "stateEventsFor us userId marketId =
     (case getUserById us userId of
        None \<Rightarrow> []
      | Some user \<Rightarrow>
          [PositionEvent marketId
             (case getUserMarketPosition (u_positions user) marketId of
                None \<Rightarrow> None
              | Some (_, p) \<Rightarrow>
                  Some \<lparr>up_marketId = marketId, up_type = p_type p, up_qty = js_string (p_qty p),
                        up_margin = js_string (p_margin p), up_averagePrice = js_string (p_averagePrice p),
                        up_liquidationPrice = js_string (p_liquidationPrice p)\<rparr>),
           BalanceEvent (js_string (available (u_collateral user))) (js_string (locked (u_collateral user)))])"

text \<open>The pushes of \<open>userEventsForMatch\<close>, in their order, and the accounts it touches.\<close>

fun newOrderEvents ::
  "runtime \<Rightarrow> nat \<Rightarrow> (OrderRecordNumberified \<times> jsnum \<times> TOrigin) list \<Rightarrow> (string \<times> TUserEvent) list \<times> nat" where
  "newOrderEvents rt clock [] = ([], clock)"
| "newOrderEvents rt clock ((order, filledQty, origin) # rest) =
     (let (uo, clock1) = userOrderFrom rt clock order filledQty;
          (evs, clock2) = newOrderEvents rt clock1 rest
      in ((n_userId order, OrderNew uo origin) # evs, clock2))"

definition updateEvent :: "string \<Rightarrow> TOrderDataForWriter \<Rightarrow> string \<times> TUserEvent" where
  "updateEvent marketId u =
     (w_userId u, OrderUpdate (w_orderId u) marketId (w_status u) (js_string (w_filledQty u)))"

definition fillEvents ::
  "string \<Rightarrow> TPositionType \<Rightarrow> int \<Rightarrow> FillRecordNumberified \<Rightarrow> (string \<times> TUserEvent) list" where
  "fillEvents marketId takerSide ts fill =
     [(f_takerId fill, FillEvent (f_id fill) (f_takerOrderId fill) marketId takerSide Taker
         (js_string (f_price fill)) (js_string (f_qty fill)) ts),
      (f_makerId fill, FillEvent (f_id fill) (f_makerOrderId fill) marketId
         (if takerSide = LONG then SHORT else LONG) Maker
         (js_string (f_price fill)) (js_string (f_qty fill)) ts)]"

text \<open>\<open>Set.add\<close> on a set that keeps the order of insertion.\<close>

definition touch :: "string list \<Rightarrow> string \<Rightarrow> string list" where
  "touch touched userId = (if userId \<in> set touched then touched else touched @ [userId])"

definition touchedBy ::
  "(OrderRecordNumberified \<times> jsnum \<times> TOrigin) list \<Rightarrow> TOrderDataForWriter list
    \<Rightarrow> FillRecordNumberified list \<Rightarrow> string list" where
  "touchedBy newOrders orderUpdates fills =
     foldl touch []
       (map (n_userId \<circ> fst) newOrders @ map w_userId orderUpdates
        @ concat (map (\<lambda>f. [f_makerId f, f_takerId f]) fills))"

text \<open>The default \<open>ts = Date.now()\<close> is the first clock read.\<close>

definition userEventsForMatch ::
  "runtime \<Rightarrow> nat \<Rightarrow> TUsers \<Rightarrow> string \<Rightarrow> FillRecordNumberified list \<Rightarrow> TPositionType
    \<Rightarrow> TOrderDataForWriter list \<Rightarrow> (OrderRecordNumberified \<times> jsnum \<times> TOrigin) list \<Rightarrow> TWsUser \<times> nat" where
  "userEventsForMatch rt clock us marketId fills takerSide orderUpdates newOrders =
     (let ts = date_now rt clock;
          (created, clock') = newOrderEvents rt (clock + 1) newOrders;
          log = created @ map (updateEvent marketId) orderUpdates
                @ concat (map (fillEvents marketId takerSide ts) fills)
                @ concat (map (\<lambda>userId. map (Pair userId) (stateEventsFor us userId marketId))
                    (touchedBy newOrders orderUpdates fills))
      in (foldl (\<lambda>evs (userId, event). pushEvents evs userId [event]) [] log, clock'))"

end
