(* ===== verification/Orders.thy ===== *)
theory Orders
  imports UserEvents
begin

text \<open>
  Placing and cancelling an order, and the two position queries, from
  \<open>apps/engine/src/services/exchange-engine.ts\<close>. Each operation takes the engine and returns it
  with its answer, or with the error it threw.
\<close>

section \<open>Placing an order\<close>

definition normalizeOrder :: "SelectOrderRecord \<Rightarrow> OrderRecordNumberified" where
  "normalizeOrder payload =
     \<lparr>n_id = r_id payload, n_userId = r_userId payload, n_marketId = r_marketId payload,
      n_positionType = r_positionType payload, n_orderType = r_orderType payload, n_status = Open,
      n_qty = js_number (r_qty payload), n_filledQty = js_number (r_filledQty payload),
      n_price = js_number (r_price payload), n_slippage = r_slippage payload,
      n_initialMargin = js_number (r_initialMargin payload), n_createdAt = r_createdAt payload\<rparr>"

text \<open>
  Whether the order reduces risk, from the position the account holds in the market: an error, or
  the verdict. A risk reducing order needs no margin.
\<close>

definition riskCheck :: "OrderRecordNumberified \<Rightarrow> TPosition option \<Rightarrow> string + bool" where
  "riskCheck order existing =
     (if \<not> js_truthy (n_initialMargin order) then
        (case existing of
           None \<Rightarrow> Inl ''Margin required as there is no open position for this market''
         | Some p \<Rightarrow>
             if p_type p = n_positionType order \<or> p_qty p < n_qty order - p_qty p
             then Inl ''Margin required as this is a risk increasing order for this market''
             else Inr True)
      else
        (case existing of
           None \<Rightarrow> Inr False
         | Some p \<Rightarrow> Inr (p_type p \<noteq> n_positionType order \<and> p_qty p \<ge> n_qty order - p_qty p)))"

text \<open>
  The entry price: the limit price as it was sent, or the best price of the other side with the
  slippage on top. \<open>None\<close> is the falsy price: an empty string, no price at all, or 0 or \<open>NaN\<close>.
\<close>

definition entryPrice :: "SelectOrderRecord \<Rightarrow> jsnum \<Rightarrow> TOrderbook \<Rightarrow> jsnum option" where
  "entryPrice payload limitPrice ob =
     (if r_orderType payload = Limit then (if r_price payload = [] then None else Some limitPrice)
      else
        (case (if r_positionType payload = LONG then getNextBestAskPrice (asks ob) ask_start
               else getNextBestBidPrice (bids ob) bid_start) of
           None \<Rightarrow> None
         | Some best \<Rightarrow>
             if \<not> js_truthy best then None
             else
               (let maxSlippageAllowed = r_slippage payload * js_0_01 * best
                in Some (if r_positionType payload = LONG then best + maxSlippageAllowed
                         else best - maxSlippageAllowed))))"

text \<open>
  What \<open>store.orderbooks[marketId]\<close> is, if it is truthy: a book, or a member of \<open>Object.prototype\<close>. Of
  the latter \<open>placeOrder\<close> compares only \<open>allowedLeverage\<close>, which is \<open>undefined\<close>: no number is larger, as
  with \<open>NaN\<close>.
\<close>

definition noBook :: TOrderbook where
  "noBook = \<lparr>bids = [], asks = [], lastTradedPrice = NaN, indexPrice = NaN, allowedLeverage = NaN\<rparr>"

definition bookAt :: "TStore \<Rightarrow> string \<Rightarrow> TOrderbook option" where
  "bookAt s marketId =
     (case map_of (orderbooks s) marketId of
        None \<Rightarrow> if inherited marketId then Some noBook else None
      | Some ob \<Rightarrow> Some ob)"

text \<open>
  Everything \<open>placeOrder\<close> checks before it writes anything: an error, or the normalised order with
  its margin and its bounding price, and the market's book. (A market order for a member of the
  prototype ends where the best price is looked for, in a \<open>TypeError\<close>: see \<open>placeOrder\<close>.)
\<close>

definition checkOrder :: "SelectOrderRecord \<Rightarrow> TStore \<Rightarrow> string + bool \<times> OrderRecordNumberified \<times> TOrderbook" where
  "checkOrder payload s =
     (case bookAt s (r_marketId payload) of
        None \<Rightarrow> Inl ''Unsupported market symbol''
      | Some ob \<Rightarrow>
          (case getUserById (users s) (r_userId payload) of
             None \<Rightarrow> Inl ''User details does not exist''
           | Some user \<Rightarrow>
               (let order = normalizeOrder payload;
                    existing = map_option snd (getUserMarketPosition (u_positions user) (r_marketId payload))
                in case riskCheck order existing of
                     Inl msg \<Rightarrow> Inl msg
                   | Inr reducing \<Rightarrow>
                       (let order1 = (if reducing then order\<lparr>n_initialMargin := 0\<rparr> else order)
                        in if available (u_collateral user) < n_initialMargin order1
                           then Inl ''User does not have available margin''
                           else
                             (case (if map_of (orderbooks s) (r_marketId payload) = None \<and> r_orderType payload = Market
                                    then Some (n_price order1) else entryPrice payload (n_price order1) ob) of
                                None \<Rightarrow> Inl ''There are no matches available''
                              | Some entry \<Rightarrow>
                                  (let order2 = order1\<lparr>n_price := entry\<rparr>;
                                       leverage = (if reducing then 0
                                         else (n_price order2 * n_qty order2) / n_initialMargin order2)
                                   in if allowedLeverage ob < leverage then Inl ''Leverage not supported''
                                      else Inr (reducing, order2, ob)))))))"

text \<open>Locking the margin of an order that is not risk reducing.\<close>

definition lockMargin :: "jsnum \<Rightarrow> TUser \<Rightarrow> TUser" where
  "lockMargin margin user =
     user\<lparr>u_collateral := \<lparr>available = available (u_collateral user) - margin,
                          locked = locked (u_collateral user) + margin\<rparr>\<rparr>"

definition lockedUsers :: "bool \<Rightarrow> OrderRecordNumberified \<Rightarrow> string \<Rightarrow> TUsers \<Rightarrow> TUsers" where
  "lockedUsers reducing order userId us =
     (if \<not> reducing \<and> n_initialMargin order > 0
      then modifyUser userId (lockMargin (n_initialMargin order)) us else us)"

text \<open>The engine as a match sees it, and back.\<close>

definition venueOf :: "TOrderbook \<Rightarrow> TUsers \<Rightarrow> engine \<Rightarrow> venue" where
  "venueOf ob us e = \<lparr>v_book = ob, v_users = us, v_uuids = uuids_used e, v_clock = clock_reads e\<rparr>"

definition putVenue :: "string \<Rightarrow> venue \<Rightarrow> engine \<Rightarrow> engine" where
  "putVenue marketId v e =
     e\<lparr>store := (store e)\<lparr>orderbooks := AList.update marketId (v_book v) (orderbooks (store e)),
                        users := v_users v\<rparr>,
       uuids_used := v_uuids v, clock_reads := v_clock v\<rparr>"

record TPlaceOrderResponse =
  pr_match :: TMatchOrderFunctionResponse
  pr_wsServer :: "TWsServer option"
  pr_wsUser :: TWsUser

fun orderUpdatesOf :: "TWriterEntry list \<Rightarrow> TOrderDataForWriter list" where
  "orderUpdatesOf [] = []"
| "orderUpdatesOf (OrderUpdatesEntry ds # es) = ds"
| "orderUpdatesOf (_ # es) = orderUpdatesOf es"

definition bumpUpdateId :: "engine \<Rightarrow> engine" where
  "bumpUpdateId e = e\<lparr>store := (store e)\<lparr>lastUpdateId := lastUpdateId (store e) + 1\<rparr>\<rparr>"

text \<open>
  The public payload of a market: \<open>lastUpdateId\<close> is bumped, then the depth is taken (a clock read),
  then the prints are dated (another). \<open>fills\<close> is \<open>None\<close> where the payload carries no prints.
\<close>

definition publicPayload ::
  "runtime \<Rightarrow> string \<Rightarrow> (FillRecordNumberified list \<times> TPositionType) option \<Rightarrow> engine
    \<Rightarrow> (engine_error, engine, TWsServer) outcome" where
  "publicPayload rt marketId fills e =
     (let e1 = bumpUpdateId e
      in case getMarketDepth (store e1) marketId (date_now rt (clock_reads e1)) of
           Inl err \<Rightarrow> Throw err e1
         | Inr depth \<Rightarrow>
             (let e2 = e1\<lparr>clock_reads := clock_reads e1 + 1\<rparr>
              in case map_of (orderbooks (store e2)) marketId of
                   None \<Rightarrow> Throw TypeError e2
                 | Some ob \<Rightarrow>
                     (let payload = (\<lambda>ts. \<lparr>ws_depth = depth, ws_lastTradedPrice = js_string (lastTradedPrice ob),
                            ws_indexPrice = js_string (indexPrice ob), ws_trades = ts\<rparr>)
                      in case fills of
                           None \<Rightarrow> Return (payload None) e2
                         | Some (fs, side) \<Rightarrow>
                             Return (payload (Some (tradesFromFills fs side (date_now rt (clock_reads e2)))))
                               (e2\<lparr>clock_reads := clock_reads e2 + 1\<rparr>))))"

text \<open>
  A member of the prototype in place of a book has no sides: \<open>Object.entries(undefined)\<close> throws, for a
  market order before, for a limit order after the margin is locked.
\<close>

definition placeInherited ::
  "SelectOrderRecord \<Rightarrow> bool \<Rightarrow> OrderRecordNumberified \<Rightarrow> engine \<Rightarrow> (engine_error, engine, TPlaceOrderResponse) outcome" where
  "placeInherited payload reducing order e =
     Throw TypeError
       (if r_orderType payload = Market then e
        else e\<lparr>store := (store e)\<lparr>users := lockedUsers reducing order (r_userId payload) (users (store e))\<rparr>\<rparr>)"

lemma placeInherited_Return [simp]: "placeInherited payload reducing order e \<noteq> Return resp e'"
  by (simp add: placeInherited_def)

definition placeOrder ::
  "runtime \<Rightarrow> SelectOrderRecord \<Rightarrow> bool \<Rightarrow> engine \<Rightarrow> (engine_error, engine, TPlaceOrderResponse) outcome" where
  "placeOrder rt payload skipWebSocketPayload e =
     (case checkOrder payload (store e) of
        Inl msg \<Rightarrow> Throw (Error msg) e
      | Inr (reducing, order, ob) \<Rightarrow>
          if map_of (orderbooks (store e)) (r_marketId payload) = None then placeInherited payload reducing order e
          else
          (let us = lockedUsers reducing order (r_userId payload) (users (store e));
               takerId = (case getUserById us (r_userId payload) of None \<Rightarrow> [] | Some u \<Rightarrow> u_userId u)
           in case matchOrder rt order (r_userId payload) takerId (venueOf ob us e) of
                Throw err v \<Rightarrow> Throw err (putVenue (r_marketId payload) v e)
              | Return (order', res) v \<Rightarrow>
                  (let e1 = putVenue (r_marketId payload) v e;
                       fills = (case backend res of None \<Rightarrow> [] | Some b \<Rightarrow> bm_fills b);
                       filledQty = (case backend res of None \<Rightarrow> 0 | Some b \<Rightarrow> bm_filledQty b);
                       (wsUser, clock') = userEventsForMatch rt (clock_reads e1) (users (store e1))
                         (r_marketId payload) fills (n_positionType order') (orderUpdatesOf (writer res))
                         [(order', filledQty, if skipWebSocketPayload then Liquidation else User)];
                       e2 = e1\<lparr>clock_reads := clock'\<rparr>
                   in if skipWebSocketPayload then
                        Return \<lparr>pr_match = res, pr_wsServer = None, pr_wsUser = wsUser\<rparr> e2
                      else
                        (case publicPayload rt (r_marketId payload) (Some (fills, n_positionType order')) e2 of
                           Throw err e3 \<Rightarrow> Throw err e3
                         | Return ws e3 \<Rightarrow>
                             Return \<lparr>pr_match = res, pr_wsServer = Some ws, pr_wsUser = wsUser\<rparr> e3))))"

section \<open>Cancelling an order\<close>

record TCancelOrderReturnType =
  cr_order :: SelectOrderRecord
  cr_cancelledQty :: jsnum
  cr_releasedMargin :: jsnum
  cr_available :: jsnum
  cr_locked :: jsnum
  cr_writer :: "TWriterEntry list"
  cr_wsServer :: TWsServer
  cr_wsUser :: TWsUser

text \<open>The side an order rests on.\<close>

fun resting_side :: "TPositionType \<Rightarrow> TOrderbook \<Rightarrow> TSide" where
  "resting_side LONG ob = bids ob"
| "resting_side SHORT ob = asks ob"

fun put_resting :: "TPositionType \<Rightarrow> TSide \<Rightarrow> TOrderbook \<Rightarrow> TOrderbook" where
  "put_resting LONG sd ob = ob\<lparr>bids := sd\<rparr>"
| "put_resting SHORT sd ob = ob\<lparr>asks := sd\<rparr>"

text \<open>Finding the resting order: the level of its price string and the index in it.\<close>

definition findResting :: "SelectOrderRecord \<Rightarrow> TOrderbook \<Rightarrow> (TBid \<times> nat \<times> TOpenOrder) option" where
  "findResting order ob =
     (case map_of (resting_side (r_positionType order) ob) (r_price order) of
        None \<Rightarrow> None
      | Some level \<Rightarrow>
          if availableQty level \<le> 0 \<or> openOrders level = [] then None
          else
            (case find_index (\<lambda>o'. o_orderId o' = r_id order) (openOrders level) of
               None \<Rightarrow> None
             | Some i \<Rightarrow> Some (level, i, openOrders level ! i)))"

definition releaseMargin :: "jsnum \<Rightarrow> TUser \<Rightarrow> TUser" where
  "releaseMargin margin user =
     user\<lparr>u_collateral := \<lparr>available = available (u_collateral user) + margin,
                          locked = locked (u_collateral user) - margin\<rparr>\<rparr>"

definition removeResting :: "string \<Rightarrow> TBid \<Rightarrow> nat \<Rightarrow> jsnum \<Rightarrow> TSide \<Rightarrow> TSide" where
  "removeResting priceLevel level i remainingQty sd =
     (let level' = \<lparr>availableQty = availableQty level - remainingQty, openOrders = splice1 i (openOrders level)\<rparr>
      in if availableQty level' \<le> 0 \<or> openOrders level' = [] then AList.delete priceLevel sd
         else AList.update priceLevel level' sd)"

definition cancelOrder ::
  "runtime \<Rightarrow> SelectOrderRecord \<Rightarrow> engine \<Rightarrow> (engine_error, engine, TCancelOrderReturnType) outcome" where
  "cancelOrder rt order e =
     (case (map_of (orderbooks (store e)) (r_marketId order), getUserById (users (store e)) (r_userId order)) of
        (Some ob, Some user) \<Rightarrow>
          (case findResting order ob of
             None \<Rightarrow>
               Throw (if map_of (resting_side (r_positionType order) ob) (r_price order) = None \<and> inherited (r_price order)
                      then TypeError else Error ''Order not found'') e
           | Some (level, i, openOrder) \<Rightarrow>
               (let releasedMargin = o_margin openOrder;
                    remainingQty = o_qty openOrder - o_filledQty openOrder;
                    user' = releaseMargin releasedMargin user;
                    ob' = put_resting (r_positionType order)
                      (removeResting (r_price order) level i remainingQty
                        (resting_side (r_positionType order) ob)) ob;
                    order' = order\<lparr>r_status := Cancelled\<rparr>;
                    updates = [\<lparr>w_orderId = r_id order, w_userId = r_userId order, w_status = Cancelled,
                                w_filledQty = o_filledQty openOrder\<rparr>];
                    e1 = e\<lparr>store := (store e)
                      \<lparr>users := setUser (r_userId order) user' (users (store e)),
                       orderbooks := AList.update (r_marketId order) ob' (orderbooks (store e))\<rparr>\<rparr>
                in case publicPayload rt (r_marketId order) None e1 of
                     Throw err e2 \<Rightarrow> Throw err e2
                   | Return ws e2 \<Rightarrow>
                       (case userEventsForMatch rt (clock_reads e2) (users (store e2)) (r_marketId order) []
                               (r_positionType order) updates [] of
                          (wsUser, clock') \<Rightarrow>
                            Return
                              \<lparr>cr_order = order', cr_cancelledQty = remainingQty,
                               cr_releasedMargin = releasedMargin,
                               cr_available = available (u_collateral user'),
                               cr_locked = locked (u_collateral user'),
                               cr_writer = [OrderUpdatesEntry updates],
                               cr_wsServer = ws, cr_wsUser = wsUser\<rparr>
                              (e2\<lparr>clock_reads := clock'\<rparr>))))
      | (None, Some user) \<Rightarrow> Throw (if inherited (r_marketId order) then TypeError else Error ''Order not found'') e
      | (_, None) \<Rightarrow> Throw (Error ''Order not found'') e)"

section \<open>Queries\<close>

definition getOpenPositionsForMarket :: "TUsers \<Rightarrow> string \<Rightarrow> string \<Rightarrow> TPosition list" where
  "getOpenPositionsForMarket us userId marketId =
     (case getUserById us userId of
        None \<Rightarrow> []
      | Some user \<Rightarrow> filter (\<lambda>pos. p_marketId pos = marketId) (u_positions user))"

definition getClosedPositionsForMarket :: "TUsers \<Rightarrow> string \<Rightarrow> string \<Rightarrow> TClosedPosition list" where
  "getClosedPositionsForMarket us userId marketId =
     (case getUserById us userId of
        None \<Rightarrow> []
      | Some user \<Rightarrow> filter (\<lambda>pos. p_marketId pos = marketId) (u_closedPositions user))"

end
