(* ===== verification/Engine.thy ===== *)
theory Engine
  imports Orders
begin

text \<open>
  The rest of \<open>apps/engine/src/services/exchange-engine.ts\<close>: the liquidation sweep, the funding
  pass, the backup request and \<open>handle\<close>, the one entry point of the engine.
\<close>

section \<open>The liquidation sweep\<close>

text \<open>A forced close: a market order for the whole position on the other side, with no price and no margin.\<close>

definition liquidationOrder ::
  "runtime \<Rightarrow> string \<Rightarrow> string \<Rightarrow> TPosition \<Rightarrow> TPositionType \<Rightarrow> engine \<Rightarrow> SelectOrderRecord \<times> engine" where
  "liquidationOrder rt userId marketId userPosition side e =
     (\<lparr>r_id = uuid_of rt (uuids_used e), r_userId = userId, r_marketId = marketId, r_positionType = side,
       r_orderType = Market, r_status = Pending, r_qty = js_string (p_qty userPosition),
       r_filledQty = ''0'', r_price = ''0'', r_slippage = Fin 100, r_initialMargin = ''0'',
       r_createdAt = Some (date_now rt (clock_reads e)),
       r_updatedAt = Some (date_now rt (clock_reads e + 1))\<rparr>,
      e\<lparr>uuids_used := uuids_used e + 1, clock_reads := clock_reads e + 2\<rparr>)"

text \<open>What the sweep accumulates.\<close>

record sweep =
  sw_engine :: engine
  sw_responses :: "TMatchOrderFunctionResponse list"
  sw_trades :: "TTradePrint list"
  sw_events :: TWsUser

text \<open>
  One forced close. An error of \<open>placeOrder\<close> is caught: the position is skipped, and what the call
  had written stays written.
\<close>

definition liquidatePosition ::
  "runtime \<Rightarrow> string \<Rightarrow> string \<Rightarrow> TPosition \<Rightarrow> TPositionType \<Rightarrow> sweep \<Rightarrow> sweep" where
  "liquidatePosition rt userId marketId userPosition side sw =
     (let (newOrderData, e1) = liquidationOrder rt userId marketId userPosition side (sw_engine sw)
      in case placeOrder rt newOrderData True e1 of
           Throw err e2 \<Rightarrow> sw\<lparr>sw_engine := e2\<rparr>
         | Return resp e2 \<Rightarrow>
             (let m = pr_match resp;
                  fills = (case backend m of None \<Rightarrow> [] | Some b \<Rightarrow> bm_fills b);
                  trades = tradesFromFills fills (r_positionType newOrderData) (date_now rt (clock_reads e2));
                  inserted = newOrderData\<lparr>r_createdAt := None, r_updatedAt := None\<rparr>
              in sw\<lparr>sw_engine := e2\<lparr>clock_reads := clock_reads e2 + 1\<rparr>,
                    sw_trades := sw_trades sw @ trades,
                    sw_events := mergeUserEvents (sw_events sw) (pr_wsUser resp),
                    sw_responses := sw_responses sw @ [m\<lparr>writer := OrderInsertsEntry [inserted] # writer m\<rparr>]\<rparr>))"

definition sweepUser :: "runtime \<Rightarrow> string \<Rightarrow> jsnum \<Rightarrow> sweep \<Rightarrow> string \<Rightarrow> sweep" where
  "sweepUser rt marketId price sw userKey =
     (case getUserById (users (store (sw_engine sw))) userKey of
        None \<Rightarrow> sw
      | Some user \<Rightarrow>
          (case getUserMarketPosition (u_positions user) marketId of
             None \<Rightarrow> sw
           | Some (_, userPosition) \<Rightarrow>
               if p_type userPosition = LONG then
                 (if p_liquidationPrice userPosition \<ge> price
                  then liquidatePosition rt (u_userId user) marketId userPosition SHORT sw else sw)
               else
                 (if p_liquidationPrice userPosition \<le> price
                  then liquidatePosition rt (u_userId user) marketId userPosition LONG sw else sw)))"

fun insertsOf :: "TWriterEntry list \<Rightarrow> SelectOrderRecord list" where
  "insertsOf [] = []"
| "insertsOf (OrderInsertsEntry ds # es) = ds"
| "insertsOf (_ # es) = insertsOf es"

fun fillsOf :: "TWriterEntry list \<Rightarrow> InsertFillRecord list" where
  "fillsOf [] = []"
| "fillsOf (FillsEntry ds # es) = ds"
| "fillsOf (_ # es) = fillsOf es"

text \<open>One entry per table, with the rows of all the responses in their order.\<close>

definition arrayToObjectUtil :: "TMatchOrderFunctionResponse list \<Rightarrow> TMatchOrderFunctionResponse" where
  "arrayToObjectUtil allResponses =
     \<lparr>backend = None,
      writer =
        [OrderInsertsEntry (concat (map (insertsOf \<circ> writer) allResponses)),
         OrderUpdatesEntry (concat (map (orderUpdatesOf \<circ> writer) allResponses)),
         FillsEntry (concat (map (fillsOf \<circ> writer) allResponses))]\<rparr>"

definition setIndexPrice :: "string \<Rightarrow> jsnum \<Rightarrow> engine \<Rightarrow> engine" where
  "setIndexPrice marketId price e =
     (case map_of (orderbooks (store e)) marketId of
        None \<Rightarrow> e
      | Some ob \<Rightarrow> e\<lparr>store := (store e)
          \<lparr>orderbooks := AList.update marketId (ob\<lparr>indexPrice := price\<rparr>) (orderbooks (store e))\<rparr>\<rparr>)"

record TSweepResponse =
  sr_match :: TMatchOrderFunctionResponse
  sr_wsServer :: "TWsServer option"
  sr_wsUser :: TWsUser

text \<open>
  An asset with no market is \<open>undefined\<close> as a market id: no position and no book has it, and the
  sweep does nothing. The ids of \<open>supportedAssets\<close> are those of the market table, uuids all of them, so that
  the look-up of the book never meets a member of \<open>Object.prototype\<close>; nor does that of the funding pass,
  since positions are opened in books of the store alone.
\<close>

definition liqudationChecks ::
  "runtime \<Rightarrow> TSupportedAssets \<Rightarrow> jsnum \<Rightarrow> engine \<Rightarrow> (engine_error, engine, TSweepResponse) outcome" where
  "liqudationChecks rt asset price e =
     (case map_of (supportedAssets (store e)) asset of
        None \<Rightarrow> Return \<lparr>sr_match = arrayToObjectUtil [], sr_wsServer = None, sr_wsUser = []\<rparr> e
      | Some marketId \<Rightarrow>
          (let e1 = setIndexPrice marketId price e;
               sw = foldl (sweepUser rt marketId price)
                 \<lparr>sw_engine = e1, sw_responses = [], sw_trades = [], sw_events = []\<rparr>
                 (map fst (users (store e1)));
               e2 = sw_engine sw;
               response = (\<lambda>ws. \<lparr>sr_match = arrayToObjectUtil (sw_responses sw), sr_wsServer = ws,
                                 sr_wsUser = sw_events sw\<rparr>)
           in case map_of (orderbooks (store e2)) marketId of
                None \<Rightarrow> Return (response None) e2
              | Some _ \<Rightarrow>
                  (case publicPayload rt marketId None e2 of
                     Throw err e3 \<Rightarrow> Throw err e3
                   | Return ws e3 \<Rightarrow> Return (response (Some (ws\<lparr>ws_trades := Some (sw_trades sw)\<rparr>))) e3)))"

section \<open>The requests of the engine\<close>

text \<open>
  A request as \<open>handle\<close> reads it: the type with the fields of its payload it uses. The payload of a
  price update gives \<open>Number(payload[asset])\<close> for the assets it has.
\<close>

datatype TEngineRequest =
    InitBalance string
  | Onramp string jsnum
  | CreateOrder SelectOrderRecord
  | CancelOrder SelectOrderRecord
  | GetBalances string
  | GetOpenPositionsForMarket string string
  | GetClosedPositionsForMarket string string
  | SpotPriceUpdate "TSupportedAssets \<Rightarrow> jsnum option"
  | BackupStore int
  | FundingRateDispersal
  | GetDepth string
  | UnsupportedRequest

datatype backend_reply =
    BalanceReply string jsnum
  | OnrampReply string jsnum
  | MatchReply "TBackendMatch option"
  | CancelReply SelectOrderRecord jsnum jsnum jsnum jsnum
  | BalancesReply TCollateral
  | PositionsReply "TPosition list"
  | ClosedPositionsReply "TClosedPosition list"
  | DepthReply TMarketDepth

record TEngineResponse =
  rs_backend :: "backend_reply option"
  rs_writer :: "TWriterEntry list"
  rs_wsServer :: "TWsServer option"
  rs_wsUser :: TWsUser

definition backend_only :: "backend_reply \<Rightarrow> TEngineResponse" where
  "backend_only b = \<lparr>rs_backend = Some b, rs_writer = [], rs_wsServer = None, rs_wsUser = []\<rparr>"

text \<open>The account of a user id, made with the given deposit if the store has none.\<close>

definition ensureUser :: "string \<Rightarrow> engine \<Rightarrow> engine" where
  "ensureUser userId e =
     (case getUserById (users (store e)) userId of
        None \<Rightarrow> e\<lparr>store := (store e)\<lparr>users := setUser userId (new_user userId 0) (users (store e))\<rparr>\<rparr>
      | Some _ \<Rightarrow> e)"

definition accountOf :: "engine \<Rightarrow> string \<Rightarrow> TUser" where
  "accountOf e userId =
     (case getUserById (users (store e)) userId of None \<Rightarrow> new_user userId 0 | Some u \<Rightarrow> u)"

definition deposit :: "string \<Rightarrow> jsnum \<Rightarrow> engine \<Rightarrow> engine" where
  "deposit userId amount e =
     e\<lparr>store := (store e)\<lparr>users :=
       (case getUserById (users (store e)) userId of
          None \<Rightarrow> setUser userId (new_user userId amount) (users (store e))
        | Some u \<Rightarrow> setUser userId
            (u\<lparr>u_collateral := (u_collateral u)\<lparr>available := available (u_collateral u) + amount\<rparr>\<rparr>)
            (users (store e)))\<rparr>\<rparr>"

text \<open>
  \<open>backup_store\<close>: a request younger than ten minutes uploads the store (a second clock read names the
  object); an older one is ignored.
\<close>

definition backupStore :: "runtime \<Rightarrow> string \<Rightarrow> int \<Rightarrow> engine \<Rightarrow> engine" where
  "backupStore rt messageId now e =
     (let safeOffsetMills = 10 * 60 * 1000;
          e1 = e\<lparr>clock_reads := clock_reads e + 1\<rparr>
      in if now > date_now rt (clock_reads e) - safeOffsetMills
         then e1\<lparr>clock_reads := clock_reads e1 + 1, uploads := uploads e1 @ [(messageId, store e1)]\<rparr>
         else e1)"

text \<open>The asset a price update is about: the first of the three, in this order, with a usable price.\<close>

definition spotPrice :: "(TSupportedAssets \<Rightarrow> jsnum option) \<Rightarrow> (TSupportedAssets \<times> jsnum) option" where
  "spotPrice payload =
     (case filter (\<lambda>(a, p). js_truthy p)
             (concat (map (\<lambda>a. case payload a of None \<Rightarrow> [] | Some p \<Rightarrow> [(a, p)]) [SOL, BTC, ETH])) of
        [] \<Rightarrow> None | ap # _ \<Rightarrow> Some ap)"

fun handle ::
  "runtime \<Rightarrow> string \<Rightarrow> TEngineRequest \<Rightarrow> engine \<Rightarrow> (engine_error, engine, TEngineResponse option) outcome" where
  "handle rt messageId (InitBalance userId) e =
     (let e1 = ensureUser userId e
      in Return (Some (backend_only (BalanceReply userId (available (u_collateral (accountOf e1 userId)))))) e1)"
| "handle rt messageId (Onramp userId amount) e =
     (let e1 = deposit userId amount e; c = u_collateral (accountOf e1 userId)
      in Return (Some \<lparr>rs_backend = Some (OnrampReply userId (available c)), rs_writer = [], rs_wsServer = None,
           rs_wsUser = [(userId, [BalanceEvent (js_string (available c)) (js_string (locked c))])]\<rparr>) e1)"
| "handle rt messageId (CreateOrder payload) e =
     (case placeOrder rt payload False (ensureUser (r_userId payload) e) of
        Throw err e1 \<Rightarrow> Throw err e1
      | Return resp e1 \<Rightarrow>
          Return (Some \<lparr>rs_backend = Some (MatchReply (backend (pr_match resp))),
            rs_writer = writer (pr_match resp), rs_wsServer = pr_wsServer resp,
            rs_wsUser = pr_wsUser resp\<rparr>) e1)"
| "handle rt messageId (CancelOrder order) e =
     (case cancelOrder rt order e of
        Throw err e1 \<Rightarrow> Throw err e1
      | Return resp e1 \<Rightarrow>
          Return (Some \<lparr>rs_backend = Some (CancelReply (cr_order resp) (cr_cancelledQty resp)
              (cr_releasedMargin resp) (cr_available resp) (cr_locked resp)),
            rs_writer = cr_writer resp, rs_wsServer = Some (cr_wsServer resp),
            rs_wsUser = cr_wsUser resp\<rparr>) e1)"
| "handle rt messageId (GetBalances userId) e =
     (let e1 = ensureUser userId e
      in Return (Some (backend_only (BalancesReply (u_collateral (accountOf e1 userId))))) e1)"
| "handle rt messageId (GetOpenPositionsForMarket userId marketId) e =
     Return (Some (backend_only (PositionsReply
       (getOpenPositionsForMarket (users (store e)) userId marketId)))) e"
| "handle rt messageId (GetClosedPositionsForMarket userId marketId) e =
     Return (Some (backend_only (ClosedPositionsReply
       (getClosedPositionsForMarket (users (store e)) userId marketId)))) e"
| "handle rt messageId (SpotPriceUpdate payload) e =
     (case spotPrice payload of
        None \<Rightarrow> Throw (Error ''Unsupported request type'') e
      | Some (asset, price) \<Rightarrow>
          (case liqudationChecks rt asset price e of
             Throw err e1 \<Rightarrow> Throw err e1
           | Return resp e1 \<Rightarrow>
               Return (Some \<lparr>rs_backend = None, rs_writer = writer (sr_match resp),
                 rs_wsServer = sr_wsServer resp, rs_wsUser = sr_wsUser resp\<rparr>) e1))"
| "handle rt messageId (BackupStore now) e = Return None (backupStore rt messageId now e)"
| "handle rt messageId FundingRateDispersal e =
     Return None (e\<lparr>store := disperseFundingRate (store e)\<rparr>)"
| "handle rt messageId (GetDepth marketId) e =
     (case getMarketDepth (store e) marketId (date_now rt (clock_reads e)) of
        Inl err \<Rightarrow> Throw err e
      | Inr depth \<Rightarrow>
          Return (Some (backend_only (DepthReply depth))) (e\<lparr>clock_reads := clock_reads e + 1\<rparr>))"
| "handle rt messageId UnsupportedRequest e = Throw (Error ''Unsupported request type'') e"

end
