(* ===== verification/WellFormed.thy ===== *)
theory WellFormed
  imports Engine
begin

text \<open>
  The well-formed stores: canonical price keys, orders on the side and in the market they belong to,
  known makers, accounts under their own id, one position per market and account. Two predicates are
  left open, what holds of the quantities of a level and of the size of a position: the regimes of
  theory \<open>Regimes\<close> fill them in.
\<close>

section \<open>Amounts\<close>

text \<open>
  A finite, non-negative double. A size is only required not to be negative: the sum of very many
  fills may overflow.
\<close>

definition amount :: "jsnum \<Rightarrow> bool" where
  "amount x \<longleftrightarrow> is_double x \<and> 0 \<le> x \<and> x < PInf"

definition size_ok :: "jsnum \<Rightarrow> bool" where
  "size_ok x \<longleftrightarrow> \<not> x < 0"

lemma amount_Fin: "amount x \<longleftrightarrow> (\<exists>r. x = Fin r \<and> binary64 r \<and> 0 \<le> r \<and> r < 2 ^ 1024)"
  by (cases x) (auto simp: amount_def)

lemma amount_size: "amount x \<Longrightarrow> size_ok x"
  by (auto simp: amount_Fin size_ok_def)

lemma amount_zero [simp]: "amount 0" "amount (Fin 0)"
  by (simp_all add: amount_def)

lemma js_add_double [simp, intro]: "is_double (x + y :: jsnum)" if "is_double x" "is_double y"
  using that by (cases x; cases y) (auto simp: plus_jsnum_def)

lemma js_diff_double [simp, intro]: "is_double (x - y :: jsnum)" if "is_double x" "is_double y"
  using that by (cases x; cases y) (auto simp: minus_jsnum_def)

lemma amount_diff:
  assumes "amount a" "amount b" "b \<le> a"
  shows "amount (a - b)" "a - b \<le> a" "b < a \<Longrightarrow> 0 < a - b"
proof -
  obtain x y where xy: "a = Fin x" "b = Fin y" "binary64 x" "binary64 y" "0 \<le> y" "y \<le> x" "x < 2 ^ 1024"
    using assms by (auto simp: amount_Fin)
  have j: "js (x - y) = Fin (round64 (x - y))" using xy by (intro js_bounded[of _ x]) auto
  have "round64 (x - y) \<le> x" "0 \<le> round64 (x - y)"
    using xy by (auto intro!: b64.rnd_diff_le b64.rnd_diff_nonneg simp: binary64_def)
  then show "amount (a - b)" "a - b \<le> a" using xy j by (auto simp: amount_Fin)
  assume "b < a"
  then have "0 < round64 (x - y)" using xy by (auto intro!: round64_diff_pos)
  then show "0 < a - b" using xy j by simp
qed

lemma amount_add_within:
  assumes "amount q" "amount f" "amount r" "r < q - f"
  shows "amount (f + r)" "f + r \<le> q"
proof -
  obtain x y z where xyz: "q = Fin x" "f = Fin y" "r = Fin z" "binary64 x" "binary64 y" "binary64 z"
    "0 \<le> y" "0 \<le> z" "x < 2 ^ 1024" using assms by (auto simp: amount_Fin)
  have yx: "y \<le> x"
  proof (rule ccontr)
    assume "\<not> y \<le> x"
    then have "q \<le> f" "amount f" using xyz assms by auto
    moreover from this have "js (x - y) = - (f - q)" using xyz by (simp add: js_minus flip: js_minus)
    ultimately have "0 \<le> f - q" using amount_diff(1)[of f q] assms by (simp add: amount_def)
    then show False using assms(4) \<open>js (x - y) = - (f - q)\<close> xyz by (cases "f - q") auto
  qed
  have j: "js (x - y) = Fin (round64 (x - y))" using xyz yx by (intro js_bounded[of _ x]) auto
  have z: "z < round64 (x - y)" using assms(4) xyz j by simp
  have w: "round64 (y + z) \<le> x" using xyz z by (intro b64.rnd_add_within) (auto simp: binary64_def)
  have "y + z \<le> x" using b64.below_rounded[of z "x - y"] z xyz by (auto simp: binary64_def)
  then have "js (y + z) = Fin (round64 (y + z))" using xyz by (intro js_bounded[of _ x]) auto
  moreover have "0 \<le> round64 (y + z)" using xyz by (auto intro!: b64.rnd_nonneg)
  ultimately show "amount (f + r)" "f + r \<le> q" using w xyz by (auto simp: amount_Fin)
qed

lemma size_add: "size_ok x \<Longrightarrow> size_ok y \<Longrightarrow> size_ok (x + y)"
proof -
  assume a: "size_ok x" "size_ok y"
  show ?thesis
  proof (cases "\<exists>a b. x = Fin a \<and> y = Fin b")
    case True
    then obtain r s where "x = Fin r" "y = Fin s" by blast
    moreover from this a have "0 \<le> round64 (r + s)" by (intro b64.rnd_nonneg) (auto simp: size_ok_def)
    ultimately show ?thesis by (auto simp: size_ok_def js_def Let_def)
  qed (use a in \<open>cases x; cases y; auto simp: size_ok_def plus_jsnum_def\<close>)
qed

lemma size_abs [simp]: "size_ok \<bar>x\<bar>"
  by (cases x) (auto simp: size_ok_def abs_jsnum_def)

lemma size_pos: "0 < x \<Longrightarrow> size_ok x"
  by (cases x) (auto simp: size_ok_def)

section \<open>Accounts\<close>

definition wf_user :: "(jsnum \<Rightarrow> bool) \<Rightarrow> string \<Rightarrow> TUser \<Rightarrow> bool" where
  "wf_user S k u \<longleftrightarrow> u_userId u = k \<and> one_way u \<and> (\<forall>p \<in> set (u_positions u). S (p_qty p))"

definition wf_users :: "(jsnum \<Rightarrow> bool) \<Rightarrow> TUsers \<Rightarrow> bool" where
  "wf_users S us \<longleftrightarrow> distinct (map fst us) \<and> (\<forall>(k, u) \<in> set us. wf_user S k u)"

definition user_ids :: "TUsers \<Rightarrow> string set" where
  "user_ids us = set (map fst us)"

lemma wf_users_get: "wf_users S us \<Longrightarrow> getUserById us k = Some u \<Longrightarrow> wf_user S k u"
  by (auto simp: wf_users_def getUserById_def dest!: map_of_SomeD)

lemma wf_users_set: "wf_users S us \<Longrightarrow> wf_user S k u \<Longrightarrow> wf_users S (setUser k u us)"
  by (auto simp: wf_users_def setUser_def distinct_update dest!: in_set_update)

lemma wf_users_modify:
  assumes "wf_users S us" "\<And>u. wf_user S k u \<Longrightarrow> wf_user S k (f u)" shows "wf_users S (modifyUser k f us)"
  using assms wf_users_get wf_users_set by (auto simp: modifyUser_def split: option.split)

lemma map_users_keys: "map fst (map (\<lambda>(k, u). (k, f u)) us) = map fst us"
  by (induction us) auto

lemma wf_users_map:
  assumes "wf_users S us" "\<And>k u. wf_user S k u \<Longrightarrow> wf_user S k (f u)"
  shows "wf_users S (map (\<lambda>(k, u). (k, f u)) us)"
  using assms unfolding wf_users_def map_users_keys by fastforce

lemma wf_new_user [simp]: "wf_user S k (new_user k a)"
  by (simp add: wf_user_def new_user_def one_way_def)

lemma wf_user_collateral [simp]: "wf_user S k (u\<lparr>u_collateral := c\<rparr>) = wf_user S k u"
  by (simp add: wf_user_def one_way_def)

lemma updateUnrealisedPnL_wf: "wf_user S k u \<Longrightarrow> wf_user S k (updateUnrealisedPnL p m u)"
proof -
  assume u: "wf_user S k u"
  show ?thesis
  proof (cases "find_index (\<lambda>p. p_marketId p = m) (u_positions u)")
    case (Some i)
    let ?q = "(u_positions u ! i)\<lparr>p_pnL := Some (getRoudedNumber (unrealisedPnL p (u_positions u ! i)))\<rparr>"
    have i: "i < length (u_positions u)" using find_index_Some[OF Some] by simp
    have "S (p_qty ?q)" using u i by (auto simp: wf_user_def)
    then show ?thesis using u i Some set_update_subset_insert[of "u_positions u" i ?q]
      by (auto simp: updateUnrealisedPnL_def wf_user_def one_way_def map_list_update_same)
  qed (use u in \<open>simp add: updateUnrealisedPnL_def\<close>)
qed

lemma fundPosition_simps [simp]:
  "p_marketId (fundPosition obs p) = p_marketId p" "p_qty (fundPosition obs p) = p_qty p"
  "p_type (fundPosition obs p) = p_type p" "p_averagePrice (fundPosition obs p) = p_averagePrice p"
  by (simp_all add: fundPosition_def Let_def split: option.split)

lemma fundPositions_wf:
  "wf_user S k u \<Longrightarrow> wf_user S k (u\<lparr>u_positions := map (fundPosition obs) (u_positions u)\<rparr>)"
  by (simp add: wf_user_def one_way_def comp_def)

lemma user_ids_get: "k \<in> user_ids us \<longleftrightarrow> getUserById us k \<noteq> None"
  by (force simp: user_ids_def getUserById_def map_of_eq_None_iff)

lemma user_ids_set [simp]: "user_ids (setUser k u us) = insert k (user_ids us)"
  by (auto simp: user_ids_def setUser_def dom_update)

lemma user_ids_modify [simp]: "user_ids (modifyUser k f us) = user_ids us"
  by (simp add: user_ids_def del: set_map)

lemma user_ids_map [simp]: "user_ids (map (\<lambda>(k, u). (k, f u)) us) = user_ids us"
  by (simp only: user_ids_def map_users_keys)

section \<open>Books\<close>

definition wf_resting :: "TPositionType \<Rightarrow> string \<Rightarrow> string set \<Rightarrow> TOpenOrder \<Rightarrow> bool" where
  "wf_resting t m ids o' \<longleftrightarrow> o_positionType o' = t \<and> o_marketId o' = m \<and> o_userId o' \<in> ids"

definition wf_level :: "TPositionType \<Rightarrow> string \<Rightarrow> string set \<Rightarrow> TBid \<Rightarrow> bool" where
  "wf_level t m ids l \<longleftrightarrow> (\<forall>o' \<in> set (openOrders l). wf_resting t m ids o')"

definition wf_side :: "(bool \<Rightarrow> TBid \<Rightarrow> bool) \<Rightarrow> TPositionType \<Rightarrow> string \<Rightarrow> string set \<Rightarrow> TSide \<Rightarrow> bool" where
  "wf_side V t m ids sd \<longleftrightarrow> canonical sd \<and> (\<forall>(k, l) \<in> set sd. wf_level t m ids l \<and> V True l)"

definition wf_book :: "(bool \<Rightarrow> TBid \<Rightarrow> bool) \<Rightarrow> string \<Rightarrow> string set \<Rightarrow> TOrderbook \<Rightarrow> bool" where
  "wf_book V m ids ob \<longleftrightarrow> wf_side V LONG m ids (bids ob) \<and> wf_side V SHORT m ids (asks ob)"

definition wf_store :: "(bool \<Rightarrow> TBid \<Rightarrow> bool) \<Rightarrow> (jsnum \<Rightarrow> bool) \<Rightarrow> TStore \<Rightarrow> bool" where
  "wf_store V S s \<longleftrightarrow> wf_users S (users s) \<and> distinct (map fst (orderbooks s))
     \<and> (\<forall>(m, ob) \<in> set (orderbooks s). wf_book V m (user_ids (users s)) ob)"

lemma wf_side_mono:
  "wf_side V t m ids sd \<Longrightarrow> ids \<subseteq> ids' \<Longrightarrow> (\<And>l. V True l \<Longrightarrow> V' True l) \<Longrightarrow> wf_side V' t m ids' sd"
  by (fastforce simp: wf_side_def wf_level_def wf_resting_def)

lemma wf_side_get: "wf_side V t m ids sd \<Longrightarrow> map_of sd k = Some l \<Longrightarrow> wf_level t m ids l \<and> V True l"
  by (auto simp: wf_side_def dest!: map_of_SomeD)

lemma wf_side_delete: "wf_side V t m ids sd \<Longrightarrow> wf_side V t m ids (AList.delete k sd)"
  by (auto simp: wf_side_def canonical_delete dest!: in_set_delete)

lemma wf_side_update:
  "wf_side V t m ids sd \<Longrightarrow> js_string (js_number k) = k \<Longrightarrow> wf_level t m ids l \<Longrightarrow> V True l \<Longrightarrow>
     wf_side V t m ids (AList.update k l sd)"
  using canonical_update[of sd "js_number k" l] by (auto simp: wf_side_def dest!: in_set_update)

lemma wf_side_put:
  "wf_side V t m ids sd \<Longrightarrow> is_double p \<Longrightarrow> wf_level t m ids l \<Longrightarrow> (att \<Longrightarrow> V True l) \<Longrightarrow>
     wf_side V t m ids (put_level (js_string p) l att sd)"
  by (simp add: put_level_def wf_side_update wf_side_delete js_number_string)

lemma wf_side_Nil [simp]: "wf_side V t m ids []"
  by (simp add: wf_side_def)

lemma wf_side_key:
  "wf_side V t m ids sd \<Longrightarrow> map_of sd k = Some l \<Longrightarrow> js_string (js_number k) = k"
  by (force simp: wf_side_def canonical_def dest: map_of_SomeD)

lemma wf_side_found:
  assumes "wf_side V t' m ids sd" "next_best t sd p = Some b" shows "map_of sd (js_string b) \<noteq> None"
proof -
  obtain k where "k \<in> fst ` set sd" "js_number k = b" using next_best_key[OF assms(2)] by auto
  then show ?thesis using canonical_lookup[of sd k] assms(1) by (force simp: wf_side_def)
qed

lemma wf_store_book: "wf_store V S s \<Longrightarrow> map_of (orderbooks s) m = Some ob \<Longrightarrow> wf_book V m (user_ids (users s)) ob"
  by (auto simp: wf_store_def dest!: map_of_SomeD)

lemma wf_book_taken: "wf_book V m ids ob \<Longrightarrow> wf_side V (opposite t) m ids (taken_side t ob)"
  by (cases t) (auto simp: wf_book_def)

lemma wf_book_put:
  "wf_book V m ids ob \<Longrightarrow> wf_side V (opposite t) m ids sd \<Longrightarrow> wf_book V m ids (put_taken t sd ob)"
  by (cases t) (auto simp: wf_book_def)

lemma resting_side_taken: "resting_side t ob = taken_side (opposite t) ob"
  "put_resting t sd ob = put_taken (opposite t) sd ob"
  by (cases t; simp)+

lemma taken_put [simp]:
  "taken_side t (put_taken t sd ob) = sd" "taken_side (opposite t) (put_taken t sd ob) = taken_side (opposite t) ob"
  "taken_side t (put_taken (opposite t) sd ob) = taken_side t ob"
  by (cases t; simp)+

lemma taken_side_last [simp]: "taken_side t (ob\<lparr>lastTradedPrice := p\<rparr>) = taken_side t ob"
  by (cases t) simp_all

text \<open>Replacing one book and the accounts.\<close>

lemma wf_store_put:
  assumes "wf_store V S s" "wf_users S us" "user_ids us = user_ids (users s)"
    "wf_book V' m (user_ids us) ob" "\<And>l. V True l \<Longrightarrow> V' True l"
  shows "wf_store V' S (s\<lparr>orderbooks := AList.update m ob (orderbooks s), users := us\<rparr>)"
  using assms
  by (auto simp: wf_store_def wf_book_def distinct_update intro: wf_side_mono[of V _ _ _ _ _ V'] dest!: in_set_update)

end
