(* ===== verification/MatchingLoop.thy ===== *)
theory MatchingLoop
  imports WellFormed
begin

text \<open>
  Reasoning about the matching loop once for all its properties: an invariant of the loop is a
  predicate at its head and a predicate inside a price level, with four laws (entering a level,
  skipping an empty one, one fill, leaving the level). The locale derives the invariant of the
  whole loop; its extension derives that the loop returns. One fill is taken apart here as well.
\<close>

section \<open>The shape of a run\<close>

lemma getFirstCreatedOrder_Nil [simp]: "getFirstCreatedOrder [] = None"
  by simp

lemma fillResting_side:
  "fillResting rt ord tk b i r (level, att, s) = Return brk (level', att', s') \<Longrightarrow> ms_side s' = ms_side s"
  by (auto simp: fillResting_def Let_def split: prod.splits option.splits)

lemma fillResting_returns:
  "getUserById (ms_users s) (o_userId r) \<noteq> None \<Longrightarrow> is_return (fillResting rt ord tk b i r (level, att, s))"
  by (auto simp: fillResting_def Let_def split: prod.splits option.splits)

text \<open>The condition of the loop, and the reason it stopped.\<close>

definition loop_runs :: "TPositionType \<Rightarrow> OrderRecordNumberified \<Rightarrow> jsnum option \<Rightarrow> match_state \<Rightarrow> bool" where
  "loop_runs t ord best s \<longleftrightarrow> 0 < ms_remaining s \<and>
     (case best of None \<Rightarrow> False | Some b \<Rightarrow> js_truthy b \<and> reaches t b (n_price ord))"

locale fill_invariant =
  fixes rt :: runtime and t :: TPositionType and ord :: OrderRecordNumberified and tk :: string
    and outer :: "jsnum option \<Rightarrow> match_state \<Rightarrow> bool"
    and inner :: "jsnum \<Rightarrow> bool \<Rightarrow> level_state \<Rightarrow> bool"
  assumes enter: "outer (Some b) s \<Longrightarrow> loop_runs t ord (Some b) s \<Longrightarrow>
      map_of (ms_side s) (js_string b) = Some level \<Longrightarrow> \<not> availableQty level \<le> 0 \<Longrightarrow>
      inner b False (level, True, s)"
    and skip: "outer (Some b) s \<Longrightarrow> loop_runs t ord (Some b) s \<Longrightarrow>
      map_of (ms_side s) (js_string b) = Some level \<Longrightarrow> availableQty level \<le> 0 \<Longrightarrow>
      outer (next_best t (ms_side s) b) s"
    and one_fill: "inner b False (level, att, s) \<Longrightarrow>
      getFirstCreatedOrder (openOrders level) = Some (i, r) \<Longrightarrow>
      fillResting rt ord tk b i r (level, att, s) = Return brk ls \<Longrightarrow> inner b brk ls"
    and leave: "inner b brk (level, att, s) \<Longrightarrow> brk \<or> openOrders level = [] \<Longrightarrow>
      map_of (ms_side s) (js_string b) = Some level0 \<Longrightarrow>
      outer (next_best t (put_level (js_string b) level att (ms_side s)) b)
        (s\<lparr>ms_side := put_level (js_string b) level att (ms_side s)\<rparr>)"
begin

lemma level_invariant:
  "inner b False (level, att, s) \<Longrightarrow> matchLevel rt ord tk b (level, att, s) = Return u (level', att', s') \<Longrightarrow>
     ms_side s' = ms_side s \<and> (\<exists>brk. inner b brk (level', att', s') \<and> (brk \<or> openOrders level' = []))"
proof (induction "length (openOrders level)" arbitrary: level att s rule: less_induct)
  case less
  show ?case
  proof (cases "getFirstCreatedOrder (openOrders level)")
    case None
    then show ?thesis using less.prems by (auto simp: matchLevel.simps)
  next
    case (Some ir)
    then obtain i r where g: "getFirstCreatedOrder (openOrders level) = Some (i, r)" by force
    obtain brk l1 a1 s1 where f: "fillResting rt ord tk b i r (level, att, s) = Return brk (l1, a1, s1)"
      using less.prems(2) g by (auto simp: matchLevel.simps[of _ _ _ _ level] split: outcome.splits)
    have inv: "inner b brk (l1, a1, s1)" by (rule one_fill[OF less.prems(1) g f])
    show ?thesis
    proof (cases brk)
      case True
      then show ?thesis using less.prems(2) g f inv fillResting_side[OF f]
        by (auto simp: matchLevel.simps[of _ _ _ _ level])
    next
      case False
      have "length (openOrders l1) < length (openOrders level)"
        using fillResting_continue[of rt ord tk b i r level att s l1 a1 s1] f False getFirstCreatedOrder_Some(1)[OF g]
        by (simp add: length_splice1)
      moreover have "matchLevel rt ord tk b (l1, a1, s1) = Return u (level', att', s')"
        using less.prems(2) g f False by (simp add: matchLevel.simps[of _ _ _ _ level])
      moreover have "inner b False (l1, a1, s1)" using inv False by simp
      ultimately show ?thesis using less.hyps[of l1 a1 s1] fillResting_side[OF f] by auto
    qed
  qed
qed

lemma loop_invariant:
  "outer best s \<Longrightarrow> matchLoop rt t ord tk best s = Return u s' \<Longrightarrow>
     \<exists>best'. outer best' s' \<and> \<not> loop_runs t ord best' s'"
proof (induction "keys_beyond t best (ms_side s)" arbitrary: best s rule: less_induct)
  case less
  show ?case
  proof (cases "loop_runs t ord best s")
    case False
    then show ?thesis using less.prems
      by (cases best) (auto simp: matchLoop.simps loop_runs_def intro: exI[of _ best])
  next
    case True
    then obtain b where b: "best = Some b" by (cases best) (auto simp: loop_runs_def)
    note run = True[unfolded b]
    note inv = less.prems(1)[unfolded b]
    have c: "0 < ms_remaining s \<and> js_truthy b \<and> reaches t b (n_price ord)" using run by (simp add: loop_runs_def)
    obtain level where l: "map_of (ms_side s) (js_string b) = Some level"
      using less.prems(2) c b by (auto simp: matchLoop.simps Let_def split: option.splits)
    show ?thesis
    proof (cases "availableQty level \<le> 0")
      case True
      have "keys_beyond t (next_best t (ms_side s) b) (ms_side s) < keys_beyond t best (ms_side s)"
        unfolding b by (rule keys_beyond_next) simp
      moreover have "matchLoop rt t ord tk (next_best t (ms_side s) b) s = Return u s'"
        using less.prems(2) b c l True by (simp add: matchLoop.simps(2))
      ultimately show ?thesis using less.hyps skip[OF inv run l True] by blast
    next
      case False
      have lvl: "inner b False (level, True, s)" by (rule enter[OF inv run l False])
      obtain l1 a1 s1 where m: "matchLevel rt ord tk b (level, True, s) = Return () (l1, a1, s1)"
        using less.prems(2) b c l False by (auto simp: matchLoop.simps(2) Let_def split: outcome.splits)
      let ?sd = "put_level (js_string b) l1 a1 (ms_side s)"
      obtain brk where i1: "inner b brk (l1, a1, s1)" "brk \<or> openOrders l1 = []" and sd: "ms_side s1 = ms_side s"
        using level_invariant[OF lvl m] by blast
      have out: "outer (next_best t ?sd b) (s1\<lparr>ms_side := ?sd\<rparr>)"
        using leave[OF i1, of level] l sd by simp
      have "map fst ?sd = map fst (ms_side s) \<or> map fst ?sd = removeAll (js_string b) (map fst (ms_side s))"
        using l by (simp add: put_level_keys)
      then have "keys_beyond t (next_best t ?sd b) ?sd < keys_beyond t best (ms_side s)"
        unfolding b by (rule keys_beyond_next)
      moreover have "matchLoop rt t ord tk (next_best t ?sd b) (s1\<lparr>ms_side := ?sd\<rparr>) = Return u s'"
        using less.prems(2) b c l False m by (simp add: matchLoop.simps(2) Let_def)
      ultimately show ?thesis using less.hyps[of "next_best t ?sd b" "s1\<lparr>ms_side := ?sd\<rparr>"] out by simp
    qed
  qed
qed

end

text \<open>With every level found and every maker known, the loop returns.\<close>

locale fill_progress = fill_invariant +
  assumes found: "outer (Some b) s \<Longrightarrow> loop_runs t ord (Some b) s \<Longrightarrow> map_of (ms_side s) (js_string b) \<noteq> None"
    and known: "inner b False (level, att, s) \<Longrightarrow> getFirstCreatedOrder (openOrders level) = Some (i, r) \<Longrightarrow>
      getUserById (ms_users s) (o_userId r) \<noteq> None"
begin

lemma level_returns: "inner b False (level, att, s) \<Longrightarrow> is_return (matchLevel rt ord tk b (level, att, s))"
proof (induction "length (openOrders level)" arbitrary: level att s rule: less_induct)
  case less
  show ?case
  proof (cases "getFirstCreatedOrder (openOrders level)")
    case None
    then show ?thesis by (simp add: matchLevel.simps)
  next
    case (Some ir)
    then obtain i r where g: "getFirstCreatedOrder (openOrders level) = Some (i, r)" by force
    obtain brk l1 a1 s1 where f: "fillResting rt ord tk b i r (level, att, s) = Return brk (l1, a1, s1)"
      using fillResting_returns[OF known[OF less.prems g]] by (metis is_return_iff prod_cases3)
    show ?thesis
    proof (cases brk)
      case True
      then show ?thesis using g f by (simp add: matchLevel.simps[of _ _ _ _ level])
    next
      case False
      have "length (openOrders l1) < length (openOrders level)"
        using fillResting_continue[of rt ord tk b i r level att s l1 a1 s1] f False getFirstCreatedOrder_Some(1)[OF g]
        by (simp add: length_splice1)
      moreover have "inner b False (l1, a1, s1)" using one_fill[OF less.prems g f] False by simp
      ultimately show ?thesis using less.hyps[of l1 a1 s1] g f False
        by (simp add: matchLevel.simps[of _ _ _ _ level])
    qed
  qed
qed

lemma loop_returns: "outer best s \<Longrightarrow> is_return (matchLoop rt t ord tk best s)"
proof (induction "keys_beyond t best (ms_side s)" arbitrary: best s rule: less_induct)
  case less
  show ?case
  proof (cases "loop_runs t ord best s")
    case False
    then show ?thesis by (cases best) (auto simp: matchLoop.simps loop_runs_def)
  next
    case True
    then obtain b where b: "best = Some b" by (cases best) (auto simp: loop_runs_def)
    note run = True[unfolded b]
    note inv = less.prems(1)[unfolded b]
    have c: "0 < ms_remaining s \<and> js_truthy b \<and> reaches t b (n_price ord)" using run by (simp add: loop_runs_def)
    obtain level where l: "map_of (ms_side s) (js_string b) = Some level" using found[OF inv run] by auto
    show ?thesis
    proof (cases "availableQty level \<le> 0")
      case True
      have "keys_beyond t (next_best t (ms_side s) b) (ms_side s) < keys_beyond t best (ms_side s)"
        unfolding b by (rule keys_beyond_next) simp
      then show ?thesis using less.hyps skip[OF inv run l True] b c l True by (simp add: matchLoop.simps(2))
    next
      case False
      have lvl: "inner b False (level, True, s)" by (rule enter[OF inv run l False])
      obtain l1 a1 s1 where m: "matchLevel rt ord tk b (level, True, s) = Return () (l1, a1, s1)"
        using level_returns[OF lvl] by (metis (full_types) is_return_iff old.unit.exhaust prod_cases3)
      let ?sd = "put_level (js_string b) l1 a1 (ms_side s)"
      obtain brk where i1: "inner b brk (l1, a1, s1)" "brk \<or> openOrders l1 = []" and sd: "ms_side s1 = ms_side s"
        using level_invariant[OF lvl m] by blast
      have out: "outer (next_best t ?sd b) (s1\<lparr>ms_side := ?sd\<rparr>)"
        using leave[OF i1, of level] l sd by simp
      have "map fst ?sd = map fst (ms_side s) \<or> map fst ?sd = removeAll (js_string b) (map fst (ms_side s))"
        using l by (simp add: put_level_keys)
      then have "keys_beyond t (next_best t ?sd b) ?sd < keys_beyond t best (ms_side s)"
        unfolding b by (rule keys_beyond_next)
      then show ?thesis using less.hyps[of "next_best t ?sd b" "s1\<lparr>ms_side := ?sd\<rparr>"] out b c l False m
        by (simp add: matchLoop.simps(2) Let_def)
    qed
  qed
qed

end

section \<open>One fill, by cases\<close>

text \<open>What the resting order is when the fill leaves part of it.\<close>

definition leftOrder :: "TOpenOrder \<Rightarrow> jsnum \<Rightarrow> TOpenOrder" where
  "leftOrder r q = r\<lparr>o_filledQty := o_filledQty r + q, o_status := PartiallyFilled,
     o_margin := calculateRelativeMargin (o_margin r) (o_qty r - o_filledQty r) (o_qty r - o_filledQty r - q)\<rparr>"

definition makerPayload :: "TOpenOrder \<Rightarrow> jsnum \<Rightarrow> jsnum \<Rightarrow> TPositionPayload" where
  "makerPayload r b q = \<lparr>pp_marketId = o_marketId r, pp_type = o_positionType r, pp_qty = q,
     pp_margin = calculateRelativeMargin (o_margin r) (o_qty r) q, pp_averagePrice = b\<rparr>"

definition fillOf ::
  "runtime \<Rightarrow> OrderRecordNumberified \<Rightarrow> string \<Rightarrow> jsnum \<Rightarrow> TOpenOrder \<Rightarrow> nat \<Rightarrow> jsnum \<Rightarrow> FillRecordNumberified" where
  "fillOf rt ord tk b r n q = \<lparr>f_id = uuid_of rt n, f_makerId = o_userId r, f_takerId = tk,
     f_marketId = n_marketId ord, f_qty = q, f_price = b, f_makerOrderId = o_orderId r,
     f_takerOrderId = n_id ord\<rparr>"

definition updateOf :: "TOpenOrder \<Rightarrow> jsnum \<Rightarrow> TOrderStatus \<Rightarrow> TOrderDataForWriter" where
  "updateOf r q rst = \<lparr>w_orderId = o_orderId r, w_userId = o_userId r, w_status = rst,
     w_filledQty = o_filledQty r + q\<rparr>"

lemma fillResting_Return:
  assumes "fillResting rt ord tk b i r (level, att, s) = Return brk (level', att', s')"
  obtains q rem st rst maker where
    "fill_split (o_qty r - o_filledQty r) (ms_remaining s) = (q, rem, st, rst, brk)"
    "getUserById (ms_users s) (o_userId r) = Some maker"
    "level' = \<lparr>availableQty = availableQty level - q,
       openOrders = (if rst = PartiallyFilled then (openOrders level)[i := leftOrder r q]
                     else splice1 i (openOrders level))\<rparr>"
    "att' = (att \<and> (rst = PartiallyFilled \<or> \<not> availableQty level' \<le> 0))"
    "s' = s\<lparr>ms_lastTraded := b, ms_uuids := ms_uuids s + 1, ms_remaining := rem,
       ms_filled := ms_filled s + q, ms_total := ms_total s + b * q, ms_status := st,
       ms_fills := ms_fills s @ [fillOf rt ord tk b r (ms_uuids s) q],
       ms_users := setUser (o_userId r) (createPosition maker (makerPayload r b q) b) (ms_users s),
       ms_updates := ms_updates s @ [updateOf r q rst]\<rparr>"
proof -
  obtain q rem st rst brk' where sp: "fill_split (o_qty r - o_filledQty r) (ms_remaining s) = (q, rem, st, rst, brk')"
    by (metis prod_cases5)
  obtain maker where mk: "getUserById (ms_users s) (o_userId r) = Some maker"
    using assms by (cases "getUserById (ms_users s) (o_userId r)") (auto simp: fillResting_def Let_def sp)
  have rst: "rst = PartiallyFilled \<or> rst = Filled" using sp by (auto simp: fill_split_def split: if_splits)
  show ?thesis
    by (rule that[OF _ mk, of q rem st rst])
      (use assms rst in \<open>auto simp: fillResting_def Let_def sp mk leftOrder_def makerPayload_def fillOf_def updateOf_def\<close>)
qed

lemma fill_split_cases:
  assumes "fill_split a m = (q, rem, st, rst, brk)" "amount a" "amount m"
  obtains (partial) "m < a" "q = m" "rem = 0" "st = Filled" "rst = PartiallyFilled" "brk"
  | (full) "a = m" "q = m" "rem = 0" "st = Filled" "rst = Filled" "brk"
  | (more) "a < m" "q = a" "rem = m - a" "st = PartiallyFilled" "rst = Filled" "\<not> brk"
  using assms by (auto simp: fill_split_def amount_Fin split: if_splits)

end
