(* ===== verification/Regimes.thy ===== *)
theory Regimes
  imports MatchingLoop
begin

text \<open>
  Well-formedness of the store through a match, for any regime of quantities that satisfies a few
  laws: what holds of the quantities of a level, of the taker's remaining and filled quantity, and
  of the sizes of fills and positions. Three regimes are shown: no claim on quantities at all;
  amounts, that is finite non-negative doubles; and lots, that is whole numbers.
\<close>

locale regime =
  fixes V :: "bool \<Rightarrow> TBid \<Rightarrow> bool"   \<comment> \<open>the quantities of a level, in the book or taken out of it\<close>
    and R C :: "jsnum \<Rightarrow> jsnum \<Rightarrow> bool" \<comment> \<open>the taker's remaining and filled quantity; the same, with some left\<close>
    and F S :: "jsnum \<Rightarrow> bool"  \<comment> \<open>the quantity of a fill; the size of a position\<close>
  assumes R_C: "R m g \<Longrightarrow> 0 < m \<Longrightarrow> C m g"
    and C_R: "C m g \<Longrightarrow> R m g"
    and fill_law: "V att level \<Longrightarrow> C m g \<Longrightarrow> i < length (openOrders level) \<Longrightarrow> r = openOrders level ! i \<Longrightarrow>
      fill_split (o_qty r - o_filledQty r) m = (q, rem, st, rst, brk) \<Longrightarrow>
      level' = \<lparr>availableQty = availableQty level - q,
        openOrders = (if rst = PartiallyFilled then (openOrders level)[i := leftOrder r q]
                      else splice1 i (openOrders level))\<rparr> \<Longrightarrow>
      F q \<and> R rem (g + q) \<and> (\<not> brk \<longrightarrow> C rem (g + q)) \<and>
      V (att \<and> (rst = PartiallyFilled \<or> \<not> availableQty level' \<le> 0)) level'"
    and cancel_law: "V True l \<Longrightarrow> i < length (openOrders l) \<Longrightarrow> r = openOrders l ! i \<Longrightarrow>
      l' = \<lparr>availableQty = availableQty l - (o_qty r - o_filledQty r), openOrders = splice1 i (openOrders l)\<rparr> \<Longrightarrow>
      \<not> availableQty l' \<le> 0 \<Longrightarrow> openOrders l' \<noteq> [] \<Longrightarrow> V True l'"
    and F_taker: "R m g \<Longrightarrow> 0 < g \<Longrightarrow> F g"
    and S_fresh: "F y \<Longrightarrow> S y"
    and S_add: "S x \<Longrightarrow> F y \<Longrightarrow> S (x + y)"
    and S_net: "S x \<Longrightarrow> F y \<Longrightarrow> \<not> js_eq (x - y) 0 \<Longrightarrow> S \<bar>x - y\<bar>"
begin

lemma createPosition_wf:
  assumes "wf_user S k u" "F (pp_qty pl)"
  shows "wf_user S k (createPosition u pl t)"
proof -
  have "\<forall>p \<in> set (u_positions (createPosition u pl t)). S (p_qty p)"
  proof (cases rule: createPosition_cases[of u pl t])
    case fresh
    then show ?thesis using assms S_fresh by (auto simp: wf_user_def)
  next
    case (close i p)
    then show ?thesis using assms by (auto dest: in_splice1D simp: wf_user_def)
  next
    case (net i p q)
    have "S (p_qty q)"
      using net assms getUserMarketPosition_Some[OF net(1)] S_net by (simp add: wf_user_def)
    then show ?thesis using net assms set_update_subset_insert[of "u_positions u" i q] by (auto simp: wf_user_def)
  next
    case (grow i p q)
    have "S (p_qty q)"
      using grow assms getUserMarketPosition_Some[OF grow(1)] S_add by (simp add: wf_user_def)
    then show ?thesis using grow assms set_update_subset_insert[of "u_positions u" i q] by (auto simp: wf_user_def)
  qed
  then show ?thesis using assms by (simp add: wf_user_def createPosition_one_way)
qed

text \<open>The invariant of the loop, in the taker's market with the accounts the store has.\<close>

definition wf_outer :: "TPositionType \<Rightarrow> string \<Rightarrow> string set \<Rightarrow> jsnum option \<Rightarrow> match_state \<Rightarrow> bool" where
  "wf_outer t m ids best s \<longleftrightarrow> wf_side V (opposite t) m ids (ms_side s) \<and> wf_users S (ms_users s)
     \<and> user_ids (ms_users s) = ids \<and> R (ms_remaining s) (ms_filled s)
     \<and> (\<forall>b. best = Some b \<longrightarrow> is_double b \<and> map_of (ms_side s) (js_string b) \<noteq> None)"

definition wf_inner ::
  "TPositionType \<Rightarrow> string \<Rightarrow> string set \<Rightarrow> jsnum \<Rightarrow> bool \<Rightarrow> level_state \<Rightarrow> bool" where
  "wf_inner t m ids b brk ls \<longleftrightarrow> (case ls of (level, att, s) \<Rightarrow> wf_outer t m ids None s \<and> is_double b
     \<and> wf_level (opposite t) m ids level \<and> V att level \<and> (\<not> brk \<longrightarrow> C (ms_remaining s) (ms_filled s)))"

lemma wf_best: "wf_outer t m ids None s \<Longrightarrow> wf_outer t m ids (next_best t (ms_side s) b) s"
  by (auto simp: wf_outer_def dest: next_best_beyond wf_side_found)

lemma wf_fill:
  assumes "wf_inner t m ids b False (level, att, s)"
    "getFirstCreatedOrder (openOrders level) = Some (i, r)"
    "fillResting rt ord tk b i r (level, att, s) = Return brk (level', att', s')"
  shows "wf_inner t m ids b brk (level', att', s')"
proof -
  note g = getFirstCreatedOrder_Some(1,2)[OF assms(2)]
  have out: "wf_outer t m ids None s" and lv: "wf_level (opposite t) m ids level" "V att level"
    and db: "is_double b" and c: "C (ms_remaining s) (ms_filled s)"
    using assms(1) by (auto simp: wf_inner_def)
  have r: "wf_resting (opposite t) m ids r" using lv g by (auto simp: wf_level_def)
  obtain q rem st rst maker where
    sp: "fill_split (o_qty r - o_filledQty r) (ms_remaining s) = (q, rem, st, rst, brk)" and
    mk: "getUserById (ms_users s) (o_userId r) = Some maker" and
    l': "level' = \<lparr>availableQty = availableQty level - q,
       openOrders = (if rst = PartiallyFilled then (openOrders level)[i := leftOrder r q]
                     else splice1 i (openOrders level))\<rparr>" and
    att': "att' = (att \<and> (rst = PartiallyFilled \<or> \<not> availableQty level' \<le> 0))" and
    s': "s' = s\<lparr>ms_lastTraded := b, ms_uuids := ms_uuids s + 1, ms_remaining := rem,
       ms_filled := ms_filled s + q, ms_total := ms_total s + b * q, ms_status := st,
       ms_fills := ms_fills s @ [fillOf rt ord tk b r (ms_uuids s) q],
       ms_users := setUser (o_userId r) (createPosition maker (makerPayload r b q) b) (ms_users s),
       ms_updates := ms_updates s @ [updateOf r q rst]\<rparr>"
    by (rule fillResting_Return[OF assms(3)]) blast
  have q: "F q" "R rem (ms_filled s + q)" "\<not> brk \<longrightarrow> C rem (ms_filled s + q)" "V att' level'"
    using fill_law[OF lv(2) c g(1) g(2)[symmetric] sp l'] att' by auto
  have lv': "wf_level (opposite t) m ids level'"
  proof (cases "rst = PartiallyFilled")
    case True
    have "wf_resting (opposite t) m ids (leftOrder r q)" using r by (simp add: wf_resting_def leftOrder_def)
    then show ?thesis using l' True lv set_update_subset_insert[of "openOrders level" i "leftOrder r q"]
      by (auto simp: wf_level_def)
  next
    case False
    then show ?thesis using l' lv by (auto simp: wf_level_def dest: in_splice1D)
  qed
  have us: "wf_users S (ms_users s')" "user_ids (ms_users s') = ids"
  proof -
    have "wf_user S (o_userId r) maker" using out mk by (auto simp: wf_outer_def intro: wf_users_get)
    then have "wf_user S (o_userId r) (createPosition maker (makerPayload r b q) b)"
      using q by (intro createPosition_wf) (auto simp: makerPayload_def)
    then show "wf_users S (ms_users s')" using out s' by (auto simp: wf_outer_def intro: wf_users_set)
    show "user_ids (ms_users s') = ids" using out s' r by (auto simp: wf_outer_def wf_resting_def)
  qed
  show ?thesis using lv' us q out s' db by (auto simp: wf_outer_def wf_inner_def)
qed

end

sublocale regime \<subseteq> run: fill_progress rt t ord tk "wf_outer t m ids" "wf_inner t m ids"
  for rt t ord tk m ids
proof (unfold_locales, goal_cases)
  case (1 b s level)
  then show ?case by (auto simp: wf_outer_def wf_inner_def loop_runs_def intro: R_C dest: wf_side_get)
next
  case (2 b s level)
  then show ?case by (intro wf_best) (simp add: wf_outer_def)
next
  case (3 b level att s i r brk ls)
  then show ?case by (cases ls) (auto intro: wf_fill)
next
  case (4 b brk level att s level0)
  then show ?case by (intro wf_best[of _ _ _ "s\<lparr>ms_side := sd\<rparr>" for sd, simplified])
      (auto simp: wf_outer_def wf_inner_def intro: wf_side_put)
next
  case (5 b s)
  then show ?case by (auto simp: wf_outer_def)
next
  case (6 b level att s i r)
  then have "wf_resting (opposite t) m ids r"
    using getFirstCreatedOrder_Some(1,2)[OF 6(2)] by (auto simp: wf_level_def wf_inner_def)
  then show ?case using 6(1) by (auto simp: wf_resting_def wf_outer_def wf_inner_def user_ids_get)
qed

section \<open>No claim on quantities\<close>

abbreviation "any_level \<equiv> \<lambda>(_::bool) (_::TBid). True"
abbreviation "any_qty \<equiv> \<lambda>(_::jsnum). True"
abbreviation "any_left \<equiv> \<lambda>(_::jsnum) (_::jsnum). True"

interpretation plain: regime any_level any_left any_left any_qty any_qty
  by unfold_locales simp_all

section \<open>Amounts\<close>

definition amount_level :: "bool \<Rightarrow> TBid \<Rightarrow> bool" where
  "amount_level att l \<longleftrightarrow> (\<forall>r \<in> set (openOrders l).
     amount (o_qty r) \<and> amount (o_filledQty r) \<and> o_filledQty r \<le> o_qty r)"

definition amount_left :: "jsnum \<Rightarrow> jsnum \<Rightarrow> bool" where
  "amount_left m g \<longleftrightarrow> (0 < m \<longrightarrow> amount m)"

definition amount_more :: "jsnum \<Rightarrow> jsnum \<Rightarrow> bool" where
  "amount_more m g \<longleftrightarrow> 0 < m \<and> amount m"

lemma amount_fill:
  assumes "amount_level att level" "amount_more m g" "i < length (openOrders level)" "r = openOrders level ! i"
    "fill_split (o_qty r - o_filledQty r) m = (q, rem, st, rst, brk)"
  shows "amount q" "amount_left rem g'" "\<not> brk \<longrightarrow> amount_more rem g'"
    "amount_level att' \<lparr>availableQty = a, openOrders =
       (if rst = PartiallyFilled then (openOrders level)[i := leftOrder r q] else splice1 i (openOrders level))\<rparr>"
proof -
  have r: "amount (o_qty r)" "amount (o_filledQty r)" "o_filledQty r \<le> o_qty r"
    using assms(1,3,4) by (auto simp: amount_level_def)
  then have ar: "amount (o_qty r - o_filledQty r)" by (rule amount_diff(1))
  have am: "amount m" "0 < m" using assms(2) by (auto simp: amount_more_def)
  have *: "amount q \<and> amount_left rem g' \<and> (\<not> brk \<longrightarrow> amount_more rem g')
      \<and> (rst = PartiallyFilled \<longrightarrow> q < o_qty r - o_filledQty r)"
    by (rule fill_split_cases[OF assms(5) ar am(1)])
      (use ar am amount_diff[OF am(1) ar] in \<open>auto dest: js_less_imp_le simp: amount_left_def amount_more_def\<close>)
  then show "amount q" "amount_left rem g'" "\<not> brk \<longrightarrow> amount_more rem g'" by auto
  have "rst = PartiallyFilled \<Longrightarrow> amount (o_filledQty r + q) \<and> o_filledQty r + q \<le> o_qty r"
    using * amount_add_within[OF r(1,2), of q] by blast
  then show "amount_level att' \<lparr>availableQty = a, openOrders =
       (if rst = PartiallyFilled then (openOrders level)[i := leftOrder r q] else splice1 i (openOrders level))\<rparr>"
    using assms(1) r set_update_subset_insert[of "openOrders level" i "leftOrder r q"]
    by (auto simp: amount_level_def leftOrder_def dest: in_splice1D)
qed

interpretation amounts: regime amount_level amount_left amount_more size_ok size_ok
proof (unfold_locales, goal_cases)
  case (3 att level m g i r q rem st rst brk level')
  from amount_fill[OF this(1-5)] 3(6) show ?case by (auto intro: amount_size)
qed (auto simp: amount_left_def amount_more_def amount_level_def intro: size_pos size_add dest: in_splice1D)

end
