(* ===== verification/EngineSafety.thy ===== *)
theory EngineSafety
  imports Regimes
begin

text \<open>
  From the loop to the engine: a whole match, \<open>placeOrder\<close>, \<open>cancelOrder\<close>, the sweep and \<open>handle\<close>
  keep the store well-formed, and no run of the engine on a well-formed store reads a property off
  \<open>undefined\<close>, unless a request names a member of \<open>Object.prototype\<close> in place of a market or a price.
\<close>

section \<open>A whole match\<close>

lemma matchOrder_loop:
  "matchOrder rt ord uk tk v =
     (let t = n_positionType ord in
      case matchLoop rt t ord tk (next_best t (taken_side t (v_book v)) (scan_start t)) (startMatch t ord v) of
        Throw e s \<Rightarrow> Throw e (afterLoop t s v)
      | Return _ s \<Rightarrow> (case finishMatch rt t ord uk tk s v of (v', ord', res) \<Rightarrow> Return (ord', res) v'))"
  unfolding matchOrder_def matchLongOrder_def matchShortOrder_def matchLongLoop_def matchShortLoop_def
    finishLong_def finishShort_def
  by (cases "n_positionType ord") simp_all

text \<open>
  A regime in which the remainder of an order may rest: \<open>n\<close> is the order's quantity, \<open>now\<close> the date the
  resting order would get.
\<close>

locale resting_regime = regime V R C F S
  for V :: "bool \<Rightarrow> TBid \<Rightarrow> bool" and R C :: "jsnum \<Rightarrow> jsnum \<Rightarrow> bool" and F S :: "jsnum \<Rightarrow> bool" +
  fixes V' :: "bool \<Rightarrow> TBid \<Rightarrow> bool" and n :: jsnum and now :: int
  assumes weaken: "R m g \<Longrightarrow> V att l \<Longrightarrow> V' att l"
    and rest_new: "R m g \<Longrightarrow> 0 < m \<Longrightarrow> o_qty r = n \<Longrightarrow> o_filledQty r = g \<Longrightarrow>
      o_createdAt r = now \<Longrightarrow> V' True \<lparr>availableQty = n - g, openOrders = [r]\<rparr>"
    and rest_add: "R m g \<Longrightarrow> 0 < m \<Longrightarrow> o_qty r = n \<Longrightarrow> o_filledQty r = g \<Longrightarrow>
      o_createdAt r = now \<Longrightarrow> V True l \<Longrightarrow> V' True \<lparr>availableQty = availableQty l + (n - g), openOrders = openOrders l @ [r]\<rparr>"
begin

lemma settleTaker_wf:
  assumes "wf_outer t m ids best s" shows "wf_users S (settleTaker ord uk s)" "user_ids (settleTaker ord uk s) = ids"
proof -
  have us: "wf_users S (ms_users s)" "user_ids (ms_users s) = ids" "R (ms_remaining s) (ms_filled s)"
    using assms by (auto simp: wf_outer_def)
  show "user_ids (settleTaker ord uk s) = ids"
    using us by (simp add: settleTaker_def Let_def updateUnrealisedPnLForAllUsers_def)
  show "wf_users S (settleTaker ord uk s)"
    unfolding settleTaker_def Let_def updateUnrealisedPnLForAllUsers_def
    using us F_taker by (auto intro!: wf_users_map wf_users_modify createPosition_wf updateUnrealisedPnL_wf)
qed

lemma addOpenOrder_wf:
  assumes "wf_side V t m ids sd" "is_double p" "wf_resting t m ids r"
    "R rem g" "0 < rem" "o_qty r = n" "o_filledQty r = g" "o_createdAt r = now"
  shows "wf_side V' t m ids (addOpenOrder (js_string p) (n - g) r sd)"
proof -
  have sd': "wf_side V' t m ids sd" using assms(1) by (rule wf_side_mono) (auto intro: weaken[OF assms(4)])
  show ?thesis
  proof (cases "map_of sd (js_string p)")
    case None
    then show ?thesis using assms rest_new[OF assms(4-8)]
      by (auto simp: addOpenOrder_def wf_level_def js_number_string intro!: wf_side_update[OF sd'])
  next
    case (Some l)
    then have l: "wf_level t m ids l" "V True l" using assms(1) wf_side_get by blast+
    then show ?thesis using assms rest_add[OF assms(4-8)] Some
      by (auto simp: addOpenOrder_def wf_level_def js_number_string intro!: wf_side_update[OF sd'])
  qed
qed

lemma match_wf:
  assumes start: "R n 0" and book: "wf_book V m ids (v_book v)" and us: "wf_users S (v_users v)" "user_ids (v_users v) = ids"
    and ord: "n_qty ord = n" "n_marketId ord = m" "is_double (n_price ord)" "tk \<in> ids"
    and now: "date_now rt (v_clock v) = now"
  shows "\<exists>ord' res v'. matchOrder rt ord uk tk v = Return (ord', res) v'
    \<and> wf_book V' m ids (v_book v') \<and> wf_users S (v_users v') \<and> user_ids (v_users v') = ids"
proof -
  define t where "t = n_positionType ord"
  let ?best = "next_best t (taken_side t (v_book v)) (scan_start t)"
  let ?s = "startMatch t ord v"
  have out: "wf_outer t m ids ?best ?s"
    using wf_best[of t m ids ?s] wf_book_taken[OF book, of t] us start ord
    by (auto simp: wf_outer_def startMatch_def dest: next_best_beyond wf_side_found)
  obtain u s where loop: "matchLoop rt t ord tk ?best ?s = Return u s"
    using run.loop_returns[OF out, of rt ord tk] by (auto simp: is_return_iff)
  obtain best' where out': "wf_outer t m ids best' s" using run.loop_invariant[OF out loop] by blast
  then have sd: "wf_side V (opposite t) m ids (ms_side s)" and R: "R (ms_remaining s) (ms_filled s)"
    by (auto simp: wf_outer_def)
  obtain own ck st where rest: "restRemainder rt t ord tk (v_clock v) (taken_side (opposite t) (v_book v)) s = (own, ck, st)"
    by (metis prod_cases3)
  have own: "wf_side V' t m ids own"
  proof -
    have o1: "wf_side V t m ids (taken_side (opposite t) (v_book v))"
      using wf_book_taken[OF book, of "opposite t"] by simp
    then have o2: "wf_side V' t m ids (taken_side (opposite t) (v_book v))"
      by (rule wf_side_mono) (auto intro: weaken[OF start])
    let ?r = "newOpenOrder ord tk (date_now rt (v_clock v)) s"
    have "wf_resting t m ids ?r" using ord by (simp add: wf_resting_def newOpenOrder_def t_def)
    then have "0 < ms_remaining s \<Longrightarrow> wf_side V' t m ids
        (addOpenOrder (js_string (n_price ord)) (n - ms_filled s) ?r (taken_side (opposite t) (v_book v)))"
      using addOpenOrder_wf[OF o1 ord(3) _ R] ord(1) now by (simp add: newOpenOrder_def)
    then show ?thesis using rest o2 ord(1) by (auto simp: restRemainder_def split: if_splits)
  qed
  have "wf_book V' m ids (put_taken (opposite t) own (put_taken t (ms_side s) (v_book v)))"
  proof -
    have "wf_book V' m ids (v_book v)" using book by (auto simp: wf_book_def intro: wf_side_mono weaken[OF start])
    moreover have "wf_side V' (opposite t) m ids (ms_side s)" using sd by (rule wf_side_mono) (auto intro: weaken[OF start])
    ultimately show ?thesis using own by (intro wf_book_put) auto
  qed
  moreover have "put_taken (opposite t) own ((put_taken t (ms_side s) (v_book v))\<lparr>lastTradedPrice := p\<rparr>)
      = (put_taken (opposite t) own (put_taken t (ms_side s) (v_book v)))\<lparr>lastTradedPrice := p\<rparr>" for p
    by (cases t) simp_all
  ultimately show ?thesis using loop rest settleTaker_wf[OF out']
    by (simp add: matchOrder_loop t_def[symmetric] finishMatch_def afterLoop_def wf_book_def)
qed

end

section \<open>The public payload\<close>

lemma depth_bids_returns:
  assumes "canonical bs" "\<forall>b. best = Some b \<longrightarrow> map_of bs (js_string b) \<noteq> None"
  shows "\<exists>ls. depth_bids k bs best = Inr ls"
  using assms
proof (induction k arbitrary: best)
  case (Suc k)
  have "map_of bs (js_string q) \<noteq> None" if "getNextBestBidPrice bs p = Some q" for p q
    using that Suc.prems(1) wf_side_found[of any_level LONG "[]" UNIV bs SHORT p q] canonical_lookup[of bs]
      getNextBestBidPrice_Some(1)[OF that] by fastforce
  then have "\<exists>ls. depth_bids k bs (getNextBestBidPrice bs p) = Inr ls" for p
    using Suc.IH[OF Suc.prems(1)] by blast
  then show ?case using Suc.prems by (auto split: option.split) (metis map_sum.simps(2))
qed simp

lemma depth_asks_returns:
  assumes "canonical as" "\<forall>b. best = Some b \<longrightarrow> map_of as (js_string b) \<noteq> None"
  shows "\<exists>ls. depth_asks k as best = Inr ls"
  using assms
proof (induction k arbitrary: best)
  case (Suc k)
  have "map_of as (js_string q) \<noteq> None" if "getNextBestAskPrice as p = Some q" for p q
    using that Suc.prems(1) canonical_lookup[of as] getNextBestAskPrice_Some(1)[OF that] by fastforce
  then have "\<exists>ls. depth_asks k as (getNextBestAskPrice as p) = Inr ls" for p
    using Suc.IH[OF Suc.prems(1)] by blast
  then show ?case using Suc.prems by (auto split: option.split) (metis map_sum.simps(2))
qed simp

lemma best_found:
  "canonical sd \<Longrightarrow> next_best t sd p = Some b \<Longrightarrow> map_of sd (js_string b) \<noteq> None"
  using next_best_key[of t sd p b] canonical_lookup[of sd] by force

lemma getMarketDepth_returns:
  assumes "wf_store V S s" "map_of (orderbooks s) m = Some ob"
  shows "\<exists>d. getMarketDepth s m now = Inr d"
proof -
  have c: "canonical (bids ob)" "canonical (asks ob)"
    using wf_store_book[OF assms] by (auto simp: wf_book_def wf_side_def)
  obtain bs where "depth_bids maxDepth (bids ob) (getNextBestBidPrice (bids ob) bid_start) = Inr bs"
    using depth_bids_returns[OF c(1)] best_found[OF c(1), of SHORT] by (metis next_best.simps(2))
  moreover obtain as where "depth_asks maxDepth (asks ob) (getNextBestAskPrice (asks ob) ask_start) = Inr as"
    using depth_asks_returns[OF c(2)] best_found[OF c(2), of LONG] by (metis next_best.simps(1))
  ultimately show ?thesis using assms(2) by (simp add: getMarketDepth_def)
qed

lemma wf_store_lastUpdateId [simp]: "wf_store V S (s\<lparr>lastUpdateId := i\<rparr>) = wf_store V S s"
  by (simp add: wf_store_def)

lemma publicPayload_returns:
  assumes "wf_store V S (store e)" "map_of (orderbooks (store e)) m \<noteq> None"
  shows "\<exists>ws n. publicPayload rt m fills e =
    Return ws (e\<lparr>store := (store e)\<lparr>lastUpdateId := lastUpdateId (store e) + 1\<rparr>, clock_reads := n\<rparr>)"
proof -
  obtain ob where ob: "map_of (orderbooks (store e)) m = Some ob" using assms(2) by blast
  have "\<exists>d. getMarketDepth (store (bumpUpdateId e)) m now = Inr d" for now
    using assms ob by (intro getMarketDepth_returns[of V S _ _ ob]) (auto simp: bumpUpdateId_def)
  then obtain d where "getMarketDepth (store (bumpUpdateId e)) m (date_now rt (clock_reads (bumpUpdateId e))) = Inr d"
    by blast
  then show ?thesis using ob
    by (auto simp: publicPayload_def Let_def bumpUpdateId_def split: option.split)
qed

interpretation plain: resting_regime any_level any_left any_left any_qty any_qty any_level n now
  for n now
  by unfold_locales simp_all


section \<open>Placing and cancelling\<close>

lemma js_plus_double [simp]: "is_double (x + y)" if "is_double x" for x y :: jsnum
  using that by (cases x; cases y) (auto simp: plus_jsnum_def)

lemma js_minus_double [simp]: "is_double (x - y)" if "is_double x" for x y :: jsnum
  using that by (cases x; cases y) (auto simp: minus_jsnum_def)

lemma entryPrice_double:
  assumes "entryPrice payload lp ob = Some p" "is_double lp" shows "is_double p"
proof (cases "r_orderType payload = Limit")
  case True
  then show ?thesis using assms by (auto simp: entryPrice_def split: if_splits)
next
  case False
  then obtain best where best: "(if r_positionType payload = LONG then getNextBestAskPrice (asks ob) ask_start
      else getNextBestBidPrice (bids ob) bid_start) = Some best"
    "p = (if r_positionType payload = LONG then best + r_slippage payload * js_0_01 * best
          else best - r_slippage payload * js_0_01 * best)"
    using assms(1) by (auto simp: entryPrice_def Let_def split: if_splits option.splits)
  then have "is_double best" by (auto dest: next_ask_gt next_bid_lt split: if_splits)
  then show ?thesis using best(2) by simp
qed

text \<open>A book read from the store is one of its own, but for the names of the prototype.\<close>

lemma bookAt_own: "map_of (orderbooks s) m \<noteq> None \<Longrightarrow> bookAt s m = map_of (orderbooks s) m"
  by (auto simp: bookAt_def)

lemma bookAt_inherited: "bookAt s m \<noteq> None \<Longrightarrow> map_of (orderbooks s) m = None \<Longrightarrow> inherited m"
  by (auto simp: bookAt_def split: if_splits)

text \<open>What an accepted order is, next to its payload.\<close>

lemma checkOrder_accepts:
  assumes "checkOrder payload s = Inr (reducing, ord, ob)"
  shows "bookAt s (r_marketId payload) = Some ob"
    "getUserById (users s) (r_userId payload) \<noteq> None"
    "n_marketId ord = r_marketId payload" "n_positionType ord = r_positionType payload"
    "n_qty ord = js_number (r_qty payload)" "n_userId ord = r_userId payload" "n_id ord = r_id payload"
    "n_orderType ord = r_orderType payload" "n_status ord = Open"
    "is_double (n_price ord)"
    "n_initialMargin ord = (if reducing then 0 else js_number (r_initialMargin payload))"
proof -
  obtain user ord0 entry where *:
    "bookAt s (r_marketId payload) = Some ob"
    "getUserById (users s) (r_userId payload) = Some user"
    "ord0 = (if reducing then (normalizeOrder payload)\<lparr>n_initialMargin := 0\<rparr> else normalizeOrder payload)"
    "entry = n_price ord0 \<or> entryPrice payload (n_price ord0) ob = Some entry" "ord = ord0\<lparr>n_price := entry\<rparr>"
    using assms by (auto simp: checkOrder_def Let_def split: option.splits sum.splits if_splits)
  have "is_double (n_price ord0)" using *(3) by (simp add: normalizeOrder_def)
  then have "is_double entry" using entryPrice_double *(4) by auto
  then show "bookAt s (r_marketId payload) = Some ob"
    "getUserById (users s) (r_userId payload) \<noteq> None"
    "n_marketId ord = r_marketId payload" "n_positionType ord = r_positionType payload"
    "n_qty ord = js_number (r_qty payload)" "n_userId ord = r_userId payload" "n_id ord = r_id payload"
    "n_orderType ord = r_orderType payload" "n_status ord = Open" "is_double (n_price ord)"
    "n_initialMargin ord = (if reducing then 0 else js_number (r_initialMargin payload))"
    using * by (simp_all add: normalizeOrder_def)
qed

context resting_regime
begin

lemma placeOrder_wf:
  assumes start: "R n 0" and "wf_store V S (store e)" and now: "date_now rt (clock_reads e) = now"
    and qty: "\<And>reducing ord ob. checkOrder payload (store e) = Inr (reducing, ord, ob) \<Longrightarrow> n_qty ord = n"
  shows "wf_store V' S (store (outcome_state (placeOrder rt payload skip e)))
    \<and> (\<forall>st. placeOrder rt payload skip e = Throw TypeError st \<longrightarrow> inherited (r_marketId payload))
    \<and> user_ids (users (store (outcome_state (placeOrder rt payload skip e)))) = user_ids (users (store e))"
proof (cases "checkOrder payload (store e)")
  case (Inl msg)
  have "wf_store V' S (store e)"
    using assms(2) by (auto simp: wf_store_def wf_book_def intro: wf_side_mono[of V _ _ _ _ _ V'] weaken[OF start])
  then show ?thesis using Inl by (simp add: placeOrder_def)
next
  case (Inr rob)
  obtain reducing ord ob where c: "checkOrder payload (store e) = Inr (reducing, ord, ob)"
    using Inr by (metis prod_cases3)
  note a = checkOrder_accepts[OF c]
  let ?m = "r_marketId payload"
  define us where "us = lockedUsers reducing ord (r_userId payload) (users (store e))"
  have us: "wf_users S us" "user_ids us = user_ids (users (store e))"
    using assms(2) by (auto simp: us_def lockedUsers_def lockMargin_def wf_store_def intro!: wf_users_modify)
  show ?thesis
  proof (cases "map_of (orderbooks (store e)) ?m")
    case None
    have "wf_store V' S ((store e)\<lparr>users := us\<rparr>)" "wf_store V' S (store e)"
      using us assms(2) by (auto simp: wf_store_def wf_book_def intro: wf_side_mono[of V _ _ _ _ _ V'] weaken[OF start])
    then show ?thesis using None c a(1) us bookAt_inherited[of "store e" ?m]
      by (simp add: placeOrder_def placeInherited_def us_def)
  next
  case (Some ob')
  then have own: "map_of (orderbooks (store e)) ?m = Some ob" using a(1) bookAt_own by auto
  obtain u where u: "getUserById us (r_userId payload) = Some u"
    using a(2) us(2) user_ids_get[of "r_userId payload"] by (metis option.exhaust)
  have tk: "u_userId u \<in> user_ids us"
    using wf_users_get[OF us(1) u] u user_ids_get by (force simp: wf_user_def)
  obtain ord' res v where m: "matchOrder rt ord (r_userId payload) (u_userId u) (venueOf ob us e) = Return (ord', res) v"
    and v: "wf_book V' ?m (user_ids us) (v_book v)" "wf_users S (v_users v)" "user_ids (v_users v) = user_ids us"
    using match_wf[OF start, of ?m "user_ids us" "venueOf ob us e" ord "u_userId u" rt "r_userId payload"]
      wf_store_book[OF assms(2) own] us a tk qty[OF c] now by (auto simp: venueOf_def)
  define e1 where "e1 = putVenue ?m v e"
  have e1: "wf_store V' S (store e1)" "user_ids (users (store e1)) = user_ids (users (store e))"
    using wf_store_put[OF assms(2) v(2), of V' ?m "v_book v"] v us weaken[OF start] by (auto simp: e1_def putVenue_def)
  have ob1: "map_of (orderbooks (store e1)) ?m \<noteq> None"
    by (simp add: e1_def putVenue_def update_conv')
  define fs where "fs = (case backend res of None \<Rightarrow> [] | Some b \<Rightarrow> bm_fills b)"
  define ev where "ev = userEventsForMatch rt (clock_reads e1) (users (store e1)) ?m
    fs (n_positionType ord') (orderUpdatesOf (writer res))
    [(ord', case backend res of None \<Rightarrow> 0 | Some b \<Rightarrow> bm_filledQty b, if skip then Liquidation else User)]"
  obtain wsUser ck where ev: "ev = (wsUser, ck)" by force
  obtain ws k where pp: "publicPayload rt ?m (Some (fs, n_positionType ord')) (e1\<lparr>clock_reads := ck\<rparr>) =
      Return ws (e1\<lparr>store := (store e1)\<lparr>lastUpdateId := lastUpdateId (store e1) + 1\<rparr>, clock_reads := k\<rparr>)"
    using publicPayload_returns[of V' S "e1\<lparr>clock_reads := ck\<rparr>" ?m rt "Some (fs, n_positionType ord')"] e1(1) ob1
    by auto
  show ?thesis
  proof (cases skip)
    case True
    then have "placeOrder rt payload skip e = Return \<lparr>pr_match = res, pr_wsServer = None, pr_wsUser = wsUser\<rparr> (e1\<lparr>clock_reads := ck\<rparr>)"
      using c own m u ev unfolding placeOrder_def ev_def us_def e1_def fs_def by (simp add: Let_def)
    then show ?thesis using e1 by simp
  next
    case False
    then have "placeOrder rt payload skip e = Return \<lparr>pr_match = res, pr_wsServer = Some ws, pr_wsUser = wsUser\<rparr>
        (e1\<lparr>store := (store e1)\<lparr>lastUpdateId := lastUpdateId (store e1) + 1\<rparr>, clock_reads := k\<rparr>)"
      using c own m u ev pp unfolding placeOrder_def ev_def us_def e1_def fs_def by (simp add: Let_def)
    then show ?thesis using e1 by simp
  qed
  qed
qed

end

lemma findResting_Some:
  assumes "findResting order ob = Some (level, i, r)"
  shows "map_of (resting_side (r_positionType order) ob) (r_price order) = Some level"
    "i < length (openOrders level)" "openOrders level ! i = r" "o_orderId r = r_id order"
    "\<not> availableQty level \<le> 0"
    "j < i \<Longrightarrow> o_orderId (openOrders level ! j) \<noteq> r_id order"
  using assms by (auto simp: findResting_def split: option.splits if_splits dest!: find_index_Some)

context regime
begin

lemma removeResting_wf:
  assumes "wf_side V t m ids sd" "map_of sd k = Some level" "i < length (openOrders level)"
    "openOrders level ! i = r"
  shows "wf_side V t m ids (removeResting k level i (o_qty r - o_filledQty r) sd)"
proof -
  have l: "wf_level t m ids level" "V True level" using wf_side_get[OF assms(1,2)] by blast+
  define l' where "l' = \<lparr>availableQty = availableQty level - (o_qty r - o_filledQty r), openOrders = splice1 i (openOrders level)\<rparr>"
  have "wf_level t m ids l'" using l by (auto simp: wf_level_def l'_def dest: in_splice1D)
  moreover have "\<not> availableQty l' \<le> 0 \<Longrightarrow> openOrders l' \<noteq> [] \<Longrightarrow> V True l'"
    using cancel_law[OF l(2) assms(3) assms(4)[symmetric] l'_def] .
  ultimately show ?thesis using assms(1) wf_side_key[OF assms(1,2)] unfolding removeResting_def Let_def l'_def[symmetric]
    by (auto intro: wf_side_delete wf_side_update)
qed

lemma cancelOrder_wf:
  assumes wf: "wf_store V S (store e)"
  shows "wf_store V S (store (outcome_state (cancelOrder rt order e)))
    \<and> (\<forall>st. cancelOrder rt order e = Throw TypeError st \<longrightarrow> inherited (r_marketId order) \<or> inherited (r_price order))"
proof (cases "map_of (orderbooks (store e)) (r_marketId order)")
  case None
  then show ?thesis using wf by (auto simp: cancelOrder_def split: option.split)
next
  case (Some ob)
  note ob = Some
  show ?thesis
  proof (cases "getUserById (users (store e)) (r_userId order)")
    case None
    then show ?thesis using wf by (simp add: cancelOrder_def ob)
  next
    case (Some user)
    note user = Some
    show ?thesis
    proof (cases "findResting order ob")
      case None
      then show ?thesis using wf by (simp add: cancelOrder_def ob user)
    next
      case (Some lir)
      then obtain level i r where f: "findResting order ob = Some (level, i, r)" by (metis prod_cases3)
      let ?m = "r_marketId order" and ?t = "r_positionType order"
      define us where "us = setUser (r_userId order) (releaseMargin (o_margin r) user) (users (store e))"
      define ob' where "ob' = put_resting ?t (removeResting (r_price order) level i (o_qty r - o_filledQty r)
        (resting_side ?t ob)) ob"
      define e1 where "e1 = e\<lparr>store := (store e)\<lparr>users := us, orderbooks := AList.update ?m ob' (orderbooks (store e))\<rparr>\<rparr>"
      have us: "wf_users S us" "user_ids us = user_ids (users (store e))"
        using wf user wf_users_get[of S "users (store e)"] user_ids_get[of "r_userId order" "users (store e)"]
        by (auto simp: us_def releaseMargin_def wf_store_def intro!: wf_users_set)
      have book: "wf_book V ?m (user_ids us) ob" using wf_store_book[OF wf ob] us by simp
      have "wf_book V ?m (user_ids us) ob'"
        using wf_book_put[OF book, of "opposite ?t"] removeResting_wf[OF _ _ findResting_Some(2,3)[OF f]]
          wf_book_taken[OF book, of "opposite ?t"] findResting_Some(1)[OF f]
        by (simp add: ob'_def resting_side_taken)
      then have e1: "wf_store V S (store e1)"
        using wf_store_put[OF wf us, of V ?m ob'] by (simp add: e1_def wf_store_def)
      have "map_of (orderbooks (store e1)) ?m \<noteq> None" by (simp add: e1_def update_conv')
      then obtain ws k where pp: "publicPayload rt ?m None e1 =
          Return ws (e1\<lparr>store := (store e1)\<lparr>lastUpdateId := lastUpdateId (store e1) + 1\<rparr>, clock_reads := k\<rparr>)"
        using publicPayload_returns[OF e1] by blast
      show ?thesis using e1 pp unfolding e1_def us_def ob'_def
        by (simp add: cancelOrder_def ob user f Let_def split: prod.split)
    qed
  qed
qed

end

section \<open>The sweep and the entry point\<close>

definition store_ok :: "TStore \<Rightarrow> bool" where
  "store_ok s \<longleftrightarrow> wf_store any_level any_qty s"

lemma placeOrder_ok:
  assumes "store_ok (store e)"
  shows "store_ok (store (outcome_state (placeOrder rt payload skip e)))"
    "placeOrder rt payload skip e = Throw TypeError st \<Longrightarrow> inherited (r_marketId payload)"
    "user_ids (users (store (outcome_state (placeOrder rt payload skip e)))) = user_ids (users (store e))"
proof -
  define n where "n = (case checkOrder payload (store e) of Inl _ \<Rightarrow> 0 | Inr (_, ord, _) \<Rightarrow> n_qty ord)"
  have "checkOrder payload (store e) = Inr (reducing, ord, ob) \<Longrightarrow> n_qty ord = n" for reducing ord ob
    by (simp add: n_def)
  from plain.placeOrder_wf[where rt = rt and skip = skip, OF TrueI assms[unfolded store_ok_def] refl this]
  show "store_ok (store (outcome_state (placeOrder rt payload skip e)))"
    "placeOrder rt payload skip e = Throw TypeError st \<Longrightarrow> inherited (r_marketId payload)"
    "user_ids (users (store (outcome_state (placeOrder rt payload skip e)))) = user_ids (users (store e))"
    by (auto simp: store_ok_def)
qed

lemma liquidatePosition_ok:
  assumes "store_ok (store (sw_engine sw))"
  shows "store_ok (store (sw_engine (liquidatePosition rt k m p side sw)))"
proof -
  obtain o' e1 where l: "liquidationOrder rt k m p side (sw_engine sw) = (o', e1)" by force
  then have "store e1 = store (sw_engine sw)" by (auto simp: liquidationOrder_def)
  then have "store_ok (store (outcome_state (placeOrder rt o' True e1)))"
    using placeOrder_ok(1)[of e1] assms by simp
  then show ?thesis by (cases "placeOrder rt o' True e1") (simp_all add: liquidatePosition_def l Let_def)
qed

lemma sweepUser_ok:
  "store_ok (store (sw_engine sw)) \<Longrightarrow> store_ok (store (sw_engine (sweepUser rt m price sw k)))"
  by (auto simp: sweepUser_def liquidatePosition_ok split: option.split)

lemma sweep_ok:
  "store_ok (store (sw_engine sw)) \<Longrightarrow> store_ok (store (sw_engine (foldl (sweepUser rt m price) sw ks)))"
  by (induction ks arbitrary: sw) (simp_all add: sweepUser_ok)

lemma store_ok_put_book:
  assumes "store_ok s" "map_of (orderbooks s) m = Some ob" "bids ob' = bids ob" "asks ob' = asks ob"
  shows "store_ok (s\<lparr>orderbooks := AList.update m ob' (orderbooks s)\<rparr>)"
proof -
  have "wf_book any_level m (user_ids (users s)) ob'"
    using wf_store_book[of any_level any_qty s m ob] assms by (simp add: store_ok_def wf_book_def)
  then show ?thesis using assms(1)
    by (auto simp: store_ok_def wf_store_def distinct_update dest!: in_set_update)
qed

lemma setIndexPrice_ok: "store_ok (store e) \<Longrightarrow> store_ok (store (setIndexPrice m p e))"
  by (auto simp: setIndexPrice_def intro: store_ok_put_book split: option.split)

lemma liqudationChecks_ok:
  assumes "store_ok (store e)"
  shows "store_ok (store (outcome_state (liqudationChecks rt asset price e)))
    \<and> liqudationChecks rt asset price e \<noteq> Throw TypeError st"
proof (cases "map_of (supportedAssets (store e)) asset")
  case None
  then show ?thesis using assms by (simp add: liqudationChecks_def)
next
  case (Some m)
  define sw where "sw = foldl (sweepUser rt m price)
    \<lparr>sw_engine = setIndexPrice m price e, sw_responses = [], sw_trades = [], sw_events = []\<rparr>
    (map fst (users (store (setIndexPrice m price e))))"
  have ok: "store_ok (store (sw_engine sw))"
    unfolding sw_def by (rule sweep_ok) (simp add: setIndexPrice_ok assms)
  show ?thesis
  proof (cases "map_of (orderbooks (store (sw_engine sw))) m")
    case None
    then show ?thesis using ok Some by (simp add: liqudationChecks_def Let_def sw_def[symmetric])
  next
    case (Some ob)
    then obtain ws k where "publicPayload rt m None (sw_engine sw) = Return ws ((sw_engine sw)
        \<lparr>store := (store (sw_engine sw))\<lparr>lastUpdateId := lastUpdateId (store (sw_engine sw)) + 1\<rparr>, clock_reads := k\<rparr>)"
      using publicPayload_returns[of any_level any_qty "sw_engine sw" m rt None] ok by (auto simp: store_ok_def)
    then show ?thesis using ok Some \<open>map_of (supportedAssets (store e)) asset = Some m\<close>
      by (simp add: liqudationChecks_def Let_def sw_def[symmetric] store_ok_def)
  qed
qed

text \<open>Creating an account, or writing to one.\<close>

lemma store_ok_setUser:
  assumes "store_ok s" "u_userId u = k" "one_way u" shows "store_ok (s\<lparr>users := setUser k u (users s)\<rparr>)"
  using assms wf_users_set[of any_qty "users s" k u]
  by (auto simp: store_ok_def wf_store_def wf_book_def wf_user_def intro: wf_side_mono)

lemma ensureUser_ok: "store_ok (store e) \<Longrightarrow> store_ok (store (ensureUser k e))"
  by (auto simp: ensureUser_def new_user_def one_way_def intro!: store_ok_setUser split: option.split)

lemma deposit_ok: "store_ok (store e) \<Longrightarrow> store_ok (store (deposit k a e))"
proof -
  assume ok: "store_ok (store e)"
  have "u_userId u = k \<and> one_way u" if "getUserById (users (store e)) k = Some u" for u
    using ok wf_users_get[OF _ that, of any_qty] by (simp add: store_ok_def wf_store_def wf_user_def)
  then show ?thesis using ok
    by (auto simp: deposit_def new_user_def one_way_def intro!: store_ok_setUser split: option.split)
qed

lemma disperseFundingRate_ok: "store_ok s \<Longrightarrow> store_ok (disperseFundingRate s)"
  unfolding store_ok_def wf_store_def disperseFundingRate_def
  using wf_users_map[of any_qty "users s" "\<lambda>u. u\<lparr>u_positions := map (fundPosition (orderbooks s)) (u_positions u)\<rparr>"]
  by (auto simp: fundPositions_wf)

text \<open>The requests that name a member of the prototype, as a market or as the price of an order.\<close>

fun namesInherited :: "TEngineRequest \<Rightarrow> bool" where
  "namesInherited (CreateOrder payload) \<longleftrightarrow> inherited (r_marketId payload)"
| "namesInherited (CancelOrder order) \<longleftrightarrow> inherited (r_marketId order) \<or> inherited (r_price order)"
| "namesInherited (GetDepth marketId) \<longleftrightarrow> inherited marketId"
| "namesInherited _ \<longleftrightarrow> False"

lemma handle_ok:
  assumes ok: "store_ok (store e)"
  shows "store_ok (store (outcome_state (handle rt mid req e)))
    \<and> (handle rt mid req e = Throw TypeError st \<longrightarrow> namesInherited req)"
proof (cases req)
  case (CreateOrder payload)
  let ?e = "ensureUser (r_userId payload) e"
  have "store_ok (store (outcome_state (placeOrder rt payload False ?e)))"
    "\<And>st. placeOrder rt payload False ?e = Throw TypeError st \<Longrightarrow> inherited (r_marketId payload)"
    using placeOrder_ok(1,2)[OF ensureUser_ok[OF ok]] by blast+
  then show ?thesis using CreateOrder by (cases "placeOrder rt payload False ?e") simp_all
next
  case (CancelOrder order)
  then show ?thesis using plain.cancelOrder_wf[of e rt order] ok
    by (auto split: outcome.split simp: store_ok_def)
next
  case (SpotPriceUpdate payload)
  show ?thesis
  proof (cases "spotPrice payload")
    case None
    then show ?thesis using ok SpotPriceUpdate by simp
  next
    case (Some ap)
    then show ?thesis using liqudationChecks_ok[OF ok, of rt "fst ap" "snd ap"] SpotPriceUpdate
      by (cases ap) (auto split: outcome.split)
  qed
next
  case (GetDepth m)
  have "getMarketDepth (store e) m now = Inl TypeError \<longrightarrow> inherited m" for now
  proof (cases "map_of (orderbooks (store e)) m")
    case (Some ob)
    then have "\<exists>d. getMarketDepth (store e) m now = Inr d"
      using getMarketDepth_returns[of any_level any_qty "store e" m ob now] ok by (simp add: store_ok_def)
    then show ?thesis by auto
  qed (simp add: getMarketDepth_def)
  then show ?thesis using ok GetDepth by (auto split: sum.split)
qed (use ok in \<open>simp_all add: ensureUser_ok deposit_ok disperseFundingRate_ok Let_def backupStore_def\<close>)

end
