(* ===== verification/Lots.thy ===== *)
theory Lots
  imports EngineSafety
begin

text \<open>
  The regime of whole quantities: every order is for a whole number of lots and no level ever holds
  more than two to the power 53 of them. Then the arithmetic of the book is exact, a level's
  \<open>availableQty\<close> is what its orders have left, no level is empty, and no order on the book is filled.
  The levels are in order of arrival as long as the clock does not run backwards.
\<close>

section \<open>Whole quantities\<close>

definition lot :: "nat \<Rightarrow> jsnum" where
  "lot k = Fin (of_nat k)"

definition lots_of :: "jsnum \<Rightarrow> nat" where
  "lots_of x = (case x of Fin r \<Rightarrow> nat \<lfloor>r\<rfloor> | _ \<Rightarrow> 0)"

lemma lots_of_lot [simp]: "lots_of (lot k) = k"
  by (simp add: lots_of_def lot_def)

lemma lot_0: "lot 0 = 0" "lot 0 = Fin 0"
  by (simp_all add: lot_def)

lemma js_of_nat: "k \<le> 2 ^ 53 \<Longrightarrow> js (of_nat k) = lot k"
  using js_of_int[of "int k"] by (simp add: lot_def)

lemma lot_add: "a + b \<le> 2 ^ 53 \<Longrightarrow> lot a + lot b = lot (a + b)"
  using js_of_nat[of "a + b"] by (simp add: lot_def)

lemma lot_diff: "b \<le> a \<Longrightarrow> a \<le> 2 ^ 53 \<Longrightarrow> lot a - lot b = lot (a - b)"
  using js_of_nat[of "a - b"] by (simp add: lot_def of_nat_diff)

lemma lot_order [simp]:
  "lot a < lot b \<longleftrightarrow> a < b" "lot a \<le> lot b \<longleftrightarrow> a \<le> b" "lot a = lot b \<longleftrightarrow> a = b"
  "js_eq (lot a) (lot b) \<longleftrightarrow> a = b"
  by (simp_all add: lot_def)

lemma lot_zero_order [simp]:
  "0 < lot a \<longleftrightarrow> 0 < a" "lot a \<le> 0 \<longleftrightarrow> a = 0" "Fin 0 < lot a \<longleftrightarrow> 0 < a" "lot a \<le> Fin 0 \<longleftrightarrow> a = 0"
  by (simp_all add: lot_def)

lemma lot_proper: "0 < k \<Longrightarrow> k \<le> 2 ^ 53 \<Longrightarrow> proper_qty (lot k)"
  using is_double_js[of "of_nat k"] by (simp add: proper_qty_def js_of_nat)

lemma fill_split_lots:
  assumes "m \<le> 2 ^ 53"
  shows "fill_split (lot a) (lot m) =
    (if m < a then (lot m, lot 0, Filled, PartiallyFilled, True)
     else if a = m then (lot m, lot 0, Filled, Filled, True)
     else (lot a, lot (m - a), PartiallyFilled, Filled, False))"
  using assms by (auto simp: fill_split_def lot_0 lot_diff)

section \<open>Levels\<close>

text \<open>What an order has left, in lots.\<close>

definition rest_lots :: "TOpenOrder \<Rightarrow> nat" where
  "rest_lots r = lots_of (o_qty r) - lots_of (o_filledQty r)"

definition level_lots :: "TBid \<Rightarrow> nat" where
  "level_lots l = sum_list (map rest_lots (openOrders l))"

definition lots_order :: "TOpenOrder \<Rightarrow> bool" where
  "lots_order r \<longleftrightarrow> (\<exists>q f. o_qty r = lot q \<and> o_filledQty r = lot f \<and> f < q \<and> q \<le> 2 ^ 53)"

text \<open>A level of at most \<open>N\<close> lots, with its orders dated up to \<open>T\<close>.\<close>

definition lots_level :: "nat \<Rightarrow> int \<Rightarrow> bool \<Rightarrow> TBid \<Rightarrow> bool" where
  "lots_level N T att l \<longleftrightarrow> (\<forall>r \<in> set (openOrders l). lots_order r \<and> o_createdAt r \<le> T)
     \<and> availableQty l = lot (level_lots l) \<and> level_lots l \<le> N \<and> N \<le> 2 ^ 53 \<and> (att \<longrightarrow> openOrders l \<noteq> [])
     \<and> sorted (map o_createdAt (openOrders l))"

definition lots_left :: "nat \<Rightarrow> nat \<Rightarrow> int \<Rightarrow> int \<Rightarrow> jsnum \<Rightarrow> jsnum \<Rightarrow> bool" where
  "lots_left N n T now m g \<longleftrightarrow> N + n \<le> 2 ^ 53 \<and> T \<le> now \<and> (\<exists>i j. m = lot i \<and> g = lot j \<and> i + j = n)"

definition lots_more :: "nat \<Rightarrow> nat \<Rightarrow> int \<Rightarrow> int \<Rightarrow> jsnum \<Rightarrow> jsnum \<Rightarrow> bool" where
  "lots_more N n T now m g \<longleftrightarrow> lots_left N n T now m g \<and> 0 < m"

definition lots_fill :: "jsnum \<Rightarrow> bool" where
  "lots_fill x \<longleftrightarrow> (\<exists>k. x = lot k \<and> 0 < k \<and> k \<le> 2 ^ 53)"

lemma lots_order_rest:
  assumes "lots_order r" shows "o_qty r - o_filledQty r = lot (rest_lots r)" "0 < rest_lots r" "rest_lots r \<le> 2 ^ 53"
  using assms by (auto simp: lots_order_def rest_lots_def lot_diff)

lemma leftOrder_lots:
  assumes "lots_order r" "k < rest_lots r"
  shows "lots_order (leftOrder r (lot k))" "rest_lots (leftOrder r (lot k)) = rest_lots r - k"
    "o_createdAt (leftOrder r (lot k)) = o_createdAt r"
  using assms by (auto simp: lots_order_def rest_lots_def leftOrder_def lot_add)

lemma rest_le_level: "r \<in> set (openOrders l) \<Longrightarrow> rest_lots r \<le> level_lots l"
  by (auto simp: level_lots_def intro: member_le_sum_list)

lemma sum_list_splice1:
  "i < length xs \<Longrightarrow> sum_list (map f (splice1 i xs)) = sum_list (map f xs) - (f (xs ! i) :: nat)"
proof -
  assume i: "i < length xs"
  have "sum_list (map f xs) = sum_list (map f (take i xs @ xs ! i # drop (Suc i) xs))"
    using id_take_nth_drop[OF i] by simp
  then show ?thesis by (simp add: splice1_def)
qed

lemma sum_list_update_nat:
  "i < length xs \<Longrightarrow> f x \<le> f (xs ! i) \<Longrightarrow>
     sum_list (map f (xs[i := x])) = sum_list (map f xs) - ((f (xs ! i) :: nat) - f x)"
proof -
  assume i: "i < length xs" "f x \<le> f (xs ! i)"
  have "sum_list (map f xs) = sum_list (map f (take i xs @ xs ! i # drop (Suc i) xs))"
    using id_take_nth_drop[OF i(1)] by simp
  then show ?thesis using i by (simp add: upd_conv_take_nth_drop)
qed

lemma sorted_splice1: "sorted xs \<Longrightarrow> sorted (splice1 i xs)"
proof (cases "i < length xs")
  case True
  assume "sorted xs"
  then have "sorted (take i xs @ xs ! i # drop (Suc i) xs)" using True by (simp add: id_take_nth_drop[symmetric])
  then show ?thesis by (auto simp: splice1_def sorted_append)
qed (simp add: splice1_def)

lemma lots_fill_law:
  assumes V: "lots_level N T att level" and C: "lots_more N n T now m g" and i: "i < length (openOrders level)"
    and r: "r = openOrders level ! i"
    and sp: "fill_split (o_qty r - o_filledQty r) m = (q, rem, st, rst, brk)"
    and l': "level' = \<lparr>availableQty = availableQty level - q,
        openOrders = (if rst = PartiallyFilled then (openOrders level)[i := leftOrder r q]
                      else splice1 i (openOrders level))\<rparr>"
  shows "lots_fill q" "lots_left N n T now rem (g + q)" "\<not> brk \<longrightarrow> lots_more N n T now rem (g + q)"
    "lots_level N T (att \<and> (rst = PartiallyFilled \<or> \<not> availableQty level' \<le> 0)) level'"
proof -
  obtain a b where ab: "m = lot a" "g = lot b" "a + b = n" "0 < a" "N + n \<le> 2 ^ 53" "T \<le> now"
    using C by (auto simp: lots_more_def lots_left_def)
  have rin: "r \<in> set (openOrders level)" using i r by simp
  then have ro: "lots_order r" and bnd: "rest_lots r \<le> level_lots level" "level_lots level \<le> N"
    using V rest_le_level by (auto simp: lots_level_def)
  note rr = lots_order_rest[OF ro]
  have sp': "(q, rem, st, rst, brk) = (if a < rest_lots r then (lot a, lot 0, Filled, PartiallyFilled, True)
     else if rest_lots r = a then (lot a, lot 0, Filled, Filled, True)
     else (lot (rest_lots r), lot (a - rest_lots r), PartiallyFilled, Filled, False))"
    using sp fill_split_lots[of a "rest_lots r"] ab by (simp add: rr(1))
  obtain k where k: "q = lot k" "k = min a (rest_lots r)" using sp' by (auto split: if_splits)
  show "lots_fill q" using k ab rr bnd by (auto simp: lots_fill_def)
  have rem: "rem = lot (a - k)" using sp' k by (auto split: if_splits)
  have gq: "g + q = lot (b + k)" using ab k by (simp add: lot_add)
  then show "lots_left N n T now rem (g + q)" using ab rem k by (auto simp: lots_left_def)
  then show "\<not> brk \<longrightarrow> lots_more N n T now rem (g + q)"
    using rem k sp' by (auto simp: lots_more_def split: if_splits)
  have av: "availableQty level' = lot (level_lots level - k)"
    using V l' k bnd ab by (auto simp: lots_level_def lot_diff)
  have pf: "rst = PartiallyFilled \<longleftrightarrow> a < rest_lots r" using sp' by (auto split: if_splits)
  have lv: "level_lots level' = level_lots level - k"
  proof (cases "a < rest_lots r")
    case True
    then have "k < rest_lots r" "rest_lots (leftOrder r q) = rest_lots r - k" using k leftOrder_lots[OF ro] by auto
    then show ?thesis using l' pf True i r
      by (simp add: level_lots_def sum_list_update_nat[where f = rest_lots])
  next
    case False
    then show ?thesis using l' pf i r k by (simp add: level_lots_def sum_list_splice1)
  qed
  have ords: "\<forall>r' \<in> set (openOrders level'). lots_order r' \<and> o_createdAt r' \<le> T"
  proof (cases "a < rest_lots r")
    case True
    then have "lots_order (leftOrder r q) \<and> o_createdAt (leftOrder r q) \<le> T"
      using k leftOrder_lots[OF ro] V rin by (auto simp: lots_level_def)
    then show ?thesis using l' pf True V set_update_subset_insert[of "openOrders level" i "leftOrder r q"]
      by (auto simp: lots_level_def)
  next
    case False
    then show ?thesis using l' pf V by (auto simp: lots_level_def dest: in_splice1D)
  qed
  have so: "sorted (map o_createdAt (openOrders level'))"
    using V l' i r by (auto simp: lots_level_def map_splice1 sorted_splice1 map_list_update_same leftOrder_def)
  have ne: "openOrders level' \<noteq> []" if "rst = PartiallyFilled \<or> \<not> availableQty level' \<le> 0"
  proof
    assume "openOrders level' = []"
    then have "level_lots level' = 0" by (simp add: level_lots_def)
    moreover have "rst = PartiallyFilled \<Longrightarrow> length (openOrders level') = length (openOrders level)"
      using l' by simp
    ultimately show False using that av lv i \<open>openOrders level' = []\<close> by auto
  qed
  show "lots_level N T (att \<and> (rst = PartiallyFilled \<or> \<not> availableQty level' \<le> 0)) level'"
    unfolding lots_level_def using ords av lv bnd so ne V[unfolded lots_level_def] by auto
qed

interpretation lots: regime "lots_level N T" "lots_left N n T now" "lots_more N n T now" lots_fill proper_qty
  for N n T now
proof (unfold_locales, goal_cases)
  case (3 att level m g i r q rem st rst brk level')
  then show ?case using lots_fill_law[OF 3] by blast
next
  case (4 l i r l')
  have rin: "r \<in> set (openOrders l)" using 4 by simp
  then have r: "lots_order r" "rest_lots r \<le> level_lots l" using 4 rest_le_level by (auto simp: lots_level_def)
  have av: "availableQty l' = lot (level_lots l - rest_lots r)"
    using 4 r lots_order_rest(1)[OF r(1)] by (auto simp: lots_level_def lot_diff)
  have "level_lots l' = level_lots l - rest_lots r"
    using 4 by (simp add: level_lots_def sum_list_splice1)
  then show ?case using 4 av
    by (auto simp: lots_level_def map_splice1 sorted_splice1 dest: in_splice1D)
next
  case (5 m g)
  then show ?case by (auto simp: lots_left_def lots_fill_def)
next
  case (6 y)
  then show ?case by (auto simp: lots_fill_def lot_proper)
next
  case (7 x y)
  then show ?case by (auto simp: lots_fill_def lot_proper intro: proper_qty_add)
next
  case (8 x y)
  then obtain k where "y = lot k" "0 < k" "k \<le> 2 ^ 53" by (auto simp: lots_fill_def)
  then show ?case using 8 proper_qty_net[of x y] lot_proper[of k] by (simp add: lot_def)
qed (auto simp: lots_more_def)

text \<open>The remainder rests: the book then holds up to \<open>N + n\<close> lots a level.\<close>

interpretation lots: resting_regime "lots_level N T" "lots_left N n T now" "lots_more N n T now" lots_fill proper_qty
    "lots_level (N + n) now" "lot n" now
  for N n T now
proof (unfold_locales, goal_cases)
  case (1 m g att l)
  then show ?case by (fastforce simp: lots_level_def lots_left_def)
next
  case (2 m g r)
  then show ?case
    by (auto simp: lots_left_def lots_level_def lots_order_def level_lots_def rest_lots_def lot_diff)
next
  case (3 m g r l)
  then obtain i j where ij: "m = lot i" "g = lot j" "i + j = n" "N + n \<le> 2 ^ 53" "T \<le> now"
    by (auto simp: lots_left_def)
  have "lots_order r" "rest_lots r = i" using 3 ij by (auto simp: lots_order_def rest_lots_def)
  moreover have "lot n - lot j = lot i" using ij by (simp add: lot_diff flip: ij(3))
  ultimately show ?case using 3 ij
    by (fastforce simp: lots_level_def level_lots_def lot_add sorted_append)
qed

end
