(* ===== verification/PriceTime.thy ===== *)
theory PriceTime
  imports Lots
begin

text \<open>
  The specification of matching, and that the code implements it on books of whole quantities.
  Abstractly a side is its levels sorted by price, best first, each with the orders waiting there, first
  come first (\<open>spec_book\<close>); a match walks that list and takes what it can. The proof goes through the list
  of the levels the scans of the code find (\<open>abs_book\<close>), which is shown to be the same. The theorems about the specification
  (nothing lost, nothing better left behind) then hold of the code.
\<close>

section \<open>The specification\<close>

type_synonym waiting = "(string \<times> nat) list"    \<comment> \<open>order ids with what they have left, in lots\<close>
type_synonym abs_side = "(jsnum \<times> waiting) list"

fun take_level :: "nat \<Rightarrow> waiting \<Rightarrow> waiting \<times> nat \<times> waiting" where
  "take_level r [] = ([], r, [])"
| "take_level r ((oid, k) # rest) =
     (if r = 0 then ([], 0, (oid, k) # rest)
      else if r < k then ([(oid, r)], 0, (oid, k - r) # rest)
      else (case take_level (r - k) rest of (taken, r', left) \<Rightarrow> ((oid, k) # taken, r', left)))"

fun abs_match ::
  "(jsnum \<Rightarrow> bool) \<Rightarrow> nat \<Rightarrow> abs_side \<Rightarrow> (jsnum \<times> string \<times> nat) list \<times> nat \<times> abs_side" where
  "abs_match ok r [] = ([], r, [])"
| "abs_match ok r ((p, os) # levels) =
     (if r = 0 \<or> \<not> ok p then ([], r, (p, os) # levels)
      else
        (case take_level r os of (taken, r1, left) \<Rightarrow>
           (case abs_match ok r1 levels of (fills, r2, levels') \<Rightarrow>
              (map (Pair p) taken @ fills, r2, (if left = [] then [] else [(p, left)]) @ levels'))))"

abbreviation waiting_lots :: "waiting \<Rightarrow> nat" where
  "waiting_lots os \<equiv> sum_list (map snd os)"

definition side_lots :: "abs_side \<Rightarrow> nat" where
  "side_lots levels = sum_list (map (waiting_lots \<circ> snd) levels)"

definition fill_lots :: "(jsnum \<times> string \<times> nat) list \<Rightarrow> nat" where
  "fill_lots fills = sum_list (map (snd \<circ> snd) fills)"

lemma take_level_lots:
  "take_level r os = (taken, r', left) \<Longrightarrow>
     waiting_lots taken + r' = r \<and> waiting_lots os = waiting_lots taken + waiting_lots left
     \<and> (0 < r' \<longrightarrow> left = [])"
  by (induction r os arbitrary: taken r' left rule: take_level.induct)
    (auto split: if_splits prod.splits)

lemma take_level_0 [simp]: "take_level 0 os = ([], 0, os)"
  by (cases os) auto

lemma abs_match_0 [simp]: "abs_match ok 0 levels = ([], 0, levels)"
  by (cases levels) auto

lemma abs_match_lots:
  "abs_match ok r levels = (fills, r', levels') \<Longrightarrow>
     fill_lots fills + r' = r \<and> side_lots levels = fill_lots fills + side_lots levels'"
proof (induction levels arbitrary: r fills r' levels')
  case (Cons a levels)
  obtain p os where a: "a = (p, os)" by force
  show ?case
  proof (cases "r = 0 \<or> \<not> ok p")
    case True
    then show ?thesis using Cons.prems a by (auto simp: fill_lots_def)
  next
    case False
    obtain taken r1 left where t: "take_level r os = (taken, r1, left)" by (metis prod_cases3)
    obtain fs r2 ls where m: "abs_match ok r1 levels = (fs, r2, ls)" by (metis prod_cases3)
    have "fill_lots (map (Pair p) taken @ fs) = waiting_lots taken + fill_lots fs"
      by (simp add: fill_lots_def comp_def)
    then show ?thesis using Cons.prems a False t m Cons.IH[OF m] take_level_lots[OF t]
      by (auto simp: side_lots_def)
  qed
qed (auto simp: fill_lots_def side_lots_def)

text \<open>If some is left, the best price left is one the taker does not accept.\<close>

lemma abs_match_uncrossed:
  "abs_match ok r levels = (fills, r', levels') \<Longrightarrow> 0 < r' \<Longrightarrow> levels' = [] \<or> \<not> ok (fst (hd levels'))"
proof (induction levels arbitrary: r fills r' levels')
  case (Cons a levels)
  then show ?case using take_level_lots[of r "snd a"] by (cases a) (fastforce split: if_splits prod.splits)
qed auto

text \<open>Every fill is at an accepted price.\<close>

lemma abs_match_ok: "abs_match ok r levels = (fills, r', levels') \<Longrightarrow> f \<in> set fills \<Longrightarrow> ok (fst f)"
  by (induction levels arbitrary: r fills r' levels') (fastforce split: if_splits prod.splits)+

section \<open>The side of a book as the specification sees it\<close>

function price_levels :: "TPositionType \<Rightarrow> TSide \<Rightarrow> jsnum option \<Rightarrow> (jsnum \<times> TBid) list" where
  "price_levels t sd best =
     (case best of None \<Rightarrow> []
      | Some b \<Rightarrow>
          (case map_of sd (js_string b) of None \<Rightarrow> []
           | Some l \<Rightarrow> (b, l) # price_levels t sd (next_best t sd b)))"
  by pat_completeness auto
termination
proof (relation "measure (\<lambda>(t, sd, best). keys_beyond t best sd)", goal_cases)
  case (2 t sd best b l)
  then show ?case using keys_beyond_next[of sd sd] by simp
qed simp

declare price_levels.simps [simp del]

definition abs_orders :: "TBid \<Rightarrow> waiting" where
  "abs_orders l = map (\<lambda>r. (o_orderId r, rest_lots r)) (openOrders l)"

definition abs_levels :: "TPositionType \<Rightarrow> TSide \<Rightarrow> jsnum option \<Rightarrow> abs_side" where
  "abs_levels t sd best = map (\<lambda>(p, l). (p, abs_orders l)) (price_levels t sd best)"

definition abs_book :: "TPositionType \<Rightarrow> TSide \<Rightarrow> abs_side" where
  "abs_book t sd = abs_levels t sd (next_best t sd (scan_start t))"

definition abs_fill :: "FillRecordNumberified \<Rightarrow> jsnum \<times> string \<times> nat" where
  "abs_fill f = (f_price f, f_makerOrderId f, lots_of (f_qty f))"

fun live :: "TPositionType \<Rightarrow> jsnum \<Rightarrow> string \<times> TBid \<Rightarrow> bool" where
  "live LONG p e \<longleftrightarrow> live_ask p e"
| "live SHORT p e \<longleftrightarrow> live_bid p e"

lemma live_beyond: "live t p e \<Longrightarrow> beyond t p (js_number (fst e))"
  by (cases t) (auto simp: live_ask_def live_bid_def)

lemma live_iff: "beyond t p (js_number (fst e)) \<Longrightarrow> live t q e \<Longrightarrow> live t p e"
  by (cases t) (auto simp: live_ask_def live_bid_def)

lemma next_best_Some:
  assumes "next_best t sd p = Some q"
  shows "\<exists>e \<in> set sd. live t p e \<and> js_number (fst e) = q"
    "e \<in> set sd \<Longrightarrow> live t p e \<Longrightarrow> js_number (fst e) = q \<or> beyond t q (js_number (fst e))"
proof -
  show "\<exists>e \<in> set sd. live t p e \<and> js_number (fst e) = q"
    using assms by (cases t) (auto dest: getNextBestAskPrice_Some(1) getNextBestBidPrice_Some(1))
  assume e: "e \<in> set sd" "live t p e"
  show "js_number (fst e) = q \<or> beyond t q (js_number (fst e))"
    using assms e getNextBestAskPrice_Some(2)[of sd p q e] getNextBestBidPrice_Some(2)[of sd p q e]
    by (cases t) (auto simp: less_eq_jsnum_def less_jsnum_def)
qed

lemma next_best_None: "next_best t sd p = None \<Longrightarrow> e \<in> set sd \<Longrightarrow> \<not> live t p e"
  by (cases t) (auto dest: getNextBestAskPrice_None getNextBestBidPrice_None)

text \<open>The best price depends only on the prices of the live levels.\<close>

lemma next_best_cong:
  assumes "\<And>x. (\<exists>e \<in> set sd. live t p e \<and> js_number (fst e) = x) \<longleftrightarrow>
      (\<exists>e \<in> set sd'. live t p' e \<and> js_number (fst e) = x)"
  shows "next_best t sd p = next_best t sd' p'"
proof (cases "next_best t sd p")
  case None
  then have "\<not> (\<exists>e \<in> set sd'. live t p' e)" using assms next_best_None[OF None] by metis
  then show ?thesis using None next_best_Some(1)[of t sd' p'] by (metis not_None_eq)
next
  case (Some q)
  then obtain e where "e \<in> set sd'" "live t p' e" "js_number (fst e) = q" using next_best_Some(1)[OF Some] assms by metis
  then obtain q' where q': "next_best t sd' p' = Some q'" using next_best_None by (metis not_None_eq)
  have "q = q' \<or> beyond t q q'" using next_best_Some(1)[OF q'] next_best_Some(2)[OF Some] assms by metis
  moreover have "q = q' \<or> beyond t q' q" using next_best_Some(1)[OF Some] next_best_Some(2)[OF q'] assms by metis
  ultimately show ?thesis using Some q' beyond_trans beyond_irrefl by metis
qed

section \<open>Changing one level\<close>

lemma put_level_other:
  "k \<noteq> key \<Longrightarrow> (k, v) \<in> set (put_level key l att sd) \<longleftrightarrow> (k, v) \<in> set sd"
proof -
  assume k: "k \<noteq> key"
  have "(k, v) \<in> set (AList.update key l sd) \<longleftrightarrow> (k, v) \<in> set sd" using k by (induction sd) auto
  moreover have "(k, v) \<in> set (AList.delete key sd) \<longleftrightarrow> (k, v) \<in> set sd" using k by (induction sd) auto
  ultimately show ?thesis by (simp add: put_level_def)
qed

lemma put_level_lookup:
  "map_of (put_level key l att sd) k = (if k = key then (if att then Some l else None) else map_of sd k)"
  by (simp add: put_level_def update_conv' AList.delete_conv' restrict_map_def)

text \<open>Beyond the price of the level nothing changes.\<close>

lemma next_best_put:
  assumes "is_double b" "p = b \<or> beyond t b p"
  shows "next_best t (put_level (js_string b) l att sd) p = next_best t sd p"
proof (rule next_best_cong)
  fix x
  have "e \<in> set (put_level (js_string b) l att sd) \<longleftrightarrow> e \<in> set sd" if "live t p e" for e
  proof -
    have "fst e \<noteq> js_string b"
    proof
      assume "fst e = js_string b"
      then have "js_number (fst e) = b" using assms(1) js_number_string by simp
      then show False using live_beyond[OF that] assms(2) beyond_trans beyond_irrefl by metis
    qed
    then show ?thesis using put_level_other[of "fst e" "js_string b" "snd e"] by simp
  qed
  then show "(\<exists>e \<in> set (put_level (js_string b) l att sd). live t p e \<and> js_number (fst e) = x) \<longleftrightarrow>
      (\<exists>e \<in> set sd. live t p e \<and> js_number (fst e) = x)" by metis
qed

lemma price_levels_put:
  assumes "is_double b" "\<forall>q. best = Some q \<longrightarrow> is_double q \<and> beyond t b q"
  shows "price_levels t (put_level (js_string b) l att sd) best = price_levels t sd best"
  using assms(2)
proof (induction "keys_beyond t best sd" arbitrary: best rule: less_induct)
  case less
  show ?case
  proof (cases best)
    case (Some q)
    then have q: "is_double q" "beyond t b q" using less.prems by auto
    then have "js_string q \<noteq> js_string b" using assms(1) js_string_inj beyond_irrefl by metis
    then have lk: "map_of (put_level (js_string b) l att sd) (js_string q) = map_of sd (js_string q)"
      by (simp add: put_level_lookup)
    have nb: "next_best t (put_level (js_string b) l att sd) q = next_best t sd q"
      using next_best_put[OF assms(1)] q by simp
    have "keys_beyond t (next_best t sd q) sd < keys_beyond t best sd"
      unfolding Some by (rule keys_beyond_next) simp
    moreover have "\<forall>r. next_best t sd q = Some r \<longrightarrow> is_double r \<and> beyond t b r"
      using next_best_beyond q beyond_trans by metis
    ultimately have "price_levels t (put_level (js_string b) l att sd) (next_best t sd q) =
        price_levels t sd (next_best t sd q)" using less.hyps by blast
    then show ?thesis using Some lk nb by (simp add: price_levels.simps[of _ _ "Some q"] split: option.split)
  qed (simp add: price_levels.simps)
qed

lemma abs_levels_put:
  assumes "is_double b"
  shows "abs_levels t (put_level (js_string b) l att sd) (next_best t (put_level (js_string b) l att sd) b)
       = abs_levels t sd (next_best t sd b)"
  using price_levels_put[OF assms, of "next_best t sd b" t l att sd] next_best_put[OF assms, of b t l att sd]
    next_best_beyond[of t sd b]
  by (simp add: abs_levels_def)

text \<open>With the best level gone, the next one is the best.\<close>

lemma canonical_key: "canonical sd \<Longrightarrow> e \<in> set sd \<Longrightarrow> js_string (js_number (fst e)) = fst e"
  by (auto simp: canonical_def)

lemma next_best_delete:
  assumes "next_best t sd p = Some b" "canonical sd"
  shows "next_best t (put_level (js_string b) l False sd) p = next_best t (put_level (js_string b) l False sd) b"
proof (rule next_best_cong)
  fix x
  let ?sd = "put_level (js_string b) l False sd"
  have b: "beyond t p b" using next_best_beyond[OF assms(1)] by simp
  have "live t p e \<longleftrightarrow> live t b e" if e: "e \<in> set ?sd" for e
  proof
    assume l: "live t p e"
    have "e \<in> set sd" using e by (auto simp: put_level_def dest: in_set_delete[of "fst e" "snd e", simplified])
    moreover have "fst e \<noteq> js_string b"
      using e in_set_delete[of "fst e" "snd e" "js_string b" sd] by (simp add: put_level_def)
    ultimately have "beyond t b (js_number (fst e))"
      using next_best_Some(2)[OF assms(1) _ l] canonical_key[OF assms(2)] by metis
    then show "live t b e" using live_iff l by metis
  next
    assume "live t b e"
    then show "live t p e" using live_iff[of t p e b] live_beyond b beyond_trans by metis
  qed
  then show "(\<exists>e \<in> set ?sd. live t p e \<and> js_number (fst e) = x) \<longleftrightarrow>
      (\<exists>e \<in> set ?sd. live t b e \<and> js_number (fst e) = x)" by metis
qed

text \<open>With the best level still there and still live, it is still the best.\<close>

lemma next_best_keep:
  assumes "next_best t sd p = Some b" "canonical sd" "0 < availableQty l"
  shows "next_best t (put_level (js_string b) l True sd) p = Some b"
proof -
  let ?sd = "put_level (js_string b) l True sd"
  obtain e where e: "e \<in> set sd" "live t p e" "js_number (fst e) = b" using next_best_Some(1)[OF assms(1)] by blast
  then have key: "fst e = js_string b" using canonical_key[OF assms(2)] by metis
  have new: "(js_string b, l) \<in> set ?sd" using put_level_lookup[of "js_string b" l True sd "js_string b"]
    by (auto dest: map_of_SomeD)
  have lnew: "live t p (js_string b, l)" using e key assms(3) by (cases t) (auto simp: live_ask_def live_bid_def)
  have "\<exists>q. next_best t ?sd p = Some q" using next_best_None new lnew by (metis not_None_eq)
  then obtain q where q: "next_best t ?sd p = Some q" ..
  have up: "js_number (js_string b) = b" using e key by simp
  then have "b = q \<or> beyond t q b" using next_best_Some(2)[OF q new lnew] by simp
  moreover have "b = q \<or> beyond t b q"
  proof -
    obtain e' where e': "e' \<in> set ?sd" "live t p e'" "js_number (fst e') = q" using next_best_Some(1)[OF q] by blast
    show ?thesis
    proof (cases "fst e' = js_string b")
      case False
      then have "e' \<in> set sd" using put_level_other[of "fst e'" "js_string b" "snd e'"] e'(1) by simp
      then show ?thesis using next_best_Some(2)[OF assms(1)] e' by metis
    qed (use e' up in simp)
  qed
  ultimately show ?thesis using q beyond_trans beyond_irrefl by metis
qed

section \<open>One fill, one level\<close>

abbreviation "lots_outer N T n now \<equiv> regime.wf_outer (lots_level N T) (lots_left N n T now) proper_qty"
abbreviation "lots_inner N T n now \<equiv>
  regime.wf_inner (lots_level N T) (lots_left N n T now) (lots_more N n T now) proper_qty"

lemma level_lots_pos: "lots_level N T att l \<Longrightarrow> openOrders l \<noteq> [] \<Longrightarrow> 0 < level_lots l"
  using lots_order_rest(2) by (cases "openOrders l") (auto simp: lots_level_def level_lots_def)

lemma lots_step:
  assumes inv: "lots_inner N T n now t m ids b False (level, att, s)"
    and level: "openOrders level = r # rs"
    and fill: "fillResting rt ord tk b 0 r (level, att, s) = Return brk (level1, att1, s1)"
    and a: "ms_remaining s = lot a"
  shows "map abs_fill (ms_fills s1) = map abs_fill (ms_fills s) @ [(b, o_orderId r, min a (rest_lots r))]"
    "ms_remaining s1 = lot (a - min a (rest_lots r))" "brk \<longleftrightarrow> a \<le> rest_lots r"
    "abs_orders level1 = (if a < rest_lots r then [(o_orderId r, rest_lots r - a)] else [])
       @ map (\<lambda>r. (o_orderId r, rest_lots r)) rs"
    "att1 = (att \<and> openOrders level1 \<noteq> [])"
proof -
  have V: "lots_level N T att level" and C: "lots_more N n T now (lot a) (ms_filled s)"
    using inv a by (auto simp: lots.wf_inner_def)
  then have ro: "lots_order r" and ab: "0 < a" "a \<le> 2 ^ 53"
    using level by (auto simp: lots_level_def lots_more_def lots_left_def)
  obtain q rem st rst maker where
    sp: "fill_split (o_qty r - o_filledQty r) (lot a) = (q, rem, st, rst, brk)" and
    l1: "level1 = \<lparr>availableQty = availableQty level - q,
       openOrders = (if rst = PartiallyFilled then (openOrders level)[0 := leftOrder r q]
                     else splice1 0 (openOrders level))\<rparr>" and
    att1: "att1 = (att \<and> (rst = PartiallyFilled \<or> \<not> availableQty level1 \<le> 0))" and
    s1: "s1 = s\<lparr>ms_lastTraded := b, ms_uuids := ms_uuids s + 1, ms_remaining := rem,
       ms_filled := ms_filled s + q, ms_total := ms_total s + b * q, ms_status := st,
       ms_fills := ms_fills s @ [fillOf rt ord tk b r (ms_uuids s) q],
       ms_users := setUser (o_userId r) (createPosition maker (makerPayload r b q) b) (ms_users s),
       ms_updates := ms_updates s @ [updateOf r q rst]\<rparr>"
    by (rule fillResting_Return[OF fill]) (auto simp: a)
  have sp': "(q, rem, st, rst, brk) = (if a < rest_lots r then (lot a, lot 0, Filled, PartiallyFilled, True)
     else if rest_lots r = a then (lot a, lot 0, Filled, Filled, True)
     else (lot (rest_lots r), lot (a - rest_lots r), PartiallyFilled, Filled, False))"
    using sp fill_split_lots[OF ab(2), of "rest_lots r"] by (simp add: lots_order_rest(1)[OF ro])
  have q: "q = lot (min a (rest_lots r))" and rem: "rem = lot (a - min a (rest_lots r))"
    using sp' by (auto split: if_splits)
  have pf: "rst = PartiallyFilled \<longleftrightarrow> a < rest_lots r" using sp' by (auto split: if_splits)
  show "brk \<longleftrightarrow> a \<le> rest_lots r" using sp' by (auto split: if_splits)
  show "map abs_fill (ms_fills s1) = map abs_fill (ms_fills s) @ [(b, o_orderId r, min a (rest_lots r))]"
    using s1 q by (simp add: abs_fill_def fillOf_def)
  show "ms_remaining s1 = lot (a - min a (rest_lots r))" using s1 rem by simp
  show "abs_orders level1 = (if a < rest_lots r then [(o_orderId r, rest_lots r - a)] else [])
       @ map (\<lambda>r. (o_orderId r, rest_lots r)) rs"
    using l1 pf q level leftOrder_lots(2)[OF ro, of a]
    by (auto simp: abs_orders_def splice1_def leftOrder_def)
  have law: "lots_level N T att1 level1"
    unfolding att1 by (rule lots_fill_law(4)[OF V C _ _ sp l1]) (simp_all add: level)
  have "availableQty level1 = lot (level_lots level1)" using law by (simp add: lots_level_def)
  then have "openOrders level1 \<noteq> [] \<Longrightarrow> \<not> availableQty level1 \<le> 0"
    using level_lots_pos[OF law] by simp
  moreover have "att1 \<Longrightarrow> openOrders level1 \<noteq> []" using law by (simp add: lots_level_def)
  ultimately show "att1 = (att \<and> openOrders level1 \<noteq> [])" using att1 by blast
qed

lemma lots_first:
  "lots_level N T att level \<Longrightarrow> openOrders level = r # rs \<Longrightarrow>
     getFirstCreatedOrder (openOrders level) = Some (0, r)"
  using getFirstCreatedOrder_sorted[of r rs] by (simp add: lots_level_def)

lemma matchLevel_refines:
  assumes "lots_inner N T n now t m ids b False (level, att, s)"
    "matchLevel rt ord tk b (level, att, s) = Return u (level', att', s')"
    "ms_remaining s = lot a" "take_level a (abs_orders level) = (taken, a', left)"
  shows "map abs_fill (ms_fills s') = map abs_fill (ms_fills s) @ map (Pair b) taken
    \<and> ms_remaining s' = lot a' \<and> abs_orders level' = left \<and> (openOrders level \<noteq> [] \<longrightarrow> att' = (att \<and> left \<noteq> []))
    \<and> (\<exists>brk. lots_inner N T n now t m ids b brk (level', att', s'))"
  using assms
proof (induction "length (openOrders level)" arbitrary: level att s a taken rule: less_induct)
  case less
  have V: "lots_level N T att level" using less.prems(1) by (simp add: lots.wf_inner_def)
  show ?case
  proof (cases "openOrders level")
    case Nil
    then show ?thesis using less.prems by (auto simp: matchLevel.simps abs_orders_def intro: exI[of _ False])
  next
    case (Cons r rs)
    note g = lots_first[OF V Cons]
    obtain brk l1 a1 s1 where f: "fillResting rt ord tk b 0 r (level, att, s) = Return brk (l1, a1, s1)"
      using less.prems(2) g by (auto simp: matchLevel.simps[of _ _ _ _ level] split: outcome.splits)
    note st = lots_step[OF less.prems(1) Cons f less.prems(3)]
    have inv: "lots_inner N T n now t m ids b brk (l1, a1, s1)" by (rule lots.wf_fill[OF less.prems(1) g f])
    have pos: "0 < a" using less.prems(1,3) by (auto simp: lots.wf_inner_def lots_more_def)
    have ab: "abs_orders level = (o_orderId r, rest_lots r) # map (\<lambda>r. (o_orderId r, rest_lots r)) rs"
      using Cons by (simp add: abs_orders_def)
    have a1: "a1 = (att \<and> abs_orders l1 \<noteq> [])" using st(5) by (simp add: abs_orders_def)
    show ?thesis
    proof (cases brk)
      case True
      then have res: "level' = l1" "att' = a1" "s' = s1"
        using less.prems(2) g f by (auto simp: matchLevel.simps[of _ _ _ _ level])
      have "a \<le> rest_lots r" using st(3) True by simp
      then show ?thesis using res st a1 less.prems(4) ab pos inv by (auto split: if_splits)
    next
      case False
      then have lt: "rest_lots r < a" using st(3) by simp
      then have l1: "abs_orders l1 = map (\<lambda>r. (o_orderId r, rest_lots r)) rs" using st(4) by simp
      then have len: "length (openOrders l1) < length (openOrders level)"
        using Cons by (metis abs_orders_def impossible_Cons length_map not_less)
      have m: "matchLevel rt ord tk b (l1, a1, s1) = Return u (level', att', s')"
        using less.prems(2) g f False by (simp add: matchLevel.simps[of _ _ _ _ level])
      obtain tk' where t: "take_level (a - rest_lots r) (abs_orders l1) = (tk', a', left)"
          "taken = (o_orderId r, rest_lots r) # tk'"
        using less.prems(4) ab lt l1 pos by (auto split: prod.splits)
      have rem: "ms_remaining s1 = lot (a - rest_lots r)" using st(2) lt by simp
      have "lots_inner N T n now t m ids b False (l1, a1, s1)" using inv False by simp
      from less.hyps[OF len this m rem t(1)] show ?thesis
        using st(1) t lt a1 m by (auto simp: abs_orders_def matchLevel.simps[of _ _ _ _ l1])
    qed
  qed
qed

section \<open>The loop\<close>

definition accepts :: "TPositionType \<Rightarrow> OrderRecordNumberified \<Rightarrow> jsnum \<Rightarrow> bool" where
  "accepts t ord b \<longleftrightarrow> js_truthy b \<and> reaches t b (n_price ord)"

lemma matchLoop_stops:
  "\<not> loop_runs t ord best s \<Longrightarrow> matchLoop rt t ord tk best s = Return () s"
  by (cases best) (auto simp: matchLoop.simps loop_runs_def)

lemma abs_levels_Some:
  "map_of sd (js_string b) = Some l \<Longrightarrow>
     abs_levels t sd (Some b) = (b, abs_orders l) # abs_levels t sd (next_best t sd b)"
  by (simp add: abs_levels_def price_levels.simps[of _ _ "Some b"])

lemma matchLoop_refines:
  assumes "lots_outer N T n now t m ids best s" "next_best t (ms_side s) (scan_start t) = best"
    "matchLoop rt t ord tk best s = Return u s'" "ms_remaining s = lot a"
    "abs_match (accepts t ord) a (abs_levels t (ms_side s) best) = (fills, a', levels')"
  shows "map abs_fill (ms_fills s') = map abs_fill (ms_fills s) @ fills
    \<and> ms_remaining s' = lot a' \<and> abs_book t (ms_side s') = levels'"
  using assms
proof (induction "keys_beyond t best (ms_side s)" arbitrary: best s a fills rule: less_induct)
  case less
  show ?case
  proof (cases best)
    case None
    then show ?thesis using less.prems
      by (auto simp: matchLoop.simps abs_levels_def abs_book_def price_levels.simps)
  next
    case (Some b)
    note inv = less.prems(1)[unfolded Some]
    obtain l0 where l0: "map_of (ms_side s) (js_string b) = Some l0" and db: "is_double b"
      using inv by (auto simp: lots.wf_outer_def)
    have can: "canonical (ms_side s)" using inv by (auto simp: lots.wf_outer_def wf_side_def)
    have V: "lots_level N T True l0" using inv l0 by (auto simp: lots.wf_outer_def dest: wf_side_get)
    note lv = abs_levels_Some[OF l0, of t]
    show ?thesis
    proof (cases "loop_runs t ord (Some b) s")
      case False
      then have "a = 0 \<or> \<not> accepts t ord b" using less.prems(4) by (auto simp: loop_runs_def accepts_def)
      then have "fills = [] \<and> a' = a \<and> levels' = abs_levels t (ms_side s) best"
        using less.prems(5) lv Some by auto
      then show ?thesis using less.prems(2,3,4) matchLoop_stops[OF False] Some by (simp add: abs_book_def)
    next
      case True
      then have c: "0 < ms_remaining s \<and> js_truthy b \<and> reaches t b (n_price ord)" by (simp add: loop_runs_def)
      then have pos: "0 < a" "accepts t ord b" using less.prems(4) by (auto simp: accepts_def)
      have ne: "openOrders l0 \<noteq> []" "\<not> availableQty l0 \<le> 0"
        using V level_lots_pos[OF V] by (auto simp: lots_level_def)
      have lvl: "lots_inner N T n now t m ids b False (l0, True, s)" by (rule lots.run.enter[OF inv True l0 ne(2)])
      obtain l1 a1 s1 where ml: "matchLevel rt ord tk b (l0, True, s) = Return () (l1, a1, s1)"
        using less.prems(3) Some c l0 ne(2) by (auto simp: matchLoop.simps(2) Let_def split: outcome.splits)
      let ?sd = "put_level (js_string b) l1 a1 (ms_side s)"
      let ?s1 = "s1\<lparr>ms_side := ?sd\<rparr>"
      obtain taken r1 left where tl: "take_level a (abs_orders l0) = (taken, r1, left)" by (metis prod_cases3)
      obtain fs2 ls2 where am: "abs_match (accepts t ord) r1 (abs_levels t ?sd (next_best t ?sd b)) = (fs2, a', ls2)"
          "fills = map (Pair b) taken @ fs2" "levels' = (if left = [] then [] else [(b, left)]) @ ls2"
        using less.prems(5) pos lv Some tl abs_levels_put[OF db, of t l1 a1 "ms_side s"] by (auto split: prod.splits)
      have R: "map abs_fill (ms_fills s1) = map abs_fill (ms_fills s) @ map (Pair b) taken"
          "ms_remaining s1 = lot r1" "abs_orders l1 = left" "a1 = (left \<noteq> [])"
        using matchLevel_refines[OF lvl ml less.prems(4) tl] ne by auto
      obtain brk where i1: "lots_inner N T n now t m ids b brk (l1, a1, s1)" "brk \<or> openOrders l1 = []"
          and sd: "ms_side s1 = ms_side s"
        using lots.run.level_invariant[OF lvl ml] by blast
      have out: "lots_outer N T n now t m ids (next_best t ?sd b) ?s1"
        using lots.run.leave[OF i1, of l0] l0 sd by simp
      have loop: "matchLoop rt t ord tk (next_best t ?sd b) ?s1 = Return u s'"
        using less.prems(3) Some c l0 ne(2) ml by (simp add: matchLoop.simps(2) Let_def)
      show ?thesis
      proof (cases "left = []")
        case True
        have "map fst ?sd = map fst (ms_side s) \<or> map fst ?sd = removeAll (js_string b) (map fst (ms_side s))"
          using l0 by (simp add: put_level_keys)
        then have k: "keys_beyond t (next_best t ?sd b) (ms_side ?s1) < keys_beyond t best (ms_side s)"
          unfolding Some using keys_beyond_next[of ?sd "ms_side s" "js_string b" t b] by simp
        have "next_best t (ms_side ?s1) (scan_start t) = next_best t ?sd b"
          using next_best_delete[OF less.prems(2)[unfolded Some] can, of l1] R(4) True by simp
        from less.hyps[OF k out this loop] am True R show ?thesis by auto
      next
        case False
        then have r1: "r1 = 0" using take_level_lots[OF tl] by auto
        then have "\<not> loop_runs t ord (next_best t ?sd b) ?s1" using R(2) by (simp add: loop_runs_def lot_0)
        then have s': "s' = ?s1" using matchLoop_stops loop by fastforce
        have l1: "0 < availableQty l1"
        proof -
          have "lots_level N T a1 l1" using i1 by (simp add: lots.wf_inner_def)
          moreover have "openOrders l1 \<noteq> []" using R(3) False by (auto simp: abs_orders_def)
          ultimately show ?thesis using level_lots_pos[of N T a1 l1] by (simp add: lots_level_def)
        qed
        have a1: "a1 = True" using R(4) False by simp
        have "next_best t ?sd (scan_start t) = Some b"
          using next_best_keep[OF less.prems(2)[unfolded Some] can l1] a1 by simp
        moreover have "map_of ?sd (js_string b) = Some l1" using a1 by (simp add: put_level_lookup)
        ultimately have "abs_book t ?sd = (b, left) # abs_levels t ?sd (next_best t ?sd b)"
          using abs_levels_Some R(3) by (simp add: abs_book_def)
        then show ?thesis using s' r1 R am False by simp
      qed
    qed
  qed
qed

section \<open>The book, independently of the scans\<close>

text \<open>
  What a side is, said without the functions that look for its best price: its levels within the
  prices the code considers at all (finite, and for asks above minus one), sorted by price, lowest
  first for a buyer and highest first for a seller. The list the two scans walk is this one.
\<close>

fun quoted :: "TPositionType \<Rightarrow> jsnum \<Rightarrow> bool" where
  "quoted LONG (Fin x) \<longleftrightarrow> - 1 < x"
| "quoted SHORT (Fin x) \<longleftrightarrow> True"
| "quoted _ _ \<longleftrightarrow> False"

fun price_rank :: "TPositionType \<Rightarrow> jsnum \<Rightarrow> rat" where
  "price_rank LONG (Fin x) = x"
| "price_rank SHORT (Fin x) = - x"
| "price_rank _ _ = 0"

definition quoted_levels :: "TPositionType \<Rightarrow> TSide \<Rightarrow> TSide" where
  "quoted_levels t sd = filter (\<lambda>(k, l). quoted t (js_number k)) sd"

definition spec_book :: "TPositionType \<Rightarrow> TSide \<Rightarrow> abs_side" where
  "spec_book t sd = map (\<lambda>(k, l). (js_number k, abs_orders l))
     (sort_key (\<lambda>(k, l). price_rank t (js_number k)) (quoted_levels t sd))"

lemma price_rank_beyond: "beyond t p q \<Longrightarrow> quoted t p \<Longrightarrow> quoted t q \<Longrightarrow> price_rank t p < price_rank t q"
  by (cases t; cases p; cases q) auto

lemma live_quoted: "0 < availableQty (snd e) \<Longrightarrow> live t (scan_start t) e \<longleftrightarrow> quoted t (js_number (fst e))"
  by (cases t; cases "js_number (fst e)") (auto simp: live_ask_def live_bid_def ask_start_def bid_start_def)

lemma live_quoted_beyond: "live t p e \<Longrightarrow> quoted t p \<or> p = scan_start t \<Longrightarrow> quoted t (js_number (fst e))"
  by (cases t; cases p; cases "js_number (fst e)") (auto simp: live_ask_def live_bid_def ask_start_def bid_start_def)

text \<open>The levels the scans walk from a price on: every live one, each once, best first.\<close>

definition live_walk :: "TPositionType \<Rightarrow> TSide \<Rightarrow> jsnum \<Rightarrow> TSide" where
  "live_walk t sd p = map (\<lambda>(b, l). (js_string b, l)) (price_levels t sd (next_best t sd p))"

lemma live_walk_step:
  assumes "canonical sd"
  shows "live_walk t sd p = (case next_best t sd p of None \<Rightarrow> []
     | Some b \<Rightarrow> (js_string b, the (map_of sd (js_string b))) # live_walk t sd b)"
proof (cases "next_best t sd p")
  case (Some b)
  then obtain e where e: "e \<in> set sd" "js_number (fst e) = b" using next_best_Some(1) by metis
  then have "map_of sd (js_string b) = Some (snd e)"
    using canonical_lookup[OF assms, of "fst e" "snd e"] by simp
  then show ?thesis using Some by (simp add: live_walk_def price_levels.simps[of _ _ "Some b"])
qed (simp add: live_walk_def price_levels.simps)

lemma live_walk_live:
  assumes "canonical sd" "quoted t p \<or> p = scan_start t"
  shows "set (live_walk t sd p) = {e \<in> set sd. live t p e}
    \<and> sorted_wrt (\<lambda>e f. price_rank t (js_number (fst e)) < price_rank t (js_number (fst f))) (live_walk t sd p)"
  using assms(2)
proof (induction "keys_beyond t (next_best t sd p) sd" arbitrary: p rule: less_induct)
  case less
  show ?case
  proof (cases "next_best t sd p")
    case None
    then show ?thesis using next_best_None[OF None] by (auto simp: live_walk_step[OF assms(1), of t p])
  next
    case (Some b)
    obtain e where e: "e \<in> set sd" "live t p e" "js_number (fst e) = b" using next_best_Some(1)[OF Some] by blast
    have look: "e = (js_string b, the (map_of sd (js_string b)))"
      using canonical_lookup[OF assms(1), of "fst e" "snd e"] canonical_key[OF assms(1) e(1)] e by (cases e) auto
    have qb: "quoted t b" using live_quoted_beyond[OF e(2) less.prems] e(3) by simp
    have "keys_beyond t (next_best t sd b) sd < keys_beyond t (next_best t sd p) sd"
      unfolding Some by (rule keys_beyond_next) simp
    from less.hyps[OF this disjI1[OF qb]]
    have IH: "set (live_walk t sd b) = {e \<in> set sd. live t b e}"
      "sorted_wrt (\<lambda>e f. price_rank t (js_number (fst e)) < price_rank t (js_number (fst f))) (live_walk t sd b)"
      by blast+
    have pb: "beyond t p b" using next_best_beyond[OF Some] by simp
    have rest: "f = e \<or> live t b f" if "f \<in> set sd" "live t p f" for f
    proof -
      have "js_number (fst f) = b \<or> beyond t b (js_number (fst f))" by (rule next_best_Some(2)[OF Some that])
      moreover have "f = e" if "js_number (fst f) = b"
        using canonical_lookup[OF assms(1), of "fst f" "snd f"] canonical_key[OF assms(1) \<open>f \<in> set sd\<close>] \<open>f \<in> set sd\<close>
          that look by (cases f) auto
      ultimately show ?thesis using live_iff that(2) by metis
    qed
    have closer: "live t p f" if "live t b f" for f
      using live_iff[of t p f b] live_beyond[OF that] pb beyond_trans that by metis
    have up: "price_rank t b < price_rank t (js_number (fst f))" if "live t b f" for f
      using price_rank_beyond[OF live_beyond[OF that] qb] live_quoted_beyond[OF that disjI1[OF qb]] by simp
    show ?thesis
      using Some IH look e rest closer up by (auto simp: live_walk_step[OF assms(1), of t p])
  qed
qed

lemma abs_book_spec:
  assumes "canonical sd" "\<forall>(k, l) \<in> set sd. 0 < availableQty l"
  shows "abs_book t sd = spec_book t sd"
proof -
  let ?key = "\<lambda>(k, l). price_rank t (js_number k)"
  let ?walk = "live_walk t sd (scan_start t)"
  have q: "set ?walk = set (quoted_levels t sd)"
    and s: "sorted_wrt (\<lambda>e f. price_rank t (js_number (fst e)) < price_rank t (js_number (fst f))) ?walk"
    using live_walk_live[OF assms(1), of t "scan_start t"] live_quoted assms(2)
    by (auto simp: quoted_levels_def)
  have ss: "sorted_wrt (<) (map ?key ?walk)" using s by (simp add: sorted_wrt_map case_prod_beta)
  then have d: "distinct (map ?key ?walk)" by (simp add: strict_sorted_iff)
  have "distinct (quoted_levels t sd)"
    using assms(1) by (auto simp: canonical_def quoted_levels_def distinct_map)
  then have m: "mset (quoted_levels t sd) = mset ?walk"
    using q d by (metis distinct_map set_eq_iff_mset_eq_distinct)
  have "sort_key ?key (quoted_levels t sd) = ?walk"
    using sort_key_inj_key_eq[OF m, of ?key] d q ss by (simp add: distinct_map strict_sorted_iff)
  moreover have "map (\<lambda>(k, l). (js_number k, abs_orders l)) ?walk = abs_book t sd"
  proof -
    have "is_double b" if "(b, l) \<in> set (price_levels t sd best)" "\<forall>x. best = Some x \<longrightarrow> is_double x" for b l best
      using that
    proof (induction "keys_beyond t best sd" arbitrary: best rule: less_induct)
      case less
      then obtain x y where x: "best = Some x" "(b, l) \<in> set ((x, y) # price_levels t sd (next_best t sd x))"
        by (auto simp: price_levels.simps[of t sd best] split: option.splits)
      have "keys_beyond t (next_best t sd x) sd < keys_beyond t best sd"
        unfolding x(1) by (rule keys_beyond_next) simp
      then show ?case using less.hyps x less.prems(2) next_best_beyond by auto
    qed
    then show ?thesis using next_best_beyond
      by (auto simp: live_walk_def abs_book_def abs_levels_def js_number_string intro!: map_cong)
  qed
  ultimately show ?thesis by (simp add: spec_book_def)
qed

text \<open>A price not accepted is no better than the worse ones, but for the price zero, which ends the loop.\<close>

lemma not_reached_beyond: "\<not> reaches t p limit \<Longrightarrow> beyond t p q \<Longrightarrow> \<not> reaches t q limit"
  by (cases t; cases p; cases q; cases limit) auto

lemma quoted_rank_le: "quoted t p \<Longrightarrow> quoted t q \<Longrightarrow> price_rank t p \<le> price_rank t q \<Longrightarrow> p = q \<or> beyond t p q"
  by (cases t; cases p; cases q) auto

lemma quoted_number: "quoted t p \<Longrightarrow> p \<noteq> NaN"
  by (cases t) auto

text \<open>If the best level left is one the order does not accept, no level it reaches is left.\<close>

lemma spec_book_uncrossed:
  assumes "spec_book t sd = [] \<or> \<not> accepts t ord (fst (hd (spec_book t sd)))"
    and none: "\<forall>(k, l) \<in> set sd. js_number k \<noteq> 0" and e: "(k, l) \<in> set sd" "quoted t (js_number k)"
  shows "\<not> reaches t (js_number k) (n_price ord)"
proof -
  let ?key = "\<lambda>(k, l). price_rank t (js_number k)"
  define es where "es = sort_key ?key (quoted_levels t sd)"
  have s: "sorted (map ?key es)" and set: "set es = set (quoted_levels t sd)" by (simp_all add: es_def)
  have k: "(k, l) \<in> set es" using set e by (simp add: quoted_levels_def)
  then obtain kb lb rest where es: "es = (kb, lb) # rest" by (cases es) auto
  then have b: "(kb, lb) \<in> set sd" "quoted t (js_number kb)" using set by (auto simp: quoted_levels_def)
  have "price_rank t (js_number kb) \<le> price_rank t (js_number k)" using s k es by auto
  from quoted_rank_le[OF b(2) e(2) this]
  have le: "js_number kb = js_number k \<or> beyond t (js_number kb) (js_number k)" .
  have "\<not> accepts t ord (js_number kb)" using assms(1) es by (simp add: spec_book_def es_def)
  then have "\<not> reaches t (js_number kb) (n_price ord)"
    using none b quoted_number[OF b(2)] by (auto simp: accepts_def js_truthy_def zero_jsnum_def)
  then show ?thesis using le not_reached_beyond by metis
qed

end
