(* ===== verification/MatchLedger.thy ===== *)
theory MatchLedger
  imports PriceTime
begin

text \<open>
  What the report of a match says, for any quantities: the reported totals are the folds of the
  reported fills, the fills come best price first and within the limit, and the status follows from
  what was filled. Another interpretation of the loop's locale.
\<close>

text \<open>The prices of the fills, from better to worse.\<close>

definition best_first :: "TPositionType \<Rightarrow> FillRecordNumberified list \<Rightarrow> bool" where
  "best_first t fills \<longleftrightarrow> sorted_wrt (\<lambda>f g. f_price f = f_price g \<or> beyond t (f_price f) (f_price g)) fills"

definition ledger ::
  "runtime \<Rightarrow> TPositionType \<Rightarrow> OrderRecordNumberified \<Rightarrow> string \<Rightarrow> match_state \<Rightarrow> match_state \<Rightarrow> bool" where
  "ledger rt t ord tk s0 s \<longleftrightarrow>
     ms_filled s = foldl (+) 0 (map f_qty (ms_fills s))
     \<and> ms_total s = foldl (+) 0 (map (\<lambda>f. f_price f * f_qty f) (ms_fills s))
     \<and> ms_uuids s = ms_uuids s0 + length (ms_fills s)
     \<and> map f_id (ms_fills s) = map (uuid_of rt) [ms_uuids s0 ..< ms_uuids s]
     \<and> (\<forall>f \<in> set (ms_fills s). f_takerId f = tk \<and> f_takerOrderId f = n_id ord
          \<and> f_marketId f = n_marketId ord \<and> accepts t ord (f_price f))
     \<and> best_first t (ms_fills s)
     \<and> ms_lastTraded s = (if ms_fills s = [] then ms_lastTraded s0 else f_price (last (ms_fills s)))
     \<and> map w_orderId (ms_updates s) = map f_makerOrderId (ms_fills s)
     \<and> map w_userId (ms_updates s) = map f_makerId (ms_fills s)
     \<and> (ms_fills s = [] \<longrightarrow> ms_status s = ms_status s0 \<and> ms_remaining s = ms_remaining s0)
     \<and> (ms_fills s \<noteq> [] \<longrightarrow> ms_status s = PartiallyFilled \<or> ms_status s = Filled \<and> ms_remaining s = 0)"

definition ledger_outer where
  "ledger_outer rt t ord tk s0 best s \<longleftrightarrow> ledger rt t ord tk s0 s
     \<and> (\<forall>b. best = Some b \<longrightarrow> (\<forall>f \<in> set (ms_fills s). beyond t (f_price f) b))"

definition ledger_inner where
  "ledger_inner rt t ord tk s0 b (brk::bool) ls \<longleftrightarrow> (case ls of (level::TBid, att::bool, s) \<Rightarrow>
     ledger rt t ord tk s0 s \<and> accepts t ord b
     \<and> (\<forall>f \<in> set (ms_fills s). f_price f = b \<or> beyond t (f_price f) b))"

lemma ledger_fill:
  assumes "ledger_inner rt t ord tk s0 b False (level, att, s)"
    "fillResting rt ord tk b i r (level, att, s) = Return brk (level', att', s')"
  shows "ledger_inner rt t ord tk s0 b brk (level', att', s')"
proof -
  have led: "ledger rt t ord tk s0 s" and acc: "accepts t ord b"
    and pr: "\<forall>f \<in> set (ms_fills s). f_price f = b \<or> beyond t (f_price f) b"
    using assms(1) by (auto simp: ledger_inner_def)
  obtain q rem st rst maker where
    sp: "fill_split (o_qty r - o_filledQty r) (ms_remaining s) = (q, rem, st, rst, brk)" and
    s': "s' = s\<lparr>ms_lastTraded := b, ms_uuids := ms_uuids s + 1, ms_remaining := rem,
       ms_filled := ms_filled s + q, ms_total := ms_total s + b * q, ms_status := st,
       ms_fills := ms_fills s @ [fillOf rt ord tk b r (ms_uuids s) q],
       ms_users := setUser (o_userId r) (createPosition maker (makerPayload r b q) b) (ms_users s),
       ms_updates := ms_updates s @ [updateOf r q rst]\<rparr>"
    by (rule fillResting_Return[OF assms(2)]) blast
  have st: "st = PartiallyFilled \<or> st = Filled \<and> rem = 0" using sp by (auto simp: fill_split_def split: if_splits)
  have bf: "best_first t (ms_fills s @ [fillOf rt ord tk b r (ms_uuids s) q])"
    using led pr by (auto simp: ledger_def best_first_def sorted_wrt_append fillOf_def)
  show ?thesis using led acc pr st bf s'
    by (auto simp: ledger_inner_def ledger_def fillOf_def updateOf_def)
qed

interpretation ledger: fill_invariant rt t ord tk "ledger_outer rt t ord tk s0" "ledger_inner rt t ord tk s0"
  for rt t ord tk s0
proof (unfold_locales, goal_cases)
  case (1 b s level)
  then show ?case by (auto simp: ledger_outer_def ledger_inner_def loop_runs_def accepts_def)
next
  case (2 b s level)
  then show ?case using next_best_beyond[of t "ms_side s" b] beyond_trans
    by (fastforce simp: ledger_outer_def)
next
  case (3 b level att s i r brk ls)
  then show ?case by (cases ls) (auto intro: ledger_fill)
next
  case (4 b brk level att s level0)
  then show ?case using next_best_beyond[of t "put_level (js_string b) level att (ms_side s)" b] beyond_trans
    by (fastforce simp: ledger_outer_def ledger_inner_def ledger_def)
qed

section \<open>The report of a match\<close>

lemma matchOrder_Return:
  assumes "matchOrder rt ord uk tk v = Return (ord', res) v'"
  obtains s own ck st where
    "matchLoop rt (n_positionType ord) ord tk (next_best (n_positionType ord)
       (taken_side (n_positionType ord) (v_book v)) (scan_start (n_positionType ord)))
       (startMatch (n_positionType ord) ord v) = Return () s"
    "restRemainder rt (n_positionType ord) ord tk (v_clock v)
       (taken_side (opposite (n_positionType ord)) (v_book v)) s = (own, ck, st)"
    "ord' = ord\<lparr>n_status := st\<rparr>" "res = matchResponse ord st s"
    "v' = v\<lparr>v_book := put_taken (opposite (n_positionType ord)) own
         ((put_taken (n_positionType ord) (ms_side s) (v_book v))\<lparr>lastTradedPrice := ms_lastTraded s\<rparr>),
       v_users := settleTaker ord uk s, v_uuids := ms_uuids s, v_clock := ck\<rparr>"
  using assms that
  by (auto simp: matchOrder_loop Let_def finishMatch_def afterLoop_def split: outcome.splits prod.splits)

lemma startMatch_ledger: "ledger_outer rt t ord tk (startMatch t ord v) best (startMatch t ord v)"
  by (simp add: ledger_outer_def ledger_def startMatch_def best_first_def)

lemma match_ledger:
  assumes "matchLoop rt t ord tk best (startMatch t ord v) = Return u s"
  shows "ledger rt t ord tk (startMatch t ord v) s"
  using ledger.loop_invariant[OF startMatch_ledger assms] by (auto simp: ledger_outer_def)

section \<open>A match of whole quantities\<close>

definition lots_store :: "nat \<Rightarrow> int \<Rightarrow> TStore \<Rightarrow> bool" where
  "lots_store N T s \<longleftrightarrow> wf_store (lots_level N T) proper_qty s"

text \<open>An order for \<open>n\<close> lots that fits a store of up to \<open>N\<close> lots a level with orders up to the date \<open>T\<close>.\<close>

definition lots_order_fits ::
  "runtime \<Rightarrow> nat \<Rightarrow> int \<Rightarrow> nat \<Rightarrow> OrderRecordNumberified \<Rightarrow> string \<Rightarrow> TStore \<Rightarrow> nat \<Rightarrow> bool" where
  "lots_order_fits rt N T n ord tk s clock \<longleftrightarrow> n_qty ord = lot n \<and> N + n \<le> 2 ^ 53 \<and> T \<le> date_now rt clock
     \<and> is_double (n_price ord) \<and> tk \<in> user_ids (users s)"

lemma put_taken_last:
  "put_taken t sd (ob\<lparr>lastTradedPrice := p\<rparr>) = (put_taken t sd ob)\<lparr>lastTradedPrice := p\<rparr>"
  by (cases t) simp_all

text \<open>The status of a match of whole quantities.\<close>

definition lots_status :: "match_state \<Rightarrow> bool" where
  "lots_status s \<longleftrightarrow> ms_fills s \<noteq> [] \<longrightarrow>
     (if ms_remaining s = 0 then ms_status s = Filled else ms_status s = PartiallyFilled)"

definition status_outer where
  "status_outer N T n now t m ids best s \<longleftrightarrow> lots_outer N T n now t m ids best s \<and> lots_status s"

definition status_inner where
  "status_inner N T n now t m ids b brk ls \<longleftrightarrow>
     lots_inner N T n now t m ids b brk ls \<and> lots_status (snd (snd ls))"

interpretation status: fill_invariant rt t ord tk
    "status_outer N T n now t m ids" "status_inner N T n now t m ids"
  for rt t ord tk N T n now m ids
proof (unfold_locales, goal_cases)
  case (1 b s level)
  then show ?case using lots.run.enter by (auto simp: status_outer_def status_inner_def)
next
  case (2 b s level)
  then show ?case using lots.run.skip by (auto simp: status_outer_def)
next
  case (3 b level att s i r brk ls)
  obtain level' att' s' where ls: "ls = (level', att', s')" by (metis prod_cases3)
  note inv = 3(1)[unfolded status_inner_def]
  have "lots_more N n T now (ms_remaining s) (ms_filled s)" "lots_level N T att level"
    using inv by (auto simp: lots.wf_inner_def)
  then obtain a where a: "ms_remaining s = lot a" "0 < a" "a \<le> 2 ^ 53"
    by (auto simp: lots_more_def lots_left_def)
  have ro: "lots_order r" using \<open>lots_level N T att level\<close> getFirstCreatedOrder_Some(1,2)[OF 3(2)]
    by (auto simp: lots_level_def)
  have "lots_status s'"
  proof (rule fillResting_Return[OF 3(3)[unfolded ls]])
    fix q rem st rst maker
    assume "fill_split (o_qty r - o_filledQty r) (ms_remaining s) = (q, rem, st, rst, brk)"
      "s' = s\<lparr>ms_lastTraded := b, ms_uuids := ms_uuids s + 1, ms_remaining := rem,
       ms_filled := ms_filled s + q, ms_total := ms_total s + b * q, ms_status := st,
       ms_fills := ms_fills s @ [fillOf rt ord tk b r (ms_uuids s) q],
       ms_users := setUser (o_userId r) (createPosition maker (makerPayload r b q) b) (ms_users s),
       ms_updates := ms_updates s @ [updateOf r q rst]\<rparr>"
    then show ?thesis using a ro lots_order_rest[OF ro] fill_split_lots[OF a(3), of "rest_lots r"]
      by (auto simp: lots_status_def lot_def split: if_splits)
  qed
  then show ?case using lots.run.one_fill[OF _ 3(2,3)] inv ls by (auto simp: status_inner_def)
next
  case (4 b brk level att s level0)
  then show ?case using lots.run.leave[OF _ 4(2,3)] by (auto simp: status_outer_def status_inner_def lots_status_def)
qed

text \<open>On a side of whole quantities the walk of the scans is the list the specification names.\<close>

lemma lots_side_spec: "wf_side (lots_level N T) p m ids sd \<Longrightarrow> abs_book t sd = spec_book t sd"
  using level_lots_pos by (intro abs_book_spec) (fastforce simp: wf_side_def lots_level_def)+

lemma match_lots:
  assumes store: "lots_store N T s" "map_of (orderbooks s) (n_marketId ord) = Some ob"
    and fits: "lots_order_fits rt N T n ord tk s ck" and t: "t = n_positionType ord"
    and v: "v = \<lparr>v_book = ob, v_users = users s, v_uuids = uu, v_clock = ck\<rparr>"
    and spec: "abs_match (accepts t ord) n (spec_book t (taken_side t ob)) = (fills, left, levels)"
  obtains ms own ck' st where
    "matchOrder rt ord uk tk v = Return (ord\<lparr>n_status := st\<rparr>, matchResponse ord st ms)
       (v\<lparr>v_book := (put_taken (opposite t) own (put_taken t (ms_side ms) ob))\<lparr>lastTradedPrice := ms_lastTraded ms\<rparr>,
         v_users := settleTaker ord uk ms, v_uuids := ms_uuids ms, v_clock := ck'\<rparr>)"
    "restRemainder rt t ord tk ck (taken_side (opposite t) ob) ms = (own, ck', st)"
    "map abs_fill (ms_fills ms) = fills" "ms_remaining ms = lot left" "ms_filled ms = lot (n - left)" "left \<le> n"
    "spec_book t (ms_side ms) = levels"
    "ledger rt t ord tk (startMatch t ord v) ms" "lots_status ms"
proof -
  let ?ids = "user_ids (users s)" and ?m = "n_marketId ord" and ?now = "date_now rt ck"
  let ?best = "next_best t (taken_side t ob) (scan_start t)" and ?s0 = "startMatch t ord v"
  have wf: "wf_store (lots_level N T) proper_qty s" using store(1) by (simp add: lots_store_def)
  note book = wf_store_book[OF wf store(2)]
  have R: "lots_left N n T ?now (lot n) (lot 0)" using fits by (auto simp: lots_order_fits_def lots_left_def)
  have f: "n_qty ord = lot n" "is_double (n_price ord)" "tk \<in> ?ids" using fits by (auto simp: lots_order_fits_def)
  have us: "wf_users proper_qty (users s)" using wf by (simp add: wf_store_def)
  obtain ord' res v' where m: "matchOrder rt ord uk tk v = Return (ord', res) v'"
    using lots.match_wf[of N n T ?now ?m ?ids v ord tk rt uk] R book us f v by (auto simp: lot_0)
  have out: "lots_outer N T n ?now t ?m ?ids None ?s0"
    using wf_book_taken[OF book, of t] us R f v by (simp add: lots.wf_outer_def startMatch_def lot_0)
  have out': "lots_outer N T n ?now t ?m ?ids ?best ?s0"
    using lots.wf_best[OF out] v by (simp add: startMatch_def)
  have vb: "v_book v = ob" "v_clock v = ck" using v by simp_all
  obtain ms own ck' st where ms:
    "matchLoop rt t ord tk ?best ?s0 = Return () ms"
    "restRemainder rt t ord tk ck (taken_side (opposite t) ob) ms = (own, ck', st)"
    "ord' = ord\<lparr>n_status := st\<rparr>" "res = matchResponse ord st ms"
    "v' = v\<lparr>v_book := put_taken (opposite t) own ((put_taken t (ms_side ms) ob)\<lparr>lastTradedPrice := ms_lastTraded ms\<rparr>),
       v_users := settleTaker ord uk ms, v_uuids := ms_uuids ms, v_clock := ck'\<rparr>"
    using matchOrder_Return[OF m, folded t, unfolded vb] by blast
  have ref: "map abs_fill (ms_fills ms) = fills" "ms_remaining ms = lot left" "abs_book t (ms_side ms) = levels"
    using matchLoop_refines[OF out' _ ms(1), of n fills left levels] spec v f
      lots_side_spec[OF wf_book_taken[OF book, of t], of t]
    by (auto simp: startMatch_def abs_book_def)
  have stop: "\<exists>best'. lots_outer N T n ?now t ?m ?ids best' ms" using lots.run.loop_invariant[OF out' ms(1)] by blast
  then have side: "spec_book t (ms_side ms) = levels" using ref(3) lots_side_spec by (auto simp: lots.wf_outer_def)
  have "ms_filled ms = lot (n - left) \<and> left \<le> n" using stop ref(2) by (auto simp: lots.wf_outer_def lots_left_def)
  moreover have "ledger rt t ord tk ?s0 ms" by (rule match_ledger[OF ms(1)])
  moreover have "lots_status ms"
  proof -
    have "status_outer N T n ?now t ?m ?ids ?best ?s0"
      using out' by (simp add: status_outer_def lots_status_def startMatch_def)
    from status.loop_invariant[OF this ms(1)] show ?thesis by (auto simp: status_outer_def)
  qed
  ultimately show ?thesis using that m ms ref(1,2) side by (simp add: put_taken_last)
qed

end
