(* ===== verification/Samples.thy ===== *)
theory Samples
  imports MatchLedger
begin

text \<open>
  A small exchange the properties are tried on: one market, one resting ask of five lots at 100
  placed by one account, and a second account that buys.
\<close>

definition sample_rt :: runtime where
  "sample_rt = \<lparr>uuid_of = digits_of, date_now = int\<rparr>"

definition sample_ask :: TOpenOrder where
  "sample_ask = \<lparr>o_userId = ''bob'', o_qty = lot 5, o_filledQty = lot 0, o_orderId = ''a1'',
     o_status = Open, o_margin = Fin 50, o_marketId = SOL_ID, o_positionType = SHORT, o_createdAt = 0\<rparr>"

definition sample_level :: TBid where
  "sample_level = \<lparr>availableQty = lot 5, openOrders = [sample_ask]\<rparr>"

definition sample_book :: TOrderbook where
  "sample_book = \<lparr>bids = [], asks = [(js_string (Fin 100), sample_level)], lastTradedPrice = Fin 90,
     indexPrice = Fin 85, allowedLeverage = Fin 30\<rparr>"

definition sample_store :: TStore where
  "sample_store = \<lparr>orderbooks = [(SOL_ID, sample_book)],
     users = [(''alice'', new_user ''alice'' (Fin 1000)), (''bob'', new_user ''bob'' (Fin 1000))],
     supportedAssets = [(SOL, SOL_ID)], lastUpdateId = 0\<rparr>"

definition sample_engine :: engine where
  "sample_engine = \<lparr>store = sample_store, uuids_used = 0, clock_reads = 0, uploads = []\<rparr>"

definition sample_taker :: OrderRecordNumberified where
  "sample_taker = \<lparr>n_id = ''t1'', n_userId = ''alice'', n_marketId = SOL_ID, n_positionType = LONG,
     n_orderType = Limit, n_status = Open, n_qty = lot 7, n_filledQty = 0, n_price = Fin 101,
     n_slippage = 0, n_initialMargin = Fin 100, n_createdAt = Some 0\<rparr>"

definition sample_venue :: venue where
  "sample_venue = \<lparr>v_book = sample_book, v_users = users sample_store, v_uuids = 0, v_clock = 0\<rparr>"

lemma sample_taker_fields [simp]:
  "n_id sample_taker = ''t1''" "n_marketId sample_taker = SOL_ID" "n_positionType sample_taker = LONG"
  "n_orderType sample_taker = Limit" "n_qty sample_taker = lot 7" "n_price sample_taker = Fin 101"
  "n_userId sample_taker = ''alice''" "n_status sample_taker = Open"
  by (simp_all add: sample_taker_def)

lemma binary64_numeral [simp]: "(numeral n :: int) \<le> 2 ^ 53 \<Longrightarrow> binary64 (numeral n)"
  by (metis abs_numeral binary64_of_int of_int_numeral)

lemma is_double_lot [simp]: "k \<le> 2 ^ 53 \<Longrightarrow> is_double (lot k)"
  using js_of_nat[of k] is_double_js[of "of_nat k"] by simp

lemma number_string_numeral [simp]:
  "(numeral n :: int) \<le> 2 ^ 53 \<Longrightarrow> js_number (js_string (Fin (numeral n))) = Fin (numeral n)"
  by (metis is_double_js js_number_string js_numeral(4))

lemma sample_lots: "lots_store 5 0 sample_store"
  by (simp add: lots_store_def wf_store_def wf_users_def wf_book_def wf_side_def canonical_def wf_level_def
      wf_resting_def lots_level_def lots_order_def level_lots_def rest_lots_def sample_store_def sample_book_def
      sample_level_def sample_ask_def user_ids_def)

lemma sample_ok: "store_ok (store sample_engine)"
  by (simp add: store_ok_def wf_store_def wf_users_def wf_book_def wf_side_def canonical_def wf_level_def
      wf_resting_def sample_store_def sample_engine_def sample_book_def sample_level_def sample_ask_def user_ids_def)

lemma sample_book_found: "map_of (orderbooks sample_store) SOL_ID = Some sample_book"
  by (simp add: sample_store_def)

lemma sample_market_own [simp]: "\<not> inherited SOL_ID"
  by (simp add: inherited_def prototypeMembers_def SOL_ID_def)

lemma sample_abs: "spec_book LONG (asks sample_book) = [(Fin 100, [(''a1'', 5)])]"
  by (simp add: spec_book_def quoted_levels_def sample_book_def sample_level_def lot_def abs_orders_def
      sample_ask_def rest_lots_def lots_of_def)

lemma sample_fits: "lots_order_fits sample_rt 5 0 7 sample_taker ''alice'' sample_store 0"
  by (simp add: lots_order_fits_def sample_rt_def sample_store_def user_ids_def)

lemma sample_match:
  "\<exists>ms st v'. matchOrder sample_rt sample_taker ''alice'' ''alice'' sample_venue =
     Return (sample_taker\<lparr>n_status := st\<rparr>, matchResponse sample_taker st ms) v'
   \<and> map abs_fill (ms_fills ms) = [(Fin 100, ''a1'', 5)]"
proof -
  have m: "map_of (orderbooks sample_store) (n_marketId sample_taker) = Some sample_book"
    by (simp add: sample_book_found)
  have a: "abs_match (accepts LONG sample_taker) 7 (spec_book LONG (taken_side LONG sample_book)) =
      ([(Fin 100, ''a1'', 5)], 2, [])"
    by (simp add: sample_abs accepts_def)
  show ?thesis
    by (rule match_lots[OF sample_lots m sample_fits sample_taker_fields(3)[symmetric] sample_venue_def a,
          where uk = "''alice''"]) (intro exI conjI, assumption+)
qed

text \<open>The same purchase as a request, and the cancellation of the resting ask.\<close>

definition sample_payload :: SelectOrderRecord where
  "sample_payload = \<lparr>r_id = ''t1'', r_userId = ''alice'', r_marketId = SOL_ID, r_positionType = LONG,
     r_orderType = Limit, r_status = Pending, r_qty = js_string (lot 7), r_filledQty = js_string (lot 0),
     r_price = js_string (Fin 101), r_slippage = 0, r_initialMargin = js_string (Fin 101),
     r_createdAt = Some 0, r_updatedAt = Some 0\<rparr>"

definition sample_cancel :: SelectOrderRecord where
  "sample_cancel = \<lparr>r_id = ''a1'', r_userId = ''bob'', r_marketId = SOL_ID, r_positionType = SHORT,
     r_orderType = Limit, r_status = Open, r_qty = js_string (lot 5), r_filledQty = js_string (lot 0),
     r_price = js_string (Fin 100), r_slippage = 0, r_initialMargin = js_string (Fin 50),
     r_createdAt = Some 0, r_updatedAt = Some 0\<rparr>"

lemma sample_payload_market [simp]: "r_marketId sample_payload = SOL_ID"
  by (simp add: sample_payload_def)

lemma number_string_lot [simp]: "k \<le> 2 ^ 53 \<Longrightarrow> js_number (js_string (lot k)) = lot k"
  by (simp add: js_number_string)

lemma sample_price_nonempty [simp]: "js_string (Fin 101) \<noteq> []"
proof
  assume "js_string (Fin 101) = []"
  then have "js_number [] = Fin 101" using number_string_numeral[of "num.Bit1 (num.Bit0 (num.Bit1 (num.Bit0 (num.Bit0 (num.Bit1 num.One)))))"] by simp
  moreover have "js_number [] = Fin 0" by (simp add: js_number_def trim_def)
  ultimately show False by simp
qed

lemma sample_accepted:
  "checkOrder sample_payload sample_store = Inr (False, normalizeOrder sample_payload, sample_book)"
  by (simp add: checkOrder_def bookAt_def sample_payload_def sample_store_def getUserById_def new_user_def
      getUserMarketPosition_def riskCheck_def normalizeOrder_def entryPrice_def sample_book_def lot_def)

end
