(* ===== verification/MatchingProperties.thy ===== *)
theory MatchingProperties
  imports Samples
begin

text \<open>
  The properties of the matching loop: price-time priority against the specification, conservation,
  the limit, the report, the remainder, and the bound on a partial fill.
\<close>

text \<open>
  C1. Price-time priority. On a book of whole quantities a match fills the orders waiting on the
  other side, best price first and first come first, up to its quantity and its limit, and leaves
  that side as the specification leaves it. The book the specification sees is the side sorted by
  price (\<open>spec_book\<close>), whatever the functions that look for the best price return.
\<close>

theorem match_is_price_time:
  assumes "lots_store N T s" "map_of (orderbooks s) (n_marketId ord) = Some ob"
    and "lots_order_fits rt N T n ord takerId s clock"
    and "abs_match (accepts (n_positionType ord) ord) n
           (spec_book (n_positionType ord) (taken_side (n_positionType ord) ob)) = (fills, left, levels)"
  shows "\<exists>ord' res v' b. matchOrder rt ord userKey takerId
        \<lparr>v_book = ob, v_users = users s, v_uuids = uu, v_clock = clock\<rparr> = Return (ord', res) v'
    \<and> backend res = Some b \<and> map abs_fill (bm_fills b) = fills \<and> bm_filledQty b = lot (n - left)
    \<and> spec_book (n_positionType ord) (taken_side (n_positionType ord) (v_book v')) = levels"
  by (rule match_lots[OF assms(1-3) refl refl assms(4), where uk = userKey and uu = uu])
    (auto simp: matchResponse_def)

theorem match_is_price_time_witness:
  "\<exists>ord' res v' b. matchOrder sample_rt sample_taker ''alice'' ''alice'' sample_venue = Return (ord', res) v'
    \<and> backend res = Some b \<and> map abs_fill (bm_fills b) = [(Fin 100, ''a1'', 5)] \<and> bm_filledQty b = lot 5
    \<and> spec_book LONG (asks (v_book v')) = []"
  using match_is_price_time[of 5 0 sample_store sample_taker sample_book sample_rt 7 "''alice''" 0
      "[(Fin 100, ''a1'', 5)]" 2 "[]" "''alice''" 0]
  by (simp add: sample_lots sample_fits sample_abs sample_book_found sample_venue_def accepts_def)

text \<open>
  C2. Nothing is lost and nothing better is left. What a match of whole quantities fills and what
  it leaves add up to the order; the side it took from has lost exactly that; and if some is left
  unfilled, no level of that side, of those at a finite price (for asks above minus one), is at a
  price within the limit of the order, unless a level is at the price zero, which ends the loop of
  the code.
\<close>

theorem match_conserves:
  assumes "lots_store N T s" "map_of (orderbooks s) (n_marketId ord) = Some ob"
    and "lots_order_fits rt N T n ord takerId s clock" and "t = n_positionType ord"
  shows "\<exists>ord' res v' b. matchOrder rt ord userKey takerId
        \<lparr>v_book = ob, v_users = users s, v_uuids = uu, v_clock = clock\<rparr> = Return (ord', res) v'
    \<and> backend res = Some b
    \<and> bm_filledQty b = lot (fill_lots (map abs_fill (bm_fills b)))
    \<and> fill_lots (map abs_fill (bm_fills b)) \<le> n
    \<and> side_lots (spec_book t (taken_side t ob)) =
        fill_lots (map abs_fill (bm_fills b)) + side_lots (spec_book t (taken_side t (v_book v')))
    \<and> (fill_lots (map abs_fill (bm_fills b)) < n \<and> (\<forall>(k, l) \<in> set (taken_side t (v_book v')). js_number k \<noteq> 0) \<longrightarrow>
        (\<forall>(k, l) \<in> set (taken_side t (v_book v')).
           quoted t (js_number k) \<longrightarrow> \<not> reaches t (js_number k) (n_price ord)))"
proof -
  obtain fills left levels where
    spec: "abs_match (accepts t ord) n (spec_book t (taken_side t ob)) = (fills, left, levels)"
    by (metis prod_cases3)
  note law = abs_match_lots[OF spec]
  have unc: "fill_lots fills < n \<longrightarrow> levels = [] \<or> \<not> accepts t ord (fst (hd levels))"
    using law abs_match_uncrossed[OF spec] by auto
  show ?thesis
    by (rule match_lots[OF assms refl spec, where uk = userKey and uu = uu])
      (use law unc spec_book_uncrossed in \<open>fastforce simp: matchResponse_def\<close>)
qed

theorem match_conserves_witness:
  "\<exists>ord' res v' b. matchOrder sample_rt sample_taker ''alice'' ''alice'' sample_venue = Return (ord', res) v'
    \<and> backend res = Some b \<and> side_lots (spec_book LONG (asks sample_book)) = 5
    \<and> fill_lots (map abs_fill (bm_fills b)) + side_lots (spec_book LONG (asks (v_book v'))) = 5"
  using match_conserves[of 5 0 sample_store sample_taker sample_book sample_rt 7 "''alice''" 0 LONG "''alice''" 0]
  by (auto simp: sample_lots sample_fits sample_book_found sample_venue_def sample_abs side_lots_def)

text \<open>
  C3. The limit and the order of the fills, for any quantities and any book: every fill is at a
  price the order accepts (at or better than its limit), the prices never improve from one fill to
  the next, and the last traded price of the market is the price of the last fill.
\<close>

theorem fills_within_limit_best_first:
  assumes "matchOrder rt ord userKey takerId v = Return (ord', res) v'" "backend res = Some b"
  shows "(\<forall>f \<in> set (bm_fills b). reaches (n_positionType ord) (f_price f) (n_price ord))
    \<and> best_first (n_positionType ord) (bm_fills b)
    \<and> lastTradedPrice (v_book v') =
        (if bm_fills b = [] then lastTradedPrice (v_book v) else f_price (last (bm_fills b)))"
proof (rule matchOrder_Return[OF assms(1)])
  let ?t = "n_positionType ord"
  fix s own ck st
  assume loop: "matchLoop rt ?t ord takerId (next_best ?t (taken_side ?t (v_book v)) (scan_start ?t))
      (startMatch ?t ord v) = Return () s"
    and res: "res = matchResponse ord st s"
    and v': "v' = v\<lparr>v_book := put_taken (opposite ?t) own
         ((put_taken ?t (ms_side s) (v_book v))\<lparr>lastTradedPrice := ms_lastTraded s\<rparr>),
       v_users := settleTaker ord userKey s, v_uuids := ms_uuids s, v_clock := ck\<rparr>"
  have b: "bm_fills b = ms_fills s" using assms(2) res by (auto simp: matchResponse_def)
  show ?thesis using match_ledger[OF loop] v' b
    by (auto simp: ledger_def accepts_def put_taken_last startMatch_def)
qed

theorem fills_within_limit_best_first_witness:
  "\<exists>ord' res v' b. matchOrder sample_rt sample_taker ''alice'' ''alice'' sample_venue = Return (ord', res) v'
    \<and> backend res = Some b \<and> (\<forall>f \<in> set (bm_fills b). f_price f \<le> Fin 101) \<and> best_first LONG (bm_fills b)"
proof -
  obtain ms st v' where
    m: "matchOrder sample_rt sample_taker ''alice'' ''alice'' sample_venue =
      Return (sample_taker\<lparr>n_status := st\<rparr>, matchResponse sample_taker st ms) v'"
    using sample_match by blast
  from fills_within_limit_best_first[OF m] show ?thesis by (simp add: m matchResponse_def)
qed

text \<open>
  C5. The report of a match. The filled quantity and the total price reported are the sums, in the
  order of the fills, of what the fills say; each fill has the next id drawn, names the taker and its
  order; and the rows for the writer are the fills and one update per maker order, in that order,
  followed by the taker's with the status and the filled quantity of the reply.
\<close>

theorem match_report_adds_up:
  assumes "matchOrder rt ord userKey takerId v = Return (ord', res) v'" "backend res = Some b"
  shows "bm_filledQty b = foldl (+) 0 (map f_qty (bm_fills b))
    \<and> bm_totalPrice b = foldl (+) 0 (map (\<lambda>f. f_price f * f_qty f) (bm_fills b))
    \<and> map f_id (bm_fills b) = map (uuid_of rt) [v_uuids v ..< v_uuids v']
    \<and> (\<forall>f \<in> set (bm_fills b). f_takerId f = takerId \<and> f_takerOrderId f = n_id ord)
    \<and> (\<exists>makers. writer res = [FillsEntry (map stringifyFill (bm_fills b)),
          OrderUpdatesEntry (makers @ [\<lparr>w_orderId = n_id ord, w_userId = n_userId ord, w_status = bm_status b,
            w_filledQty = bm_filledQty b\<rparr>])]
        \<and> map w_orderId makers = map f_makerOrderId (bm_fills b)
        \<and> map w_userId makers = map f_makerId (bm_fills b))"
proof (rule matchOrder_Return[OF assms(1)])
  let ?t = "n_positionType ord"
  fix s own ck st
  assume loop: "matchLoop rt ?t ord takerId (next_best ?t (taken_side ?t (v_book v)) (scan_start ?t))
      (startMatch ?t ord v) = Return () s"
    and res: "res = matchResponse ord st s"
    and v': "v' = v\<lparr>v_book := put_taken (opposite ?t) own
         ((put_taken ?t (ms_side s) (v_book v))\<lparr>lastTradedPrice := ms_lastTraded s\<rparr>),
       v_users := settleTaker ord userKey s, v_uuids := ms_uuids s, v_clock := ck\<rparr>"
  show ?thesis using match_ledger[OF loop] v' res assms(2)
    by (auto simp: ledger_def matchResponse_def startMatch_def)
qed

theorem match_report_adds_up_witness:
  "\<exists>ord' res v' b. matchOrder sample_rt sample_taker ''alice'' ''alice'' sample_venue = Return (ord', res) v'
    \<and> backend res = Some b \<and> bm_filledQty b = foldl (+) 0 (map f_qty (bm_fills b))
    \<and> map f_id (bm_fills b) = map digits_of [0 ..< v_uuids v']"
proof -
  obtain ms st v' where
    m: "matchOrder sample_rt sample_taker ''alice'' ''alice'' sample_venue =
      Return (sample_taker\<lparr>n_status := st\<rparr>, matchResponse sample_taker st ms) v'"
    using sample_match by blast
  from match_report_adds_up[OF m] show ?thesis
    by (simp add: m matchResponse_def) (simp add: sample_rt_def sample_venue_def)
qed

text \<open>
  C6. The remainder. An order of whole quantities that is not filled completely rests, when it is a
  limit order, as the last of its price level on its own side with exactly what is left; when it is a
  market order its own side is untouched and it is reported cancelled. A completely filled order is
  reported filled and leaves its own side untouched.
\<close>

theorem remainder_rests_or_is_cancelled:
  assumes "lots_store N T s" "map_of (orderbooks s) (n_marketId ord) = Some ob"
    and "lots_order_fits rt N T n ord takerId s clock" and "t = n_positionType ord" "0 < n"
  shows "\<exists>ord' res v' b. matchOrder rt ord userKey takerId
        \<lparr>v_book = ob, v_users = users s, v_uuids = uu, v_clock = clock\<rparr> = Return (ord', res) v'
    \<and> backend res = Some b
    \<and> (let filled = fill_lots (map abs_fill (bm_fills b));
           before = taken_side (opposite t) ob; after = taken_side (opposite t) (v_book v')
       in if filled = n then bm_status b = Filled \<and> after = before
          else if n_orderType ord = Market then bm_status b = Cancelled \<and> after = before
          else \<exists>level r. map_of after (js_string (n_price ord)) = Some level
            \<and> openOrders level = (case map_of before (js_string (n_price ord)) of
                None \<Rightarrow> [] | Some l \<Rightarrow> openOrders l) @ [r]
            \<and> o_orderId r = n_id ord \<and> o_userId r = takerId \<and> rest_lots r = n - filled)"
proof -
  obtain fills left levels where
    spec: "abs_match (accepts t ord) n (spec_book t (taken_side t ob)) = (fills, left, levels)"
    by (metis prod_cases3)
  have law: "fill_lots fills + left = n" using abs_match_lots[OF spec] by simp
  let ?v = "\<lparr>v_book = ob, v_users = users s, v_uuids = uu, v_clock = clock\<rparr>"
  let ?own = "taken_side (opposite t) ob"
  show ?thesis
  proof (rule match_lots[OF assms(1-4) refl spec, where uk = userKey and uu = uu])
    fix ms own ck st
    assume m: "matchOrder rt ord userKey takerId ?v = Return (ord\<lparr>n_status := st\<rparr>, matchResponse ord st ms)
       (?v\<lparr>v_book := (put_taken (opposite t) own (put_taken t (ms_side ms) ob))\<lparr>lastTradedPrice := ms_lastTraded ms\<rparr>,
         v_users := settleTaker ord userKey ms, v_uuids := ms_uuids ms, v_clock := ck\<rparr>)"
      and rest: "restRemainder rt t ord takerId clock ?own ms = (own, ck, st)"
      and f: "map abs_fill (ms_fills ms) = fills" "ms_remaining ms = lot left" "ms_filled ms = lot (n - left)"
        "left \<le> n"
      and led: "ledger rt t ord takerId (startMatch t ord ?v) ms" and st: "lots_status ms"
    have filled: "fill_lots (map abs_fill (ms_fills ms)) = n - left" using f(1) law by simp
    have n: "n_qty ord = lot n" using assms(3) by (simp add: lots_order_fits_def)
    have "left = 0 \<Longrightarrow> st = Filled \<and> own = ?own"
      using rest f(2) st led n assms(5) by (auto simp: restRemainder_def lots_status_def ledger_def lot_0 startMatch_def lot_def)
    moreover have "0 < left \<Longrightarrow> n_orderType ord = Market \<Longrightarrow> st = Cancelled \<and> own = ?own"
      using rest f(2) by (auto simp: restRemainder_def)
    moreover have "0 < left \<Longrightarrow> n_orderType ord = Limit \<Longrightarrow>
        own = addOpenOrder (js_string (n_price ord)) (n_qty ord - ms_filled ms)
          (newOpenOrder ord takerId (date_now rt clock) ms) ?own"
      using rest f(2) by (auto simp: restRemainder_def)
    moreover have "rest_lots (newOpenOrder ord takerId (date_now rt clock) ms) = left"
      using n f(3,4) by (simp add: newOpenOrder_def rest_lots_def)
    ultimately show ?thesis using m filled law
      by (cases "left = 0"; cases "n_orderType ord")
        (auto simp: matchResponse_def Let_def addOpenOrder_def newOpenOrder_def update_conv' split: option.split)
  qed
qed

theorem remainder_rests_or_is_cancelled_witness:
  "\<exists>ord' res v' level. matchOrder sample_rt sample_taker ''alice'' ''alice'' sample_venue = Return (ord', res) v'
    \<and> map_of (bids (v_book v')) (js_string (Fin 101)) = Some level
    \<and> map rest_lots (openOrders level) = [2] \<and> map o_orderId (openOrders level) = [''t1'']"
proof -
  obtain ms st v' where m: "matchOrder sample_rt sample_taker ''alice'' ''alice'' sample_venue =
      Return (sample_taker\<lparr>n_status := st\<rparr>, matchResponse sample_taker st ms) v'"
    and f: "map abs_fill (ms_fills ms) = [(Fin 100, ''a1'', 5)]" using sample_match by metis
  have "map_of (orderbooks sample_store) (n_marketId sample_taker) = Some sample_book" by (simp add: sample_book_found)
  from remainder_rests_or_is_cancelled[OF sample_lots this sample_fits, of LONG "''alice''" 0] m f
  show ?thesis by (auto simp: sample_venue_def matchResponse_def Let_def sample_book_def fill_lots_def)
qed

text \<open>
  No order is overfilled by a taker. With arbitrary finite doubles as quantities, rounding
  included, a match leaves every order on the side it took from with a filled quantity between zero
  and its size.
\<close>

theorem partial_fill_within_order:
  assumes "wf_store amount_level size_ok s" "map_of (orderbooks s) (n_marketId ord) = Some ob"
    and "amount (n_qty ord)" "takerId \<in> user_ids (users s)" "t = n_positionType ord"
  shows "\<exists>ms. matchLoop rt t ord takerId (next_best t (taken_side t ob) (scan_start t))
        (startMatch t ord \<lparr>v_book = ob, v_users = users s, v_uuids = uu, v_clock = clock\<rparr>) = Return () ms
    \<and> (\<forall>(k, l) \<in> set (ms_side ms). \<forall>r \<in> set (openOrders l).
          0 \<le> o_filledQty r \<and> o_filledQty r \<le> o_qty r \<and> o_qty r < PInf)"
proof -
  let ?v = "\<lparr>v_book = ob, v_users = users s, v_uuids = uu, v_clock = clock\<rparr>"
  let ?best = "next_best t (taken_side t ob) (scan_start t)" and ?m = "n_marketId ord" and ?ids = "user_ids (users s)"
  have "amounts.wf_outer t ?m ?ids None (startMatch t ord ?v)"
    using wf_book_taken[OF wf_store_book[OF assms(1,2)], of t] assms(1,3)
    by (simp add: amounts.wf_outer_def startMatch_def amount_left_def wf_store_def)
  then have out: "amounts.wf_outer t ?m ?ids ?best (startMatch t ord ?v)"
    using amounts.wf_best[of t ?m ?ids "startMatch t ord ?v"] by (simp add: startMatch_def)
  obtain ms where ms: "matchLoop rt t ord takerId ?best (startMatch t ord ?v) = Return () ms"
    using amounts.run.loop_returns[OF out, of rt ord takerId] by (auto simp: is_return_iff)
  obtain best' where "amounts.wf_outer t ?m ?ids best' ms" using amounts.run.loop_invariant[OF out ms] by blast
  then have "\<forall>(k, l) \<in> set (ms_side ms). amount_level True l" by (auto simp: amounts.wf_outer_def wf_side_def)
  then show ?thesis using ms by (fastforce simp: amount_level_def amount_def)
qed

theorem partial_fill_within_order_witness:
  "\<exists>ms. matchLoop sample_rt LONG sample_taker ''alice''
      (next_best LONG (asks sample_book) ask_start) (startMatch LONG sample_taker sample_venue) = Return () ms
    \<and> (\<forall>(k, l) \<in> set (ms_side ms). \<forall>r \<in> set (openOrders l). o_filledQty r \<le> o_qty r)"
proof -
  have "wf_store amount_level size_ok sample_store"
    by (simp add: wf_store_def wf_users_def wf_book_def wf_side_def canonical_def wf_level_def amount_def
        wf_resting_def amount_level_def sample_store_def sample_book_def sample_level_def sample_ask_def user_ids_def)
      (simp add: lot_def)
  from partial_fill_within_order[OF this, of sample_taker sample_book "''alice''" LONG sample_rt 0 0]
  show ?thesis by (fastforce simp: sample_book_found sample_venue_def amount_def lot_def sample_store_def user_ids_def)
qed

text \<open>
  Time priority, for any quantities: at a price level whose orders stand in the order of their
  dates, the fills of a match take the orders from the front, one after the other, and what stays on
  the level is the rest of the queue, the last order filled still first in it if it was only partly
  filled.
\<close>

theorem level_is_first_come_first_served:
  assumes "matchLevel rt ord takerId b (level, attached, s) = Return u (level', attached', s')"
    and "sorted (map o_createdAt (openOrders level))"
  shows "\<exists>n. map f_makerOrderId (ms_fills s') =
        map f_makerOrderId (ms_fills s) @ take n (map o_orderId (openOrders level))
    \<and> (map o_orderId (openOrders level') = drop n (map o_orderId (openOrders level))
       \<or> 0 < n \<and> map o_orderId (openOrders level') = drop (n - 1) (map o_orderId (openOrders level)))"
  using assms
proof (induction "length (openOrders level)" arbitrary: level attached s rule: less_induct)
  case less
  show ?case
  proof (cases "openOrders level")
    case Nil
    then show ?thesis using less.prems(1) by (auto simp: matchLevel.simps)
  next
    case (Cons r rs)
    have g: "getFirstCreatedOrder (openOrders level) = Some (0, r)"
      using getFirstCreatedOrder_sorted[of r rs] less.prems(2) Cons by simp
    obtain brk l1 a1 s1 where f: "fillResting rt ord takerId b 0 r (level, attached, s) = Return brk (l1, a1, s1)"
      using less.prems(1) g by (auto simp: matchLevel.simps[of _ _ _ _ level] split: outcome.splits)
    obtain q rem st rst maker where
      sp: "fill_split (o_qty r - o_filledQty r) (ms_remaining s) = (q, rem, st, rst, brk)" and
      l1: "l1 = \<lparr>availableQty = availableQty level - q,
         openOrders = (if rst = PartiallyFilled then (openOrders level)[0 := leftOrder r q]
                       else splice1 0 (openOrders level))\<rparr>" and
      s1: "s1 = s\<lparr>ms_lastTraded := b, ms_uuids := ms_uuids s + 1, ms_remaining := rem,
         ms_filled := ms_filled s + q, ms_total := ms_total s + b * q, ms_status := st,
         ms_fills := ms_fills s @ [fillOf rt ord takerId b r (ms_uuids s) q],
         ms_users := setUser (o_userId r) (createPosition maker (makerPayload r b q) b) (ms_users s),
         ms_updates := ms_updates s @ [updateOf r q rst]\<rparr>"
      by (rule fillResting_Return[OF f]) blast
    have first: "map f_makerOrderId (ms_fills s1) = map f_makerOrderId (ms_fills s) @ [o_orderId r]"
      using s1 by (simp add: fillOf_def)
    show ?thesis
    proof (cases brk)
      case True
      then have "level' = l1" "s' = s1" using less.prems(1) g f by (auto simp: matchLevel.simps[of _ _ _ _ level])
      then show ?thesis using first l1 Cons
        by (intro exI[of _ 1]) (auto simp: splice1_def leftOrder_def)
    next
      case False
      have l1': "openOrders l1 = rs" using fill_split_continue[of _ _ q rem st rst] sp False l1 Cons
        by (auto simp: splice1_def)
      have m: "matchLevel rt ord takerId b (l1, a1, s1) = Return u (level', attached', s')"
        using less.prems(1) g f False by (simp add: matchLevel.simps[of _ _ _ _ level])
      obtain n where n: "map f_makerOrderId (ms_fills s') = map f_makerOrderId (ms_fills s1) @ take n (map o_orderId rs)"
        "map o_orderId (openOrders level') = drop n (map o_orderId rs)
          \<or> 0 < n \<and> map o_orderId (openOrders level') = drop (n - 1) (map o_orderId rs)"
        using less.hyps[OF _ m] l1' less.prems(2) Cons by auto
      show ?thesis using n first Cons
        by (intro exI[of _ "Suc n"]) (auto simp: drop_Cons' split: if_splits)
    qed
  qed
qed

end
