(* ===== verification/OrderProperties.thy ===== *)
theory OrderProperties
  imports MatchingProperties
begin

text \<open>
  The properties of placing and cancelling an order: which stores they keep, what a refused request
  leaves behind, and what a cancellation releases.
\<close>

text \<open>
  C7. Books of whole quantities stay books of whole quantities when an order for a whole number of
  lots is placed: every level keeps \<open>availableQty\<close> equal to what its orders have left, no level is
  empty, no resting order is filled, the levels stay in order of arrival, and one account has at
  most one position of a positive size per market.
\<close>

theorem placing_keeps_lots:
  assumes "lots_store N T (store e)" "js_number (r_qty payload) = lot n" "N + n \<le> 2 ^ 53"
    and "T \<le> date_now rt (clock_reads e)"
  shows "lots_store (N + n) (date_now rt (clock_reads e)) (store (outcome_state (placeOrder rt payload skip e)))"
proof -
  have "lots_left N n T (date_now rt (clock_reads e)) (lot n) (lot 0)"
    using assms(3,4) by (auto simp: lots_left_def)
  moreover have "\<And>reducing ord ob. checkOrder payload (store e) = Inr (reducing, ord, ob) \<Longrightarrow> n_qty ord = lot n"
    using assms(2) by (simp add: checkOrder_accepts(5))
  ultimately show ?thesis
    using lots.placeOrder_wf[of N n T "date_now rt (clock_reads e)" e rt payload skip] assms(1)
    by (simp add: lots_store_def lot_0)
qed

theorem placing_keeps_lots_witness:
  "lots_store 12 0 (store (outcome_state (placeOrder sample_rt sample_payload False sample_engine)))"
  using placing_keeps_lots[of 5 0 sample_engine sample_payload 7 sample_rt False]
  by (simp add: sample_lots sample_engine_def sample_payload_def sample_rt_def)

text \<open>A cancellation keeps them too.\<close>

theorem cancelling_keeps_lots:
  assumes "lots_store N T (store e)"
  shows "lots_store N T (store (outcome_state (cancelOrder rt order e)))"
  using lots.cancelOrder_wf[of N T e rt order] assms by (simp add: lots_store_def)

theorem cancelling_keeps_lots_witness:
  "lots_store 5 0 (store (outcome_state (cancelOrder sample_rt sample_cancel sample_engine)))"
  using cancelling_keeps_lots[of 5 0 sample_engine sample_rt sample_cancel]
  by (simp add: sample_lots sample_engine_def)

lemma matchOrder_no_Error: "matchOrder rt ord uk tk v \<noteq> Throw (Error msg) v'"
proof -
  have fill: "fillResting rt ord tk b i r ls \<noteq> Throw (Error msg) ls'" for rt ord tk b i r ls ls'
    by (cases ls) (auto simp: fillResting_def Let_def split: prod.split option.split)
  have level: "matchLevel rt ord tk b ls \<noteq> Throw (Error msg) ls'" for rt ord tk b ls ls'
  proof (induction rt ord tk b ls rule: matchLevel.induct)
    case (1 rt ord tk b level att s)
    then show ?case using fill
      by (subst matchLevel.simps) (auto split: option.split outcome.split)
  qed
  have "matchLoop rt t ord tk best s \<noteq> Throw (Error msg) s'" for rt t ord tk best s s'
  proof (induction rt t ord tk best s rule: matchLoop.induct)
    case (2 rt t ord tk b s)
    show ?case using 2 level[of rt ord tk b]
      by (subst matchLoop.simps(2)) (auto simp: Let_def split: option.split outcome.split)
  qed (simp add: matchLoop.simps)
  then show ?thesis by (auto simp: matchOrder_loop Let_def split: outcome.split prod.split)
qed

lemma publicPayload_no_Error:
  "map_of (orderbooks (store e)) m \<noteq> None \<Longrightarrow> publicPayload rt m fills e \<noteq> Throw (Error msg) e'"
proof -
  assume m: "map_of (orderbooks (store e)) m \<noteq> None"
  have b: "depth_bids k bs best \<noteq> Inl (Error msg)" for k bs best
    by (induction k bs best rule: depth_bids.induct) (auto split: option.split simp: map_sum_def split: sum.splits)
  have a: "depth_asks k as best \<noteq> Inl (Error msg)" for k as best
    by (induction k as best rule: depth_asks.induct) (auto split: option.split simp: map_sum_def split: sum.splits)
  have "getMarketDepth (store (bumpUpdateId e)) m now \<noteq> Inl (Error msg)" for now
    using m a b by (auto simp: getMarketDepth_def bumpUpdateId_def split: option.split sum.split)
  then show ?thesis
    by (auto simp: publicPayload_def Let_def split: sum.split option.split)
qed

lemma refused_order:
  assumes "placeOrder rt payload skip e = Throw (Error msg) e'"
  shows "e' = e \<and> checkOrder payload (store e) = Inl msg"
proof (cases "checkOrder payload (store e)")
  case (Inl m)
  then show ?thesis using assms by (simp add: placeOrder_def)
next
  case (Inr x)
  have "map_of (orderbooks (store (putVenue m v e0\<lparr>clock_reads := k\<rparr>))) m \<noteq> None" for m v e0 k
    by (simp add: putVenue_def update_conv')
  then show ?thesis using assms Inr matchOrder_no_Error publicPayload_no_Error
    by (auto simp: placeOrder_def placeInherited_def Let_def split: outcome.splits prod.splits if_splits)
qed

lemma accepted_order:
  assumes "store_ok (store e)" "checkOrder payload (store e) = Inr x" "\<not> inherited (r_marketId payload)"
  shows "\<exists>resp e'. placeOrder rt payload skip e = Return resp e'"
proof (cases "placeOrder rt payload skip e")
  case (Throw err e')
  then show ?thesis using assms refused_order[of rt payload skip e _ e'] placeOrder_ok(2)[OF assms(1), of rt payload skip e']
    by (cases err) auto
qed blast

text \<open>
  C8. A refused order changes nothing: when \<open>placeOrder\<close> throws one of its errors, the store, the
  collateral and the counters are what they were.
\<close>

theorem refused_order_changes_nothing:
  assumes "placeOrder rt payload skip e = Throw (Error msg) e'"
  shows "e' = e \<and> checkOrder payload (store e) = Inl msg"
  using refused_order[OF assms] .

definition sample_too_big :: SelectOrderRecord where
  "sample_too_big = sample_payload\<lparr>r_initialMargin := js_string (Fin 5000)\<rparr>"

theorem refused_order_changes_nothing_witness:
  "\<exists>msg e'. placeOrder sample_rt sample_too_big False sample_engine = Throw (Error msg) e' \<and> e' = sample_engine
    \<and> msg = ''User does not have available margin''"
proof -
  have "checkOrder sample_too_big (store sample_engine) = Inl ''User does not have available margin''"
    by (simp add: checkOrder_def bookAt_def sample_too_big_def sample_payload_def sample_engine_def sample_store_def
        getUserById_def new_user_def getUserMarketPosition_def riskCheck_def normalizeOrder_def)
  then have p: "placeOrder sample_rt sample_too_big False sample_engine =
      Throw (Error ''User does not have available margin'') sample_engine"
    by (simp add: placeOrder_def)
  from refused_order_changes_nothing[OF p] show ?thesis using p by blast
qed

lemma cancelOrder_Return:
  assumes "cancelOrder rt order e = Return resp e'"
  obtains ob user level i r where
    "map_of (orderbooks (store e)) (r_marketId order) = Some ob"
    "getUserById (users (store e)) (r_userId order) = Some user"
    "findResting order ob = Some (level, i, r)"
    "users (store e') = setUser (r_userId order) (releaseMargin (o_margin r) user) (users (store e))"
    "orderbooks (store e') = AList.update (r_marketId order) (put_resting (r_positionType order)
       (removeResting (r_price order) level i (o_qty r - o_filledQty r)
         (resting_side (r_positionType order) ob)) ob) (orderbooks (store e))"
    "cr_releasedMargin resp = o_margin r" "cr_cancelledQty resp = o_qty r - o_filledQty r"
proof -
  obtain ob user where ob: "map_of (orderbooks (store e)) (r_marketId order) = Some ob"
    and user: "getUserById (users (store e)) (r_userId order) = Some user"
    using assms by (auto simp: cancelOrder_def split: option.splits)
  obtain level i r where f: "findResting order ob = Some (level, i, r)"
    using assms ob user by (auto simp: cancelOrder_def split: option.splits)
  define e1 where "e1 = e\<lparr>store := (store e)
    \<lparr>users := setUser (r_userId order) (releaseMargin (o_margin r) user) (users (store e)),
     orderbooks := AList.update (r_marketId order) (put_resting (r_positionType order)
       (removeResting (r_price order) level i (o_qty r - o_filledQty r)
         (resting_side (r_positionType order) ob)) ob) (orderbooks (store e))\<rparr>\<rparr>"
  obtain ws e2 where pp: "publicPayload rt (r_marketId order) None e1 = Return ws e2"
    using assms by (auto simp: cancelOrder_def ob user f Let_def e1_def split: outcome.splits prod.splits)
  have same: "users (store e2) = users (store e1)" "orderbooks (store e2) = orderbooks (store e1)"
    using pp by (auto simp: publicPayload_def Let_def bumpUpdateId_def split: sum.splits option.splits)
  have "users (store e') = users (store e1)" "orderbooks (store e') = orderbooks (store e1)"
    "cr_releasedMargin resp = o_margin r" "cr_cancelledQty resp = o_qty r - o_filledQty r"
    using assms pp same by (auto simp: cancelOrder_def ob user f Let_def e1_def split: prod.splits)
  then show ?thesis using that[OF ob user f] by (simp add: e1_def)
qed

lemma splice1_Nil_iff: "i < length xs \<Longrightarrow> splice1 i xs = [] \<longleftrightarrow> length xs = 1"
  using length_splice1[of i xs] by (metis One_nat_def Suc_pred diff_Suc_1 length_0_conv length_greater_0_conv
      list.size(3) not_less_zero)

text \<open>
  C9. What a cancellation does. It finds the order on the side and at the price the request names; it
  moves exactly that order's margin from locked to available, on that account only and with its
  positions untouched; it takes the order off its level and exactly what was left of it off the
  level's quantity, dropping a level with nothing left; and the other side, the other price levels
  and the other markets are as before.
\<close>

theorem cancel_releases_exactly:
  assumes "cancelOrder rt order e = Return resp e'"
  shows "\<exists>ob user level i r user' ob'.
      map_of (orderbooks (store e)) (r_marketId order) = Some ob
    \<and> getUserById (users (store e)) (r_userId order) = Some user
    \<and> map_of (resting_side (r_positionType order) ob) (r_price order) = Some level
    \<and> i < length (openOrders level) \<and> openOrders level ! i = r \<and> o_orderId r = r_id order
    \<and> cr_releasedMargin resp = o_margin r \<and> cr_cancelledQty resp = o_qty r - o_filledQty r
    \<and> getUserById (users (store e')) (r_userId order) = Some user'
    \<and> available (u_collateral user') = available (u_collateral user) + o_margin r
    \<and> locked (u_collateral user') = locked (u_collateral user) - o_margin r
    \<and> u_positions user' = u_positions user
    \<and> (\<forall>k. k \<noteq> r_userId order \<longrightarrow> getUserById (users (store e')) k = getUserById (users (store e)) k)
    \<and> map_of (orderbooks (store e')) (r_marketId order) = Some ob'
    \<and> (\<forall>m. m \<noteq> r_marketId order \<longrightarrow> map_of (orderbooks (store e')) m = map_of (orderbooks (store e)) m)
    \<and> resting_side (opposite (r_positionType order)) ob' = resting_side (opposite (r_positionType order)) ob
    \<and> (\<forall>k. k \<noteq> r_price order \<longrightarrow> map_of (resting_side (r_positionType order) ob') k =
          map_of (resting_side (r_positionType order) ob) k)
    \<and> map_of (resting_side (r_positionType order) ob') (r_price order) =
        (if availableQty level - (o_qty r - o_filledQty r) \<le> 0 \<or> length (openOrders level) = 1 then None
         else Some \<lparr>availableQty = availableQty level - (o_qty r - o_filledQty r),
                    openOrders = splice1 i (openOrders level)\<rparr>)"
proof (rule cancelOrder_Return[OF assms])
  fix ob user level i r
  assume ob: "map_of (orderbooks (store e)) (r_marketId order) = Some ob"
    and user: "getUserById (users (store e)) (r_userId order) = Some user"
    and f: "findResting order ob = Some (level, i, r)"
    and e': "users (store e') = setUser (r_userId order) (releaseMargin (o_margin r) user) (users (store e))"
      "orderbooks (store e') = AList.update (r_marketId order) (put_resting (r_positionType order)
       (removeResting (r_price order) level i (o_qty r - o_filledQty r)
         (resting_side (r_positionType order) ob)) ob) (orderbooks (store e))"
      "cr_releasedMargin resp = o_margin r" "cr_cancelledQty resp = o_qty r - o_filledQty r"
  note found = findResting_Some[OF f] and ne = splice1_Nil_iff[OF findResting_Some(2)[OF f]]
  show ?thesis
    by (rule exI[of _ ob], rule exI[of _ user], rule exI[of _ level], rule exI[of _ i], rule exI[of _ r],
        rule exI[of _ "releaseMargin (o_margin r) user"],
        rule exI[of _ "put_resting (r_positionType order) (removeResting (r_price order) level i
          (o_qty r - o_filledQty r) (resting_side (r_positionType order) ob)) ob"])
      (use found ne ob user in \<open>auto simp: e' update_conv' releaseMargin_def removeResting_def Let_def
        resting_side_taken AList.delete_conv' restrict_map_def\<close>)
qed

lemma depth_None [simp]: "depth_bids k bs None = Inr []" "depth_asks k as None = Inr []"
  by (cases k; simp)+

lemma sample_cancelled:
  "\<exists>resp e'. cancelOrder sample_rt sample_cancel sample_engine = Return resp e'"
  by (simp add: cancelOrder_def sample_cancel_def sample_engine_def sample_store_def sample_book_def
      sample_level_def sample_ask_def findResting_def getUserById_def removeResting_def Let_def splice1_def
      publicPayload_def bumpUpdateId_def getMarketDepth_def getNextBestBidPrice_def getNextBestAskPrice_def
      userEventsForMatch_def split: prod.split)

theorem cancel_releases_exactly_witness:
  "\<exists>resp e'. cancelOrder sample_rt sample_cancel sample_engine = Return resp e'
    \<and> cr_releasedMargin resp = Fin 50 \<and> cr_cancelledQty resp = lot 5
    \<and> (\<exists>ob'. map_of (orderbooks (store e')) SOL_ID = Some ob' \<and> map_of (asks ob') (js_string (Fin 100)) = None)"
proof -
  obtain resp e' where c: "cancelOrder sample_rt sample_cancel sample_engine = Return resp e'"
    using sample_cancelled by blast
  have s: "r_marketId sample_cancel = SOL_ID" "r_userId sample_cancel = ''bob''" "r_positionType sample_cancel = SHORT"
    "r_price sample_cancel = js_string (Fin 100)" "map_of (orderbooks (store sample_engine)) SOL_ID = Some sample_book"
    "asks sample_book = [(js_string (Fin 100), sample_level)]" "openOrders sample_level = [sample_ask]"
    "availableQty sample_level = lot 5" "o_margin sample_ask = Fin 50" "o_qty sample_ask = lot 5"
    "o_filledQty sample_ask = lot 0"
    by (simp_all add: sample_cancel_def sample_engine_def sample_store_def sample_book_def sample_level_def sample_ask_def)
  from cancel_releases_exactly[OF c] show ?thesis by (auto simp: s c lot_diff)
qed

text \<open>
  Cancelling twice. When the ids of the orders on a level are distinct, a second cancellation of
  the same order is refused with "Order not found" and changes nothing.
\<close>

theorem second_cancel_is_refused:
  assumes "cancelOrder rt order e = Return resp e'"
    and "\<not> inherited (r_price order)"
    and "\<And>ob level. map_of (orderbooks (store e)) (r_marketId order) = Some ob \<Longrightarrow>
      map_of (resting_side (r_positionType order) ob) (r_price order) = Some level \<Longrightarrow>
      distinct (map o_orderId (openOrders level))"
  shows "cancelOrder rt' order e' = Throw (Error ''Order not found'') e'"
proof (rule cancelOrder_Return[OF assms(1)])
  fix ob user level i r
  assume ob: "map_of (orderbooks (store e)) (r_marketId order) = Some ob"
    and f: "findResting order ob = Some (level, i, r)"
    and e': "users (store e') = setUser (r_userId order) (releaseMargin (o_margin r) user) (users (store e))"
      "orderbooks (store e') = AList.update (r_marketId order) (put_resting (r_positionType order)
       (removeResting (r_price order) level i (o_qty r - o_filledQty r)
         (resting_side (r_positionType order) ob)) ob) (orderbooks (store e))"
  note found = findResting_Some[OF f]
  have d: "distinct (map o_orderId (openOrders level))" using assms(3)[OF ob found(1)] .
  have "r_id order \<notin> set (map o_orderId (splice1 i (openOrders level)))"
  proof -
    have "mset (map o_orderId (splice1 i (openOrders level))) =
        mset (map o_orderId (openOrders level)) - {# r_id order #}"
      using mset_splice1[of i "map o_orderId (openOrders level)"] found by (simp add: map_splice1)
    then have "count (mset (map o_orderId (splice1 i (openOrders level)))) (r_id order) = 0"
      using d by (simp add: distinct_count_atmost_1)
    then show ?thesis by (metis count_mset_0_iff)
  qed
  then have none: "find_index (\<lambda>o'. o_orderId o' = r_id order) (splice1 i (openOrders level)) = None"
    unfolding find_index_None by (metis image_eqI set_map)
  define ob' where "ob' = put_resting (r_positionType order) (removeResting (r_price order) level i
    (o_qty r - o_filledQty r) (resting_side (r_positionType order) ob)) ob"
  have "findResting order ob' = None"
    using none by (auto simp: findResting_def ob'_def resting_side_taken removeResting_def Let_def update_conv'
        AList.delete_conv' restrict_map_def)
  then show ?thesis using e' assms(2) by (auto simp: cancelOrder_def update_conv' ob'_def split: option.split)
qed

theorem second_cancel_is_refused_witness:
  "\<exists>resp e'. cancelOrder sample_rt sample_cancel sample_engine = Return resp e'
    \<and> cancelOrder sample_rt sample_cancel e' = Throw (Error ''Order not found'') e'"
proof -
  obtain resp e' where c: "cancelOrder sample_rt sample_cancel sample_engine = Return resp e'"
    using sample_cancelled by blast
  have "\<not> inherited (r_price sample_cancel)"
    using inherited_NaN[of "js_string (Fin 100)"] by (auto simp: sample_cancel_def)
  then have "cancelOrder sample_rt sample_cancel e' = Throw (Error ''Order not found'') e'"
    by (rule second_cancel_is_refused[OF c])
      (auto simp: sample_cancel_def sample_engine_def sample_store_def sample_book_def sample_level_def split: if_splits)
  then show ?thesis using c by blast
qed

text \<open>
  C10. Locking. An order that is accepted and needs margin was covered: locking it leaves the account
  with a non-negative available balance, smaller by the margin, and the leverage of the order is
  within the market's cap.
\<close>

theorem accepted_order_is_covered:
  assumes "checkOrder payload s = Inr (reducing, ord, ob)" "\<not> reducing" "0 < n_initialMargin ord"
    and "getUserById (users s) (r_userId payload) = Some user" "amount (available (u_collateral user))"
  shows "\<exists>user'. getUserById (lockedUsers reducing ord (r_userId payload) (users s)) (r_userId payload) = Some user'
    \<and> available (u_collateral user') = available (u_collateral user) - n_initialMargin ord
    \<and> 0 \<le> available (u_collateral user') \<and> available (u_collateral user') \<le> available (u_collateral user)
    \<and> locked (u_collateral user') = locked (u_collateral user) + n_initialMargin ord
    \<and> \<not> allowedLeverage ob < n_price ord * n_qty ord / n_initialMargin ord"
proof -
  define M where "M = n_initialMargin ord"
  have dm: "is_double M" using checkOrder_accepts(11)[OF assms(1)] assms(2) by (simp add: M_def)
  have le: "\<not> available (u_collateral user) < M" and lev: "\<not> allowedLeverage ob < n_price ord * n_qty ord / M"
    using assms by (auto simp: M_def checkOrder_def Let_def split: option.splits sum.splits if_splits)
  have pos: "0 < M" using assms(3) by (simp add: M_def)
  obtain x where x: "available (u_collateral user) = Fin x" "x < 2 ^ 1024" using assms(5) by (auto simp: amount_Fin)
  have M: "M \<le> available (u_collateral user)" "amount M"
    using le pos dm x by (cases M; simp add: amount_def)+
  have "amount (available (u_collateral user) - M)" "available (u_collateral user) - M \<le> available (u_collateral user)"
    using amount_diff(1,2)[OF assms(5) M(2,1)] by auto
  then show ?thesis using assms(2,4) pos lev by (simp add: lockedUsers_def lockMargin_def amount_def M_def)
qed

theorem accepted_order_is_covered_witness:
  "\<exists>ord ob user'. checkOrder sample_payload sample_store = Inr (False, ord, ob)
    \<and> getUserById (lockedUsers False ord ''alice'' (users sample_store)) ''alice'' = Some user'
    \<and> 0 \<le> available (u_collateral user')"
proof -
  have u: "getUserById (users sample_store) ''alice'' = Some (new_user ''alice'' (Fin 1000))"
    by (simp add: getUserById_def sample_store_def)
  have "n_initialMargin (normalizeOrder sample_payload) = Fin 101" "r_userId sample_payload = ''alice''"
    by (simp_all add: normalizeOrder_def sample_payload_def)
  then show ?thesis using accepted_order_is_covered[OF sample_accepted] u sample_accepted
    by (fastforce simp: new_user_def amount_def)
qed

text \<open>
  Risk reduction. An order accepted without margin meets a position on the other side, and
  however it is filled in full, the position that is left is no larger than the one that was there.
\<close>

theorem risk_reducing_never_grows:
  assumes "riskCheck order (Some p) = Inr True" "amount (p_qty p)" "amount (n_qty order)"
  shows "p_type p \<noteq> n_positionType order \<and> \<bar>p_qty p - n_qty order\<bar> \<le> p_qty p"
proof -
  obtain a b where ab: "p_qty p = Fin a" "n_qty order = Fin b" "0 \<le> a" "0 \<le> b"
    using assms(2,3) by (auto simp: amount_Fin)
  have t: "p_type p \<noteq> n_positionType order" "\<not> Fin a < js (b - a)"
    using assms(1) ab by (cases "js (b - a)"; auto simp: riskCheck_def split: if_splits)+
  have "\<bar>js (a - b)\<bar> \<le> Fin a"
  proof (cases "b \<le> a")
    case True
    then show ?thesis using amount_diff(1,2)[OF assms(2,3)] ab
      by (cases "js (a - b)") (auto simp: amount_def abs_jsnum_def less_jsnum_def)
  next
    case False
    then have "amount (js (b - a))" using amount_diff(1)[OF assms(3,2)] ab by simp
    moreover have "js (a - b) = - js (b - a)" using js_minus[of "b - a"] by simp
    ultimately show ?thesis using t(2) by (cases "js (b - a)") (auto simp: amount_def)
  qed
  then show ?thesis using t ab by simp
qed

theorem risk_reducing_never_grows_witness:
  "\<exists>p :: TPosition. p_type p = SHORT \<and> \<bar>p_qty p - n_qty (sample_taker\<lparr>n_initialMargin := 0\<rparr>)\<bar> \<le> p_qty p"
proof -
  let ?p = "\<lparr>p_marketId = SOL_ID, p_type = SHORT, p_qty = lot 10, p_margin = 0, p_liquidationPrice = 0,
    p_pnL = None, p_averagePrice = 0\<rparr>"
  have "riskCheck (sample_taker\<lparr>n_initialMargin := 0\<rparr>) (Some ?p) = Inr True"
    using js_of_int[of "- 3"] by (simp add: riskCheck_def lot_def)
  then have r: "p_type ?p \<noteq> n_positionType (sample_taker\<lparr>n_initialMargin := 0\<rparr>) \<and>
      \<bar>p_qty ?p - n_qty (sample_taker\<lparr>n_initialMargin := 0\<rparr>)\<bar> \<le> p_qty ?p"
    by (rule risk_reducing_never_grows) (auto simp: amount_def lot_def)
  show ?thesis by (rule exI[of _ ?p]) (use r in simp)
qed

end
