(* ===== verification/DepthProperties.thy ===== *)
theory DepthProperties
  imports OrderProperties
begin

text \<open>
  The public depth snapshot: its rows are the best live levels of the two sides, in order, and
  nothing else. Both loops of \<open>getMarketDepth\<close> walk the price levels of a side.
\<close>

lemma price_levels_cases:
  "price_levels t sd None = []"
  "price_levels t sd (Some b) =
     (case map_of sd (js_string b) of None \<Rightarrow> [] | Some l \<Rightarrow> (b, l) # price_levels t sd (next_best t sd b))"
  by (simp_all add: price_levels.simps)

lemma price_levels_beyond:
  "(p, l) \<in> set (price_levels t sd best) \<Longrightarrow> (\<And>b. best = Some b \<Longrightarrow> P b \<and> is_double b) \<Longrightarrow>
     (\<And>b c. P b \<Longrightarrow> beyond t b c \<Longrightarrow> P c) \<Longrightarrow> P p \<and> is_double p \<and> map_of sd (js_string p) = Some l"
proof (induction "keys_beyond t best sd" arbitrary: best rule: less_induct)
  case less
  obtain b l0 where b: "best = Some b" "map_of sd (js_string b) = Some l0"
    using less.prems(1) by (cases best; cases "map_of sd (js_string (the best))") (auto simp: price_levels_cases)
  then consider "(p, l) = (b, l0)" | "(p, l) \<in> set (price_levels t sd (next_best t sd b))"
    using less.prems(1) by (auto simp: price_levels_cases)
  then show ?case
  proof cases
    case 1
    then show ?thesis using b less.prems(2) by auto
  next
    case 2
    have "keys_beyond t (next_best t sd b) sd < keys_beyond t best sd"
      unfolding b(1) by (rule keys_beyond_next) simp
    from less.hyps[OF this 2] show ?thesis
      using next_best_beyond[of t sd b] less.prems(2,3) b(1) by blast
  qed
qed

lemma price_levels_sorted:
  "(\<And>b. best = Some b \<Longrightarrow> is_double b) \<Longrightarrow>
     sorted_wrt (\<lambda>x y. beyond t (fst x) (fst y)) (price_levels t sd best)"
proof (induction "keys_beyond t best sd" arbitrary: best rule: less_induct)
  case less
  show ?case
  proof (cases best)
    case (Some b)
    have k: "keys_beyond t (next_best t sd b) sd < keys_beyond t best sd"
      unfolding Some by (rule keys_beyond_next) simp
    have "beyond t b p" if "(p, l) \<in> set (price_levels t sd (next_best t sd b))" for p l
      using price_levels_beyond[OF that, of "beyond t b"] next_best_beyond beyond_trans by blast
    moreover have "sorted_wrt (\<lambda>x y. beyond t (fst x) (fst y)) (price_levels t sd (next_best t sd b))"
      using less.hyps[OF k] next_best_beyond by blast
    ultimately show ?thesis using Some by (auto simp: price_levels_cases split: option.split)
  qed (simp add: price_levels.simps)
qed

text \<open>Every live level of a canonical side is among its price levels.\<close>

lemma price_levels_complete:
  assumes "canonical sd" "e \<in> set sd" "live t p e"
  shows "(js_number (fst e), snd e) \<in> set (price_levels t sd (next_best t sd p))"
  using assms(3)
proof (induction "keys_beyond t (next_best t sd p) sd" arbitrary: p rule: less_induct)
  case less
  obtain b where b: "next_best t sd p = Some b" using next_best_None[OF _ assms(2)] less.prems by (metis not_None_eq)
  obtain l0 where l0: "map_of sd (js_string b) = Some l0" using best_found[OF assms(1) b] by blast
  have pl: "price_levels t sd (next_best t sd p) = (b, l0) # price_levels t sd (next_best t sd b)"
    using b l0 by (simp add: price_levels_cases)
  show ?case
  proof (cases "js_number (fst e) = b")
    case True
    then have "map_of sd (js_string b) = Some (snd e)" using canonical_lookup[OF assms(1), of "fst e" "snd e"] assms(2) by simp
    then show ?thesis using pl l0 True by simp
  next
    case False
    then have "live t b e" using next_best_Some(2)[OF b assms(2) less.prems] live_iff less.prems by metis
    moreover have "keys_beyond t (next_best t sd b) sd < keys_beyond t (next_best t sd p) sd"
      unfolding b by (rule keys_beyond_next) simp
    ultimately show ?thesis using less.hyps pl by simp
  qed
qed

lemma price_levels_live:
  "canonical sd \<Longrightarrow> (p, l) \<in> set (price_levels t sd (next_best t sd q)) \<Longrightarrow> 0 < availableQty l"
proof (induction "keys_beyond t (next_best t sd q) sd" arbitrary: q rule: less_induct)
  case less
  obtain b where b: "next_best t sd q = Some b"
    using less.prems(2) by (cases "next_best t sd q") (auto simp: price_levels_cases)
  obtain l0 where l0: "map_of sd (js_string b) = Some l0" using best_found[OF less.prems(1) b] by blast
  obtain e where e: "e \<in> set sd" "live t q e" "js_number (fst e) = b" using next_best_Some(1)[OF b] by blast
  then have "snd e = l0" using canonical_lookup[OF less.prems(1), of "fst e" "snd e"] l0 by simp
  then have "0 < availableQty l0" using e by (cases t) (auto simp: live_ask_def live_bid_def)
  moreover have "keys_beyond t (next_best t sd b) sd < keys_beyond t (next_best t sd q) sd"
    unfolding b by (rule keys_beyond_next) simp
  moreover have "price_levels t sd (next_best t sd q) = (b, l0) # price_levels t sd (next_best t sd b)"
    using b l0 by (simp add: price_levels_cases)
  ultimately show ?case using less.hyps[of b] less.prems by auto
qed

definition depth_row :: "jsnum \<times> TBid \<Rightarrow> string \<times> string" where
  "depth_row = (\<lambda>(p, l). (js_string p, js_string (availableQty l)))"

lemma depth_bids_levels:
  "depth_bids k bs best = Inr ls \<Longrightarrow>
     ls = map depth_row (take k (takeWhile (js_truthy \<circ> fst) (price_levels SHORT bs best)))"
proof (induction k arbitrary: best ls)
  case (Suc k)
  show ?case
  proof (cases "\<exists>p l ls'. best = Some p \<and> js_truthy p \<and> map_of bs (js_string p) = Some l
      \<and> depth_bids k bs (getNextBestBidPrice bs p) = Inr ls'")
    case True
    then obtain p l ls' where p: "best = Some p" "js_truthy p" "map_of bs (js_string p) = Some l"
      "depth_bids k bs (getNextBestBidPrice bs p) = Inr ls'" by blast
    then show ?thesis using Suc.prems Suc.IH[OF p(4)] by (simp add: price_levels_cases depth_row_def)
  next
    case False
    then have "ls = [] \<and> (case best of None \<Rightarrow> True | Some p \<Rightarrow> \<not> js_truthy p)"
      using Suc.prems by (cases best; cases "depth_bids k bs (getNextBestBidPrice bs (the best))")
        (auto split: if_splits option.splits)
    then show ?thesis by (cases best) (auto simp: price_levels_cases split: option.split)
  qed
qed simp

lemma depth_asks_levels:
  "depth_asks k as best = Inr ls \<Longrightarrow>
     ls = map depth_row (take k (takeWhile (js_truthy \<circ> fst) (price_levels LONG as best)))"
proof (induction k arbitrary: best ls)
  case (Suc k)
  show ?case
  proof (cases "\<exists>p l ls'. best = Some p \<and> js_truthy p \<and> map_of as (js_string p) = Some l
      \<and> depth_asks k as (getNextBestAskPrice as p) = Inr ls'")
    case True
    then obtain p l ls' where p: "best = Some p" "js_truthy p" "map_of as (js_string p) = Some l"
      "depth_asks k as (getNextBestAskPrice as p) = Inr ls'" by blast
    then show ?thesis using Suc.prems Suc.IH[OF p(4)] by (simp add: price_levels_cases depth_row_def)
  next
    case False
    then have "ls = [] \<and> (case best of None \<Rightarrow> True | Some p \<Rightarrow> \<not> js_truthy p)"
      using Suc.prems by (cases best; cases "depth_asks k as (getNextBestAskPrice as (the best))")
        (auto split: if_splits option.splits)
    then show ?thesis by (cases best) (auto simp: price_levels_cases split: option.split)
  qed
qed simp

text \<open>What the rows of one side of the depth say of the side.\<close>

definition depth_side_ok :: "TPositionType \<Rightarrow> TSide \<Rightarrow> (string \<times> string) list \<Rightarrow> bool" where
  "depth_side_ok t sd rows \<longleftrightarrow>
     length rows \<le> 20
     \<and> sorted_wrt (\<lambda>r r'. beyond t (js_number (fst r)) (js_number (fst r'))) rows
     \<and> (\<forall>(price, qty) \<in> set rows. \<exists>l. map_of sd price = Some l \<and> 0 < availableQty l \<and> qty = js_string (availableQty l))
     \<and> (length rows < 20 \<longrightarrow> (\<forall>e \<in> set sd. js_truthy (js_number (fst e))) \<longrightarrow>
         (\<forall>e \<in> set sd. live t (scan_start t) e \<longrightarrow> (fst e, js_string (availableQty (snd e))) \<in> set rows))"

lemma depth_side:
  assumes can: "canonical sd"
    and rows: "rows = map depth_row (take maxDepth (takeWhile (js_truthy \<circ> fst) (price_levels t sd (next_best t sd (scan_start t)))))"
  shows "depth_side_ok t sd rows"
proof -
  define pl where "pl = price_levels t sd (next_best t sd (scan_start t))"
  define tk where "tk = take 20 (takeWhile (js_truthy \<circ> fst) pl)"
  have rows: "rows = map depth_row tk" using rows by (simp add: tk_def pl_def maxDepth_def)
  have sub: "set tk \<subseteq> set pl" using set_take_subset[of 20] set_takeWhileD by (fastforce simp: tk_def)
  have pl: "is_double p \<and> map_of sd (js_string p) = Some l \<and> 0 < availableQty l" if "(p, l) \<in> set pl" for p l
    using price_levels_beyond[OF that[unfolded pl_def], of "\<lambda>_. True"] next_best_beyond
      price_levels_live[OF can that[unfolded pl_def]] by blast
  have srt: "sorted_wrt (\<lambda>x y. beyond t (fst x) (fst y)) tk"
  proof -
    have "sorted_wrt (\<lambda>x y. beyond t (fst x) (fst y)) pl"
      unfolding pl_def by (rule price_levels_sorted) (use next_best_beyond in blast)
    then have "sorted_wrt (\<lambda>x y. beyond t (fst x) (fst y)) (takeWhile (js_truthy \<circ> fst) pl)"
      by (metis sorted_wrt_append takeWhile_dropWhile_id)
    then show ?thesis unfolding tk_def by (rule sorted_wrt_take)
  qed
  have "sorted_wrt (\<lambda>r r'. beyond t (js_number (fst r)) (js_number (fst r'))) rows"
  proof -
    have "js_number (fst (depth_row x)) = fst x" if "x \<in> set tk" for x
      using that sub pl[of "fst x" "snd x"] by (auto simp: depth_row_def js_number_string split: prod.split)
    then show ?thesis unfolding rows sorted_wrt_map by (intro sorted_wrt_mono_rel[OF _ srt]) simp
  qed
  moreover have "\<exists>l. map_of sd price = Some l \<and> 0 < availableQty l \<and> qty = js_string (availableQty l)"
    if "(price, qty) \<in> set rows" for price qty
    using that sub pl by (fastforce simp: rows depth_row_def)
  moreover have "(fst e, js_string (availableQty (snd e))) \<in> set rows"
    if "length rows < 20" "\<forall>e \<in> set sd. js_truthy (js_number (fst e))" "e \<in> set sd" "live t (scan_start t) e" for e
  proof -
    have "js_truthy p" if "(p, l) \<in> set pl" for p l
    proof -
      have "(js_string p, l) \<in> set sd" using pl[OF that] by (auto dest: map_of_SomeD)
      then show ?thesis using \<open>\<forall>e \<in> set sd. js_truthy (js_number (fst e))\<close> pl[OF that] by (fastforce simp: js_number_string)
    qed
    then have "takeWhile (js_truthy \<circ> fst) pl = pl" by (auto simp: takeWhile_eq_all_conv)
    then have "tk = pl" using that(1) by (simp add: rows tk_def)
    then have "(js_number (fst e), snd e) \<in> set tk"
      using price_levels_complete[OF can that(3,4)] by (simp add: pl_def)
    then have "depth_row (js_number (fst e), snd e) \<in> set rows" unfolding rows by (rule imageI[of _ "set tk" depth_row, unfolded set_map[symmetric]])
    then show ?thesis using canonical_key[OF can that(3)] by (simp add: depth_row_def)
  qed
  moreover have "length rows \<le> 20" by (simp add: rows tk_def)
  ultimately show ?thesis unfolding depth_side_ok_def by blast
qed

text \<open>
  The public depth of a well-formed store always exists, and each side of it lists, best price
  first and at most twenty of them, prices at which something is really on offer, with what the level
  has available; and a side that lists fewer than twenty rows, on a book without a level at price 0,
  lists every level that can be traded against.
\<close>

theorem depth_shows_the_book:
  assumes "store_ok s" "map_of (orderbooks s) m = Some ob"
  shows "\<exists>d. getMarketDepth s m now = Inr d \<and> d_market d = m \<and> d_lastUpdateId d = lastUpdateId s
    \<and> depth_side_ok SHORT (bids ob) (d_bids d) \<and> depth_side_ok LONG (asks ob) (d_asks d)"
proof -
  obtain d where d: "getMarketDepth s m now = Inr d"
    using getMarketDepth_returns[OF assms[unfolded store_ok_def]] by blast
  have can: "canonical (bids ob)" "canonical (asks ob)"
    using wf_store_book[OF assms[unfolded store_ok_def]] by (auto simp: wf_book_def wf_side_def)
  have "d_bids d = map depth_row (take maxDepth (takeWhile (js_truthy \<circ> fst)
        (price_levels SHORT (bids ob) (next_best SHORT (bids ob) (scan_start SHORT)))))"
    "d_asks d = map depth_row (take maxDepth (takeWhile (js_truthy \<circ> fst)
        (price_levels LONG (asks ob) (next_best LONG (asks ob) (scan_start LONG)))))"
    "d_market d = m" "d_lastUpdateId d = lastUpdateId s"
    using d assms(2) by (auto simp: getMarketDepth_def split: sum.splits dest!: depth_bids_levels depth_asks_levels)
  then show ?thesis using d depth_side can by blast
qed

theorem depth_shows_the_book_witness:
  "\<exists>d. getMarketDepth sample_store SOL_ID 0 = Inr d \<and> depth_side_ok SHORT [] (d_bids d)
    \<and> depth_side_ok LONG [(js_string (Fin 100), sample_level)] (d_asks d)"
  using depth_shows_the_book[of sample_store SOL_ID sample_book 0] sample_ok sample_book_found
  by (auto simp: sample_engine_def sample_book_def)

end
