(* ===== verification/PositionProperties.thy ===== *)
theory PositionProperties
  imports Samples
begin

text \<open>
  The properties of positions: netting, its effect on the collateral, funding, and two behaviours of
  the arithmetic that are worth knowing.
\<close>

definition sample_position :: TPosition where
  "sample_position = \<lparr>p_marketId = SOL_ID, p_type = LONG, p_qty = Fin 10, p_margin = Fin 100,
     p_liquidationPrice = Fin 90, p_pnL = None, p_averagePrice = Fin 100\<rparr>"

definition sample_holder :: TUser where
  "sample_holder = \<lparr>u_userId = ''alice'', u_collateral = \<lparr>available = Fin 900, locked = Fin 100\<rparr>,
     u_positions = [sample_position], u_closedPositions = []\<rparr>"

definition sample_sell :: "jsnum \<Rightarrow> TPositionPayload" where
  "sample_sell qty = \<lparr>pp_marketId = SOL_ID, pp_type = SHORT, pp_qty = qty, pp_margin = 0, pp_averagePrice = Fin 100\<rparr>"

text \<open>
  One-way netting. However a fill changes the positions of an account (a first position, growth,
  partial or full netting, or a flip), the account still has at most one position per market, and
  its positions in the other markets are untouched.
\<close>

theorem netting_is_one_way:
  assumes "one_way u"
  shows "one_way (createPosition u payload lastTraded)
    \<and> (\<forall>m. m \<noteq> pp_marketId payload \<longrightarrow>
        filter (\<lambda>p. p_marketId p = m) (u_positions (createPosition u payload lastTraded))
          = filter (\<lambda>p. p_marketId p = m) (u_positions u))"
  using assms by (simp add: createPosition_one_way createPosition_other_markets)

theorem netting_is_one_way_witness:
  "one_way (createPosition sample_holder (sample_sell (Fin 4)) (Fin 101))"
  using netting_is_one_way[of sample_holder "sample_sell (Fin 4)" "Fin 101"]
  by (simp add: one_way_def sample_holder_def)

text \<open>
  No empty position. If every open position has a positive size and the fill has a positive,
  finite one, every position afterwards has a positive size: rounding never leaves a position with
  nothing in it.
\<close>

theorem positions_stay_positive:
  assumes "\<forall>p \<in> set (u_positions u). proper_qty (p_qty p)" "proper_qty (pp_qty payload)" "pp_qty payload < PInf"
  shows "\<forall>p \<in> set (u_positions (createPosition u payload lastTraded)). proper_qty (p_qty p)"
  using createPosition_sizes[OF assms] .

theorem positions_stay_positive_witness:
  "list_all (\<lambda>p. 0 < p_qty p) (u_positions (createPosition sample_holder (sample_sell (Fin 4)) (Fin 101)))"
  using positions_stay_positive[of sample_holder "sample_sell (Fin 4)" "Fin 101"]
  by (simp add: sample_holder_def sample_position_def sample_sell_def proper_qty_def list_all_iff)

text \<open>
  Netting flat. A fill of the opposite side for exactly the size of the position closes it: the
  position leaves the list, a record of it marked as closed by hand joins the closed ones, the margin
  it had is unlocked, and the available balance grows by that margin and the profit of the fill.
\<close>

theorem netting_flat_closes:
  assumes "getUserMarketPosition (u_positions u) (pp_marketId payload) = Some (i, p)"
    and "p_type p \<noteq> pp_type payload" "p_qty p = pp_qty payload" "amount (pp_qty payload)"
  shows "\<exists>profit. createPosition u payload lastTraded = u\<lparr>
      u_collateral := \<lparr>available = available (u_collateral u) + (profit + p_margin p),
                      locked = locked (u_collateral u) - p_margin p\<rparr>,
      u_closedPositions := u_closedPositions u @ [TPosition.extend p (TClosedPosition.fields MANUAL)],
      u_positions := splice1 i (u_positions u)\<rparr>
    \<and> profit = (if p_type p = LONG
        then lastTraded * p_qty p - calculateWeightedAveragePrice (p_qty p, p_averagePrice p) (0, pp_averagePrice payload) * p_qty p
        else calculateWeightedAveragePrice (p_qty p, p_averagePrice p) (0, pp_averagePrice payload) * p_qty p - lastTraded * p_qty p)"
proof -
  have z: "pp_qty payload - pp_qty payload = Fin 0" using assms(4) by (auto simp: amount_Fin)
  show ?thesis using assms(1-3) by (simp add: createPosition_def Let_def z)
qed

theorem netting_flat_closes_witness:
  "u_positions (createPosition sample_holder (sample_sell (Fin 10)) (Fin 120)) = []
    \<and> map c_exitType (u_closedPositions (createPosition sample_holder (sample_sell (Fin 10)) (Fin 120))) = [MANUAL]
    \<and> locked (u_collateral (createPosition sample_holder (sample_sell (Fin 10)) (Fin 120))) = Fin 0"
proof -
  have g: "getUserMarketPosition (u_positions sample_holder) (pp_marketId (sample_sell (Fin 10))) = Some (0, sample_position)"
    by (simp add: getUserMarketPosition_def sample_holder_def sample_position_def sample_sell_def)
  have "\<exists>c. createPosition sample_holder (sample_sell (Fin 10)) (Fin 120) = sample_holder\<lparr>
      u_collateral := \<lparr>available = c, locked = locked (u_collateral sample_holder) - p_margin sample_position\<rparr>,
      u_closedPositions := u_closedPositions sample_holder @ [TPosition.extend sample_position (TClosedPosition.fields MANUAL)],
      u_positions := splice1 0 (u_positions sample_holder)\<rparr>"
    using netting_flat_closes[OF g, of "Fin 120"]
    by (fastforce simp: sample_position_def sample_sell_def amount_def)
  then show ?thesis
    by (auto simp: sample_holder_def sample_position_def splice1_def TPosition.extend_def TClosedPosition.fields_def)
qed

text \<open>
  Who pays the funding. When the last traded price is above the index, funding takes from the
  margin of a long and gives to the margin of a short, in the same amount for the same size; nobody's
  size, side or entry price changes.
\<close>

theorem funding_from_longs_to_shorts:
  assumes "map_of obs m = Some ob" "p_marketId p = m" "p_marketId q = m" "p_qty p = p_qty q"
    and "p_type p = LONG" "p_type q = SHORT"
  shows "\<exists>payment. payment = p_qty p * lastTradedPrice ob * ((lastTradedPrice ob - indexPrice ob) / indexPrice ob)
    \<and> p_margin (fundPosition obs p) = p_margin p - payment
    \<and> p_margin (fundPosition obs q) = p_margin q + payment
    \<and> p_qty (fundPosition obs p) = p_qty p \<and> p_averagePrice (fundPosition obs p) = p_averagePrice p"
  using assms by (simp add: fundPosition_def Let_def)

theorem funding_from_longs_to_shorts_witness:
  "\<exists>payment. p_margin (fundPosition [(SOL_ID, sample_book)] sample_position) = Fin 100 - payment
    \<and> p_margin (fundPosition [(SOL_ID, sample_book)] (sample_position\<lparr>p_type := SHORT\<rparr>)) = Fin 100 + payment"
  using funding_from_longs_to_shorts[of "[(SOL_ID, sample_book)]" SOL_ID sample_book sample_position
      "sample_position\<lparr>p_type := SHORT\<rparr>"]
  by (auto simp: sample_position_def)

text \<open>The arithmetic of the two examples below, step by step.\<close>

lemma sample_averages:
  "calculateWeightedAveragePrice (Fin 10, Fin 100) (Fin 6, Fin 100) = Fin 100"
  "calculateWeightedAveragePrice (Fin 10, Fin 100) (Fin 20, Fin 110) = js (10667 / 100)"
  "calculateRelativeMargin (Fin 100) (Fin 10) (Fin 6) = Fin 60"
  using js_eval[of "3200 / 30" 46 7505999378950827]
  by (simp_all add: calculateWeightedAveragePrice_def calculateRelativeMargin_def getRoudedNumber_def
      js_fixed_def floor_rat_numeral)

lemma sample_liquidation: "calculateLiquidationPrice (Fin 60) (Fin 6) SHORT (Fin 100) = js (1099 / 10)"
  using js_eval[of "(5764607523034235 / 2 ^ 59) * 60" 53 5404319552844595]
    js_eval[of "60 - 5404319552844595 / 2 ^ 53" 47 8359806808306483]
    js_eval[of "(8359806808306483 / 2 ^ 47) / 6" 49 5573204538870989]
    js_eval[of "100 + 5573204538870989 / 2 ^ 49" 46 7733524985125274]
  by (simp add: calculateLiquidationPrice_def js_0_01_def js_hundredth getRoudedNumber_def js_fixed_def
      floor_rat_numeral)

lemma sample_prices:
  "js (1099 / 10) = Fin (7733524985125274 / 2 ^ 46)" "js (10667 / 100) = Fin (7506233941431419 / 2 ^ 46)"
  using js_eval[of "1099 / 10" 46 7733524985125274] js_eval[of "10667 / 100" 46 7506233941431419] by simp_all

text \<open>
  A partly closed long is left with the liquidation price of a short: selling 4 of a long of 10
  bought at 100 leaves a long of 6 whose liquidation price is above its entry price, because the side
  of the incoming order is used for it. The next price update at or below that price liquidates it.
\<close>

theorem partly_closed_long_liquidates_above_entry:
  "map (\<lambda>p. (p_type p, p_qty p, p_averagePrice p, p_averagePrice p < p_liquidationPrice p))
     (u_positions (createPosition sample_holder (sample_sell (Fin 4)) (Fin 100))) = [(LONG, Fin 6, Fin 100, True)]"
  by (simp add: createPosition_def getUserMarketPosition_def sample_holder_def sample_position_def
      sample_sell_def sample_averages sample_liquidation sample_prices)

text \<open>
  A grown position counts the old size twice: buying 10 more at 110 on top of a long of 10 at 100
  gives an average above 106, not 105, because the new total size is weighted with the new price.
\<close>

theorem grown_average_is_too_high:
  "map (\<lambda>p. (p_qty p, Fin 106 < p_averagePrice p)) (u_positions (createPosition sample_holder
      \<lparr>pp_marketId = SOL_ID, pp_type = LONG, pp_qty = Fin 10, pp_margin = Fin 100, pp_averagePrice = Fin 110\<rparr>
      (Fin 110))) = [(Fin 20, True)]"
  by (simp add: createPosition_def getUserMarketPosition_def sample_holder_def sample_position_def
      sample_averages sample_prices Let_def)

end
