(* ===== verification/EventProperties.thy ===== *)
theory EventProperties
  imports OrderProperties
begin

text \<open>
  The properties of the private channel: who is told what, in which order, and that every batch ends
  on the state of the store.
\<close>

section \<open>A log of pushes by account\<close>

lemma eventsOf_push: "eventsOf (pushEvents evs k new) k' = eventsOf evs k' @ (if k' = k then new else [])"
  by (simp add: eventsOf_def pushEvents_def update_conv')

lemma eventsOf_log:
  "eventsOf (foldl (\<lambda>evs (userId, event). pushEvents evs userId [event]) evs pushes) u =
     eventsOf evs u @ map snd (filter (\<lambda>p. fst p = u) pushes)"
  by (induction pushes arbitrary: evs) (auto simp: eventsOf_push)

lemma filter_tagged: "filter (\<lambda>p. fst p = u) (map (Pair k) es) = (if k = u then map (Pair k) es else [])"
  by (induction es) auto

lemma filter_state_events:
  "distinct us \<Longrightarrow> map snd (filter (\<lambda>p. fst p = u) (concat (map (\<lambda>k. map (Pair k) (f k)) us))) =
     (if u \<in> set us then f u else [])"
  by (induction us) (auto simp: filter_tagged comp_def)

lemma touch_set: "set (foldl touch acc ks) = set acc \<union> set ks"
  by (induction ks arbitrary: acc) (auto simp: touch_def)

lemma touch_distinct: "distinct acc \<Longrightarrow> distinct (foldl touch acc ks)"
  by (induction ks arbitrary: acc) (auto simp: touch_def)

lemma touchedBy_distinct: "distinct (touchedBy newOrders orderUpdates fills)"
  by (simp add: touchedBy_def touch_distinct)

lemma set_touchedBy:
  "set (touchedBy newOrders orderUpdates fills) =
     (n_userId \<circ> fst) ` set newOrders \<union> w_userId ` set orderUpdates \<union> f_makerId ` set fills \<union> f_takerId ` set fills"
  by (auto simp: touchedBy_def touch_set)

section \<open>One batch\<close>

lemma newOrderEvents_users: "p \<in> set (fst (newOrderEvents rt clock new)) \<Longrightarrow> fst p \<in> (n_userId \<circ> fst) ` set new"
  by (induction rt clock new rule: newOrderEvents.induct) (auto simp: Let_def split: prod.splits)

lemma batch:
  assumes "newOrderEvents rt (clock + 1) newOrders = (created, clock')"
  shows "eventsOf (fst (userEventsForMatch rt clock us m fills side updates newOrders)) u =
     map snd (filter (\<lambda>p. fst p = u) (created @ map (updateEvent m) updates
        @ concat (map (fillEvents m side (date_now rt clock)) fills)))
     @ (if u \<in> set (touchedBy newOrders updates fills) then stateEventsFor us u m else [])"
  using assms
  by (simp add: userEventsForMatch_def Let_def eventsOf_log filter_state_events touchedBy_distinct)
    (simp add: eventsOf_def)

lemma batch_ends:
  assumes "eventsOf (fst (userEventsForMatch rt clock us m fills side updates newOrders)) u \<noteq> []"
  shows "u \<in> set (touchedBy newOrders updates fills)"
    "\<exists>own. eventsOf (fst (userEventsForMatch rt clock us m fills side updates newOrders)) u = own @ stateEventsFor us u m"
proof -
  obtain created clock' where c: "newOrderEvents rt (clock + 1) newOrders = (created, clock')" by force
  let ?log = "created @ map (updateEvent m) updates @ concat (map (fillEvents m side (date_now rt clock)) fills)"
  have "fst p \<in> set (touchedBy newOrders updates fills)" if "p \<in> set ?log" for p
    using that newOrderEvents_users[of p rt "clock + 1" newOrders] c
    by (auto simp: set_touchedBy updateEvent_def fillEvents_def)
  then have f: "u \<notin> set (touchedBy newOrders updates fills) \<Longrightarrow> filter (\<lambda>p. fst p = u) ?log = []"
    by (metis (mono_tags, lifting) filter_False)
  show t: "u \<in> set (touchedBy newOrders updates fills)"
    using assms f unfolding batch[OF c] by (cases "u \<in> set (touchedBy newOrders updates fills)") simp_all
  show "\<exists>own. eventsOf (fst (userEventsForMatch rt clock us m fills side updates newOrders)) u = own @ stateEventsFor us u m"
    unfolding batch[OF c] if_P[OF t] by (rule exI, rule refl)
qed

text \<open>
  Who is told what. The batch of an account after a match is made of the events of its own
  orders (created, then updated) and of its own side of the fills, in the order they happened, and,
  if the match concerned the account at all, of its position and its balance as they now are; an
  account the match does not concern gets nothing.
\<close>

theorem batch_is_own_events_then_state:
  "\<exists>created clock'. newOrderEvents rt (clock + 1) newOrders = (created, clock')
    \<and> eventsOf (fst (userEventsForMatch rt clock us m fills side updates newOrders)) u =
       map snd (filter (\<lambda>p. fst p = u) created)
       @ map (\<lambda>w. OrderUpdate (w_orderId w) m (w_status w) (js_string (w_filledQty w)))
           (filter (\<lambda>w. w_userId w = u) updates)
       @ map snd (filter (\<lambda>p. fst p = u) (concat (map (fillEvents m side (date_now rt clock)) fills)))
       @ (if u \<in> (n_userId \<circ> fst) ` set newOrders \<union> w_userId ` set updates \<union> f_makerId ` set fills \<union> f_takerId ` set fills
          then stateEventsFor us u m else [])"
proof -
  obtain created clock' where c: "newOrderEvents rt (clock + 1) newOrders = (created, clock')" by force
  have "map snd (filter (\<lambda>p. fst p = u) (map (updateEvent m) updates)) =
      map (\<lambda>w. OrderUpdate (w_orderId w) m (w_status w) (js_string (w_filledQty w))) (filter (\<lambda>w. w_userId w = u) updates)"
    by (induction updates) (auto simp: updateEvent_def)
  then show ?thesis using c by (simp add: batch[OF c] set_touchedBy)
qed

section \<open>The batches of the engine\<close>

lemma publicPayload_users: "publicPayload rt m fs e = Return ws e' \<Longrightarrow> users (store e') = users (store e)"
  by (auto simp: publicPayload_def bumpUpdateId_def Let_def split: sum.splits option.splits prod.splits)

lemma placeOrder_events:
  assumes "placeOrder rt payload skip e = Return resp e'"
  shows "\<exists>clock fills side upd new. pr_wsUser resp =
     fst (userEventsForMatch rt clock (users (store e')) (r_marketId payload) fills side upd new)"
proof -
  have fstI: "x = (a, b) \<Longrightarrow> a = fst x" for x :: "TWsUser \<times> nat" and a b by simp
  show ?thesis using assms unfolding placeOrder_def Let_def
    by (fastforce split: sum.splits prod.splits outcome.splits if_splits dest!: publicPayload_users fstI)
qed

text \<open>The account that placed the order is always told.\<close>

lemma placeOrder_told:
  assumes "placeOrder rt payload skip e = Return resp e'"
  shows "eventsOf (pr_wsUser resp) (r_userId payload) \<noteq> []"
proof -
  have n: "n_userId ord' = r_userId payload"
    if "checkOrder payload (store e) = Inr (reducing, ord, ob)" "matchOrder rt ord uk tk v = Return (ord', res) v'"
    for reducing ord ob uk tk v ord' res v'
    using checkOrder_accepts[OF that(1)] that(2)
    by (auto simp: matchOrder_loop finishMatch_def Let_def split: outcome.splits prod.splits)
  have fstI: "x = (a, b) \<Longrightarrow> a = fst x" for x :: "TWsUser \<times> nat" and a b by simp
  have t: "eventsOf (fst (userEventsForMatch rt clock us m fills side upd [(ord', q, og)])) (n_userId ord') \<noteq> []"
    for clock us m fills side upd ord' q og
    unfolding batch[OF prod.collapse[symmetric]] by (simp add: Let_def split: prod.split)
  then have t': "eventsOf (fst (userEventsForMatch rt clock us m fills side upd [(ord', q, og)])) k = [] \<Longrightarrow> n_userId ord' \<noteq> k"
    for clock us m fills side upd ord' q og k by metis
  show ?thesis using assms unfolding placeOrder_def Let_def
    by (auto split: sum.splits prod.splits outcome.splits if_splits dest!: fstI t') (blast dest: n)+
qed

text \<open>
  Every batch ends on the truth. When \<open>placeOrder\<close> returns, each account that is sent anything is
  told last the position it holds in the market and its balance as the store has them after the
  order, whatever the fills before said.
\<close>

theorem batches_end_on_the_store:
  assumes "placeOrder rt payload skip e = Return resp e'" "eventsOf (pr_wsUser resp) u \<noteq> []"
  shows "\<exists>own. eventsOf (pr_wsUser resp) u = own @ stateEventsFor (users (store e')) u (r_marketId payload)"
  using placeOrder_events[OF assms(1)] assms(2) batch_ends(2) by metis

theorem batches_end_on_the_store_witness:
  "\<exists>resp e' own. placeOrder sample_rt sample_payload False sample_engine = Return resp e'
    \<and> eventsOf (pr_wsUser resp) ''alice'' = own @ stateEventsFor (users (store e')) ''alice'' SOL_ID"
proof -
  obtain resp e' where p: "placeOrder sample_rt sample_payload False sample_engine = Return resp e'"
    using accepted_order[OF sample_ok] sample_accepted by (simp add: sample_engine_def) (metis sample_payload_market sample_market_own)
  have "eventsOf (pr_wsUser resp) ''alice'' \<noteq> []"
    using placeOrder_told[OF p] by (simp add: sample_payload_def)
  from batches_end_on_the_store[OF p this] p show ?thesis by (simp add: sample_payload_def)
qed

end
