(* ===== verification/EngineComms.thy ===== *)
theory EngineComms
  imports Engine
begin

text \<open>
  How messages reach the engine: \<open>apps/engine/src/services/engine-comms.ts\<close> and the start-up of
  \<open>apps/engine/src/index.ts\<close>. Redis is outside the repository: what \<open>xRange\<close>, \<open>xAutoClaim\<close> and
  \<open>xReadGroup\<close> hand over are arguments here, and \<open>xAck\<close> and \<open>xAdd\<close> are recorded. Parsing a raw
  message (the zod schemas and \<open>JSON.parse\<close>) is an argument too.
\<close>

section \<open>Messages\<close>

text \<open>
  A message that fails either schema, one whose payload makes \<open>JSON.parse\<close> throw, or a request with
  its correlation id.
\<close>

datatype parsed = WrongStructure | BadJson | Request string TEngineRequest

record engine_reply =
  rp_correlationId :: string
  rp_ok :: bool
  rp_data :: "TEngineResponse option"
  rp_error :: "engine_error option"

record comms =
  cm_engine :: engine
  cm_recovered :: "string list"
  cm_acked :: "string list"
  cm_sent :: "engine_reply list"

definition xAck :: "string \<Rightarrow> comms \<Rightarrow> comms" where
  "xAck messageId c = c\<lparr>cm_acked := cm_acked c @ [messageId]\<rparr>"

definition sendToResponseStream :: "engine_reply \<Rightarrow> comms \<Rightarrow> comms" where
  "sendToResponseStream reply c = c\<lparr>cm_sent := cm_sent c @ [reply]\<rparr>"

text \<open>
  The body of the two listening loops after the checks of their own: run the request, answer it when
  there is something to answer, acknowledge the message. A \<open>SyntaxError\<close> of \<open>JSON.parse\<close> is not
  caught by either loop.
\<close>

definition runMessage ::
  "runtime \<Rightarrow> ('m \<Rightarrow> parsed) \<Rightarrow> string \<times> 'm \<Rightarrow> comms \<Rightarrow> (unit, comms, unit) outcome" where
  "runMessage rt parse = (\<lambda>(messageId, message) c.
     case parse message of
       WrongStructure \<Rightarrow> Return () (xAck messageId c)
     | BadJson \<Rightarrow> Throw () c
     | Request correlationId req \<Rightarrow>
         (case handle rt messageId req (cm_engine c) of
            Throw err e \<Rightarrow>
              Return () (xAck messageId (sendToResponseStream
                \<lparr>rp_correlationId = correlationId, rp_ok = False, rp_data = None, rp_error = Some err\<rparr>
                (c\<lparr>cm_engine := e\<rparr>)))
          | Return None e \<Rightarrow> Return () (xAck messageId (c\<lparr>cm_engine := e\<rparr>))
          | Return (Some data) e \<Rightarrow>
              Return () (xAck messageId (sendToResponseStream
                \<lparr>rp_correlationId = correlationId, rp_ok = True, rp_data = Some data, rp_error = None\<rparr>
                (c\<lparr>cm_engine := e\<rparr>)))))"

text \<open>A loop over messages, ended by the first uncaught error.\<close>

fun overMessages ::
  "('a \<Rightarrow> comms \<Rightarrow> (unit, comms, unit) outcome) \<Rightarrow> 'a list \<Rightarrow> comms \<Rightarrow> (unit, comms, unit) outcome" where
  "overMessages step [] c = Return () c"
| "overMessages step (m # ms) c =
     (case step m c of Throw u c' \<Rightarrow> Throw u c' | Return _ c' \<Rightarrow> overMessages step ms c')"

section \<open>Recovery\<close>

text \<open>
  Replaying one entry of the stream after a backup: it is remembered as recovered, and run without
  an answer; an error of the engine is logged.
\<close>

definition recoverEntry ::
  "runtime \<Rightarrow> ('m \<Rightarrow> parsed) \<Rightarrow> string \<times> 'm \<Rightarrow> comms \<Rightarrow> (unit, comms, unit) outcome" where
  "recoverEntry rt parse = (\<lambda>(messageId, message) c.
     let c1 = c\<lparr>cm_recovered := List.insert messageId (cm_recovered c)\<rparr>
     in case parse message of
          WrongStructure \<Rightarrow> Return () c1
        | BadJson \<Rightarrow> Throw () c1
        | Request correlationId req \<Rightarrow>
            Return () (c1\<lparr>cm_engine := outcome_state (handle rt messageId req (cm_engine c1))\<rparr>))"

text \<open>
  \<open>xRange startId\<close> stands for the first entries after \<open>startId\<close> (the code asks for at most 100).
  The loop goes on from the last entry of each batch until a batch is empty; \<open>None\<close> means that the
  fuel, a bound on the number of batches, was not enough.
\<close>

fun runRecovery ::
  "nat \<Rightarrow> runtime \<Rightarrow> ('m \<Rightarrow> parsed) \<Rightarrow> (string \<Rightarrow> (string \<times> 'm) list) \<Rightarrow> string \<Rightarrow> comms
    \<Rightarrow> (unit, comms, unit) outcome option" where
  "runRecovery 0 rt parse xRange startId c = None"
| "runRecovery (Suc fuel) rt parse xRange startId c =
     (let entries = xRange startId
      in if entries = [] then Some (Return () c)
         else
           (case overMessages (recoverEntry rt parse) entries c of
              Throw u c' \<Rightarrow> Some (Throw u c')
            | Return _ c' \<Rightarrow> runRecovery fuel rt parse xRange (fst (last entries)) c'))"

section \<open>Pending and new messages\<close>

text \<open>A claimed message that was recovered is only acknowledged; a deleted one is \<open>null\<close>.\<close>

definition pendingMessage ::
  "runtime \<Rightarrow> ('m \<Rightarrow> parsed) \<Rightarrow> (string \<times> 'm) option \<Rightarrow> comms \<Rightarrow> (unit, comms, unit) outcome" where
  "pendingMessage rt parse claimed c =
     (case claimed of
        None \<Rightarrow> Return () c
      | Some (messageId, message) \<Rightarrow>
          if messageId \<in> set (cm_recovered c)
          then Return () (xAck messageId (c\<lparr>cm_recovered := removeAll messageId (cm_recovered c)\<rparr>))
          else runMessage rt parse (messageId, message) c)"

text \<open>The batches \<open>xAutoClaim\<close> returns one after the other; the first empty one ends the loop.\<close>

fun handlePendingEntries ::
  "runtime \<Rightarrow> ('m \<Rightarrow> parsed) \<Rightarrow> (string \<times> 'm) option list list \<Rightarrow> comms \<Rightarrow> (unit, comms, unit) outcome" where
  "handlePendingEntries rt parse [] c = Return () c"
| "handlePendingEntries rt parse (messages # batches) c =
     (if messages = [] then Return () c
      else
        (case overMessages (pendingMessage rt parse) messages c of
           Throw u c' \<Rightarrow> Throw u c'
         | Return _ c' \<Rightarrow> handlePendingEntries rt parse batches c'))"

text \<open>One read of new messages: the streams of the response, or \<open>null\<close>.\<close>

definition readOneBatch ::
  "runtime \<Rightarrow> ('m \<Rightarrow> parsed) \<Rightarrow> (string \<times> 'm) list list option \<Rightarrow> comms \<Rightarrow> (unit, comms, unit) outcome" where
  "readOneBatch rt parse response c =
     (case response of None \<Rightarrow> Return () c
      | Some streams \<Rightarrow> overMessages (runMessage rt parse) (concat streams) c)"

section \<open>Start-up\<close>

text \<open>
  \<open>index.ts\<close>: the store of the last backup, or a fresh one; recovery from the backup's message when
  there is one (and not in development); then the pending entries.
\<close>

definition freshComms :: "TStore option \<Rightarrow> comms" where
  "freshComms backup = \<lparr>cm_engine = \<lparr>store = createExchangeStore backup, uuids_used = 0, clock_reads = 0, uploads = []\<rparr>,
     cm_recovered = [], cm_acked = [], cm_sent = []\<rparr>"

definition startEngine ::
  "nat \<Rightarrow> runtime \<Rightarrow> ('m \<Rightarrow> parsed) \<Rightarrow> (string \<Rightarrow> (string \<times> 'm) list) \<Rightarrow> (string \<times> 'm) option list list
    \<Rightarrow> bool \<Rightarrow> (string \<times> TStore) option \<Rightarrow> (unit, comms, unit) outcome option" where
  "startEngine fuel rt parse xRange claims isDev dataBackup =
     (let c = freshComms (map_option snd dataBackup)
      in case (case dataBackup of
                 Some (messageId, _) \<Rightarrow>
                   if messageId \<noteq> [] \<and> \<not> isDev then runRecovery fuel rt parse xRange messageId c
                   else Some (Return () c)
               | None \<Rightarrow> Some (Return () c)) of
           None \<Rightarrow> None
         | Some (Throw u c1) \<Rightarrow> Some (Throw u c1)
         | Some (Return _ c1) \<Rightarrow> Some (handlePendingEntries rt parse claims c1))"

section \<open>What a sequence of messages does to the engine\<close>

definition engineStep :: "runtime \<Rightarrow> ('m \<Rightarrow> parsed) \<Rightarrow> engine \<Rightarrow> string \<times> 'm \<Rightarrow> engine" where
  "engineStep rt parse e = (\<lambda>(messageId, message).
     case parse message of Request _ req \<Rightarrow> outcome_state (handle rt messageId req e) | _ \<Rightarrow> e)"

definition parses :: "('m \<Rightarrow> parsed) \<Rightarrow> string \<times> 'm \<Rightarrow> bool" where
  "parses parse m \<longleftrightarrow> parse (snd m) \<noteq> BadJson"

lemma recoverEntry_step:
  "parses parse m \<Longrightarrow> recoverEntry rt parse m c =
     Return () (c\<lparr>cm_recovered := List.insert (fst m) (cm_recovered c), cm_engine := engineStep rt parse (cm_engine c) m\<rparr>)"
  by (cases m; cases "parse (snd m)") (auto simp: recoverEntry_def engineStep_def parses_def Let_def)

lemma runMessage_step:
  assumes "parses parse m"
  shows "\<exists>c'. runMessage rt parse m c = Return () c' \<and> cm_engine c' = engineStep rt parse (cm_engine c) m
    \<and> cm_recovered c' = cm_recovered c \<and> cm_acked c' = cm_acked c @ [fst m]"
proof (cases m)
  case (Pair i msg)
  show ?thesis
  proof (cases "parse msg")
    case (Request corr req)
    then show ?thesis using Pair
      by (cases "handle rt i req (cm_engine c)")
        (auto simp: runMessage_def engineStep_def xAck_def sendToResponseStream_def split: option.split)
  qed (use assms Pair in \<open>auto simp: runMessage_def engineStep_def parses_def xAck_def\<close>)
qed

lemma overMessages_append:
  "overMessages step (xs @ ys) c =
     (case overMessages step xs c of Throw u c' \<Rightarrow> Throw u c' | Return _ c' \<Rightarrow> overMessages step ys c')"
  by (induction xs arbitrary: c) (auto split: outcome.split)

lemma recoverEntries:
  "list_all (parses parse) ms \<Longrightarrow> \<exists>c'. overMessages (recoverEntry rt parse) ms c = Return () c'
     \<and> cm_engine c' = foldl (engineStep rt parse) (cm_engine c) ms
     \<and> set (cm_recovered c') = fst ` set ms \<union> set (cm_recovered c)
     \<and> cm_acked c' = cm_acked c \<and> cm_sent c' = cm_sent c"
proof (induction ms arbitrary: c)
  case (Cons m ms)
  let ?c = "c\<lparr>cm_recovered := List.insert (fst m) (cm_recovered c), cm_engine := engineStep rt parse (cm_engine c) m\<rparr>"
  obtain c' where "overMessages (recoverEntry rt parse) ms ?c = Return () c'"
    "cm_engine c' = foldl (engineStep rt parse) (cm_engine ?c) ms"
    "set (cm_recovered c') = fst ` set ms \<union> set (cm_recovered ?c)"
    "cm_acked c' = cm_acked ?c" "cm_sent c' = cm_sent ?c"
    using Cons.IH[of ?c] Cons.prems by auto
  then show ?case using Cons.prems by (auto simp: recoverEntry_step)
qed simp

lemma newMessages:
  "list_all (parses parse) ms \<Longrightarrow> \<exists>c'. overMessages (runMessage rt parse) ms c = Return () c'
     \<and> cm_engine c' = foldl (engineStep rt parse) (cm_engine c) ms
     \<and> cm_acked c' = cm_acked c @ map fst ms \<and> cm_recovered c' = cm_recovered c"
proof (induction ms arbitrary: c)
  case (Cons m ms)
  obtain c1 where c1: "runMessage rt parse m c = Return () c1" "cm_engine c1 = engineStep rt parse (cm_engine c) m"
    "cm_recovered c1 = cm_recovered c" "cm_acked c1 = cm_acked c @ [fst m]"
    using runMessage_step[of parse m rt c] Cons.prems by auto
  obtain c' where "overMessages (runMessage rt parse) ms c1 = Return () c'"
    "cm_engine c' = foldl (engineStep rt parse) (cm_engine c1) ms"
    "cm_acked c' = cm_acked c1 @ map fst ms" "cm_recovered c' = cm_recovered c1"
    using Cons.IH[of c1] Cons.prems by auto
  then show ?case using c1 by auto
qed simp

text \<open>Pending messages: the recovered ones are skipped, the others are run, all are acknowledged.\<close>

lemma pendingMessages:
  "list_all (parses parse) ms \<Longrightarrow> distinct (map fst ms) \<Longrightarrow>
     \<exists>c'. overMessages (pendingMessage rt parse) (map Some ms) c = Return () c'
     \<and> cm_engine c' = foldl (engineStep rt parse) (cm_engine c) (filter (\<lambda>m. fst m \<notin> set (cm_recovered c)) ms)
     \<and> cm_acked c' = cm_acked c @ map fst ms
     \<and> set (cm_recovered c') = set (cm_recovered c) - fst ` set ms"
proof (induction ms arbitrary: c)
  case (Cons m ms)
  obtain c1 where c1: "pendingMessage rt parse (Some m) c = Return () c1"
    "cm_engine c1 = (if fst m \<in> set (cm_recovered c) then cm_engine c else engineStep rt parse (cm_engine c) m)"
    "set (cm_recovered c1) = set (cm_recovered c) - {fst m}" "cm_acked c1 = cm_acked c @ [fst m]"
    using runMessage_step[of parse m rt c] Cons.prems
    by (cases m; cases "fst m \<in> set (cm_recovered c)") (auto simp: pendingMessage_def xAck_def)
  obtain c' where c': "overMessages (pendingMessage rt parse) (map Some ms) c1 = Return () c'"
    "cm_engine c' = foldl (engineStep rt parse) (cm_engine c1) (filter (\<lambda>m. fst m \<notin> set (cm_recovered c1)) ms)"
    "cm_acked c' = cm_acked c1 @ map fst ms" "set (cm_recovered c') = set (cm_recovered c1) - fst ` set ms"
    using Cons.IH[of c1] Cons.prems by auto
  have "filter (\<lambda>m. fst m \<notin> set (cm_recovered c1)) ms = filter (\<lambda>m. fst m \<notin> set (cm_recovered c)) ms"
    using Cons.prems c1(3) by (intro filter_cong) (auto simp: rev_image_eqI)
  then show ?case using c1 c' by auto
qed simp

lemma handlePending_concat:
  "\<forall>b \<in> set batches. b \<noteq> [] \<Longrightarrow>
     handlePendingEntries rt parse (batches @ [[]]) c = overMessages (pendingMessage rt parse) (concat batches) c"
  by (induction batches arbitrary: c) (auto simp: overMessages_append split: outcome.split)

text \<open>
  The stream as \<open>xRange\<close> shows it: from an entry on, the next ones in order, a hundred at a time.
\<close>

definition serves :: "(string \<Rightarrow> (string \<times> 'm) list) \<Rightarrow> string \<Rightarrow> (string \<times> 'm) list \<Rightarrow> bool" where
  "serves xRange startId entries \<longleftrightarrow> xRange startId = take 100 entries \<and>
     (\<forall>pre i m post. entries = pre @ (i, m) # post \<longrightarrow> xRange i = take 100 post)"

lemma serves_next:
  assumes "serves xRange startId entries" "entries \<noteq> []"
  shows "serves xRange (fst (last (take 100 entries))) (drop 100 entries)"
proof -
  let ?a = "take 100 entries" and ?b = "drop 100 entries"
  have ne: "?a \<noteq> []" using assms(2) by simp
  have split: "entries = butlast ?a @ (fst (last ?a), snd (last ?a)) # ?b"
    using append_take_drop_id[of 100 entries] append_butlast_last_id[OF ne]
    by (metis append.assoc append_Cons append_Nil prod.collapse)
  have "xRange i = take 100 post" if "?b = pre @ (i, m) # post" for pre i m post
  proof -
    have "entries = (?a @ pre) @ (i, m) # post" using that append_take_drop_id[of 100 entries] by simp
    then show ?thesis using assms(1) unfolding serves_def by blast
  qed
  moreover have "xRange (fst (last ?a)) = take 100 ?b" using assms(1) split unfolding serves_def by metis
  ultimately show ?thesis unfolding serves_def by blast
qed

lemma runRecovery_all:
  assumes "serves xRange startId entries" "list_all (parses parse) entries" "length entries \<le> fuel * 100"
  shows "\<exists>c'. runRecovery (Suc fuel) rt parse xRange startId c = Some (Return () c')
     \<and> cm_engine c' = foldl (engineStep rt parse) (cm_engine c) entries
     \<and> set (cm_recovered c') = fst ` set entries \<union> set (cm_recovered c)
     \<and> cm_acked c' = cm_acked c \<and> cm_sent c' = cm_sent c"
  using assms
proof (induction fuel arbitrary: startId entries c)
  case 0
  then show ?case by (simp add: serves_def)
next
  case (Suc fuel)
  show ?case
  proof (cases "entries = []")
    case True
    then show ?thesis using Suc.prems by (auto simp: serves_def)
  next
    case False
    let ?a = "take 100 entries" and ?b = "drop 100 entries"
    have x: "xRange startId = ?a" using Suc.prems by (simp add: serves_def)
    have la: "list_all (parses parse) ?a" "list_all (parses parse) ?b"
      using Suc.prems(2) by (metis append_take_drop_id list_all_append)+
    obtain c1 where c1: "overMessages (recoverEntry rt parse) ?a c = Return () c1"
      "cm_engine c1 = foldl (engineStep rt parse) (cm_engine c) ?a"
      "set (cm_recovered c1) = fst ` set ?a \<union> set (cm_recovered c)" "cm_acked c1 = cm_acked c" "cm_sent c1 = cm_sent c"
      using recoverEntries[OF la(1), of rt c] by blast
    have len: "length ?b \<le> fuel * 100" using Suc.prems(3) by auto
    obtain c2 where c2: "runRecovery (Suc fuel) rt parse xRange (fst (last ?a)) c1 = Some (Return () c2)"
      "cm_engine c2 = foldl (engineStep rt parse) (cm_engine c1) ?b"
      "set (cm_recovered c2) = fst ` set ?b \<union> set (cm_recovered c1)" "cm_acked c2 = cm_acked c1" "cm_sent c2 = cm_sent c1"
      using Suc.IH[OF serves_next[OF Suc.prems(1) False] la(2) len, of c1] by blast
    have e: "foldl (engineStep rt parse) (cm_engine c) entries = cm_engine c2"
      using c1(2) c2(2) foldl_append[of "engineStep rt parse" "cm_engine c" ?a ?b] by simp
    have s: "set entries = set ?a \<union> set ?b" by (metis append_take_drop_id set_append)
    have r: "runRecovery (Suc (Suc fuel)) rt parse xRange startId c = Some (Return () c2)"
      using c1(1) c2(1) x False by (simp add: Let_def runRecovery.simps(2)[of "Suc fuel"] del: runRecovery.simps)
    show ?thesis by (rule exI[of _ c2]) (use r e c1 c2 s in auto)
  qed
qed

end
