(* ===== verification/EngineProperties.thy ===== *)
theory EngineProperties
  imports OrderProperties EngineComms
begin

text \<open>
  The properties of the engine as a whole: what holds in every state it can reach by requests and
  restarts, that a price update always goes through, and what start-up runs.
\<close>

section \<open>Reachable states\<close>

text \<open>
  A fresh store, one request after the other in any order, and a restart from any of the backups the
  engine has uploaded.
\<close>

definition freshEngine :: "TStore option \<Rightarrow> engine" where
  "freshEngine backup = cm_engine (freshComms backup)"

lemma freshEngine_simps [simp]:
  "store (freshEngine None) = createExchangeStore None" "store (freshEngine (Some s)) = s"
  "uploads (freshEngine b) = []"
  by (simp_all add: freshEngine_def freshComms_def createExchangeStore_def)

inductive reachable :: "runtime \<Rightarrow> engine \<Rightarrow> bool" for rt where
  start: "reachable rt (freshEngine None)"
| request: "reachable rt e \<Longrightarrow> reachable rt (outcome_state (handle rt messageId req e))"
| restart: "reachable rt e \<Longrightarrow> (messageId, s) \<in> set (uploads e) \<Longrightarrow> reachable rt (freshEngine (Some s))"

lemma store_ok_fresh: "store_ok (createExchangeStore None)"
  by (simp add: store_ok_def wf_store_def wf_users_def wf_book_def wf_side_def canonical_def
      createExchangeStore_def seed_book_def SOL_ID_def ETH_ID_def BTC_ID_def)

text \<open>Only a backup request uploads, and it uploads the store as it is.\<close>

lemma placeOrder_uploads: "uploads (outcome_state (placeOrder rt payload skip e)) = uploads e"
  by (auto simp: placeOrder_def placeInherited_def putVenue_def publicPayload_def bumpUpdateId_def Let_def
      split: sum.split outcome.split prod.split option.split)

lemma cancelOrder_uploads: "uploads (outcome_state (cancelOrder rt order e)) = uploads e"
  by (auto simp: cancelOrder_def publicPayload_def bumpUpdateId_def Let_def
      split: sum.split outcome.split prod.split option.split)

lemma liquidatePosition_uploads:
  "uploads (sw_engine (liquidatePosition rt k m p side sw)) = uploads (sw_engine sw)"
proof -
  obtain o' e1 where l: "liquidationOrder rt k m p side (sw_engine sw) = (o', e1)" by force
  then have "uploads e1 = uploads (sw_engine sw)" by (auto simp: liquidationOrder_def)
  then show ?thesis using placeOrder_uploads[of rt o' True e1]
    by (cases "placeOrder rt o' True e1") (simp_all add: liquidatePosition_def l Let_def)
qed

lemma sweep_uploads: "uploads (sw_engine (foldl (sweepUser rt m price) sw ks)) = uploads (sw_engine sw)"
  by (induction ks arbitrary: sw) (auto simp: sweepUser_def liquidatePosition_uploads split: option.split)

lemma liqudationChecks_uploads: "uploads (outcome_state (liqudationChecks rt asset price e)) = uploads e"
  by (auto simp: liqudationChecks_def sweep_uploads setIndexPrice_def publicPayload_def bumpUpdateId_def Let_def
      split: outcome.split option.split sum.split)

lemma handle_uploads:
  "uploads (outcome_state (handle rt mid req e)) =
     (case req of BackupStore now \<Rightarrow>
        uploads e @ (if now > date_now rt (clock_reads e) - 10 * 60 * 1000 then [(mid, store e)] else [])
      | _ \<Rightarrow> uploads e)"
proof (cases req)
  case (CreateOrder payload)
  then show ?thesis using placeOrder_uploads[of rt payload False "ensureUser (r_userId payload) e"]
    by (cases "placeOrder rt payload False (ensureUser (r_userId payload) e)") (auto simp: ensureUser_def split: option.split)
next
  case (CancelOrder order)
  then show ?thesis using cancelOrder_uploads[of rt order e] by (cases "cancelOrder rt order e") auto
next
  case (SpotPriceUpdate payload)
  show ?thesis
  proof (cases "spotPrice payload")
    case (Some ap)
    then show ?thesis using SpotPriceUpdate liqudationChecks_uploads[of rt "fst ap" "snd ap" e]
      by (cases ap; cases "liqudationChecks rt (fst ap) (snd ap) e") auto
  qed (simp add: SpotPriceUpdate)
qed (auto simp: ensureUser_def deposit_def backupStore_def Let_def split: option.split sum.split)

lemma reachable_ok: "reachable rt e \<Longrightarrow> store_ok (store e) \<and> (\<forall>(mid, s) \<in> set (uploads e). store_ok s)"
proof (induction rule: reachable.induct)
  case (request e mid req)
  then show ?case using handle_ok[of e rt mid req] by (auto simp: handle_uploads split: TEngineRequest.splits)
qed (auto simp: store_ok_fresh)

text \<open>
  C4. The invariant of the engine. In every state the engine can reach from a fresh store, by any
  requests in any order and any restarts from its backups, the store is well formed: the levels of
  both sides have the strings of their prices as keys, every resting order is on its own side of its
  own market and belongs to a known account, every account has at most one position per market; and
  only a request that names a member of \<open>Object.prototype\<close>, as its market or as the price of the
  order to cancel, makes the engine read a property off \<open>undefined\<close>.
\<close>

theorem engine_stays_well_formed:
  assumes "reachable rt e"
  shows "store_ok (store e) \<and> (handle rt messageId req e = Throw TypeError e' \<longrightarrow> namesInherited req)"
  using reachable_ok[OF assms] handle_ok[of e rt messageId req e'] by blast

theorem engine_stays_well_formed_witness:
  "store_ok (store (outcome_state (handle sample_rt ''2'' (CreateOrder sample_payload)
     (outcome_state (handle sample_rt ''1'' (Onramp ''alice'' (Fin 500)) (freshEngine None))))))
   \<and> (\<forall>e'. handle sample_rt ''3'' (CancelOrder sample_cancel)
     (outcome_state (handle sample_rt ''2'' (CreateOrder sample_payload)
       (outcome_state (handle sample_rt ''1'' (Onramp ''alice'' (Fin 500)) (freshEngine None))))) \<noteq> Throw TypeError e')"
proof -
  have "\<not> namesInherited (CancelOrder sample_cancel)"
    using inherited_NaN[of "js_string (Fin 100)"] by (auto simp: sample_cancel_def)
  then show ?thesis
    using engine_stays_well_formed[OF reachable.request[OF reachable.request[OF reachable.start]]] by blast
qed

text \<open>
  A request that names one does. The public depth of such a market is not refused as an unsupported
  market but ends in a \<open>TypeError\<close>; and a limit order for it, from an account with the margin, has its
  margin locked before the error, by an order nobody can cancel.
\<close>

theorem inherited_market_is_type_error:
  "getMarketDepth sample_store ''constructor'' now = Inl TypeError"
  by (simp add: getMarketDepth_def sample_store_def SOL_ID_def inherited_def prototypeMembers_def)

theorem inherited_market_locks_margin:
  "\<exists>e'. placeOrder sample_rt (sample_payload\<lparr>r_marketId := ''constructor''\<rparr>) False sample_engine = Throw TypeError e'
    \<and> locked (u_collateral (accountOf e' ''alice'')) = Fin 101"
  by (simp add: placeOrder_def placeInherited_def checkOrder_def bookAt_def inherited_def prototypeMembers_def SOL_ID_def
      noBook_def sample_payload_def sample_engine_def sample_store_def getUserById_def new_user_def
      getUserMarketPosition_def riskCheck_def normalizeOrder_def entryPrice_def lockedUsers_def lockMargin_def
      modifyUser_def setUser_def accountOf_def less_jsnum_def)

section \<open>The price update\<close>

lemma matchOrder_index: "indexPrice (v_book (outcome_state (matchOrder rt ord uk tk v))) = indexPrice (v_book v)"
proof -
  have p: "indexPrice (put_taken t sd ob) = indexPrice ob" for t sd ob by (cases t) auto
  show ?thesis
    by (auto simp: matchOrder_loop afterLoop_def finishMatch_def p Let_def split: outcome.split prod.split)
qed

definition indexOf :: "TStore \<Rightarrow> string \<Rightarrow> jsnum option" where
  "indexOf s m = map_option indexPrice (map_of (orderbooks s) m)"

lemma placeOrder_index: "indexOf (store (outcome_state (placeOrder rt payload skip e))) m = indexOf (store e) m"
proof (cases "checkOrder payload (store e)")
  case (Inr x)
  obtain reducing ord ob where c: "checkOrder payload (store e) = Inr (reducing, ord, ob)" using Inr by (metis prod_cases3)
  let ?us = "lockedUsers reducing ord (r_userId payload) (users (store e))"
  let ?r = "matchOrder rt ord (r_userId payload) (case getUserById ?us (r_userId payload) of None \<Rightarrow> [] | Some u \<Rightarrow> u_userId u)
      (venueOf ob ?us e)"
  show ?thesis
  proof (cases "map_of (orderbooks (store e)) (r_marketId payload)")
    case None
    then show ?thesis using c by (simp add: placeOrder_def placeInherited_def indexOf_def)
  next
  case (Some ob')
  then have own: "map_of (orderbooks (store e)) (r_marketId payload) = Some ob"
    using checkOrder_accepts(1)[OF c] bookAt_own by fastforce
  have b: "orderbooks (store (outcome_state (placeOrder rt payload skip e))) =
      AList.update (r_marketId payload) (v_book (outcome_state ?r)) (orderbooks (store e))"
    using c own by (cases ?r) (auto simp: placeOrder_def putVenue_def publicPayload_def bumpUpdateId_def Let_def
        split: outcome.split sum.split prod.split option.split)
  have "indexPrice (v_book (outcome_state ?r)) = indexPrice ob" by (simp add: matchOrder_index venueOf_def)
  then show ?thesis using own by (simp add: indexOf_def b update_conv')
  qed
qed (simp add: placeOrder_def)

lemma sweep_index: "indexOf (store (sw_engine (foldl (sweepUser rt m price) sw ks))) k = indexOf (store (sw_engine sw)) k"
proof (induction ks arbitrary: sw)
  case (Cons u us)
  have "indexOf (store (sw_engine (liquidatePosition rt i m p side sw))) k = indexOf (store (sw_engine sw)) k" for i p side
  proof -
    obtain o' e1 where l: "liquidationOrder rt i m p side (sw_engine sw) = (o', e1)" by force
    then have "store e1 = store (sw_engine sw)" by (auto simp: liquidationOrder_def)
    then show ?thesis using placeOrder_index[of rt o' True e1]
      by (cases "placeOrder rt o' True e1") (simp_all add: liquidatePosition_def l Let_def)
  qed
  then show ?case using Cons by (auto simp: sweepUser_def split: option.split)
qed simp

lemma publicPayload_index:
  "publicPayload rt m fs e = Return ws e' \<Longrightarrow>
     map_option js_string (indexOf (store e) m) = Some (ws_indexPrice ws) \<and> indexOf (store e') m = indexOf (store e) m"
  by (auto simp: publicPayload_def bumpUpdateId_def indexOf_def Let_def split: sum.splits option.splits prod.splits)

text \<open>
  C13. A price update always goes through. Whatever it liquidates, and whatever cannot be closed, the
  sweep of a market returns, the index price of its book is the new price, and the public payload
  carries it, so that no stuck position silences the feeds.
\<close>

theorem price_update_always_published:
  assumes "store_ok (store e)" "map_of (supportedAssets (store e)) asset = Some m"
    and "map_of (orderbooks (store e)) m \<noteq> None"
  shows "\<exists>resp e' ws. liqudationChecks rt asset price e = Return resp e' \<and> sr_wsServer resp = Some ws
    \<and> ws_indexPrice ws = js_string price \<and> indexOf (store e') m = Some price \<and> store_ok (store e')"
proof -
  let ?e1 = "setIndexPrice m price e"
  define sw where "sw = foldl (sweepUser rt m price)
    \<lparr>sw_engine = ?e1, sw_responses = [], sw_trades = [], sw_events = []\<rparr> (map fst (users (store ?e1)))"
  have ok: "store_ok (store (sw_engine sw))"
    unfolding sw_def by (rule sweep_ok) (simp add: setIndexPrice_ok assms)
  have "indexOf (store ?e1) m = Some price" using assms(3)
    by (auto simp: setIndexPrice_def indexOf_def update_conv')
  then have i: "indexOf (store (sw_engine sw)) m = Some price" by (simp add: sw_def sweep_index)
  then obtain ob where ob: "map_of (orderbooks (store (sw_engine sw))) m = Some ob" by (auto simp: indexOf_def)
  obtain ws k where pp: "publicPayload rt m None (sw_engine sw) = Return ws ((sw_engine sw)
      \<lparr>store := (store (sw_engine sw))\<lparr>lastUpdateId := lastUpdateId (store (sw_engine sw)) + 1\<rparr>, clock_reads := k\<rparr>)"
    using publicPayload_returns[of any_level any_qty "sw_engine sw" m rt None] ok ob by (auto simp: store_ok_def)
  have r: "liqudationChecks rt asset price e = Return
      \<lparr>sr_match = arrayToObjectUtil (sw_responses sw), sr_wsServer = Some (ws\<lparr>ws_trades := Some (sw_trades sw)\<rparr>),
       sr_wsUser = sw_events sw\<rparr> ((sw_engine sw)
      \<lparr>store := (store (sw_engine sw))\<lparr>lastUpdateId := lastUpdateId (store (sw_engine sw)) + 1\<rparr>, clock_reads := k\<rparr>)"
    using pp ob by (simp add: liqudationChecks_def assms(2) Let_def sw_def[symmetric])
  show ?thesis using r ok i publicPayload_index[OF pp] by (auto simp: store_ok_def indexOf_def)
qed

theorem price_update_always_published_witness:
  "\<exists>resp e' ws. liqudationChecks sample_rt SOL (Fin 80) sample_engine = Return resp e'
    \<and> sr_wsServer resp = Some ws \<and> ws_indexPrice ws = js_string (Fin 80)"
  using price_update_always_published[OF sample_ok, of SOL SOL_ID sample_rt "Fin 80"] sample_book_found
  by (fastforce simp: sample_engine_def sample_store_def)

section \<open>Start-up\<close>

text \<open>
  C12. Start-up runs every message once. Provided that it is not in development mode, that every
  payload of the stream and of the pending messages parses, that the pending messages have distinct
  ids and that they are claimed in non-empty batches followed by an empty one: from a backup, the
  entries of the stream after it are replayed in the order of the stream, whatever their number; then
  the pending messages are run, the ones already replayed only acknowledged. No answer is sent for
  what was replayed, and every pending message is acknowledged. (A payload that is not JSON makes
  start-up throw.)
\<close>

theorem startup_runs_each_message_once:
  assumes "messageId \<noteq> []" "serves xRange messageId entries" "length entries \<le> fuel * 100"
    and "list_all (parses parse) entries" "list_all (parses parse) pending"
    and "distinct (map fst pending)" "concat batches = map Some pending" "[] \<notin> set batches"
  shows "\<exists>c. startEngine (Suc fuel) rt parse xRange (batches @ [[]]) False (Some (messageId, backup)) = Some (Return () c)
    \<and> cm_engine c = foldl (engineStep rt parse) (freshEngine (Some backup))
         (entries @ filter (\<lambda>m. fst m \<notin> fst ` set entries) pending)
    \<and> cm_acked c = map fst pending \<and> set (cm_recovered c) = fst ` set entries - fst ` set pending"
proof -
  obtain c1 where c1: "runRecovery (Suc fuel) rt parse xRange messageId (freshComms (Some backup)) = Some (Return () c1)"
    "cm_engine c1 = foldl (engineStep rt parse) (cm_engine (freshComms (Some backup))) entries"
    "set (cm_recovered c1) = fst ` set entries \<union> set (cm_recovered (freshComms (Some backup)))"
    "cm_acked c1 = cm_acked (freshComms (Some backup))"
    using runRecovery_all[OF assms(2,4,3)] by blast
  obtain c2 where c2: "overMessages (pendingMessage rt parse) (map Some pending) c1 = Return () c2"
    "cm_engine c2 = foldl (engineStep rt parse) (cm_engine c1) (filter (\<lambda>m. fst m \<notin> set (cm_recovered c1)) pending)"
    "cm_acked c2 = cm_acked c1 @ map fst pending" "set (cm_recovered c2) = set (cm_recovered c1) - fst ` set pending"
    using pendingMessages[OF assms(5,6)] by blast
  have "\<forall>b \<in> set batches. b \<noteq> []" using assms(8) by blast
  then have "handlePendingEntries rt parse (batches @ [[]]) c1 = Return () c2"
    using c2(1) assms(7) by (simp add: handlePending_concat)
  then have "startEngine (Suc fuel) rt parse xRange (batches @ [[]]) False (Some (messageId, backup)) = Some (Return () c2)"
    using assms(1) c1(1) by (simp add: startEngine_def del: runRecovery.simps)
  then show ?thesis using c1(2-4) c2(2-4) by (simp add: freshEngine_def freshComms_def)
qed

text \<open>Two deposits after the backup, the first of them pending: a stream of two entries.\<close>

definition sample_parse :: "jsnum \<Rightarrow> parsed" where
  "sample_parse paid = Request ''c'' (Onramp ''alice'' paid)"

definition sample_range :: "string \<Rightarrow> (string \<times> jsnum) list" where
  "sample_range startId =
     (if startId = ''1'' then [(''2'', Fin 100), (''3'', Fin 50)] else if startId = ''2'' then [(''3'', Fin 50)] else [])"

lemma sample_serves: "serves sample_range ''1'' [(''2'', Fin 100), (''3'', Fin 50)]"
  by (auto simp: serves_def sample_range_def Cons_eq_append_conv)

theorem startup_runs_each_message_once_witness:
  "\<exists>c. startEngine 2 sample_rt sample_parse sample_range [[Some (''2'', Fin 100)], []] False
       (Some (''1'', createExchangeStore None)) = Some (Return () c)
    \<and> available (u_collateral (accountOf (cm_engine c) ''alice'')) = Fin 150"
proof -
  have "filter (\<lambda>m. fst m \<notin> fst ` set [(''2'', Fin 100), (''3'', Fin 50)]) [(''2'', Fin 100)] = []" by simp
  moreover have "available (u_collateral (accountOf (foldl (engineStep sample_rt sample_parse)
      (freshEngine (Some (createExchangeStore None))) [(''2'', Fin 100), (''3'', Fin 50)]) ''alice'')) = Fin 150"
    by (simp add: engineStep_def sample_parse_def deposit_def accountOf_def new_user_def createExchangeStore_def
        getUserById_def setUser_def Let_def)
  ultimately show ?thesis
    using startup_runs_each_message_once[of "''1''" sample_range "[(''2'', Fin 100), (''3'', Fin 50)]" 1 sample_parse
      "[(''2'', Fin 100)]" "[[Some (''2'', Fin 100)]]" sample_rt "createExchangeStore None"] sample_serves
    by (fastforce simp: parses_def sample_parse_def numeral_2_eq_2 simp del: runRecovery.simps foldl.simps)
qed

text \<open>
  A message the backup had not seen and no consumer had been given is run twice. The entry after
  the backup is replayed by the recovery, is not among the pending ones, and is then delivered to the
  group as a new message: a deposit of 100 ends as 200.
\<close>

theorem undelivered_message_runs_twice:
  "\<exists>c c'. startEngine 2 sample_rt sample_parse (\<lambda>i. if i = ''1'' then [(''2'', Fin 100)] else []) [[]] False
       (Some (''1'', createExchangeStore None)) = Some (Return () c)
    \<and> readOneBatch sample_rt sample_parse (Some [[(''2'', Fin 100)]]) c = Return () c'
    \<and> available (u_collateral (accountOf (cm_engine c') ''alice'')) = Fin 200"
  by (simp add: startEngine_def numeral_2_eq_2 recoverEntry_def sample_parse_def freshComms_def readOneBatch_def
      runMessage_def deposit_def accountOf_def new_user_def createExchangeStore_def xAck_def
      sendToResponseStream_def getUserById_def setUser_def Let_def)

end
