(* ===== verification/DbWriter.thy ===== *)
theory DbWriter
  imports Engine
begin

text \<open>
  The persistence service: \<open>apps/db-writer/src/services/writer.ts\<close> and \<open>setup-comms.ts\<close>. Postgres
  is outside the repository: \<open>db.transaction\<close> is a parameter that takes the statements of its body,
  which does not look at their results, and answers with the database afterwards or with the code of
  the error. Redis and the schemas are parameters as they are for the engine.
\<close>

section \<open>The statements of one response\<close>

datatype statement =
    InsertProcessed string
  | InsertOrders "SelectOrderRecord list"
  | UpdateOrder string string TOrderStatus string
      \<comment> \<open>where the id and the user match: status, filledQty\<close>
  | InsertFills "InsertFillRecord list"

fun entryLength :: "TWriterEntry \<Rightarrow> nat" where
  "entryLength (FillsEntry ds) = length ds"
| "entryLength (OrderUpdatesEntry ds) = length ds"
| "entryLength (OrderInsertsEntry ds) = length ds"

definition hasRowsToWrite :: "TWriterEntry list \<Rightarrow> bool" where
  "hasRowsToWrite w = list_ex (\<lambda>entry. entryLength entry > 0) w"

definition maxBatchSize :: nat where
  "maxBatchSize = 100"

text \<open>The loop of both inserts: slices of the rows from an index on, as the statements they become.\<close>

function insertBatches :: "('a list \<Rightarrow> statement) \<Rightarrow> 'a list \<Rightarrow> nat \<Rightarrow> statement list" where
  "insertBatches ins rows i =
     (if i < length rows
      then ins (take maxBatchSize (drop i rows)) # insertBatches ins rows (i + maxBatchSize) else [])"
  by pat_completeness auto
termination by (relation "measure (\<lambda>(ins, rows, i). length rows - i)") (auto simp: maxBatchSize_def)

declare insertBatches.simps [simp del]

definition insertOrderData :: "SelectOrderRecord list \<Rightarrow> statement list" where
  "insertOrderData orderData = insertBatches InsertOrders orderData 0"

definition updateOrderData :: "TOrderDataForWriter list \<Rightarrow> statement list" where
  "updateOrderData orderData =
     map (\<lambda>entry. UpdateOrder (w_orderId entry) (w_userId entry) (w_status entry) (js_string (w_filledQty entry))) orderData"

definition insertFillData :: "InsertFillRecord list \<Rightarrow> statement list" where
  "insertFillData fillData = insertBatches InsertFills fillData 0"

text \<open>The body of the transaction; the finds of the three tables are those of the engine's flattening.\<close>

definition transactionBody :: "string \<Rightarrow> TWriterEntry list \<Rightarrow> statement list" where
  "transactionBody correlationId w =
     InsertProcessed correlationId # insertOrderData (insertsOf w) @ updateOrderData (orderUpdatesOf w)
       @ insertFillData (fillsOf w)"

text \<open>
  \<open>db.transaction\<close> as a parameter: \<open>Inl\<close> is the database it leaves and the code of the error.
\<close>

type_synonym 'db transaction = "statement list \<Rightarrow> 'db \<Rightarrow> 'db \<times> string + 'db"

record response =
  res_correlationId :: string
  res_writer :: "TWriterEntry list option"

definition handleResponse :: "'db transaction \<Rightarrow> response \<Rightarrow> 'db \<Rightarrow> 'db \<times> string + 'db" where
  "handleResponse transaction payload db =
     (case res_writer payload of
        None \<Rightarrow> Inr db
      | Some w \<Rightarrow>
          if hasRowsToWrite w then transaction (transactionBody (res_correlationId payload) w) db else Inr db)"

text \<open>A request is not written: the backend inserts the order itself.\<close>

definition handleRequest :: "'r \<Rightarrow> 'db \<Rightarrow> 'db \<times> string + 'db" where
  "handleRequest data db = Inr db"

section \<open>The two listeners\<close>

datatype 'r received = Malformed | NotJson | Received 'r

record 'db consumer =
  co_db :: 'db
  co_acked :: "string list"

definition ack :: "string \<Rightarrow> 'db consumer \<Rightarrow> 'db consumer" where
  "ack messageId c = c\<lparr>co_acked := co_acked c @ [messageId]\<rparr>"

definition duplicateCode :: string where
  "duplicateCode = ''23505''"

text \<open>One claimed message; a duplicate is acknowledged, another error ends the service.\<close>

definition pendingClientEntry ::
  "('m \<Rightarrow> 'r received) \<Rightarrow> ('r \<Rightarrow> 'db \<Rightarrow> 'db \<times> string + 'db) \<Rightarrow> (string \<times> 'm) option \<Rightarrow> 'db consumer
    \<Rightarrow> (string, 'db consumer, unit) outcome" where
  "pendingClientEntry parse handler claimed c =
     (case claimed of
        None \<Rightarrow> Return () c
      | Some (messageId, message) \<Rightarrow>
          (case parse message of
             Malformed \<Rightarrow> Return () (ack messageId c)
           | NotJson \<Rightarrow> Throw ''SyntaxError'' c
           | Received data \<Rightarrow>
               (case handler data (co_db c) of
                  Inr db \<Rightarrow> Return () (ack messageId (c\<lparr>co_db := db\<rparr>))
                | Inl (db, code) \<Rightarrow>
                    if code = duplicateCode then Return () (ack messageId (c\<lparr>co_db := db\<rparr>))
                    else Throw code (c\<lparr>co_db := db\<rparr>))))"

fun eachPending ::
  "('m \<Rightarrow> 'r received) \<Rightarrow> ('r \<Rightarrow> 'db \<Rightarrow> 'db \<times> string + 'db) \<Rightarrow> (string \<times> 'm) option list \<Rightarrow> 'db consumer
    \<Rightarrow> (string, 'db consumer, unit) outcome" where
  "eachPending parse handler [] c = Return () c"
| "eachPending parse handler (m # ms) c =
     (case pendingClientEntry parse handler m c of
        Throw e c' \<Rightarrow> Throw e c' | Return _ c' \<Rightarrow> eachPending parse handler ms c')"

text \<open>The batches \<open>xAutoClaim\<close> hands over; the first empty one ends the loop.\<close>

fun handlePendingClientEntries ::
  "('m \<Rightarrow> 'r received) \<Rightarrow> ('r \<Rightarrow> 'db \<Rightarrow> 'db \<times> string + 'db) \<Rightarrow> (string \<times> 'm) option list list \<Rightarrow> 'db consumer
    \<Rightarrow> (string, 'db consumer, unit) outcome" where
  "handlePendingClientEntries parse handler [] c = Return () c"
| "handlePendingClientEntries parse handler (messages # batches) c =
     (if messages = [] then Return () c
      else
        (case eachPending parse handler messages c of
           Throw e c' \<Rightarrow> Throw e c'
         | Return _ c' \<Rightarrow> handlePendingClientEntries parse handler batches c'))"

text \<open>
  One read of new messages. A duplicate returns from the batch without acknowledging the message and
  without looking at the ones after it.
\<close>

fun eachNew ::
  "('m \<Rightarrow> 'r received) \<Rightarrow> ('r \<Rightarrow> 'db \<Rightarrow> 'db \<times> string + 'db) \<Rightarrow> (string \<times> 'm) list \<Rightarrow> 'db consumer
    \<Rightarrow> (string, 'db consumer, unit) outcome" where
  "eachNew parse handler [] c = Return () c"
| "eachNew parse handler ((messageId, message) # ms) c =
     (case parse message of
        Malformed \<Rightarrow> eachNew parse handler ms (ack messageId c)
      | NotJson \<Rightarrow> Throw ''SyntaxError'' c
      | Received data \<Rightarrow>
          (case handler data (co_db c) of
             Inr db \<Rightarrow> eachNew parse handler ms (ack messageId (c\<lparr>co_db := db\<rparr>))
           | Inl (db, code) \<Rightarrow>
               if code = duplicateCode then Return () (c\<lparr>co_db := db\<rparr>) else Throw code (c\<lparr>co_db := db\<rparr>)))"

definition readOneClientBatch ::
  "('m \<Rightarrow> 'r received) \<Rightarrow> ('r \<Rightarrow> 'db \<Rightarrow> 'db \<times> string + 'db) \<Rightarrow> (string \<times> 'm) list list option \<Rightarrow> 'db consumer
    \<Rightarrow> (string, 'db consumer, unit) outcome" where
  "readOneClientBatch parse handler response c =
     (case response of None \<Rightarrow> Return () c | Some streams \<Rightarrow> eachNew parse handler (concat streams) c)"

section \<open>Batches\<close>

lemma insertBatches_concat:
  assumes "\<And>rs. rows_of (ins rs) = rs" "i \<le> length rows"
  shows "concat (map rows_of (insertBatches ins rows i)) = drop i rows"
  using assms(2)
proof (induction "length rows - i" arbitrary: i rule: less_induct)
  case less
  have IH: "concat (map rows_of (insertBatches ins rows (i + maxBatchSize))) = drop (i + maxBatchSize) rows"
    if "i < length rows"
  proof (cases "i + maxBatchSize \<le> length rows")
    case True
    then show ?thesis using less.hyps[of "i + maxBatchSize"] that by (simp add: maxBatchSize_def)
  qed (simp add: insertBatches.simps)
  show ?case
  proof (cases "i < length rows")
    case True
    have "drop i rows = take maxBatchSize (drop i rows) @ drop (i + maxBatchSize) rows"
      by (metis append_take_drop_id drop_drop add.commute)
    then show ?thesis using True IH assms(1) by (subst insertBatches.simps) simp
  qed (simp add: insertBatches.simps less.prems)
qed

lemma insertBatches_sizes:
  assumes "\<And>rs. rows_of (ins rs) = rs" "s \<in> set (insertBatches ins rows i)"
  shows "rows_of s \<noteq> [] \<and> length (rows_of s) \<le> maxBatchSize"
  using assms(2)
proof (induction "length rows - i" arbitrary: i rule: less_induct)
  case less
  then have i: "i < length rows" by (subst (asm) (2) insertBatches.simps) (auto split: if_splits)
  then have "s = ins (take maxBatchSize (drop i rows)) \<or> s \<in> set (insertBatches ins rows (i + maxBatchSize))"
    using less.prems by (subst (asm) (1) insertBatches.simps) auto
  moreover have "length rows - (i + maxBatchSize) < length rows - i" using i by (simp add: maxBatchSize_def)
  ultimately show ?case using less.hyps[of "i + maxBatchSize"] i assms(1)
    by (auto simp: maxBatchSize_def)
qed

end
