(* ===== verification/DbProperties.thy ===== *)
theory DbProperties
  imports DbWriter EngineProperties
begin

text \<open>
  The properties of the persistence service, under what Postgres documents of a transaction: a failed
  one leaves the database as it was, a committed one has recorded the key it inserted, and a key that
  is recorded is refused with the code of a duplicate.
\<close>

definition rolls_back :: "'db transaction \<Rightarrow> bool" where
  "rolls_back transaction \<longleftrightarrow>
     (\<forall>body db db' code. transaction body db = Inl (db', code) \<longrightarrow> db' = db)"

definition records_keys :: "'db transaction \<Rightarrow> ('db \<Rightarrow> string set) \<Rightarrow> bool" where
  "records_keys transaction keys \<longleftrightarrow>
     (\<forall>k body db db'. transaction (InsertProcessed k # body) db = Inr db' \<longrightarrow> insert k (keys db) \<subseteq> keys db')"

definition refuses_duplicates :: "'db transaction \<Rightarrow> ('db \<Rightarrow> string set) \<Rightarrow> bool" where
  "refuses_duplicates transaction keys \<longleftrightarrow>
     (\<forall>k body db. k \<in> keys db \<longrightarrow> transaction (InsertProcessed k # body) db = Inl (db, duplicateCode))"

text \<open>A database that satisfies them: the recorded keys and the statements that were applied.\<close>

definition sample_transaction :: "(string list \<times> statement list) transaction" where
  "sample_transaction body = (\<lambda>(ks, applied).
     case body of
       InsertProcessed k # _ \<Rightarrow>
         if k \<in> set ks then Inl ((ks, applied), duplicateCode) else Inr (k # ks, applied @ body)
     | _ \<Rightarrow> Inr (ks, applied @ body))"

lemma sample_transaction_laws:
  "rolls_back sample_transaction" "records_keys sample_transaction (set \<circ> fst)"
  "refuses_duplicates sample_transaction (set \<circ> fst)"
  by (auto simp: rolls_back_def records_keys_def refuses_duplicates_def
      sample_transaction_def split: if_splits list.splits statement.splits)

section \<open>Redelivery\<close>

text \<open>A response that is in the database, or has nothing to write.\<close>

definition settled :: "('db \<Rightarrow> string set) \<Rightarrow> 'db \<Rightarrow> response \<Rightarrow> bool" where
  "settled keys db r \<longleftrightarrow>
     (case res_writer r of None \<Rightarrow> True | Some w \<Rightarrow> \<not> hasRowsToWrite w \<or> res_correlationId r \<in> keys db)"

lemma handle_settled:
  assumes "refuses_duplicates transaction keys" "settled keys db r"
  shows "handleResponse transaction r db = Inr db \<or> handleResponse transaction r db = Inl (db, duplicateCode)"
  using assms by (auto simp: handleResponse_def settled_def refuses_duplicates_def transactionBody_def split: option.splits)

lemma handle_settles:
  assumes "rolls_back transaction" "records_keys transaction keys"
  shows "handleResponse transaction r db = Inr db' \<Longrightarrow> keys db \<subseteq> keys db' \<and> settled keys db' r"
    "handleResponse transaction r db = Inl (db', code) \<Longrightarrow> db' = db"
  using assms by (auto simp: handleResponse_def settled_def rolls_back_def records_keys_def transactionBody_def
      split: option.splits if_splits)

lemma settled_mono: "settled keys db r \<Longrightarrow> keys db \<subseteq> keys db' \<Longrightarrow> settled keys db' r"
  by (auto simp: settled_def split: option.splits)

text \<open>Everything the law says of one database, in one place.\<close>

definition postgres :: "'db transaction \<Rightarrow> ('db \<Rightarrow> string set) \<Rightarrow> bool" where
  "postgres transaction keys \<longleftrightarrow> rolls_back transaction \<and> records_keys transaction keys
     \<and> refuses_duplicates transaction keys"

definition done_with :: "('m \<Rightarrow> response received) \<Rightarrow> ('db \<Rightarrow> string set) \<Rightarrow> 'db \<Rightarrow> string \<times> 'm \<Rightarrow> bool" where
  "done_with parse keys db m \<longleftrightarrow>
     (case parse (snd m) of Malformed \<Rightarrow> True | NotJson \<Rightarrow> False | Received r \<Rightarrow> settled keys db r)"

text \<open>
  One message handled: no key is lost, and what met no error of the database is settled. A message
  answered with the code of a duplicate is acknowledged too, whatever the constraint it broke.
\<close>

lemma pending_settles:
  assumes "postgres transaction keys"
    and "pendingClientEntry parse (handleResponse transaction) (Some m) c = Return u c'"
  shows "keys (co_db c) \<subseteq> keys (co_db c')"
    "(\<And>r. parse (snd m) = Received r \<Longrightarrow> \<exists>db. handleResponse transaction r (co_db c) = Inr db) \<Longrightarrow>
      done_with parse keys (co_db c') m"
proof -
  obtain i msg where m: "m = (i, msg)" by force
  have "keys (co_db c) \<subseteq> keys (co_db c')
    \<and> ((\<forall>r. parse (snd m) = Received r \<longrightarrow> (\<exists>db. handleResponse transaction r (co_db c) = Inr db)) \<longrightarrow>
      done_with parse keys (co_db c') m)"
  proof (cases "parse msg")
    case (Received r)
    show ?thesis
    proof (cases "handleResponse transaction r (co_db c)")
      case (Inl err)
      obtain db code where err: "err = (db, code)" by force
      then show ?thesis using assms m Received Inl handle_settles(2)[of transaction keys r "co_db c" db code]
        by (auto simp: pendingClientEntry_def ack_def postgres_def split: if_splits)
    next
      case (Inr db)
      then show ?thesis using assms m Received handle_settles(1)[of transaction keys r "co_db c" db]
        by (auto simp: pendingClientEntry_def ack_def done_with_def postgres_def)
    qed
  qed (use assms m in \<open>auto simp: pendingClientEntry_def ack_def done_with_def\<close>)
  then show "keys (co_db c) \<subseteq> keys (co_db c')"
    "(\<And>r. parse (snd m) = Received r \<Longrightarrow> \<exists>db. handleResponse transaction r (co_db c) = Inr db) \<Longrightarrow>
      done_with parse keys (co_db c') m" by blast+
qed

lemma eachPending_keys:
  assumes "postgres transaction keys"
  shows "eachPending parse (handleResponse transaction) (map Some ms) c = Return u c' \<Longrightarrow> keys (co_db c) \<subseteq> keys (co_db c')"
proof (induction ms arbitrary: c)
  case (Cons m ms)
  then obtain c1 where c1: "pendingClientEntry parse (handleResponse transaction) (Some m) c = Return () c1"
    "eachPending parse (handleResponse transaction) (map Some ms) c1 = Return u c'"
    by (auto split: outcome.splits)
  then show ?case using pending_settles(1)[OF assms c1(1)] Cons.IH[OF c1(2)] by blast
qed simp

lemma eachPending_append:
  "eachPending parse handler (ms @ ms') c =
     (case eachPending parse handler ms c of Throw e c1 \<Rightarrow> Throw e c1 | Return _ c1 \<Rightarrow> eachPending parse handler ms' c1)"
  by (induction ms arbitrary: c) (auto split: outcome.split)

text \<open>
  A message of a batch that met no error of the database when its turn came: it was malformed, had
  nothing to write, or its transaction was committed.
\<close>

definition applied_once ::
  "'db transaction \<Rightarrow> ('m \<Rightarrow> response received) \<Rightarrow> 'db consumer \<Rightarrow> (string \<times> 'm) list \<Rightarrow> string \<times> 'm \<Rightarrow> bool" where
  "applied_once transaction parse c ms m \<longleftrightarrow>
     (\<exists>before after c1. ms = before @ m # after
       \<and> eachPending parse (handleResponse transaction) (map Some before) c = Return () c1
       \<and> (\<forall>r. parse (snd m) = Received r \<longrightarrow> (\<exists>db. handleResponse transaction r (co_db c1) = Inr db)))"

lemma applied_done:
  assumes "postgres transaction keys"
    and "eachPending parse (handleResponse transaction) (map Some ms) c = Return u c'" "applied_once transaction parse c ms m"
  shows "done_with parse keys (co_db c') m"
proof -
  obtain before after c1 where ms: "ms = before @ m # after"
    and c1: "eachPending parse (handleResponse transaction) (map Some before) c = Return () c1"
    and ok: "\<And>r. parse (snd m) = Received r \<Longrightarrow> \<exists>db. handleResponse transaction r (co_db c1) = Inr db"
    using assms(3) unfolding applied_once_def by blast
  obtain c2 where c2: "pendingClientEntry parse (handleResponse transaction) (Some m) c1 = Return () c2"
    "eachPending parse (handleResponse transaction) (map Some after) c2 = Return u c'"
    using assms(2) ms c1 by (auto simp: eachPending_append split: outcome.splits)
  have "done_with parse keys (co_db c2) m" by (rule pending_settles(2)[OF assms(1) c2(1) ok])
  then show ?thesis using eachPending_keys[OF assms(1) c2(2)]
    by (auto simp: done_with_def intro: settled_mono split: received.splits)
qed

lemma pending_again:
  assumes "postgres transaction keys" "done_with parse keys (co_db c) m"
  shows "pendingClientEntry parse (handleResponse transaction) (Some m) c = Return () (ack (fst m) c)"
proof (cases m)
  case (Pair i msg)
  show ?thesis using assms Pair handle_settled[of transaction keys "co_db c"]
    by (cases "parse msg") (fastforce simp: done_with_def pendingClientEntry_def postgres_def)+
qed

lemma eachPending_again:
  assumes "postgres transaction keys"
  shows "list_all (done_with parse keys (co_db c)) ms \<Longrightarrow>
    \<exists>c'. eachPending parse (handleResponse transaction) (map Some ms) c = Return () c' \<and> co_db c' = co_db c
      \<and> co_acked c' = co_acked c @ map fst ms"
proof (induction ms arbitrary: c)
  case (Cons m ms)
  then have "pendingClientEntry parse (handleResponse transaction) (Some m) c = Return () (ack (fst m) c)"
    by (intro pending_again[OF assms]) simp
  then show ?case using Cons.IH[of "ack (fst m) c"] Cons.prems by (auto simp: ack_def)
qed simp

text \<open>
  C11. Writing once. After a batch of messages was handled as pending ones, handing over again any of
  those that met no error of the database, in any order and any number of times, leaves the database
  as it is and acknowledges them: a redelivered response is not applied twice. Of Postgres only this
  is used: a failed transaction leaves the database as it was, a committed one has recorded its key,
  and inserting a key that is recorded fails as a duplicate.
\<close>

theorem redelivery_changes_nothing:
  assumes "postgres transaction keys"
    and "eachPending parse (handleResponse transaction) (map Some ms) c = Return u c'"
    and "\<forall>m \<in> set again. applied_once transaction parse c ms m"
  shows "\<exists>c''. eachPending parse (handleResponse transaction) (map Some again) c' = Return () c''
    \<and> co_db c'' = co_db c' \<and> co_acked c'' = co_acked c' @ map fst again"
  using applied_done[OF assms(1,2)] assms(3)
  by (intro eachPending_again[OF assms(1)]) (auto simp: list_all_iff)

definition sample_response :: response where
  "sample_response = \<lparr>res_correlationId = ''c1'',
     res_writer = Some [FillsEntry [], OrderUpdatesEntry [\<lparr>w_orderId = ''t1'', w_userId = ''alice'',
       w_status = Filled, w_filledQty = Fin 7\<rparr>]]\<rparr>"

definition sample_consumer :: "(string list \<times> statement list) consumer" where
  "sample_consumer = \<lparr>co_db = ([], []), co_acked = []\<rparr>"

lemma sample_postgres: "postgres sample_transaction (set \<circ> fst)"
  using sample_transaction_laws by (simp add: postgres_def)

theorem redelivery_changes_nothing_witness:
  "\<exists>c' c''. eachPending Received (handleResponse sample_transaction) [Some (''1'', sample_response)] sample_consumer = Return () c'
    \<and> fst (co_db c') = [''c1'']
    \<and> eachPending Received (handleResponse sample_transaction)
        [Some (''1'', sample_response), Some (''1'', sample_response)] c' = Return () c''
    \<and> co_db c'' = co_db c'"
proof -
  obtain c' where c: "eachPending Received (handleResponse sample_transaction) (map Some [(''1'', sample_response)]) sample_consumer
      = Return () c'" "fst (co_db c') = [''c1'']"
    by (simp add: pendingClientEntry_def handleResponse_def sample_response_def hasRowsToWrite_def transactionBody_def
        sample_transaction_def sample_consumer_def ack_def)
  have "applied_once sample_transaction Received sample_consumer [(''1'', sample_response)] (''1'', sample_response)"
    unfolding applied_once_def
    by (rule exI[of _ "[]"], rule exI[of _ "[]"])
      (simp add: handleResponse_def sample_response_def hasRowsToWrite_def transactionBody_def sample_transaction_def
        sample_consumer_def)
  then have "\<forall>m \<in> set [(''1'', sample_response), (''1'', sample_response)].
      applied_once sample_transaction Received sample_consumer [(''1'', sample_response)] m" by simp
  from redelivery_changes_nothing[OF sample_postgres c(1) this] c show ?thesis by auto
qed

section \<open>The rows of a response\<close>

fun rows_of_orders :: "statement \<Rightarrow> SelectOrderRecord list" where
  "rows_of_orders (InsertOrders rs) = rs"
| "rows_of_orders _ = []"

fun rows_of_fills :: "statement \<Rightarrow> InsertFillRecord list" where
  "rows_of_fills (InsertFills rs) = rs"
| "rows_of_fills _ = []"

text \<open>
  What is written, and in which order. The transaction of a response first records its
  correlation id, then inserts its orders, then updates orders, then inserts its fills; the inserts
  carry exactly the rows of the response in their order, in statements of one to a hundred rows.
\<close>

theorem transaction_writes_the_rows:
  "\<exists>os fs. transactionBody correlationId w =
      InsertProcessed correlationId # os @ updateOrderData (orderUpdatesOf w) @ fs
    \<and> concat (map rows_of_orders os) = insertsOf w \<and> concat (map rows_of_fills fs) = fillsOf w
    \<and> list_all (\<lambda>s. rows_of_orders s \<noteq> [] \<and> length (rows_of_orders s) \<le> 100) os
    \<and> list_all (\<lambda>s. rows_of_fills s \<noteq> [] \<and> length (rows_of_fills s) \<le> 100) fs"
proof -
  have "concat (map rows_of_orders (insertOrderData (insertsOf w))) = insertsOf w"
    using insertBatches_concat[of rows_of_orders InsertOrders 0 "insertsOf w"] by (simp add: insertOrderData_def)
  moreover have "concat (map rows_of_fills (insertFillData (fillsOf w))) = fillsOf w"
    using insertBatches_concat[of rows_of_fills InsertFills 0 "fillsOf w"] by (simp add: insertFillData_def)
  moreover have "list_all (\<lambda>s. rows_of_orders s \<noteq> [] \<and> length (rows_of_orders s) \<le> 100) (insertOrderData (insertsOf w))"
    using insertBatches_sizes[of rows_of_orders InsertOrders] by (auto simp: list_all_iff insertOrderData_def maxBatchSize_def)
  moreover have "list_all (\<lambda>s. rows_of_fills s \<noteq> [] \<and> length (rows_of_fills s) \<le> 100) (insertFillData (fillsOf w))"
    using insertBatches_sizes[of rows_of_fills InsertFills] by (auto simp: list_all_iff insertFillData_def maxBatchSize_def)
  ultimately show ?thesis by (auto simp: transactionBody_def)
qed

text \<open>
  A duplicate read as a new message is not acknowledged: the batch ends at it, the database stays
  as it is, and neither it nor the messages after it are acknowledged, whereas the handler of pending
  messages acknowledges a duplicate.
\<close>

theorem new_duplicate_stays_unacknowledged:
  assumes "refuses_duplicates transaction keys" "rolls_back transaction" "res_writer r = Some w" "hasRowsToWrite w"
    and "res_correlationId r \<in> keys (co_db c)" "parse message = Received r"
  shows "readOneClientBatch parse (handleResponse transaction) (Some [(messageId, message) # rest]) c = Return () c
    \<and> eachPending parse (handleResponse transaction) [Some (messageId, message)] c = Return () (ack messageId c)"
proof -
  have "handleResponse transaction r (co_db c) = Inl (co_db c, duplicateCode)"
    using assms(1,3-5) by (simp add: handleResponse_def refuses_duplicates_def transactionBody_def)
  then show ?thesis using assms(6) by (simp add: readOneClientBatch_def pendingClientEntry_def ack_def)
qed

theorem new_duplicate_stays_unacknowledged_witness:
  "\<exists>c. co_db c = ([''c1''], []) \<and> co_acked c = []
    \<and> readOneClientBatch Received (handleResponse sample_transaction) (Some [[(''1'', sample_response)]]) c = Return () c"
  using new_duplicate_stays_unacknowledged[of sample_transaction "set \<circ> fst" sample_response _
      "\<lparr>co_db = ([''c1''], []), co_acked = []\<rparr>" Received sample_response "''1''" "[]"] sample_transaction_laws
  by (force simp: sample_response_def hasRowsToWrite_def)

section \<open>An idle exchange\<close>

definition at_risk :: "string \<Rightarrow> jsnum \<Rightarrow> TUser \<Rightarrow> bool" where
  "at_risk m price u \<longleftrightarrow>
     (case getUserMarketPosition (u_positions u) m of
        None \<Rightarrow> False
      | Some (_, p) \<Rightarrow> if p_type p = LONG then p_liquidationPrice p \<ge> price else p_liquidationPrice p \<le> price)"

lemma sweep_quiet:
  assumes "\<forall>k u. getUserById (users (store (sw_engine sw))) k = Some u \<longrightarrow> \<not> at_risk m price u"
  shows "foldl (sweepUser rt m price) sw ks = sw"
proof -
  have "sweepUser rt m price sw k = sw" for k
  proof (cases "getUserById (users (store (sw_engine sw))) k")
    case (Some u)
    then have "\<not> at_risk m price u" using assms by blast
    then show ?thesis using Some by (auto simp: sweepUser_def at_risk_def split: option.split)
  qed (simp add: sweepUser_def)
  then show ?thesis by (induction ks) simp_all
qed

text \<open>
  A price update that reaches no liquidation price writes nothing. The writer payload of the
  sweep has no row, so that the persistence service opens no transaction for it, no account is told
  anything and no account changes; only the index price and the public frame are new.
\<close>

theorem quiet_price_update_writes_nothing:
  assumes "store_ok (store e)" "map_of (supportedAssets (store e)) asset = Some m"
    and "map_of (orderbooks (store e)) m \<noteq> None"
    and "\<forall>k u. getUserById (users (store e)) k = Some u \<longrightarrow> \<not> at_risk m price u"
  shows "\<exists>resp e'. liqudationChecks rt asset price e = Return resp e' \<and> users (store e') = users (store e)
    \<and> sr_wsUser resp = []
    \<and> handleResponse transaction \<lparr>res_correlationId = k, res_writer = Some (writer (sr_match resp))\<rparr> db = Inr db"
proof -
  let ?sw = "\<lparr>sw_engine = setIndexPrice m price e, sw_responses = [], sw_trades = [], sw_events = []\<rparr>"
  have us: "users (store (setIndexPrice m price e)) = users (store e)" by (simp add: setIndexPrice_def split: option.split)
  have sw: "foldl (sweepUser rt m price) ?sw (map fst (users (store e))) = ?sw"
    using sweep_quiet[of ?sw m price rt] assms(4) us by simp
  have "indexOf (store (setIndexPrice m price e)) m = Some price" using assms(3)
    by (auto simp: setIndexPrice_def indexOf_def update_conv')
  then obtain ob where ob: "map_of (orderbooks (store (setIndexPrice m price e))) m = Some ob" by (auto simp: indexOf_def)
  obtain ws j where "publicPayload rt m None (setIndexPrice m price e) = Return ws ((setIndexPrice m price e)
      \<lparr>store := (store (setIndexPrice m price e))\<lparr>lastUpdateId := lastUpdateId (store (setIndexPrice m price e)) + 1\<rparr>,
       clock_reads := j\<rparr>)"
    using publicPayload_returns[of any_level any_qty "setIndexPrice m price e" m rt None] setIndexPrice_ok[OF assms(1)] ob
    by (auto simp: store_ok_def)
  then show ?thesis using sw us ob
    by (simp add: liqudationChecks_def assms(2) Let_def arrayToObjectUtil_def handleResponse_def hasRowsToWrite_def)
qed

theorem quiet_price_update_writes_nothing_witness:
  "\<exists>resp e'. liqudationChecks sample_rt SOL (Fin 80) sample_engine = Return resp e'
    \<and> handleResponse sample_transaction \<lparr>res_correlationId = ''c'', res_writer = Some (writer (sr_match resp))\<rparr> ([], [])
      = Inr ([], [])"
proof -
  have "\<forall>k u. getUserById (users (store sample_engine)) k = Some u \<longrightarrow> \<not> at_risk SOL_ID (Fin 80) u"
    by (auto simp: sample_engine_def sample_store_def getUserById_def new_user_def at_risk_def getUserMarketPosition_def
        split: if_splits)
  from quiet_price_update_writes_nothing[OF sample_ok _ _ this, of SOL sample_rt sample_transaction "''c''" "([], [])"]
  show ?thesis using sample_book_found by (auto simp: sample_engine_def sample_store_def)
qed

end
