(* ===== verification/JsMath.thy ===== *)
theory JsMath
  imports JsString
begin

text \<open>
  The functions of \<open>Math\<close> and \<open>Number\<close> that the services around the engine use, on doubles: the
  integral ones are exact, \<open>Math.min\<close> and \<open>Math.max\<close> give \<open>NaN\<close> as soon as an argument is.
\<close>

definition js_finite :: "jsnum \<Rightarrow> bool" where
  "js_finite x = (case x of Fin r \<Rightarrow> True | _ \<Rightarrow> False)"

definition js_floor :: "jsnum \<Rightarrow> jsnum" where
  "js_floor x = (case x of Fin r \<Rightarrow> Fin (of_int \<lfloor>r\<rfloor>) | _ \<Rightarrow> x)"

definition js_ceil :: "jsnum \<Rightarrow> jsnum" where
  "js_ceil x = (case x of Fin r \<Rightarrow> Fin (of_int \<lceil>r\<rceil>) | _ \<Rightarrow> x)"

text \<open>\<open>Math.round\<close>: the nearest integer, halves up.\<close>

definition js_round :: "jsnum \<Rightarrow> jsnum" where
  "js_round x = (case x of Fin r \<Rightarrow> Fin (of_int \<lfloor>r + 1 / 2\<rfloor>) | _ \<Rightarrow> x)"

definition js_min :: "jsnum \<Rightarrow> jsnum \<Rightarrow> jsnum" where
  "js_min x y = (if x = NaN \<or> y = NaN then NaN else if y < x then y else x)"

definition js_max :: "jsnum \<Rightarrow> jsnum \<Rightarrow> jsnum" where
  "js_max x y = (if x = NaN \<or> y = NaN then NaN else if x < y then y else x)"

text \<open>\<open>2 ** k\<close> for an integer \<open>k\<close>, or one of the values that are no number.\<close>

definition js_exp2 :: "jsnum \<Rightarrow> jsnum" where
  "js_exp2 x = (case x of Fin k \<Rightarrow> js (2 powi \<lfloor>k\<rfloor>) | PInf \<Rightarrow> PInf | NInf \<Rightarrow> Fin 0 | NaN \<Rightarrow> NaN)"

lemma js_finite_Fin [simp]: "js_finite (Fin r)"
  by (simp add: js_finite_def)

lemma js_finiteE: "js_finite x \<Longrightarrow> (\<And>r. x = Fin r \<Longrightarrow> P) \<Longrightarrow> P"
  by (cases x) (auto simp: js_finite_def)

lemma js_min_bound: "x \<noteq> NaN \<Longrightarrow> y \<noteq> NaN \<Longrightarrow> js_min x y \<le> x \<and> js_min x y \<le> y"
  by (cases x; cases y) (auto simp: js_min_def less_eq_jsnum_def)

lemma js_max_bound: "x \<noteq> NaN \<Longrightarrow> y \<noteq> NaN \<Longrightarrow> x \<le> js_max x y \<and> y \<le> js_max x y"
  by (cases x; cases y) (auto simp: js_max_def less_eq_jsnum_def)

section \<open>\<open>Number.parseFloat\<close>\<close>

text \<open>
  The longest prefix that is a decimal literal, after leading space; unlike \<open>Number\<close> it ignores what
  follows and knows no other radix.
\<close>

definition js_parse_float :: "string \<Rightarrow> jsnum" where
  "js_parse_float s =
     (let t = dropWhile is_space s;
          body = (if take 1 t = ''-'' \<or> take 1 t = ''+'' then drop 1 t else t);
          v = (if take 8 body = ''Infinity'' then PInf
               else case find (\<lambda>n. js_unsigned (take n body) \<noteq> None) (rev [1..<Suc (length body)]) of
                      None \<Rightarrow> NaN
                    | Some n \<Rightarrow> js (the (js_unsigned (take n body))))
      in if take 1 t = ''-'' then - v else v)"

lemma longest_prefix:
  assumes "js_unsigned s = Some v"
  shows "find (\<lambda>n. js_unsigned (take n s) \<noteq> None) (rev [1..<Suc (length s)]) = Some (length s)"
proof -
  have "s \<noteq> []" using js_unsigned_head[OF assms] by auto
  then have "[1..<Suc (length s)] = [1..<length s] @ [length s]" by (cases s) auto
  then show ?thesis using assms by simp
qed

lemma js_parse_float_literal:
  assumes "js_unsigned (c # t) = Some v" "is_digit c" shows "js_parse_float (c # t) = js v"
proof -
  have c: "c \<noteq> CHR ''-''" "c \<noteq> CHR ''+''" "c \<noteq> CHR ''I''" "\<not> is_space c"
    using assms(2) by (auto simp: is_digit_def is_space_def)
  have "take 8 (c # t) \<noteq> ''Infinity''" using c(3) by (simp add: numeral_eq_Suc)
  then show ?thesis using assms(1) c longest_prefix[OF assms(1)]
    unfolding js_parse_float_def Let_def by (simp del: upt_Suc)
qed

lemma js_parse_float_string:
  assumes "is_double (Fin r)" shows "js_parse_float (js_string (Fin r)) = Fin r"
proof -
  have pos: "js_parse_float (string_of_pos a) = Fin a \<and> js_parse_float (CHR ''-'' # string_of_pos a) = Fin (- a)"
    if a: "0 < a" "binary64 a" "a < 2 ^ 1024" for a
  proof -
    obtain v where v: "js_unsigned (string_of_pos a) = Some v" "js v = Fin a" using string_of_pos_props[OF a] by blast
    obtain c t where ct: "string_of_pos a = c # t" "is_digit c \<or> c = CHR ''.''" using js_unsigned_head v(1) by blast
    have c: "c \<noteq> CHR ''-''" "c \<noteq> CHR ''+''" "c \<noteq> CHR ''I''" "\<not> is_space c" "\<not> is_space (CHR ''-'')"
      using ct(2) by (auto simp: is_digit_def is_space_def)
    have inf: "take 8 (c # t) \<noteq> ''Infinity''" using c(3) by (simp add: numeral_eq_Suc)
    have "find (\<lambda>n. js_unsigned (take n (c # t)) \<noteq> None) (rev [1..<Suc (length (c # t))]) = Some (length (c # t))"
      using longest_prefix v(1) by (simp only: ct(1))
    then have "js_parse_float (c # t) = Fin a \<and> js_parse_float (CHR ''-'' # c # t) = Fin (- a)"
      using v c inf unfolding ct(1) js_parse_float_def Let_def by (simp del: upt_Suc)
    then show ?thesis by (simp add: ct(1))
  qed
  show ?thesis
  proof (cases r "0 :: rat" rule: linorder_cases)
    case less
    then show ?thesis using assms pos[of "- r"] by (auto simp: js_string.simps)
  next
    case equal
    have "js_unsigned ''0'' = Some 0" by (simp add: js_unsigned_def is_digit_def nat_of_digits_def digit_val_def)
    then have "js_parse_float ''0'' = Fin 0" by (simp add: js_parse_float_def is_space_def)
    then show ?thesis using equal by (simp add: js_string.simps)
  next
    case greater
    then show ?thesis using assms pos[of r] by (auto simp: js_string.simps)
  qed
qed

section \<open>Sorting\<close>

text \<open>\<open>Array.prototype.sort\<close> is stable: an element goes before the first one its comparator puts after it.\<close>

fun insert_by :: "('a \<Rightarrow> 'a \<Rightarrow> jsnum) \<Rightarrow> 'a \<Rightarrow> 'a list \<Rightarrow> 'a list" where
  "insert_by compare x [] = [x]"
| "insert_by compare x (y # ys) = (if compare y x < 0 then y # insert_by compare x ys else x # y # ys)"

definition sort_by :: "('a \<Rightarrow> 'a \<Rightarrow> jsnum) \<Rightarrow> 'a list \<Rightarrow> 'a list" where
  "sort_by compare xs = foldr (insert_by compare) xs []"

lemma insert_by_mset [simp]: "mset (insert_by c x xs) = add_mset x (mset xs)"
  by (induction xs) auto

lemma sort_by_mset [simp]: "mset (sort_by c xs) = mset xs"
  by (induction xs) (auto simp: sort_by_def)

lemma insert_by_set [simp]: "set (insert_by c x xs) = insert x (set xs)"
  by (induction xs) auto

lemma sort_by_set [simp]: "set (sort_by c xs) = set xs"
  by (induction xs) (auto simp: sort_by_def)

end
