(* ===== verification/Resilience.thy ===== *)
theory Resilience
  imports JsMath
begin

text \<open>
  The shared policy of the services towards Redis, \<open>packages/shared/src/redis-resilience.ts\<close>: the
  backoff, which errors are the connection's, the loop of a stream listener, and the bound on the
  streams. A listener's loop has no end of its own: it is modelled over any number of the results of
  its steps.
\<close>

definition reconnectDelayMs :: "nat \<Rightarrow> nat" where
  "reconnectDelayMs retries = min (100 * 2 ^ min retries 5) 3000"

text \<open>What the test of an error reads: its constructor's name and its \<open>code\<close>, where it has them.\<close>

record thrown =
  th_name :: "string option"
  th_code :: "string option"

definition connection_error_names :: "string list" where
  "connection_error_names =
     [''SocketClosedUnexpectedlyError'', ''ConnectionTimeoutError'', ''SocketTimeoutError'', ''ClientClosedError'',
      ''ClientOfflineError'', ''DisconnectsClientError'', ''ReconnectStrategyError'']"

definition connection_error_codes :: "string list" where
  "connection_error_codes =
     [''ECONNREFUSED'', ''ECONNRESET'', ''EPIPE'', ''ETIMEDOUT'', ''EHOSTUNREACH'', ''ENETUNREACH'', ''ENOTFOUND'']"

text \<open>\<open>None\<close> is a thrown value that is no object.\<close>

definition isRedisConnectionError :: "thrown option \<Rightarrow> bool" where
  "isRedisConnectionError err =
     (case err of
        None \<Rightarrow> False
      | Some t \<Rightarrow>
          (case th_name t of Some name \<Rightarrow> name \<in> set connection_error_names | None \<Rightarrow> False)
          \<or> (case th_code t of Some code \<Rightarrow> code \<in> set connection_error_codes | None \<Rightarrow> False))"

datatype step_result = StepDone | StepFailed "thrown option"

text \<open>The pauses of the loop, in milliseconds, and the error that ended it, if one did.\<close>

fun runStreamLoop :: "nat \<Rightarrow> step_result list \<Rightarrow> nat list \<times> thrown option option" where
  "runStreamLoop outage [] = ([], None)"
| "runStreamLoop outage (StepDone # steps) = runStreamLoop 0 steps"
| "runStreamLoop outage (StepFailed err # steps) =
     (if \<not> isRedisConnectionError err then ([], Some err)
      else
        (case runStreamLoop (outage + 1) steps of
           (pauses, end) \<Rightarrow> (reconnectDelayMs (outage + 1) # pauses, end)))"

definition default_stream_maxlen :: jsnum where
  "default_stream_maxlen = Fin 60000"

definition streamMaxLen :: "string option \<Rightarrow> jsnum" where
  "streamMaxLen raw =
     (case raw of
        None \<Rightarrow> default_stream_maxlen
      | Some s \<Rightarrow>
          (let parsed = js_number s
           in if \<not> js_finite parsed \<or> parsed < Fin 1000 then default_stream_maxlen else js_floor parsed))"

lemma reconnectDelayMs_bounds: "0 < n \<Longrightarrow> 200 \<le> reconnectDelayMs n \<and> reconnectDelayMs n \<le> 3000"
proof -
  assume "0 < n"
  then have "(2::nat) ^ 1 \<le> 2 ^ min n 5" by (intro power_increasing) auto
  then show ?thesis by (simp add: reconnectDelayMs_def)
qed

lemma reconnectDelayMs_mono: "m \<le> n \<Longrightarrow> reconnectDelayMs m \<le> reconnectDelayMs n"
proof -
  assume "m \<le> n"
  then have "(2::nat) ^ min m 5 \<le> 2 ^ min n 5" by (intro power_increasing) auto
  then show ?thesis unfolding reconnectDelayMs_def by linarith
qed

lemma streamMaxLen_at_least: "Fin 1000 \<le> streamMaxLen raw"
proof (cases raw)
  case (Some s)
  show ?thesis
  proof (cases "js_number s")
    case (Fin r)
    have "1000 \<le> r \<Longrightarrow> 1000 \<le> \<lfloor>r\<rfloor>" by (simp add: le_floor_iff)
    then show ?thesis using Some Fin
      by (auto simp: streamMaxLen_def js_finite_def js_floor_def default_stream_maxlen_def)
  qed (use Some in \<open>auto simp: streamMaxLen_def js_finite_def default_stream_maxlen_def\<close>)
qed (simp add: streamMaxLen_def default_stream_maxlen_def)

text \<open>A step that fails for another reason than the connection.\<close>

definition real_failure :: "step_result \<Rightarrow> bool" where
  "real_failure r = (case r of StepDone \<Rightarrow> False | StepFailed err \<Rightarrow> \<not> isRedisConnectionError err)"

lemma real_failure_simps [simp]:
  "\<not> real_failure StepDone" "real_failure (StepFailed err) \<longleftrightarrow> \<not> isRedisConnectionError err"
  by (simp_all add: real_failure_def)

text \<open>
  A listener survives Redis. Whatever its steps do, the loop ends exactly with the first failure
  that is not the connection's, which it passes on; every lost connection before is only a pause, of
  at least 200 milliseconds and at most three seconds.
\<close>

theorem listener_survives_redis:
  "snd (runStreamLoop outage steps) =
     (case filter real_failure steps of [] \<Rightarrow> None | StepFailed err # _ \<Rightarrow> Some err | StepDone # _ \<Rightarrow> None)
   \<and> list_all (\<lambda>ms. 200 \<le> ms \<and> ms \<le> 3000) (fst (runStreamLoop outage steps))
   \<and> length (fst (runStreamLoop outage steps)) =
       length (filter (\<lambda>r. r \<noteq> StepDone) (takeWhile (\<lambda>r. \<not> real_failure r) steps))"
proof (induction outage steps rule: runStreamLoop.induct)
  case (3 outage err steps)
  obtain pauses failure where r: "runStreamLoop (outage + 1) steps = (pauses, failure)" by force
  show ?case
  proof (cases "isRedisConnectionError err")
    case True
    then show ?thesis using 3 r reconnectDelayMs_bounds[of "outage + 1"] by simp
  qed simp
qed simp_all

end
