(* ===== verification/UserFeed.thy ===== *)
theory UserFeed
  imports JsMath UserEvents
begin

text \<open>
  The browser's side of the private channel: the reducers of \<open>apps/web/lib/user-feed-core.ts\<close> that
  turn one event into the new open orders, the new positions and the fill notices, with the rows
  \<open>orders.tsx\<close> and \<open>positions.tsx\<close> make for them. Events are the ones the engine sends; parsing a
  frame (\<open>JSON.parse\<close> and the schemas) is not modelled.
\<close>

section \<open>Open orders\<close>

definition isResting :: "TOrderStatus \<Rightarrow> bool" where
  "isResting status \<longleftrightarrow> status \<in> {Open, PartiallyFilled}"

text \<open>Status and filled quantity, as held and as they come in.\<close>

definition supersedes :: "TOrderStatus \<times> string \<Rightarrow> TOrderStatus \<times> string \<Rightarrow> bool" where
  "supersedes held incoming =
     (if \<not> isResting (fst held) then False else js_number (snd incoming) \<ge> js_number (snd held))"

record OpenOrderLike =
  ol_id :: string
  ol_status :: TOrderStatus
  ol_filledQty :: string

fun reduceOpenOrders ::
  "(TUserOrder \<Rightarrow> 'a OpenOrderLike_scheme option) \<Rightarrow> 'a OpenOrderLike_scheme list \<Rightarrow> TUserEvent
    \<Rightarrow> 'a OpenOrderLike_scheme list" where
  "reduceOpenOrders toRow rows (OrderNew order origin) =
     (if \<not> isResting (uo_status order) then rows
      else
        (case toRow order of
           None \<Rightarrow> rows
         | Some row \<Rightarrow>
             (case find_index (\<lambda>r. ol_id r = ol_id row) rows of
                None \<Rightarrow> rows @ [row]
              | Some existing \<Rightarrow> rows[existing := row])))"
| "reduceOpenOrders toRow rows (OrderUpdate orderId marketId status filledQty) =
     (case find_index (\<lambda>r. ol_id r = orderId) rows of
        None \<Rightarrow> rows
      | Some index \<Rightarrow>
          (let held = rows ! index
           in if \<not> supersedes (ol_status held, ol_filledQty held) (status, filledQty) then rows
              else if \<not> isResting status then filter (\<lambda>r. ol_id r \<noteq> orderId) rows
              else rows[index := held\<lparr>ol_status := status, ol_filledQty := filledQty\<rparr>]))"
| "reduceOpenOrders toRow rows (FillEvent _ _ _ _ _ _ _ _) = rows"
| "reduceOpenOrders toRow rows (PositionEvent _ _) = rows"
| "reduceOpenOrders toRow rows (BalanceEvent _ _) = rows"

text \<open>A market as the terminal knows it, and the row it makes of an order it is told of.\<close>

record Market =
  mk_id :: string
  mk_slug :: string
  mk_base :: string
  mk_quote :: string
  mk_binanceSymbol :: string
  mk_priceDecimals :: nat
  mk_sizeDecimals :: nat
  mk_tickSize :: jsnum
  mk_maxLeverage :: jsnum

record OpenOrder = OpenOrderLike +
  or_marketId :: string
  or_positionType :: TPositionType
  or_orderType :: TOrderType
  or_qty :: string
  or_price :: string
  or_slippage :: jsnum
  or_initialMargin :: string
  or_createdAt :: int
  or_market :: Market

definition toRow :: "Market list \<Rightarrow> TUserOrder \<Rightarrow> OpenOrder option" where
  "toRow markets order =
     (case find (\<lambda>m. mk_id m = uo_marketId order) markets of
        None \<Rightarrow> None
      | Some market \<Rightarrow> Some
          \<lparr>ol_id = uo_id order, ol_status = uo_status order, ol_filledQty = uo_filledQty order,
           or_marketId = uo_marketId order, or_positionType = uo_positionType order,
           or_orderType = uo_orderType order, or_qty = uo_qty order, or_price = uo_price order,
           or_slippage = uo_slippage order, or_initialMargin = uo_initialMargin order,
           or_createdAt = uo_createdAt order, or_market = market\<rparr>)"

section \<open>Positions\<close>

definition reducePositionEntries ::
  "('t \<Rightarrow> string) \<Rightarrow> (TUserPosition \<Rightarrow> 't option) \<Rightarrow> 't list \<Rightarrow> TUserEvent \<Rightarrow> 't list" where
  "reducePositionEntries marketIdOf toEntry entries event =
     (case event of
        PositionEvent marketId position \<Rightarrow>
          (case position of
             None \<Rightarrow> filter (\<lambda>e. marketIdOf e \<noteq> marketId) entries
           | Some p \<Rightarrow>
               (case toEntry p of
                  None \<Rightarrow> entries
                | Some entry \<Rightarrow>
                    (case find_index (\<lambda>e. marketIdOf e = marketId) entries of
                       None \<Rightarrow> entries @ [entry]
                     | Some index \<Rightarrow> entries[index := entry])))
      | _ \<Rightarrow> entries)"

record PositionEntry =
  pe_position :: TUserPosition
  pe_market :: Market

definition toEntry :: "Market list \<Rightarrow> TUserPosition \<Rightarrow> PositionEntry option" where
  "toEntry markets position =
     (case find (\<lambda>m. mk_id m = up_marketId position) markets of
        None \<Rightarrow> None
      | Some market \<Rightarrow> Some \<lparr>pe_position = position, pe_market = market\<rparr>)"

section \<open>Fills\<close>

record FillGroup =
  fg_orderId :: string
  fg_marketId :: string
  fg_side :: TPositionType
  fg_role :: TRole
  fg_qty :: string
  fg_price :: string
  fg_fillIds :: "string list"
  fg_ts :: int

text \<open>A group with its running notional and size, as the map holds it by order.\<close>

type_synonym fill_groups = "(string \<times> FillGroup \<times> jsnum \<times> jsnum) list"

fun groupFill :: "string set \<Rightarrow> fill_groups \<Rightarrow> TUserEvent \<Rightarrow> fill_groups" where
  "groupFill seen groups (FillEvent fillId orderId marketId side role price_s qty_s ts) =
     (if fillId \<in> seen then groups
      else
        (let qty = js_number qty_s; price = js_number price_s
         in if \<not> js_finite qty \<or> \<not> js_finite price then groups
            else if qty \<le> 0 \<or> price \<le> 0 then groups
            else
              (case map_of groups orderId of
                 None \<Rightarrow> AList.update orderId
                   (\<lparr>fg_orderId = orderId, fg_marketId = marketId, fg_side = side, fg_role = role, fg_qty = qty_s,
                     fg_price = price_s, fg_fillIds = [fillId], fg_ts = ts\<rparr>, qty * price, qty) groups
               | Some (existing, notional, volume) \<Rightarrow>
                   if fillId \<in> set (fg_fillIds existing) then groups
                   else
                     (let notional' = notional + qty * price; volume' = volume + qty
                      in AList.update orderId
                        (existing\<lparr>fg_fillIds := fg_fillIds existing @ [fillId], fg_qty := js_string volume',
                           fg_price := js_string (notional' / volume'), fg_ts := max (fg_ts existing) ts\<rparr>,
                         notional', volume') groups))))"
| "groupFill seen groups (OrderUpdate _ _ _ _) = groups"
| "groupFill seen groups (OrderNew _ _) = groups"
| "groupFill seen groups (PositionEvent _ _) = groups"
| "groupFill seen groups (BalanceEvent _ _) = groups"

definition groupFills :: "TUserEvent list \<Rightarrow> string set \<Rightarrow> FillGroup list" where
  "groupFills events seen = map (fst \<circ> snd) (foldl (groupFill seen) [] events)"

definition max_seen_fills :: nat where
  "max_seen_fills = 500"

text \<open>A set remembers the order in which its members came; \<open>touch\<close> adds one.\<close>

definition rememberFills :: "string list \<Rightarrow> string list \<Rightarrow> string list" where
  "rememberFills seen ids =
     (let next = seen @ ids in foldl touch [] (drop (length next - max_seen_fills) next))"

end
