(* ===== verification/UserFeedProperties.thy ===== *)
theory UserFeedProperties
  imports UserFeed EventProperties
begin

text \<open>
  The properties of the browser's reducers: applying events again that the list already reflects,
  what is kept of each order and position, and the fills behind a notice.
\<close>

section \<open>Finding a row\<close>

lemma find_find_index: "find P xs = map_option (nth xs) (find_index P xs)"
  by (induction xs) (auto simp: option.map_comp comp_def)

lemma find_append: "find P (xs @ ys) = (case find P xs of None \<Rightarrow> find P ys | Some x \<Rightarrow> Some x)"
  by (induction xs) auto

lemma find_update_first: "find_index P xs = Some k \<Longrightarrow> P x \<Longrightarrow> find P (xs[k := x]) = Some x"
  by (induction xs arbitrary: k) (auto split: if_splits)

lemma find_update_other:
  "find_index Q xs = Some k \<Longrightarrow> (\<And>y. Q y \<Longrightarrow> \<not> P y) \<Longrightarrow> \<not> P x \<Longrightarrow> find P (xs[k := x]) = find P xs"
  by (induction xs arbitrary: k) (auto split: if_splits)

lemma find_filter_other: "(\<And>x. P x \<Longrightarrow> Q x) \<Longrightarrow> find P (filter Q xs) = find P xs"
  by (induction xs) auto

lemma find_filter_none: "(\<And>x. P x \<Longrightarrow> \<not> Q x) \<Longrightarrow> find P (filter Q xs) = None"
  by (induction xs) auto

lemma find_index_find: "find_index P xs = None \<longleftrightarrow> find P xs = None"
  by (simp add: find_find_index)

section \<open>One order's row\<close>

definition row_of :: "string \<Rightarrow> 'a OpenOrderLike_scheme list \<Rightarrow> 'a OpenOrderLike_scheme option" where
  "row_of i rows = find (\<lambda>r. ol_id r = i) rows"

definition applied ::
  "TOrderStatus \<times> string \<Rightarrow> 'a OpenOrderLike_scheme option \<Rightarrow> 'a OpenOrderLike_scheme option" where
  "applied p c =
     (case c of
        None \<Rightarrow> None
      | Some h \<Rightarrow>
          if \<not> supersedes (ol_status h, ol_filledQty h) p then c
          else if isResting (fst p) then Some (h\<lparr>ol_status := fst p, ol_filledQty := snd p\<rparr>)
          else None)"

text \<open>What one event does to the row of the order \<open>i\<close>.\<close>

fun cell ::
  "(TUserOrder \<Rightarrow> 'a OpenOrderLike_scheme option) \<Rightarrow> string \<Rightarrow> 'a OpenOrderLike_scheme option \<Rightarrow> TUserEvent
    \<Rightarrow> 'a OpenOrderLike_scheme option" where
  "cell mkRow i c (OrderNew order origin) =
     (if uo_id order = i \<and> isResting (uo_status order) then (case mkRow order of None \<Rightarrow> c | Some r \<Rightarrow> Some r) else c)"
| "cell mkRow i c (OrderUpdate orderId marketId status filledQty) = (if orderId = i then applied (status, filledQty) c else c)"
| "cell mkRow i c (FillEvent _ _ _ _ _ _ _ _) = c"
| "cell mkRow i c (PositionEvent _ _) = c"
| "cell mkRow i c (BalanceEvent _ _) = c"

text \<open>
  A source of rows: the row made for an order is that order's, in its state. It is the contract
  between the reducer and the component that renders the table.
\<close>

locale row_source =
  fixes mkRow :: "TUserOrder \<Rightarrow> 'a OpenOrderLike_scheme option"
  assumes row_id: "mkRow order = Some row \<Longrightarrow> ol_id row = uo_id order"
    and row_state: "mkRow order = Some row \<Longrightarrow> ol_status row = uo_status order \<and> ol_filledQty row = uo_filledQty order"
begin

lemma row_of_reduce: "row_of i (reduceOpenOrders mkRow rows ev) = cell mkRow i (row_of i rows) ev"
proof (cases ev)
  case (OrderNew order origin)
  show ?thesis
  proof (cases "isResting (uo_status order)")
    case True
    show ?thesis
    proof (cases "mkRow order")
      case (Some row)
      note id = row_id[OF Some]
      show ?thesis
      proof (cases "find_index (\<lambda>r. ol_id r = ol_id row) rows")
        case None
        note n = None[unfolded id]
        show ?thesis using True Some OrderNew id n n[unfolded find_index_find]
          by (auto simp: row_of_def find_append split: option.split)
      next
        case (Some k)
        then show ?thesis using True \<open>mkRow order = Some row\<close> OrderNew id
          by (auto simp: row_of_def find_update_first find_update_other)
      qed
    qed (use OrderNew in simp)
  qed (use OrderNew in simp)
next
  case (OrderUpdate oid m st f)
  show ?thesis
  proof (cases "find_index (\<lambda>r. ol_id r = oid) rows")
    case None
    then show ?thesis using OrderUpdate None[unfolded find_index_find] by (auto simp: row_of_def applied_def)
  next
    case (Some k)
    then have h: "row_of oid rows = Some (rows ! k)" "ol_id (rows ! k) = oid"
      using find_index_nth[OF Some] by (simp_all add: row_of_def find_find_index)
    show ?thesis
      using Some h OrderUpdate find_update_first[OF Some] find_update_other[OF Some, of "\<lambda>r. ol_id r = i"]
        find_filter_other[of "\<lambda>r. ol_id r = i" "\<lambda>r. ol_id r \<noteq> oid" rows] find_filter_none[of "\<lambda>r. ol_id r = i" "\<lambda>r. ol_id r \<noteq> oid" rows]
      by (auto simp: row_of_def applied_def Let_def)
  qed
qed simp_all

lemma row_of_events: "row_of i (foldl (reduceOpenOrders mkRow) rows evs) = foldl (cell mkRow i) (row_of i rows) evs"
  by (induction evs arbitrary: rows) (simp_all add: row_of_reduce)

end

interpretation orders: row_source "toRow markets" for markets
  by unfold_locales (auto simp: toRow_def split: option.splits)

section \<open>Replaying updates\<close>

text \<open>An earlier state of an order against a later one: it was resting, and had filled no more.\<close>

definition earlier :: "TOrderStatus \<times> string \<Rightarrow> TOrderStatus \<times> string \<Rightarrow> bool" where
  "earlier p q \<longleftrightarrow> isResting (fst p) \<and> js_number (snd p) \<le> js_number (snd q)"

lemma applied_again: "applied p (applied p c) = applied p c"
  by (auto simp: applied_def supersedes_def split: option.split)

lemma applied_progress:
  assumes "isResting (ol_status g)" "\<forall>p \<in> set ps. js_number (ol_filledQty g) \<le> js_number (snd p)" "sorted_wrt earlier ps"
  shows "foldl (\<lambda>c p. applied p c) (Some g) ps =
    (if ps = [] then Some g
     else if isResting (fst (last ps)) then Some (g\<lparr>ol_status := fst (last ps), ol_filledQty := snd (last ps)\<rparr>) else None)"
  using assms
proof (induction ps arbitrary: g)
  case (Cons p ps)
  have sup: "supersedes (ol_status g, ol_filledQty g) p" using Cons.prems by (simp add: supersedes_def)
  show ?case
  proof (cases ps)
    case Nil
    then show ?thesis using sup by (simp add: applied_def)
  next
    case (Cons q qs)
    then have "isResting (fst p)" "\<forall>q \<in> set ps. js_number (snd p) \<le> js_number (snd q)"
      using Cons.prems(3) by (auto simp: earlier_def)
    moreover have "sorted_wrt earlier ps" using Cons.prems(3) by simp
    ultimately show ?thesis using Cons.IH[of "g\<lparr>ol_status := fst p, ol_filledQty := snd p\<rparr>"] sup Cons by (simp add: applied_def)
  qed
qed simp

lemma updates_replayed:
  assumes "sorted_wrt earlier ps"
  shows "foldl (\<lambda>c p. applied p c) (foldl (\<lambda>c p. applied p c) c ps) ps = foldl (\<lambda>c p. applied p c) c ps"
  using assms
proof (induction ps arbitrary: c)
  case (Cons u vs)
  let ?T = "foldl (\<lambda>c p. applied p c)"
  define s where "s = ?T (applied u c) vs"
  have srt: "sorted_wrt earlier vs" "\<forall>v \<in> set vs. earlier u v" using Cons.prems by auto
  have same: "?T s vs = s" unfolding s_def by (rule Cons.IH[OF srt(1)])
  have "?T (applied u s) vs = s"
  proof (cases "applied u s = s \<or> vs = []")
    case True
    then show ?thesis using same applied_again[of u c] by (auto simp: s_def)
  next
    case False
    then obtain h where h: "s = Some h" "isResting (ol_status h)" "js_number (ol_filledQty h) \<le> js_number (snd u)"
      by (cases s) (auto simp: applied_def supersedes_def split: if_splits)
    have u: "isResting (fst u)" "\<forall>v \<in> set vs. js_number (snd u) \<le> js_number (snd v)"
      using False srt(2) by (auto simp: earlier_def neq_Nil_conv)
    define x where "x = ?T (applied u c) (butlast vs)"
    have "?T (applied u c) (butlast vs @ [last vs]) = s" using False by (simp add: s_def)
    then have sx: "applied (last vs) x = Some h" using h(1) by (simp add: x_def)
    then obtain g where g: "x = Some g" by (cases x) (auto simp: applied_def)
    have "js_number (snd u) \<le> js_number (snd (last vs))" using u(2) False by simp
    then have "js_number (ol_filledQty h) \<le> js_number (snd (last vs))" using h(3) js_le_trans by blast
    then have l: "isResting (fst (last vs))" "h = g\<lparr>ol_status := fst (last vs), ol_filledQty := snd (last vs)\<rparr>"
      using sx g h(2) by (auto simp: applied_def supersedes_def split: if_splits)
    have "applied u s = Some (h\<lparr>ol_status := fst u, ol_filledQty := snd u\<rparr>)"
      using h u(1) by (simp add: applied_def supersedes_def)
    then show ?thesis
      using applied_progress[of "h\<lparr>ol_status := fst u, ol_filledQty := snd u\<rparr>" vs] u srt(1) l False h(1) by simp
  qed
  then show ?case by (simp add: s_def)
qed simp

section \<open>Replaying events\<close>

fun concerns :: "string \<Rightarrow> TUserEvent \<Rightarrow> bool" where
  "concerns i (OrderNew order origin) \<longleftrightarrow> uo_id order = i"
| "concerns i (OrderUpdate orderId marketId status filledQty) \<longleftrightarrow> orderId = i"
| "concerns i _ \<longleftrightarrow> False"

fun state_of :: "TUserEvent \<Rightarrow> TOrderStatus \<times> string" where
  "state_of (OrderNew order origin) = (uo_status order, uo_filledQty order)"
| "state_of (OrderUpdate orderId marketId status filledQty) = (status, filledQty)"
| "state_of _ = (Pending, [])"

fun is_new :: "TUserEvent \<Rightarrow> bool" where
  "is_new (OrderNew order origin) \<longleftrightarrow> True"
| "is_new _ \<longleftrightarrow> False"

text \<open>
  A stretch of the channel in the order the engine sends it, as far as one order goes: it is created
  before it is updated, what it has filled does not decrease, and nothing follows its end.
\<close>

definition orderly :: "string \<Rightarrow> TUserEvent list \<Rightarrow> bool" where
  "orderly i evs \<longleftrightarrow>
     sorted_wrt (\<lambda>e e'. earlier (state_of e) (state_of e') \<and> \<not> is_new e') (filter (concerns i) evs)"

lemma cell_unconcerned: "\<not> concerns i e \<Longrightarrow> cell mkRow i c e = c"
  by (cases e) auto

lemma cells_filter: "foldl (cell mkRow i) c evs = foldl (cell mkRow i) c (filter (concerns i) evs)"
  by (induction evs arbitrary: c) (simp_all add: cell_unconcerned)

lemma cells_updates:
  "list_all (\<lambda>e. concerns i e \<and> \<not> is_new e) evs \<Longrightarrow>
     foldl (cell mkRow i) c evs = foldl (\<lambda>c p. applied p c) c (map state_of evs)"
proof (induction evs arbitrary: c)
  case (Cons e evs)
  then show ?case by (cases e) auto
qed simp

lemma sorted_updates:
  "sorted_wrt (\<lambda>e e'. earlier (state_of e) (state_of e') \<and> P e') evs \<Longrightarrow> sorted_wrt earlier (map state_of evs)"
  by (simp add: sorted_wrt_map) (rule sorted_wrt_mono_rel, auto)

lemma cells_replayed:
  assumes "orderly i evs"
  shows "foldl (cell mkRow i) (foldl (cell mkRow i) c evs) evs = foldl (cell mkRow i) c evs"
proof -
  define es where "es = filter (concerns i) evs"
  have es: "list_all (concerns i) es" "sorted_wrt (\<lambda>e e'. earlier (state_of e) (state_of e') \<and> \<not> is_new e') es"
    using assms by (auto simp: es_def orderly_def list_all_iff)
  have upd: "foldl (cell mkRow i) (foldl (cell mkRow i) c us) us = foldl (cell mkRow i) c us"
    if "list_all (\<lambda>e. concerns i e \<and> \<not> is_new e) us"
      "sorted_wrt (\<lambda>e e'. earlier (state_of e) (state_of e') \<and> \<not> is_new e') us" for us c
    using updates_replayed[OF sorted_updates[OF that(2)]] by (simp add: cells_updates[OF that(1)])
  have "foldl (cell mkRow i) (foldl (cell mkRow i) c es) es = foldl (cell mkRow i) c es"
  proof (cases es)
    case (Cons e us)
    have us: "list_all (\<lambda>e. concerns i e \<and> \<not> is_new e) us"
      "sorted_wrt (\<lambda>e e'. earlier (state_of e) (state_of e') \<and> \<not> is_new e') us"
      using es Cons by (auto simp: list_all_iff)
    show ?thesis
    proof (cases "is_new e")
      case True
      then obtain order origin where e: "e = OrderNew order origin" by (cases e) auto
      show ?thesis
      proof (cases "isResting (uo_status order) \<and> mkRow order \<noteq> None")
        case True
        then obtain r where "mkRow order = Some r" by blast
        then show ?thesis using True es(1) Cons e by simp
      next
        case False
        then have "cell mkRow i x e = x" for x using e by auto
        then show ?thesis using upd[OF us] Cons by simp
      qed
    next
      case False
      then show ?thesis using upd[of es c] us es Cons by simp
    qed
  qed simp
  then show ?thesis by (simp add: es_def cells_filter[symmetric])
qed

text \<open>
  Snapshot, then drain. When the events a snapshot of the open orders already reflects are
  delivered again, in their order, followed by the ones after them, every order ends with the row it
  has when each event is applied once: no row regresses, comes back, or is doubled.
\<close>

theorem replayed_events_change_nothing:
  assumes "orderly i seen"
  shows "row_of i (foldl (reduceOpenOrders (toRow markets)) (foldl (reduceOpenOrders (toRow markets)) rows seen) (seen @ later))
    = row_of i (foldl (reduceOpenOrders (toRow markets)) rows (seen @ later))"
  using cells_replayed[OF assms, of "toRow markets" "row_of i rows"] by (simp add: orders.row_of_events)

definition sample_order :: "string \<Rightarrow> TUserOrder" where
  "sample_order filled = \<lparr>uo_id = ''o1'', uo_marketId = SOL_ID, uo_positionType = LONG, uo_orderType = Limit,
     uo_status = Open, uo_qty = js_string (Fin 9), uo_filledQty = filled, uo_price = js_string (Fin 100),
     uo_slippage = 0, uo_initialMargin = js_string (Fin 100), uo_createdAt = 0\<rparr>"

definition sample_market :: Market where
  "sample_market = \<lparr>mk_id = SOL_ID, mk_slug = ''SOL-USD'', mk_base = ''SOL'', mk_quote = ''USD'',
     mk_binanceSymbol = ''SOLUSDT'', mk_priceDecimals = 2, mk_sizeDecimals = 2, mk_tickSize = Fin (1 / 100),
     mk_maxLeverage = Fin 30\<rparr>"

definition sample_life :: "TUserEvent list" where
  "sample_life = [OrderNew (sample_order (js_string (Fin 2))) User,
     OrderUpdate ''o1'' SOL_ID PartiallyFilled (js_string (Fin 5)), OrderUpdate ''o1'' SOL_ID Filled (js_string (Fin 9))]"

theorem replayed_events_change_nothing_witness:
  "row_of ''o1'' (foldl (reduceOpenOrders (toRow [sample_market]))
      (foldl (reduceOpenOrders (toRow [sample_market])) [] sample_life) (sample_life @ [])) =
   row_of ''o1'' (foldl (reduceOpenOrders (toRow [sample_market])) [] (sample_life @ []))"
proof -
  have "orderly ''o1'' sample_life"
    by (simp add: orderly_def sample_life_def sample_order_def earlier_def isResting_def)
  then show ?thesis by (rule replayed_events_change_nothing)
qed

text \<open>
  What the list holds. Whatever event arrives, the open orders keep one row per order and only
  orders that are resting.
\<close>

theorem open_orders_stay_open:
  assumes "distinct (map ol_id rows)" "list_all (\<lambda>r. isResting (ol_status r)) rows"
  shows "distinct (map ol_id (reduceOpenOrders (toRow markets) rows ev))
    \<and> list_all (\<lambda>r. isResting (ol_status r)) (reduceOpenOrders (toRow markets) rows ev)"
proof -
  have upd: "distinct (map ol_id (rows[k := x])) \<and> list_all (\<lambda>r. isResting (ol_status r)) (rows[k := x])"
    if "k < length rows" "ol_id (rows ! k) = ol_id x" "isResting (ol_status x)" for k and x :: OpenOrder
    using assms that map_list_update_same[of k rows ol_id x]
    by (auto simp: list_all_iff dest!: set_update_subset_insert[THEN subsetD])
  show ?thesis
  proof (cases ev)
    case (OrderNew order origin)
    show ?thesis
    proof (cases "toRow markets order")
      case (Some row)
      then have "ol_status row = uo_status order" using orders.row_state by blast
      then show ?thesis using assms OrderNew Some upd[of _ row] find_index_Some[of "\<lambda>r. ol_id r = ol_id row" rows]
          find_index_None[of "\<lambda>r. ol_id r = ol_id row" rows]
        by (auto split: option.split)
    qed (use assms OrderNew in simp)
  next
    case (OrderUpdate oid m st f)
    show ?thesis
    proof (cases "find_index (\<lambda>r. ol_id r = oid) rows")
      case (Some k)
      then show ?thesis using assms OrderUpdate find_index_Some[OF Some]
          upd[of k "(rows ! k)\<lparr>ol_status := st, ol_filledQty := f\<rparr>"]
        by (auto simp: Let_def list_all_iff distinct_map_filter)
    qed (use assms OrderUpdate in simp)
  qed (use assms in simp_all)
qed

theorem open_orders_stay_open_witness:
  "distinct (map ol_id (reduceOpenOrders (toRow [sample_market]) [] (OrderNew (sample_order (js_string (Fin 2))) User)))"
  using open_orders_stay_open[of "[]" "[sample_market]" "OrderNew (sample_order (js_string (Fin 2))) User"]
  by (simp del: reduceOpenOrders.simps)

text \<open>
  A creation delivered alone a second time brings back an order that is over: created, then
  filled, the order is off the list; created again, it is on the list as an open order with the
  quantity it had when it was placed. Unlike an update, the creation is not held against the state
  the list has.
\<close>

theorem redelivered_creation_revives_order:
  "row_of ''o1'' (foldl (reduceOpenOrders (toRow [sample_market])) [] sample_life) = None
   \<and> map_option (\<lambda>r. (ol_status r, ol_filledQty r)) (row_of ''o1'' (foldl (reduceOpenOrders (toRow [sample_market])) []
       (sample_life @ [hd sample_life]))) = Some (Open, js_string (Fin 2))"
  by (simp add: sample_life_def sample_order_def toRow_def sample_market_def row_of_def isResting_def supersedes_def Let_def)

section \<open>Positions\<close>

definition entry_of :: "('t \<Rightarrow> string) \<Rightarrow> string \<Rightarrow> 't list \<Rightarrow> 't option" where
  "entry_of marketIdOf m entries = find (\<lambda>e. marketIdOf e = m) entries"

text \<open>A position event names the market of the position it carries.\<close>

definition sane :: "TUserEvent \<Rightarrow> bool" where
  "sane ev \<longleftrightarrow> (case ev of PositionEvent m (Some p) \<Rightarrow> up_marketId p = m | _ \<Rightarrow> True)"

text \<open>The contract of a source of entries: the entry of a position is in the position's market.\<close>

locale entry_source =
  fixes marketIdOf :: "'t \<Rightarrow> string" and mkEntry :: "TUserPosition \<Rightarrow> 't option"
  assumes entry_market: "mkEntry p = Some e \<Longrightarrow> marketIdOf e = up_marketId p"
begin

definition slot :: "string \<Rightarrow> 't option \<Rightarrow> TUserEvent \<Rightarrow> 't option" where
  "slot m c ev =
     (case ev of
        PositionEvent m' None \<Rightarrow> if m' = m then None else c
      | PositionEvent m' (Some p) \<Rightarrow>
          if m' = m then (case mkEntry p of None \<Rightarrow> c | Some e \<Rightarrow> Some e) else c
      | _ \<Rightarrow> c)"

lemma entry_of_reduce:
  assumes "sane ev"
  shows "entry_of marketIdOf m (reducePositionEntries marketIdOf mkEntry entries ev) = slot m (entry_of marketIdOf m entries) ev"
proof (cases ev)
  case (PositionEvent m' position)
  show ?thesis
  proof (cases position)
    case None
    then show ?thesis using PositionEvent
        find_filter_other[of "\<lambda>e. marketIdOf e = m" "\<lambda>e. marketIdOf e \<noteq> m'" entries]
        find_filter_none[of "\<lambda>e. marketIdOf e = m" "\<lambda>e. marketIdOf e \<noteq> m'" entries]
      by (auto simp: reducePositionEntries_def slot_def entry_of_def)
  next
    case (Some p)
    show ?thesis
    proof (cases "mkEntry p")
      case (Some e)
      have id: "marketIdOf e = m'" using entry_market[OF Some] assms PositionEvent \<open>position = Some p\<close> by (simp add: sane_def)
      show ?thesis
      proof (cases "find_index (\<lambda>e. marketIdOf e = m') entries")
        case None
        then show ?thesis using PositionEvent \<open>position = Some p\<close> Some id None[unfolded find_index_find]
          by (auto simp: reducePositionEntries_def slot_def entry_of_def find_append split: option.split)
      next
        case (Some k)
        then show ?thesis using PositionEvent \<open>position = Some p\<close> \<open>mkEntry p = Some e\<close> id
          by (auto simp: reducePositionEntries_def slot_def entry_of_def find_update_first find_update_other)
      qed
    qed (use PositionEvent Some in \<open>simp add: reducePositionEntries_def slot_def\<close>)
  qed
qed (simp_all add: reducePositionEntries_def slot_def)

lemma entry_of_events:
  "list_all sane evs \<Longrightarrow> entry_of marketIdOf m (foldl (reducePositionEntries marketIdOf mkEntry) entries evs) =
     foldl (slot m) (entry_of marketIdOf m entries) evs"
  by (induction evs arbitrary: entries) (simp_all add: entry_of_reduce)

lemma slots_last: "(\<forall>c. foldl (slot m) c evs = c) \<or> (\<forall>c d. foldl (slot m) c evs = foldl (slot m) d evs)"
proof (induction evs rule: rev_induct)
  case (snoc e evs)
  have "(\<forall>c. slot m c e = c) \<or> (\<forall>c d. slot m c e = slot m d e)"
    by (auto simp: slot_def split: TUserEvent.split option.split)
  then show ?case using snoc by auto
qed simp

lemma slots_replayed: "foldl (slot m) (foldl (slot m) c evs) evs = foldl (slot m) c evs"
  using slots_last[of m evs] by metis

end

interpretation entries: entry_source "\<lambda>e. mk_id (pe_market e)" "toEntry markets" for markets
  by unfold_locales (auto simp: toEntry_def find_Some_iff split: option.splits)

abbreviation "reduceEntries markets \<equiv> reducePositionEntries (\<lambda>e. mk_id (pe_market e)) (toEntry markets)"
abbreviation "entryOf \<equiv> entry_of (\<lambda>e. mk_id (pe_market e))"

lemma no_position_events:
  assumes "newOrderEvents rt clock newOrders = (created, clock')"
    and "e \<in> snd ` set (created @ map (updateEvent m) updates @ concat (map (fillEvents m side ts) fills))"
  shows "\<not> (\<exists>k p. e = PositionEvent k p)"
proof -
  have "\<forall>p \<in> set (fst (newOrderEvents rt clock newOrders)). \<not> (\<exists>k q. snd p = PositionEvent k q)"
  proof (induction newOrders arbitrary: clock)
    case (Cons x xs)
    obtain order filledQty origin where x: "x = (order, filledQty, origin)" by (cases x)
    obtain uo clock1 where "userOrderFrom rt clock order filledQty = (uo, clock1)" by force
    then show ?case using Cons[of clock1] x by (auto split: prod.split)
  qed simp
  then show ?thesis using assms by (auto simp: updateEvent_def fillEvents_def)
qed

lemma slots_unchanged:
  "\<forall>e \<in> set evs. \<not> (\<exists>k p. e = PositionEvent k p) \<Longrightarrow> foldl (reducePositionEntries f g) entries evs = entries"
  by (induction evs) (auto simp: reducePositionEntries_def split: TUserEvent.split)

lemma state_event_entry:
  assumes "getUserById us u = Some user" "find (\<lambda>k. mk_id k = m) markets = Some market"
  shows "entryOf m (foldl (reduceEntries markets) entries (stateEventsFor us u m)) =
    (case getUserMarketPosition (u_positions user) m of
       None \<Rightarrow> None
     | Some (_, p) \<Rightarrow> Some \<lparr>pe_position = \<lparr>up_marketId = m, up_type = p_type p, up_qty = js_string (p_qty p),
          up_margin = js_string (p_margin p), up_averagePrice = js_string (p_averagePrice p),
          up_liquidationPrice = js_string (p_liquidationPrice p)\<rparr>, pe_market = market\<rparr>)"
proof -
  have "list_all sane (stateEventsFor us u m)" by (auto simp: stateEventsFor_def sane_def split: option.split)
  then show ?thesis using assms unfolding entries.entry_of_events[OF \<open>list_all sane _\<close>]
    by (auto simp: stateEventsFor_def entries.slot_def toEntry_def split: option.split)
qed

text \<open>
  C14. The browser shows the engine's position. After the batch a match sends to an account, whatever
  the browser held before, its entry of the market is the account's position in the engine's store,
  or none when the account holds none there.
\<close>

theorem browser_shows_engine_position:
  assumes "getUserById us u = Some user" "find (\<lambda>k. mk_id k = m) markets = Some market"
    and "eventsOf (fst (userEventsForMatch rt clock us m fills side updates newOrders)) u \<noteq> []"
  shows "entryOf m (foldl (reduceEntries markets) entries
      (eventsOf (fst (userEventsForMatch rt clock us m fills side updates newOrders)) u)) =
    (case getUserMarketPosition (u_positions user) m of
       None \<Rightarrow> None
     | Some (_, p) \<Rightarrow> Some \<lparr>pe_position = \<lparr>up_marketId = m, up_type = p_type p, up_qty = js_string (p_qty p),
          up_margin = js_string (p_margin p), up_averagePrice = js_string (p_averagePrice p),
          up_liquidationPrice = js_string (p_liquidationPrice p)\<rparr>, pe_market = market\<rparr>)"
proof -
  obtain created clock' where c: "newOrderEvents rt (clock + 1) newOrders = (created, clock')" by force
  let ?own = "map snd (filter (\<lambda>p. fst p = u) (created @ map (updateEvent m) updates
      @ concat (map (fillEvents m side (date_now rt clock)) fills)))"
  have "e \<in> set ?own \<Longrightarrow> \<not> (\<exists>k p. e = PositionEvent k p)" for e
    by (rule no_position_events[OF c, of e m updates side "date_now rt clock" fills]) auto
  then have "foldl (reduceEntries markets) entries ?own = entries" by (intro slots_unchanged) blast
  then show ?thesis
    unfolding batch[OF c] if_P[OF batch_ends(1)[OF assms(3)]] foldl_append by (simp only: state_event_entry[OF assms(1,2)])
qed

definition sample_fill :: FillRecordNumberified where
  "sample_fill = \<lparr>f_id = ''f1'', f_makerId = ''bob'', f_takerId = ''alice'', f_marketId = SOL_ID, f_qty = Fin 5,
     f_price = Fin 100, f_makerOrderId = ''a1'', f_takerOrderId = ''t1''\<rparr>"

theorem browser_shows_engine_position_witness:
  "entryOf SOL_ID (foldl (reduceEntries [sample_market]) []
     (eventsOf (fst (userEventsForMatch sample_rt 0 (users sample_store) SOL_ID [sample_fill] LONG [] [])) ''alice'')) = None"
  using browser_shows_engine_position[of "users sample_store" "''alice''" "new_user ''alice'' (Fin 1000)" SOL_ID
      "[sample_market]" sample_market sample_rt 0 "[sample_fill]" LONG "[]" "[]" "[]"]
  by (simp add: batch[OF newOrderEvents.simps(1)] sample_store_def getUserById_def sample_market_def fillEvents_def
      sample_fill_def new_user_def getUserMarketPosition_def)

section \<open>Fills\<close>

text \<open>An event that belongs in a notice: a fill not seen before, of a positive size at a positive price.\<close>

definition notable :: "string set \<Rightarrow> string \<Rightarrow> string \<Rightarrow> TUserEvent \<Rightarrow> bool" where
  "notable seen orderId fillId ev \<longleftrightarrow>
     (\<exists>m side role price qty ts. ev = FillEvent fillId orderId m side role price qty ts \<and> fillId \<notin> seen
       \<and> js_finite (js_number qty) \<and> js_finite (js_number price) \<and> \<not> js_number qty \<le> 0 \<and> \<not> js_number price \<le> 0)"

definition in_group :: "fill_groups \<Rightarrow> string \<Rightarrow> string \<Rightarrow> bool" where
  "in_group gs orderId fillId \<longleftrightarrow>
     (case map_of gs orderId of None \<Rightarrow> False | Some (g, _, _) \<Rightarrow> fillId \<in> set (fg_fillIds g))"

definition groups_ok :: "fill_groups \<Rightarrow> bool" where
  "groups_ok gs \<longleftrightarrow> distinct (map fst gs)
     \<and> (\<forall>(k, g, _) \<in> set gs. fg_orderId g = k \<and> distinct (fg_fillIds g))"

lemma groups_ok_update:
  "groups_ok gs \<Longrightarrow> fg_orderId g = k \<Longrightarrow> distinct (fg_fillIds g) \<Longrightarrow> groups_ok (AList.update k (g, r) gs)"
  by (auto simp: groups_ok_def distinct_update dest!: in_set_update)

lemma groups_ok_get: "groups_ok gs \<Longrightarrow> map_of gs k = Some (g, r) \<Longrightarrow> fg_orderId g = k \<and> distinct (fg_fillIds g)"
  by (fastforce simp: groups_ok_def dest: map_of_SomeD)

lemma groupFill_ok:
  assumes "groups_ok gs" shows "groups_ok (groupFill seen gs ev)"
proof (cases ev)
  case (FillEvent f k m side role price qty ts)
  show ?thesis
  proof (cases "map_of gs k")
    case None
    then show ?thesis using assms FillEvent by (simp add: Let_def groups_ok_update)
  next
    case (Some a)
    obtain g n v where "a = (g, n, v)" by (cases a)
    then show ?thesis using assms FillEvent Some groups_ok_get[OF assms, of k g "(n, v)"]
      by (simp add: Let_def groups_ok_update)
  qed
qed (use assms in simp_all)

lemma groupFill_in: "in_group (groupFill seen gs ev) k f \<longleftrightarrow> in_group gs k f \<or> notable seen k f ev"
proof (cases ev)
  case (FillEvent f' k' m side role price qty ts)
  then show ?thesis
    by (cases "map_of gs k'") (auto simp: in_group_def notable_def Let_def update_conv' split: prod.split)
qed (simp_all add: in_group_def notable_def)

lemma groupFills_ok:
  "groups_ok gs \<Longrightarrow> groups_ok (foldl (groupFill seen) gs evs)
     \<and> (in_group (foldl (groupFill seen) gs evs) k f \<longleftrightarrow> in_group gs k f \<or> list_ex (notable seen k f) evs)"
  by (induction evs arbitrary: gs) (auto simp: groupFill_ok groupFill_in)

text \<open>
  Every new fill once. The notices of a batch are one per order; the fills behind the notice of
  an order are, each once, exactly the fills of that order in the batch that were not seen before and
  have a positive size and price.
\<close>

theorem fills_noticed_once:
  "distinct (map fg_orderId (groupFills events seen))
   \<and> list_all (\<lambda>g. distinct (fg_fillIds g)) (groupFills events seen)
   \<and> (list_ex (\<lambda>g. fg_orderId g = orderId \<and> fillId \<in> set (fg_fillIds g)) (groupFills events seen)
       \<longleftrightarrow> list_ex (notable seen orderId fillId) events)"
proof -
  define gs where "gs = foldl (groupFill seen) [] events"
  have ok: "groups_ok gs" "in_group gs orderId fillId \<longleftrightarrow> list_ex (notable seen orderId fillId) events"
    using groupFills_ok[of "[]" seen events orderId fillId] by (auto simp: gs_def groups_ok_def in_group_def)
  have each: "map_of gs (fst x) = Some (snd x) \<and> fg_orderId (fst (snd x)) = fst x \<and> distinct (fg_fillIds (fst (snd x)))"
    if "x \<in> set gs" for x
    using that ok(1) groups_ok_get[of gs "fst x" "fst (snd x)" "snd (snd x)"] by (simp add: groups_ok_def)
  have orders: "map (fg_orderId \<circ> (fst \<circ> snd)) gs = map fst gs" using each by simp
  have "distinct (map fg_orderId (map (fst \<circ> snd) gs))"
    unfolding map_map orders using ok(1) by (simp add: groups_ok_def)
  moreover have "list_all (\<lambda>g. distinct (fg_fillIds g)) (map (fst \<circ> snd) gs)"
    using each by (simp add: list_all_iff)
  moreover have "list_ex (\<lambda>g. fg_orderId g = orderId \<and> fillId \<in> set (fg_fillIds g)) (map (fst \<circ> snd) gs)
      \<longleftrightarrow> in_group gs orderId fillId"
  proof
    assume "list_ex (\<lambda>g. fg_orderId g = orderId \<and> fillId \<in> set (fg_fillIds g)) (map (fst \<circ> snd) gs)"
    then obtain x where x: "x \<in> set gs" "fg_orderId (fst (snd x)) = orderId" "fillId \<in> set (fg_fillIds (fst (snd x)))"
      by (auto simp: list_ex_iff)
    then show "in_group gs orderId fillId" using each[OF x(1)] by (auto simp: in_group_def)
  next
    assume "in_group gs orderId fillId"
    then obtain a where a: "map_of gs orderId = Some a" "fillId \<in> set (fg_fillIds (fst a))"
      by (auto simp: in_group_def split: option.splits)
    have "fg_orderId (fst a) = orderId" using each[OF map_of_SomeD[OF a(1)]] by simp
    moreover have "fst a \<in> set (map (fst \<circ> snd) gs)"
      using imageI[OF map_of_SomeD[OF a(1)], of "fst \<circ> snd"] by simp
    ultimately show "list_ex (\<lambda>g. fg_orderId g = orderId \<and> fillId \<in> set (fg_fillIds g)) (map (fst \<circ> snd) gs)"
      using a(2) unfolding list_ex_iff by blast
  qed
  ultimately show ?thesis using ok(2) by (simp add: groupFills_def gs_def[symmetric])
qed

text \<open>
  What is remembered is bounded and recent: at most five hundred fills, none twice, and among them
  the last five hundred of the new ones.
\<close>

theorem remembered_fills_bounded:
  "length (rememberFills seen ids) \<le> 500 \<and> distinct (rememberFills seen ids)
   \<and> set (drop (length ids - 500) ids) \<subseteq> set (rememberFills seen ids)"
proof -
  let ?next = "drop (length (seen @ ids) - max_seen_fills) (seen @ ids)"
  have len: "length (foldl touch acc ks) \<le> length acc + length ks" for acc ks
    by (induction ks arbitrary: acc) (simp, fastforce simp: touch_def intro: le_trans)
  have "length (rememberFills seen ids) \<le> 500"
    using len[of "[]" ?next] by (simp add: rememberFills_def Let_def max_seen_fills_def)
  moreover have "distinct (rememberFills seen ids)" by (simp add: rememberFills_def Let_def touch_distinct)
  moreover have "set (drop (length ids - 500) ids) \<subseteq> set ?next"
  proof (cases "length ids \<le> 500")
    case True
    then have "?next = drop (length seen + length ids - 500) seen @ ids"
      by (simp add: max_seen_fills_def)
    then show ?thesis using set_drop_subset[of _ ids] by fastforce
  next
    case False
    then have "?next = drop (length ids - 500) ids" by (simp add: max_seen_fills_def)
    then show ?thesis by simp
  qed
  ultimately show ?thesis by (simp add: rememberFills_def Let_def touch_set)
qed

end
