(* ===== verification/QuoteLadder.thy ===== *)
theory QuoteLadder
  imports JsMath EngineTypes "HOL-Library.Word"
begin

text \<open>
  The quotes of the market maker: \<open>apps/market-maker/src/services/quote-ladder.ts\<close>, whole, and the
  order of cancelling and placing in one cycle of \<open>maker.ts\<close>. \<open>Math.log2\<close>, whose precision the
  language leaves open, is a parameter; a power of ten or two with an integer exponent is correctly
  rounded. The requests to the exchange are not modelled, only what is asked for and in which order.
\<close>

unbundle bit_operations_syntax

section \<open>Types\<close>

record MarketSpec =
  ms_slug :: string
  ms_priceDecimals :: nat
  ms_sizeDecimals :: nat
  ms_tickSize :: string
  ms_maxLeverage :: jsnum

record LadderConfig =
  lc_levels :: nat
  lc_spreadBps :: jsnum
  lc_levelStepBps :: jsnum
  lc_skewBps :: jsnum
  lc_baseNotional :: jsnum
  lc_sizeGrowth :: jsnum
  lc_sizeJitter :: jsnum
  lc_leverage :: jsnum
  lc_requoteBps :: jsnum
  lc_maxInventoryNotional :: jsnum

record Quote =
  q_side :: TPositionType
  q_level :: nat
  q_price :: jsnum
  q_qty :: jsnum
  q_margin :: jsnum
  q_tolerance :: jsnum

section \<open>Rounding to the grid\<close>

definition bps :: jsnum where
  "bps = Fin 10000"

definition tick_epsilon :: jsnum where
  "tick_epsilon = js (1 / 10 ^ 9)"

definition floorToTick :: "jsnum \<Rightarrow> jsnum \<Rightarrow> nat \<Rightarrow> jsnum" where
  "floorToTick v tick decimals = js_fixed decimals (js_floor (v / tick + tick_epsilon) * tick)"

definition ceilToTick :: "jsnum \<Rightarrow> jsnum \<Rightarrow> nat \<Rightarrow> jsnum" where
  "ceilToTick v tick decimals = js_fixed decimals (js_ceil (v / tick - tick_epsilon) * tick)"

definition roundQty :: "jsnum \<Rightarrow> nat \<Rightarrow> jsnum" where
  "roundQty qty decimals =
     (let step = js (1 / 10 ^ decimals);
          floored = js_fixed decimals (js_floor (qty / step + tick_epsilon) * step)
      in if floored > 0 then floored else js_fixed decimals step)"

definition marginFor :: "jsnum \<Rightarrow> jsnum \<Rightarrow> jsnum \<Rightarrow> jsnum" where
  "marginFor price qty leverage = js_ceil ((price * qty * Fin 100) / leverage) / Fin 100"

definition effectiveLeverage :: "LadderConfig \<Rightarrow> MarketSpec \<Rightarrow> jsnum" where
  "effectiveLeverage config market = js_min (lc_leverage config) (ms_maxLeverage market)"

definition clamp :: "jsnum \<Rightarrow> jsnum \<Rightarrow> jsnum \<Rightarrow> jsnum" where
  "clamp v low high = js_min high (js_max low v)"

definition normalisedInventory :: "jsnum \<Rightarrow> jsnum \<Rightarrow> jsnum" where
  "normalisedInventory signedInventoryNotional maxInventoryNotional =
     clamp (signedInventoryNotional / maxInventoryNotional) (Fin (- 1)) (Fin 1)"

text \<open>The reference prices of the two sides, bid first.\<close>

definition referencePrices :: "jsnum \<Rightarrow> jsnum \<Rightarrow> LadderConfig \<Rightarrow> jsnum \<times> jsnum" where
  "referencePrices anchor inventory config =
     (let half = lc_spreadBps config / Fin 2; skew = inventory * lc_skewBps config
      in (anchor * (Fin 1 - (half + skew) / bps), anchor * (Fin 1 + (half - skew) / bps)))"

definition gridSize :: "(jsnum \<Rightarrow> jsnum) \<Rightarrow> jsnum \<Rightarrow> MarketSpec \<Rightarrow> LadderConfig \<Rightarrow> jsnum" where
  "gridSize log2 anchor market config =
     (let tick = js_number (ms_tickSize market);
          octave = js_exp2 (js_round (log2 anchor));
          wanted = (octave * lc_levelStepBps config) / bps;
          ticks = js_max (Fin 1) (js_round (wanted / tick))
      in js_fixed (ms_priceDecimals market) (ticks * tick))"

definition max_tolerance_of_step :: jsnum where
  "max_tolerance_of_step = js (45 / 100)"

definition requoteTolerance :: "jsnum \<Rightarrow> jsnum \<Rightarrow> LadderConfig \<Rightarrow> jsnum" where
  "requoteTolerance price gap config =
     js_min ((price * lc_requoteBps config) / bps) (max_tolerance_of_step * gap)"

section \<open>Sizes\<close>

definition side_string :: "TPositionType \<Rightarrow> string" where
  "side_string side = (case side of LONG \<Rightarrow> ''LONG'' | SHORT \<Rightarrow> ''SHORT'')"

text \<open>The hash of the seed, on 32 bits: \<open>^\<close> and \<open>Math.imul\<close> both keep the low word.\<close>

definition seed_hash :: "string \<Rightarrow> 32 word" where
  "seed_hash seed = foldl (\<lambda>hash c. (hash XOR of_nat (of_char c)) * 16777619) 2166136261 seed"

definition sizeMultiplier :: "MarketSpec \<Rightarrow> TPositionType \<Rightarrow> jsnum \<Rightarrow> jsnum \<Rightarrow> jsnum" where
  "sizeMultiplier market side gridIndex jitter =
     (if \<not> js_truthy jitter then Fin 1
      else
        (let seed = ms_slug market @ '':'' @ side_string side @ '':'' @ js_string gridIndex;
             unit = Fin (of_nat (unat (seed_hash seed) mod 100000)) / Fin 100000
         in Fin 1 + jitter * (Fin 2 * unit - Fin 1)))"

section \<open>The ladder\<close>

definition rungPrice :: "jsnum \<Rightarrow> TPositionType \<Rightarrow> nat \<Rightarrow> jsnum \<Rightarrow> MarketSpec \<Rightarrow> jsnum" where
  "rungPrice touch side level grid market =
     (let direction = (case side of LONG \<Rightarrow> Fin (- 1) | SHORT \<Rightarrow> Fin 1)
      in js_fixed (ms_priceDecimals market) (touch + direction * Fin (of_nat level) * grid))"

definition rung :: "jsnum \<Rightarrow> jsnum \<Rightarrow> jsnum \<Rightarrow> MarketSpec \<Rightarrow> LadderConfig \<Rightarrow> TPositionType \<Rightarrow> nat \<Rightarrow> Quote option" where
  "rung touch grid leverage market config side level =
     (let price = rungPrice touch side level grid market
      in if price \<le> 0 then None
         else
           (let notional = lc_baseNotional config * (Fin 1 + Fin (of_nat level) * lc_sizeGrowth config)
                  * sizeMultiplier market side (js_round (price / grid)) (lc_sizeJitter config);
                qty = roundQty (notional / price) (ms_sizeDecimals market)
            in Some \<lparr>q_side = side, q_level = level, q_price = price, q_qty = qty,
                 q_margin = marginFor price qty leverage, q_tolerance = requoteTolerance price grid config\<rparr>))"

definition buildLadder :: "(jsnum \<Rightarrow> jsnum) \<Rightarrow> jsnum \<Rightarrow> jsnum \<Rightarrow> MarketSpec \<Rightarrow> LadderConfig \<Rightarrow> Quote list" where
  "buildLadder log2 anchor signedInventoryNotional market config =
     (let leverage = effectiveLeverage config market;
          inventory = normalisedInventory signedInventoryNotional (lc_maxInventoryNotional config);
          (bidRef, askRef) = referencePrices anchor inventory config;
          grid = gridSize log2 anchor market config;
          touch = (\<lambda>side. case side of
             LONG \<Rightarrow> floorToTick bidRef grid (ms_priceDecimals market)
           | SHORT \<Rightarrow> ceilToTick askRef grid (ms_priceDecimals market))
      in concat (map (\<lambda>side. List.map_filter (rung (touch side) grid leverage market config side) [0..<lc_levels config])
           [LONG, SHORT]))"

section \<open>The difference between what rests and what is wanted\<close>

record Resting =
  rs_id :: string
  rs_side :: TPositionType
  rs_price :: jsnum
  rs_remainingQty :: jsnum

definition size_drift_tolerance :: jsnum where
  "size_drift_tolerance = Fin (1 / 4)"

definition bySide :: "Resting list \<Rightarrow> TPositionType \<Rightarrow> Resting list" where
  "bySide orders side =
     sort_by (\<lambda>a b. case side of LONG \<Rightarrow> rs_price b - rs_price a | SHORT \<Rightarrow> rs_price a - rs_price b)
       (filter (\<lambda>order. rs_side order = side) orders)"

text \<open>The scan for the nearest order: index and distance of the best so far, and the next index.\<close>

fun nearest :: "jsnum \<Rightarrow> Resting list \<Rightarrow> nat \<Rightarrow> nat option \<times> jsnum \<Rightarrow> nat option \<times> jsnum" where
  "nearest price [] index best = best"
| "nearest price (order # orders) index (bestIndex, bestDistance) =
     (let distance = \<bar>rs_price order - price\<bar>
      in nearest price orders (Suc index)
           (if distance < bestDistance then (Some index, distance) else (bestIndex, bestDistance)))"

definition sizeDrift :: "Resting \<Rightarrow> Quote \<Rightarrow> jsnum" where
  "sizeDrift candidate quote =
     \<bar>rs_remainingQty candidate - q_qty quote\<bar> / js_max (q_qty quote) (js (1 / 10 ^ 9))"

record side_diff =
  sd_available :: "Resting list"
  sd_adoptedPrices :: "jsnum list"
  sd_pending :: "Quote list"
  sd_toCancel :: "Resting list"

definition matchQuote :: "side_diff \<Rightarrow> Quote \<Rightarrow> side_diff" where
  "matchQuote d quote =
     (case nearest (q_price quote) (sd_available d) 0 (None, PInf) of
        (None, _) \<Rightarrow> d\<lparr>sd_pending := sd_pending d @ [quote]\<rparr>
      | (Some bestIndex, bestDistance) \<Rightarrow>
          (let candidate = sd_available d ! bestIndex
           in if bestDistance > q_tolerance quote then d\<lparr>sd_pending := sd_pending d @ [quote]\<rparr>
              else
                (let d1 = d\<lparr>sd_available := splice1 bestIndex (sd_available d)\<rparr>
                 in if sizeDrift candidate quote > size_drift_tolerance
                    then d1\<lparr>sd_toCancel := sd_toCancel d1 @ [candidate], sd_pending := sd_pending d1 @ [quote]\<rparr>
                    else d1\<lparr>sd_adoptedPrices := sd_adoptedPrices d1 @ [rs_price candidate]\<rparr>)))"

definition reconcileSide :: "Quote list \<Rightarrow> Resting list \<Rightarrow> TPositionType \<Rightarrow> Resting list \<times> Quote list" where
  "reconcileSide desired resting side =
     (let d = foldl matchQuote \<lparr>sd_available = bySide resting side, sd_adoptedPrices = [], sd_pending = [], sd_toCancel = []\<rparr>
            (filter (\<lambda>quote. q_side quote = side) desired)
      in (sd_toCancel d @ sd_available d, filter (\<lambda>quote. q_price quote \<notin> set (sd_adoptedPrices d)) (sd_pending d)))"

definition reconcileLadder :: "Quote list \<Rightarrow> Resting list \<Rightarrow> Resting list \<times> Quote list" where
  "reconcileLadder desired resting =
     (let (cancelBids, placeBids) = reconcileSide desired resting LONG;
          (cancelAsks, placeAsks) = reconcileSide desired resting SHORT
      in (cancelBids @ cancelAsks, placeBids @ placeAsks))"

section \<open>One cycle of the maker\<close>

definition highestNewBid :: "Quote list \<Rightarrow> jsnum" where
  "highestNewBid toPlace =
     foldl js_max NInf (map q_price (filter (\<lambda>quote. q_side quote = LONG) toPlace) @ [NInf])"

definition lowestNewAsk :: "Quote list \<Rightarrow> jsnum" where
  "lowestNewAsk toPlace =
     foldl js_min PInf (map q_price (filter (\<lambda>quote. q_side quote = SHORT) toPlace) @ [PInf])"

definition crosses :: "Quote list \<Rightarrow> Resting \<Rightarrow> bool" where
  "crosses toPlace order =
     (case rs_side order of
        LONG \<Rightarrow> rs_price order \<ge> lowestNewAsk toPlace
      | SHORT \<Rightarrow> rs_price order \<le> highestNewBid toPlace)"

text \<open>
  What a cycle asks of the exchange: the orders cancelled first, the quotes then placed, the orders
  cancelled last; nothing when there is nothing to change.
\<close>

definition cyclePlan ::
  "(jsnum \<Rightarrow> jsnum) \<Rightarrow> jsnum \<Rightarrow> jsnum \<Rightarrow> MarketSpec \<Rightarrow> LadderConfig \<Rightarrow> Resting list
    \<Rightarrow> Resting list \<times> Quote list \<times> Resting list" where
  "cyclePlan log2 anchor inventory market config resting =
     (let desired = buildLadder log2 anchor inventory market config;
          (toCancel, toPlace) = reconcileLadder desired resting
      in if toCancel = [] \<and> toPlace = [] then ([], [], [])
         else
           (let crossing = filter (crosses toPlace) resting;
                crossingIds = rs_id ` set crossing
            in (crossing, toPlace, filter (\<lambda>order. rs_id order \<notin> crossingIds) toCancel)))"

end
