(* ===== verification/Decimals.thy ===== *)
theory Decimals
  imports JsMath
begin

text \<open>
  Decimal numbers in doubles: how far rounding moves a number, and that arithmetic on multiples of a
  power of ten, followed by \<open>toFixed\<close>, gives the exact multiple back as long as the accumulated
  error stays under half a unit.
\<close>

section \<open>The error of rounding\<close>

lemma round64_error: "\<bar>round64 r - r\<bar> \<le> \<bar>r\<bar> / 2 ^ 53 + 2 powi (- 1075)"
proof (cases "r = 0")
  case False
  let ?q = "(2::rat) powi quantum r"
  have "round64 r - r = (of_int (round_half_even (r / ?q)) - r / ?q) * ?q"
    using False by (simp add: round64_def left_diff_distrib)
  then have "\<bar>round64 r - r\<bar> \<le> 1 / 2 * ?q"
    using round_half_even_near[of "r / ?q"] by (simp only: abs_mult abs_of_pos[OF powi2_pos] mult_right_mono less_imp_le[OF powi2_pos])
  also have "1 / 2 * ?q \<le> \<bar>r\<bar> / 2 ^ 53 + 2 powi (- 1075)"
  proof (cases "- 1074 \<le> flog2 \<bar>r\<bar> - 52")
    case True
    then have "?q = 2 powi (flog2 \<bar>r\<bar> + (- 52))" by (simp add: quantum_def)
    also have "\<dots> = 2 powi (flog2 \<bar>r\<bar>) * 2 powi (- 52)" by (rule powi2_add)
    also have "\<dots> \<le> \<bar>r\<bar> * 2 powi (- 52)" using flog2_bounds[of "\<bar>r\<bar>"] False by (intro mult_right_mono) auto
    finally have "?q \<le> \<bar>r\<bar> * (1 / 2 ^ 52)" by (simp add: power_int_minus inverse_eq_divide)
    then show ?thesis using powi2_pos[of "- 1075"] by simp
  next
    case False
    then have "?q = 2 powi (1 + (- 1075))" by (simp add: quantum_def)
    also have "\<dots> = 2 powi 1 * 2 powi (- 1075)" by (rule powi2_add)
    finally show ?thesis by simp
  qed
  finally show ?thesis .
qed simp

lemma tiny: "(2::rat) powi (- 1075) \<le> 1 / 2 ^ 200"
  using powi2_mono[of "- 1075" "- 200"] by (simp add: power_int_minus inverse_eq_divide)

section \<open>Near a decimal\<close>

definition near :: "nat \<Rightarrow> rat \<Rightarrow> int \<Rightarrow> rat \<Rightarrow> bool" where
  "near d x a e \<longleftrightarrow> \<bar>x * 10 ^ d - of_int a\<bar> \<le> e"

lemma near_mono: "near d x a e \<Longrightarrow> e \<le> f \<Longrightarrow> near d x a f"
  by (simp add: near_def)

lemma near_add:
  assumes "near d x a e" "near d y b f" shows "near d (x + y) (a + b) (e + f)"
  using assms unfolding near_def ring_distribs of_int_add by linarith

lemma near_exact: "near d (of_int a / 10 ^ d) a 0"
  by (simp add: near_def)

lemma near_mult:
  assumes "near d g K e" shows "near d (of_int n * g) (n * K) (\<bar>of_int n\<bar> * e)"
proof -
  have "of_int n * g * 10 ^ d - of_int (n * K) = of_int n * (g * 10 ^ d - of_int K)"
    by (simp add: algebra_simps)
  then show ?thesis using assms by (simp add: near_def abs_mult mult_left_mono)
qed

lemma near_le:
  assumes "near d x a e" shows "\<bar>x\<bar> \<le> \<bar>of_int a\<bar> + e"
proof -
  have "\<bar>x\<bar> * 1 \<le> \<bar>x\<bar> * 10 ^ d" by (intro mult_left_mono) auto
  moreover have "\<bar>x\<bar> * 10 ^ d = \<bar>x * 10 ^ d\<bar>" by (simp add: abs_mult)
  ultimately show ?thesis using assms unfolding near_def by linarith
qed

lemma near_round:
  assumes "near d x a e" "\<bar>a\<bar> \<le> 2 ^ 48" "e \<le> 1" "d \<le> 20"
  shows "near d (round64 x) a (e + 1 / 16)"
proof -
  have a: "\<bar>of_int a :: rat\<bar> \<le> 2 ^ 48" using assms(2) by (metis of_int_abs of_int_le_iff of_int_numeral of_int_power)
  have "\<bar>round64 x * 10 ^ d - x * 10 ^ d\<bar> = \<bar>round64 x - x\<bar> * 10 ^ d"
    by (simp add: abs_mult flip: left_diff_distrib)
  also have "\<dots> \<le> (\<bar>x\<bar> / 2 ^ 53 + 1 / 2 ^ 200) * 10 ^ d"
    using round64_error[of x] tiny by (intro mult_right_mono) auto
  also have "\<dots> = \<bar>x * 10 ^ d\<bar> / 2 ^ 53 + 10 ^ d / 2 ^ 200" by (simp add: abs_mult distrib_right)
  also have "\<dots> \<le> (2 ^ 48 + 1) / 2 ^ 53 + 10 ^ 20 / 2 ^ 200"
  proof (intro add_mono divide_right_mono)
    show "\<bar>x * 10 ^ d\<bar> \<le> 2 ^ 48 + 1" using assms(1,3) a unfolding near_def by linarith
    show "(10::rat) ^ d \<le> 10 ^ 20" using assms(4) by (intro power_increasing) auto
  qed auto
  also have "\<dots> \<le> 1 / 16" by simp
  finally show ?thesis using assms(1) unfolding near_def by linarith
qed

lemma js_moderate:
  assumes "\<bar>x\<bar> \<le> 2 ^ 49" shows "js x = Fin (round64 x)"
proof -
  have "binary64 (2 ^ 49)" using binary64_of_int[of "2 ^ 49"] by simp
  moreover have "(2::rat) ^ 49 < 2 ^ 1024" by (rule power_strict_increasing) auto
  ultimately show ?thesis using assms js_bounded by blast
qed

lemma near_js:
  assumes "near d x a e" "\<bar>a\<bar> \<le> 2 ^ 48" "e \<le> 1"
  shows "js x = Fin (round64 x)"
proof (rule js_moderate)
  have "\<bar>of_int a :: rat\<bar> \<le> 2 ^ 48" using assms(2) by (metis of_int_abs of_int_le_iff of_int_numeral of_int_power)
  then show "\<bar>x\<bar> \<le> 2 ^ 49" using near_le[OF assms(1)] assms(3) by simp
qed

lemma near_fixed:
  assumes "near d x a e" "e < 1 / 2" "\<bar>a\<bar> \<le> 2 ^ 48"
  shows "js_fixed d (Fin x) = js (of_int a / 10 ^ d)"
proof -
  have "\<bar>of_int a :: rat\<bar> \<le> 2 ^ 48" using assms(3) by (metis of_int_abs of_int_le_iff of_int_numeral of_int_power)
  then have small: "\<bar>x\<bar> < 10 ^ 21" using near_le[OF assms(1)] assms(2) by simp
  have n: "\<bar>x * 10 ^ d - of_int a\<bar> < 1 / 2" using assms(1,2) by (simp add: near_def)
  have "sgn x * of_int \<lfloor>\<bar>x\<bar> * 10 ^ d + 1 / 2\<rfloor> = of_int a"
  proof (cases x "0 :: rat" rule: linorder_cases)
    case less
    then have "\<lfloor>\<bar>x\<bar> * 10 ^ d + 1 / 2\<rfloor> = - a" using n by (intro floor_unique) (auto simp: abs_if split: if_splits)
    then show ?thesis using less by simp
  next
    case equal
    then have "\<bar>of_int a :: rat\<bar> < 1" using n by simp
    then have "\<bar>a\<bar> < 1" by (metis of_int_abs of_int_less_1_iff)
    then have "a = 0" by simp
    then show ?thesis using equal by simp
  next
    case greater
    then have "\<lfloor>\<bar>x\<bar> * 10 ^ d + 1 / 2\<rfloor> = a" using n by (intro floor_unique) (auto simp: abs_if split: if_splits)
    then show ?thesis using greater by simp
  qed
  then show ?thesis using small by (simp add: js_fixed_def)
qed

lemma js_dyadic:
  assumes "\<bar>m\<bar> \<le> 2 ^ 53" "q \<le> 1074" shows "js (of_int m / 2 ^ q) = Fin (of_int m / 2 ^ q)"
proof -
  have p: "(2::rat) powi (- int q) = 1 / 2 ^ q" by (simp add: power_int_minus inverse_eq_divide)
  have "binary64 (of_int m / 2 ^ q)"
    using round64_exact[OF assms(1), of "- int q"] assms(2) by (simp add: p binary64_def)
  moreover have "\<bar>of_int m / 2 ^ q\<bar> < (2 ^ 1024 :: rat)"
  proof -
    have "\<bar>of_int m / 2 ^ q\<bar> \<le> \<bar>of_int m :: rat\<bar>" by (simp add: abs_divide divide_le_eq mult_le_cancel_left1)
    also have "\<dots> \<le> of_int (2 ^ 53)" using assms(1) by (metis of_int_abs of_int_le_iff)
    also have "(of_int (2 ^ 53) :: rat) = 2 ^ 53" by simp
    also have "(2::rat) ^ 53 < 2 ^ 1024" by (rule power_strict_increasing) auto
    finally show ?thesis .
  qed
  ultimately show ?thesis by (rule js_binary64)
qed

text \<open>The double nearest to a decimal; different decimals have different ones.\<close>

definition decimal :: "nat \<Rightarrow> int \<Rightarrow> jsnum" where
  "decimal d a = js (of_int a / 10 ^ d)"

lemma decimal_near:
  assumes "\<bar>a\<bar> \<le> 2 ^ 48" "d \<le> 20"
  shows "decimal d a = Fin (round64 (of_int a / 10 ^ d))" "near d (round64 (of_int a / 10 ^ d)) a (1 / 16)"
  using near_js[OF near_exact, of a d] near_round[OF near_exact, of a d] assms by (simp_all add: decimal_def)

lemma decimal_strict_mono:
  assumes "a < b" "\<bar>a\<bar> \<le> 2 ^ 48" "\<bar>b\<bar> \<le> 2 ^ 48" "d \<le> 20"
  shows "decimal d a < decimal d b"
proof -
  have "round64 (of_int a / 10 ^ d) * 10 ^ d < round64 (of_int b / 10 ^ d) * 10 ^ d"
    using decimal_near(2)[OF assms(2,4)] decimal_near(2)[OF assms(3,4)] assms(1) unfolding near_def by linarith
  then have "round64 (of_int a / 10 ^ d) < round64 (of_int b / 10 ^ d)"
    by (rule mult_right_less_imp_less) simp
  then show ?thesis using decimal_near(1)[OF assms(2,4)] decimal_near(1)[OF assms(3,4)] by simp
qed

end
