(* ===== verification/LadderGrid.thy ===== *)
theory LadderGrid
  imports QuoteLadder Decimals
begin

text \<open>
  The geometry of the market maker's ladder: the cells the reference prices are snapped to, and that
  every rung is the exact multiple of the grid in spite of the roundings of each operation.
\<close>

section \<open>The grid\<close>

text \<open>The cells a reference price is snapped to: a count of grid steps, a nano-step of slack either way.\<close>

definition slack :: rat where
  "slack = 4835703278458517 / 2 ^ 82"

lemma nano: "tick_epsilon = Fin slack"
  unfolding tick_epsilon_def slack_def using js_eval[of "1 / 10 ^ 9" 82 4835703278458517] by simp

lemma moderate_error: "\<bar>x\<bar> \<le> 2 ^ 41 \<Longrightarrow> \<bar>round64 x - x\<bar> \<le> 1 / 4000"
proof -
  assume "\<bar>x\<bar> \<le> 2 ^ 41"
  then have "\<bar>x\<bar> / 2 ^ 53 + 2 powi (- 1075) \<le> 1 / 4000" using tiny by simp
  then show ?thesis using round64_error[of x] by linarith
qed

definition cell_below :: "rat \<Rightarrow> int" where
  "cell_below x = \<lfloor>round64 (x + slack)\<rfloor>"

definition cell_above :: "rat \<Rightarrow> int" where
  "cell_above y = \<lceil>round64 (y - slack)\<rceil>"

lemma cells:
  assumes "0 \<le> x" "x + 1 / 1000 \<le> y" "y \<le> 2 ^ 40"
  shows "js_floor (Fin x + tick_epsilon) = Fin (of_int (cell_below x))"
    and "js_ceil (Fin y - tick_epsilon) = Fin (of_int (cell_above y))"
    and "of_int (cell_below x) \<le> x + 1 / 1000" "x < of_int (cell_below x) + 1 + 1 / 1000" "0 \<le> cell_below x"
    and "y \<le> of_int (cell_above y) + 1 / 1000" "of_int (cell_above y) < y + 1 + 1 / 1000"
    and "cell_below x < cell_above y"
proof -
  have e: "0 < slack" "slack \<le> 1 / 10000" by (simp_all add: slack_def)
  have x: "\<bar>x + slack\<bar> \<le> 2 ^ 41" and y: "\<bar>y - slack\<bar> \<le> 2 ^ 41" using assms e by (simp_all add: abs_le_iff)
  have jx: "js (x + slack) = Fin (round64 (x + slack))" and jy: "js (y - slack) = Fin (round64 (y - slack))"
    using x y by (intro js_moderate; simp)+
  show "js_floor (Fin x + tick_epsilon) = Fin (of_int (cell_below x))"
    unfolding nano plus_jsnum_def js_add.simps jx by (simp add: js_floor_def cell_below_def)
  have "js_ceil (js (y - slack)) = Fin (of_int (cell_above y))" unfolding jy by (simp add: js_ceil_def cell_above_def)
  then show "js_ceil (Fin y - tick_epsilon) = Fin (of_int (cell_above y))" by (simp add: nano minus_jsnum_def)
  have rx: "\<bar>round64 (x + slack) - (x + slack)\<bar> \<le> 1 / 4000" and ry: "\<bar>round64 (y - slack) - (y - slack)\<bar> \<le> 1 / 4000"
    by (rule moderate_error[OF x], rule moderate_error[OF y])
  then have rx': "round64 (x + slack) \<le> x + slack + 1 / 4000" "x + slack - 1 / 4000 \<le> round64 (x + slack)"
    and ry': "round64 (y - slack) \<le> y - slack + 1 / 4000" "y - slack - 1 / 4000 \<le> round64 (y - slack)"
    unfolding abs_le_iff by (simp_all add: algebra_simps)
  have cx: "of_int (cell_below x) \<le> round64 (x + slack)" "round64 (x + slack) < of_int (cell_below x) + 1"
    unfolding cell_below_def by (rule of_int_floor_le, rule floor_correct[THEN conjunct2, simplified])
  have cy: "round64 (y - slack) \<le> of_int (cell_above y)" "of_int (cell_above y) < round64 (y - slack) + 1"
    unfolding cell_above_def using ceiling_correct[of "round64 (y - slack)"] by auto
  show "of_int (cell_below x) \<le> x + 1 / 1000" using cx rx' e by linarith
  show "x < of_int (cell_below x) + 1 + 1 / 1000" using cx rx' e by linarith
  show "y \<le> of_int (cell_above y) + 1 / 1000" using cy ry' e by linarith
  show "of_int (cell_above y) < y + 1 + 1 / 1000" using cy ry' e by linarith
  show "0 \<le> cell_below x" using round64_nonneg[of "x + slack"] assms(1) e(1) by (simp add: cell_below_def)
  have "(of_int (cell_below x) :: rat) < of_int (cell_above y)"
    using cx(1) cy(1) rx' ry' e assms(2) by linarith
  then show "cell_below x < cell_above y" by simp
qed

lemma grid_multiple:
  assumes "near d g K (1 / 2 ^ 53 * of_int K + 1 / 2 ^ 100)" "0 < K" "\<bar>n\<bar> * K \<le> 2 ^ 48" "d \<le> 20"
  shows "js (of_int n * g) = Fin (round64 (of_int n * g))" "near d (round64 (of_int n * g)) (n * K) (1 / 8)"
proof -
  have "\<bar>n\<bar> * 1 \<le> \<bar>n\<bar> * K" using assms(2) by (intro mult_left_mono) auto
  then have "\<bar>n\<bar> \<le> 2 ^ 48" using assms(3) by linarith
  then have n: "\<bar>of_int n :: rat\<bar> \<le> 2 ^ 48" by (metis of_int_abs of_int_le_iff of_int_numeral of_int_power)
  have nK: "\<bar>n * K\<bar> \<le> 2 ^ 48" using assms(2,3) by (simp add: abs_mult)
  then have nKr: "\<bar>of_int n\<bar> * of_int K \<le> (2 ^ 48 :: rat)"
    using assms(2) by (metis abs_mult abs_of_pos of_int_abs of_int_le_iff of_int_mult of_int_numeral of_int_power)
  have "near d (of_int n * g) (n * K) (1 / 16)"
  proof (rule near_mono[OF near_mult[OF assms(1)]])
    have "\<bar>of_int n\<bar> * (1 / 2 ^ 53 * of_int K + 1 / 2 ^ 100)
        = (\<bar>of_int n\<bar> * of_int K) / 2 ^ 53 + \<bar>of_int n\<bar> / (2 ^ 100 :: rat)" by (simp add: algebra_simps)
    also have "\<dots> \<le> 2 ^ 48 / 2 ^ 53 + 2 ^ 48 / 2 ^ 100" using nKr n by (intro add_mono divide_right_mono) auto
    also have "\<dots> \<le> (1 / 16 :: rat)" by simp
    finally show "\<bar>of_int n\<bar> * (1 / 2 ^ 53 * of_int K + 1 / 2 ^ 100) \<le> (1 / 16 :: rat)" .
  qed
  from near_js[OF this nK] near_round[OF this nK] assms(4)
  show "js (of_int n * g) = Fin (round64 (of_int n * g))" "near d (round64 (of_int n * g)) (n * K) (1 / 8)"
    by (auto elim!: near_mono)
qed

lemma grid_near:
  assumes "d \<le> 20" shows "near d (round64 (of_int K / 10 ^ d)) K (1 / 2 ^ 53 * of_int \<bar>K\<bar> + 1 / 2 ^ 100)"
proof -
  have "round64 (of_int K / 10 ^ d) * 10 ^ d - of_int K = (round64 (of_int K / 10 ^ d) - of_int K / 10 ^ d) * 10 ^ d"
    by (simp add: left_diff_distrib)
  then have "\<bar>round64 (of_int K / 10 ^ d) * 10 ^ d - of_int K\<bar> = \<bar>round64 (of_int K / 10 ^ d) - of_int K / 10 ^ d\<bar> * 10 ^ d"
    by (simp only: abs_mult abs_of_pos zero_less_power zero_less_numeral)
  also have "\<dots> \<le> (\<bar>of_int K / 10 ^ d\<bar> / 2 ^ 53 + 1 / 2 ^ 200) * 10 ^ d"
    using round64_error[of "of_int K / 10 ^ d"] tiny by (intro mult_right_mono) auto
  also have "\<dots> = 1 / 2 ^ 53 * of_int \<bar>K\<bar> + 10 ^ d / 2 ^ 200" by (simp add: abs_mult distrib_right)
  also have "(10::rat) ^ d / 2 ^ 200 \<le> 10 ^ 20 / 2 ^ 200" using assms by (intro divide_right_mono power_increasing) auto
  also have "(10::rat) ^ 20 / 2 ^ 200 \<le> 1 / 2 ^ 100" by simp
  finally show ?thesis by (simp add: near_def)
qed

text \<open>The index of a rung counted in grid steps.\<close>

definition rung_index :: "TPositionType \<Rightarrow> int \<Rightarrow> nat \<Rightarrow> int" where
  "rung_index side n level = (case side of LONG \<Rightarrow> n - int level | SHORT \<Rightarrow> n + int level)"

lemma rungPrice_on_grid:
  assumes d: "ms_priceDecimals market = d" "d \<le> 20" and K: "0 < K" and Kb: "K \<le> 2 ^ 48"
    and n: "(\<bar>n\<bar> + int level) * K \<le> 2 ^ 48"
  shows "rungPrice (js_fixed d (Fin (of_int n) * decimal d K)) side level (decimal d K) market
    = decimal d (rung_index side n level * K)"
proof -
  define g where "g = round64 (of_int K / 10 ^ d)"
  define k where "k = (case side of LONG \<Rightarrow> - int level | SHORT \<Rightarrow> int level)"
  have "\<bar>n\<bar> * K \<le> (\<bar>n\<bar> + int level) * K" "\<bar>k\<bar> * K \<le> (\<bar>n\<bar> + int level) * K" "\<bar>n + k\<bar> * K \<le> (\<bar>n\<bar> + int level) * K"
    using K by (auto simp: k_def split: TPositionType.split)
  then have bounds: "\<bar>n\<bar> * K \<le> 2 ^ 48" "\<bar>k\<bar> * K \<le> 2 ^ 48" "\<bar>n + k\<bar> * K \<le> 2 ^ 48" using n by linarith+
  then have abounds: "\<bar>n * K\<bar> \<le> 2 ^ 48" "\<bar>n * K + k * K\<bar> \<le> 2 ^ 48"
    using K by (simp_all add: abs_mult flip: distrib_right)
  have g: "decimal d K = Fin g" using decimal_near(1)[of K d] K d(2) Kb by (simp add: g_def)
  have ng: "near d g K (1 / 2 ^ 53 * of_int K + 1 / 2 ^ 100)" using grid_near[OF d(2), of K] K by (simp add: g_def)
  note tg = grid_multiple[OF ng K bounds(1) d(2)] and kg = grid_multiple[OF ng K bounds(2) d(2)]
  define t where "t = round64 (of_int (n * K) / 10 ^ d)"
  have "Fin (of_int n) * decimal d K = Fin (round64 (of_int n * g))"
    unfolding g times_jsnum_def js_mult.simps by (rule tg(1))
  moreover have "js_fixed d (Fin (round64 (of_int n * g))) = decimal d (n * K)"
    unfolding decimal_def by (rule near_fixed[OF tg(2)]) (use abounds in simp_all)
  ultimately have "js_fixed d (Fin (of_int n) * decimal d K) = decimal d (n * K)" by simp
  then have t: "js_fixed d (Fin (of_int n) * decimal d K) = Fin t" "near d t (n * K) (1 / 16)"
    using decimal_near[OF abounds(1) d(2)] by (simp_all add: t_def)
  have "\<bar>k\<bar> * 1 \<le> \<bar>k\<bar> * K" using K by (intro mult_left_mono) auto
  then have "\<bar>k\<bar> \<le> 2 ^ 53" using bounds(2) by simp
  then have dir: "(case side of LONG \<Rightarrow> Fin (- 1) | SHORT \<Rightarrow> Fin 1) * Fin (of_nat level) = Fin (of_int k)"
    using js_of_int[of k] by (cases side) (simp_all add: k_def times_jsnum_def)
  define s where "s = round64 (of_int k * g)"
  have s: "Fin (of_int k) * Fin g = Fin s" "near d s (k * K) (1 / 8)"
    using kg by (simp_all add: s_def times_jsnum_def)
  have sum: "near d (t + s) (n * K + k * K) (3 / 16)" using near_add[OF t(2) s(2)] by simp
  have "near d (round64 (t + s)) (n * K + k * K) (1 / 4)"
    using near_round[OF sum abounds(2) _ d(2)] by simp
  then have "js_fixed d (Fin (round64 (t + s))) = decimal d (n * K + k * K)"
    unfolding decimal_def by (rule near_fixed) (use abounds in simp_all)
  moreover have "Fin t + Fin s = Fin (round64 (t + s))"
    using near_js[OF sum abounds(2)] by (simp add: plus_jsnum_def)
  moreover have "n * K + k * K = rung_index side n level * K"
    by (simp add: rung_index_def k_def algebra_simps split: TPositionType.split)
  ultimately show ?thesis unfolding rungPrice_def Let_def d(1) t(1) dir unfolding g s(1) by simp
qed

lemma decimal_0 [simp]: "decimal d 0 = Fin 0"
  by (simp add: decimal_def)

lemma decimal_nonpos:
  assumes "\<bar>a\<bar> \<le> 2 ^ 48" "d \<le> 20" shows "decimal d a \<le> 0 \<longleftrightarrow> a \<le> 0"
  using decimal_strict_mono[of 0 a d] decimal_strict_mono[of a 0 d] assms
  by (cases a "0 :: int" rule: linorder_cases) (auto simp: zero_jsnum_def dest: js_less_imp_le js_less_le_trans)

lemma map_map_filter:
  assumes "\<And>x. x \<in> set xs \<Longrightarrow> map_option f (g x) = (if P x then Some (h x) else None)"
  shows "map f (List.map_filter g xs) = map h (filter P xs)"
  using assms by (induction xs) (force simp: List.map_filter_simps split: option.splits if_splits)+

definition quote_place :: "Quote \<Rightarrow> TPositionType \<times> nat \<times> jsnum" where
  "quote_place q = (q_side q, q_level q, q_price q)"

lemma rungs_of_side:
  assumes d: "ms_priceDecimals market = d" "d \<le> 20" and K: "0 < K" "K \<le> 2 ^ 48" and n: "(\<bar>n\<bar> + int L) * K \<le> 2 ^ 48"
  shows "map quote_place (List.map_filter
      (rung (js_fixed d (Fin (of_int n) * decimal d K)) (decimal d K) leverage market config side) [0..<L])
    = map (\<lambda>i. (side, i, decimal d (rung_index side n i * K))) (filter (\<lambda>i. 0 < rung_index side n i) [0..<L])"
proof (rule map_map_filter)
  fix i assume "i \<in> set [0..<L]"
  then have "(\<bar>n\<bar> + int i) * K \<le> (\<bar>n\<bar> + int L) * K" using K by (intro mult_right_mono) auto
  then have i: "(\<bar>n\<bar> + int i) * K \<le> 2 ^ 48" using n by linarith
  have "\<bar>rung_index side n i\<bar> * K \<le> (\<bar>n\<bar> + int i) * K"
    using K by (intro mult_right_mono) (auto simp: rung_index_def split: TPositionType.split)
  moreover have "\<bar>rung_index side n i * K\<bar> = \<bar>rung_index side n i\<bar> * K" using K by (simp add: abs_mult)
  ultimately have "\<bar>rung_index side n i * K\<bar> \<le> 2 ^ 48" using i by linarith
  then have "decimal d (rung_index side n i * K) \<le> 0 \<longleftrightarrow> rung_index side n i \<le> 0"
    using decimal_nonpos[OF _ d(2)] K by (simp add: mult_le_0_iff)
  then show "map_option quote_place
      (rung (js_fixed d (Fin (of_int n) * decimal d K)) (decimal d K) leverage market config side i)
    = (if 0 < rung_index side n i then Some (side, i, decimal d (rung_index side n i * K)) else None)"
    by (simp add: rung_def Let_def rungPrice_on_grid[OF d K i] quote_place_def)
qed

lemma ladder_on_grid:
  assumes "ms_priceDecimals market = d" "d \<le> 20" "gridSize log2 anchor market config = decimal d K" "0 < K"
    and "referencePrices anchor (normalisedInventory inventory (lc_maxInventoryNotional config)) config = (bidRef, askRef)"
    and "bidRef / decimal d K = Fin x" "askRef / decimal d K = Fin y"
    and "0 \<le> x" "x + 1 / 1000 \<le> y" "y \<le> 2 ^ 40" "(\<lceil>y\<rceil> + 1 + int (lc_levels config)) * K \<le> 2 ^ 48"
  shows "\<exists>n m. of_int n \<le> x + 1 / 1000 \<and> x < of_int n + 1 + 1 / 1000
    \<and> y \<le> of_int m + 1 / 1000 \<and> of_int m < y + 1 + 1 / 1000 \<and> 0 \<le> n \<and> n < m
    \<and> map quote_place (buildLadder log2 anchor inventory market config) =
        map (\<lambda>i. (LONG, i, decimal d ((n - int i) * K))) (filter (\<lambda>i. int i < n) [0..<lc_levels config])
        @ map (\<lambda>i. (SHORT, i, decimal d ((m + int i) * K))) [0..<lc_levels config]
    \<and> list_all (\<lambda>bid. list_all (\<lambda>ask. q_price bid < q_price ask)
        (filter (\<lambda>q. q_side q = SHORT) (buildLadder log2 anchor inventory market config)))
        (filter (\<lambda>q. q_side q = LONG) (buildLadder log2 anchor inventory market config))
    \<and> distinct (map (\<lambda>q. (q_side q, q_price q)) (buildLadder log2 anchor inventory market config))"
proof -
  define L where "L = lc_levels config"
  define n where "n = cell_below x"
  define m where "m = cell_above y"
  define quotes where "quotes = buildLadder log2 anchor inventory market config"
  note c = cells[OF assms(8,9,10), folded n_def m_def]
  have "m \<le> \<lceil>y\<rceil> + 1" using c(7) by linarith
  then have "(m + int L) * K \<le> (\<lceil>y\<rceil> + 1 + int L) * K" using assms(4) by (intro mult_right_mono) auto
  then have mK: "(m + int L) * K \<le> 2 ^ 48" using assms(11) by (simp add: L_def)
  have "(n + int L) * K \<le> (m + int L) * K" "1 * K \<le> (m + int L) * K"
    using c(5,8) assms(4) by (intro mult_right_mono; simp)+
  then have nK: "(\<bar>n\<bar> + int L) * K \<le> 2 ^ 48" and mK': "(\<bar>m\<bar> + int L) * K \<le> 2 ^ 48" and K: "K \<le> 2 ^ 48"
    using mK c(5,8) by simp_all
  let ?touch = "\<lambda>k. js_fixed d (Fin (of_int k) * decimal d K)"
  let ?side = "\<lambda>side k. List.map_filter (rung (?touch k) (decimal d K) (effectiveLeverage config market) market config side) [0..<L]"
  have "floorToTick bidRef (decimal d K) d = ?touch n" "ceilToTick askRef (decimal d K) d = ?touch m"
    by (simp_all add: floorToTick_def ceilToTick_def assms(6,7) c(1,2))
  then have q: "quotes = ?side LONG n @ ?side SHORT m"
    by (simp add: quotes_def buildLadder_def Let_def assms(1,3,5) L_def)
  have bids: "map quote_place (?side LONG n) =
      map (\<lambda>i. (LONG, i, decimal d ((n - int i) * K))) (filter (\<lambda>i. int i < n) [0..<L])"
    using rungs_of_side[OF assms(1,2,4) K nK] by (simp add: rung_index_def)
  have asks: "map quote_place (?side SHORT m) = map (\<lambda>i. (SHORT, i, decimal d ((m + int i) * K))) [0..<L]"
    using rungs_of_side[OF assms(1,2,4) K mK'] c(5,8) by (simp add: rung_index_def)
  have places: "map quote_place quotes = map (\<lambda>i. (LONG, i, decimal d ((n - int i) * K))) (filter (\<lambda>i. int i < n) [0..<L])
      @ map (\<lambda>i. (SHORT, i, decimal d ((m + int i) * K))) [0..<L]"
    by (simp add: q bids asks)
  have less: "decimal d (a * K) < decimal d (b * K)" if "0 \<le> a" "a < b" "b \<le> m + int L" for a b
  proof (rule decimal_strict_mono[OF _ _ _ assms(2)])
    have "a * K \<le> (m + int L) * K" "b * K \<le> (m + int L) * K" using that assms(4) by (intro mult_right_mono; simp)+
    moreover have "0 \<le> a * K" "0 \<le> b * K" using that assms(4) by simp_all
    ultimately show "\<bar>a * K\<bar> \<le> 2 ^ 48" "\<bar>b * K\<bar> \<le> 2 ^ 48" using mK by linarith+
  qed (use that assms(4) in simp)
  have bid_of: "\<exists>i. int i < n \<and> q_price b = decimal d ((n - int i) * K)" if "b \<in> set quotes" "q_side b = LONG" for b
  proof -
    have "quote_place b \<in> set (map quote_place quotes)" using that(1) by simp
    then show ?thesis using that(2) unfolding places by (auto simp: quote_place_def)
  qed
  have ask_of: "\<exists>i < L. q_price a = decimal d ((m + int i) * K)" if "a \<in> set quotes" "q_side a = SHORT" for a
  proof -
    have "quote_place a \<in> set (map quote_place quotes)" using that(1) by simp
    then show ?thesis using that(2) unfolding places by (auto simp: quote_place_def)
  qed
  have apart: "q_price b < q_price a" if "b \<in> set quotes" "q_side b = LONG" "a \<in> set quotes" "q_side a = SHORT" for a b
  proof -
    from bid_of[OF that(1,2)] ask_of[OF that(3,4)] obtain i j where "int i < n"
      "q_price b = decimal d ((n - int i) * K)" "j < L" "q_price a = decimal d ((m + int j) * K)" by blast
    then show ?thesis using less[of "n - int i" "m + int j"] c(8) by simp
  qed
  have ne: "decimal d (a * K) = decimal d (b * K) \<longleftrightarrow> a = b" if "0 \<le> a" "0 \<le> b" "a \<le> m + int L" "b \<le> m + int L" for a b
    using less[of a b] less[of b a] that by (cases a b rule: linorder_cases) auto
  have "map (\<lambda>q. (q_side q, q_price q)) quotes = map (\<lambda>p. (fst p, snd (snd p))) (map quote_place quotes)"
    by (simp add: quote_place_def)
  moreover have "distinct (map (\<lambda>p. (fst p, snd (snd p))) (map quote_place quotes))"
    unfolding places using c(5,8) by (auto simp: distinct_map inj_on_def ne)
  ultimately have "distinct (map (\<lambda>q. (q_side q, q_price q)) quotes)" by (simp only:)
  moreover have "list_all (\<lambda>bid. list_all (\<lambda>ask. q_price bid < q_price ask)
      (filter (\<lambda>q. q_side q = SHORT) quotes)) (filter (\<lambda>q. q_side q = LONG) quotes)"
    using apart by (simp add: list_all_iff)
  ultimately show ?thesis using c(3-8) places unfolding quotes_def L_def by blast
qed

text \<open>
  C37. The rungs sit on the grid, and the book is not crossed. When the grid is a positive number of
  price units and the references are a thousandth of a step apart or more, there are cells below
  the bid reference and above the ask reference, the first smaller than the second, such that the
  ladder consists of exactly one bid per level at every positive multiple of the grid from the first
  downwards and one ask per level from the second upwards, each price the double nearest to its
  multiple, whatever the roundings on the way; every bid is below every ask and no price repeats.
\<close>

theorem rungs_are_on_the_grid:
  assumes "ms_priceDecimals market = d" "d \<le> 20" "gridSize log2 anchor market config = decimal d K" "0 < K"
    and "referencePrices anchor (normalisedInventory inventory (lc_maxInventoryNotional config)) config = (bidRef, askRef)"
    and "bidRef / decimal d K = Fin x" "askRef / decimal d K = Fin y"
    and "0 \<le> x" "x + 1 / 1000 \<le> y" "y \<le> 2 ^ 40" "(\<lceil>y\<rceil> + 1 + int (lc_levels config)) * K \<le> 2 ^ 48"
  shows "\<exists>n m. of_int n \<le> x + 1 / 1000 \<and> x < of_int n + 1 + 1 / 1000
    \<and> y \<le> of_int m + 1 / 1000 \<and> of_int m < y + 1 + 1 / 1000 \<and> 0 \<le> n \<and> n < m
    \<and> map quote_place (buildLadder log2 anchor inventory market config) =
        map (\<lambda>i. (LONG, i, decimal d ((n - int i) * K))) (filter (\<lambda>i. int i < n) [0..<lc_levels config])
        @ map (\<lambda>i. (SHORT, i, decimal d ((m + int i) * K))) [0..<lc_levels config]
    \<and> list_all (\<lambda>bid. list_all (\<lambda>ask. q_price bid < q_price ask)
        (filter (\<lambda>q. q_side q = SHORT) (buildLadder log2 anchor inventory market config)))
        (filter (\<lambda>q. q_side q = LONG) (buildLadder log2 anchor inventory market config))
    \<and> distinct (map (\<lambda>q. (q_side q, q_price q)) (buildLadder log2 anchor inventory market config))"
  by (rule ladder_on_grid[OF assms])

section \<open>A small market maker\<close>

definition sample_spec :: MarketSpec where
  "sample_spec = \<lparr>ms_slug = ''X'', ms_priceDecimals = 0, ms_sizeDecimals = 0, ms_tickSize = ''1'', ms_maxLeverage = Fin 8\<rparr>"

definition sample_config :: LadderConfig where
  "sample_config = \<lparr>lc_levels = 2, lc_spreadBps = Fin 625, lc_levelStepBps = Fin 625, lc_skewBps = Fin 3,
     lc_baseNotional = Fin 960, lc_sizeGrowth = Fin 0, lc_sizeJitter = Fin 0, lc_leverage = Fin 2,
     lc_requoteBps = Fin 3, lc_maxInventoryNotional = Fin 20000\<rparr>"

lemma sample_inventory: "normalisedInventory (Fin 0) (lc_maxInventoryNotional sample_config) = Fin 0"
  by (simp add: normalisedInventory_def clamp_def sample_config_def js_max_def js_min_def)

lemma sample_references: "referencePrices (Fin 1024) (Fin 0) sample_config = (Fin 992, Fin 1056)"
  using js_dyadic[of 625 1] js_dyadic[of 1 5] js_dyadic[of 31 5] js_dyadic[of 33 5]
  by (simp add: referencePrices_def Let_def sample_config_def bps_def)

lemma sample_tick: "js_number ''1'' = Fin 1"
  by (simp add: js_number_def trim_def is_space_def js_unsigned_def is_digit_def nat_of_digits_def digit_val_def)

lemma sample_gridSize: "gridSize (\<lambda>_. Fin 10) (Fin 1024) sample_spec sample_config = decimal 0 64"
proof -
  have "js_exp2 (js_round (Fin 10)) = Fin 1024" by (simp add: js_round_def js_exp2_def floor_rat_numeral)
  moreover have "(Fin 1024 * Fin 625) / bps = Fin 64" by (simp add: bps_def)
  moreover have "js_max (Fin 1) (js_round (Fin 64 / Fin 1)) = Fin 64" by (simp add: js_round_def js_max_def floor_rat_numeral)
  moreover have "js_fixed 0 (Fin 64 * Fin 1) = decimal 0 64" by (simp add: js_fixed_def decimal_def floor_rat_numeral)
  ultimately show ?thesis unfolding gridSize_def Let_def by (simp add: sample_spec_def sample_config_def sample_tick)
qed

lemma sample_steps: "Fin 992 / decimal 0 64 = Fin (31 / 2)" "Fin 1056 / decimal 0 64 = Fin (33 / 2)"
  using js_dyadic[of 31 1] js_dyadic[of 33 1] by (simp_all add: decimal_def)

lemma sample_ladder:
  "map quote_place (buildLadder (\<lambda>_. Fin 10) (Fin 1024) (Fin 0) sample_spec sample_config) =
      [(LONG, 0, Fin 960), (LONG, 1, Fin 896), (SHORT, 0, Fin 1088), (SHORT, 1, Fin 1152)]"
proof -
  have "ms_priceDecimals sample_spec = 0" "lc_levels sample_config = 2"
    by (simp_all add: sample_spec_def sample_config_def)
  moreover have "\<lceil>33 / 2 :: rat\<rceil> = 17" by (simp add: ceiling_eq_iff)
  moreover note sample_gridSize sample_references sample_inventory sample_steps
  ultimately obtain n m :: int where nm: "of_int n \<le> 31 / 2 + 1 / (1000 :: rat)" "31 / 2 < of_int n + 1 + 1 / (1000 :: rat)"
      "33 / 2 \<le> of_int m + 1 / (1000 :: rat)" "of_int m < 33 / 2 + 1 + 1 / (1000 :: rat)"
    and places: "map quote_place (buildLadder (\<lambda>_. Fin 10) (Fin 1024) (Fin 0) sample_spec sample_config) =
        map (\<lambda>i. (LONG, i, decimal 0 ((n - int i) * 64))) (filter (\<lambda>i. int i < n) [0..<2])
        @ map (\<lambda>i. (SHORT, i, decimal 0 ((m + int i) * 64))) [0..<2]"
    using ladder_on_grid[of sample_spec 0 "\<lambda>_. Fin 10" "Fin 1024" sample_config 64 "Fin 0" "Fin 992" "Fin 1056"
        "31 / 2" "33 / 2"] by auto
  have "n = 15" "m = 17" using nm by linarith+
  then show ?thesis using places by (simp add: decimal_def upt_rec)
qed

theorem rungs_are_on_the_grid_witness:
  "list_all (\<lambda>bid. list_all (\<lambda>ask. q_price bid < q_price ask)
        (filter (\<lambda>q. q_side q = SHORT) (buildLadder (\<lambda>_. Fin 10) (Fin 1024) (Fin 0) sample_spec sample_config)))
        (filter (\<lambda>q. q_side q = LONG) (buildLadder (\<lambda>_. Fin 10) (Fin 1024) (Fin 0) sample_spec sample_config))
    \<and> map quote_place (buildLadder (\<lambda>_. Fin 10) (Fin 1024) (Fin 0) sample_spec sample_config) =
      [(LONG, 0, Fin 960), (LONG, 1, Fin 896), (SHORT, 0, Fin 1088), (SHORT, 1, Fin 1152)]"
proof -
  have "ms_priceDecimals sample_spec = 0" "lc_levels sample_config = 2" "\<lceil>33 / 2 :: rat\<rceil> = 17"
    by (simp_all add: sample_spec_def sample_config_def ceiling_eq_iff)
  then show ?thesis
    using rungs_are_on_the_grid[of sample_spec 0 "\<lambda>_. Fin 10" "Fin 1024" sample_config 64 "Fin 0" "Fin 992" "Fin 1056"
        "31 / 2" "33 / 2"] sample_gridSize sample_references sample_inventory sample_steps sample_ladder by auto
qed

end
