(* ===== verification/LadderProperties.thy ===== *)
theory LadderProperties
  imports LadderGrid
begin

text \<open>
  The properties of the market maker's cycle: what reconciling keeps, cancels and places, that a
  ladder which rests as wanted is left alone, and that a cycle never trades with its own orders.
\<close>

section \<open>The nearest order\<close>

lemma nearest_cases:
  assumes "nearest price orders i (b, d) = (b', d')"
  shows "(b', d') = (b, d) \<or> (\<exists>k < length orders. b' = Some (i + k) \<and> d' = \<bar>rs_price (orders ! k) - price\<bar>)"
  using assms
proof (induction orders arbitrary: i b d)
  case (Cons r rs)
  show ?case
  proof (cases "\<bar>rs_price r - price\<bar> < d")
    case True
    then show ?thesis using Cons.IH[of "Suc i" "Some i" "\<bar>rs_price r - price\<bar>"] Cons.prems
      by (fastforce intro: exI[of _ 0] exI[of _ "Suc _"])
  next
    case False
    then show ?thesis using Cons.IH[of "Suc i" b d] Cons.prems by (fastforce intro: exI[of _ "Suc _"])
  qed
qed simp

lemma nearest_Some:
  assumes "nearest price orders 0 (None, PInf) = (Some k, d)"
  shows "k < length orders" "d = \<bar>rs_price (orders ! k) - price\<bar>"
  using nearest_cases[OF assms] by auto

lemma nearest_least:
  assumes "nearest price orders i (b, d) = (b', d')"
  shows "(d' = d \<or> d' < d) \<and> (\<forall>r \<in> set orders. \<not> \<bar>rs_price r - price\<bar> < d')"
  using assms
proof (induction orders arbitrary: i b d)
  case (Cons r rs)
  show ?case
  proof (cases "\<bar>rs_price r - price\<bar> < d")
    case True
    then have "nearest price rs (Suc i) (Some i, \<bar>rs_price r - price\<bar>) = (b', d')" using Cons.prems by simp
    from Cons.IH[OF this] True show ?thesis
      by (auto dest: js_less_trans)
  next
    case False
    then have "nearest price rs (Suc i) (b, d) = (b', d')" using Cons.prems by simp
    from Cons.IH[OF this] False show ?thesis by (auto dest: js_less_trans)
  qed
qed simp

lemma in_splice1_or: "k < length xs \<Longrightarrow> mset xs = add_mset (xs ! k) (mset (splice1 k xs))"
  by (simp add: mset_splice1)

section \<open>What one side keeps\<close>

text \<open>An order that holds a rung: near enough, and with about the size that is wanted.\<close>

definition holds :: "Resting \<Rightarrow> Quote \<Rightarrow> bool" where
  "holds r q \<longleftrightarrow> \<not> \<bar>rs_price r - q_price q\<bar> > q_tolerance q \<and> \<not> sizeDrift r q > size_drift_tolerance"

definition diff_ok :: "Resting list \<Rightarrow> Quote list \<Rightarrow> Resting list \<Rightarrow> side_diff \<Rightarrow> bool" where
  "diff_ok orders quotes kept d \<longleftrightarrow>
     mset kept + mset (sd_toCancel d) + mset (sd_available d) = mset orders
     \<and> sd_adoptedPrices d = map rs_price kept
     \<and> list_all (\<lambda>r. list_ex (holds r) quotes) kept
     \<and> list_all (\<lambda>q. q \<in> set (sd_pending d) \<or> list_ex (\<lambda>r. holds r q) kept) quotes
     \<and> mset (sd_pending d) \<subseteq># mset quotes
     \<and> length kept + length (sd_pending d) = length quotes"

lemma add_mset_sub: "A \<subseteq># B \<Longrightarrow> A \<subseteq># add_mset x B"
  by (metis add_mset_add_single mset_subset_eq_add_left subset_mset.order_trans)

lemma matchQuote_ok:
  assumes "diff_ok orders quotes kept d"
  shows "\<exists>kept'. diff_ok orders (quotes @ [q]) kept' (matchQuote d q)"
proof -
  obtain b dist where n: "nearest (q_price q) (sd_available d) 0 (None, PInf) = (b, dist)" by fastforce
  have wait: "diff_ok orders (quotes @ [q]) kept (d\<lparr>sd_pending := sd_pending d @ [q]\<rparr>)"
    using assms by (auto simp: diff_ok_def list_all_iff list_ex_iff)
  show ?thesis
  proof (cases "b = None \<or> dist > q_tolerance q")
    case True
    then have "matchQuote d q = d\<lparr>sd_pending := sd_pending d @ [q]\<rparr>"
      using n by (auto simp: matchQuote_def split: option.split)
    then show ?thesis using wait by auto
  next
    case False
    then obtain k where k: "b = Some k" by auto
    let ?r = "sd_available d ! k"
    have kl: "k < length (sd_available d)" "dist = \<bar>rs_price ?r - q_price q\<bar>"
      using nearest_Some n k by auto
    have m: "mset (sd_available d) = add_mset ?r (mset (splice1 k (sd_available d)))"
      by (rule in_splice1_or[OF kl(1)])
    show ?thesis
    proof (cases "sizeDrift ?r q > size_drift_tolerance")
      case True
      then have "diff_ok orders (quotes @ [q]) kept (matchQuote d q)"
        using assms m False n k kl by (auto simp: diff_ok_def matchQuote_def Let_def list_all_iff list_ex_iff)
      then show ?thesis ..
    next
      case small: False
      then have "holds ?r q" using False kl by (simp add: holds_def)
      then have "diff_ok orders (quotes @ [q]) (kept @ [?r]) (matchQuote d q)"
        using assms m False small n k kl
        by (auto simp: diff_ok_def matchQuote_def Let_def list_all_iff list_ex_iff intro: add_mset_sub)
      then show ?thesis ..
    qed
  qed
qed

lemma matchQuotes_ok:
  assumes "diff_ok orders quotes kept d"
  shows "\<exists>kept'. diff_ok orders (quotes @ qs) kept' (foldl matchQuote d qs)"
  using assms
proof (induction qs arbitrary: quotes kept d)
  case (Cons q qs)
  then obtain kept' where "diff_ok orders (quotes @ [q]) kept' (matchQuote d q)" using matchQuote_ok by blast
  from Cons.IH[OF this] show ?case by simp
qed auto

text \<open>
  What a settled ladder promises: \<open>kept\<close> are the orders left resting. Every order is kept or
  cancelled; a kept one holds a rung; every rung wanted is placed, is held, or has an order kept at
  its very price; nothing is placed on the price of a kept order of its side; and there are never
  more orders than rungs.
\<close>

definition settles :: "Quote list \<Rightarrow> Resting list \<Rightarrow> Resting list \<Rightarrow> Resting list \<Rightarrow> Quote list \<Rightarrow> bool" where
  "settles desired resting kept cancels places \<longleftrightarrow>
     mset kept + mset cancels = mset resting
     \<and> list_all (\<lambda>r. list_ex (\<lambda>q. q_side q = rs_side r \<and> holds r q) desired) kept
     \<and> list_all (\<lambda>q. q \<in> set places
           \<or> list_ex (\<lambda>r. rs_side r = q_side q \<and> (holds r q \<or> rs_price r = q_price q)) kept) desired
     \<and> list_all (\<lambda>q. \<not> list_ex (\<lambda>r. rs_side r = q_side q \<and> rs_price r = q_price q) kept) places
     \<and> mset places \<subseteq># mset desired
     \<and> length kept + length places \<le> length desired"

lemma reconcileSide_settles:
  assumes "reconcileSide desired resting side = (cancels, places)"
  shows "\<exists>kept. settles (filter (\<lambda>q. q_side q = side) desired) (filter (\<lambda>r. rs_side r = side) resting) kept cancels places
    \<and> list_all (\<lambda>r. rs_side r = side) kept \<and> list_all (\<lambda>q. q_side q = side) places"
proof -
  define d0 where "d0 = \<lparr>sd_available = bySide resting side, sd_adoptedPrices = [], sd_pending = [], sd_toCancel = []\<rparr>"
  define D where "D = filter (\<lambda>q. q_side q = side) desired"
  define R where "R = filter (\<lambda>r. rs_side r = side) resting"
  have "diff_ok R [] [] d0" by (simp add: diff_ok_def bySide_def d0_def R_def)
  from matchQuotes_ok[OF this, of D] obtain kept where "diff_ok R D kept (foldl matchQuote d0 D)" by auto
  moreover define d where "d = foldl matchQuote d0 D"
  ultimately have ok: "mset kept + mset (sd_toCancel d) + mset (sd_available d) = mset R"
      "sd_adoptedPrices d = map rs_price kept" "list_all (\<lambda>r. list_ex (holds r) D) kept"
      "list_all (\<lambda>q. q \<in> set (sd_pending d) \<or> list_ex (\<lambda>r. holds r q) kept) D"
      "mset (sd_pending d) \<subseteq># mset D" "length kept + length (sd_pending d) = length D"
    by (simp_all add: diff_ok_def)
  have c: "cancels = sd_toCancel d @ sd_available d"
    and p: "places = filter (\<lambda>q. q_price q \<notin> rs_price ` set kept) (sd_pending d)"
    using assms ok(2) by (auto simp: reconcileSide_def Let_def d_def D_def d0_def)
  have all: "mset kept + mset cancels = mset R" using ok(1) c by (simp add: ac_simps)
  then have "set kept \<subseteq> set R" by (metis mset_subset_eq_add_left set_mset_mono set_mset_mset)
  then have ks: "r \<in> set kept \<Longrightarrow> rs_side r = side" for r by (auto simp: R_def)
  have ds: "q \<in> set D \<Longrightarrow> q_side q = side" for q by (auto simp: D_def)
  have sub: "mset places \<subseteq># mset D"
    using ok(5) p by (metis mset_filter multiset_filter_subset subset_mset.order_trans)
  then have "set places \<subseteq> set D" by (metis set_mset_mono set_mset_mset)
  then have ps: "q \<in> set places \<Longrightarrow> q_side q = side" for q using ds by blast
  have "length kept + length places \<le> length D" using ok(6) p by (metis add_left_mono length_filter_le)
  moreover have "list_all (\<lambda>r. list_ex (\<lambda>q. q_side q = rs_side r \<and> holds r q) D) kept"
    using ok(3) ks ds unfolding list_all_iff list_ex_iff by metis
  moreover have "list_all (\<lambda>q. q \<in> set places
      \<or> list_ex (\<lambda>r. rs_side r = q_side q \<and> (holds r q \<or> rs_price r = q_price q)) kept) D"
    unfolding list_all_iff
  proof
    fix q assume q: "q \<in> set D"
    then consider "q \<in> set (sd_pending d)" | r where "r \<in> set kept" "holds r q"
      using ok(4) unfolding list_all_iff list_ex_iff by blast
    then show "q \<in> set places \<or> list_ex (\<lambda>r. rs_side r = q_side q \<and> (holds r q \<or> rs_price r = q_price q)) kept"
    proof cases
      case 1
      then show ?thesis using p ks ds[OF q] by (fastforce simp: list_ex_iff)
    next
      case 2
      then show ?thesis using ks ds[OF q] by (fastforce simp: list_ex_iff)
    qed
  qed
  moreover have "list_all (\<lambda>q. \<not> list_ex (\<lambda>r. rs_side r = q_side q \<and> rs_price r = q_price q) kept) places"
    unfolding p list_all_iff list_ex_iff by auto (metis imageI)
  ultimately have "settles D R kept cancels places" using all sub by (simp add: settles_def)
  then show ?thesis using ks ps by (auto simp: D_def R_def list_all_iff)
qed

lemma mset_sides:
  "mset (filter (\<lambda>x. f x = LONG) xs) + mset (filter (\<lambda>x. f x = SHORT) xs) = mset xs"
proof -
  have "f x = SHORT \<longleftrightarrow> f x \<noteq> LONG" for x by (cases "f x") auto
  then show ?thesis by (simp add: mset_filter)
qed

lemma settles_union:
  assumes "settles D R kept cancels places" "settles D' R' kept' cancels' places'"
    and "list_all (\<lambda>r. rs_side r = s) kept" "list_all (\<lambda>r. rs_side r \<noteq> s) kept'"
    and "list_all (\<lambda>q. q_side q = s) places" "list_all (\<lambda>q. q_side q \<noteq> s) places'"
    and "mset D + mset D' = mset desired" "mset R + mset R' = mset resting"
  shows "settles desired resting (kept @ kept') (cancels @ cancels') (places @ places')"
proof -
  have D: "set desired = set D \<union> set D'" using assms(7) by (metis set_mset_mset set_mset_union)
  have len: "length desired = length D + length D'" using assms(7) by (metis size_mset size_union)
  note s = assms(1,2)[unfolded settles_def list_all_iff list_ex_iff]
  note sides = assms(3-6)[unfolded list_all_iff]
  have "mset (kept @ kept') + mset (cancels @ cancels') = mset resting"
    using s by (simp add: ac_simps flip: assms(8))
  moreover have "mset (places @ places') \<subseteq># mset desired"
    using s assms(7) by (metis mset_append subset_mset.add_mono)
  moreover have "length (kept @ kept') + length (places @ places') \<le> length desired" using s len by auto
  moreover have "\<forall>r \<in> set (kept @ kept'). \<exists>q \<in> set desired. q_side q = rs_side r \<and> holds r q"
    using s D by (metis UnE UnI1 UnI2 set_append)
  moreover have "\<forall>q \<in> set desired. q \<in> set (places @ places')
      \<or> (\<exists>r \<in> set (kept @ kept'). rs_side r = q_side q \<and> (holds r q \<or> rs_price r = q_price q))"
    using s D by (metis UnE UnI1 UnI2 set_append)
  moreover have "\<forall>q \<in> set (places @ places'). \<not> (\<exists>r \<in> set (kept @ kept'). rs_side r = q_side q \<and> rs_price r = q_price q)"
    using s sides by (metis UnE set_append)
  ultimately show ?thesis by (simp only: settles_def list_all_iff list_ex_iff)
qed

lemma reconcile_settles:
  "\<exists>kept. settles desired resting kept (fst (reconcileLadder desired resting)) (snd (reconcileLadder desired resting))"
proof -
  obtain cb pb ca pa where b: "reconcileSide desired resting LONG = (cb, pb)" "reconcileSide desired resting SHORT = (ca, pa)"
    by fastforce
  have D: "mset (filter (\<lambda>q. q_side q = LONG) desired) + mset (filter (\<lambda>q. q_side q = SHORT) desired) = mset desired"
    and R: "mset (filter (\<lambda>r. rs_side r = LONG) resting) + mset (filter (\<lambda>r. rs_side r = SHORT) resting) = mset resting"
    by (rule mset_sides)+
  obtain kb ka where k:
      "settles (filter (\<lambda>q. q_side q = LONG) desired) (filter (\<lambda>r. rs_side r = LONG) resting) kb cb pb"
      "settles (filter (\<lambda>q. q_side q = SHORT) desired) (filter (\<lambda>r. rs_side r = SHORT) resting) ka ca pa"
      "list_all (\<lambda>r. rs_side r = LONG) kb" "list_all (\<lambda>q. q_side q = LONG) pb"
      "list_all (\<lambda>r. rs_side r \<noteq> LONG) ka" "list_all (\<lambda>q. q_side q \<noteq> LONG) pa"
    using reconcileSide_settles[OF b(1)] reconcileSide_settles[OF b(2)] by (auto simp: list_all_iff)
  have "settles desired resting (kb @ ka) (cb @ ca) (pb @ pa)"
    by (rule settles_union[OF k(1,2,3,5,4,6) D R])
  then show ?thesis by (auto simp: reconcileLadder_def b)
qed

text \<open>
  What reconciling does. The orders that rest are split into those kept and those cancelled; a kept
  order is within the tolerance of a rung of its side and has about its size; every rung is placed,
  is held by a kept order, or is skipped because a kept order rests at its very price; nothing is
  placed on a price a kept order of its side has, and there are never more orders than rungs.
\<close>

theorem reconciling_settles_the_ladder:
  "\<exists>kept. settles desired resting kept (fst (reconcileLadder desired resting)) (snd (reconcileLadder desired resting))"
  by (rule reconcile_settles)


section \<open>A ladder at rest\<close>

lemma abs_diff_self: "js_finite x \<Longrightarrow> \<bar>x - x\<bar> = Fin 0"
  by (auto elim!: js_finiteE simp: minus_jsnum_def abs_jsnum_def)

lemma abs_diff_zero:
  assumes "js_finite x" "js_finite y" "is_double x" "is_double y" "\<not> Fin 0 < \<bar>x - y\<bar>" shows "x = y"
proof -
  obtain a b where ab: "x = Fin a" "y = Fin b" using assms(1,2) by (auto elim!: js_finiteE)
  have d: "round64 a = a" "round64 b = b" using assms(3,4) by (auto simp: ab binary64_def)
  have "round64 (a - b) = 0"
    using assms(5) round64_minus[of "b - a"]
    by (auto simp: ab minus_jsnum_def abs_jsnum_def js_def Let_def less_jsnum_def split: if_splits)
  then have "\<not> b < a" "\<not> a < b"
    using b64.rnd_diff_pos_iff[OF d] b64.rnd_diff_pos_iff[OF d(2,1)] round64_minus[of "b - a"] by auto
  then show ?thesis by (simp add: ab)
qed

lemma js_nano_pos: "\<exists>e. js (1 / 10 ^ 9) = Fin e \<and> 0 < e"
  using js_eval[of "1 / 10 ^ 9" 82 4835703278458517] by (intro exI[of _ "4835703278458517 / 2 ^ 82"]) simp

lemma no_drift:
  assumes "js_finite (q_qty q)" "rs_remainingQty r = q_qty q"
  shows "\<not> sizeDrift r q > size_drift_tolerance"
proof -
  obtain e where e: "js (1 / 10 ^ 9) = Fin e" "0 < e" using js_nano_pos by blast
  obtain n where n: "q_qty q = Fin n" using assms(1) by (rule js_finiteE)
  have "js_max (Fin n) (Fin e) = Fin (max n e)" by (simp add: js_max_def less_jsnum_def max_def)
  moreover have "max n e \<noteq> 0" using e(2) by linarith
  then have "Fin 0 / Fin (max n e) = Fin 0" by (simp add: divide_jsnum_def)
  ultimately have "sizeDrift r q = Fin 0"
    unfolding sizeDrift_def assms(2) abs_diff_self[OF assms(1)] n e(1) by simp
  then show ?thesis by (simp add: size_drift_tolerance_def)
qed

definition order_profile :: "Resting \<Rightarrow> TPositionType \<times> jsnum \<times> jsnum" where
  "order_profile r = (rs_side r, rs_price r, rs_remainingQty r)"

definition quote_profile :: "Quote \<Rightarrow> TPositionType \<times> jsnum \<times> jsnum" where
  "quote_profile q = (q_side q, q_price q, q_qty q)"

definition proper_quote :: "Quote \<Rightarrow> bool" where
  "proper_quote q \<longleftrightarrow>
     is_double (q_price q) \<and> js_finite (q_price q) \<and> js_finite (q_qty q) \<and> 0 \<le> q_tolerance q"

lemma settled_quote:
  assumes "mset (map order_profile avail) = mset (map quote_profile (q # qs))"
    and "distinct (map q_price (q # qs))" "list_all proper_quote (q # qs)" "sd_available d = avail"
  shows "\<exists>k < length avail. matchQuote d q = d\<lparr>sd_available := splice1 k avail,
      sd_adoptedPrices := sd_adoptedPrices d @ [rs_price (avail ! k)]\<rparr>
    \<and> mset (map order_profile (splice1 k avail)) = mset (map quote_profile qs)"
proof -
  obtain b dist where n: "nearest (q_price q) avail 0 (None, PInf) = (b, dist)" by fastforce
  have profiles: "order_profile ` set avail = quote_profile ` set (q # qs)"
    using assms(1) by (metis list.set_map set_mset_mset)
  then obtain r0 where r0: "r0 \<in> set avail" "order_profile r0 = quote_profile q" by (metis imageE imageI list.set_intros(1))
  have q: "is_double (q_price q)" "js_finite (q_price q)" "js_finite (q_qty q)" "0 \<le> q_tolerance q"
    using assms(3) by (auto simp: proper_quote_def)
  have zero: "\<bar>rs_price r0 - q_price q\<bar> = Fin 0"
    using r0(2) abs_diff_self[OF q(2)] by (simp add: order_profile_def quote_profile_def)
  then have least: "\<not> Fin 0 < dist" using nearest_least[OF n] r0(1) by fastforce
  have "b \<noteq> None"
  proof
    assume "b = None"
    then have "dist = PInf" using nearest_cases[OF n] by auto
    then show False using least by (simp add: less_jsnum_def)
  qed
  then obtain k where k: "b = Some k" by blast
  have kl: "k < length avail" "dist = \<bar>rs_price (avail ! k) - q_price q\<bar>" using nearest_Some n k by auto
  obtain q' where q': "q' \<in> set (q # qs)" "order_profile (avail ! k) = quote_profile q'"
    using profiles kl(1) by (metis imageE imageI nth_mem)
  then have p': "rs_price (avail ! k) = q_price q'" "rs_remainingQty (avail ! k) = q_qty q'"
    by (auto simp: order_profile_def quote_profile_def)
  have "proper_quote q'" using q'(1) assms(3) by (auto simp: list_all_iff)
  then have "q_price q' = q_price q"
    using abs_diff_zero[of "q_price q'" "q_price q"] least q kl(2) p'(1) by (simp add: proper_quote_def)
  moreover have "q_price q \<notin> q_price ` set qs" using assms(2) by simp
  ultimately have qq: "q' = q" using q'(1) by (metis imageI set_ConsD)
  have d0: "dist = Fin 0" using kl(2) p'(1) qq abs_diff_self[OF q(2)] by simp
  have "\<not> dist > q_tolerance q" using q(4) js_not_less[of "Fin 0" "q_tolerance q"]
    by (auto simp: d0 zero_jsnum_def dest: js_le_less_trans)
  moreover have "\<not> sizeDrift (avail ! k) q > size_drift_tolerance" using no_drift[OF q(3)] p'(2) qq by simp
  ultimately have "matchQuote d q = d\<lparr>sd_available := splice1 k avail,
      sd_adoptedPrices := sd_adoptedPrices d @ [rs_price (avail ! k)]\<rparr>"
    using n k assms(4) by (simp add: matchQuote_def Let_def)
  moreover have "mset (map order_profile (splice1 k avail)) = mset (map quote_profile qs)"
    using assms(1) in_splice1_or[OF kl(1)] q'(2) qq by simp
  ultimately show ?thesis using kl(1) by blast
qed

lemma settled_quotes:
  assumes "mset (map order_profile (sd_available d)) = mset (map quote_profile qs)"
    and "distinct (map q_price qs)" "list_all proper_quote qs" "sd_pending d = []" "sd_toCancel d = []"
  shows "sd_available (foldl matchQuote d qs) = [] \<and> sd_pending (foldl matchQuote d qs) = []
    \<and> sd_toCancel (foldl matchQuote d qs) = []"
  using assms
proof (induction qs arbitrary: d)
  case (Cons q qs)
  then obtain k where k: "matchQuote d q = d\<lparr>sd_available := splice1 k (sd_available d),
        sd_adoptedPrices := sd_adoptedPrices d @ [rs_price (sd_available d ! k)]\<rparr>"
      "mset (map order_profile (splice1 k (sd_available d))) = mset (map quote_profile qs)"
    using settled_quote[OF Cons.prems(1-3) refl] by blast
  then show ?case using Cons.IH[of "matchQuote d q"] Cons.prems by simp
qed simp

lemma profiles_of_side:
  assumes "mset (map order_profile resting) = mset (map quote_profile desired)"
  shows "mset (map order_profile (filter (\<lambda>r. rs_side r = s) resting)) =
    mset (map quote_profile (filter (\<lambda>q. q_side q = s) desired))"
proof -
  have "map order_profile (filter (\<lambda>r. rs_side r = s) resting) = filter (\<lambda>p. fst p = s) (map order_profile resting)"
    "map quote_profile (filter (\<lambda>q. q_side q = s) desired) = filter (\<lambda>p. fst p = s) (map quote_profile desired)"
    by (simp_all add: filter_map o_def order_profile_def quote_profile_def)
  then show ?thesis by (simp only: mset_filter assms)
qed

text \<open>
  A ladder at rest is left alone. When what rests is, order for rung, exactly what is wanted, in
  any order, reconciling cancels nothing and places nothing.
\<close>

theorem settled_ladder_is_left_alone:
  assumes "mset (map order_profile resting) = mset (map quote_profile desired)"
    and "distinct (map (\<lambda>q. (q_side q, q_price q)) desired)" "list_all proper_quote desired"
  shows "reconcileLadder desired resting = ([], [])"
proof -
  have "reconcileSide desired resting s = ([], [])" for s
  proof -
    let ?D = "filter (\<lambda>q. q_side q = s) desired"
    have d: "distinct (map q_price ?D)" using assms(2) by (auto simp: distinct_map inj_on_def)
    moreover have "list_all proper_quote ?D" using assms(3) by (auto simp: list_all_iff)
    moreover have "mset (map order_profile (bySide resting s)) = mset (map quote_profile ?D)"
      using profiles_of_side[OF assms(1), of s] by (simp add: bySide_def)
    ultimately show ?thesis
      using settled_quotes[of "\<lparr>sd_available = bySide resting s, sd_adoptedPrices = [], sd_pending = [], sd_toCancel = []\<rparr>" ?D]
      by (simp add: reconcileSide_def Let_def)
  qed
  then show ?thesis by (simp add: reconcileLadder_def)
qed

section \<open>A cycle of the maker\<close>

lemma foldl_js_max:
  assumes "a \<noteq> NaN" "NaN \<notin> set xs"
  shows "foldl js_max a xs \<noteq> NaN \<and> a \<le> foldl js_max a xs \<and> list_all (\<lambda>x. x \<le> foldl js_max a xs) xs"
  using assms
proof (induction xs arbitrary: a)
  case (Cons x xs)
  then have x: "x \<noteq> NaN" by auto
  then have "js_max a x \<noteq> NaN" using Cons.prems(1) by (simp add: js_max_def)
  then show ?case using Cons.IH[of "js_max a x"] Cons.prems js_max_bound[of a x] x
    by (auto simp: list_all_iff dest: js_le_trans)
qed (simp add: js_le_refl)

lemma foldl_js_min:
  assumes "a \<noteq> NaN" "NaN \<notin> set xs"
  shows "foldl js_min a xs \<noteq> NaN \<and> foldl js_min a xs \<le> a \<and> list_all (\<lambda>x. foldl js_min a xs \<le> x) xs"
  using assms
proof (induction xs arbitrary: a)
  case (Cons x xs)
  then have x: "x \<noteq> NaN" by auto
  then have "js_min a x \<noteq> NaN" using Cons.prems(1) by (simp add: js_min_def)
  then show ?case using Cons.IH[of "js_min a x"] Cons.prems js_min_bound[of a x] x
    by (auto simp: list_all_iff dest: js_le_trans)
qed (simp add: js_le_refl)

lemma not_crossed:
  assumes "list_all (\<lambda>q. q_price q \<noteq> NaN) places" "q \<in> set places" "rs_price r \<noteq> NaN" "\<not> crosses places r" "rs_side r \<noteq> q_side q"
  shows "case q_side q of LONG \<Rightarrow> q_price q < rs_price r | SHORT \<Rightarrow> rs_price r < q_price q"
proof (cases "q_side q")
  case LONG
  then have "rs_side r = SHORT" using assms(5) by (cases "rs_side r") auto
  then have "\<not> rs_price r \<le> highestNewBid places" using assms(4) by (simp add: crosses_def)
  moreover have "NaN \<notin> q_price ` set places" using assms(1) by (force simp: list_all_iff)
  then have "q_price q \<le> highestNewBid places \<and> highestNewBid places \<noteq> NaN"
    using foldl_js_max[of NInf "map q_price (filter (\<lambda>quote. q_side quote = LONG) places) @ [NInf]"] assms(2) LONG
    by (simp add: highestNewBid_def list_all_iff) blast
  ultimately show ?thesis using LONG assms(3) by (auto simp: js_not_le dest: js_le_less_trans)
next
  case SHORT
  then have "rs_side r = LONG" using assms(5) by (cases "rs_side r") auto
  then have "\<not> lowestNewAsk places \<le> rs_price r" using assms(4) by (simp add: crosses_def)
  moreover have "NaN \<notin> q_price ` set places" using assms(1) by (force simp: list_all_iff)
  then have "lowestNewAsk places \<le> q_price q \<and> lowestNewAsk places \<noteq> NaN"
    using foldl_js_min[of PInf "map q_price (filter (\<lambda>quote. q_side quote = SHORT) places) @ [PInf]"] assms(2) SHORT
    by (simp add: lowestNewAsk_def list_all_iff) blast
  ultimately show ?thesis using SHORT assms(3) by (auto simp: js_not_le dest: js_less_le_trans)
qed

text \<open>
  The maker does not trade with itself. Whatever rests and whatever the ladder wants, when the
  quotes of a cycle are placed no order of its own on the opposite side is at or through any of
  them: each such order is among those cancelled first. No order is cancelled twice.
\<close>

theorem maker_never_meets_itself:
  assumes "cyclePlan log2 anchor inventory market config resting = (before, placed, behind)"
    and "list_all (\<lambda>r. rs_price r \<noteq> NaN) resting" "list_all (\<lambda>q. q_price q \<noteq> NaN) placed"
  shows "list_all (\<lambda>q. list_all (\<lambda>r. r \<in> set before \<or> rs_side r = q_side q
      \<or> (case q_side q of LONG \<Rightarrow> q_price q < rs_price r | SHORT \<Rightarrow> rs_price r < q_price q)) resting) placed
    \<and> set before \<subseteq> set resting \<and> rs_id ` set before \<inter> rs_id ` set behind = {}"
proof -
  obtain toCancel toPlace where "reconcileLadder (buildLadder log2 anchor inventory market config) resting = (toCancel, toPlace)"
    by fastforce
  then have p: "before = filter (crosses placed) resting
      \<and> behind = filter (\<lambda>r. rs_id r \<notin> rs_id ` set before) toCancel \<or> placed = [] \<and> before = [] \<and> behind = []"
    using assms(1) by (auto simp: cyclePlan_def Let_def simp del: set_filter split: if_splits)
  have "rs_id ` A \<inter> rs_id ` set (filter (\<lambda>r. rs_id r \<notin> rs_id ` A) rs) = {}" for A rs
    by auto (metis imageI)
  then have apart: "rs_id ` set before \<inter> rs_id ` set behind = {}" using p by (metis image_empty inf_bot_left set_empty)
  have sub: "set before \<subseteq> set resting" using p by auto
  have "r \<in> set before \<or> rs_side r = q_side q
      \<or> (case q_side q of LONG \<Rightarrow> q_price q < rs_price r | SHORT \<Rightarrow> rs_price r < q_price q)"
    if "q \<in> set placed" "r \<in> set resting" for q r
  proof -
    have "before = filter (crosses placed) resting" using p that(1) by auto
    moreover have "rs_price r \<noteq> NaN" using assms(2) that(2) by (simp add: list_all_iff)
    ultimately show ?thesis using not_crossed[OF assms(3) that(1), of r] that(2) by auto
  qed
  then show ?thesis using sub apart unfolding list_all_iff by blast
qed

section \<open>Samples\<close>

definition sample_bid :: Quote where
  "sample_bid = \<lparr>q_side = LONG, q_level = 0, q_price = Fin 960, q_qty = Fin 1, q_margin = Fin 480, q_tolerance = Fin 0\<rparr>"

definition sample_rest :: "TPositionType \<Rightarrow> rat \<Rightarrow> Resting" where
  "sample_rest side price = \<lparr>rs_id = ''r'', rs_side = side, rs_price = Fin price, rs_remainingQty = Fin 1\<rparr>"

theorem settled_ladder_is_left_alone_witness:
  "reconcileLadder [sample_bid, sample_bid\<lparr>q_price := Fin 896\<rparr>, sample_bid\<lparr>q_side := SHORT, q_price := Fin 1088\<rparr>]
    [sample_rest LONG 896, sample_rest SHORT 1088, sample_rest LONG 960] = ([], [])"
  by (rule settled_ladder_is_left_alone)
    (simp_all add: sample_bid_def sample_rest_def order_profile_def quote_profile_def proper_quote_def add_mset_commute
      binary64_of_int[of 960, simplified] binary64_of_int[of 896, simplified] binary64_of_int[of 1088, simplified])

lemma placed_prices:
  assumes "cyclePlan log2 anchor inventory market config resting = (before, placed, behind)"
  shows "q_price ` set placed \<subseteq> (snd \<circ> snd) ` set (map quote_place (buildLadder log2 anchor inventory market config))"
proof -
  obtain cs ps where r: "reconcileLadder (buildLadder log2 anchor inventory market config) resting = (cs, ps)" by fastforce
  obtain kept where "settles (buildLadder log2 anchor inventory market config) resting kept cs ps"
    using reconcile_settles[of "buildLadder log2 anchor inventory market config" resting] r by auto
  then have "set ps \<subseteq> set (buildLadder log2 anchor inventory market config)"
    by (metis set_mset_mono set_mset_mset settles_def)
  moreover have "placed = ps \<or> placed = []" using assms r by (auto simp: cyclePlan_def Let_def split: if_splits)
  ultimately have "q_price ` set placed \<subseteq> q_price ` set (buildLadder log2 anchor inventory market config)"
    by (intro image_mono) auto
  then show ?thesis by (simp add: image_image quote_place_def)
qed

lemma sample_cycle:
  assumes "cyclePlan (\<lambda>_. Fin 10) (Fin 1024) (Fin 0) sample_spec sample_config [sample_rest SHORT 900] = (before, placed, behind)"
  shows "\<exists>q \<in> set placed. q_side q = LONG \<and> q_price q = Fin 960"
proof -
  let ?want = "buildLadder (\<lambda>_. Fin 10) (Fin 1024) (Fin 0) sample_spec sample_config"
  obtain cs ps where r: "reconcileLadder ?want [sample_rest SHORT 900] = (cs, ps)" by fastforce
  obtain kept where k: "settles ?want [sample_rest SHORT 900] kept cs ps"
    using reconcile_settles[of ?want "[sample_rest SHORT 900]"] r by auto
  have "(LONG, 0, Fin 960) \<in> set (map quote_place ?want)" by (simp only: sample_ladder) simp
  then obtain q where q: "q \<in> set ?want" "q_side q = LONG" "q_price q = Fin 960" by (auto simp: quote_place_def)
  have "set kept \<subseteq> {sample_rest SHORT 900}"
    using k by (metis settles_def mset_subset_eq_add_left set_mset_mono set_mset_mset list.set(1,2))
  then have "\<forall>r \<in> set kept. rs_side r = SHORT" by (auto simp: sample_rest_def)
  then have "q \<in> set ps" using k q by (auto simp: settles_def list_all_iff list_ex_iff)
  then show ?thesis using assms r q by (auto simp: cyclePlan_def Let_def split: if_splits)
qed

theorem maker_never_meets_itself_witness:
  "case cyclePlan (\<lambda>_. Fin 10) (Fin 1024) (Fin 0) sample_spec sample_config [sample_rest SHORT 900] of (before, placed, behind) \<Rightarrow>
     placed \<noteq> [] \<and> set before = {sample_rest SHORT 900}"
proof -
  obtain before placed behind where p: "cyclePlan (\<lambda>_. Fin 10) (Fin 1024) (Fin 0) sample_spec sample_config
      [sample_rest SHORT 900] = (before, placed, behind)" by (metis prod_cases3)
  have "q_price ` set placed \<subseteq> {Fin 960, Fin 896, Fin 1088, Fin 1152}"
    using placed_prices[OF p] unfolding sample_ladder by auto
  then have "list_all (\<lambda>q. q_price q \<noteq> NaN) placed" by (auto simp: list_all_iff)
  moreover have "list_all (\<lambda>r. rs_price r \<noteq> NaN) [sample_rest SHORT 900]" by (simp add: sample_rest_def)
  moreover obtain q where "q \<in> set placed" "q_side q = LONG" "q_price q = Fin 960" using sample_cycle[OF p] by blast
  ultimately have "sample_rest SHORT 900 \<in> set before" "set before \<subseteq> {sample_rest SHORT 900}" "placed \<noteq> []"
    using maker_never_meets_itself[OF p] by (auto simp: list_all_iff sample_rest_def)
  then show ?thesis unfolding p by auto
qed

end
