(* ===== verification/MarketFeed.thy ===== *)
theory MarketFeed
  imports JsMath EngineTypes
begin

text \<open>
  The public market feed in the browser: the reconciliation machine of
  \<open>apps/web/lib/market-feed-core.ts\<close>, with the order in which \<open>market-feed.tsx\<close> drives it. A frame is
  one that \<open>parseFrame\<close> let through; parsing itself (\<open>JSON.parse\<close> and the schemas) is not modelled.
\<close>

section \<open>The state\<close>

datatype FeedSource = Connecting | Live | Reconnecting | Disconnected

record FeedState =
  fs_depth :: "TMarketDepth option"
  fs_trades :: "TTradePrint list"
  fs_lastPrice :: "jsnum option"
  fs_prevPrice :: "jsnum option"
  fs_markPrice :: "jsnum option"
  fs_source :: FeedSource
  fs_lastFrameAt :: "int option"

definition max_trades :: nat where
  "max_trades = 40"

definition max_buffer :: nat where
  "max_buffer = 256"

datatype Frame =
    DepthFrame TMarketDepth
  | LastTradedPrice jsnum
  | MarkPrice jsnum
  | TradeFrame TTradePrint

record Machine =
  m_state :: FeedState
  m_buffer :: "Frame list"
  m_buffering :: bool

definition initialMachine :: Machine where
  "initialMachine =
     \<lparr>m_state = \<lparr>fs_depth = None, fs_trades = [], fs_lastPrice = None, fs_prevPrice = None, fs_markPrice = None,
        fs_source = Connecting, fs_lastFrameAt = None\<rparr>, m_buffer = [], m_buffering = False\<rparr>"

section \<open>The transitions\<close>

fun applyFrame :: "FeedState \<Rightarrow> Frame \<Rightarrow> FeedState" where
  "applyFrame s (DepthFrame depth) =
     (case fs_depth s of
        None \<Rightarrow> s\<lparr>fs_depth := Some depth\<rparr>
      | Some held \<Rightarrow>
          if d_lastUpdateId depth \<le> d_lastUpdateId held then s else s\<lparr>fs_depth := Some depth\<rparr>)"
| "applyFrame s (LastTradedPrice price) = s\<lparr>fs_prevPrice := fs_lastPrice s, fs_lastPrice := Some price\<rparr>"
| "applyFrame s (MarkPrice price) = s\<lparr>fs_markPrice := Some price\<rparr>"
| "applyFrame s (TradeFrame trade) = s\<lparr>fs_trades := take max_trades (trade # fs_trades s)\<rparr>"

definition onOpen :: "Machine \<Rightarrow> Machine" where
  "onOpen m = m\<lparr>m_buffer := [], m_buffering := True\<rparr>"

definition onFrame :: "Machine \<Rightarrow> Frame \<Rightarrow> int \<Rightarrow> Machine" where
  "onFrame m frame now =
     (let s = (m_state m)\<lparr>fs_lastFrameAt := Some now\<rparr>
      in if m_buffering m
         then m\<lparr>m_state := s,
                m_buffer := (if length (m_buffer m) \<ge> max_buffer then m_buffer m else m_buffer m @ [frame])\<rparr>
         else m\<lparr>m_state := applyFrame s frame\<rparr>)"

definition onSnapshot :: "Machine \<Rightarrow> TMarketDepth \<Rightarrow> Machine" where
  "onSnapshot m depth =
     \<lparr>m_state = foldl applyFrame ((m_state m)\<lparr>fs_depth := Some depth, fs_source := Live\<rparr>) (m_buffer m),
      m_buffer = [], m_buffering = False\<rparr>"

definition onDisconnect :: "Machine \<Rightarrow> bool \<Rightarrow> Machine" where
  "onDisconnect m willRetry =
     \<lparr>m_state = (m_state m)\<lparr>fs_source := if willRetry then Reconnecting else Disconnected\<rparr>,
      m_buffer = [], m_buffering = False\<rparr>"

definition onColdSnapshot :: "Machine \<Rightarrow> TMarketDepth \<Rightarrow> Machine" where
  "onColdSnapshot m depth =
     (if m_buffering m \<or> fs_source (m_state m) = Live then m
      else m\<lparr>m_state := (m_state m)\<lparr>fs_depth := Some depth\<rparr>\<rparr>)"

definition onRetrying :: "Machine \<Rightarrow> Machine" where
  "onRetrying m = m\<lparr>m_state := (m_state m)\<lparr>fs_source := Reconnecting\<rparr>, m_buffering := False\<rparr>"

section \<open>Backoff\<close>

definition backoff_base_ms :: jsnum where
  "backoff_base_ms = Fin 250"

definition backoff_cap_ms :: jsnum where
  "backoff_cap_ms = Fin 8000"

text \<open>The draw is a number from zero to below one.\<close>

definition backoffDelay :: "nat \<Rightarrow> jsnum \<Rightarrow> jsnum" where
  "backoffDelay attempt draw =
     (let base = js_min (backoff_base_ms * js_exp2 (js_max (Fin 0) (Fin (of_nat attempt)))) backoff_cap_ms
      in js_round (base / Fin 2 + draw * (base / Fin 2)))"

section \<open>One connection after the other\<close>

text \<open>
  The provider's side: whether a socket is held, whether it has opened, whether the snapshot of this
  connection has been asked for and not yet arrived, whether a cold snapshot is on its way, and whether
  a retry is scheduled. A teardown outdates the requests in flight, which are then ignored.
\<close>

record Feed =
  fd_machine :: Machine
  fd_socket :: bool
  fd_opened :: bool
  fd_snapshot :: bool
  fd_cold :: bool
  fd_retry :: bool
  fd_attempt :: nat

text \<open>\<open>connect\<close>, when the constructor of the socket succeeds and when it throws.\<close>

definition connect :: "Feed \<Rightarrow> Feed" where
  "connect f = f\<lparr>fd_retry := False, fd_socket := True, fd_opened := False,
     fd_machine := if fd_attempt f > 0 then onRetrying (fd_machine f) else fd_machine f\<rparr>"

definition connectThrows :: "Feed \<Rightarrow> Feed" where
  "connectThrows f = f\<lparr>fd_retry := True, fd_socket := False, fd_attempt := Suc (fd_attempt f),
     fd_machine := onDisconnect (if fd_attempt f > 0 then onRetrying (fd_machine f) else fd_machine f) True\<rparr>"

definition teardown :: "Feed \<Rightarrow> Feed" where
  "teardown f = f\<lparr>fd_socket := False, fd_opened := False, fd_snapshot := False, fd_cold := False, fd_retry := False\<rparr>"

definition fail :: "Feed \<Rightarrow> Feed" where
  "fail f =
     (if \<not> fd_socket f then f
      else
        (let f1 = teardown f; m = onDisconnect (fd_machine f1) True
         in f1\<lparr>fd_machine := m, fd_retry := True, fd_attempt := Suc (fd_attempt f1),
               fd_cold := (fs_depth (m_state m) = None)\<rparr>))"

inductive feed_step :: "Feed \<Rightarrow> Feed \<Rightarrow> bool" where
  retry: "fd_retry f \<Longrightarrow> feed_step f (connect f)"
| retry_throws: "fd_retry f \<Longrightarrow> feed_step f (connectThrows f)"
| shown_again: "\<not> fd_socket f \<Longrightarrow> \<not> fd_retry f \<Longrightarrow> feed_step f (connect (f\<lparr>fd_attempt := 0\<rparr>))"
| shown_again_throws: "\<not> fd_socket f \<Longrightarrow> \<not> fd_retry f \<Longrightarrow> feed_step f (connectThrows (f\<lparr>fd_attempt := 0\<rparr>))"
| opened: "fd_socket f \<Longrightarrow> \<not> fd_opened f \<Longrightarrow>
    feed_step f (f\<lparr>fd_opened := True, fd_attempt := 0, fd_machine := onOpen (fd_machine f), fd_snapshot := True\<rparr>)"
| message: "fd_socket f \<Longrightarrow> fd_opened f \<Longrightarrow> feed_step f (f\<lparr>fd_machine := onFrame (fd_machine f) frame now\<rparr>)"
| snapshot: "fd_snapshot f \<Longrightarrow> feed_step f (f\<lparr>fd_snapshot := False, fd_machine := onSnapshot (fd_machine f) depth\<rparr>)"
| snapshot_failed: "fd_snapshot f \<Longrightarrow> feed_step f (fail (f\<lparr>fd_snapshot := False\<rparr>))"
| dropped: "feed_step f (fail f)"
| cold: "fd_cold f \<Longrightarrow> feed_step f (f\<lparr>fd_cold := False, fd_machine := onColdSnapshot (fd_machine f) depth\<rparr>)"
| cold_failed: "fd_cold f \<Longrightarrow> feed_step f (f\<lparr>fd_cold := False\<rparr>)"
| hidden: "feed_step f ((teardown f)\<lparr>fd_machine := onDisconnect (fd_machine f) False\<rparr>)"

text \<open>The effect that mounts the provider starts from a fresh machine and connects at once.\<close>

definition unconnected :: Feed where
  "unconnected = \<lparr>fd_machine = initialMachine, fd_socket = False, fd_opened = False, fd_snapshot = False,
     fd_cold = False, fd_retry = False, fd_attempt = 0\<rparr>"

definition mounted :: Feed where
  "mounted = connect unconnected"

inductive feed_reachable :: "Feed \<Rightarrow> bool" where
  start: "feed_reachable mounted"
| start_throws: "feed_reachable (connectThrows unconnected)"
| step: "feed_reachable f \<Longrightarrow> feed_step f f' \<Longrightarrow> feed_reachable f'"

inductive_cases feed_stepE: "feed_step f f'"

end
