(* ===== verification/MarketFeedProperties.thy ===== *)
theory MarketFeedProperties
  imports MarketFeed
begin

text \<open>
  The properties of the public feed: that buffering while the snapshot is in flight loses and reorders
  nothing, so that the book on screen is the newest one sent, and the invariant of the connection.
\<close>

section \<open>Buffering\<close>

abbreviation timed :: "Machine \<Rightarrow> (Frame \<times> int) list \<Rightarrow> Machine" where
  "timed m frames \<equiv> foldl (\<lambda>k p. onFrame k (fst p) (snd p)) m frames"

lemma buffered:
  assumes "m_buffering m" "length (m_buffer m) + length frames \<le> max_buffer"
  shows "m_buffering (timed m frames) \<and> m_buffer (timed m frames) = m_buffer m @ map fst frames
    \<and> (m_state (timed m frames))\<lparr>fs_lastFrameAt := k\<rparr> = (m_state m)\<lparr>fs_lastFrameAt := k\<rparr>"
  using assms
proof (induction frames arbitrary: m)
  case (Cons p frames)
  have "length (m_buffer m) < max_buffer" using Cons.prems(2) by simp
  then show ?case using Cons.IH[of "onFrame m (fst p) (snd p)"] Cons.prems
    by (simp add: onFrame_def Let_def)
qed simp

lemma applyFrame_stamp:
  "(applyFrame s f)\<lparr>fs_lastFrameAt := k\<rparr> = applyFrame (s\<lparr>fs_lastFrameAt := k\<rparr>) f"
  by (cases f) (auto split: option.split)

lemma applyFrames_stamp:
  "(foldl applyFrame s fs)\<lparr>fs_lastFrameAt := k\<rparr> = foldl applyFrame (s\<lparr>fs_lastFrameAt := k\<rparr>) fs"
  by (induction fs arbitrary: s) (simp_all add: applyFrame_stamp)

lemma applied:
  assumes "\<not> m_buffering m"
  shows "\<not> m_buffering (timed m frames)
    \<and> (m_state (timed m frames))\<lparr>fs_lastFrameAt := k\<rparr> = (foldl applyFrame (m_state m) (map fst frames))\<lparr>fs_lastFrameAt := k\<rparr>"
  using assms
proof (induction frames arbitrary: m)
  case (Cons p frames)
  then show ?case using Cons.IH[of "onFrame m (fst p) (snd p)"]
    by (simp add: onFrame_def Let_def applyFrames_stamp applyFrame_stamp)
qed simp

text \<open>One connection: opened, frames while the snapshot is in flight, the snapshot, frames after it.\<close>

definition connection :: "Machine \<Rightarrow> (Frame \<times> int) list \<Rightarrow> TMarketDepth \<Rightarrow> (Frame \<times> int) list \<Rightarrow> Machine" where
  "connection m early depth late = timed (onSnapshot (timed (onOpen m) early) depth) late"

lemma connection_state:
  assumes "length early \<le> max_buffer"
  shows "(m_state (connection m early depth late))\<lparr>fs_lastFrameAt := k\<rparr> =
    foldl applyFrame ((m_state m)\<lparr>fs_depth := Some depth, fs_source := Live, fs_lastFrameAt := k\<rparr>) (map fst (early @ late))"
proof -
  let ?b = "timed (onOpen m) early"
  have b: "m_buffer ?b = map fst early" "(m_state ?b)\<lparr>fs_lastFrameAt := k\<rparr> = (m_state m)\<lparr>fs_lastFrameAt := k\<rparr>"
    using buffered[of "onOpen m" early k] assms by (simp_all add: onOpen_def)
  have swap: "(s\<lparr>fs_depth := Some depth, fs_source := Live\<rparr>)\<lparr>fs_lastFrameAt := k\<rparr> =
      (s\<lparr>fs_lastFrameAt := k\<rparr>)\<lparr>fs_depth := Some depth, fs_source := Live\<rparr>" for s :: FeedState
    by simp
  have "\<not> m_buffering (onSnapshot ?b depth)" by (simp add: onSnapshot_def)
  from applied[OF this, of late k] show ?thesis
    unfolding connection_def applyFrames_stamp by (simp add: onSnapshot_def applyFrames_stamp swap b)
qed

section \<open>What the frames leave\<close>

fun frame_depth :: "Frame \<Rightarrow> TMarketDepth option" where
  "frame_depth (DepthFrame d) = Some d" | "frame_depth (LastTradedPrice p) = None"
| "frame_depth (MarkPrice p) = None" | "frame_depth (TradeFrame t) = None"

fun frame_trade :: "Frame \<Rightarrow> TTradePrint option" where
  "frame_trade (DepthFrame d) = None" | "frame_trade (LastTradedPrice p) = None"
| "frame_trade (MarkPrice p) = None" | "frame_trade (TradeFrame t) = Some t"

fun frame_price :: "Frame \<Rightarrow> jsnum option" where
  "frame_price (DepthFrame d) = None" | "frame_price (LastTradedPrice p) = Some p"
| "frame_price (MarkPrice p) = None" | "frame_price (TradeFrame t) = None"

lemma newest_depth:
  assumes "fs_depth s = Some d" "d_lastUpdateId d \<noteq> NaN"
    and "list_all (\<lambda>k. d_lastUpdateId k \<noteq> NaN) (List.map_filter frame_depth fs)"
  shows "\<exists>d'. fs_depth (foldl applyFrame s fs) = Some d' \<and> d' \<in> set (d # List.map_filter frame_depth fs)
    \<and> list_all (\<lambda>k. d_lastUpdateId k \<le> d_lastUpdateId d') (d # List.map_filter frame_depth fs)"
  using assms
proof (induction fs arbitrary: s d)
  case Nil
  then show ?case by (simp add: List.map_filter_simps js_le_refl)
next
  case (Cons f fs)
  note later = Cons.IH[of "applyFrame s f"]
  show ?case
  proof (cases f)
    case (DepthFrame k)
    have nk: "d_lastUpdateId k \<noteq> NaN" and rest: "list_all (\<lambda>k. d_lastUpdateId k \<noteq> NaN) (List.map_filter frame_depth fs)"
      using Cons.prems(3) DepthFrame by (simp_all add: List.map_filter_simps)
    show ?thesis
    proof (cases "d_lastUpdateId k \<le> d_lastUpdateId d")
      case True
      then have "fs_depth (applyFrame s f) = Some d" using Cons.prems(1) DepthFrame by simp
      from later[OF this Cons.prems(2) rest] True DepthFrame show ?thesis
        by (auto simp: List.map_filter_simps intro: js_le_trans)
    next
      case False
      then have less: "d_lastUpdateId d \<le> d_lastUpdateId k"
        using nk Cons.prems(2) js_not_le js_less_imp_le by blast
      have "fs_depth (applyFrame s f) = Some k" using Cons.prems(1) DepthFrame False by simp
      from later[OF this nk rest] less DepthFrame show ?thesis
        by (auto simp: List.map_filter_simps intro: js_le_trans)
    qed
  qed (use later Cons.prems in \<open>auto simp: List.map_filter_simps\<close>)
qed

lemma newest_trades:
  assumes "length (fs_trades s) \<le> max_trades"
  shows "fs_trades (foldl applyFrame s fs) = take max_trades (rev (List.map_filter frame_trade fs) @ fs_trades s)"
  using assms
proof (induction fs arbitrary: s)
  case (Cons f fs)
  have "length (fs_trades (applyFrame s f)) \<le> max_trades"
    using Cons.prems by (cases f) (auto split: option.split)
  from Cons.IH[OF this] Cons.prems show ?case
    by (cases f) (auto simp: List.map_filter_simps take_append split: option.split)
qed (simp add: List.map_filter_simps)

lemma newest_price:
  "fs_lastPrice (foldl applyFrame s fs) =
    (case List.map_filter frame_price fs of [] \<Rightarrow> fs_lastPrice s | p # ps \<Rightarrow> Some (last (p # ps)))"
proof (induction fs arbitrary: s)
  case (Cons f fs)
  show ?case
    by (cases f) (auto simp: List.map_filter_simps Cons.IH split: option.split list.split)
qed (simp add: List.map_filter_simps)

text \<open>
  C38. The book on screen is the newest one sent. If at most 256 frames of a connection arrive before its
  snapshot (\<open>MAX_BUFFER\<close>), then however they fall before and after it, the feed is live and shows, of the
  snapshot and all books sent, one with the greatest update id; the tape shows the newest forty of the
  prints (\<open>MAX_TRADES\<close>), those of the connection before the older ones, newest first; the last price is
  that of the last price frame.
\<close>

theorem feed_shows_the_newest:
  assumes "length early \<le> 256" "length (fs_trades (m_state m)) \<le> 40" "frames = map fst (early @ late)"
    and "list_all (\<lambda>d. d_lastUpdateId d \<noteq> NaN) (depth # List.map_filter frame_depth frames)"
  shows "fs_source (m_state (connection m early depth late)) = Live
    \<and> (\<exists>d. fs_depth (m_state (connection m early depth late)) = Some d
        \<and> d \<in> set (depth # List.map_filter frame_depth frames)
        \<and> list_all (\<lambda>k. d_lastUpdateId k \<le> d_lastUpdateId d) (depth # List.map_filter frame_depth frames))
    \<and> fs_trades (m_state (connection m early depth late)) =
        take 40 (rev (List.map_filter frame_trade frames) @ fs_trades (m_state m))
    \<and> fs_lastPrice (m_state (connection m early depth late)) =
        (case List.map_filter frame_price frames of [] \<Rightarrow> fs_lastPrice (m_state m) | p # ps \<Rightarrow> Some (last (p # ps)))"
proof -
  define s0 where "s0 = (m_state m)\<lparr>fs_depth := Some depth, fs_source := Live, fs_lastFrameAt := None\<rparr>"
  define c where "c = m_state (connection m early depth late)"
  have s: "c\<lparr>fs_lastFrameAt := None\<rparr> = foldl applyFrame s0 frames"
    using connection_state[where m = m and early = early and late = late and depth = depth and k = None] assms(1,3) by (simp add: s0_def c_def max_buffer_def)
  then have eq: "fs_source c = fs_source (foldl applyFrame s0 frames)" "fs_depth c = fs_depth (foldl applyFrame s0 frames)"
    "fs_trades c = fs_trades (foldl applyFrame s0 frames)" "fs_lastPrice c = fs_lastPrice (foldl applyFrame s0 frames)"
    by (metis FeedState.select_convs FeedState.surjective FeedState.update_convs(7))+
  have src: "fs_source (applyFrame s f) = fs_source s" for s f by (cases f) (auto split: option.split)
  have "fs_source (foldl applyFrame s0 frames) = Live"
    by (induction frames rule: rev_induct) (simp_all add: src s0_def)
  moreover have "\<exists>d. fs_depth (foldl applyFrame s0 frames) = Some d \<and> d \<in> set (depth # List.map_filter frame_depth frames)
      \<and> list_all (\<lambda>k. d_lastUpdateId k \<le> d_lastUpdateId d) (depth # List.map_filter frame_depth frames)"
    using newest_depth[of s0 depth frames] assms(4) by (simp add: s0_def)
  moreover have "fs_trades (foldl applyFrame s0 frames) = take 40 (rev (List.map_filter frame_trade frames) @ fs_trades (m_state m))"
    using newest_trades[of s0 frames] assms(2) by (simp add: s0_def max_trades_def)
  moreover have "fs_lastPrice (foldl applyFrame s0 frames) =
      (case List.map_filter frame_price frames of [] \<Rightarrow> fs_lastPrice (m_state m) | p # ps \<Rightarrow> Some (last (p # ps)))"
    unfolding newest_price[of s0 frames] by (auto simp: s0_def split: list.split)
  ultimately show ?thesis by (simp add: c_def[symmetric] eq)
qed

definition sample_depth :: "rat \<Rightarrow> TMarketDepth" where
  "sample_depth i = \<lparr>d_market = ''m'', d_lastUpdateId = Fin i, d_timestamp = 0, d_bids = [], d_asks = []\<rparr>"

theorem feed_shows_the_newest_witness:
  "fs_depth (m_state (connection initialMachine [(DepthFrame (sample_depth 2), 0), (DepthFrame (sample_depth 5), 1)]
      (sample_depth 4) [(DepthFrame (sample_depth 3), 2)])) = Some (sample_depth 5)"
  using feed_shows_the_newest[of "[(DepthFrame (sample_depth 2), 0), (DepthFrame (sample_depth 5), 1)]" initialMachine _
      "[(DepthFrame (sample_depth 3), 2)]" "sample_depth 4"]
  by (auto simp: initialMachine_def List.map_filter_simps sample_depth_def)

section \<open>The connection\<close>

text \<open>
  The invariant: buffering exactly while the snapshot of an open socket is awaited, live exactly when
  it has come, and, with no socket, either a retry is scheduled or the feed says it is disconnected.
\<close>

definition feed_ok :: "Feed \<Rightarrow> bool" where
  "feed_ok f \<longleftrightarrow>
     (m_buffering (fd_machine f) \<longleftrightarrow> fd_snapshot f)
     \<and> (fd_snapshot f \<longrightarrow> fd_opened f) \<and> (fd_opened f \<longrightarrow> fd_socket f) \<and> (fd_socket f \<longrightarrow> \<not> fd_retry f)
     \<and> (fs_source (m_state (fd_machine f)) = Live \<longleftrightarrow> fd_opened f \<and> \<not> fd_snapshot f)
     \<and> (fs_source (m_state (fd_machine f)) = Live \<longrightarrow> fs_depth (m_state (fd_machine f)) \<noteq> None)
     \<and> (\<not> fd_socket f \<longrightarrow> fd_retry f \<or> fs_source (m_state (fd_machine f)) = Disconnected)
     \<and> (\<not> m_buffering (fd_machine f) \<longrightarrow> m_buffer (fd_machine f) = [])
     \<and> length (m_buffer (fd_machine f)) \<le> 256 \<and> length (fs_trades (m_state (fd_machine f))) \<le> 40"

lemma applyFrame_keeps:
  "fs_source (applyFrame s f) = fs_source s" "fs_depth s \<noteq> None \<Longrightarrow> fs_depth (applyFrame s f) \<noteq> None"
  "length (fs_trades s) \<le> 40 \<Longrightarrow> length (fs_trades (applyFrame s f)) \<le> 40"
  by (cases f; auto simp: max_trades_def split: option.split)+

lemma applyFrames_keep:
  "fs_source (foldl applyFrame s fs) = fs_source s
    \<and> (fs_depth s \<noteq> None \<longrightarrow> fs_depth (foldl applyFrame s fs) \<noteq> None)
    \<and> (length (fs_trades s) \<le> 40 \<longrightarrow> length (fs_trades (foldl applyFrame s fs)) \<le> 40)"
proof (induction fs arbitrary: s)
  case (Cons f fs)
  then show ?case using applyFrame_keeps[of s f] Cons.IH[of "applyFrame s f"] by auto
qed simp

lemma fail_ok: "feed_ok f \<Longrightarrow> feed_ok (fail f)"
  by (auto simp: feed_ok_def fail_def teardown_def onDisconnect_def Let_def)

lemma feed_step_ok: "feed_step f f' \<Longrightarrow> feed_ok f \<Longrightarrow> feed_ok f'"
proof (induction rule: feed_step.induct)
  case (message f frame now)
  then show ?case
    using applyFrame_keeps[of "(m_state (fd_machine f))\<lparr>fs_lastFrameAt := Some now\<rparr>" frame]
    by (auto simp: feed_ok_def onFrame_def Let_def max_buffer_def)
next
  case (snapshot f depth)
  then show ?case
    using applyFrames_keep[of "(m_state (fd_machine f))\<lparr>fs_depth := Some depth, fs_source := Live\<rparr>" "m_buffer (fd_machine f)"]
    by (auto simp: feed_ok_def onSnapshot_def)
next
  case (snapshot_failed f)
  then have "fd_socket f" by (simp add: feed_ok_def)
  then show ?case using snapshot_failed by (auto simp: feed_ok_def fail_def teardown_def onDisconnect_def Let_def)
next
  case (dropped f)
  then show ?case by (simp add: fail_ok)
qed (auto simp: feed_ok_def connect_def connectThrows_def onRetrying_def onOpen_def onDisconnect_def
    onColdSnapshot_def teardown_def)

text \<open>
  The status tells the truth. However sockets open, drop, and are retried, and however snapshots
  and frames arrive, the feed buffers exactly while it awaits the snapshot of an open socket; it
  says it is live exactly when that socket's snapshot has been applied, and then it has a book; when
  there is no socket a retry is scheduled, unless the feed says it is disconnected; and buffer and
  tape stay within their bounds.
\<close>

theorem feed_status_is_true:
  assumes "feed_reachable f"
  shows "feed_ok f"
  using assms
proof (induction rule: feed_reachable.induct)
  case start
  then show ?case by (simp add: feed_ok_def mounted_def unconnected_def connect_def initialMachine_def)
next
  case start_throws
  then show ?case by (simp add: feed_ok_def unconnected_def connectThrows_def onDisconnect_def initialMachine_def)
next
  case (step f f')
  then show ?case using feed_step_ok by blast
qed

theorem feed_status_is_true_witness:
  "feed_ok (mounted\<lparr>fd_opened := True, fd_attempt := 0, fd_machine := onOpen (fd_machine mounted), fd_snapshot := True\<rparr>)"
proof (rule feed_status_is_true)
  show "feed_reachable (mounted\<lparr>fd_opened := True, fd_attempt := 0, fd_machine := onOpen (fd_machine mounted), fd_snapshot := True\<rparr>)"
    by (rule feed_reachable.step[OF feed_reachable.start feed_step.opened]) (simp_all add: mounted_def unconnected_def connect_def)
qed

end
