(* ===== verification/WsServer.thy ===== *)
theory WsServer
  imports EngineTypes
begin

text \<open>
  The socket server's broadcast: \<open>apps/ws-server/src/services/createHandler.ts\<close>. What a call of
  \<open>server.publish\<close> sends is recorded in order; a timer that fires is an event of its own. The sockets
  and subscriptions behind \<open>publish\<close> are outside the repository.
\<close>

section \<open>What is published\<close>

datatype published =
    UserBatch string "TUserEvent list" \<comment> \<open>the private topic of a user\<close>
  | LastPriceFrame string string \<comment> \<open>market, price\<close>
  | MarkPriceFrame string string
  | DepthFrameOf string TMarketDepth
  | TradePrint string TTradePrint

record MarketState =
  st_depth :: TMarketDepth
  st_lastTradedPrice :: "string option"
  st_indexPrice :: "string option"

text \<open>An empty string is no price.\<close>

definition price_frame :: "(string \<Rightarrow> published) \<Rightarrow> string option \<Rightarrow> published list" where
  "price_frame frame price = (case price of None \<Rightarrow> [] | Some p \<Rightarrow> if p = [] then [] else [frame p])"

definition publish :: "string \<Rightarrow> MarketState \<Rightarrow> published list" where
  "publish marketId s =
     price_frame (LastPriceFrame marketId) (st_lastTradedPrice s)
     @ price_frame (MarkPriceFrame marketId) (st_indexPrice s) @ [DepthFrameOf marketId (st_depth s)]"

section \<open>The handler\<close>

record broadcaster =
  br_pending :: "(string \<times> MarketState) list"
  br_timers :: "string list"
  br_sent :: "published list"

definition idle :: broadcaster where
  "idle = \<lparr>br_pending = [], br_timers = [], br_sent = []\<rparr>"

definition send :: "published list \<Rightarrow> broadcaster \<Rightarrow> broadcaster" where
  "send ps b = b\<lparr>br_sent := br_sent b @ ps\<rparr>"

text \<open>The window of a market closes.\<close>

definition flush :: "string \<Rightarrow> broadcaster \<Rightarrow> broadcaster" where
  "flush marketId b =
     (case map_of (br_pending b) marketId of
        None \<Rightarrow> b\<lparr>br_timers := removeAll marketId (br_timers b)\<rparr>
      | Some s \<Rightarrow> send (publish marketId s)
          (b\<lparr>br_pending := AList.delete marketId (br_pending b), br_timers := List.insert marketId (br_timers b)\<rparr>))"

definition publishMarketState :: "int \<Rightarrow> string \<Rightarrow> MarketState \<Rightarrow> broadcaster \<Rightarrow> broadcaster" where
  "publishMarketState intervalMs marketId s b =
     (if intervalMs \<le> 0 then send (publish marketId s) b
      else if marketId \<in> set (br_timers b) then b\<lparr>br_pending := AList.update marketId s (br_pending b)\<rparr>
      else send (publish marketId s) (b\<lparr>br_timers := br_timers b @ [marketId]\<rparr>))"

record ResponseData =
  wd_wsUser :: "(string \<times> TUserEvent list) list option"
  wd_wsServer :: "TWsServer option"

definition userBatches :: "(string \<times> TUserEvent list) list option \<Rightarrow> published list" where
  "userBatches wsUser =
     (case wsUser of
        None \<Rightarrow> []
      | Some us \<Rightarrow> map (\<lambda>(userId, events). UserBatch userId events) (filter (\<lambda>(userId, events). events \<noteq> []) us))"

definition tradePrints :: "TWsServer \<Rightarrow> published list" where
  "tradePrints update =
     (case ws_trades update of None \<Rightarrow> [] | Some ts \<Rightarrow> map (TradePrint (d_market (ws_depth update))) ts)"

definition stateOf :: "TWsServer \<Rightarrow> MarketState" where
  "stateOf update =
     \<lparr>st_depth = ws_depth update, st_lastTradedPrice = Some (ws_lastTradedPrice update),
      st_indexPrice = Some (ws_indexPrice update)\<rparr>"

text \<open>The data of a response that has none is the empty string or \<open>undefined\<close>.\<close>

definition handler :: "int \<Rightarrow> ResponseData option \<Rightarrow> broadcaster \<Rightarrow> broadcaster" where
  "handler intervalMs data b =
     (case data of
        None \<Rightarrow> b
      | Some d \<Rightarrow>
          (let b1 = send (userBatches (wd_wsUser d)) b
           in case wd_wsServer d of
                None \<Rightarrow> b1
              | Some update \<Rightarrow>
                  publishMarketState intervalMs (d_market (ws_depth update)) (stateOf update)
                    (send (tradePrints update) b1)))"

section \<open>Responses and timers\<close>

datatype ws_event = Response "ResponseData option" | Timer string

text \<open>A timer fires only for a market that has a window.\<close>

fun ws_run :: "int \<Rightarrow> broadcaster \<Rightarrow> ws_event list \<Rightarrow> broadcaster option" where
  "ws_run intervalMs b [] = Some b"
| "ws_run intervalMs b (Response data # es) = ws_run intervalMs (handler intervalMs data b) es"
| "ws_run intervalMs b (Timer marketId # es) =
     (if marketId \<in> set (br_timers b) then ws_run intervalMs (flush marketId b) es else None)"

end
