(* ===== verification/WsServerProperties.thy ===== *)
theory WsServerProperties
  imports WsServer "HOL-Library.Sublist"
begin

text \<open>
  The properties of the broadcast: what must not be dropped is not, and what is coalesced loses
  nothing that still stands.
\<close>

section \<open>What was sent and received\<close>

fun is_event :: "published \<Rightarrow> bool" where
  "is_event (UserBatch u es) = True" | "is_event (TradePrint m t) = True"
| "is_event (LastPriceFrame m p) = False" | "is_event (MarkPriceFrame m p) = False"
| "is_event (DepthFrameOf m d) = False"

fun depth_of :: "string \<Rightarrow> published \<Rightarrow> TMarketDepth option" where
  "depth_of m (DepthFrameOf k d) = (if k = m then Some d else None)"
| "depth_of m (UserBatch u es) = None" | "depth_of m (TradePrint k t) = None"
| "depth_of m (LastPriceFrame k p) = None" | "depth_of m (MarkPriceFrame k p) = None"

text \<open>The events and the books of one response.\<close>

definition events_in :: "ResponseData option \<Rightarrow> published list" where
  "events_in data =
     (case data of None \<Rightarrow> []
      | Some d \<Rightarrow> userBatches (wd_wsUser d) @ (case wd_wsServer d of None \<Rightarrow> [] | Some update \<Rightarrow> tradePrints update))"

definition books_in :: "string \<Rightarrow> ResponseData option \<Rightarrow> TMarketDepth list" where
  "books_in m data =
     (case data of None \<Rightarrow> []
      | Some d \<Rightarrow> (case wd_wsServer d of None \<Rightarrow> []
          | Some update \<Rightarrow> if d_market (ws_depth update) = m then [ws_depth update] else []))"

fun events_of_run :: "ws_event list \<Rightarrow> published list" where
  "events_of_run [] = []"
| "events_of_run (Response data # es) = events_in data @ events_of_run es"
| "events_of_run (Timer m # es) = events_of_run es"

fun books_of_run :: "string \<Rightarrow> ws_event list \<Rightarrow> TMarketDepth list" where
  "books_of_run m [] = []"
| "books_of_run m (Response data # es) = books_in m data @ books_of_run m es"
| "books_of_run m (Timer k # es) = books_of_run m es"

definition books_sent :: "string \<Rightarrow> broadcaster \<Rightarrow> TMarketDepth list" where
  "books_sent m b = List.map_filter (depth_of m) (br_sent b)"

definition book_pending :: "string \<Rightarrow> broadcaster \<Rightarrow> TMarketDepth list" where
  "book_pending m b = (case map_of (br_pending b) m of None \<Rightarrow> [] | Some s \<Rightarrow> [st_depth s])"

lemma map_filter_append: "List.map_filter f (xs @ ys) = List.map_filter f xs @ List.map_filter f ys"
  by (induction xs) (auto simp: List.map_filter_simps split: option.split)

lemma map_filter_none: "(\<And>x. x \<in> set xs \<Longrightarrow> f x = None) \<Longrightarrow> List.map_filter f xs = []"
  by (induction xs) (auto simp: List.map_filter_simps)

lemma no_books [simp]:
  "List.map_filter (depth_of m) (userBatches us) = []" "List.map_filter (depth_of m) (tradePrints u) = []"
  by (auto simp: userBatches_def tradePrints_def intro!: map_filter_none split: option.split)

lemma publish_books [simp]: "List.map_filter (depth_of m) (publish k s) = (if k = m then [st_depth s] else [])"
  by (auto simp: publish_def price_frame_def map_filter_append List.map_filter_simps split: option.split)

lemma publish_no_events [simp]: "filter is_event (publish k s) = []"
  by (auto simp: publish_def price_frame_def split: option.split)

lemma events_are_events [simp]:
  "filter is_event (userBatches us) = userBatches us" "filter is_event (tradePrints u) = tradePrints u"
  by (auto simp: userBatches_def tradePrints_def filter_map o_def case_prod_beta filter_id_conv split: option.split)

section \<open>Events\<close>

lemma handler_events: "filter is_event (br_sent (handler i data b)) = filter is_event (br_sent b) @ events_in data"
  by (auto simp: handler_def events_in_def publishMarketState_def send_def Let_def split: option.split)

lemma flush_events: "filter is_event (br_sent (flush m b)) = filter is_event (br_sent b)"
  by (auto simp: flush_def send_def split: option.split)

lemma run_events:
  "ws_run i b es = Some b' \<Longrightarrow> filter is_event (br_sent b') = filter is_event (br_sent b) @ events_of_run es"
  by (induction i b es rule: ws_run.induct) (auto simp: handler_events flush_events split: if_splits)

text \<open>
  What happened is passed on. Whatever the cadence and whenever the windows close, each account's
  batch of events and each trade print is published exactly once, in the order of the responses, a
  response's private batches before its prints; nothing else of that kind is published.
\<close>

theorem events_pass_through:
  assumes "ws_run intervalMs idle es = Some b"
  shows "filter is_event (br_sent b) = events_of_run es"
  using run_events[OF assms] by (simp add: idle_def)

section \<open>Books\<close>

text \<open>
  The invariant of one market: what was sent, followed by what waits, is some of what was received, in
  order, and ends with the last received; what waits has a window; and every book sent but one for
  an open window is paid for by a timer.
\<close>

definition books_ok :: "string \<Rightarrow> TMarketDepth list \<Rightarrow> nat \<Rightarrow> broadcaster \<Rightarrow> bool" where
  "books_ok m received fired b \<longleftrightarrow>
     subseq (books_sent m b @ book_pending m b) received
     \<and> (received \<noteq> [] \<longrightarrow> books_sent m b @ book_pending m b \<noteq> []
          \<and> last (books_sent m b @ book_pending m b) = last received)
     \<and> (book_pending m b \<noteq> [] \<longrightarrow> m \<in> set (br_timers b))
     \<and> length (books_sent m b) = fired + (if m \<in> set (br_timers b) then 1 else 0)"

lemma subseq_left: "subseq (xs @ ys) zs \<Longrightarrow> subseq xs zs"
  by (meson prefixI prefix_imp_subseq subseq_order.order_trans)

lemma subseq_snoc_replace: "subseq (xs @ ys) zs \<Longrightarrow> subseq (xs @ [a]) (zs @ [a])"
  by (intro list_emb_append_mono) (auto dest: subseq_left)

lemma received_state:
  assumes "books_ok m received fired b" "0 < i"
  shows "books_ok m (received @ (if k = m then [st_depth s] else [])) fired (publishMarketState i k s b)"
proof -
  have sent: "subseq (books_sent m b @ [st_depth s]) (received @ [st_depth s])"
    using assms(1) subseq_snoc_replace by (auto simp: books_ok_def)
  show ?thesis
  proof (cases "k = m")
    case True
    show ?thesis
    proof (cases "m \<in> set (br_timers b)")
      case open_window: True
      then show ?thesis using assms sent True
        by (auto simp: books_ok_def publishMarketState_def books_sent_def book_pending_def update_conv')
    next
      case False
      then have "book_pending m b = []" using assms(1) by (auto simp: books_ok_def)
      then show ?thesis using assms sent True False
        by (auto simp: books_ok_def publishMarketState_def books_sent_def book_pending_def send_def map_filter_append
            split: option.splits)
    qed
  next
    case False
    then show ?thesis using assms
      by (auto simp: books_ok_def publishMarketState_def books_sent_def book_pending_def send_def map_filter_append update_conv')
  qed
qed

lemma sent_others: "books_ok m received fired (send ps b) = books_ok m received fired b"
  if "List.map_filter (depth_of m) ps = []"
  using that by (simp add: books_ok_def books_sent_def book_pending_def send_def map_filter_append)

lemma stateOf_depth [simp]: "st_depth (stateOf update) = ws_depth update"
  by (simp add: stateOf_def)

lemma send_send [simp]: "send qs (send ps b) = send (ps @ qs) b"
  by (simp add: send_def)

lemma handled_books:
  assumes "books_ok m received fired b" "0 < i"
  shows "books_ok m (received @ books_in m data) fired (handler i data b)"
proof -
  have "books_ok m (received @ (if d_market (ws_depth u) = m then [ws_depth u] else [])) fired
      (publishMarketState i (d_market (ws_depth u)) (stateOf u) (send ps b))"
    if "List.map_filter (depth_of m) ps = []" for u ps
  proof -
    have "books_ok m received fired (send ps b)" using assms(1) sent_others[OF that] by simp
    from received_state[OF this assms(2), of "d_market (ws_depth u)" "stateOf u"] show ?thesis by (simp only: stateOf_depth)
  qed
  then show ?thesis using assms(1)
    by (simp add: handler_def books_in_def Let_def sent_others map_filter_append split: option.split)
qed

lemma flushed_books:
  assumes "books_ok m received fired b" "k \<in> set (br_timers b)"
  shows "books_ok m received (fired + (if k = m then 1 else 0)) (flush k b)"
proof (cases "map_of (br_pending b) k")
  case None
  then show ?thesis using assms
    by (auto simp: books_ok_def flush_def books_sent_def book_pending_def)
next
  case (Some s)
  then show ?thesis using assms
    by (auto simp: books_ok_def flush_def books_sent_def book_pending_def send_def map_filter_append delete_conv' map_of_delete)
qed

fun timers_of :: "string \<Rightarrow> ws_event list \<Rightarrow> nat" where
  "timers_of m [] = 0"
| "timers_of m (Response data # es) = timers_of m es"
| "timers_of m (Timer k # es) = (if k = m then 1 else 0) + timers_of m es"

lemma run_books:
  assumes "ws_run i b es = Some b'" "books_ok m received fired b" "0 < i"
  shows "books_ok m (received @ books_of_run m es) (fired + timers_of m es) b'"
  using assms
proof (induction i b es arbitrary: received fired rule: ws_run.induct)
  case (2 i b data es)
  then show ?case using handled_books[OF 2(3,4)] by (auto simp flip: append_assoc)
next
  case (3 i b k es)
  then have "k \<in> set (br_timers b)" "ws_run i (flush k b) es = Some b'" by (auto split: if_splits)
  with 3 have "books_ok m (received @ books_of_run m es) ((fired + (if k = m then 1 else 0)) + timers_of m es) b'"
    using flushed_books[OF 3(3), of k] by blast
  then show ?case by (simp add: add.assoc)
qed simp

text \<open>
  C36. Coalescing loses nothing that stands. With a positive interval, in whatever order responses
  come and windows close, the books published of a market are some of those received, in their
  order; the last one received has been published or waits behind an open window, from which the
  next timer publishes it; and apart from the first of an open window there is one book published per
  timer that fired, so that no burst is faster than the interval.
\<close>

theorem coalescing_keeps_the_latest_book:
  assumes "ws_run intervalMs idle es = Some b" "0 < intervalMs"
  shows "subseq (books_sent m b @ book_pending m b) (books_of_run m es)
    \<and> (books_of_run m es = [] \<or> (books_sent m b @ book_pending m b \<noteq> []
          \<and> last (books_sent m b @ book_pending m b) = last (books_of_run m es)))
    \<and> (book_pending m b = [] \<or> m \<in> set (br_timers b)
          \<and> books_sent m (flush m b) = books_sent m b @ book_pending m b)
    \<and> length (books_sent m b) = timers_of m es + (if m \<in> set (br_timers b) then 1 else 0)"
proof -
  have "books_ok m [] 0 idle" by (simp add: books_ok_def idle_def books_sent_def book_pending_def List.map_filter_simps)
  from run_books[OF assms(1) this assms(2)] have ok: "books_ok m (books_of_run m es) (timers_of m es) b" by simp
  have "books_sent m (flush m b) = books_sent m b @ book_pending m b"
    by (auto simp: books_sent_def book_pending_def flush_def send_def map_filter_append split: option.split)
  then show ?thesis using ok by (auto simp: books_ok_def)
qed

section \<open>A short run\<close>

definition sample_update :: "rat \<Rightarrow> TWsServer" where
  "sample_update i =
     \<lparr>ws_depth = \<lparr>d_market = ''m'', d_lastUpdateId = Fin i, d_timestamp = 0, d_bids = [], d_asks = []\<rparr>,
      ws_lastTradedPrice = ''1'', ws_indexPrice = ''1'',
      ws_trades = Some [\<lparr>t_id = ''t'', t_price = ''1'', t_qty = ''1'', t_side = Buy, t_ts = 0\<rparr>]\<rparr>"

definition sample_data :: "rat \<Rightarrow> ResponseData" where
  "sample_data i = \<lparr>wd_wsUser = Some [(''u'', [BalanceEvent ''1'' ''0''])], wd_wsServer = Some (sample_update i)\<rparr>"

definition sample_run :: "ws_event list" where
  "sample_run = [Response (Some (sample_data 1)), Response (Some (sample_data 2)), Response (Some (sample_data 3)), Timer ''m'']"

lemmas run_simps = sample_run_def sample_data_def sample_update_def handler_def publishMarketState_def stateOf_def flush_def
  send_def userBatches_def tradePrints_def publish_def price_frame_def idle_def Let_def

lemma sample_runs: "\<exists>b. ws_run 100 idle sample_run = Some b \<and> br_pending b = []"
  by (simp add: run_simps)

theorem events_pass_through_witness:
  "map_option (\<lambda>b. length (filter is_event (br_sent b))) (ws_run 100 idle sample_run) = Some 6"
proof -
  obtain b where b: "ws_run 100 idle sample_run = Some b" using sample_runs by blast
  then show ?thesis using events_pass_through[OF b]
    by (simp add: sample_run_def sample_data_def sample_update_def events_in_def userBatches_def tradePrints_def)
qed

theorem coalescing_keeps_the_latest_book_witness:
  "map_option (\<lambda>b. d_lastUpdateId (last (books_sent ''m'' b))) (ws_run 100 idle sample_run) = Some (Fin 3)
    \<and> map_option (\<lambda>b. length (books_sent ''m'' b)) (ws_run 100 idle sample_run) = Some 2"
proof -
  obtain b where b: "ws_run 100 idle sample_run = Some b" "br_pending b = []" using sample_runs by blast
  have "books_of_run ''m'' sample_run = map (\<lambda>i. ws_depth (sample_update i)) [1, 2, 3]" "timers_of ''m'' sample_run = 1"
    by (simp_all add: sample_run_def sample_data_def sample_update_def books_in_def)
  moreover have "''m'' \<in> set (br_timers b)" using b(1) by (auto simp: run_simps)
  ultimately show ?thesis using coalescing_keeps_the_latest_book[OF b(1), of "''m''"] b
    by (auto simp: book_pending_def sample_update_def)
qed

end
