(* ===== verification/Ticket.thy ===== *)
theory Ticket
  imports JsMath Orders
begin

text \<open>
  What the browser computes about money: \<open>apps/web/lib/position-math.ts\<close>, whole, and the translation
  between the order ticket and the wire in \<open>apps/web/components/terminal/order-payload.ts\<close>. \<open>None\<close> is
  the source's \<open>null\<close>, shown as a dash. The row the backend's \<open>order-service.ts\<close> makes of the body for
  the engine closes the way from the browser to \<open>placeOrder\<close>.
\<close>

section \<open>Positions\<close>

text \<open>Every caller passes a string or nothing.\<close>

definition num :: "string option \<Rightarrow> jsnum option" where
  "num v =
     (case v of None \<Rightarrow> None | Some s \<Rightarrow> (let n = js_parse_float s in if js_finite n then Some n else None))"

definition best_of :: "(string \<times> string) list \<Rightarrow> string option" where
  "best_of rows = (case rows of [] \<Rightarrow> None | (price, qty) # _ \<Rightarrow> Some price)"

definition midPrice :: "TMarketDepth \<Rightarrow> string option" where
  "midPrice depth =
     (case (num (best_of (d_bids depth)), num (best_of (d_asks depth))) of
        (Some bestBid, Some bestAsk) \<Rightarrow>
          if bestBid \<le> 0 \<or> bestAsk \<le> 0 then None else Some (js_string ((bestBid + bestAsk) / Fin 2))
      | _ \<Rightarrow> None)"

definition unrealisedPnl :: "TPositionType \<Rightarrow> string \<Rightarrow> string \<Rightarrow> string option \<Rightarrow> jsnum option" where
  "unrealisedPnl side qty_s averagePrice mark =
     (case (num mark, num (Some averagePrice), num (Some qty_s)) of
        (Some markPrice, Some entry, Some qty) \<Rightarrow>
          Some (if side = LONG then (markPrice - entry) * qty else (entry - markPrice) * qty)
      | _ \<Rightarrow> None)"

definition roe :: "jsnum option \<Rightarrow> string \<Rightarrow> jsnum option" where
  "roe pnl margin =
     (case (pnl, num (Some margin)) of
        (Some p, Some m) \<Rightarrow> if m \<le> 0 then None else Some ((p / m) * Fin 100)
      | _ \<Rightarrow> None)"

definition positionLeverage :: "string \<Rightarrow> string \<Rightarrow> string \<Rightarrow> jsnum option" where
  "positionLeverage qty_s margin_s averagePrice =
     (case (num (Some averagePrice), num (Some qty_s), num (Some margin_s)) of
        (Some entry, Some qty, Some margin) \<Rightarrow> if margin \<le> 0 then None else Some ((entry * qty) / margin)
      | _ \<Rightarrow> None)"

record DerivedPosition =
  dp_mark :: "string option"
  dp_unrealisedPnl :: "jsnum option"
  dp_roe :: "jsnum option"
  dp_leverage :: "jsnum option"

definition derivePosition :: "TUserPosition \<Rightarrow> string option \<Rightarrow> DerivedPosition" where
  "derivePosition position mark =
     (let pnl = unrealisedPnl (up_type position) (up_qty position) (up_averagePrice position) mark
      in \<lparr>dp_mark = mark, dp_unrealisedPnl = pnl, dp_roe = roe pnl (up_margin position),
          dp_leverage = positionLeverage (up_qty position) (up_margin position) (up_averagePrice position)\<rparr>)"

fun sumPnl :: "jsnum \<Rightarrow> jsnum option list \<Rightarrow> jsnum option" where
  "sumPnl acc [] = Some acc"
| "sumPnl acc (None # rows) = None"
| "sumPnl acc (Some pnl # rows) = sumPnl (acc + pnl) rows"

definition totalUnrealisedPnl :: "DerivedPosition list \<Rightarrow> jsnum option" where
  "totalUnrealisedPnl rows = sumPnl 0 (map dp_unrealisedPnl rows)"

definition markFor :: "string \<Rightarrow> (string \<times> string option) list \<Rightarrow> string option \<times> string option \<Rightarrow> string option" where
  "markFor marketId restMarks live =
     (case live of
        (Some liveMarket, mid) \<Rightarrow>
          if liveMarket = marketId then mid
          else (case map_of restMarks marketId of None \<Rightarrow> None | Some m \<Rightarrow> m)
      | (None, mid) \<Rightarrow> (case map_of restMarks marketId of None \<Rightarrow> None | Some m \<Rightarrow> m))"

section \<open>The order ticket\<close>

record TicketDraft =
  td_marketSlug :: string
  td_side :: TPositionType
  td_orderType :: TOrderType
  td_price :: string
  td_slippage :: string
  td_qty :: string
  td_margin :: jsnum

text \<open>The body of \<open>POST /order\<close>; \<open>equity\<close> may be absent.\<close>

record CreateOrderBody =
  co_orderType :: TOrderType
  co_price :: jsnum
  co_slippage :: jsnum
  co_market :: string
  co_type :: TPositionType
  co_qty :: jsnum
  co_equity :: "jsnum option"

definition toWholePercent :: "string \<Rightarrow> jsnum" where
  "toWholePercent v =
     (let parsed = js_parse_float v in if \<not> js_finite parsed then Fin 1 else js_max (Fin 1) (js_round parsed))"

definition roundMarginUp :: "jsnum \<Rightarrow> jsnum" where
  "roundMarginUp margin =
     (if \<not> js_finite margin \<or> margin \<le> 0 then Fin 0
      else js_ceil (margin * Fin 100000000) / Fin 100000000)"

definition buildOrderPayload :: "TicketDraft \<Rightarrow> CreateOrderBody" where
  "buildOrderPayload draft =
     (let common = \<lparr>co_orderType = Limit, co_price = js_parse_float (td_price draft), co_slippage = 0,
            co_market = td_marketSlug draft, co_type = td_side draft, co_qty = js_parse_float (td_qty draft),
            co_equity = Some (roundMarginUp (td_margin draft))\<rparr>
      in if td_orderType draft = Limit then common
         else common\<lparr>co_orderType := Market, co_price := 0, co_slippage := toWholePercent (td_slippage draft)\<rparr>)"

definition close_slippage_percent :: jsnum where
  "close_slippage_percent = Fin 1"

text \<open>The body that flattens a position: the slug of its market, its side and its size.\<close>

definition buildClosePayload :: "string \<Rightarrow> TPositionType \<Rightarrow> string \<Rightarrow> CreateOrderBody" where
  "buildClosePayload slug side qty_s =
     \<lparr>co_orderType = Market, co_price = 0, co_slippage = close_slippage_percent, co_market = slug,
      co_type = (if side = LONG then SHORT else LONG), co_qty = js_parse_float qty_s, co_equity = None\<rparr>"

datatype FillStatus = FilledToast | PartialToast | RestingToast | RejectedToast | UnknownToast | CancelledToast | LiquidatedToast

record OrderOutcome =
  oo_status :: FillStatus
  oo_qty :: string
  oo_price :: "string option"

text \<open>From the reply: status, filled quantity and average price.\<close>

definition outcomeFromResult :: "TOrderStatus \<Rightarrow> string \<Rightarrow> string \<Rightarrow> TicketDraft \<Rightarrow> OrderOutcome" where
  "outcomeFromResult status filledQty averagePrice draft =
     (let filled = js_parse_float filledQty; requested = js_parse_float (td_qty draft)
      in if js_finite filled \<and> filled > 0 then
           \<lparr>oo_status = (if filled \<ge> requested then FilledToast else PartialToast), oo_qty = filledQty,
            oo_price = Some averagePrice\<rparr>
         else if status = Cancelled then \<lparr>oo_status = CancelledToast, oo_qty = td_qty draft, oo_price = None\<rparr>
         else \<lparr>oo_status = RestingToast, oo_qty = td_qty draft,
               oo_price = (if td_orderType draft = Limit then Some (td_price draft) else None)\<rparr>)"

section \<open>The row the engine receives\<close>

text \<open>\<open>createOrder\<close> of the backend; the id and the time are those the database generates.\<close>

definition orderRow :: "string \<Rightarrow> string \<Rightarrow> string \<Rightarrow> int \<Rightarrow> CreateOrderBody \<Rightarrow> SelectOrderRecord" where
  "orderRow orderId userId marketId created body =
     \<lparr>r_id = orderId, r_userId = userId, r_marketId = marketId, r_positionType = co_type body,
      r_orderType = co_orderType body, r_status = Pending, r_qty = js_string (co_qty body), r_filledQty = ''0'',
      r_price = js_string (co_price body), r_slippage = co_slippage body,
      r_initialMargin = (case co_equity body of
         None \<Rightarrow> ''0'' | Some equity \<Rightarrow> if js_truthy equity then js_string equity else ''0''),
      r_createdAt = Some created, r_updatedAt = Some created\<rparr>"

text \<open>
  The properties of what the browser computes: its numbers are the engine's, the body that closes a
  position is one the engine takes for risk reducing, and a behaviour of the margin worth knowing.
\<close>

section \<open>Reading numbers back\<close>

lemma num_string [simp]: "js_finite x \<Longrightarrow> is_double x \<Longrightarrow> num (Some (js_string x)) = Some x"
  by (auto elim!: js_finiteE simp: num_def Let_def js_parse_float_string simp del: is_double_simps)

text \<open>The position as the engine sends it, and as the browser holds it.\<close>

definition positionRow :: "string \<Rightarrow> TPosition \<Rightarrow> TUserPosition" where
  "positionRow m p =
     \<lparr>up_marketId = m, up_type = p_type p, up_qty = js_string (p_qty p), up_margin = js_string (p_margin p),
      up_averagePrice = js_string (p_averagePrice p), up_liquidationPrice = js_string (p_liquidationPrice p)\<rparr>"

definition finite_doubles :: "jsnum list \<Rightarrow> bool" where
  "finite_doubles xs \<longleftrightarrow> list_all (\<lambda>x. js_finite x \<and> is_double x) xs"

text \<open>
  The browser's profit is the engine's. For a position and a price that are finite doubles the
  profit the browser derives from the strings it was sent is the one the engine computes before it
  rounds, and the leverage it shows is the notional at the average price over the margin, as in the
  check of an order.
\<close>

theorem browser_profit_is_engine_profit:
  assumes "finite_doubles [p_qty p, p_margin p, p_averagePrice p, price]" "0 < p_margin p"
  shows "dp_unrealisedPnl (derivePosition (positionRow m p) (Some (js_string price))) = Some (unrealisedPnL price p)
    \<and> dp_leverage (derivePosition (positionRow m p) (Some (js_string price))) =
        Some ((p_averagePrice p * p_qty p) / p_margin p)"
proof -
  have "\<not> p_margin p \<le> 0" using assms(2) js_less_le_trans js_less_irrefl by blast
  then show ?thesis using assms(1)
    by (simp add: finite_doubles_def derivePosition_def Let_def unrealisedPnl_def positionLeverage_def positionRow_def
        unrealisedPnL_def)
qed

definition sample_long :: TPosition where
  "sample_long = \<lparr>p_marketId = ''m'', p_type = LONG, p_qty = Fin 10, p_margin = Fin 200, p_liquidationPrice = Fin 81,
     p_pnL = None, p_averagePrice = Fin 100\<rparr>"

lemma small_double: "(numeral n :: int) \<le> 2 ^ 53 \<Longrightarrow> is_double (Fin (numeral n))"
  using is_double_js[of "numeral n"] js_numeral(4)[of n] by simp

theorem browser_profit_is_engine_profit_witness:
  "dp_unrealisedPnl (derivePosition (positionRow ''m'' sample_long) (Some (js_string (Fin 103)))) = Some (Fin 30)"
proof -
  have "finite_doubles [p_qty sample_long, p_margin sample_long, p_averagePrice sample_long, Fin 103]"
    by (simp add: finite_doubles_def sample_long_def small_double del: is_double_simps)
  from browser_profit_is_engine_profit[OF this, of "''m''"] show ?thesis
    by (simp add: sample_long_def unrealisedPnL_def)
qed

text \<open>
  Closing reduces risk. For any position of positive finite size, the body the browser builds to
  close it becomes an order of the opposite side for exactly that size, which the engine takes for
  risk reducing: no margin is asked for and the leverage cap does not apply.
\<close>

theorem closing_order_reduces_risk:
  assumes "finite_doubles [p_qty p]" "0 < p_qty p"
  shows "riskCheck (normalizeOrder (orderRow orderId userId marketId created
      (buildClosePayload slug (p_type p) (js_string (p_qty p))))) (Some p) = Inr True
    \<and> n_qty (normalizeOrder (orderRow orderId userId marketId created
      (buildClosePayload slug (p_type p) (js_string (p_qty p))))) = p_qty p
    \<and> n_positionType (normalizeOrder (orderRow orderId userId marketId created
      (buildClosePayload slug (p_type p) (js_string (p_qty p))))) \<noteq> p_type p"
proof -
  obtain q where q: "p_qty p = Fin q" "is_double (Fin q)" "0 < q"
    using assms by (auto simp: finite_doubles_def zero_jsnum_def elim!: js_finiteE simp del: is_double_simps)
  have "js_number ''0'' = Fin 0"
    by (simp add: js_number_def trim_def is_space_def js_unsigned_def is_digit_def nat_of_digits_def digit_val_def)
  moreover have "js_parse_float (js_string (Fin q)) = Fin q" "js_number (js_string (Fin q)) = Fin q"
    using q(2) by (simp_all add: js_parse_float_string js_number_string del: is_double_simps)
  moreover have "p_type p \<noteq> (if p_type p = LONG then SHORT else LONG)" by simp
  ultimately show ?thesis
    using q(1,3) by (auto simp: orderRow_def buildClosePayload_def normalizeOrder_def riskCheck_def minus_jsnum_def)
qed

theorem closing_order_reduces_risk_witness:
  "riskCheck (normalizeOrder (orderRow ''o'' ''u'' ''m'' 0 (buildClosePayload ''X'' LONG (js_string (Fin 10))))) (Some sample_long)
    = Inr True"
  using closing_order_reduces_risk[of sample_long "''o''" "''u''" "''m''" 0 "''X''"]
  by (simp add: finite_doubles_def sample_long_def small_double del: is_double_simps)

section \<open>A margin rounded up that falls short\<close>

text \<open>
  An order at the full leverage of its market, 8.566 at 11.12 with a cap of 8, can be refused: the
  margin the ticket sends, rounded up to a hundred-millionth, is one unit in the last place below
  what the engine's own product of price and size needs.
\<close>

definition full_leverage_draft :: TicketDraft where
  "full_leverage_draft = \<lparr>td_marketSlug = ''X'', td_side = LONG, td_orderType = Limit, td_price = ''11.12'',
     td_slippage = '''', td_qty = ''8.566'', td_margin = js (1112 / 100) * js (8566 / 1000) / Fin 8\<rparr>"

lemma full_leverage_numbers:
  "js_parse_float ''11.12'' = Fin (6260003482044989 / 2 ^ 49)"
  "js_parse_float ''8.566'' = Fin (4822229301006959 / 2 ^ 49)"
  "roundMarginUp (td_margin full_leverage_draft) = Fin (6702898728399672 / 2 ^ 49)"
  "Fin (6260003482044989 / 2 ^ 49) * Fin (4822229301006959 / 2 ^ 49) / Fin (6702898728399672 / 2 ^ 49)
    = Fin (4503599627370497 / 2 ^ 49)"
proof -
  have P: "js (1112 / 100) = Fin (6260003482044989 / 2 ^ 49)"
    using js_eval[of "1112 / 100" 49 6260003482044989] by simp
  have Q: "js (8566 / 1000) = Fin (4822229301006959 / 2 ^ 49)"
    using js_eval[of "8566 / 1000" 49 4822229301006959] by simp
  have "js_unsigned ''11.12'' = Some (1112 / 100)" "js_unsigned ''8.566'' = Some (8566 / 1000)"
    by (simp_all add: js_unsigned_def is_digit_def nat_of_digits_def digit_val_def power_int_minus inverse_eq_divide)
  from js_parse_float_literal[OF this(1)] js_parse_float_literal[OF this(2)]
  show "js_parse_float ''11.12'' = Fin (6260003482044989 / 2 ^ 49)"
    "js_parse_float ''8.566'' = Fin (4822229301006959 / 2 ^ 49)"
    unfolding P Q by (simp_all add: is_digit_def)
  have N: "Fin (6260003482044989 / 2 ^ 49) * Fin (4822229301006959 / 2 ^ 49) = Fin (6702898728399673 / 2 ^ 46)"
    using js_eval[of "6260003482044989 / 2 ^ 49 * (4822229301006959 / 2 ^ 49)" 46 6702898728399673]
    by (simp add: times_jsnum_def)
  show "Fin (6260003482044989 / 2 ^ 49) * Fin (4822229301006959 / 2 ^ 49) / Fin (6702898728399672 / 2 ^ 49)
    = Fin (4503599627370497 / 2 ^ 49)"
    unfolding N using js_eval[of "6702898728399673 / 2 ^ 46 / (6702898728399672 / 2 ^ 49)" 49 4503599627370497]
    by (simp add: divide_jsnum_def)
  have M: "Fin (6702898728399673 / 2 ^ 46) / Fin 8 = Fin (6702898728399673 / 2 ^ 49)"
    using js_eval[of "6702898728399673 / 2 ^ 46 / 8" 49 6702898728399673] by (simp add: divide_jsnum_def)
  have C: "js_ceil (Fin (6702898728399673 / 2 ^ 49) * Fin 100000000) = Fin 1190674000"
  proof -
    have "Fin (6702898728399673 / 2 ^ 49) * Fin 100000000 = Fin (4994048720896000 / 2 ^ 22)"
      using js_eval[of "6702898728399673 / 2 ^ 49 * 100000000" 22 4994048720896000] by (simp add: times_jsnum_def)
    then show ?thesis by (simp add: js_ceil_def)
  qed
  have R: "Fin 1190674000 / Fin 100000000 = Fin (6702898728399672 / 2 ^ 49)"
    using js_eval[of "1190674000 / 100000000" 49 6702898728399672] by (simp add: divide_jsnum_def)
  have "td_margin full_leverage_draft = Fin (6702898728399673 / 2 ^ 49)"
    unfolding full_leverage_draft_def by (simp only: TicketDraft.select_convs P Q N M)
  then show "roundMarginUp (td_margin full_leverage_draft) = Fin (6702898728399672 / 2 ^ 49)"
    using C R by (simp add: roundMarginUp_def)
qed

theorem full_leverage_order_can_be_refused:
  assumes "map_of (orderbooks s) m = Some ob" "allowedLeverage ob = Fin 8"
    and "getUserById (users s) u = Some user" "getUserMarketPosition (u_positions user) m = None"
    and "Fin 12 \<le> available (u_collateral user)"
  shows "checkOrder (orderRow orderId u m created (buildOrderPayload full_leverage_draft)) s = Inl ''Leverage not supported''"
proof -
  let ?P = "Fin (6260003482044989 / 2 ^ 49)" and ?Q = "Fin (4822229301006959 / 2 ^ 49)"
  let ?M = "Fin (6702898728399672 / 2 ^ 49)"
  have d: "is_double ?P" "is_double ?Q" "is_double ?M"
    using full_leverage_numbers(1-3) js_eval[of "6260003482044989 / 2 ^ 49" 49 6260003482044989]
      js_eval[of "4822229301006959 / 2 ^ 49" 49 4822229301006959] js_eval[of "6702898728399672 / 2 ^ 49" 49 6702898728399672]
      is_double_js[of "6260003482044989 / 2 ^ 49"] is_double_js[of "4822229301006959 / 2 ^ 49"]
      is_double_js[of "6702898728399672 / 2 ^ 49"] by (simp_all del: is_double_simps is_double_js)
  define row where "row = orderRow orderId u m created (buildOrderPayload full_leverage_draft)"
  have fields: "r_marketId row = m" "r_userId row = u" "r_orderType row = Limit" "r_price row = js_string ?P"
      "r_qty row = js_string ?Q" "r_initialMargin row = js_string ?M"
    using full_leverage_numbers(1-3)
    by (simp_all add: row_def orderRow_def buildOrderPayload_def Let_def full_leverage_draft_def js_truthy_def)
  define order where "order = normalizeOrder row"
  have n: "n_price order = ?P" "n_qty order = ?Q" "n_initialMargin order = ?M"
    using fields js_number_string[OF d(1)] js_number_string[OF d(2)] js_number_string[OF d(3)]
    by (simp_all add: order_def normalizeOrder_def)
  have "js_number [] = Fin 0" by (simp add: js_number_def trim_def)
  then have "js_string ?P \<noteq> []" using js_number_string[OF d(1)] by auto
  then have entry: "entryPrice row (n_price order) ob = Some ?P" using fields by (simp add: entryPrice_def n(1))
  have "?M < Fin 12" by simp
  then have margin: "\<not> available (u_collateral user) < n_initialMargin order"
    unfolding n(3) using assms(5) js_le_less_trans js_less_trans js_less_irrefl by metis
  have "riskCheck order None = Inr False" by (simp add: riskCheck_def n(3) js_truthy_def)
  moreover have "allowedLeverage ob < ?P * ?Q / ?M" unfolding assms(2) full_leverage_numbers(4) by simp
  ultimately show ?thesis
    using margin entry by (simp add: checkOrder_def bookAt_def Let_def fields assms(1,3,4) n flip: row_def order_def)
qed

end
