(* ===== verification/JsDate.thy ===== *)
theory JsDate
  imports JsMath
begin

text \<open>
  Dates of the language: a \<open>Date\<close> is a number of milliseconds since 1970, an integer here. The
  calendar is the one of the language definition (days from the year, the year from a day by search,
  months by the table of their first days), \<open>toISOString\<close> prints it and \<open>new Date(s)\<close> reads it back.
  Printed dates of the same width compare as text the way the dates compare as numbers.
\<close>

section \<open>The calendar\<close>

definition dayFromYear :: "int \<Rightarrow> int" where
  "dayFromYear y = 365 * (y - 1970) + (y - 1969) div 4 - (y - 1901) div 100 + (y - 1601) div 400"

text \<open>The last year that has begun. The guess is right or off by one.\<close>

definition yearFromDay :: "int \<Rightarrow> int" where
  "yearFromDay d =
     (let y = 1970 + (400 * d) div 146097
      in if dayFromYear (y + 1) \<le> d then y + 1 else if d < dayFromYear y then y - 1 else y)"

definition daysInYear :: "int \<Rightarrow> int" where
  "daysInYear y = dayFromYear (y + 1) - dayFromYear y"

text \<open>The day of the year on which a month (0 to 11) begins.\<close>

definition monthStart :: "int \<Rightarrow> int \<Rightarrow> int" where
  "monthStart y m =
     [0, 31, 59, 90, 120, 151, 181, 212, 243, 273, 304, 334] ! nat m + (if m < 2 then 0 else daysInYear y - 365)"

definition monthFromDay :: "int \<Rightarrow> int \<Rightarrow> int" where
  "monthFromDay y d = int (length (filter (\<lambda>m. monthStart y m \<le> d) [1..11]))"

definition msPerDay :: int where
  "msPerDay = 86400000"

record civil =
  c_year :: int
  c_month :: int
  c_day :: int
  c_ms :: int

definition civilOf :: "int \<Rightarrow> civil" where
  "civilOf t =
     (let d = t div msPerDay; y = yearFromDay d; n = d - dayFromYear y; m = monthFromDay y n
      in \<lparr>c_year = y, c_month = m, c_day = n - monthStart y m + 1, c_ms = t mod msPerDay\<rparr>)"

definition dateOf :: "civil \<Rightarrow> int" where
  "dateOf c = (dayFromYear (c_year c) + monthStart (c_year c) (c_month c) + c_day c - 1) * msPerDay + c_ms c"

lemma dateOf_civilOf [simp]: "dateOf (civilOf t) = t"
  by (simp add: dateOf_def civilOf_def Let_def)

lemma yearFromDay_bounds:
  "dayFromYear (yearFromDay d) \<le> d" "d < dayFromYear (yearFromDay d + 1)"
proof -
  define y where "y = 1970 + (400 * d) div 146097"
  have "dayFromYear (y - 1) \<le> d" "d < dayFromYear (y + 2)"
    by (simp_all add: y_def dayFromYear_def)
  then show "dayFromYear (yearFromDay d) \<le> d" "d < dayFromYear (yearFromDay d + 1)"
    by (auto simp: yearFromDay_def Let_def y_def[symmetric] add.commute)
qed

lemma div_step:
  assumes "0 < k" shows "(x + 1) div k = x div k + (if k dvd x + 1 then 1 else (0::int))"
proof (cases "k dvd x + 1")
  case True
  then obtain q where q: "x + 1 = k * q" by blast
  have "x div k = q - 1" by (rule int_div_pos_eq[where r = "k - 1"]) (use q assms in \<open>auto simp: algebra_simps\<close>)
  moreover have "(x + 1) div k = q" using q assms by simp
  ultimately show ?thesis using True by simp
next
  case False
  then have "(x + 1) mod k \<noteq> 0" "0 \<le> (x + 1) mod k" "(x + 1) mod k < k" using assms by (auto simp: dvd_eq_mod_eq_0)
  then have "x div k = (x + 1) div k"
    by (intro int_div_pos_eq[where r = "(x + 1) mod k - 1"]) (use mult_div_mod_eq[of k "x + 1"] in linarith)+
  then show ?thesis using False by simp
qed

text \<open>The rule of leap years.\<close>

lemma year_step:
  "dayFromYear (y + 1) = dayFromYear y + 365 + (if 4 dvd y then 1 else 0) - (if 100 dvd y then 1 else 0) + (if 400 dvd y then 1 else 0)"
proof -
  have e: "(y + 1 - z) div k = (y - z) div k + (if k dvd y then 1 else 0)" if "0 < k" "k dvd z - 1" for k z :: int
  proof -
    have r: "y + 1 - z = y - z + 1" "y - z + 1 = y - (z - 1)" by simp_all
    have "k dvd y - z + 1 \<longleftrightarrow> k dvd y" using dvd_diff_left_iff[OF that(2), of y] r(2) by argo
    then show ?thesis using div_step[OF that(1), of "y - z"] by (simp only: r(1))
  qed
  show ?thesis unfolding dayFromYear_def by (subst e, simp, simp)+ (simp only: algebra_simps)
qed

lemma daysInYear_leap: "daysInYear y = (if 4 dvd y \<and> (\<not> 100 dvd y \<or> 400 dvd y) then 366 else 365)"
proof -
  have "400 dvd y \<longrightarrow> 100 dvd y" "100 dvd y \<longrightarrow> 4 dvd y"
    using dvd_trans[of 100 400 y] dvd_trans[of 4 100 y] by simp_all
  then show ?thesis by (simp only: daysInYear_def year_step) (cases "4 dvd y"; cases "100 dvd y"; cases "400 dvd y"; simp)
qed

lemma daysInYear_cases: "daysInYear y = 365 \<or> daysInYear y = 366"
  by (simp add: daysInYear_leap)

lemma dayFromYear_mono: "y \<le> z \<Longrightarrow> dayFromYear y \<le> dayFromYear z"
proof (induction z rule: int_ge_induct)
  case (step z)
  then show ?case using daysInYear_cases[of z] by (auto simp: daysInYear_def)
qed simp

lemma yearFromDay_mono: "d \<le> e \<Longrightarrow> yearFromDay d \<le> yearFromDay e"
proof (rule ccontr)
  assume "d \<le> e" "\<not> yearFromDay d \<le> yearFromDay e"
  then have "dayFromYear (yearFromDay e + 1) \<le> dayFromYear (yearFromDay d)" by (intro dayFromYear_mono) simp
  then show False using yearFromDay_bounds[of d] yearFromDay_bounds[of e] \<open>d \<le> e\<close> by linarith
qed

lemma months: "[1..11] = [1, 2, 3, 4, 5, 6, 7, 8, 9, 10, 11 :: int]"
  by (simp add: upto_rec1)

lemma monthFromDay_bounds:
  assumes "0 \<le> n" "n < daysInYear y"
  shows "0 \<le> monthFromDay y n" "monthFromDay y n \<le> 11"
    "monthStart y (monthFromDay y n) \<le> n" "n < monthStart y (monthFromDay y n) + 31"
  using daysInYear_cases[of y] assms by (auto simp: monthFromDay_def months monthStart_def)

lemma monthFromDay_mono: "n \<le> k \<Longrightarrow> monthFromDay y n \<le> monthFromDay y k"
proof -
  assume "n \<le> k"
  then have "length (filter (\<lambda>m. monthStart y m \<le> n) xs) \<le> length (filter (\<lambda>m. monthStart y m \<le> k) xs)" for xs
    by (induction xs) auto
  then show ?thesis by (simp add: monthFromDay_def)
qed

text \<open>Two dates compare as their year, month, day and time of day do.\<close>

definition civil_less :: "civil \<Rightarrow> civil \<Rightarrow> bool" where
  "civil_less a b \<longleftrightarrow> c_year a < c_year b \<or> c_year a = c_year b \<and> (c_month a < c_month b \<or> c_month a = c_month b
     \<and> (c_day a < c_day b \<or> c_day a = c_day b \<and> c_ms a < c_ms b))"

lemma civilOf_less:
  assumes "t < u" shows "civil_less (civilOf t) (civilOf u)"
proof -
  have d: "t div msPerDay < u div msPerDay \<or> t div msPerDay = u div msPerDay \<and> t mod msPerDay < u mod msPerDay"
  proof -
    have "t div msPerDay \<le> u div msPerDay" using assms by (intro zdiv_mono1) (auto simp: msPerDay_def)
    then show ?thesis using mult_div_mod_eq[of msPerDay t] mult_div_mod_eq[of msPerDay u] assms
      by (metis add_less_cancel_left order_le_less)
  qed
  have y: "yearFromDay (t div msPerDay) \<le> yearFromDay (u div msPerDay)" using d by (intro yearFromDay_mono) auto
  have m: "monthFromDay z (t div msPerDay - dayFromYear z) \<le> monthFromDay z (u div msPerDay - dayFromYear z)" for z
    using d by (intro monthFromDay_mono) auto
  show ?thesis using d y m[of "yearFromDay (u div msPerDay)"]
    by (auto simp: civil_less_def civilOf_def Let_def order_le_less)
qed

lemma civilOf_bounds:
  "0 \<le> c_month (civilOf t)" "c_month (civilOf t) \<le> 11" "1 \<le> c_day (civilOf t)" "c_day (civilOf t) \<le> 31"
  "0 \<le> c_ms (civilOf t)" "c_ms (civilOf t) < msPerDay"
proof -
  define d where "d = t div msPerDay"
  define y where "y = yearFromDay d"
  have "0 \<le> d - dayFromYear y" "d - dayFromYear y < daysInYear y"
    using yearFromDay_bounds[of d] by (simp_all add: y_def daysInYear_def)
  from monthFromDay_bounds[OF this]
  show "0 \<le> c_month (civilOf t)" "c_month (civilOf t) \<le> 11" "1 \<le> c_day (civilOf t)" "c_day (civilOf t) \<le> 31"
    by (simp_all add: civilOf_def Let_def d_def[symmetric] y_def[symmetric])
  show "0 \<le> c_ms (civilOf t)" "c_ms (civilOf t) < msPerDay" by (simp_all add: civilOf_def Let_def msPerDay_def)
qed

section \<open>Fixed width\<close>

fun padded :: "nat \<Rightarrow> nat \<Rightarrow> string" where
  "padded 0 n = []"
| "padded (Suc k) n = padded k (n div 10) @ [digit_char (n mod 10)]"

lemma length_padded [simp]: "length (padded k n) = k"
  by (induction k arbitrary: n) simp_all

lemma padded_digits: "list_all is_digit (padded k n)"
  by (induction k arbitrary: n) simp_all

lemma nat_of_padded [simp]: "n < 10 ^ k \<Longrightarrow> nat_of_digits (padded k n) = n"
proof (induction k arbitrary: n)
  case (Suc k)
  then have "n div 10 < 10 ^ k" by (simp add: less_mult_imp_div_less)
  then show ?case using Suc.IH[of "n div 10"] by (simp add: nat_of_digits_snoc)
qed (simp add: nat_of_digits_def)

text \<open>\<open><\<close> on strings.\<close>

fun text_less :: "string \<Rightarrow> string \<Rightarrow> bool" where
  "text_less s [] = False"
| "text_less [] (d # t) = True"
| "text_less (c # s) (d # t) =
     ((of_char c :: nat) < of_char d \<or> c = d \<and> text_less s t)"

lemma text_less_append:
  "length s = length t \<Longrightarrow> text_less (s @ u) (t @ v) \<longleftrightarrow> text_less s t \<or> s = t \<and> text_less u v"
  by (induction s t rule: list_induct2) auto

lemma text_less_irrefl [simp]: "\<not> text_less s s"
  by (induction s) auto

lemma text_less_trans: "text_less s t \<Longrightarrow> text_less t u \<Longrightarrow> text_less s u"
  by (induction s t arbitrary: u rule: text_less.induct) (case_tac u; fastforce)+

lemma text_less_linear: "text_less s t \<or> s = t \<or> text_less t s"
proof (induction s t rule: text_less.induct)
  case (1 s) then show ?case by (cases s) auto
next
  case (3 c s d t)
  then show ?case using of_char_eq_iff[of c d, where 'a = nat] by auto
qed auto

lemma padded_less:
  "m < n \<Longrightarrow> n < 10 ^ k \<Longrightarrow> text_less (padded k m) (padded k n)"
proof (induction k arbitrary: m n)
  case (Suc k)
  have n: "n div 10 < 10 ^ k" using Suc.prems by (simp add: less_mult_imp_div_less)
  show ?case
  proof (cases "m div 10 < n div 10")
    case True
    then show ?thesis using Suc.IH[OF True n] by (simp add: text_less_append)
  next
    case False
    then have e: "m div 10 = n div 10" using Suc.prems(1) by (simp add: div_le_mono le_antisym)
    then have "m mod 10 < n mod 10" using Suc.prems(1) by (metis add_less_cancel_left div_mult_mod_eq)
    then have "text_less [digit_char (m mod 10)] [digit_char (n mod 10)]" by (simp add: digit_char_def)
    then show ?thesis by (simp add: text_less_append e)
  qed
qed simp

section \<open>Printing and reading\<close>

definition toISOString :: "int \<Rightarrow> string" where
  "toISOString t =
     (let c = civilOf t; y = c_year c; ms = nat (c_ms c)
      in (if 0 \<le> y \<and> y \<le> 9999 then padded 4 (nat y)
          else (if y < 0 then ''-'' else ''+'') @ padded 6 (nat \<bar>y\<bar>))
         @ ''-'' @ padded 2 (nat (c_month c + 1)) @ ''-'' @ padded 2 (nat (c_day c))
         @ ''T'' @ padded 2 (ms div 3600000) @ '':'' @ padded 2 (ms div 60000 mod 60)
         @ '':'' @ padded 2 (ms div 1000 mod 60) @ ''.'' @ padded 3 (ms mod 1000) @ ''Z'')"

text \<open>
  \<open>new Date(s)\<close>: a string as \<open>toISOString\<close> prints it, with a year of four digits, is that date. What
  other strings give is up to the platform, the parameter \<open>dateParse\<close>; \<open>None\<close> is the invalid date.
\<close>

definition isoField :: "nat \<Rightarrow> nat \<Rightarrow> string \<Rightarrow> nat" where
  "isoField i k s = nat_of_digits (take k (drop i s))"

definition isoDate :: "string \<Rightarrow> int" where
  "isoDate s =
     dateOf \<lparr>c_year = int (isoField 0 4 s), c_month = int (isoField 5 2 s) - 1, c_day = int (isoField 8 2 s),
       c_ms = int (isoField 11 2 s * 3600000 + isoField 14 2 s * 60000 + isoField 17 2 s * 1000 + isoField 20 3 s)\<rparr>"

definition newDate :: "(string \<Rightarrow> int option) \<Rightarrow> string \<Rightarrow> int option" where
  "newDate dateParse s =
     (if length s = 24 \<and> 1 \<le> isoField 5 2 s \<and> isoField 5 2 s \<le> 12 \<and> toISOString (isoDate s) = s
      then Some (isoDate s) else dateParse s)"

definition four_digit_year :: "int \<Rightarrow> bool" where
  "four_digit_year t \<longleftrightarrow> 0 \<le> c_year (civilOf t) \<and> c_year (civilOf t) \<le> 9999"

text \<open>The fields of a printed date, by their width.\<close>

definition iso_parts :: "int \<Rightarrow> nat \<times> nat \<times> nat \<times> nat \<times> nat \<times> nat \<times> nat" where
  "iso_parts t =
     (let c = civilOf t; ms = nat (c_ms c)
      in (nat (c_year c), nat (c_month c + 1), nat (c_day c), ms div 3600000, ms div 60000 mod 60, ms div 1000 mod 60, ms mod 1000))"

fun iso_text :: "nat \<times> nat \<times> nat \<times> nat \<times> nat \<times> nat \<times> nat \<Rightarrow> string" where
  "iso_text (y, m, d, h, i, s, f) =
     padded 4 y @ ''-'' @ padded 2 m @ ''-'' @ padded 2 d @ ''T'' @ padded 2 h @ '':'' @ padded 2 i
       @ '':'' @ padded 2 s @ ''.'' @ padded 3 f @ ''Z''"

lemma toISOString_parts: "four_digit_year t \<Longrightarrow> toISOString t = iso_text (iso_parts t)"
  by (simp add: toISOString_def four_digit_year_def iso_parts_def Let_def)

fun parts_ok :: "nat \<times> nat \<times> nat \<times> nat \<times> nat \<times> nat \<times> nat \<Rightarrow> bool" where
  "parts_ok (y, m, d, h, i, s, f) \<longleftrightarrow>
     y \<le> 9999 \<and> 1 \<le> m \<and> m \<le> 12 \<and> 1 \<le> d \<and> d \<le> 31 \<and> h \<le> 23 \<and> i \<le> 59 \<and> s \<le> 59 \<and> f \<le> 999"

lemma time_parts:
  fixes n :: nat
  shows "n div 3600000 * 3600000 + n div 60000 mod 60 * 60000 + n div 1000 mod 60 * 1000 + n mod 1000 = n"
proof -
  have "n div 1000 = n div 60000 * 60 + n div 1000 mod 60" using div_mult_mod_eq[of "n div 1000" 60] by (simp add: div_mult2_eq[symmetric])
  moreover have "n div 60000 = n div 3600000 * 60 + n div 60000 mod 60"
    using div_mult_mod_eq[of "n div 60000" 60] by (simp add: div_mult2_eq[symmetric])
  ultimately show ?thesis using div_mult_mod_eq[of n 1000] by linarith
qed

lemma iso_parts_ok: "four_digit_year t \<Longrightarrow> parts_ok (iso_parts t)"
proof -
  assume "four_digit_year t"
  moreover have "nat (c_ms (civilOf t)) < 86400000" using civilOf_bounds(5,6)[of t] by (simp add: msPerDay_def)
  then have "nat (c_ms (civilOf t)) div 3600000 < 24" by (simp add: less_mult_imp_div_less)
  moreover have "x mod 60 \<le> 59" "x mod 1000 \<le> 999" for x :: nat by (simp_all flip: less_Suc_eq_le)
  ultimately show ?thesis using civilOf_bounds(1-4)[of t]
    by (auto simp: iso_parts_def Let_def four_digit_year_def nat_le_iff Suc_le_eq)
qed

lemma isoField_text:
  assumes "parts_ok (y, m, d, h, i, s, f)"
  defines "z \<equiv> iso_text (y, m, d, h, i, s, f)"
  shows "isoField 0 4 z = y" "isoField 5 2 z = m" "isoField 8 2 z = d" "isoField 11 2 z = h"
    "isoField 14 2 z = i" "isoField 17 2 z = s" "isoField 20 3 z = f" "length z = 24"
  using assms(1) by (simp_all add: isoField_def z_def)

lemma newDate_toISOString:
  assumes "four_digit_year t" shows "newDate dateParse (toISOString t) = Some t"
proof -
  obtain y m d h i s f where p: "iso_parts t = (y, m, d, h, i, s, f)" by (metis prod_cases7)
  have ok: "parts_ok (y, m, d, h, i, s, f)" using iso_parts_ok[OF assms] p by simp
  note fields = isoField_text[OF ok, folded p, folded toISOString_parts[OF assms]]
  have "int (h * 3600000 + i * 60000 + s * 1000 + f) = c_ms (civilOf t)"
    using time_parts[of "nat (c_ms (civilOf t))"] p civilOf_bounds(5)[of t] by (auto simp: iso_parts_def Let_def)
  moreover have "int y = c_year (civilOf t)" "int m - 1 = c_month (civilOf t)" "int d = c_day (civilOf t)"
    using p civilOf_bounds[of t] assms by (auto simp: iso_parts_def Let_def four_digit_year_def)
  ultimately have "isoDate (toISOString t) = dateOf (civilOf t)"
    by (simp add: isoDate_def fields dateOf_def del: dateOf_civilOf)
  then show ?thesis using ok by (simp add: newDate_def fields)
qed

text \<open>Printed dates compare as the dates do.\<close>

fun parts_less where
  "parts_less (y, m, d, h, i, s, f) (y', m', d', h', i', s', f') \<longleftrightarrow>
     (y :: nat) < y' \<or> y = y' \<and> ((m :: nat) < m' \<or> m = m' \<and> ((d :: nat) < d' \<or> d = d' \<and>
       ((h :: nat) < h' \<or> h = h' \<and> ((i :: nat) < i' \<or> i = i' \<and> ((s :: nat) < s' \<or> s = s' \<and> (f :: nat) < f')))))"

lemma lex_div: "(a::nat) < b \<Longrightarrow> a div k < b div k \<or> a div k = b div k \<and> a mod k < b mod k"
  by (metis add_less_cancel_left div_le_mono mult_div_mod_eq order_le_less)

lemma time_less:
  assumes "(a::nat) < b"
  shows "a div 3600000 < b div 3600000 \<or> a div 3600000 = b div 3600000 \<and>
    (a div 60000 mod 60 < b div 60000 mod 60 \<or> a div 60000 mod 60 = b div 60000 mod 60 \<and>
      (a div 1000 mod 60 < b div 1000 mod 60 \<or> a div 1000 mod 60 = b div 1000 mod 60 \<and> a mod 1000 < b mod 1000))"
proof -
  have q: "n div 60000 = n div 1000 div 60" "n div 3600000 = n div 60000 div 60" for n :: nat
    by (simp_all add: div_mult2_eq[symmetric])
  have "a div 1000 = b div 1000 \<Longrightarrow> a div 60000 = b div 60000" "a div 60000 = b div 60000 \<Longrightarrow> a div 3600000 = b div 3600000"
    by (simp_all add: q)
  with lex_div[OF assms, of 1000] show ?thesis
    using lex_div[of "a div 1000" "b div 1000" 60, folded q(1)] lex_div[of "a div 60000" "b div 60000" 60, folded q(2)]
    by metis
qed

lemma iso_parts_less:
  assumes "t < u" "four_digit_year t" "four_digit_year u"
  shows "parts_less (iso_parts t) (iso_parts u)"
proof -
  let ?c = "civilOf t" and ?e = "civilOf u"
  have y: "nat (c_year ?c) < nat (c_year ?e) \<longleftrightarrow> c_year ?c < c_year ?e" "nat (c_year ?c) = nat (c_year ?e) \<longleftrightarrow> c_year ?c = c_year ?e"
    using assms(2,3) unfolding four_digit_year_def by linarith+
  have m: "nat (c_month ?c + 1) < nat (c_month ?e + 1) \<longleftrightarrow> c_month ?c < c_month ?e"
    "nat (c_month ?c + 1) = nat (c_month ?e + 1) \<longleftrightarrow> c_month ?c = c_month ?e"
    using civilOf_bounds(1)[of t] civilOf_bounds(1)[of u] by linarith+
  have d: "nat (c_day ?c) < nat (c_day ?e) \<longleftrightarrow> c_day ?c < c_day ?e" "nat (c_day ?c) = nat (c_day ?e) \<longleftrightarrow> c_day ?c = c_day ?e"
    using civilOf_bounds(3)[of t] civilOf_bounds(3)[of u] by linarith+
  have s: "nat (c_ms ?c) < nat (c_ms ?e)" if "c_ms ?c < c_ms ?e"
    using that civilOf_bounds(5)[of t] by linarith
  note less = civilOf_less[OF assms(1), unfolded civil_less_def]
  show ?thesis unfolding iso_parts_def Let_def parts_less.simps y m d
    using less time_less[OF s] by fast
qed

lemma iso_text_less:
  assumes "parts_less p q" "parts_ok p" "parts_ok q" shows "text_less (iso_text p) (iso_text q)"
proof -
  obtain y m d h i s f where p: "p = (y, m, d, h, i, s, f)" by (metis prod_cases7)
  obtain y' m' d' h' i' s' f' where q: "q = (y', m', d', h', i', s', f')" by (metis prod_cases7)
  show ?thesis using assms by (auto simp: p q text_less_append padded_less simp del: padded.simps)
qed

lemma toISOString_less:
  assumes "four_digit_year t" "four_digit_year u"
  shows "text_less (toISOString t) (toISOString u) \<longleftrightarrow> t < u"
proof -
  have "text_less (toISOString a) (toISOString b)" if "a < b" "four_digit_year a" "four_digit_year b" for a b
    using iso_text_less[OF iso_parts_less[OF that] iso_parts_ok iso_parts_ok] that by (simp add: toISOString_parts)
  then show ?thesis using assms by (metis linorder_neqE_linordered_idom text_less_irrefl text_less_trans)
qed

section \<open>Evaluation\<close>

lemma digit_chars:
  "digit_char 0 = CHR ''0''" "digit_char (Suc 0) = CHR ''1''" "digit_char 2 = CHR ''2''" "digit_char 3 = CHR ''3''"
  "digit_char 4 = CHR ''4''" "digit_char 5 = CHR ''5''" "digit_char 6 = CHR ''6''" "digit_char 7 = CHR ''7''"
  "digit_char 8 = CHR ''8''" "digit_char 9 = CHR ''9''"
  by (simp_all add: digit_char_def char_of_eq_iff)

lemma padded_numeral: "padded (numeral k) n = padded (pred_numeral k) (n div 10) @ [digit_char (n mod 10)]"
  by (simp only: numeral_eq_Suc[of k] padded.simps)

text \<open>The 30th of August 2026, ten o'clock.\<close>

lemma sample_date: "civilOf 1788084000000 = \<lparr>c_year = 2026, c_month = 7, c_day = 30, c_ms = 36000000\<rparr>"
proof -
  have "yearFromDay 20695 = 2026" "dayFromYear 2026 = 20454" by (simp_all add: yearFromDay_def dayFromYear_def)
  moreover have "monthFromDay 2026 241 = 7" "monthStart 2026 7 = 212"
    by (simp_all add: monthFromDay_def months monthStart_def daysInYear_leap)
  ultimately show ?thesis by (simp add: civilOf_def Let_def msPerDay_def)
qed

lemma sample_date_text: "toISOString 1788084000000 = ''2026-08-30T10:00:00.000Z''"
  by (simp add: toISOString_def sample_date digit_chars padded_numeral)

end
