(* ===== verification/Fills.thy ===== *)
theory Fills
  imports JsDate EngineTypes
begin

text \<open>
  The fill history as the backend serves it: \<open>apps/backend/src/services/fill-view.ts\<close>, whole, and
  \<open>getFills\<close> of \<open>order-service.ts\<close>. Postgres keeps the time of a row in microseconds, the language in
  milliseconds: what the driver makes of a stored time is a parameter, and so is the answer of the
  database to a query, which is its condition, its order and its limit.
\<close>

section \<open>A fill from one account's point of view\<close>

record JoinedFillRow =
  jf_id :: string
  jf_marketId :: string
  jf_makerId :: string
  jf_takerId :: string
  jf_makerOrderId :: string
  jf_takerOrderId :: string
  jf_qty :: string
  jf_price :: string
  jf_createdAt :: int
  jf_market :: "string option"
  jf_makerOrder :: "TPositionType option"
  jf_takerOrder :: "TPositionType option"

record FillView =
  fv_id :: string
  fv_marketId :: string
  fv_marketSlug :: "string option"
  fv_side :: TPositionType
  fv_role :: TRole
  fv_orderId :: string
  fv_qty :: string
  fv_price :: string
  fv_createdAt :: string

definition fillViewsFor :: "JoinedFillRow \<Rightarrow> string \<Rightarrow> FillView list" where
  "fillViewsFor row userId =
     (let view = (\<lambda>side role orderId.
            \<lparr>fv_id = jf_id row, fv_marketId = jf_marketId row, fv_marketSlug = jf_market row, fv_side = side,
             fv_role = role, fv_orderId = orderId, fv_qty = jf_qty row, fv_price = jf_price row,
             fv_createdAt = toISOString (jf_createdAt row)\<rparr>)
      in (case jf_makerOrder row of
            Some side \<Rightarrow> if jf_makerId row = userId then [view side Maker (jf_makerOrderId row)] else []
          | None \<Rightarrow> [])
       @ (case jf_takerOrder row of
            Some side \<Rightarrow> if jf_takerId row = userId then [view side Taker (jf_takerOrderId row)] else []
          | None \<Rightarrow> []))"

section \<open>The cursor\<close>

definition encodeFillCursor :: "int \<times> string \<Rightarrow> string" where
  "encodeFillCursor row = toISOString (fst row) @ ''|'' @ snd row"

definition decodeFillCursor :: "(string \<Rightarrow> int option) \<Rightarrow> string \<Rightarrow> (int \<times> string) option" where
  "decodeFillCursor dateParse cursor =
     (case find_index (\<lambda>c. c = CHR ''|'') cursor of
        None \<Rightarrow> None
      | Some separator \<Rightarrow>
          (case newDate dateParse (take separator cursor) of
             None \<Rightarrow> None
           | Some createdAt \<Rightarrow>
               (let rowId = drop (separator + 1) cursor in if rowId = [] then None else Some (createdAt, rowId))))"

section \<open>One page\<close>

record fills_options =
  fo_marketId :: "string option"
  fo_limit :: "int option"
  fo_before :: "string option"

definition default_fills_limit :: int where
  "default_fills_limit = 100"

definition max_fills_limit :: int where
  "max_fills_limit = 500"

text \<open>\<open>options.before ? \<dots>\<close> and \<open>options.marketId ? \<dots>\<close>: the empty string counts as absent.\<close>

definition truthy :: "string option \<Rightarrow> string option" where
  "truthy s = (case s of Some [] \<Rightarrow> None | _ \<Rightarrow> s)"

text \<open>The condition and the order of the query, on rows whose time is in microseconds.\<close>

definition fillsWhere :: "string \<Rightarrow> string option \<Rightarrow> (int \<times> string) option \<Rightarrow> JoinedFillRow \<Rightarrow> bool" where
  "fillsWhere userId marketId cursor row \<longleftrightarrow>
     (jf_makerId row = userId \<or> jf_takerId row = userId)
     \<and> (case marketId of None \<Rightarrow> True | Some m \<Rightarrow> jf_marketId row = m)
     \<and> (case cursor of
          None \<Rightarrow> True
        | Some (createdAt, rowId) \<Rightarrow>
            jf_createdAt row < createdAt * 1000
            \<or> jf_createdAt row = createdAt * 1000 \<and> text_less (jf_id row) rowId)"

definition newerFill :: "JoinedFillRow \<Rightarrow> JoinedFillRow \<Rightarrow> bool" where
  "newerFill a b \<longleftrightarrow>
     jf_createdAt b < jf_createdAt a \<or> jf_createdAt b = jf_createdAt a \<and> text_less (jf_id b) (jf_id a)"

type_synonym find_many =
  "(JoinedFillRow \<Rightarrow> bool) \<Rightarrow> (JoinedFillRow \<Rightarrow> JoinedFillRow \<Rightarrow> bool) \<Rightarrow> nat \<Rightarrow> JoinedFillRow list"

definition readRow :: "(int \<Rightarrow> int) \<Rightarrow> JoinedFillRow \<Rightarrow> JoinedFillRow" where
  "readRow driver row = row\<lparr>jf_createdAt := driver (jf_createdAt row)\<rparr>"

definition getFills ::
  "(string \<Rightarrow> int option) \<Rightarrow> (int \<Rightarrow> int) \<Rightarrow> find_many \<Rightarrow> string \<Rightarrow> fills_options
    \<Rightarrow> string + FillView list \<times> string option" where
  "getFills dateParse driver findMany userId options =
     (let limit = nat (min (max (case fo_limit options of None \<Rightarrow> default_fills_limit | Some l \<Rightarrow> l) 1) max_fills_limit);
          before = truthy (fo_before options);
          cursor = (case before of None \<Rightarrow> None | Some b \<Rightarrow> decodeFillCursor dateParse b)
      in if before \<noteq> None \<and> cursor = None then Inl ''Invalid cursor''
         else
           (let rows = map (readRow driver)
                  (findMany (fillsWhere userId (truthy (fo_marketId options)) cursor) newerFill (limit + 1));
                page = take limit rows
            in Inr (concat (map (\<lambda>row. fillViewsFor row userId) page),
                    if limit < length rows \<and> page \<noteq> []
                    then Some (encodeFillCursor (jf_createdAt (last page), jf_id (last page))) else None)))"

text \<open>A reader that follows the cursors: the pages it gets, \<open>None\<close> if the fuel ends before the pages do.\<close>

fun readPages ::
  "(string \<Rightarrow> int option) \<Rightarrow> (int \<Rightarrow> int) \<Rightarrow> find_many \<Rightarrow> string \<Rightarrow> string option \<Rightarrow> int \<Rightarrow> nat \<Rightarrow> string option
    \<Rightarrow> FillView list list option" where
  "readPages dateParse driver findMany userId marketId limit 0 before = None"
| "readPages dateParse driver findMany userId marketId limit (Suc n) before =
     (case getFills dateParse driver findMany userId \<lparr>fo_marketId = marketId, fo_limit = Some limit, fo_before = before\<rparr> of
        Inl e \<Rightarrow> None
      | Inr (fills, None) \<Rightarrow> Some [fills]
      | Inr (fills, Some cursor) \<Rightarrow>
          map_option ((#) fills) (readPages dateParse driver findMany userId marketId limit n (Some cursor)))"

text \<open>
  What the database promises: the rows of the table that satisfy the condition, each once, in the
  order asked for, as many as the limit allows.
\<close>

definition answersFrom :: "JoinedFillRow list \<Rightarrow> find_many \<Rightarrow> bool" where
  "answersFrom table findMany \<longleftrightarrow>
     (\<forall>P n. \<exists>rows. sorted_wrt newerFill rows \<and> set rows = {row \<in> set table. P row} \<and> findMany P newerFill n = take n rows)"

text \<open>A database that does.\<close>

definition sqlFindMany :: "JoinedFillRow list \<Rightarrow> find_many" where
  "sqlFindMany table P newer n =
     take n (sort_by (\<lambda>a b. if newer a b then Fin (- 1) else if newer b a then Fin 1 else Fin 0) (filter P table))"

section \<open>Properties of the order\<close>

lemma newerFill_irrefl [simp]: "\<not> newerFill a a"
  by (simp add: newerFill_def)

lemma newerFill_trans: "newerFill a b \<Longrightarrow> newerFill b c \<Longrightarrow> newerFill a c"
  using text_less_trans by (fastforce simp: newerFill_def)

lemma newerFill_linear: "jf_id a \<noteq> jf_id b \<Longrightarrow> newerFill a b \<or> newerFill b a"
  using text_less_linear[of "jf_id a" "jf_id b"] by (auto simp: newerFill_def)

lemma insert_newer:
  assumes "sorted_wrt newerFill ys" "jf_id x \<notin> jf_id ` set ys"
  shows "sorted_wrt newerFill (insert_by (\<lambda>a b. if newerFill a b then Fin (- 1) else if newerFill b a then Fin 1 else Fin 0) x ys)"
  using assms
proof (induction ys)
  case (Cons y ys)
  have "newerFill y x \<or> newerFill x y" using Cons.prems(2) by (intro newerFill_linear) auto
  then show ?case using Cons newerFill_trans by (auto simp: zero_jsnum_def)
qed simp

lemma sqlFindMany_answers:
  assumes "distinct (map jf_id table)" shows "answersFrom table (sqlFindMany table)"
  unfolding answersFrom_def
proof (intro allI exI conjI)
  fix P and n :: nat
  let ?c = "\<lambda>a b. if newerFill a b then Fin (- 1) else if newerFill b a then Fin 1 else Fin 0"
  let ?rows = "sort_by ?c (filter P table)"
  have "distinct (map jf_id xs) \<Longrightarrow> sorted_wrt newerFill (sort_by ?c xs)" for xs
  proof (induction xs)
    case (Cons x xs)
    then show ?case using insert_newer[of "sort_by ?c xs" x] by (simp add: sort_by_def[of ?c "x # xs"] flip: sort_by_def)
  qed (simp add: sort_by_def)
  moreover have "distinct (map jf_id (filter P table))" using assms by (simp add: distinct_map_filter)
  ultimately show "sorted_wrt newerFill ?rows" by blast
  show "set ?rows = {row \<in> set table. P row}" by auto
  show "sqlFindMany table P newerFill n = take n ?rows" by (simp add: sqlFindMany_def)
qed

end
