(* ===== verification/FillsProperties.thy ===== *)
theory FillsProperties
  imports Fills
begin

text \<open>
  The cursor reads back what it was made of; a reader that follows the cursors ends, sees no fill
  twice and, if the times of the rows are whole milliseconds, sees every fill. The last theorem shows
  that it can miss fills otherwise.
\<close>

section \<open>The cursor\<close>

lemma iso_text_no_bar: "CHR ''|'' \<notin> set (iso_text p)"
proof -
  have "CHR ''|'' \<notin> set (padded k n)" for k n
    using padded_digits[of k n] by (auto simp: list_all_iff is_digit_def)
  then show ?thesis by (cases p rule: iso_text.cases) auto
qed

lemma find_bar: "CHR ''|'' \<notin> set s \<Longrightarrow> find_index (\<lambda>c. c = CHR ''|'') (s @ CHR ''|'' # t) = Some (length s)"
  by (induction s) auto

lemma decode_encode:
  assumes "four_digit_year t" "i \<noteq> []"
  shows "decodeFillCursor dateParse (encodeFillCursor (t, i)) = Some (t, i)"
proof -
  have "CHR ''|'' \<notin> set (toISOString t)" by (simp add: toISOString_parts assms(1) iso_text_no_bar)
  from find_bar[OF this, of i] show ?thesis
    by (simp add: decodeFillCursor_def encodeFillCursor_def newDate_toISOString assms)
qed

section \<open>Strictly sorted lists\<close>

lemma newer_distinct: "sorted_wrt newerFill xs \<Longrightarrow> distinct xs"
  by (induction xs) auto

lemma newer_length:
  assumes "sorted_wrt newerFill xs" "set xs \<subseteq> set ys" shows "length xs \<le> length ys"
  using card_mono[OF finite_set assms(2)] distinct_card[OF newer_distinct[OF assms(1)]] card_length[of ys] by linarith

lemma newer_unique:
  assumes "sorted_wrt newerFill xs" "sorted_wrt newerFill ys" "set xs = set ys" shows "xs = ys"
  using assms
proof (induction xs arbitrary: ys)
  case (Cons x xs)
  then obtain y zs where ys: "ys = y # zs" by (cases ys) auto
  have "x = y"
  proof (rule ccontr)
    assume "x \<noteq> y"
    then have "newerFill x y" "newerFill y x" using Cons.prems ys by auto
    then show False using newerFill_trans newerFill_irrefl by blast
  qed
  moreover have "x \<notin> set xs" "y \<notin> set zs" using Cons.prems(1,2) ys by auto
  ultimately have "set xs = set zs" using Cons.prems(3) ys by auto
  then show ?case using Cons.IH[of zs] Cons.prems(1,2) ys \<open>x = y\<close> by simp
qed simp

section \<open>Pages\<close>

text \<open>What the driver may do to a time: lose digits. \<open>readable\<close> rows have a time the cursor can carry.\<close>

definition truncates :: "(int \<Rightarrow> int) \<Rightarrow> bool" where
  "truncates driver \<longleftrightarrow> (\<forall>us. driver us * 1000 \<le> us)"

definition readable :: "(int \<Rightarrow> int) \<Rightarrow> JoinedFillRow \<Rightarrow> bool" where
  "readable driver row \<longleftrightarrow> jf_id row \<noteq> [] \<and> four_digit_year (driver (jf_createdAt row))"

definition whole_millisecond :: "(int \<Rightarrow> int) \<Rightarrow> JoinedFillRow \<Rightarrow> bool" where
  "whole_millisecond driver row \<longleftrightarrow> driver (jf_createdAt row) * 1000 = jf_createdAt row"

definition viewsOf :: "(int \<Rightarrow> int) \<Rightarrow> string \<Rightarrow> JoinedFillRow list \<Rightarrow> FillView list" where
  "viewsOf driver userId rows = concat (map (\<lambda>row. fillViewsFor (readRow driver row) userId) rows)"

lemma viewsOf_append [simp]: "viewsOf driver u (xs @ ys) = viewsOf driver u xs @ viewsOf driver u ys"
  by (simp add: viewsOf_def)

lemma fillsWhere_older: "fillsWhere u m c r \<Longrightarrow> fillsWhere u m None x \<Longrightarrow> newerFill r x \<Longrightarrow> fillsWhere u m c x"
proof (cases c)
  case (Some p)
  assume "fillsWhere u m c r" "fillsWhere u m None x" "newerFill r x"
  then show ?thesis using text_less_trans[of "jf_id x" "jf_id r" "snd p"]
    by (auto simp: fillsWhere_def newerFill_def Some split: prod.splits)
qed simp

lemma fillsWhere_cursor:
  assumes "truncates driver" "fillsWhere u m (Some (driver (jf_createdAt r), jf_id r)) x"
  shows "fillsWhere u m None x" "newerFill r x"
  using assms by (auto simp: fillsWhere_def newerFill_def truncates_def dest: spec[of _ "jf_createdAt r"])

lemma fillsWhere_cursor_exact:
  assumes "whole_millisecond driver r" "fillsWhere u m None x" "newerFill r x"
  shows "fillsWhere u m (Some (driver (jf_createdAt r), jf_id r)) x"
  using assms by (auto simp: fillsWhere_def newerFill_def whole_millisecond_def)

text \<open>A cursor as a reader has it: none, or one that a page gave.\<close>

definition asCursor :: "(string \<Rightarrow> int option) \<Rightarrow> string option \<Rightarrow> (int \<times> string) option \<Rightarrow> bool" where
  "asCursor dateParse before c \<longleftrightarrow>
     (before = None \<and> c = None)
     \<or> (\<exists>b. before = Some b \<and> b \<noteq> [] \<and> c \<noteq> None \<and> decodeFillCursor dateParse b = c)"

lemma getFills_page:
  assumes "asCursor dateParse before c"
    and "\<And>n. findMany (fillsWhere u (truthy m) c) newerFill n = take n L"
    and "k = nat (min (max limit 1) max_fills_limit)"
  shows "getFills dateParse driver findMany u \<lparr>fo_marketId = m, fo_limit = Some limit, fo_before = before\<rparr> =
    Inr (viewsOf driver u (take k L),
         if k < length L then Some (encodeFillCursor (driver (jf_createdAt (L ! (k - 1))), jf_id (L ! (k - 1)))) else None)"
proof -
  have k: "1 \<le> k" by (simp add: assms(3) max_fills_limit_def)
  define rows where "rows = map (readRow driver) (take (k + 1) L)"
  have fetched: "map (readRow driver) (findMany (fillsWhere u (truthy m) c) newerFill (k + 1)) = rows" by (simp only: rows_def assms(2))
  have page: "take k rows = map (readRow driver) (take k L)" by (simp add: rows_def take_map min_def)
  have more: "k < length rows \<and> take k rows \<noteq> [] \<longleftrightarrow> k < length L" using k by (cases L) (auto simp: rows_def)
  have last: "last (take k rows) = readRow driver (L ! (k - 1))" if "k < length L"
  proof -
    have "take k L \<noteq> []" "last (take k L) = L ! (k - 1)" using that k take_Suc_conv_app_nth[of "k - 1" L] by auto
    then show ?thesis unfolding page by (metis last_map)
  qed
  have b: "truthy before = before" "(before \<noteq> None \<and> c = None) = False"
    "(case before of None \<Rightarrow> None | Some b \<Rightarrow> decodeFillCursor dateParse b) = c"
    using assms(1) by (auto simp: asCursor_def truthy_def split: option.split list.split)
  have "getFills dateParse driver findMany u \<lparr>fo_marketId = m, fo_limit = Some limit, fo_before = before\<rparr> =
    Inr (concat (map (\<lambda>row. fillViewsFor row u) (take k rows)),
         if k < length rows \<and> take k rows \<noteq> []
         then Some (encodeFillCursor (jf_createdAt (last (take k rows)), jf_id (last (take k rows)))) else None)"
    unfolding getFills_def Let_def fills_options.select_convs option.case b assms(3)[symmetric] fetched if_False by (rule refl)
  then show ?thesis unfolding more
    by (cases "k < length L") (simp_all add: last[unfolded page] page viewsOf_def comp_def readRow_def[of driver "L ! _"])
qed

text \<open>The rows behind the cursor of a page that ends with \<open>r\<close>: what follows it, if the cursor is exact.\<close>

lemma next_rows:
  assumes tr: "truncates driver"
    and L: "sorted_wrt newerFill (xs @ r # ys)" "set (xs @ r # ys) = {row \<in> set table. fillsWhere u m c row}"
    and L': "set L' = {row \<in> set table. fillsWhere u m (Some (driver (jf_createdAt r), jf_id r)) row}"
  shows "set L' \<subseteq> set ys" "whole_millisecond driver r \<Longrightarrow> set ys \<subseteq> set L'"
proof -
  have ups: "newerFill x r" if "x \<in> set xs" for x using that L(1) by (auto simp: sorted_wrt_append)
  have downs: "newerFill r y" if "y \<in> set ys" for y using that L(1) by (auto simp: sorted_wrt_append)
  have r: "fillsWhere u m c r" using L(2) by auto
  show "set L' \<subseteq> set ys"
  proof
    fix x assume "x \<in> set L'"
    then have x: "fillsWhere u m None x" "newerFill r x" "x \<in> set table" using L' fillsWhere_cursor[OF tr] by auto
    then have "x \<in> set (xs @ r # ys)" using fillsWhere_older[OF r] L(2) by auto
    moreover have "x \<notin> set xs" "x \<noteq> r" using ups[of x] x(2) newerFill_trans newerFill_irrefl by blast+
    ultimately show "x \<in> set ys" by simp
  qed
  show "set ys \<subseteq> set L'" if "whole_millisecond driver r"
  proof
    fix y assume y: "y \<in> set ys"
    then have "y \<in> set table" "fillsWhere u m c y" using L(2) by auto
    moreover from this(2) have "fillsWhere u m None y" by (simp add: fillsWhere_def)
    ultimately show "y \<in> set L'" using fillsWhere_cursor_exact[OF that _ downs[OF y]] L' by auto
  qed
qed

lemma readPages_rows:
  assumes db: "answersFrom table findMany" and tr: "truncates driver" and rd: "list_all (readable driver) table"
    and cur: "asCursor dateParse before c"
    and L: "sorted_wrt newerFill L" "set L = {row \<in> set table. fillsWhere u (truthy m) c row}"
    and fuel: "length L < n"
  shows "\<exists>pages rows. readPages dateParse driver findMany u m limit n before = Some pages
    \<and> concat pages = viewsOf driver u rows \<and> sorted_wrt newerFill rows \<and> set rows \<subseteq> set L
    \<and> (list_all (whole_millisecond driver) table \<longrightarrow> set rows = set L)"
  using cur L fuel
proof (induction n arbitrary: before c L)
  case (Suc n)
  define k where "k = nat (min (max limit 1) max_fills_limit)"
  have k: "1 \<le> k" by (simp add: k_def max_fills_limit_def)
  have rows: "findMany (fillsWhere u (truthy m) c) newerFill j = take j L" for j
    using db newer_unique[OF _ Suc.prems(2)] Suc.prems(3) unfolding answersFrom_def by metis
  note page = getFills_page[where L = L and findMany = findMany and driver = driver, OF Suc.prems(1) rows k_def]
  show ?case
  proof (cases "k < length L")
    case False
    then show ?thesis using page Suc.prems(2)
      by (intro exI[of _ "[viewsOf driver u L]"] exI[of _ L]) simp
  next
    case True
    define r where "r = L ! (k - 1)"
    define c' where "c' = (driver (jf_createdAt r), jf_id r)"
    let ?xs = "take (k - 1) L" and ?ys = "drop k L"
    have tk: "take k L = ?xs @ [r]" using True k take_Suc_conv_app_nth[of "k - 1" L] by (simp add: r_def)
    then have split: "L = ?xs @ r # ?ys" by (metis append_Cons append_Nil append_assoc append_take_drop_id)
    have r: "r \<in> set table" "readable driver r" using True k Suc.prems(3) nth_mem[of "k - 1" L] rd by (auto simp: r_def list_all_iff)
    obtain L' where L': "sorted_wrt newerFill L'" "set L' = {row \<in> set table. fillsWhere u (truthy m) (Some c') row}"
      using db unfolding answersFrom_def by blast
    have "sorted_wrt newerFill (?xs @ r # ?ys)" "set (?xs @ r # ?ys) = {row \<in> set table. fillsWhere u (truthy m) c row}"
      using Suc.prems(2,3) split by metis+
    note sub = next_rows[OF tr this, of L', folded c'_def, OF L'(2)]
    have cur': "asCursor dateParse (Some (encodeFillCursor c')) (Some c')"
      using decode_encode r(2) by (auto simp: asCursor_def c'_def readable_def encodeFillCursor_def)
    have "length L' < n" using newer_length[OF L'(1) sub(1)] Suc.prems(4) True k by simp
    from Suc.IH[OF cur' L' this] obtain pages rest where IH:
      "readPages dateParse driver findMany u m limit n (Some (encodeFillCursor c')) = Some pages"
      "concat pages = viewsOf driver u rest" "sorted_wrt newerFill rest" "set rest \<subseteq> set L'"
      "list_all (whole_millisecond driver) table \<longrightarrow> set rest = set L'" by blast
    have "readPages dateParse driver findMany u m limit (Suc n) before = Some (viewsOf driver u (take k L) # pages)"
      using page True IH(1) by (simp add: r_def c'_def)
    moreover have "sorted_wrt newerFill (?xs @ r # rest)"
      using Suc.prems(2) IH(3,4) sub(1) by (subst (asm) split) (auto simp: sorted_wrt_append)
    moreover have "set (?xs @ r # rest) \<subseteq> set L" using IH(4) sub(1) by (subst (2) split) auto
    moreover have "set (?xs @ r # rest) = set L" if "list_all (whole_millisecond driver) table"
      using that IH(5) sub r(1) by (subst (2) split) (auto simp: list_all_iff)
    ultimately show ?thesis using IH(2) tk
      by (intro exI[of _ "viewsOf driver u (take k L) # pages"] exI[of _ "?xs @ r # rest"]) (simp add: viewsOf_def)
  qed
qed simp

lemma readPages_all:
  assumes "answersFrom table findMany" "truncates driver" "list_all (readable driver) table"
  shows "\<exists>pages rows. readPages dateParse driver findMany u m limit (length table + 1) None = Some pages
    \<and> concat pages = viewsOf driver u rows \<and> sorted_wrt newerFill rows
    \<and> set rows \<subseteq> {row \<in> set table. fillsWhere u (truthy m) None row}
    \<and> (list_all (whole_millisecond driver) table \<longrightarrow> set rows = {row \<in> set table. fillsWhere u (truthy m) None row})"
proof -
  obtain L where L: "sorted_wrt newerFill L" "set L = {row \<in> set table. fillsWhere u (truthy m) None row}"
    using assms(1) unfolding answersFrom_def by blast
  have "length L < length table + 1" using newer_length[OF L(1), of table] L(2) by auto
  from readPages_rows[OF assms _ L this, of dateParse None limit] show ?thesis by (simp add: asCursor_def L(2))
qed

section \<open>The properties\<close>

text \<open>
  The cursor of a page reads back as the time and the id it was made of, whatever the platform
  makes of other strings.
\<close>

theorem cursor_round_trip:
  assumes "four_digit_year t" "i \<noteq> []"
  shows "decodeFillCursor dateParse (encodeFillCursor (t, i)) = Some (t, i)"
  by (rule decode_encode[OF assms])

lemma cursor_round_trip_witness:
  "encodeFillCursor (1788084000000, ''abc'') = ''2026-08-30T10:00:00.000Z|abc''
    \<and> decodeFillCursor (\<lambda>s. None) (encodeFillCursor (1788084000000, ''abc'')) = Some (1788084000000, ''abc'')"
proof
  show "encodeFillCursor (1788084000000, ''abc'') = ''2026-08-30T10:00:00.000Z|abc''"
    by (simp add: encodeFillCursor_def sample_date_text)
  show "decodeFillCursor (\<lambda>s. None) (encodeFillCursor (1788084000000, ''abc'')) = Some (1788084000000, ''abc'')"
    by (rule cursor_round_trip) (simp_all add: four_digit_year_def sample_date)
qed

text \<open>
  A reader that follows the cursors until there is none, with any page size, comes to an end, and
  has then seen every fill of the account, newest first, each once, provided the stored times are
  whole milliseconds.
\<close>

theorem paging_shows_each_fill_once:
  assumes "answersFrom table findMany" "truncates driver" "list_all (readable driver) table"
    and "list_all (whole_millisecond driver) table"
  shows "\<exists>pages rows. readPages dateParse driver findMany u m limit (length table + 1) None = Some pages
    \<and> concat pages = viewsOf driver u rows \<and> sorted_wrt newerFill rows
    \<and> set rows = {row \<in> set table. fillsWhere u (truthy m) None row}"
  using readPages_all[OF assms(1-3), of dateParse u m limit] assms(4) by blast

text \<open>Three fills of one sweep, at a stored time in microseconds.\<close>

definition sweep :: "int \<Rightarrow> JoinedFillRow list" where
  "sweep us = map (\<lambda>i. \<lparr>jf_id = i, jf_marketId = ''m'', jf_makerId = ''maker'', jf_takerId = ''taker'', jf_makerOrderId = i,
     jf_takerOrderId = ''o'', jf_qty = ''1'', jf_price = ''100'', jf_createdAt = us, jf_market = Some ''SOL-USD'',
     jf_makerOrder = Some SHORT, jf_takerOrder = Some LONG\<rparr>) [''f1'', ''f2'', ''f3'']"

lemma sweep_rows:
  "us div 1000 = 1788084000000 \<Longrightarrow> list_all (readable (\<lambda>us. us div 1000)) (sweep us)"
  "answersFrom (sweep us) (sqlFindMany (sweep us))" "truncates (\<lambda>us. us div 1000)" "length (sweep us) = 3"
proof -
  show "answersFrom (sweep us) (sqlFindMany (sweep us))" by (rule sqlFindMany_answers) (simp add: sweep_def)
  show "truncates (\<lambda>us. us div 1000)" unfolding truncates_def by presburger
qed (simp_all add: sweep_def readable_def four_digit_year_def sample_date)

lemma paging_shows_each_fill_once_witness:
  "\<exists>pages rows. readPages (\<lambda>s. None) (\<lambda>us. us div 1000) (sqlFindMany (sweep 1788084000000000)) ''taker'' None 1 4 None = Some pages
    \<and> concat pages = viewsOf (\<lambda>us. us div 1000) ''taker'' rows \<and> sorted_wrt newerFill rows
    \<and> set rows = {row \<in> set (sweep 1788084000000000). fillsWhere ''taker'' None None row}"
proof -
  let ?t = "1788084000000000 :: int"
  have "list_all (whole_millisecond (\<lambda>us. us div 1000)) (sweep ?t)" by (simp add: sweep_def whole_millisecond_def)
  from paging_shows_each_fill_once[OF sweep_rows(2,3) sweep_rows(1) this, of "\<lambda>s. None" "''taker''" None 1]
  show ?thesis by (simp add: sweep_rows truthy_def)
qed

text \<open>
  Whatever digits the driver drops, the reader comes to an end and sees only fills of the
  account, newest first, none twice.
\<close>

theorem paging_never_repeats:
  assumes "answersFrom table findMany" "truncates driver" "list_all (readable driver) table"
  shows "\<exists>pages rows. readPages dateParse driver findMany u m limit (length table + 1) None = Some pages
    \<and> concat pages = viewsOf driver u rows \<and> sorted_wrt newerFill rows
    \<and> set rows \<subseteq> {row \<in> set table. fillsWhere u (truthy m) None row}"
  using readPages_all[OF assms, of dateParse u m limit] by blast

lemma paging_never_repeats_witness:
  "\<exists>pages rows. readPages (\<lambda>s. None) (\<lambda>us. us div 1000) (sqlFindMany (sweep 1788084000000123)) ''taker'' None 1 4 None = Some pages
    \<and> concat pages = viewsOf (\<lambda>us. us div 1000) ''taker'' rows \<and> sorted_wrt newerFill rows
    \<and> set rows \<subseteq> {row \<in> set (sweep 1788084000000123). fillsWhere ''taker'' None None row}"
  using paging_never_repeats[OF sweep_rows(2,3) sweep_rows(1), of 1788084000000123 "\<lambda>s. None" "''taker''" None 1]
  by (simp add: sweep_rows truthy_def)

section \<open>What the cursor loses\<close>

text \<open>
  The fills of one transaction share their time to the microsecond; the cursor has it to the
  millisecond, rounded down, and nothing of that instant is older. What the first page of such a
  sweep does not show is on no page.
\<close>

theorem sweep_beyond_page_is_lost:
  assumes db: "answersFrom table findMany"
    and rows: "list_all (\<lambda>r. readable driver r \<and> fillsWhere u (truthy m) None r \<and> jf_createdAt r = us) table"
    and less: "driver us * 1000 < us"
    and k: "k = nat (min (max limit 1) max_fills_limit)" "k < card (set table)"
  shows "\<exists>rows. readPages dateParse driver findMany u m limit 2 None = Some [viewsOf driver u rows, []]
    \<and> length rows = k \<and> distinct rows \<and> set rows \<subset> set table"
proof -
  obtain L where L: "sorted_wrt newerFill L" "set L = {row \<in> set table. fillsWhere u (truthy m) None row}"
    using db unfolding answersFrom_def by blast
  have sL: "set L = set table" using L(2) rows by (auto simp: list_all_iff)
  have len: "k < length L" using k(2) sL distinct_card[OF newer_distinct[OF L(1)]] by simp
  let ?r = "L ! (k - 1)"
  have r: "?r \<in> set table" using len sL nth_mem[of "k - 1" L] by auto
  let ?c = "(driver (jf_createdAt ?r), jf_id ?r)"
  have all: "findMany (fillsWhere u (truthy m) None) newerFill n = take n L" for n
    using db newer_unique[OF _ L(1)] L(2) unfolding answersFrom_def by metis
  have none: "findMany (fillsWhere u (truthy m) (Some ?c)) newerFill n = take n []" for n
  proof -
    have "{row \<in> set table. fillsWhere u (truthy m) (Some ?c) row} = {}"
      using rows r less by (auto simp: list_all_iff fillsWhere_def)
    then show ?thesis using db unfolding answersFrom_def by (metis set_empty)
  qed
  have "asCursor dateParse (Some (encodeFillCursor ?c)) (Some ?c)"
    using decode_encode rows r by (auto simp: asCursor_def list_all_iff readable_def encodeFillCursor_def)
  note second = getFills_page[where findMany = findMany and L = "[]" and driver = driver, OF this none k(1)]
  note first = getFills_page[where findMany = findMany and L = L and driver = driver and c = None and before = None, OF _ all k(1)]
  have "readPages dateParse driver findMany u m limit 2 None = Some [viewsOf driver u (take k L), []]"
    using first[of dateParse] second len by (simp add: numeral_2_eq_2 asCursor_def viewsOf_def)
  moreover have "distinct (take k L)" using newer_distinct[OF L(1)] by simp
  moreover from this have "card (set (take k L)) = k" using len by (simp add: distinct_card)
  then have "set (take k L) \<subset> set table" using sL k(2) set_take_subset[of k L] by auto
  ultimately show ?thesis using len by (intro exI[of _ "take k L"]) auto
qed

end
