(* ===== verification/History.thy ===== *)
theory History
  imports Fills UserFeed FillsProperties
begin

text \<open>
  The history tabs: \<open>apps/web/lib/order-history.ts\<close>, whole, and the state of the provider in
  \<open>apps/web/lib/history.tsx\<close>. A call of the provider that waits for an answer is split at the wait: one
  function for what happens before it, one for the answer, one for the failure; \<open>mine\<close> is the
  generation the call keeps across it.
\<close>

section \<open>Prices of finished orders\<close>

record OrderRecord =
  rc_id :: string
  rc_userId :: string
  rc_marketId :: string
  rc_positionType :: TPositionType
  rc_orderType :: TOrderType
  rc_status :: TOrderStatus
  rc_qty :: string
  rc_filledQty :: string
  rc_price :: string
  rc_slippage :: jsnum
  rc_initialMargin :: string
  rc_createdAt :: string
  rc_updatedAt :: string

definition isHistoricalOrder :: "OrderRecord \<Rightarrow> bool" where
  "isHistoricalOrder order \<longleftrightarrow> rc_status order \<in> {Filled, Cancelled}"

text \<open>The loop over the fills, as price and quantity, with the running notional and size.\<close>

fun fillTotals :: "jsnum \<Rightarrow> jsnum \<Rightarrow> (string \<times> string) list \<Rightarrow> (jsnum \<times> jsnum) option" where
  "fillTotals notional sz [] = Some (notional, sz)"
| "fillTotals notional sz ((p, q) # fills) =
     (let price = js_parse_float p; qty = js_parse_float q
      in if \<not> js_finite price \<or> \<not> js_finite qty then None
         else fillTotals (notional + price * qty) (sz + qty) fills)"

definition averageFillPrice :: "(string \<times> string) list \<Rightarrow> string option" where
  "averageFillPrice fills =
     (case fillTotals 0 0 fills of
        None \<Rightarrow> None
      | Some (notional, sz) \<Rightarrow> if sz \<le> 0 then None else Some (js_string (notional / sz)))"

definition addToBucket :: "(string \<times> FillView list) list \<Rightarrow> FillView \<Rightarrow> (string \<times> FillView list) list" where
  "addToBucket byOrder fill =
     (case map_of byOrder (fv_orderId fill) of
        Some bucket \<Rightarrow> AList.update (fv_orderId fill) (bucket @ [fill]) byOrder
      | None \<Rightarrow> AList.update (fv_orderId fill) [fill] byOrder)"

definition fillsByOrder :: "FillView list \<Rightarrow> (string \<times> FillView list) list" where
  "fillsByOrder fills = foldl addToBucket [] fills"

definition historyPrice :: "TOrderType \<Rightarrow> string \<Rightarrow> (string \<times> string) list \<Rightarrow> string option" where
  "historyPrice orderType price fills = (if orderType = Limit then Some price else averageFillPrice fills)"

section \<open>The provider\<close>

definition fills_page_size :: int where
  "fills_page_size = 100"

record FillRow =
  fr_fill :: FillView
  fr_market :: "Market option"

record HistoryOrder =
  ho_row :: OrderRecord
  ho_market :: Market
  ho_displayPrice :: "string option"

datatype HistoryState =
    HistoryIdle
  | HistoryLoading
  | HistoryReady "FillRow list" "HistoryOrder list"
  | HistoryError string

record history =
  hs_state :: HistoryState
  hs_cursor :: "string option"
  hs_loadingMore :: bool
  hs_generation :: nat
  hs_activated :: bool
  hs_hasRows :: bool

definition mounted_history :: history where
  "mounted_history =
     \<lparr>hs_state = HistoryIdle, hs_cursor = None, hs_loadingMore = False, hs_generation = 0, hs_activated = False,
      hs_hasRows = False\<rparr>"

definition byNewest :: "string \<Rightarrow> string \<Rightarrow> jsnum" where
  "byNewest a b = (if text_less a b then Fin 1 else if text_less b a then Fin (- 1) else Fin 0)"

definition fillRow :: "Market list \<Rightarrow> FillView \<Rightarrow> FillRow" where
  "fillRow markets fill = \<lparr>fr_fill = fill, fr_market = find (\<lambda>m. mk_id m = fv_marketId fill) markets\<rparr>"

definition sortFills :: "FillRow list \<Rightarrow> FillRow list" where
  "sortFills rows = sort_by (\<lambda>a b. byNewest (fv_createdAt (fr_fill a)) (fv_createdAt (fr_fill b))) rows"

definition historyOrders :: "FillView list \<Rightarrow> (OrderRecord \<times> Market) list list \<Rightarrow> HistoryOrder list" where
  "historyOrders fills ordersPerMarket =
     (let byOrder = fillsByOrder fills
      in sort_by (\<lambda>a b. byNewest (rc_createdAt (ho_row a)) (rc_createdAt (ho_row b)))
           (map (\<lambda>(row, market).
               \<lparr>ho_row = row, ho_market = market,
                ho_displayPrice = historyPrice (rc_orderType row) (rc_price row)
                  (map (\<lambda>f. (fv_price f, fv_qty f)) (case map_of byOrder (rc_id row) of None \<Rightarrow> [] | Some b \<Rightarrow> b))\<rparr>)
             (filter (\<lambda>(row, market). isHistoricalOrder row) (concat ordersPerMarket))))"

text \<open>\<open>load\<close>: the call, which an unresolved session ends at once, the two answers together, the failure.\<close>

definition startLoad :: "bool \<Rightarrow> history \<Rightarrow> history \<times> nat option" where
  "startLoad authed h =
     (if \<not> authed then (h, None)
      else
        (let mine = hs_generation h + 1; h1 = h\<lparr>hs_generation := mine\<rparr>
         in (if hs_hasRows h then h1 else h1\<lparr>hs_state := HistoryLoading\<rparr>, Some mine)))"

definition loadOk ::
  "Market list \<Rightarrow> nat \<Rightarrow> FillView list \<times> string option \<Rightarrow> (OrderRecord \<times> Market) list list \<Rightarrow> history \<Rightarrow> history" where
  "loadOk markets mine page ordersPerMarket h =
     (if mine \<noteq> hs_generation h then h
      else h\<lparr>hs_hasRows := True, hs_cursor := snd page,
        hs_state := HistoryReady (sortFills (map (fillRow markets) (fst page))) (historyOrders (fst page) ordersPerMarket)\<rparr>)"

definition loadFailed :: "nat \<Rightarrow> bool \<Rightarrow> string option \<Rightarrow> history \<Rightarrow> history" where
  "loadFailed mine silent message h =
     (if mine \<noteq> hs_generation h \<or> silent then h
      else h\<lparr>hs_hasRows := False, hs_cursor := None,
        hs_state := HistoryError (case message of Some m \<Rightarrow> m | None \<Rightarrow> ''Could not load your history.'')\<rparr>)"

text \<open>
  The effect on the session and on the flag that a tab has asked, and a tab that becomes visible: the
  first time it only sets the flag, which runs the effect.
\<close>

definition loadEffect :: "bool \<Rightarrow> history \<Rightarrow> history \<times> nat option" where
  "loadEffect authed h = (if \<not> hs_activated h \<or> \<not> authed then (h, None) else startLoad authed h)"

definition activate :: "bool \<Rightarrow> history \<Rightarrow> history \<times> nat option" where
  "activate authed h =
     (if hs_activated h then startLoad authed h else loadEffect authed (h\<lparr>hs_activated := True\<rparr>))"

text \<open>The window gets the focus, or the document becomes visible.\<close>

definition onFocus :: "bool \<Rightarrow> history \<Rightarrow> history \<times> nat option" where
  "onFocus authed h = (if authed \<and> hs_activated h then startLoad authed h else (h, None))"

definition signedOut :: "history \<Rightarrow> history" where
  "signedOut h =
     h\<lparr>hs_generation := hs_generation h + 1, hs_hasRows := False, hs_activated := False, hs_cursor := None,
       hs_state := HistoryIdle\<rparr>"

text \<open>\<open>loadMore\<close>.\<close>

definition startMore :: "history \<Rightarrow> history \<times> (string \<times> nat) option" where
  "startMore h =
     (case truthy (hs_cursor h) of
        None \<Rightarrow> (h, None)
      | Some cursor \<Rightarrow> (h\<lparr>hs_loadingMore := True\<rparr>, Some (cursor, hs_generation h)))"

fun role_string :: "TRole \<Rightarrow> string" where
  "role_string Maker = ''maker''"
| "role_string Taker = ''taker''"

definition rowKey :: "FillView \<Rightarrow> string" where
  "rowKey f = fv_id f @ '':'' @ role_string (fv_role f)"

definition appendPage :: "Market list \<Rightarrow> FillView list \<Rightarrow> FillRow list \<Rightarrow> FillRow list" where
  "appendPage markets page fills =
     (let seen = rowKey ` set (map fr_fill fills);
          older = map (fillRow markets) (filter (\<lambda>f. rowKey f \<notin> seen) page)
      in sortFills (fills @ older))"

definition moreOk :: "Market list \<Rightarrow> nat \<Rightarrow> FillView list \<times> string option \<Rightarrow> history \<Rightarrow> history" where
  "moreOk markets mine page h =
     (let h1 = h\<lparr>hs_loadingMore := False\<rparr>
      in if mine \<noteq> hs_generation h then h1
         else h1\<lparr>hs_cursor := snd page,
           hs_state := (case hs_state h of
               HistoryReady fills orders \<Rightarrow> HistoryReady (appendPage markets (fst page) fills) orders
             | _ \<Rightarrow> hs_state h)\<rparr>)"

definition moreFailed :: "history \<Rightarrow> history" where
  "moreFailed h = h\<lparr>hs_loadingMore := False\<rparr>"

section \<open>The provider and its requests\<close>

text \<open>
  The provider with the session and the calls that wait for an answer. Answers come in any order; an
  account signs out at any time.
\<close>

record panel =
  pn_authed :: bool
  pn_history :: history
  pn_loads :: "nat list"
  pn_mores :: "nat list"

fun waiting :: "'a option \<Rightarrow> 'a list" where
  "waiting None = []"
| "waiting (Some x) = [x]"

inductive panel_reachable :: "Market list \<Rightarrow> panel \<Rightarrow> bool" for markets where
  mount: "panel_reachable markets \<lparr>pn_authed = False, pn_history = mounted_history, pn_loads = [], pn_mores = []\<rparr>"
| sign_in: "panel_reachable markets p \<Longrightarrow> loadEffect True (pn_history p) = (h, call) \<Longrightarrow>
    panel_reachable markets (p\<lparr>pn_authed := True, pn_history := h, pn_loads := pn_loads p @ waiting call\<rparr>)"
| sign_out: "panel_reachable markets p \<Longrightarrow>
    panel_reachable markets (p\<lparr>pn_authed := False, pn_history := signedOut (pn_history p)\<rparr>)"
| tab: "panel_reachable markets p \<Longrightarrow> activate (pn_authed p) (pn_history p) = (h, call) \<Longrightarrow>
    panel_reachable markets (p\<lparr>pn_history := h, pn_loads := pn_loads p @ waiting call\<rparr>)"
| focus: "panel_reachable markets p \<Longrightarrow> onFocus (pn_authed p) (pn_history p) = (h, call) \<Longrightarrow>
    panel_reachable markets (p\<lparr>pn_history := h, pn_loads := pn_loads p @ waiting call\<rparr>)"
| answered: "panel_reachable markets p \<Longrightarrow> mine \<in> set (pn_loads p) \<Longrightarrow>
    panel_reachable markets (p\<lparr>pn_history := loadOk markets mine page orders (pn_history p)\<rparr>)"
| failed: "panel_reachable markets p \<Longrightarrow> mine \<in> set (pn_loads p) \<Longrightarrow>
    panel_reachable markets (p\<lparr>pn_history := loadFailed mine silent message (pn_history p)\<rparr>)"
| more: "panel_reachable markets p \<Longrightarrow> startMore (pn_history p) = (h, Some (cursor, mine)) \<Longrightarrow>
    panel_reachable markets (p\<lparr>pn_history := h, pn_mores := pn_mores p @ [mine]\<rparr>)"
| more_answered: "panel_reachable markets p \<Longrightarrow> mine \<in> set (pn_mores p) \<Longrightarrow>
    panel_reachable markets (p\<lparr>pn_history := moreOk markets mine page (pn_history p)\<rparr>)"
| more_failed: "panel_reachable markets p \<Longrightarrow>
    panel_reachable markets (p\<lparr>pn_history := moreFailed (pn_history p)\<rparr>)"

text \<open>A visit that opens the tab and follows the cursors to the end, with the answers of the backend.\<close>

fun loadMoreAll ::
  "(string option \<Rightarrow> string + FillView list \<times> string option) \<Rightarrow> Market list \<Rightarrow> nat \<Rightarrow> history \<Rightarrow> history" where
  "loadMoreAll fetch markets 0 h = h"
| "loadMoreAll fetch markets (Suc n) h =
     (case startMore h of
        (h', None) \<Rightarrow> h'
      | (h', Some (cursor, mine)) \<Rightarrow>
          (case fetch (Some cursor) of
             Inl e \<Rightarrow> moreFailed h'
           | Inr page \<Rightarrow> loadMoreAll fetch markets n (moreOk markets mine page h')))"

definition readHistory ::
  "(string option \<Rightarrow> string + FillView list \<times> string option) \<Rightarrow> Market list \<Rightarrow> (OrderRecord \<times> Market) list list
    \<Rightarrow> nat \<Rightarrow> history \<Rightarrow> history" where
  "readHistory fetch markets orders n h =
     (case activate True h of
        (h', None) \<Rightarrow> h'
      | (h', Some mine) \<Rightarrow>
          (case fetch None of
             Inl e \<Rightarrow> loadFailed mine False (Some e) h'
           | Inr page \<Rightarrow> loadMoreAll fetch markets n (loadOk markets mine page orders h')))"

text \<open>
  The history tab shows every fill of the account, newest first and once; an account that has signed
  out leaves nothing behind, whatever was still on the way; the price of a market order is the
  weighted average of its fills. Two more theorems show what can be missing from the tab.
\<close>

section \<open>Sorting what is sorted\<close>

text \<open>Views as the tab wants them: newest first by their text, no key twice.\<close>

definition tidy :: "FillView list \<Rightarrow> bool" where
  "tidy vs \<longleftrightarrow> sorted_wrt (\<lambda>a b. \<not> text_less (fv_createdAt a) (fv_createdAt b)) vs \<and> distinct (map rowKey vs)"

lemma insert_by_first: "\<forall>y \<in> set ys. \<not> compare y x < 0 \<Longrightarrow> insert_by compare x ys = x # ys"
  by (cases ys) auto

lemma sortFills_tidy:
  assumes "sorted_wrt (\<lambda>a b. \<not> text_less (fv_createdAt (fr_fill a)) (fv_createdAt (fr_fill b))) rows"
  shows "sortFills rows = rows"
  using assms
proof (induction rows)
  case (Cons r rows)
  then have "sortFills (r # rows) = insert_by (\<lambda>a b. byNewest (fv_createdAt (fr_fill a)) (fv_createdAt (fr_fill b))) r rows"
    by (simp add: sortFills_def sort_by_def)
  also have "\<dots> = r # rows"
    using Cons.prems by (intro insert_by_first) (auto simp: byNewest_def zero_jsnum_def)
  finally show ?case .
qed (simp add: sortFills_def sort_by_def)

lemma tidy_sort: "tidy vs \<Longrightarrow> sortFills (map (fillRow markets) vs) = map (fillRow markets) vs"
  by (rule sortFills_tidy) (simp add: tidy_def sorted_wrt_map fillRow_def)

lemma tidy_append: "tidy (vs @ ws) \<Longrightarrow> tidy vs"
  by (simp add: tidy_def sorted_wrt_append)

lemma appendPage_tidy:
  assumes "tidy (vs @ page)"
  shows "appendPage markets page (map (fillRow markets) vs) = map (fillRow markets) (vs @ page)"
proof -
  have fr: "map fr_fill (map (fillRow markets) vs) = vs" by (induction vs) (simp_all add: fillRow_def)
  have "filter (\<lambda>f. rowKey f \<notin> rowKey ` set vs) page = page"
    using assms by (auto simp: tidy_def filter_id_conv)
  then show ?thesis using tidy_sort[OF assms, of markets] unfolding appendPage_def Let_def fr by simp
qed

lemma rowKey_eq: "rowKey f = rowKey g \<longleftrightarrow> fv_id f = fv_id g \<and> fv_role f = fv_role g"
proof -
  have len: "length (role_string r) = 5" "(role_string r = role_string s) = (r = s)" for r s
    by (cases r; cases s; simp)+
  have "rowKey f = rowKey g \<longleftrightarrow> fv_id f = fv_id g \<and> ('':'' @ role_string (fv_role f)) = '':'' @ role_string (fv_role g)"
    unfolding rowKey_def using len(1) by (intro append_eq_append_conv) simp
  then show ?thesis using len(2) by simp
qed

lemma views_of_row:
  "v \<in> set (fillViewsFor r u) \<Longrightarrow> fv_id v = jf_id r \<and> fv_createdAt v = toISOString (jf_createdAt r)"
  "distinct (map rowKey (fillViewsFor r u))"
  by (auto simp: fillViewsFor_def Let_def rowKey_eq split: option.splits if_splits)

lemma viewsOf_tidy:
  assumes "sorted_wrt newerFill rows" "distinct (map jf_id rows)"
    and "list_all (readable driver) rows" "list_all (whole_millisecond driver) rows"
  shows "tidy (viewsOf driver u rows)"
  using assms
proof (induction rows)
  case (Cons r rows)
  have later: "\<not> text_less (toISOString (driver (jf_createdAt r))) (toISOString (driver (jf_createdAt x)))" if "x \<in> set rows" for x
  proof -
    have "jf_createdAt x \<le> jf_createdAt r" using Cons.prems(1) that by (auto simp: newerFill_def)
    then have "\<not> driver (jf_createdAt r) < driver (jf_createdAt x)"
      using Cons.prems(4) that by (auto simp: list_all_iff whole_millisecond_def)
    then show ?thesis using toISOString_less Cons.prems(3) that by (auto simp: list_all_iff readable_def)
  qed
  have x: "\<exists>x \<in> set rows. fv_id v = jf_id x \<and> fv_createdAt v = toISOString (driver (jf_createdAt x))"
    if "v \<in> set (viewsOf driver u rows)" for v
    using that views_of_row(1) by (fastforce simp: viewsOf_def readRow_def)
  have ids: "jf_id r \<notin> jf_id ` set rows" using Cons.prems(2) by simp
  have "viewsOf driver u (r # rows) = fillViewsFor (readRow driver r) u @ viewsOf driver u rows" by (simp add: viewsOf_def)
  moreover have "sorted_wrt (\<lambda>a b. \<not> text_less (fv_createdAt a) (fv_createdAt b)) (fillViewsFor (readRow driver r) u)"
    using views_of_row(1)[of _ "readRow driver r" u] by (intro sorted_wrt_mono_rel[OF _ sorted_wrt_true]) simp
  moreover have "\<not> text_less (fv_createdAt a) (fv_createdAt b)" "rowKey a \<noteq> rowKey b"
    if "a \<in> set (fillViewsFor (readRow driver r) u)" "b \<in> set (viewsOf driver u rows)" for a b
    using views_of_row(1)[OF that(1)] x[OF that(2)] later ids by (auto simp: readRow_def rowKey_eq)
  ultimately show ?case using Cons views_of_row(2)[of "readRow driver r" u]
    by (auto simp: tidy_def sorted_wrt_append)
qed (simp add: viewsOf_def tidy_def)

section \<open>The visit\<close>

abbreviation fetchFills ::
  "(string \<Rightarrow> int option) \<Rightarrow> (int \<Rightarrow> int) \<Rightarrow> find_many \<Rightarrow> string \<Rightarrow> string option \<Rightarrow> string + FillView list \<times> string option"
  where "fetchFills dateParse driver findMany u before \<equiv>
    getFills dateParse driver findMany u \<lparr>fo_marketId = None, fo_limit = Some fills_page_size, fo_before = before\<rparr>"

lemma getFills_cursor: "getFills dateParse driver findMany u opts = Inr (fills, Some c) \<Longrightarrow> c \<noteq> []"
  by (auto simp: getFills_def Let_def encodeFillCursor_def split: if_splits)

lemma loadMoreAll_pages:
  assumes "readPages dateParse driver findMany u None fills_page_size n (Some c) = Some pages" "c \<noteq> []"
    and "hs_state h = HistoryReady (map (fillRow markets) vs) os" "hs_cursor h = Some c" "tidy (vs @ concat pages)"
  shows "hs_state (loadMoreAll (fetchFills dateParse driver findMany u) markets n h) =
      HistoryReady (map (fillRow markets) (vs @ concat pages)) os
    \<and> hs_cursor (loadMoreAll (fetchFills dateParse driver findMany u) markets n h) = None"
  using assms
proof (induction n arbitrary: c pages vs h)
  case (Suc n)
  let ?fetch = "fetchFills dateParse driver findMany u"
  have start: "startMore h = (h\<lparr>hs_loadingMore := True\<rparr>, Some (c, hs_generation h))"
    using Suc.prems(2,4) by (cases c) (simp_all add: startMore_def truthy_def)
  obtain fills nxt where f: "?fetch (Some c) = Inr (fills, nxt)" using Suc.prems(1) by (auto split: sum.splits)
  define h' where "h' = moreOk markets (hs_generation h) (fills, nxt) (h\<lparr>hs_loadingMore := True\<rparr>)"
  have run: "loadMoreAll ?fetch markets (Suc n) h = loadMoreAll ?fetch markets n h'" by (simp add: start f h'_def)
  have cur: "hs_cursor h' = nxt" by (simp add: h'_def moreOk_def Let_def)
  have shown: "hs_state h' = HistoryReady (map (fillRow markets) (vs @ fills)) os" if "tidy (vs @ fills)"
    using appendPage_tidy[OF that, of markets] Suc.prems(3) by (simp add: h'_def moreOk_def Let_def)
  show ?case
  proof (cases nxt)
    case None
    then have "pages = [fills]" using Suc.prems(1) f by simp
    then have "hs_state h' = HistoryReady (map (fillRow markets) (vs @ concat pages)) os" using shown Suc.prems(5) by simp
    moreover have "loadMoreAll ?fetch markets n h' = h'"
      using cur None by (cases n) (simp_all add: startMore_def truthy_def)
    ultimately show ?thesis unfolding run using cur None by simp
  next
    case (Some c')
    then obtain rest where rest: "readPages dateParse driver findMany u None fills_page_size n (Some c') = Some rest" "pages = fills # rest"
      using Suc.prems(1) f by auto
    have "c' \<noteq> []" using getFills_cursor f Some by blast
    moreover have "tidy ((vs @ fills) @ concat rest)" using Suc.prems(5) rest(2) by simp
    ultimately show ?thesis unfolding run
      using Suc.IH[OF rest(1), of h' "vs @ fills"] shown[OF tidy_append] cur Some rest(2) by simp
  qed
qed simp

lemma readHistory_pages:
  assumes "readPages dateParse driver findMany u None fills_page_size (Suc n) None = Some pages" "tidy (concat pages)"
  shows "\<exists>os. hs_state (readHistory (fetchFills dateParse driver findMany u) markets orders n h) =
      HistoryReady (map (fillRow markets) (concat pages)) os"
    "hs_cursor (readHistory (fetchFills dateParse driver findMany u) markets orders n h) = None"
proof -
  let ?fetch = "fetchFills dateParse driver findMany u"
  obtain fills nxt where f: "?fetch None = Inr (fills, nxt)" using assms(1) by (auto split: sum.splits)
  obtain h' mine where a: "activate True h = (h', Some mine)" "hs_generation h' = mine"
  proof -
    have "snd (activate True h) = Some (hs_generation (fst (activate True h)))"
      by (simp add: activate_def loadEffect_def startLoad_def Let_def)
    then show thesis using that by (cases "activate True h") simp
  qed
  define h1 where "h1 = loadOk markets mine (fills, nxt) orders h'"
  have run: "readHistory ?fetch markets orders n h = loadMoreAll ?fetch markets n h1" by (simp add: readHistory_def a f h1_def)
  have cur: "hs_cursor h1 = nxt" by (simp add: h1_def loadOk_def a)
  have shown: "hs_state h1 = HistoryReady (map (fillRow markets) fills) (historyOrders fills orders)" if "tidy fills"
    using tidy_sort[OF that, of markets] by (simp add: h1_def loadOk_def a)
  have "(\<exists>os. hs_state (loadMoreAll ?fetch markets n h1) = HistoryReady (map (fillRow markets) (concat pages)) os)
    \<and> hs_cursor (loadMoreAll ?fetch markets n h1) = None"
  proof (cases nxt)
    case None
    then have "pages = [fills]" using assms(1) f by simp
    moreover have "loadMoreAll ?fetch markets n h1 = h1" using cur None by (cases n) (simp_all add: startMore_def truthy_def)
    ultimately show ?thesis using shown assms(2) cur None by simp
  next
    case (Some c)
    then obtain rest where rest: "readPages dateParse driver findMany u None fills_page_size n (Some c) = Some rest" "pages = fills # rest"
      using assms(1) f by auto
    have "c \<noteq> []" using getFills_cursor f Some by blast
    moreover have "tidy (fills @ concat rest)" using assms(2) rest(2) by simp
    ultimately show ?thesis using loadMoreAll_pages[OF rest(1), of h1 markets fills] shown[OF tidy_append] cur Some rest(2) by auto
  qed
  then show "\<exists>os. hs_state (readHistory ?fetch markets orders n h) = HistoryReady (map (fillRow markets) (concat pages)) os"
    "hs_cursor (readHistory ?fetch markets orders n h) = None" unfolding run by auto
qed

section \<open>The properties\<close>

text \<open>
  C15. From the database to the tab: after a visit that follows the cursors to the end the tab shows
  every fill of the account, each once, newest first, and offers no further page, whatever it showed
  before, if the stored times are whole milliseconds.
\<close>

theorem history_shows_every_fill:
  assumes "answersFrom table findMany" "truncates driver" "list_all (readable driver) table"
    and "list_all (whole_millisecond driver) table" "distinct (map jf_id table)"
    and "h' = readHistory (fetchFills dateParse driver findMany u) markets orders (length table) h"
  shows "\<exists>rows os. sorted_wrt newerFill rows \<and> set rows = {row \<in> set table. jf_makerId row = u \<or> jf_takerId row = u}
    \<and> hs_state h' = HistoryReady (map (fillRow markets) (viewsOf driver u rows)) os \<and> hs_cursor h' = None"
proof -
  have w: "{row \<in> set table. fillsWhere u (truthy None) None row} = {row \<in> set table. jf_makerId row = u \<or> jf_takerId row = u}"
    by (simp add: fillsWhere_def truthy_def)
  obtain pages rows where p: "readPages dateParse driver findMany u None fills_page_size (length table + 1) None = Some pages"
    "concat pages = viewsOf driver u rows" "sorted_wrt newerFill rows"
    "set rows = {row \<in> set table. jf_makerId row = u \<or> jf_takerId row = u}"
    using readPages_all[OF assms(1-3), of dateParse u None fills_page_size] assms(4) unfolding w by blast
  have "distinct (map jf_id rows)"
    using newer_distinct[OF p(3)] p(4) assms(5) by (auto simp: distinct_map intro: inj_on_subset)
  moreover have "list_all (readable driver) rows" "list_all (whole_millisecond driver) rows"
    using assms(3,4) p(4) by (auto simp: list_all_iff)
  ultimately have "tidy (concat pages)" using viewsOf_tidy[OF p(3)] p(2) by simp
  with p readHistory_pages[of dateParse driver findMany u "length table" pages markets orders h] assms(6)
  show ?thesis by (intro exI[of _ rows]) (simp add: ex_simps)
qed

lemma history_shows_every_fill_witness:
  "\<exists>rows os. sorted_wrt newerFill rows
    \<and> set rows = {row \<in> set (sweep 1788084000000000). jf_makerId row = ''taker'' \<or> jf_takerId row = ''taker''}
    \<and> hs_state (readHistory (fetchFills (\<lambda>s. None) (\<lambda>us. us div 1000) (sqlFindMany (sweep 1788084000000000)) ''taker'') [] [] 3 mounted_history) =
       HistoryReady (map (fillRow []) (viewsOf (\<lambda>us. us div 1000) ''taker'' rows)) os"
proof -
  let ?t = "1788084000000000 :: int"
  have "list_all (whole_millisecond (\<lambda>us. us div 1000)) (sweep ?t)" by (simp add: sweep_def whole_millisecond_def)
  moreover have "distinct (map jf_id (sweep ?t))" by (simp add: sweep_def)
  ultimately show ?thesis
    using history_shows_every_fill[where u = "''taker''" and dateParse = "\<lambda>s. None" and markets = "[]" and orders = "[]"
        and h = mounted_history, OF sweep_rows(2,3) sweep_rows(1) _ _ refl, of ?t]
    by (auto simp: sweep_rows)
qed

lemma startLoad_generation:
  "startLoad authed h = (h', call) \<Longrightarrow> hs_generation h \<le> hs_generation h' \<and> (\<forall>m \<in> set (waiting call). m = hs_generation h')
     \<and> (\<not> authed \<longrightarrow> h' = h \<and> call = None)"
  by (auto simp: startLoad_def Let_def split: if_splits)

definition panel_ok :: "panel \<Rightarrow> bool" where
  "panel_ok p \<longleftrightarrow>
     (\<forall>m \<in> set (pn_loads p @ pn_mores p). m \<le> hs_generation (pn_history p))
     \<and> (\<not> pn_authed p \<longrightarrow> hs_state (pn_history p) = HistoryIdle \<and> hs_cursor (pn_history p) = None
          \<and> (\<forall>m \<in> set (pn_loads p @ pn_mores p). m < hs_generation (pn_history p)))"

lemma panel_ok_call:
  assumes "panel_ok p" "hs_generation (pn_history p) \<le> hs_generation h" "\<forall>m \<in> set (waiting call). m = hs_generation h"
    and "a \<or> \<not> pn_authed p \<and> call = None \<and> hs_state h = hs_state (pn_history p) \<and> hs_cursor h = hs_cursor (pn_history p)"
  shows "panel_ok (p\<lparr>pn_authed := a, pn_history := h, pn_loads := pn_loads p @ waiting call\<rparr>)"
  using assms unfolding panel_ok_def by (auto intro: order_trans order_less_le_trans)

lemma panel_ok_load:
  assumes "panel_ok p" "startLoad a h0 = (h, call)" "hs_generation h0 = hs_generation (pn_history p)"
    "hs_state h0 = hs_state (pn_history p)" "hs_cursor h0 = hs_cursor (pn_history p)" "a \<or> \<not> pn_authed p"
  shows "panel_ok (p\<lparr>pn_authed := a, pn_history := h, pn_loads := pn_loads p @ waiting call\<rparr>)"
  using startLoad_generation[OF assms(2)] assms(3-6) by (intro panel_ok_call[OF assms(1)]) auto

lemma panel_ok_idle:
  assumes "panel_ok p" "hs_generation h0 = hs_generation (pn_history p)"
    "hs_state h0 = hs_state (pn_history p)" "hs_cursor h0 = hs_cursor (pn_history p)" "a \<or> \<not> pn_authed p"
  shows "panel_ok (p\<lparr>pn_authed := a, pn_history := h0, pn_loads := pn_loads p @ waiting None\<rparr>)"
  using assms(2-5) by (intro panel_ok_call[OF assms(1)]) auto

lemma panel_ok_answer:
  assumes "panel_ok p" "hs_generation h = hs_generation (pn_history p)"
    and "hs_state h = hs_state (pn_history p) \<and> hs_cursor h = hs_cursor (pn_history p) \<or> hs_generation h \<in> set (pn_loads p @ pn_mores p)"
  shows "panel_ok (p\<lparr>pn_history := h\<rparr>)"
  using assms unfolding panel_ok_def by auto

lemma panel_ok: "panel_reachable markets p \<Longrightarrow> panel_ok p"
proof (induction rule: panel_reachable.induct)
  case mount
  then show ?case by (simp add: panel_ok_def mounted_history_def)
next
  case (sign_in p h call)
  then show ?case using panel_ok_load[of p True "pn_history p" h call] panel_ok_idle[of p "pn_history p" True]
    by (auto simp: loadEffect_def split: if_splits)
next
  case (sign_out p)
  then show ?case by (fastforce simp: panel_ok_def signedOut_def ball_Un less_Suc_eq_le intro: le_SucI)
next
  case (tab p h call)
  let ?h = "pn_history p\<lparr>hs_activated := True\<rparr>"
  have a: "p\<lparr>pn_authed := pn_authed p\<rparr> = p" by simp
  from tab show ?case
    using panel_ok_load[of p "pn_authed p" "pn_history p" h call] panel_ok_load[of p "pn_authed p" ?h h call]
      panel_ok_idle[of p ?h "pn_authed p"]
    by (auto simp: activate_def loadEffect_def a split: if_splits)
next
  case (focus p h call)
  then show ?case
    using panel_ok_load[of p "pn_authed p" "pn_history p" h call] panel_ok_idle[of p "pn_history p" "pn_authed p"]
    by (auto simp: onFocus_def split: if_splits)
next
  case (answered p mine page orders)
  then show ?case by (intro panel_ok_answer) (auto simp: loadOk_def)
next
  case (failed p mine silent message)
  then show ?case by (intro panel_ok_answer) (auto simp: loadFailed_def)
next
  case (more p h cursor mine)
  then have "h = pn_history p\<lparr>hs_loadingMore := True\<rparr>" "mine = hs_generation (pn_history p)" "hs_cursor (pn_history p) \<noteq> None"
    by (auto simp: startMore_def truthy_def split: option.splits list.splits)
  then show ?case using more.IH by (auto simp: panel_ok_def)
next
  case (more_answered p mine page)
  then show ?case by (intro panel_ok_answer) (auto simp: moreOk_def Let_def)
next
  case (more_failed p)
  then show ?case by (simp add: panel_ok_def moreFailed_def)
qed

text \<open>
  An account that signs out leaves nothing behind: whatever calls were waiting, and in whatever
  order they are answered or fail, as long as nobody is signed in the panel is empty and has no cursor.
\<close>

theorem signed_out_history_is_empty:
  assumes "panel_reachable markets p" "\<not> pn_authed p"
  shows "hs_state (pn_history p) = HistoryIdle \<and> hs_cursor (pn_history p) = None"
  using panel_ok[OF assms(1)] assms(2) by (simp add: panel_ok_def)

text \<open>A load that is answered after the account has signed out.\<close>

lemma signed_out_history_is_empty_witness:
  "\<exists>p. panel_reachable [] p \<and> pn_loads p = [1] \<and> hs_generation (pn_history p) = 2
    \<and> hs_state (pn_history p) = HistoryIdle \<and> hs_cursor (pn_history p) = None"
proof -
  define p0 where "p0 = \<lparr>pn_authed = False, pn_history = mounted_history, pn_loads = [], pn_mores = []\<rparr>"
  define p1 where "p1 = p0\<lparr>pn_authed := True\<rparr>"
  define p2 where "p2 = p1\<lparr>pn_history := fst (activate True mounted_history), pn_loads := [1]\<rparr>"
  define p3 where "p3 = p2\<lparr>pn_authed := False, pn_history := signedOut (pn_history p2)\<rparr>"
  define p4 where "p4 = p3\<lparr>pn_history := loadOk [] 1 ([], Some ''c'') [] (pn_history p3)\<rparr>"
  note defs = p0_def p1_def p2_def p3_def p4_def
  have r0: "panel_reachable [] p0" unfolding p0_def by (rule mount)
  have r1: "panel_reachable [] p1"
    using sign_in[OF r0, of mounted_history None] by (simp add: defs loadEffect_def mounted_history_def)
  have r2: "panel_reachable [] p2"
    using tab[OF r1, of "fst (activate True mounted_history)" "Some 1"]
    by (simp add: defs activate_def loadEffect_def startLoad_def mounted_history_def)
  have r3: "panel_reachable [] p3" unfolding p3_def by (rule sign_out[OF r2])
  have r4: "panel_reachable [] p4" unfolding p4_def by (rule answered[OF r3]) (simp add: defs)
  have "pn_loads p4 = [1]" "hs_generation (pn_history p4) = 2" "\<not> pn_authed p4"
    by (simp_all add: defs activate_def loadEffect_def startLoad_def signedOut_def loadOk_def mounted_history_def)
  with signed_out_history_is_empty[OF r4] r4 show ?thesis by blast
qed

definition wholeFills :: "(int \<times> int) list \<Rightarrow> (string \<times> string) list" where
  "wholeFills fs = map (\<lambda>(p, q). (js_string (Fin (of_int p)), js_string (Fin (of_int q)))) fs"

lemma whole_double: "\<bar>k\<bar> \<le> 2 ^ 53 \<Longrightarrow> js_parse_float (js_string (Fin (of_int k))) = Fin (of_int k)"
  by (rule js_parse_float_string) (metis js_of_int is_double_js)

lemma fillTotals_whole:
  assumes "list_all (\<lambda>(p, q). 0 \<le> p \<and> 0 < q) fs" "0 \<le> N" "0 \<le> S"
    and "N + sum_list (map (\<lambda>(p, q). p * q) fs) \<le> 2 ^ 53" "S + sum_list (map snd fs) \<le> 2 ^ 53"
    and "list_all (\<lambda>(p, q). p \<le> 2 ^ 53) fs"
  shows "fillTotals (Fin (of_int N)) (Fin (of_int S)) (wholeFills fs) =
    Some (Fin (of_int (N + sum_list (map (\<lambda>(p, q). p * q) fs))), Fin (of_int (S + sum_list (map snd fs))))"
  using assms
proof (induction fs arbitrary: N S)
  case (Cons f fs)
  obtain p q where f: "f = (p, q)" by force
  have rest: "0 \<le> sum_list (map (\<lambda>(p, q). p * q) fs)" "0 \<le> sum_list (map snd fs)"
    using Cons.prems(1) by (intro sum_list_nonneg; fastforce simp: list_all_iff)+
  have pq: "0 \<le> p" "0 < q" "p \<le> 2 ^ 53" "0 \<le> p * q" using Cons.prems(1,6) by (simp_all add: f)
  have le: "q \<le> 2 ^ 53" "p * q \<le> 2 ^ 53" "N + p * q \<le> 2 ^ 53" "S + q \<le> 2 ^ 53"
    using Cons.prems(2-5) rest pq by (simp_all add: f)
  have "Fin (of_int p) * Fin (of_int q) = js (of_int (p * q))" by (simp add: times_jsnum_def)
  also have "\<dots> = Fin (of_int (p * q))" using pq le by (intro js_of_int) simp
  finally have m: "Fin (of_int p) * Fin (of_int q) = Fin (of_int (p * q))" .
  have plus: "Fin (of_int a) + Fin (of_int b) = Fin (of_int (a + b))" if "0 \<le> a" "0 \<le> b" "a + b \<le> 2 ^ 53" for a b
  proof -
    have "Fin (of_int a) + Fin (of_int b) = js (of_int (a + b))" by (simp add: plus_jsnum_def)
    then show ?thesis using that js_of_int[of "a + b"] by simp
  qed
  have a: "Fin (of_int N) + Fin (of_int (p * q)) = Fin (of_int (N + p * q))" "Fin (of_int S) + Fin (of_int q) = Fin (of_int (S + q))"
    using Cons.prems(2,3) pq le by (intro plus; linarith)+
  have w: "wholeFills (f # fs) = (js_string (Fin (of_int p)), js_string (Fin (of_int q))) # wholeFills fs" by (simp add: wholeFills_def f)
  have "fillTotals (Fin (of_int N)) (Fin (of_int S)) (wholeFills (f # fs)) =
    fillTotals (Fin (of_int (N + p * q))) (Fin (of_int (S + q))) (wholeFills fs)"
  proof -
    have "js_parse_float (js_string (Fin (of_int p))) = Fin (of_int p)" "js_parse_float (js_string (Fin (of_int q))) = Fin (of_int q)"
      using pq le by (intro whole_double; simp)+
    then show ?thesis by (simp only: w fillTotals.simps Let_def m a js_finite_Fin not_True_eq_False simp_thms if_False)
  qed
  then show ?case using Cons.IH[of "N + p * q" "S + q"] Cons.prems pq by (simp add: f add.assoc)
qed (simp add: wholeFills_def)

text \<open>
  The price of a market order is the volume-weighted average of its fills: for whole prices and
  sizes it is the exact average rounded once, and so not below the lowest nor above the highest price.
\<close>

theorem average_price_is_weighted:
  assumes "fs \<noteq> []" "list_all (\<lambda>(p, q). lo \<le> p \<and> p \<le> hi \<and> 0 < q) fs" "0 \<le> lo" "hi \<le> 2 ^ 53"
    and "sum_list (map (\<lambda>(p, q). p * q) fs) \<le> 2 ^ 53" "sum_list (map snd fs) \<le> 2 ^ 53"
  shows "\<exists>a. averageFillPrice (wholeFills fs) = Some (js_string (Fin a)) \<and> of_int lo \<le> a \<and> a \<le> of_int hi
    \<and> a = round64 (of_int (sum_list (map (\<lambda>(p, q). p * q) fs)) / of_int (sum_list (map snd fs)))"
proof -
  let ?N = "sum_list (map (\<lambda>(p, q). p * q) fs)" and ?S = "sum_list (map snd fs)"
  have totals: "fillTotals 0 0 (wholeFills fs) = Some (Fin (of_int ?N), Fin (of_int ?S))"
    using fillTotals_whole[of fs 0 0] assms(2-6) by (force simp: list_all_iff zero_jsnum_def)
  have bounds: "lo * sum_list (map snd gs) \<le> sum_list (map (\<lambda>(p, q). p * q) gs) \<and>
    sum_list (map (\<lambda>(p, q). p * q) gs) \<le> hi * sum_list (map snd gs) \<and> (gs \<noteq> [] \<longrightarrow> 0 < sum_list (map snd gs)) \<and> 0 \<le> sum_list (map snd gs)"
    if "list_all (\<lambda>(p, q). lo \<le> p \<and> p \<le> hi \<and> 0 < q) gs" for gs
    using that by (induction gs) (auto simp: distrib_left mult_right_mono intro!: add_mono)
  note b = bounds[OF assms(2)]
  have S: "0 < ?S" using b assms(1) by blast
  let ?r = "of_int ?N / of_int ?S :: rat"
  have "of_int lo * of_int ?S \<le> (of_int ?N :: rat)" "(of_int ?N :: rat) \<le> of_int hi * of_int ?S"
    using b by (metis of_int_le_iff of_int_mult)+
  then have r: "of_int lo \<le> ?r" "?r \<le> of_int hi" using S by (simp_all add: pos_le_divide_eq pos_divide_le_eq)
  have "(of_int lo :: rat) \<le> of_int hi" using r by linarith
  then have hi: "\<bar>hi\<bar> \<le> 2 ^ 53" "\<bar>lo\<bar> \<le> 2 ^ 53" using assms(3,4) by simp_all
  have a: "of_int lo \<le> round64 ?r" "round64 ?r \<le> of_int hi"
    using round64_mono[OF r(1)] round64_mono[OF r(2)] round64_of_int[OF hi(1)] round64_of_int[OF hi(2)] by simp_all
  have "js ?r = Fin (round64 ?r)"
  proof (rule js_bounded)
    have "(0::rat) \<le> of_int lo" "(of_int hi :: rat) \<le> of_int (2 ^ 53)" using assms(3,4) by (simp_all only: of_int_0_le_iff of_int_le_iff)
    then show "\<bar>?r\<bar> \<le> of_int (2 ^ 53)" using r by linarith
    show "binary64 (of_int (2 ^ 53))" by (rule binary64_of_int) simp
    have "(2::rat) ^ 53 < 2 ^ 1024" by (rule power_strict_increasing) auto
    then show "of_int (2 ^ 53) < (2 ^ 1024 :: rat)" by simp
  qed
  moreover have "Fin (of_int ?N) / Fin (of_int ?S) = js ?r" using S by (simp add: divide_jsnum_def)
  moreover have "(Fin (of_int ?S) \<le> 0) = False" using S by (simp add: zero_jsnum_def)
  ultimately have "averageFillPrice (wholeFills fs) = Some (js_string (Fin (round64 ?r)))"
    by (simp only: averageFillPrice_def totals option.case prod.case if_False)
  then show ?thesis using a by blast
qed

lemma average_price_is_weighted_witness:
  "\<exists>a. averageFillPrice (wholeFills [(95, 9), (99, 1)]) = Some (js_string (Fin a)) \<and> 95 \<le> a \<and> a \<le> 99 \<and> a = round64 (954 / 10)"
  using average_price_is_weighted[of "[(95, 9), (99, 1)]" 95 99] by simp

section \<open>The price of an order\<close>

lemma fillsByOrder_bucket:
  "map_of (fillsByOrder fills) k =
     (let own = filter (\<lambda>f. fv_orderId f = k) fills in if own = [] then None else Some own)"
proof (induction fills rule: rev_induct)
  case (snoc f fills)
  have "fillsByOrder (fills @ [f]) = addToBucket (fillsByOrder fills) f" by (simp add: fillsByOrder_def)
  then show ?case using snoc by (auto simp: addToBucket_def update_conv' Let_def split: option.splits)
qed (simp add: fillsByOrder_def)

text \<open>
  The price shown for a finished order is its limit, or the average over exactly its own fills on
  the first page; the pages loaded later never change it.
\<close>

theorem order_priced_by_first_page:
  assumes "startLoad True h0 = (h, Some mine)" "(row, market) \<in> set (concat orders)" "isHistoricalOrder row"
  shows "\<exists>fs os ho. hs_state (moreOk markets mine later (loadOk markets mine page orders h)) = HistoryReady fs os
    \<and> ho \<in> set os \<and> ho_row ho = row \<and> ho_market ho = market
    \<and> ho_displayPrice ho = (if rc_orderType row = Limit then Some (rc_price row)
         else averageFillPrice (map (\<lambda>f. (fv_price f, fv_qty f)) (filter (\<lambda>f. fv_orderId f = rc_id row) (fst page))))"
proof -
  have g: "hs_generation h = mine" using assms(1) by (auto simp: startLoad_def Let_def)
  let ?own = "case map_of (fillsByOrder (fst page)) (rc_id row) of None \<Rightarrow> [] | Some b \<Rightarrow> b"
  define ho where "ho = \<lparr>ho_row = row, ho_market = market,
    ho_displayPrice = historyPrice (rc_orderType row) (rc_price row) (map (\<lambda>f. (fv_price f, fv_qty f)) ?own)\<rparr>"
  have "ho \<in> set (historyOrders (fst page) orders)"
    unfolding historyOrders_def Let_def sort_by_set set_map ho_def
    by (rule image_eqI[of _ _ "(row, market)"]) (use assms(2,3) in auto)
  moreover have "?own = filter (\<lambda>f. fv_orderId f = rc_id row) (fst page)" by (simp add: fillsByOrder_bucket Let_def)
  ultimately show ?thesis using g
    by (auto simp: moreOk_def loadOk_def Let_def ho_def historyPrice_def)
qed

definition sol_market :: Market where
  "sol_market = \<lparr>mk_id = ''m'', mk_slug = ''SOL-USD'', mk_base = ''SOL'', mk_quote = ''USD'', mk_binanceSymbol = ''SOLUSDT'',
     mk_priceDecimals = 2, mk_sizeDecimals = 2, mk_tickSize = Fin (1 / 100), mk_maxLeverage = Fin 10\<rparr>"

lemma order_priced_by_first_page_witness:
  "\<exists>row. rc_id row = ''o'' \<and> (\<exists>fs os ho. hs_state (moreOk [] 1 ([], None) (loadOk [] 1 ([], Some ''c'') [[(row, sol_market)]]
      (fst (startLoad True mounted_history)))) = HistoryReady fs os \<and> ho \<in> set os \<and> ho_row ho = row \<and> ho_displayPrice ho = averageFillPrice [])"
proof -
  define row where "row = \<lparr>rc_id = ''o'', rc_userId = ''u'', rc_marketId = ''m'', rc_positionType = LONG, rc_orderType = EngineTypes.Market,
    rc_status = Filled, rc_qty = ''1'', rc_filledQty = ''1'', rc_price = ''0'', rc_slippage = Fin 1, rc_initialMargin = ''1'',
    rc_createdAt = ''2026-08-30T10:00:00.000Z'', rc_updatedAt = ''2026-08-30T10:00:00.000Z''\<rparr>"
  have s: "startLoad True mounted_history = (fst (startLoad True mounted_history), Some 1)"
    by (simp add: startLoad_def Let_def mounted_history_def)
  have "(row, sol_market) \<in> set (concat [[(row, sol_market)]])" "isHistoricalOrder row"
    by (simp_all add: row_def isHistoricalOrder_def)
  from order_priced_by_first_page[OF s this, of "[]" "([], None)" "([], Some ''c'')"] show ?thesis
    by (intro exI[of _ row]) (auto simp: row_def)
qed

section \<open>A page of another time\<close>

text \<open>
  A page asked for while a refresh is on its way belongs to the same generation: it is appended to the
  refreshed rows with the cursor of the rows before, and its own cursor replaces the refreshed one. What
  was traded in between, and pushed off the first page, is on no page of the tab.
\<close>

theorem page_of_another_time_is_appended:
  assumes "hs_hasRows h" "hs_cursor h = Some c" "c \<noteq> []"
    and "startLoad True h = (h1, Some m1)" "startMore h1 = (h2, Some (c', m2))"
  shows "c' = c"
    "hs_cursor (moreOk markets m2 old (loadOk markets m1 new orders h2)) = snd old"
    "hs_state (moreOk markets m2 old (loadOk markets m1 new orders h2)) =
      HistoryReady (appendPage markets (fst old) (sortFills (map (fillRow markets) (fst new)))) (historyOrders (fst new) orders)"
proof -
  have h1: "h1 = h\<lparr>hs_generation := hs_generation h + 1\<rparr>" "m1 = hs_generation h + 1" using assms(1,4) by (auto simp: startLoad_def Let_def)
  have h2: "h2 = h1\<lparr>hs_loadingMore := True\<rparr>" "c' = c" "m2 = hs_generation h1"
    using assms(2,3,5) h1 by (auto simp: startMore_def truthy_def split: option.splits list.splits)
  show "c' = c" by (rule h2(2))
  show "hs_cursor (moreOk markets m2 old (loadOk markets m1 new orders h2)) = snd old"
    "hs_state (moreOk markets m2 old (loadOk markets m1 new orders h2)) =
      HistoryReady (appendPage markets (fst old) (sortFills (map (fillRow markets) (fst new)))) (historyOrders (fst new) orders)"
    by (simp_all add: moreOk_def loadOk_def Let_def h2 h1)
qed

end
