(* ===== verification/Money.thy ===== *)
theory Money
  imports JsMath
begin

text \<open>
  Money strings in the browser: \<open>apps/web/lib/money.ts\<close>, whole. A money string is parsed into its digits
  and the number of them behind the point; the sum is taken over integers of the widest scale.
\<close>

section \<open>Parsing\<close>

record Parsed =
  pa_negative :: bool
  pa_digits :: string
  pa_scale :: nat

text \<open>
  The expression of \<open>parse\<close>, on the string behind an optional minus sign: digits, and then maybe a
  point with at least one digit behind it.
\<close>

definition decimalPattern :: "string \<Rightarrow> bool" where
  "decimalPattern s =
     (let rest = dropWhile is_digit s
      in rest = [] \<or> (take 1 rest = ''.'' \<and> drop 1 rest \<noteq> [] \<and> list_all is_digit (drop 1 rest)))"

definition parse :: "string \<Rightarrow> Parsed option" where
  "parse v =
     (let trimmed = trim v;
          negative = (take 1 trimmed = ''-'');
          unsigned = (if negative then drop 1 trimmed else trimmed);
          whole = takeWhile (\<lambda>c. c \<noteq> CHR ''.'') unsigned;
          fraction = drop 1 (dropWhile (\<lambda>c. c \<noteq> CHR ''.'') unsigned)
      in if \<not> decimalPattern unsigned \<or> trimmed = [] \<or> trimmed = ''-'' then None
         else Some \<lparr>pa_negative = negative, pa_digits = whole @ fraction, pa_scale = length fraction\<rparr>)"

section \<open>Scaled integers\<close>

text \<open>\<open>BigInt\<close> of the empty string is zero, as the code spells out.\<close>

definition toScaled :: "Parsed \<Rightarrow> nat \<Rightarrow> int" where
  "toScaled parsed scale =
     (let padded = pa_digits parsed @ replicate (scale - pa_scale parsed) (CHR ''0'');
          magnitude = int (nat_of_digits (if padded = [] then ''0'' else padded))
      in if pa_negative parsed then - magnitude else magnitude)"

definition fromScaled :: "int \<Rightarrow> nat \<Rightarrow> string" where
  "fromScaled v scale =
     (let negative = v < 0;
          ds = digits_of (nat \<bar>v\<bar>);
          digits = replicate (scale + 1 - length ds) (CHR ''0'') @ ds;
          whole = take (length digits - scale) digits;
          fraction = (if scale > 0 then drop (length digits - scale) digits else [])
      in (if negative then ''-'' else []) @ whole @ (if fraction \<noteq> [] then ''.'' @ fraction else []))"

definition addMoney :: "string list \<Rightarrow> string option" where
  "addMoney values =
     (let parsed = map parse values
      in if None \<in> set parsed then None
         else
           (let ps = map the parsed;
                scale = foldl max 0 (map pa_scale ps);
                sum = foldl (\<lambda>s p. s + toScaled p scale) 0 ps
            in Some (fromScaled sum scale)))"

section \<open>What a money string means\<close>

text \<open>The number a parsed string stands for, and that of a money string.\<close>

definition parsed_value :: "Parsed \<Rightarrow> rat" where
  "parsed_value p = (if pa_negative p then - 1 else 1) * of_nat (nat_of_digits (pa_digits p)) / 10 ^ pa_scale p"

definition money_value :: "string \<Rightarrow> rat option" where
  "money_value s = map_option parsed_value (parse s)"

definition money_scale :: "string \<Rightarrow> nat" where
  "money_scale s = (case parse s of None \<Rightarrow> 0 | Some p \<Rightarrow> pa_scale p)"

lemma toScaled_value:
  assumes "pa_scale p \<le> scale" shows "of_int (toScaled p scale) = parsed_value p * 10 ^ scale"
proof -
  have "(10::rat) ^ scale = 10 ^ pa_scale p * 10 ^ (scale - pa_scale p)" using assms by (simp flip: power_add)
  moreover have "nat_of_digits (if x = [] then ''0'' else x) = nat_of_digits x" for x
    by (simp add: nat_of_digits_def digit_val_def)
  ultimately show ?thesis by (simp add: toScaled_def Let_def parsed_value_def nat_of_digits_zeros)
qed

section \<open>Printing and parsing again\<close>

lemma trim_unspaced: "\<forall>c \<in> set s. \<not> is_space c \<Longrightarrow> trim s = s"
proof -
  assume "\<forall>c \<in> set s. \<not> is_space c"
  then have "dropWhile is_space s = s" "dropWhile is_space (rev s) = rev s"
    by (metis dropWhile_eq_self_iff hd_in_set, metis dropWhile_eq_self_iff hd_in_set set_rev)
  then show ?thesis by (simp add: trim_def)
qed

lemma digit_unspaced: "is_digit c \<Longrightarrow> \<not> is_space c" "\<not> is_space (CHR ''-'')" "\<not> is_space (CHR ''.'')"
  by (auto simp: is_digit_def is_space_def)

lemma parse_decimal:
  assumes ds: "list_all is_digit w" "list_all is_digit f" "w \<noteq> []"
  shows "parse ((if n then ''-'' else []) @ w @ (if f \<noteq> [] then ''.'' @ f else [])) =
    Some \<lparr>pa_negative = n, pa_digits = w @ f, pa_scale = length f\<rparr>"
proof -
  define u where "u = w @ (if f \<noteq> [] then ''.'' @ f else [])"
  define s where "s = (if n then ''-'' else []) @ u"
  have dot: "c \<noteq> CHR ''.''" "c \<noteq> CHR ''-''" if "is_digit c" for c using that by auto
  have "\<forall>c \<in> set s. \<not> is_space c" using ds digit_unspaced by (auto simp: s_def u_def list_all_iff)
  then have t: "trim s = s" by (rule trim_unspaced)
  obtain c w' where w: "w = c # w'" "is_digit c" using ds by (cases w) auto
  have neg: "take 1 s = ''-'' \<longleftrightarrow> n" "(if n then drop 1 s else s) = u" "s \<noteq> []" "s \<noteq> ''-''"
    using w dot(2)[OF w(2)] by (auto simp: s_def u_def)
  have "dropWhile is_digit u = (if f \<noteq> [] then ''.'' @ f else [])"
    using ds by (simp add: u_def takeWhile_digits takeWhile_digits_app)
  then have pat: "decimalPattern u" using ds by (simp add: decimalPattern_def Let_def)
  have "takeWhile (\<lambda>c. c \<noteq> CHR ''.'') (w @ x) = w @ takeWhile (\<lambda>c. c \<noteq> CHR ''.'') x"
    "dropWhile (\<lambda>c. c \<noteq> CHR ''.'') (w @ x) = dropWhile (\<lambda>c. c \<noteq> CHR ''.'') x" for x
    using ds(1) dot(1) by (simp_all add: list_all_iff takeWhile_append dropWhile_append)
  then have "takeWhile (\<lambda>c. c \<noteq> CHR ''.'') u = w" "drop 1 (dropWhile (\<lambda>c. c \<noteq> CHR ''.'') u) = f"
    by (simp_all add: u_def)
  then have "parse s = Some \<lparr>pa_negative = n, pa_digits = w @ f, pa_scale = length f\<rparr>"
    unfolding parse_def Let_def t neg(1,2) using neg(3,4) pat by simp
  then show ?thesis by (simp only: s_def u_def)
qed

lemma parse_fromScaled:
  "\<exists>p. parse (fromScaled v scale) = Some p \<and> pa_scale p = scale \<and> pa_negative p = (v < 0)
     \<and> nat_of_digits (pa_digits p) = nat \<bar>v\<bar>"
proof -
  define ds where "ds = replicate (scale + 1 - length (digits_of (nat \<bar>v\<bar>))) (CHR ''0'') @ digits_of (nat \<bar>v\<bar>)"
  have nat_ds: "nat_of_digits ds = nat \<bar>v\<bar>" by (simp add: ds_def nat_of_zeros_digits)
  have D: "list_all is_digit ds" using digits_of_digits by (auto simp: ds_def list_all_iff)
  have len: "scale < length ds" by (simp add: ds_def)
  let ?w = "take (length ds - scale) ds" and ?f = "drop (length ds - scale) ds"
  have D': "list_all is_digit ?w" "list_all is_digit ?f"
    using D by (auto simp: list_all_iff dest: in_set_takeD in_set_dropD)
  have "(if scale > 0 then ?f else []) = ?f" by simp
  then have s: "fromScaled v scale = (if v < 0 then ''-'' else []) @ ?w @ (if ?f \<noteq> [] then ''.'' @ ?f else [])"
    unfolding fromScaled_def Let_def ds_def[symmetric] by simp
  have "?w \<noteq> []" using len by (cases ds) auto
  from parse_decimal[OF D' this, of "v < 0"] show ?thesis unfolding s
    unfolding append_take_drop_id using len nat_ds by simp
qed

lemma money_fromScaled: "money_value (fromScaled v scale) = Some (of_int v / 10 ^ scale)" "money_scale (fromScaled v scale) = scale"
proof -
  obtain p where p: "parse (fromScaled v scale) = Some p" "pa_scale p = scale" "pa_negative p = (v < 0)"
    "nat_of_digits (pa_digits p) = nat \<bar>v\<bar>" using parse_fromScaled by blast
  have "of_nat (nat \<bar>v\<bar>) = (of_int \<bar>v\<bar> :: rat)" by simp
  then show "money_value (fromScaled v scale) = Some (of_int v / 10 ^ scale)" "money_scale (fromScaled v scale) = scale"
    using p by (simp_all add: money_value_def money_scale_def parsed_value_def)
qed

section \<open>Sums\<close>

definition sum_scale :: "string list \<Rightarrow> nat" where
  "sum_scale values = foldl max 0 (map money_scale values)"

lemma foldl_max_ge: "(a::nat) \<le> foldl max a xs" "x \<in> set xs \<Longrightarrow> x \<le> foldl max a xs"
  by (induction xs arbitrary: a) (auto, meson max.bounded_iff, (meson max.bounded_iff)+)

lemma addMoney_sum:
  assumes "\<forall>v \<in> set values. parse v \<noteq> None"
  shows "\<exists>n. addMoney values = Some (fromScaled n (sum_scale values))
    \<and> of_int n = sum_list (map (the \<circ> money_value) values) * 10 ^ sum_scale values"
proof -
  have notNone: "None \<notin> set (map parse values)" using assms by force
  have sc: "map pa_scale (map the (map parse values)) = map money_scale values"
    using assms by (auto simp: money_scale_def split: option.split)
  have F: "of_int (foldl (\<lambda>s p. s + toScaled p k) a ps) = of_int a + sum_list (map parsed_value ps) * 10 ^ k"
    if "\<forall>p \<in> set ps. pa_scale p \<le> k" for k a ps
    using that by (induction ps arbitrary: a) (auto simp: toScaled_value distrib_right)
  have B: "\<forall>p \<in> set (map the (map parse values)). pa_scale p \<le> sum_scale values"
    unfolding sum_scale_def sc[symmetric] using foldl_max_ge(2) by auto
  have M: "map parsed_value (map the (map parse values)) = map (the \<circ> money_value) values"
    unfolding map_map using assms by (intro map_cong) (auto simp: money_value_def option.map_sel)
  have "of_int (foldl (\<lambda>s p. s + toScaled p (sum_scale values)) 0 (map the (map parse values))) =
    sum_list (map (the \<circ> money_value) values) * 10 ^ sum_scale values" unfolding F[OF B] M by simp
  moreover have "addMoney values =
    Some (fromScaled (foldl (\<lambda>s p. s + toScaled p (sum_scale values)) 0 (map the (map parse values))) (sum_scale values))"
    using notNone by (simp add: addMoney_def Let_def sum_scale_def sc flip: map_map)
  ultimately show ?thesis by blast
qed

lemma addMoney_None: "addMoney values = None \<longleftrightarrow> (\<exists>v \<in> set values. parse v = None)"
proof -
  have "None \<in> parse ` set values \<longleftrightarrow> (\<exists>v \<in> set values. parse v = None)" by (metis (no_types) imageE imageI)
  then show ?thesis by (simp add: addMoney_def Let_def)
qed

end
