(* ===== verification/Account.thy ===== *)
theory Account
  imports Money EngineTypes
begin

text \<open>
  The account snapshot of the header: the state of \<open>apps/web/lib/account.tsx\<close>. What the provider does
  when a request starts, answers or fails, when events arrive and when a deposit is confirmed are
  functions of the state; the requests and the session are their arguments.
\<close>

record AccountSnapshot =
  as_equity :: string
  as_available :: string
  as_marginUsed :: string

datatype AccountState = AccountLoading | AccountReady AccountSnapshot | AccountError string

text \<open>The snapshot of a pair of figures: \<open>addMoney(\<dots>) ?? available\<close>.\<close>

definition snapshotOf :: "string \<Rightarrow> string \<Rightarrow> AccountSnapshot" where
  "snapshotOf av lk =
     \<lparr>as_equity = (case addMoney [av, lk] of None \<Rightarrow> av | Some e \<Rightarrow> e), as_available = av, as_marginUsed = lk\<rparr>"

text \<open>\<open>load\<close>, up to the request, its answer and its failure; \<open>silent\<close> is an error the interceptor handles.\<close>

definition loadStarts :: "AccountState \<Rightarrow> AccountState" where
  "loadStarts prev = (case prev of AccountReady d \<Rightarrow> prev | _ \<Rightarrow> AccountLoading)"

definition loadAnswers :: "string \<times> string \<Rightarrow> AccountState" where
  "loadAnswers balances = AccountReady (snapshotOf (fst balances) (snd balances))"

definition loadFails :: "bool \<Rightarrow> string option \<Rightarrow> AccountState \<Rightarrow> AccountState" where
  "loadFails silent message prev =
     (if silent then prev
      else AccountError (case message of Some m \<Rightarrow> m | None \<Rightarrow> ''Could not load balances.''))"

text \<open>A batch of events: the last balance in it, if the snapshot has been loaded.\<close>

fun isBalance :: "TUserEvent \<Rightarrow> bool" where
  "isBalance (BalanceEvent av lk) = True"
| "isBalance _ = False"

definition onEvents :: "TUserEvent list \<Rightarrow> AccountState \<Rightarrow> AccountState" where
  "onEvents events prev =
     (case find isBalance (rev events) of
        Some (BalanceEvent av lk) \<Rightarrow> (case prev of AccountReady d \<Rightarrow> AccountReady (snapshotOf av lk) | _ \<Rightarrow> prev)
      | _ \<Rightarrow> prev)"

definition applyDeposit :: "string \<Rightarrow> AccountState \<Rightarrow> AccountState" where
  "applyDeposit av prev =
     (case prev of AccountReady d \<Rightarrow> AccountReady (snapshotOf av (as_marginUsed d)) | _ \<Rightarrow> prev)"

definition marginSplit :: "AccountSnapshot \<Rightarrow> jsnum \<times> jsnum" where
  "marginSplit d = (js_parse_float (as_marginUsed d), js_parse_float (as_available d))"

section \<open>The provider and its requests\<close>

text \<open>
  The provider with the session and the number of requests that wait for an answer. \<open>load\<close> runs when the
  session is there, on every reconnect of the channel and when the user retries; the effect on the
  session clears the state when nobody is signed in.
\<close>

record account_panel =
  ap_authed :: bool
  ap_state :: AccountState
  ap_loads :: nat

definition load :: "account_panel \<Rightarrow> account_panel" where
  "load p =
     (if \<not> ap_authed p then p else p\<lparr>ap_state := loadStarts (ap_state p), ap_loads := ap_loads p + 1\<rparr>)"

inductive account_reachable :: "account_panel \<Rightarrow> bool" where
  mount: "account_reachable \<lparr>ap_authed = False, ap_state = AccountLoading, ap_loads = 0\<rparr>"
| sign_in: "account_reachable p \<Longrightarrow> account_reachable (load (p\<lparr>ap_authed := True\<rparr>))"
| sign_out: "account_reachable p \<Longrightarrow> account_reachable (p\<lparr>ap_authed := False, ap_state := AccountLoading\<rparr>)"
| resync: "account_reachable p \<Longrightarrow> account_reachable (load p)"
| answered: "account_reachable p \<Longrightarrow> 0 < ap_loads p \<Longrightarrow>
    account_reachable (p\<lparr>ap_state := loadAnswers balances, ap_loads := ap_loads p - 1\<rparr>)"
| failed: "account_reachable p \<Longrightarrow> 0 < ap_loads p \<Longrightarrow>
    account_reachable (p\<lparr>ap_state := loadFails silent message (ap_state p), ap_loads := ap_loads p - 1\<rparr>)"
| events: "account_reachable p \<Longrightarrow> account_reachable (p\<lparr>ap_state := onEvents evs (ap_state p)\<rparr>)"
| deposit: "account_reachable p \<Longrightarrow> account_reachable (p\<lparr>ap_state := applyDeposit av (ap_state p)\<rparr>)"

end
