(* ===== verification/MoneyProperties.thy ===== *)
theory MoneyProperties
  imports Account EventProperties
begin

text \<open>
  Sums of money strings are exact, mean what the language reads, and do not depend on how they are
  grouped; the header of the browser shows the collateral the engine has; what it shows when a figure
  is so small that it is printed with an exponent.
\<close>

section \<open>The number of a money string\<close>

lemma decimalPattern_split:
  assumes "decimalPattern s"
  obtains w f where "s = w @ (if f \<noteq> [] then ''.'' @ f else [])" "list_all is_digit w" "list_all is_digit f"
proof -
  have w: "s = takeWhile is_digit s @ dropWhile is_digit s" "list_all is_digit (takeWhile is_digit s)"
    by (simp, auto simp: list_all_iff dest: set_takeWhileD)
  show thesis
  proof (cases "dropWhile is_digit s")
    case Nil
    then show thesis using that[of s "[]"] w by (simp add: dropWhile_eq_Nil_conv list_all_iff)
  next
    case (Cons c t)
    then have "c = CHR ''.''" "t \<noteq> []" "list_all is_digit t" using assms by (auto simp: decimalPattern_def)
    then show thesis using that[of "takeWhile is_digit s" t] w Cons by simp
  qed
qed

lemma js_unsigned_decimal:
  assumes "list_all is_digit w" "list_all is_digit f" "w @ f \<noteq> []"
  shows "js_unsigned (w @ (if f \<noteq> [] then ''.'' @ f else [])) = Some (of_nat (nat_of_digits (w @ f)) / 10 ^ length f)"
proof -
  have p: "(10::rat) powi (- int (length f)) = 1 / 10 ^ length f" by (simp add: power_int_minus inverse_eq_divide)
  show ?thesis
  proof (cases "f = []")
    case True
    then show ?thesis using assms by (simp add: js_unsigned_def Let_def takeWhile_digits)
  next
    case False
    then show ?thesis using assms p
      by (simp add: js_unsigned_def Let_def takeWhile_digits takeWhile_digits_app)
  qed
qed

lemma parse_number:
  assumes "parse s = Some p" shows "js_number s = js (parsed_value p)"
proof -
  define t where "t = trim s"
  define u where "u = (if take 1 t = ''-'' then drop 1 t else t)"
  define whole where "whole = takeWhile (\<lambda>c. c \<noteq> CHR ''.'') u"
  define fraction where "fraction = drop 1 (dropWhile (\<lambda>c. c \<noteq> CHR ''.'') u)"
  have p: "decimalPattern u" "t \<noteq> []" "t \<noteq> ''-''"
    "p = \<lparr>pa_negative = (take 1 t = ''-''), pa_digits = whole @ fraction, pa_scale = length fraction\<rparr>"
    using assms by (simp_all add: parse_def Let_def t_def u_def whole_def fraction_def split: if_splits)
  obtain w f where wf: "u = w @ (if f \<noteq> [] then ''.'' @ f else [])" "list_all is_digit w" "list_all is_digit f"
    using decimalPattern_split[OF p(1)] by blast
  have nd: "\<forall>c \<in> set w. c \<noteq> CHR ''.''" using wf(2) by (auto simp: list_all_iff)
  have parts: "whole = w" "fraction = f"
    using nd by (simp_all add: whole_def fraction_def wf(1) takeWhile_append dropWhile_append)
  have ne: "w @ f \<noteq> []"
  proof
    assume "w @ f = []"
    then have "u = []" using wf(1) by simp
    then show False using p(2,3) by (cases t) (auto simp: u_def split: if_splits)
  qed
  have v: "js_unsigned u = Some \<bar>parsed_value p\<bar>"
    using js_unsigned_decimal[OF wf(2,3) ne] wf(1) by (simp add: p(4) parts parsed_value_def abs_divide)
  have c: "hd u \<noteq> CHR ''-''" "hd u \<noteq> CHR ''+''" "hd u \<noteq> CHR ''I''" "u \<noteq> []"
    "take 2 u \<noteq> ''0x''" "take 2 u \<noteq> ''0X''" "take 2 u \<noteq> ''0o''" "take 2 u \<noteq> ''0O''" "take 2 u \<noteq> ''0b''" "take 2 u \<noteq> ''0B''"
  proof -
    have plain: "c = CHR ''.'' \<or> is_digit c" if "c \<in> set u" for c
      using that wf by (auto simp: list_all_iff split: if_splits)
    show "u \<noteq> []" using ne wf(1) by auto
    then have "hd u = CHR ''.'' \<or> is_digit (hd u)" using plain hd_in_set by blast
    then show "hd u \<noteq> CHR ''-''" "hd u \<noteq> CHR ''+''" "hd u \<noteq> CHR ''I''" by (auto simp: is_digit_def)
    have "take 2 u \<noteq> [c, d]" if "d \<noteq> CHR ''.''" "\<not> is_digit d" for c d
      using plain[of d] that in_set_takeD[of d 2 u] by (metis list.set_intros)
    then show "take 2 u \<noteq> ''0x''" "take 2 u \<noteq> ''0X''" "take 2 u \<noteq> ''0o''" "take 2 u \<noteq> ''0O''" "take 2 u \<noteq> ''0b''" "take 2 u \<noteq> ''0B''"
      by (simp_all add: is_digit_def)
  qed
  show ?thesis
  proof (cases "take 1 t = ''-''")
    case True
    then have t: "t = CHR ''-'' # u" by (cases t) (auto simp: u_def)
    have "u \<noteq> ''Infinity''" using c(3) by auto
    then have "js_number s = - js \<bar>parsed_value p\<bar>" using v t by (simp add: js_number_def Let_def t_def[symmetric])
    also have "\<dots> = js (- \<bar>parsed_value p\<bar>)" by (simp add: js_minus)
    also have "- \<bar>parsed_value p\<bar> = parsed_value p" using True by (simp add: p(4) parsed_value_def abs_divide)
    finally show ?thesis .
  next
    case False
    then have t: "t = u" by (simp add: u_def)
    obtain a b where ab: "u = a # b" using c(4) by (cases u) auto
    have "u \<noteq> ''Infinity''" using c(3) by auto
    then have "js_number s = js \<bar>parsed_value p\<bar>" using v t c ab by (auto simp: js_number_def Let_def t_def[symmetric])
    also have "\<bar>parsed_value p\<bar> = parsed_value p" using False by (simp add: p(4) parsed_value_def abs_divide)
    finally show ?thesis .
  qed
qed

section \<open>The properties\<close>

text \<open>
  The total of money strings is exact: it exists exactly when every string is a decimal number, it
  is the sum of the numbers, has as many places as the widest of them, and what the language reads
  from it is the sum rounded once.
\<close>

theorem addMoney_is_exact:
  assumes "\<forall>v \<in> set values. money_value v \<noteq> None"
  shows "\<exists>res. addMoney values = Some res
    \<and> money_value res = Some (sum_list (map (the \<circ> money_value) values))
    \<and> money_scale res = sum_scale values
    \<and> js_number res = js (sum_list (map (the \<circ> money_value) values))"
proof -
  have "\<forall>v \<in> set values. parse v \<noteq> None" using assms by (simp add: money_value_def)
  then obtain n where n: "addMoney values = Some (fromScaled n (sum_scale values))"
    "of_int n = sum_list (map (the \<circ> money_value) values) * 10 ^ sum_scale values"
    using addMoney_sum by blast
  obtain p where p: "parse (fromScaled n (sum_scale values)) = Some p" using parse_fromScaled by blast
  have v: "money_value (fromScaled n (sum_scale values)) = Some (sum_list (map (the \<circ> money_value) values))"
    by (simp add: money_fromScaled n(2))
  then have "parsed_value p = sum_list (map (the \<circ> money_value) values)" using p by (simp add: money_value_def)
  then show ?thesis using n(1) v parse_number[OF p] by (simp add: money_fromScaled)
qed

lemma addMoney_is_exact_witness:
  "\<exists>res. addMoney [''0.1'', ''0.2'', ''-1''] = Some res \<and> money_value res = Some (- 7 / 10)"
proof -
  have "money_value ''0.1'' = Some (1 / 10)" "money_value ''0.2'' = Some (2 / 10)" "money_value ''-1'' = Some (- 1)"
    by (simp_all add: money_value_def parse_def trim_def is_space_def decimalPattern_def is_digit_def parsed_value_def
        nat_of_digits_def digit_val_def)
  then have "\<forall>v \<in> set [''0.1'', ''0.2'', ''-1'']. money_value v \<noteq> None"
    "sum_list (map (the \<circ> money_value) [''0.1'', ''0.2'', ''-1'']) = - 7 / 10" by (simp_all del: not_None_eq)
  then show ?thesis using addMoney_is_exact[of "[''0.1'', ''0.2'', ''-1'']"] by metis
qed

text \<open>
  Grouping does not matter, to the last character: adding more strings to a total is adding them
  all at once.
\<close>

theorem addMoney_regroups:
  assumes "addMoney xs = Some res" shows "addMoney (res # ys) = addMoney (xs @ ys)"
proof (cases "\<forall>y \<in> set ys. parse y \<noteq> None")
  case True
  have xs: "\<forall>x \<in> set xs. parse x \<noteq> None" using assms addMoney_None[of xs] by auto
  obtain n where n: "res = fromScaled n (sum_scale xs)"
    "of_int n = sum_list (map (the \<circ> money_value) xs) * 10 ^ sum_scale xs"
    using addMoney_sum[OF xs] assms by auto
  have p: "parse res \<noteq> None" "the (money_value res) = sum_list (map (the \<circ> money_value) xs)" "money_scale res = sum_scale xs"
    using parse_fromScaled[of n "sum_scale xs"] n by (auto simp: money_fromScaled)
  have sc: "sum_scale (res # ys) = sum_scale (xs @ ys)" using p(3) by (simp add: sum_scale_def)
  obtain a where a: "addMoney (res # ys) = Some (fromScaled a (sum_scale (xs @ ys)))"
    "of_int a = sum_list (map (the \<circ> money_value) (res # ys)) * 10 ^ sum_scale (xs @ ys)"
    using addMoney_sum[of "res # ys"] True p(1) sc by auto
  obtain b where b: "addMoney (xs @ ys) = Some (fromScaled b (sum_scale (xs @ ys)))"
    "of_int b = sum_list (map (the \<circ> money_value) (xs @ ys)) * 10 ^ sum_scale (xs @ ys)"
    using addMoney_sum[of "xs @ ys"] True xs by auto
  have "(of_int a :: rat) = of_int b" unfolding a(2) b(2) using p(2) by simp
  then show ?thesis using a(1) b(1) by simp
next
  case False
  then have "addMoney (res # ys) = None" "addMoney (xs @ ys) = None" by (auto simp: addMoney_None)
  then show ?thesis by simp
qed

lemma addMoney_regroups_witness:
  "\<exists>res. addMoney [''0.1'', ''0.20''] = Some res \<and> addMoney (res # [''2.5'']) = addMoney ([''0.1'', ''0.20''] @ [''2.5''])"
proof -
  have "\<forall>v \<in> set [''0.1'', ''0.20'']. parse v \<noteq> None"
    by (simp add: parse_def trim_def is_space_def decimalPattern_def is_digit_def)
  then obtain res where "addMoney [''0.1'', ''0.20''] = Some res" using addMoney_None by fast
  from this addMoney_regroups[OF this, of "[''2.5'']"] show ?thesis by blast
qed

lemma newOrderEvents_no_balance: "p \<in> set (fst (newOrderEvents rt clock new)) \<Longrightarrow> \<not> isBalance (snd p)"
  by (induction rt clock new rule: newOrderEvents.induct) (auto simp: Let_def split: prod.splits)

lemma find_none: "\<forall>x \<in> set xs. \<not> P x \<Longrightarrow> find P xs = None"
  by (simp add: find_None_iff)

text \<open>What a batch of a match does to the account shown: it depends on the state events alone.\<close>

lemma onEvents_batch:
  assumes "eventsOf (fst (userEventsForMatch rt clock us m fills side updates new)) u \<noteq> []"
  shows "onEvents (eventsOf (fst (userEventsForMatch rt clock us m fills side updates new)) u) (AccountReady shown) =
    (case getUserById us u of
       None \<Rightarrow> AccountReady shown
     | Some user \<Rightarrow> AccountReady (snapshotOf (js_string (available (u_collateral user))) (js_string (locked (u_collateral user)))))"
proof -
  obtain created clock' where c: "newOrderEvents rt (clock + 1) new = (created, clock')" by force
  let ?own = "map snd (filter (\<lambda>p. fst p = u) (created @ map (updateEvent m) updates
    @ concat (map (fillEvents m side (date_now rt clock)) fills)))"
  have "\<forall>ev \<in> set (rev ?own). \<not> isBalance ev"
    using newOrderEvents_no_balance[of _ rt "clock + 1" new] c by (auto simp: updateEvent_def fillEvents_def)
  then have "find isBalance (rev ?own) = None" by (rule find_none)
  then show ?thesis unfolding batch[OF c] if_P[OF batch_ends(1)[OF assms]]
    by (cases "getUserById us u") (simp_all add: onEvents_def stateEventsFor_def)
qed

text \<open>
  C16. The header shows the engine's collateral: after the batch that \<open>placeOrder\<close> sends an account, its
  available and locked figures, and so the equity, are those of the store, whatever was shown before.
\<close>

theorem header_shows_engine_collateral:
  assumes "placeOrder rt payload skip e = Return resp e'" "eventsOf (pr_wsUser resp) u \<noteq> []"
  shows "onEvents (eventsOf (pr_wsUser resp) u) (AccountReady shown) =
    (case getUserById (users (store e')) u of
       None \<Rightarrow> AccountReady shown
     | Some user \<Rightarrow> AccountReady (snapshotOf (js_string (available (u_collateral user))) (js_string (locked (u_collateral user)))))"
proof -
  obtain clock fills side updates new where ev: "pr_wsUser resp =
    fst (userEventsForMatch rt clock (users (store e')) (r_marketId payload) fills side updates new)"
    using placeOrder_events[OF assms(1)] by blast
  show ?thesis unfolding ev by (rule onEvents_batch) (rule assms(2)[unfolded ev])
qed

lemma header_shows_engine_collateral_witness:
  "\<exists>resp e' shown. placeOrder sample_rt sample_payload False sample_engine = Return resp e'
    \<and> onEvents (eventsOf (pr_wsUser resp) ''alice'') (AccountReady shown) =
      (case getUserById (users (store e')) ''alice'' of
         None \<Rightarrow> AccountReady shown
       | Some user \<Rightarrow> AccountReady (snapshotOf (js_string (available (u_collateral user))) (js_string (locked (u_collateral user)))))"
proof -
  obtain resp e' where p: "placeOrder sample_rt sample_payload False sample_engine = Return resp e'"
    using accepted_order[OF sample_ok] sample_accepted by (simp add: sample_engine_def) (metis sample_payload_market sample_market_own)
  have "eventsOf (pr_wsUser resp) ''alice'' \<noteq> []"
    using placeOrder_told[OF p] by (simp add: sample_payload_def)
  from header_shows_engine_collateral[OF p this] p show ?thesis by blast
qed

section \<open>Figures printed with an exponent\<close>

lemma trim_keeps: "c \<in> set s \<Longrightarrow> \<not> is_space c \<Longrightarrow> c \<in> set (trim s)"
proof -
  assume c: "c \<in> set s" "\<not> is_space c"
  have "c \<in> set xs \<Longrightarrow> c \<in> set (dropWhile is_space xs)" for xs
    using c(2) by (induction xs) auto
  then show ?thesis using c(1) by (simp add: trim_def)
qed

lemma parse_exponent:
  assumes "CHR ''e'' \<in> set s" shows "parse s = None"
proof (rule ccontr)
  assume n: "parse s \<noteq> None"
  define t where "t = trim s"
  define u where "u = (if take 1 t = ''-'' then drop 1 t else t)"
  have "decimalPattern u" using n by (auto simp: parse_def Let_def t_def[symmetric] u_def split: if_splits)
  then obtain w f where "u = w @ (if f \<noteq> [] then ''.'' @ f else [])" "list_all is_digit w" "list_all is_digit f"
    using decimalPattern_split by blast
  then have "CHR ''e'' \<notin> set u" by (auto simp: list_all_iff split: if_splits)
  then have "CHR ''e'' \<notin> set t" by (cases t) (auto simp: u_def split: if_splits)
  moreover have "CHR ''e'' \<in> set t" using trim_keeps[OF assms] by (simp add: t_def is_space_def)
  ultimately show False by simp
qed

text \<open>Positive amounts under a ten-millionth are printed with an exponent.\<close>

lemma dust_exponent:
  assumes "0 < x" "x < 1 / 10 ^ 7" "binary64 x" shows "CHR ''e'' \<in> set (js_string (Fin x))"
proof -
  let ?n = "decimal_exponent x"
  obtain k s n' where d: "digits_search x ?n 1 = (k, s, n')" by (metis prod_cases3)
  have c: "digits_candidate x ?n k = Some (s, n')" using digits_search_sound[OF assms(1,3) _ d] by simp
  have "(10::rat) powi (?n - 1) < 10 powi (- 7)"
    using decimal_exponent_bounds(1)[OF assms(1)] assms(2) by (simp add: power_int_minus inverse_eq_divide)
  then have "?n - 1 < - 7" using power_int_increasing[of "- 7" "?n - 1" "10 :: rat"] by fastforce
  moreover have "n' \<le> ?n + 1" using c by (auto simp: digits_candidate_def Let_def split: if_splits)
  ultimately have "n' \<le> - 6" by simp
  then show ?thesis using assms(1) d by (simp add: js_string.simps string_of_pos_def format_decimal_def Let_def)
qed

text \<open>
  An account whose free collateral is dust: the engine sends it with an exponent, the sum is refused,
  and the header shows the dust as the equity, however much margin is in use.
\<close>

theorem dust_hides_the_margin:
  assumes "0 < x" "x < 1 / 10 ^ 7" "binary64 x"
  shows "as_equity (snapshotOf (js_string (Fin x)) lk) = js_string (Fin x)"
  using parse_exponent[OF dust_exponent[OF assms]] addMoney_None[of "[js_string (Fin x), lk]"]
  by (simp add: snapshotOf_def)

section \<open>An answer after the account has left\<close>

text \<open>
  The answer of \<open>load\<close> is applied whatever has happened since it was asked for: the balances of an
  account that has signed out appear in the header of nobody, or of the next account.
\<close>

theorem late_balances_are_shown:
  "\<exists>p. account_reachable p \<and> \<not> ap_authed p \<and> ap_state p = AccountReady (snapshotOf av lk)"
proof -
  define p1 where "p1 = load \<lparr>ap_authed = True, ap_state = AccountLoading, ap_loads = 0\<rparr>"
  have r1: "account_reachable p1" using sign_in[OF mount] by (simp add: p1_def)
  have r2: "account_reachable (p1\<lparr>ap_authed := False, ap_state := AccountLoading\<rparr>)" by (rule sign_out[OF r1])
  have "0 < ap_loads (p1\<lparr>ap_authed := False, ap_state := AccountLoading\<rparr>)" by (simp add: p1_def load_def)
  from answered[OF r2 this, of "(av, lk)"] show ?thesis
    by (intro exI[of _ "p1\<lparr>ap_authed := False, ap_state := loadAnswers (av, lk), ap_loads := 0\<rparr>"])
      (simp add: p1_def load_def loadAnswers_def)
qed

end
