(* ===== verification/OrdersPanel.thy ===== *)
theory OrdersPanel
  imports UserFeed JsDate
begin

text \<open>
  The provider of the open orders: the state of \<open>apps/web/lib/orders.tsx\<close>. A call that waits for an
  answer is split at the wait. A cancel takes the row off the list at once, remembers it, and puts it
  back if the request fails, unless the channel said meanwhile that the order had finished: the object
  it watches is a number here, and the map of cancels in flight leads from the order to it.
\<close>

datatype OrdersState = OrdersLoading | OrdersReady "OpenOrder list" | OrdersError string

record orders_panel =
  op_authed :: bool
  op_state :: OrdersState
  op_generation :: nat
  op_hasRows :: bool
  op_inFlight :: "(string \<times> nat) list"
  op_finished :: "nat list"
  op_cancelling :: "string list"
  op_watches :: nat

definition mounted_orders :: orders_panel where
  "mounted_orders =
     \<lparr>op_authed = False, op_state = OrdersLoading, op_generation = 0, op_hasRows = False, op_inFlight = [],
      op_finished = [], op_cancelling = [], op_watches = 0\<rparr>"

text \<open>The creation time of a row is the text the API sends of it.\<close>

definition newestOrder :: "OpenOrder \<Rightarrow> OpenOrder \<Rightarrow> jsnum" where
  "newestOrder a b =
     (if text_less (toISOString (or_createdAt a)) (toISOString (or_createdAt b)) then Fin 1
      else if text_less (toISOString (or_createdAt b)) (toISOString (or_createdAt a)) then Fin (- 1) else Fin 0)"

definition sortOrders :: "OpenOrder list \<Rightarrow> OpenOrder list" where
  "sortOrders rows = sort_by newestOrder rows"

section \<open>Loading\<close>

definition startOrders :: "orders_panel \<Rightarrow> orders_panel \<times> nat option" where
  "startOrders p =
     (if \<not> op_authed p then (p, None)
      else
        (let mine = op_generation p + 1; p1 = p\<lparr>op_generation := mine\<rparr>
         in (if op_hasRows p then p1 else p1\<lparr>op_state := OrdersLoading\<rparr>, Some mine)))"

definition ordersOk :: "nat \<Rightarrow> OpenOrder list list \<Rightarrow> orders_panel \<Rightarrow> orders_panel" where
  "ordersOk mine perMarket p =
     (if mine \<noteq> op_generation p then p
      else p\<lparr>op_hasRows := True, op_state := OrdersReady (sortOrders (concat perMarket))\<rparr>)"

definition ordersFailed :: "nat \<Rightarrow> bool \<Rightarrow> string option \<Rightarrow> orders_panel \<Rightarrow> orders_panel" where
  "ordersFailed mine silent message p =
     (if mine \<noteq> op_generation p \<or> silent then p
      else p\<lparr>op_hasRows := False,
        op_state := OrdersError (case message of Some m \<Rightarrow> m | None \<Rightarrow> ''Could not load open orders.'')\<rparr>)"

definition ordersSignedOut :: "orders_panel \<Rightarrow> orders_panel" where
  "ordersSignedOut p =
     p\<lparr>op_authed := False, op_generation := op_generation p + 1, op_hasRows := False, op_state := OrdersLoading\<rparr>"

section \<open>Events\<close>

text \<open>One event: the watch of a cancel in flight is told of a status that ends the order.\<close>

definition watchEvent :: "(string \<times> nat) list \<Rightarrow> nat list \<Rightarrow> TUserEvent \<Rightarrow> nat list" where
  "watchEvent inFlight finished event =
     (case event of
        OrderUpdate orderId marketId status filledQty \<Rightarrow>
          (if isResting status then finished
           else (case map_of inFlight orderId of None \<Rightarrow> finished | Some w \<Rightarrow> finished @ [w]))
      | _ \<Rightarrow> finished)"

definition ordersEvents :: "Market list \<Rightarrow> TUserEvent list \<Rightarrow> orders_panel \<Rightarrow> orders_panel" where
  "ordersEvents markets events p =
     (case op_state p of
        OrdersReady orders \<Rightarrow>
          (let rows = foldl (reduceOpenOrders (toRow markets)) orders events;
               p1 = p\<lparr>op_finished := foldl (watchEvent (op_inFlight p)) (op_finished p) events\<rparr>
           in if rows = orders then p1 else p1\<lparr>op_state := OrdersReady (sortOrders rows)\<rparr>)
      | _ \<Rightarrow> p)"

section \<open>Cancelling\<close>

text \<open>A cancel in flight: the order, the row taken off, the watch.\<close>

type_synonym cancel = "string \<times> OpenOrder option \<times> nat"

definition startCancel :: "string \<Rightarrow> orders_panel \<Rightarrow> orders_panel \<times> cancel" where
  "startCancel orderId p =
     (let w = op_watches p;
          removed = (case op_state p of OrdersReady orders \<Rightarrow> find (\<lambda>r. ol_id r = orderId) orders | _ \<Rightarrow> None);
          p1 = p\<lparr>op_watches := w + 1, op_inFlight := AList.update orderId w (op_inFlight p),
                op_cancelling := op_cancelling p @ [orderId]\<rparr>
      in ((case op_state p of
             OrdersReady orders \<Rightarrow>
               if removed = None then p1 else p1\<lparr>op_state := OrdersReady (filter (\<lambda>r. ol_id r \<noteq> orderId) orders)\<rparr>
           | _ \<Rightarrow> p1),
          (orderId, removed, w)))"

definition endCancel :: "string \<Rightarrow> orders_panel \<Rightarrow> orders_panel" where
  "endCancel orderId p =
     p\<lparr>op_inFlight := AList.delete orderId (op_inFlight p),
       op_cancelling := filter (\<lambda>i. i \<noteq> orderId) (op_cancelling p)\<rparr>"

definition cancelOk :: "cancel \<Rightarrow> orders_panel \<Rightarrow> orders_panel" where
  "cancelOk c p = endCancel (fst c) p"

definition cancelFailed :: "cancel \<Rightarrow> orders_panel \<Rightarrow> orders_panel" where
  "cancelFailed c p =
     (case c of
        (orderId, removed, w) \<Rightarrow>
          endCancel orderId
            (case (op_state p, removed) of
               (OrdersReady orders, Some row) \<Rightarrow>
                 if list_ex (\<lambda>r. ol_id r = orderId) orders \<or> w \<in> set (op_finished p) then p
                 else p\<lparr>op_state := OrdersReady (sortOrders (orders @ [row]))\<rparr>
             | _ \<Rightarrow> p))"

section \<open>The provider and its requests\<close>

text \<open>
  The provider with what waits for an answer. The API lists an order once, and only orders that rest.
\<close>

record orders_world =
  ow_panel :: orders_panel
  ow_loads :: "nat list"
  ow_cancels :: "cancel list"

fun awaiting :: "'a option \<Rightarrow> 'a list" where
  "awaiting None = []"
| "awaiting (Some x) = [x]"

inductive orders_reachable :: "Market list \<Rightarrow> orders_world \<Rightarrow> bool" for markets where
  mount: "orders_reachable markets \<lparr>ow_panel = mounted_orders, ow_loads = [], ow_cancels = []\<rparr>"
| sign_in: "orders_reachable markets w \<Longrightarrow> startOrders ((ow_panel w)\<lparr>op_authed := True\<rparr>) = (p, call) \<Longrightarrow>
    orders_reachable markets (w\<lparr>ow_panel := p, ow_loads := ow_loads w @ awaiting call\<rparr>)"
| sign_out: "orders_reachable markets w \<Longrightarrow> orders_reachable markets (w\<lparr>ow_panel := ordersSignedOut (ow_panel w)\<rparr>)"
| resync: "orders_reachable markets w \<Longrightarrow> startOrders (ow_panel w) = (p, call) \<Longrightarrow>
    orders_reachable markets (w\<lparr>ow_panel := p, ow_loads := ow_loads w @ awaiting call\<rparr>)"
| answered: "orders_reachable markets w \<Longrightarrow> mine \<in> set (ow_loads w) \<Longrightarrow>
    distinct (map ol_id (concat perMarket)) \<Longrightarrow> list_all (\<lambda>r. isResting (ol_status r)) (concat perMarket) \<Longrightarrow>
    orders_reachable markets (w\<lparr>ow_panel := ordersOk mine perMarket (ow_panel w)\<rparr>)"
| failed: "orders_reachable markets w \<Longrightarrow> mine \<in> set (ow_loads w) \<Longrightarrow>
    orders_reachable markets (w\<lparr>ow_panel := ordersFailed mine silent message (ow_panel w)\<rparr>)"
| events: "orders_reachable markets w \<Longrightarrow>
    orders_reachable markets (w\<lparr>ow_panel := ordersEvents markets evs (ow_panel w)\<rparr>)"
| cancel: "orders_reachable markets w \<Longrightarrow> startCancel orderId (ow_panel w) = (p, c) \<Longrightarrow>
    orders_reachable markets (w\<lparr>ow_panel := p, ow_cancels := ow_cancels w @ [c]\<rparr>)"
| cancelled: "orders_reachable markets w \<Longrightarrow> c \<in> set (ow_cancels w) \<Longrightarrow>
    orders_reachable markets (w\<lparr>ow_panel := cancelOk c (ow_panel w), ow_cancels := remove1 c (ow_cancels w)\<rparr>)"
| refused: "orders_reachable markets w \<Longrightarrow> c \<in> set (ow_cancels w) \<Longrightarrow>
    orders_reachable markets (w\<lparr>ow_panel := cancelFailed c (ow_panel w), ow_cancels := remove1 c (ow_cancels w)\<rparr>)"

end
