(* ===== verification/OrdersPanelProperties.thy ===== *)
theory OrdersPanelProperties
  imports OrdersPanel UserFeedProperties
begin

text \<open>
  The list of open orders in every state the provider can reach, and what a refused cancel leaves of
  the optimistic removal.
\<close>

section \<open>Sorted rows\<close>

definition orders_sound :: "OpenOrder list \<Rightarrow> bool" where
  "orders_sound rows \<longleftrightarrow>
     distinct (map ol_id rows) \<and> list_all (\<lambda>r. isResting (ol_status r)) rows"

definition newest_first :: "OpenOrder list \<Rightarrow> bool" where
  "newest_first rows \<longleftrightarrow>
     sorted_wrt (\<lambda>a b. \<not> text_less (toISOString (or_createdAt a)) (toISOString (or_createdAt b))) rows"

lemma insert_newest:
  assumes "newest_first rows" shows "newest_first (insert_by newestOrder x rows)"
  using assms
proof (induction rows)
  case (Cons r rows)
  let ?t = "\<lambda>a. toISOString (or_createdAt a)"
  have less: "newestOrder r x < Fin 0 \<longleftrightarrow> text_less (?t x) (?t r)"
    using text_less_trans[of "?t x" "?t r" "?t x"] by (auto simp: newestOrder_def zero_jsnum_def)
  have tr: "\<not> text_less (?t x) (?t y)" if "\<not> text_less (?t x) (?t r)" "\<not> text_less (?t r) (?t y)" for y
    using that text_less_linear[of "?t r" "?t y"] text_less_trans[of "?t x" "?t y" "?t r"] by metis
  have le: "\<not> text_less (?t r) (?t x)" if "text_less (?t x) (?t r)" using that text_less_trans text_less_irrefl by metis
  show ?case using Cons tr le by (auto simp: newest_first_def less)
qed (simp add: newest_first_def)

lemma sortOrders_newest: "newest_first (sortOrders rows)"
proof (induction rows)
  case (Cons r rows)
  then show ?case using insert_newest by (simp add: sortOrders_def sort_by_def)
qed (simp add: sortOrders_def sort_by_def newest_first_def)

lemma sortOrders_set [simp]: "set (sortOrders rows) = set rows"
  by (simp add: sortOrders_def)

lemma sortOrders_sound [simp]: "orders_sound (sortOrders rows) = orders_sound rows"
proof -
  have "mset (map ol_id (sortOrders rows)) = mset (map ol_id rows)" by (simp add: sortOrders_def)
  then have "distinct (map ol_id (sortOrders rows)) = distinct (map ol_id rows)"
    by (metis mset_eq_imp_distinct_iff)
  then show ?thesis by (simp add: orders_sound_def list_all_iff)
qed

lemma row_of_Some: "distinct (map ol_id rows) \<Longrightarrow> row_of i rows = Some r \<longleftrightarrow> r \<in> set rows \<and> ol_id r = i"
  by (induction rows) (auto simp: row_of_def)

lemma row_of_sort [simp]:
  assumes "orders_sound rows" shows "row_of i (sortOrders rows) = row_of i rows"
proof -
  have "distinct (map ol_id (sortOrders rows))" "distinct (map ol_id rows)"
    using assms sortOrders_sound[of rows] by (simp_all add: orders_sound_def)
  then have "row_of i (sortOrders rows) = Some r \<longleftrightarrow> row_of i rows = Some r" for r by (simp add: row_of_Some)
  then show ?thesis by (metis option.exhaust)
qed

lemma sound_events: "orders_sound rows \<Longrightarrow> orders_sound (foldl (reduceOpenOrders (toRow markets)) rows evs)"
  by (induction evs arbitrary: rows) (simp_all add: orders_sound_def open_orders_stay_open)

lemma row_of_filter: "row_of j (filter (\<lambda>r. ol_id r \<noteq> i) rows) = (if j = i then None else row_of j rows)"
  by (induction rows) (auto simp: row_of_def)

section \<open>Reachable states\<close>

text \<open>
  What holds of the provider: the list is sound and there only while somebody is signed in, no call
  is of a later generation, the watches are fresh, and a row taken off can be put back.
\<close>

definition orders_ok :: "orders_world \<Rightarrow> bool" where
  "orders_ok w \<longleftrightarrow>
     (case op_state (ow_panel w) of OrdersReady rows \<Rightarrow> op_authed (ow_panel w) \<and> orders_sound rows \<and> newest_first rows | _ \<Rightarrow> True)
     \<and> (\<forall>m \<in> set (ow_loads w). m \<le> op_generation (ow_panel w) \<and> (op_authed (ow_panel w) \<or> m < op_generation (ow_panel w)))
     \<and> (\<forall>(k, v) \<in> set (op_inFlight (ow_panel w)). v < op_watches (ow_panel w))
     \<and> (\<forall>v \<in> set (op_finished (ow_panel w)). v < op_watches (ow_panel w))
     \<and> (\<forall>(i, removed, v) \<in> set (ow_cancels w). \<forall>r. removed = Some r \<longrightarrow> ol_id r = i \<and> isResting (ol_status r))"

lemma startOrders_ok:
  assumes "startOrders p = (p', call)"
  shows "op_generation p \<le> op_generation p'" "\<forall>m \<in> set (awaiting call). m = op_generation p' \<and> op_authed p'"
    "op_authed p' = op_authed p" "op_inFlight p' = op_inFlight p" "op_finished p' = op_finished p" "op_watches p' = op_watches p"
    "\<not> op_authed p \<Longrightarrow> p' = p" "op_state p' = op_state p \<or> op_state p' = OrdersLoading"
  using assms by (auto simp: startOrders_def Let_def split: if_splits)

lemma orders_ok_call:
  assumes "orders_ok w" "startOrders ((ow_panel w)\<lparr>op_authed := a\<rparr>) = (p, call)" "a \<or> \<not> op_authed (ow_panel w)"
  shows "orders_ok (w\<lparr>ow_panel := p, ow_loads := ow_loads w @ awaiting call\<rparr>)"
  using assms startOrders_ok[OF assms(2)]
  by (cases a) (fastforce simp: orders_ok_def split: OrdersState.splits)+

lemma find_id: "find (\<lambda>r. ol_id r = i) rows = Some r \<Longrightarrow> r \<in> set rows \<and> ol_id r = i"
  by (auto simp: find_Some_iff)

lemma sound_filter: "orders_sound rows \<Longrightarrow> orders_sound (filter P rows)"
  by (auto simp: orders_sound_def list_all_iff distinct_map_filter)

lemma newest_filter: "newest_first rows \<Longrightarrow> newest_first (filter P rows)"
  by (simp add: newest_first_def sorted_wrt_filter)

lemma watchEvent_fresh:
  assumes "\<forall>(k, v) \<in> set inFlight. v < n" "\<forall>v \<in> set finished. v < n"
  shows "\<forall>v \<in> set (foldl (watchEvent inFlight) finished evs). v < n"
  using assms(2)
proof (induction evs arbitrary: finished)
  case (Cons e evs)
  have "\<forall>v \<in> set (watchEvent inFlight finished e). v < n"
    using Cons.prems assms(1) by (cases e) (auto simp: watchEvent_def dest: map_of_SomeD split: option.split)
  then show ?case using Cons.IH by simp
qed simp

lemma orders_ok_events:
  assumes "orders_ok w" shows "orders_ok (w\<lparr>ow_panel := ordersEvents markets evs (ow_panel w)\<rparr>)"
proof (cases "op_state (ow_panel w)")
  case (OrdersReady rows)
  have w: "\<forall>v \<in> set (foldl (watchEvent (op_inFlight (ow_panel w))) (op_finished (ow_panel w)) evs). v < op_watches (ow_panel w)"
    using assms by (intro watchEvent_fresh) (auto simp: orders_ok_def)
  have "orders_sound rows" using assms OrdersReady by (simp add: orders_ok_def)
  then have s: "orders_sound (foldl (reduceOpenOrders (toRow markets)) rows evs)" by (rule sound_events)
  show ?thesis using assms OrdersReady s w
    by (simp add: ordersEvents_def orders_ok_def Let_def sortOrders_newest)
qed (use assms in \<open>simp_all add: ordersEvents_def orders_ok_def\<close>)

lemma orders_ok_start:
  assumes "orders_ok w" "startCancel i (ow_panel w) = (p, c)"
  shows "orders_ok (w\<lparr>ow_panel := p, ow_cancels := ow_cancels w @ [c]\<rparr>)"
proof -
  have fl: "set (AList.update i n xs) \<subseteq> insert (i, n) (set xs)" for n and xs :: "(string \<times> nat) list"
    by (induction xs) auto
  have fresh: "\<forall>(k, v) \<in> set (AList.update i (op_watches (ow_panel w)) (op_inFlight (ow_panel w))). v < Suc (op_watches (ow_panel w))"
    using fl[of "op_watches (ow_panel w)" "op_inFlight (ow_panel w)"] assms(1) by (fastforce simp: orders_ok_def)
  define removed where "removed = (case op_state (ow_panel w) of OrdersReady rows \<Rightarrow> find (\<lambda>r. ol_id r = i) rows | _ \<Rightarrow> None)"
  define st where "st = (case op_state (ow_panel w) of
      OrdersReady rows \<Rightarrow> if removed = None then op_state (ow_panel w) else OrdersReady (filter (\<lambda>r. ol_id r \<noteq> i) rows)
    | _ \<Rightarrow> op_state (ow_panel w))"
  have pc: "c = (i, removed, op_watches (ow_panel w))"
    "p = (ow_panel w)\<lparr>op_state := st, op_watches := Suc (op_watches (ow_panel w)),
       op_inFlight := AList.update i (op_watches (ow_panel w)) (op_inFlight (ow_panel w)),
       op_cancelling := op_cancelling (ow_panel w) @ [i]\<rparr>"
    using assms(2) by (auto simp: startCancel_def Let_def removed_def st_def split: OrdersState.splits if_splits)
  have r: "ol_id r = i \<and> isResting (ol_status r)" if "removed = Some r" for r
    using that assms(1) by (auto simp: removed_def orders_ok_def orders_sound_def list_all_iff dest!: find_id split: OrdersState.splits)
  have "case st of OrdersReady rows \<Rightarrow> op_authed (ow_panel w) \<and> orders_sound rows \<and> newest_first rows | _ \<Rightarrow> True"
    using assms(1) sound_filter newest_filter by (auto simp: orders_ok_def st_def split: OrdersState.splits)
  moreover have "\<forall>v \<in> set (op_finished (ow_panel w)). v < Suc (op_watches (ow_panel w))"
    using assms(1) by (auto simp: orders_ok_def less_Suc_eq)
  ultimately show ?thesis using assms(1) fresh r unfolding orders_ok_def pc by (cases st) auto
qed

lemma orders_ok_end:
  assumes "orders_ok (w\<lparr>ow_panel := p\<rparr>)" shows "orders_ok (w\<lparr>ow_panel := endCancel i p, ow_cancels := remove1 c (ow_cancels w)\<rparr>)"
proof -
  have "set (AList.delete i xs) \<subseteq> set xs" for xs :: "(string \<times> nat) list" by (auto simp: AList.delete_eq)
  then show ?thesis using assms set_remove1_subset[of c "ow_cancels w"]
    by (auto simp: orders_ok_def endCancel_def split: OrdersState.splits) blast+
qed

lemma orders_ok_refused:
  assumes "orders_ok w" "c \<in> set (ow_cancels w)"
  shows "orders_ok (w\<lparr>ow_panel := cancelFailed c (ow_panel w), ow_cancels := remove1 c (ow_cancels w)\<rparr>)"
proof -
  obtain i removed v where c: "c = (i, removed, v)" by (cases c) auto
  define p where "p = (case (op_state (ow_panel w), removed) of
       (OrdersReady orders, Some row) \<Rightarrow>
         if list_ex (\<lambda>r. ol_id r = i) orders \<or> v \<in> set (op_finished (ow_panel w)) then ow_panel w
         else (ow_panel w)\<lparr>op_state := OrdersReady (sortOrders (orders @ [row]))\<rparr>
     | _ \<Rightarrow> ow_panel w)"
  have "orders_ok (w\<lparr>ow_panel := p\<rparr>)"
  proof (cases "op_state (ow_panel w)")
    case (OrdersReady rows)
    show ?thesis
    proof (cases removed)
      case (Some row)
      have row: "ol_id row = i" "isResting (ol_status row)" using assms c Some by (auto simp: orders_ok_def)
      have "orders_sound (rows @ [row])" if "\<not> list_ex (\<lambda>r. ol_id r = i) rows"
        using that row assms(1) OrdersReady by (auto simp: orders_ok_def orders_sound_def list_ex_iff)
      then show ?thesis using assms(1) OrdersReady Some by (auto simp: p_def orders_ok_def sortOrders_newest)
    qed (use assms(1) OrdersReady in \<open>simp add: p_def\<close>)
  qed (use assms(1) in \<open>simp_all add: p_def\<close>)
  then show ?thesis using orders_ok_end[where w = w and p = p and i = i and c = c] by (simp add: cancelFailed_def c p_def)
qed

lemma orders_ok: "orders_reachable markets w \<Longrightarrow> orders_ok w"
proof (induction rule: orders_reachable.induct)
  case mount
  then show ?case by (simp add: orders_ok_def mounted_orders_def)
next
  case (sign_in w p call)
  then show ?case using orders_ok_call by blast
next
  case (sign_out w)
  then show ?case by (fastforce simp: orders_ok_def ordersSignedOut_def less_Suc_eq_le)
next
  case (resync w p call)
  then show ?case using orders_ok_call[of w "op_authed (ow_panel w)" p call] by simp
next
  case (answered w mine perMarket)
  then have "orders_sound (concat perMarket)" by (simp add: orders_sound_def)
  then show ?case using answered.IH answered.hyps(2)
    by (fastforce simp: orders_ok_def ordersOk_def sortOrders_newest split: OrdersState.splits)
next
  case (failed w mine silent message)
  then show ?case by (auto simp: orders_ok_def ordersFailed_def split: OrdersState.splits)
next
  case (events w evs)
  then show ?case using orders_ok_events by blast
next
  case (cancel w orderId p c)
  then show ?case using orders_ok_start by blast
next
  case (cancelled w c)
  then show ?case using orders_ok_end[where w = w and p = "ow_panel w" and i = "fst c" and c = c] by (simp add: cancelOk_def)
next
  case (refused w c)
  then show ?case using orders_ok_refused by blast
qed

section \<open>A cancel, the events in between, and its refusal\<close>

text \<open>The update that ends the order \<open>i\<close>.\<close>

fun finishes :: "string \<Rightarrow> TUserEvent \<Rightarrow> bool" where
  "finishes i (OrderUpdate orderId marketId status filledQty) = (orderId = i \<and> \<not> isResting status)"
| "finishes i _ = False"

lemma watched:
  assumes "\<And>k. map_of inFlight k = Some v \<longleftrightarrow> k = i"
  shows "v \<in> set (foldl (watchEvent inFlight) finished evs) \<longleftrightarrow> v \<in> set finished \<or> list_ex (finishes i) evs"
proof (induction evs arbitrary: finished)
  case (Cons e evs)
  have "v \<in> set (watchEvent inFlight finished e) \<longleftrightarrow> v \<in> set finished \<or> finishes i e"
  proof (cases e)
    case (OrderUpdate orderId m st f)
    then show ?thesis using assms[of orderId] by (cases "map_of inFlight orderId") (auto simp: watchEvent_def)
  qed (simp_all add: watchEvent_def)
  then show ?case using Cons.IH by simp
qed simp

text \<open>What the batches of events do to a list that is there, and to the watches.\<close>

lemma ordersEvents_rows:
  assumes "op_state p = OrdersReady rows" "orders_sound rows"
  shows "\<exists>rows'. op_state (ordersEvents markets evs p) = OrdersReady rows' \<and> orders_sound rows'
    \<and> (\<forall>j. row_of j rows' = foldl (cell (toRow markets) j) (row_of j rows) evs)"
    "op_inFlight (ordersEvents markets evs p) = op_inFlight p"
    "op_finished (ordersEvents markets evs p) = foldl (watchEvent (op_inFlight p)) (op_finished p) evs"
proof -
  let ?rows = "foldl (reduceOpenOrders (toRow markets)) rows evs"
  have r: "orders_sound ?rows" "\<forall>j. row_of j ?rows = foldl (cell (toRow markets) j) (row_of j rows) evs"
    using sound_events[OF assms(2)] orders.row_of_events by blast+
  show "\<exists>rows'. op_state (ordersEvents markets evs p) = OrdersReady rows' \<and> orders_sound rows'
    \<and> (\<forall>j. row_of j rows' = foldl (cell (toRow markets) j) (row_of j rows) evs)"
  proof (cases "?rows = rows")
    case True
    then show ?thesis using assms r by (intro exI[of _ rows]) (simp add: ordersEvents_def Let_def)
  next
    case False
    then show ?thesis using assms(1) r by (intro exI[of _ "sortOrders ?rows"]) (simp add: ordersEvents_def Let_def)
  qed
qed (simp_all add: ordersEvents_def Let_def assms(1))

lemma batches_rows:
  assumes "op_state p = OrdersReady rows" "orders_sound rows"
  shows "\<exists>rows'. op_state (foldl (\<lambda>p evs. ordersEvents markets evs p) p batches) = OrdersReady rows' \<and> orders_sound rows'
    \<and> (\<forall>j. row_of j rows' = foldl (cell (toRow markets) j) (row_of j rows) (concat batches))
    \<and> op_finished (foldl (\<lambda>p evs. ordersEvents markets evs p) p batches) =
        foldl (watchEvent (op_inFlight p)) (op_finished p) (concat batches)"
  using assms
proof (induction batches arbitrary: p rows)
  case (Cons evs batches)
  note step = ordersEvents_rows[OF Cons.prems, of markets evs]
  obtain rows' where r: "op_state (ordersEvents markets evs p) = OrdersReady rows'" "orders_sound rows'"
    "\<forall>j. row_of j rows' = foldl (cell (toRow markets) j) (row_of j rows) evs" using step(1) by blast
  from Cons.IH[OF r(1,2)] r(3) step(2,3) show ?case by simp
qed simp

lemma row_of_append_new: "orders_sound rows \<Longrightarrow> row_of i rows = None \<Longrightarrow> ol_id r = i \<Longrightarrow>
    row_of j (rows @ [r]) = (if j = i then Some r else row_of j rows)"
  by (auto simp: row_of_def find_append split: option.split)

text \<open>
  C17. A refused cancel is taken back. If between the cancel and its refusal only batches of events
  arrive (no reload of the list, no sign-out, no other cancel), whatever they say, every other order has the row it would have without the cancel; the order itself has the row the events
  alone give it, or else the one it had, unless one of the events ended it.
\<close>

theorem refused_cancel_rolls_back:
  assumes "orders_reachable markets w" "op_state (ow_panel w) = OrdersReady rows"
    and "startCancel i (ow_panel w) = (p, c)"
    and "p' = cancelFailed c (foldl (\<lambda>p evs. ordersEvents markets evs p) p batches)"
  shows "\<exists>rows'. op_state p' = OrdersReady rows'
    \<and> (\<forall>j. row_of j rows' =
        (if j \<noteq> i then foldl (cell (toRow markets) j) (row_of j rows) (concat batches)
         else (case foldl (cell (toRow markets) i) None (concat batches) of
                 Some r \<Rightarrow> Some r
               | None \<Rightarrow> if list_ex (finishes i) (concat batches) then None else row_of i rows)))"
proof -
  define v where "v = op_watches (ow_panel w)"
  have ok: "orders_sound rows" "\<forall>(k, u) \<in> set (op_inFlight (ow_panel w)). u < v" "v \<notin> set (op_finished (ow_panel w))"
    using orders_ok[OF assms(1)] assms(2) by (auto simp: orders_ok_def v_def)
  have c: "c = (i, row_of i rows, v)" using assms(2,3) by (auto simp: startCancel_def Let_def row_of_def v_def)
  have p: "op_state p = OrdersReady (filter (\<lambda>r. ol_id r \<noteq> i) rows)" "op_finished p = op_finished (ow_panel w)"
    "op_inFlight p = AList.update i v (op_inFlight (ow_panel w))"
    using assms(2,3) by (auto simp: startCancel_def Let_def v_def find_None_iff filter_id_conv split: if_splits)
  have fl: "map_of (op_inFlight p) k = Some v \<longleftrightarrow> k = i" for k
    using ok(2) by (auto simp: p(3) update_conv' dest: map_of_SomeD)
  define p2 where "p2 = foldl (\<lambda>p evs. ordersEvents markets evs p) p batches"
  obtain rows2 where r2: "op_state p2 = OrdersReady rows2" "orders_sound rows2"
    "\<forall>j. row_of j rows2 = foldl (cell (toRow markets) j) (row_of j (filter (\<lambda>r. ol_id r \<noteq> i) rows)) (concat batches)"
    "op_finished p2 = foldl (watchEvent (op_inFlight p)) (op_finished p) (concat batches)"
    using batches_rows[OF p(1) sound_filter[OF ok(1)], of markets batches] unfolding p2_def by blast
  have fin: "v \<in> set (op_finished p2) \<longleftrightarrow> list_ex (finishes i) (concat batches)"
    unfolding r2(4) watched[OF fl] using ok(3) p(2) by simp
  have there: "list_ex (\<lambda>r. ol_id r = i) rows2 \<longleftrightarrow> row_of i rows2 \<noteq> None"
    by (auto simp: row_of_def find_None_iff list_ex_iff)
  have own: "row_of i rows2 = foldl (cell (toRow markets) i) None (concat batches)" using r2(3) by (simp add: row_of_filter)
  have other: "row_of j rows2 = foldl (cell (toRow markets) j) (row_of j rows) (concat batches)" if "j \<noteq> i" for j
    using r2(3) that by (simp add: row_of_filter)
  have st: "op_state p' = (case row_of i rows of
      Some row \<Rightarrow> if row_of i rows2 \<noteq> None \<or> list_ex (finishes i) (concat batches) then OrdersReady rows2
        else OrdersReady (sortOrders (rows2 @ [row]))
    | None \<Rightarrow> OrdersReady rows2)"
    using r2(1) fin there unfolding assms(4) p2_def[symmetric] c
    by (auto simp: cancelFailed_def endCancel_def split: option.split)
  show ?thesis
  proof (cases "row_of i rows = None \<or> row_of i rows2 \<noteq> None \<or> list_ex (finishes i) (concat batches)")
    case True
    then have "op_state p' = OrdersReady rows2" using st by (auto split: option.split)
    then show ?thesis using True own other by (intro exI[of _ rows2]) (auto split: option.split)
  next
    case False
    then obtain row where row: "row_of i rows = Some row" by auto
    have "ol_id row = i" using row by (auto simp: row_of_def dest: find_id)
    note app = row_of_append_new[OF r2(2) _ this]
    have "orders_sound (rows2 @ [row])"
      using r2(2) there False row ok(1) \<open>ol_id row = i\<close> row_of_Some[of rows i row]
      by (auto simp: orders_sound_def list_all_iff list_ex_iff)
    then have "row_of j (sortOrders (rows2 @ [row])) = (if j = i then Some row else row_of j rows2)" for j
      using app False by simp
    moreover have "op_state p' = OrdersReady (sortOrders (rows2 @ [row]))" using st False row by simp
    ultimately show ?thesis using False own other row by (intro exI[of _ "sortOrders (rows2 @ [row])"]) auto
  qed
qed

text \<open>A terminal with one resting order, signed in and loaded.\<close>

definition one_order :: "Market list \<Rightarrow> OpenOrder \<Rightarrow> orders_world" where
  "one_order markets row =
     \<lparr>ow_panel = ordersOk 1 [[row]] (fst (startOrders (mounted_orders\<lparr>op_authed := True\<rparr>))), ow_loads = [1], ow_cancels = []\<rparr>"

lemma one_order_reachable:
  assumes "isResting (ol_status row)"
  shows "orders_reachable markets (one_order markets row)" "op_state (ow_panel (one_order markets row)) = OrdersReady [row]"
proof -
  define w0 where "w0 = \<lparr>ow_panel = mounted_orders, ow_loads = [], ow_cancels = []\<rparr>"
  define p where "p = fst (startOrders (mounted_orders\<lparr>op_authed := True\<rparr>))"
  have s: "startOrders ((ow_panel w0)\<lparr>op_authed := True\<rparr>) = (p, Some 1)"
    by (simp add: w0_def p_def startOrders_def mounted_orders_def Let_def)
  have "orders_reachable markets w0" unfolding w0_def by (rule mount)
  from sign_in[OF this s] have "orders_reachable markets (w0\<lparr>ow_panel := p, ow_loads := [1]\<rparr>)" by (simp add: w0_def)
  from answered[OF this, of 1 "[[row]]"] assms show "orders_reachable markets (one_order markets row)"
    by (simp add: one_order_def w0_def p_def)
  show "op_state (ow_panel (one_order markets row)) = OrdersReady [row]"
    by (simp add: one_order_def ordersOk_def startOrders_def mounted_orders_def Let_def sortOrders_def sort_by_def)
qed

definition resting_row :: "Market \<Rightarrow> OpenOrder" where
  "resting_row market =
     \<lparr>ol_id = ''o1'', ol_status = Open, ol_filledQty = ''0'', or_marketId = mk_id market, or_positionType = LONG,
      or_orderType = Limit, or_qty = ''2'', or_price = ''100'', or_slippage = Fin 0, or_initialMargin = ''20'',
      or_createdAt = 1788084000000, or_market = market\<rparr>"

text \<open>The order fills while its cancel is under way: the refusal does not bring it back.\<close>

lemma refused_cancel_rolls_back_witness:
  "\<exists>p c rows'. startCancel ''o1'' (ow_panel (one_order [sample_market] (resting_row sample_market))) = (p, c)
    \<and> op_state (cancelFailed c (foldl (\<lambda>p evs. ordersEvents [sample_market] evs p) p [[OrderUpdate ''o1'' ''m'' Filled ''2'']])) = OrdersReady rows'
    \<and> row_of ''o1'' rows' = None"
proof -
  have "isResting (ol_status (resting_row sample_market))" by (simp add: resting_row_def isResting_def)
  note o = one_order_reachable[OF this, of "[sample_market]"]
  obtain p c where s: "startCancel ''o1'' (ow_panel (one_order [sample_market] (resting_row sample_market))) = (p, c)" by (metis surj_pair)
  from refused_cancel_rolls_back[OF o s refl, of "[[OrderUpdate ''o1'' ''m'' Filled ''2'']]"] s show ?thesis
    by (fastforce simp: applied_def isResting_def)
qed

text \<open>
  In every state the provider can reach, however loads, events, cancels and refusals interleave, a
  list that is shown has one row per order, only orders that rest, newest first, and is shown only
  while somebody is signed in.
\<close>

theorem orders_panel_is_sound:
  assumes "orders_reachable markets w" "op_state (ow_panel w) = OrdersReady rows"
  shows "op_authed (ow_panel w) \<and> distinct (map ol_id rows) \<and> list_all (\<lambda>r. isResting (ol_status r)) rows
    \<and> sorted_wrt (\<lambda>a b. \<not> text_less (toISOString (or_createdAt a)) (toISOString (or_createdAt b))) rows"
  using orders_ok[OF assms(1)] assms(2) by (simp add: orders_ok_def orders_sound_def newest_first_def)

lemma orders_panel_is_sound_witness:
  "\<exists>w. orders_reachable [sample_market] w \<and> op_state (ow_panel w) = OrdersReady [resting_row sample_market] \<and> op_authed (ow_panel w)"
proof -
  have "isResting (ol_status (resting_row sample_market))" by (simp add: resting_row_def isResting_def)
  note o = one_order_reachable[OF this, of "[sample_market]"]
  from orders_panel_is_sound[OF o] o show ?thesis by blast
qed

section \<open>What a refused cancel leaves behind\<close>

text \<open>
  The row that comes back is the one that was taken off: a partial fill that the channel told of in
  between is not in it.
\<close>

theorem refused_cancel_forgets_fill:
  assumes "isResting (ol_status row)" "ol_id row = i" "startCancel i (ow_panel (one_order markets row)) = (p, c)"
  shows "op_state (cancelFailed c (ordersEvents markets [OrderUpdate i mid PartiallyFilled filled] p)) = OrdersReady [row]"
proof -
  note o = one_order_reachable[OF assms(1), of markets]
  have sp: "op_state p = OrdersReady []" "c = (i, Some row, 0)" "op_finished p = []"
    using assms(2,3) o(2)
    by (auto simp: startCancel_def Let_def one_order_def ordersOk_def startOrders_def mounted_orders_def split: if_splits)
  then have "ordersEvents markets [OrderUpdate i mid PartiallyFilled filled] p = p"
    by (simp add: ordersEvents_def watchEvent_def isResting_def)
  then show ?thesis using sp by (simp add: cancelFailed_def endCancel_def sortOrders_def sort_by_def)
qed

text \<open>
  A cancel that is refused after its account has signed out and another has signed in puts the order
  of the first on the list of the second.
\<close>

theorem refused_cancel_crosses_accounts:
  assumes "isResting (ol_status row)" "ol_id row = i" "startCancel i (ow_panel (one_order markets row)) = (p, c)"
    and "startOrders ((ordersSignedOut p)\<lparr>op_authed := True\<rparr>) = (p1, Some mine)"
  shows "op_state (cancelFailed c (ordersOk mine [] p1)) = OrdersReady [row]"
proof -
  note o = one_order_reachable[OF assms(1), of markets]
  have sp: "c = (i, Some row, 0)" "op_finished p = []"
    using assms(2,3) o(2)
    by (auto simp: startCancel_def Let_def one_order_def ordersOk_def startOrders_def mounted_orders_def split: if_splits)
  have "op_finished p1 = []" "op_generation p1 = mine"
    using assms(4) sp by (auto simp: startOrders_def ordersSignedOut_def Let_def)
  then show ?thesis using sp by (simp add: cancelFailed_def ordersOk_def endCancel_def sortOrders_def sort_by_def)
qed

end
