(* ===== verification/PositionsPanel.thy ===== *)
theory PositionsPanel
  imports UserFeed Ticket
begin

text \<open>
  The provider of the positions: the state of \<open>apps/web/lib/positions.tsx\<close>. A load asks for the
  positions of every market and then for the books of the markets that have one; a position that an
  event opens elsewhere has its book asked for by an effect on the list of unmarked markets, which
  keeps one request for all of them under way and drops the ones before.
\<close>

text \<open>A map from markets to the price between best bid and ask, which may be unknown.\<close>

type_synonym marks = "(string \<times> string option) list"

datatype PositionsState = PositionsLoading | PositionsReady "PositionEntry list" marks | PositionsError string

record positions_panel =
  ps_authed :: bool
  ps_state :: PositionsState
  ps_generation :: nat
  ps_hasRows :: bool
  ps_unmarked :: "string list"
  ps_closing :: "string list"

definition mounted_positions :: positions_panel where
  "mounted_positions =
     \<lparr>ps_authed = False, ps_state = PositionsLoading, ps_generation = 0, ps_hasRows = False, ps_unmarked = [],
      ps_closing = []\<rparr>"

section \<open>Loading\<close>

text \<open>\<open>Promise.allSettled\<close> over the books: a request that failed leaves the price unknown.\<close>

definition loadMarks :: "(string \<Rightarrow> TMarketDepth option) \<Rightarrow> Market list \<Rightarrow> marks" where
  "loadMarks depths markets =
     foldl (\<lambda>m mk. AList.update (mk_id mk) (case depths (mk_id mk) of None \<Rightarrow> None | Some d \<Rightarrow> midPrice d) m) [] markets"

definition startPositions :: "positions_panel \<Rightarrow> positions_panel \<times> nat option" where
  "startPositions p =
     (if \<not> ps_authed p then (p, None)
      else
        (let mine = ps_generation p + 1; p1 = p\<lparr>ps_generation := mine\<rparr>
         in (if ps_hasRows p then p1 else p1\<lparr>ps_state := PositionsLoading\<rparr>, Some mine)))"

text \<open>The first answer: the markets that hold a position, if nothing newer has started.\<close>

definition heldMarkets :: "nat \<Rightarrow> (Market \<times> TUserPosition list) list \<Rightarrow> positions_panel \<Rightarrow> (Market \<times> TUserPosition list) list option" where
  "heldMarkets mine perMarket p =
     (if mine \<noteq> ps_generation p then None else Some (filter (\<lambda>(market, rows). 0 < length rows) perMarket))"

text \<open>The second: the books of those markets.\<close>

definition positionsOk ::
  "(string \<Rightarrow> TMarketDepth option) \<Rightarrow> nat \<Rightarrow> (Market \<times> TUserPosition list) list \<Rightarrow> positions_panel \<Rightarrow> positions_panel" where
  "positionsOk depths mine held p =
     (if mine \<noteq> ps_generation p then p
      else p\<lparr>ps_hasRows := True,
        ps_state := PositionsReady
          (concat (map (\<lambda>(market, rows). map (\<lambda>position. \<lparr>pe_position = position, pe_market = market\<rparr>) rows) held))
          (loadMarks depths (map fst held))\<rparr>)"

definition positionsFailed :: "nat \<Rightarrow> bool \<Rightarrow> string option \<Rightarrow> positions_panel \<Rightarrow> positions_panel" where
  "positionsFailed mine silent message p =
     (if mine \<noteq> ps_generation p \<or> silent then p
      else p\<lparr>ps_hasRows := False,
        ps_state := PositionsError (case message of Some m \<Rightarrow> m | None \<Rightarrow> ''Could not load positions.'')\<rparr>)"

definition positionsSignedOut :: "positions_panel \<Rightarrow> positions_panel" where
  "positionsSignedOut p =
     p\<lparr>ps_authed := False, ps_generation := ps_generation p + 1, ps_hasRows := False, ps_state := PositionsLoading\<rparr>"

section \<open>Events and marks\<close>

abbreviation entryMarket :: "PositionEntry \<Rightarrow> string" where
  "entryMarket e \<equiv> mk_id (pe_market e)"

definition positionsEvents :: "Market list \<Rightarrow> TUserEvent list \<Rightarrow> positions_panel \<Rightarrow> positions_panel" where
  "positionsEvents markets events p =
     (case ps_state p of
        PositionsReady old marks \<Rightarrow>
          (let entries = foldl (reducePositionEntries entryMarket (toEntry markets)) old events;
               missing = filter (\<lambda>i. i \<notin> fst ` set marks) (map entryMarket entries);
               unmarked = (if missing = [] \<or> list_all (\<lambda>i. i \<in> set (ps_unmarked p)) missing then ps_unmarked p
                           else uniqueOf (ps_unmarked p @ missing))
           in if entries = old then p
              else p\<lparr>ps_state := PositionsReady entries marks, ps_unmarked := unmarked\<rparr>)
      | _ \<Rightarrow> p)"

text \<open>The answer to the effect's request for the books of the unmarked markets.\<close>

definition marksOk :: "(string \<Rightarrow> TMarketDepth option) \<Rightarrow> Market list \<Rightarrow> positions_panel \<Rightarrow> positions_panel" where
  "marksOk depths markets p =
     (let fresh = loadMarks depths (filter (\<lambda>m. mk_id m \<in> set (ps_unmarked p)) markets);
          p1 = (case ps_state p of
                  PositionsReady entries marks \<Rightarrow>
                    p\<lparr>ps_state := PositionsReady entries (foldl (\<lambda>m (i, mid). AList.update i mid m) marks fresh)\<rparr>
                | _ \<Rightarrow> p)
      in p1\<lparr>ps_unmarked := filter (\<lambda>i. i \<notin> fst ` set fresh) (ps_unmarked p)\<rparr>)"

section \<open>Closing and showing\<close>

definition startClose :: "string \<Rightarrow> positions_panel \<Rightarrow> positions_panel" where
  "startClose marketId p = p\<lparr>ps_closing := ps_closing p @ [marketId]\<rparr>"

definition endClose :: "string \<Rightarrow> positions_panel \<Rightarrow> positions_panel" where
  "endClose marketId p = p\<lparr>ps_closing := filter (\<lambda>i. i \<noteq> marketId) (ps_closing p)\<rparr>"

text \<open>
  The rows: every entry with its market and what \<open>derivePosition\<close> makes of its mark, by the order of
  the slugs, which is the platform's (\<open>localeCompare\<close>); and the total under them.
\<close>

record OpenPosition =
  sp_position :: TUserPosition
  sp_market :: Market
  sp_derived :: DerivedPosition

definition shownPositions ::
  "(string \<Rightarrow> string \<Rightarrow> jsnum) \<Rightarrow> string option \<times> string option \<Rightarrow> PositionsState \<Rightarrow> OpenPosition list option" where
  "shownPositions localeCompare live st =
     (case st of
        PositionsReady entries marks \<Rightarrow>
          Some (sort_by (\<lambda>a b. localeCompare (mk_slug (sp_market a)) (mk_slug (sp_market b)))
            (map (\<lambda>e. \<lparr>sp_position = pe_position e, sp_market = pe_market e,
               sp_derived = derivePosition (pe_position e) (markFor (entryMarket e) marks live)\<rparr>) entries))
      | _ \<Rightarrow> None)"

definition shownTotal :: "OpenPosition list option \<Rightarrow> jsnum option" where
  "shownTotal rows = (case rows of None \<Rightarrow> None | Some ps \<Rightarrow> totalUnrealisedPnl (map sp_derived ps))"

section \<open>The provider and its requests\<close>

text \<open>
  The provider with the loads that wait for their first or second answer. The engine lists at most one
  position of an account per market, and an event carries the position of its market.
\<close>

record positions_world =
  pw_panel :: positions_panel
  pw_loads :: "nat list"
  pw_books :: "(nat \<times> (Market \<times> TUserPosition list) list) list"

fun ofOwnMarket :: "TUserEvent \<Rightarrow> bool" where
  "ofOwnMarket (PositionEvent marketId (Some position)) = (up_marketId position = marketId)"
| "ofOwnMarket _ = True"

fun outstanding :: "'a option \<Rightarrow> 'a list" where
  "outstanding None = []"
| "outstanding (Some x) = [x]"

inductive positions_reachable :: "Market list \<Rightarrow> positions_world \<Rightarrow> bool" for markets where
  mount: "positions_reachable markets \<lparr>pw_panel = mounted_positions, pw_loads = [], pw_books = []\<rparr>"
| sign_in: "positions_reachable markets w \<Longrightarrow> startPositions ((pw_panel w)\<lparr>ps_authed := True\<rparr>) = (p, call) \<Longrightarrow>
    positions_reachable markets (w\<lparr>pw_panel := p, pw_loads := pw_loads w @ outstanding call\<rparr>)"
| sign_out: "positions_reachable markets w \<Longrightarrow>
    positions_reachable markets (w\<lparr>pw_panel := positionsSignedOut (pw_panel w)\<rparr>)"
| resync: "positions_reachable markets w \<Longrightarrow> startPositions (pw_panel w) = (p, call) \<Longrightarrow>
    positions_reachable markets (w\<lparr>pw_panel := p, pw_loads := pw_loads w @ outstanding call\<rparr>)"
| positions: "positions_reachable markets w \<Longrightarrow> mine \<in> set (pw_loads w) \<Longrightarrow> map fst perMarket = markets \<Longrightarrow>
    list_all (\<lambda>(market, rows). length rows \<le> 1) perMarket \<Longrightarrow> heldMarkets mine perMarket (pw_panel w) = Some held \<Longrightarrow>
    positions_reachable markets (w\<lparr>pw_books := pw_books w @ [(mine, held)]\<rparr>)"
| books: "positions_reachable markets w \<Longrightarrow> (mine, held) \<in> set (pw_books w) \<Longrightarrow>
    positions_reachable markets (w\<lparr>pw_panel := positionsOk depths mine held (pw_panel w)\<rparr>)"
| failed: "positions_reachable markets w \<Longrightarrow> mine \<in> set (pw_loads w) \<Longrightarrow>
    positions_reachable markets (w\<lparr>pw_panel := positionsFailed mine silent message (pw_panel w)\<rparr>)"
| events: "positions_reachable markets w \<Longrightarrow> list_all ofOwnMarket evs \<Longrightarrow>
    positions_reachable markets (w\<lparr>pw_panel := positionsEvents markets evs (pw_panel w)\<rparr>)"
| marked: "positions_reachable markets w \<Longrightarrow> ps_unmarked (pw_panel w) \<noteq> [] \<Longrightarrow>
    positions_reachable markets (w\<lparr>pw_panel := marksOk depths markets (pw_panel w)\<rparr>)"
| close: "positions_reachable markets w \<Longrightarrow>
    positions_reachable markets (w\<lparr>pw_panel := startClose marketId (pw_panel w)\<rparr>)"
| closed: "positions_reachable markets w \<Longrightarrow>
    positions_reachable markets (w\<lparr>pw_panel := endClose marketId (pw_panel w)\<rparr>)"

end
