(* ===== verification/PositionsPanelProperties.thy ===== *)
theory PositionsPanelProperties
  imports PositionsPanel UserFeedProperties
begin

text \<open>
  The table of positions in every state the provider can reach: one row per market, and no row whose
  book has not been asked for.
\<close>

section \<open>Rows and marks\<close>

abbreviation marked_markets :: "marks \<Rightarrow> string set" where
  "marked_markets m \<equiv> fst ` set m"

abbreviation market_ids :: "Market list \<Rightarrow> string set" where
  "market_ids markets \<equiv> mk_id ` set markets"

lemma loadMarks_markets: "marked_markets (loadMarks depths ms) = market_ids ms"
proof -
  have "marked_markets (foldl (\<lambda>m mk. AList.update (mk_id mk) (v mk) m) init ms) =
      marked_markets init \<union> market_ids ms" for init :: marks and v
    by (induction ms arbitrary: init) (auto simp: AList.dom_update)
  from this[where init = "[]"] show ?thesis by (simp add: loadMarks_def)
qed

lemma merged_markets:
  "marked_markets (foldl (\<lambda>m (i, mid). AList.update i mid m) old fresh) = marked_markets old \<union> marked_markets fresh"
proof (induction fresh arbitrary: old)
  case (Cons f fresh)
  then show ?case by (cases f) (simp add: AList.dom_update)
qed simp

definition entries_sound :: "Market list \<Rightarrow> PositionEntry list \<Rightarrow> bool" where
  "entries_sound markets entries \<longleftrightarrow>
     distinct (map entryMarket entries) \<and> (\<forall>e \<in> set entries. pe_market e \<in> set markets)"

lemma toEntry_market: "toEntry markets p = Some e \<Longrightarrow> entryMarket e = up_marketId p \<and> pe_market e \<in> set markets"
  by (auto simp: toEntry_def find_Some_iff split: option.splits)

lemma own_market: "ofOwnMarket (PositionEvent m (Some p)) \<longleftrightarrow> up_marketId p = m" by simp

lemma sound_update:
  assumes "entries_sound markets entries" "k < length entries" "entryMarket e = entryMarket (entries ! k)" "pe_market e \<in> set markets"
  shows "entries_sound markets (entries[k := e])"
proof -
  have "map entryMarket (entries[k := e]) = map entryMarket entries"
    using assms(2,3) by (simp add: map_update list_update_same_conv)
  then show ?thesis using assms(1,4) set_update_subset_insert[of entries k e] unfolding entries_sound_def by auto
qed

lemma reduce_sound:
  assumes "entries_sound markets entries" "ofOwnMarket ev"
  shows "entries_sound markets (reducePositionEntries entryMarket (toEntry markets) entries ev)"
proof (cases ev)
  case (PositionEvent m position)
  show ?thesis
  proof (cases position)
    case None
    then show ?thesis using assms(1) PositionEvent
      by (auto simp: reducePositionEntries_def entries_sound_def distinct_map_filter)
  next
    case (Some p)
    have own: "up_marketId p = m" using assms(2) PositionEvent Some by simp
    show ?thesis
    proof (cases "toEntry markets p")
      case None
      then show ?thesis using assms(1) PositionEvent Some by (simp add: reducePositionEntries_def)
    next
      case (Some e)
      have e: "entryMarket e = m" "pe_market e \<in> set markets" using toEntry_market[OF Some] own by simp_all
      show ?thesis
      proof (cases "find_index (\<lambda>e. entryMarket e = m) entries")
        case None
        then have "entryMarket e \<notin> entryMarket ` set entries" using e(1) by (auto simp: find_index_None)
        then show ?thesis using assms(1) PositionEvent \<open>position = Some p\<close> Some None e(2)
          by (simp add: reducePositionEntries_def entries_sound_def)
      next
        case (Some k)
        then have "k < length entries" "entryMarket (entries ! k) = m" using find_index_Some[OF Some] by simp_all
        then show ?thesis
          using sound_update[OF assms(1)] e PositionEvent \<open>position = Some p\<close> \<open>toEntry markets p = Some e\<close> Some
          by (simp add: reducePositionEntries_def)
      qed
    qed
  qed
qed (use assms(1) in \<open>simp_all add: reducePositionEntries_def\<close>)

lemma events_sound:
  "entries_sound markets entries \<Longrightarrow> list_all ofOwnMarket evs \<Longrightarrow>
     entries_sound markets (foldl (reducePositionEntries entryMarket (toEntry markets)) entries evs)"
  by (induction evs arbitrary: entries) (simp_all add: reduce_sound)

text \<open>The answers of the API: the markets in order, each with at most one row.\<close>

definition held_sound :: "Market list \<Rightarrow> (Market \<times> TUserPosition list) list \<Rightarrow> bool" where
  "held_sound markets held \<longleftrightarrow>
     distinct (map (mk_id \<circ> fst) held) \<and> (\<forall>(market, rows) \<in> set held. market \<in> set markets \<and> length rows \<le> 1)"

abbreviation entriesOf :: "(Market \<times> TUserPosition list) list \<Rightarrow> PositionEntry list" where
  "entriesOf held \<equiv> concat (map (\<lambda>(market, rows). map (\<lambda>position. \<lparr>pe_position = position, pe_market = market\<rparr>) rows) held)"

lemma in_entriesOf: "e \<in> set (entriesOf held) \<Longrightarrow> \<exists>rows. (pe_market e, rows) \<in> set held"
  by auto

lemma entriesOf_markets: "entryMarket ` set (entriesOf held) \<subseteq> (mk_id \<circ> fst) ` set held"
proof
  fix i assume "i \<in> entryMarket ` set (entriesOf held)"
  then obtain e where e: "i = entryMarket e" "e \<in> set (entriesOf held)" by (rule imageE)
  obtain rows where "(pe_market e, rows) \<in> set held" using in_entriesOf[OF e(2)] by blast
  then show "i \<in> (mk_id \<circ> fst) ` set held" unfolding e(1) by force
qed

lemma entriesOf_sound: "held_sound markets held \<Longrightarrow> entries_sound markets (entriesOf held)"
proof (induction held)
  case (Cons h held)
  obtain market rows where h: "h = (market, rows)" by (metis surj_pair)
  have "entries_sound markets (entriesOf held)" using Cons by (simp add: held_sound_def)
  moreover have "mk_id market \<notin> entryMarket ` set (entriesOf held)"
  proof
    assume "mk_id market \<in> entryMarket ` set (entriesOf held)"
    then have "mk_id market \<in> (mk_id \<circ> fst) ` set held" using entriesOf_markets[of held] by (rule rev_subsetD)
    then show False using Cons.prems h by (simp add: held_sound_def)
  qed
  moreover have "length rows \<le> 1" "market \<in> set markets" using Cons.prems h by (simp_all add: held_sound_def)
  ultimately show ?case using h by (cases rows) (auto simp: entries_sound_def)
qed (simp add: entries_sound_def)

lemma heldMarkets_sound:
  assumes "heldMarkets mine perMarket p = Some held" "map fst perMarket = markets" "distinct (map mk_id markets)"
    "list_all (\<lambda>(market, rows). length rows \<le> 1) perMarket"
  shows "held_sound markets held" "mine = ps_generation p"
proof -
  have held: "held = filter (\<lambda>(market, rows). 0 < length rows) perMarket" and "mine = ps_generation p"
    using assms(1) by (simp_all add: heldMarkets_def split: if_splits)
  then show "mine = ps_generation p" by simp
  have "distinct (map (mk_id \<circ> fst) perMarket)" using assms(2,3) by (metis map_map)
  moreover have "fst h \<in> set markets \<and> length (snd h) \<le> 1" if "h \<in> set held" for h
    using that assms(4) unfolding assms(2)[symmetric] held list_all_iff by force
  ultimately show "held_sound markets held" by (auto simp: held held_sound_def distinct_map_filter)
qed

section \<open>Reachable states\<close>

text \<open>
  What holds of the provider: its rows are sound, there only while somebody is signed in, and each is
  in a market with a mark or among those whose mark has been asked for; no call is of a later
  generation; and a load that waits for books has sound rows.
\<close>

definition covered :: "PositionEntry list \<Rightarrow> marks \<Rightarrow> string list \<Rightarrow> bool" where
  "covered entries m unmarked \<longleftrightarrow> (\<forall>e \<in> set entries. entryMarket e \<in> marked_markets m \<or> entryMarket e \<in> set unmarked)"

definition panel_ok :: "Market list \<Rightarrow> positions_panel \<Rightarrow> bool" where
  "panel_ok markets p \<longleftrightarrow>
     (case ps_state p of
        PositionsReady entries m \<Rightarrow> ps_authed p \<and> entries_sound markets entries \<and> covered entries m (ps_unmarked p)
      | _ \<Rightarrow> True)
     \<and> set (ps_unmarked p) \<subseteq> market_ids markets"

definition calls_ok :: "positions_panel \<Rightarrow> nat list \<Rightarrow> bool" where
  "calls_ok p ms \<longleftrightarrow> (\<forall>m \<in> set ms. m \<le> ps_generation p \<and> (ps_authed p \<or> m < ps_generation p))"

definition positions_ok :: "Market list \<Rightarrow> positions_world \<Rightarrow> bool" where
  "positions_ok markets w \<longleftrightarrow>
     panel_ok markets (pw_panel w) \<and> calls_ok (pw_panel w) (pw_loads w @ map fst (pw_books w))
     \<and> (\<forall>(mine, held) \<in> set (pw_books w). held_sound markets held)"

lemma startPositions_ok:
  assumes "startPositions (p\<lparr>ps_authed := a\<rparr>) = (p', call)" "a \<or> \<not> ps_authed p" "panel_ok markets p" "calls_ok p ms"
  shows "panel_ok markets p'" "calls_ok p' (ms @ outstanding call)"
  using assms by (auto simp: startPositions_def panel_ok_def calls_ok_def Let_def split: if_splits PositionsState.splits)

lemma marksOk_state:
  "ps_state (marksOk depths markets p) =
     (case ps_state p of
        PositionsReady entries old \<Rightarrow> PositionsReady entries (foldl (\<lambda>m (i, mid). AList.update i mid m) old
          (loadMarks depths (filter (\<lambda>m. mk_id m \<in> set (ps_unmarked p)) markets)))
      | s \<Rightarrow> s)"
  by (simp add: marksOk_def Let_def split: PositionsState.split)

lemma marked_ok:
  assumes "panel_ok markets p"
  shows "panel_ok markets (marksOk depths markets p)" "ps_unmarked (marksOk depths markets p) = []"
    "ps_state (marksOk depths markets p) = PositionsReady entries m \<Longrightarrow> e \<in> set entries \<Longrightarrow> entryMarket e \<in> marked_markets m"
proof -
  let ?fresh = "loadMarks depths (filter (\<lambda>m. mk_id m \<in> set (ps_unmarked p)) markets)"
  have sub: "set (ps_unmarked p) \<subseteq> market_ids markets" using assms by (simp add: panel_ok_def)
  then have fresh: "marked_markets ?fresh = set (ps_unmarked p)" by (auto simp: loadMarks_markets)
  then show none: "ps_unmarked (marksOk depths markets p) = []"
    by (auto simp: marksOk_def Let_def filter_empty_conv split: PositionsState.split)
  show "entryMarket e \<in> marked_markets m"
    if "ps_state (marksOk depths markets p) = PositionsReady entries m" "e \<in> set entries" for entries m e
  proof -
    from that(1) obtain old where "ps_state p = PositionsReady entries old"
      "m = foldl (\<lambda>m (i, mid). AList.update i mid m) old ?fresh"
      unfolding marksOk_state by (auto split: PositionsState.splits)
    then show ?thesis using assms that(2) by (auto simp: panel_ok_def covered_def merged_markets fresh)
  qed
  then show "panel_ok markets (marksOk depths markets p)"
    using assms none by (auto simp: panel_ok_def covered_def marksOk_def Let_def split: PositionsState.splits)
qed

lemma entry_known: "entries_sound markets entries \<Longrightarrow> entryMarket ` set entries \<subseteq> market_ids markets"
  by (auto simp: entries_sound_def)

lemma events_ok:
  assumes "panel_ok markets p" "list_all ofOwnMarket evs"
  shows "panel_ok markets (positionsEvents markets evs p)"
proof (cases "ps_state p")
  case (PositionsReady old m)
  let ?new = "foldl (reducePositionEntries entryMarket (toEntry markets)) old evs"
  let ?missing = "filter (\<lambda>i. i \<notin> marked_markets m) (map entryMarket ?new)"
  let ?un = "if ?missing = [] \<or> list_all (\<lambda>i. i \<in> set (ps_unmarked p)) ?missing then ps_unmarked p
    else uniqueOf (ps_unmarked p @ ?missing)"
  have old: "ps_authed p" "entries_sound markets old" "set (ps_unmarked p) \<subseteq> market_ids markets"
    using assms(1) PositionsReady by (simp_all add: panel_ok_def)
  have new: "entries_sound markets ?new" by (rule events_sound[OF old(2) assms(2)])
  have un: "set ?un = set (ps_unmarked p) \<union> set ?missing" by (auto simp: list_all_iff filter_empty_conv)
  have "entryMarket e \<in> marked_markets m \<or> entryMarket e \<in> set ?missing" if "e \<in> set ?new" for e
    using that by (cases "entryMarket e \<in> marked_markets m") simp_all
  then have "covered ?new m ?un" unfolding covered_def un by blast
  moreover have "set ?un \<subseteq> market_ids markets" unfolding un using old(3) entry_known[OF new] by auto
  ultimately show ?thesis using assms(1) PositionsReady old(1) new
    by (simp add: positionsEvents_def Let_def panel_ok_def)
qed (use assms(1) in \<open>simp_all add: positionsEvents_def\<close>)

lemma books_ok:
  assumes "panel_ok markets p" "held_sound markets held" "calls_ok p [mine]"
  shows "panel_ok markets (positionsOk depths mine held p)"
proof -
  have "covered (entriesOf held) (loadMarks depths (map fst held)) u" for u
    using in_entriesOf[of _ held] unfolding covered_def loadMarks_markets by force
  then show ?thesis using assms entriesOf_sound[OF assms(2)]
    by (auto simp: positionsOk_def panel_ok_def calls_ok_def)
qed

lemma positionsOk_frame [simp]:
  "ps_generation (positionsOk d m h p) = ps_generation p" "ps_authed (positionsOk d m h p) = ps_authed p"
  "ps_generation (positionsFailed m s t p) = ps_generation p" "ps_authed (positionsFailed m s t p) = ps_authed p"
  "ps_generation (positionsEvents ms evs p) = ps_generation p" "ps_authed (positionsEvents ms evs p) = ps_authed p"
  "ps_generation (marksOk d ms p) = ps_generation p" "ps_authed (marksOk d ms p) = ps_authed p"
  by (simp_all add: positionsOk_def positionsFailed_def positionsEvents_def marksOk_def Let_def split: PositionsState.split)

lemma calls_ok_frame: "ps_generation p = ps_generation q \<Longrightarrow> ps_authed p = ps_authed q \<Longrightarrow> calls_ok p ms = calls_ok q ms"
  by (simp add: calls_ok_def)

lemma positions_ok_call:
  assumes "positions_ok markets w" "startPositions ((pw_panel w)\<lparr>ps_authed := a\<rparr>) = (p, call)" "a \<or> \<not> ps_authed (pw_panel w)"
  shows "positions_ok markets (w\<lparr>pw_panel := p, pw_loads := pw_loads w @ outstanding call\<rparr>)"
  using startPositions_ok[OF assms(2,3), where markets = markets and ms = "pw_loads w @ map fst (pw_books w)"] assms(1)
  by (auto simp: positions_ok_def calls_ok_def)

lemma positions_ok:
  assumes "positions_reachable markets w" "distinct (map mk_id markets)"
  shows "positions_ok markets w"
  using assms(1)
proof induction
  case mount
  then show ?case by (simp add: positions_ok_def panel_ok_def calls_ok_def mounted_positions_def)
next
  case (sign_in w p call)
  then show ?case using positions_ok_call[where a = True] by simp
next
  case (sign_out w)
  then show ?case
    by (auto simp: positions_ok_def panel_ok_def calls_ok_def positionsSignedOut_def less_Suc_eq_le
        intro: le_SucI split: PositionsState.splits)
next
  case (resync w p call)
  then show ?case using positions_ok_call[where a = "ps_authed (pw_panel w)"] by simp
next
  case (positions w mine perMarket held)
  have "held_sound markets held" "calls_ok (pw_panel w) [mine]"
    using heldMarkets_sound[OF positions(5,3) assms(2) positions(4)] positions(2) positions.IH
    by (auto simp: positions_ok_def calls_ok_def)
  then show ?case using positions.IH by (auto simp: positions_ok_def calls_ok_def)
next
  case (books w mine held depths)
  have "held_sound markets held" "calls_ok (pw_panel w) [mine]"
    using books.hyps(2) books.IH by (force simp: positions_ok_def calls_ok_def)+
  then show ?case using books.IH books_ok by (auto simp: positions_ok_def calls_ok_def)
next
  case (failed w mine silent message)
  then show ?case
    by (auto simp: positions_ok_def calls_ok_def panel_ok_def positionsFailed_def split: PositionsState.splits)
next
  case (events w evs)
  then show ?case using events_ok by (auto simp: positions_ok_def calls_ok_def)
next
  case (marked w depths)
  then show ?case using marked_ok(1) by (auto simp: positions_ok_def calls_ok_def)
next
  case (close w marketId)
  then show ?case by (auto simp: positions_ok_def calls_ok_def panel_ok_def startClose_def split: PositionsState.splits)
next
  case (closed w marketId)
  then show ?case by (auto simp: positions_ok_def calls_ok_def panel_ok_def endClose_def split: PositionsState.splits)
qed

text \<open>
  C18. The table of positions is sound. In every state the provider can reach, if no two markets of the
  build share an id, the API lists at most one position per market and an event carries the position
  of its market, then the table has at most one row per market, each of a market the build knows, is
  there only while somebody is signed in, and every row either has a mark or is in a market whose
  book is being asked for; and once those books are answered, well or not, every row has a mark and
  nothing is left to ask for.
\<close>

theorem positions_panel_is_sound:
  assumes "positions_reachable markets w" "distinct (map mk_id markets)"
    and "ps_state (pw_panel w) = PositionsReady entries m"
  shows "ps_authed (pw_panel w) \<and> distinct (map entryMarket entries) \<and> pe_market ` set entries \<subseteq> set markets
    \<and> (\<forall>e \<in> set entries. entryMarket e \<in> fst ` set m \<union> set (ps_unmarked (pw_panel w)))
    \<and> (\<exists>m'. ps_state (marksOk depths markets (pw_panel w)) = PositionsReady entries m'
        \<and> entryMarket ` set entries \<subseteq> fst ` set m' \<and> ps_unmarked (marksOk depths markets (pw_panel w)) = [])"
proof -
  have ok: "panel_ok markets (pw_panel w)" using positions_ok[OF assms(1,2)] by (simp add: positions_ok_def)
  obtain m' where m': "ps_state (marksOk depths markets (pw_panel w)) = PositionsReady entries m'"
    using assms(3) by (simp add: marksOk_def Let_def)
  show ?thesis using ok assms(3) m' marked_ok(2)[OF ok] marked_ok(3)[OF ok m']
    by (auto simp: panel_ok_def entries_sound_def covered_def)
qed

text \<open>An account that was flat when the terminal loaded opens its first position.\<close>

definition first_position :: TUserPosition where
  "first_position =
     \<lparr>up_marketId = mk_id sample_market, up_type = LONG, up_qty = ''2'', up_margin = ''20'', up_averagePrice = ''100'',
      up_liquidationPrice = ''91''\<rparr>"

definition first_entry :: PositionEntry where
  "first_entry = \<lparr>pe_position = first_position, pe_market = sample_market\<rparr>"

definition flat_panel :: positions_panel where
  "flat_panel = positionsOk (\<lambda>_. None) 1 [] (fst (startPositions (mounted_positions\<lparr>ps_authed := True\<rparr>)))"

definition opened :: positions_world where
  "opened =
     \<lparr>pw_panel = positionsEvents [sample_market] [PositionEvent (mk_id sample_market) (Some first_position)] flat_panel,
      pw_loads = [1], pw_books = [(1, [])]\<rparr>"

lemma opened_reachable:
  "positions_reachable [sample_market] opened" "ps_state (pw_panel opened) = PositionsReady [first_entry] []"
  "ps_unmarked (pw_panel opened) = [mk_id sample_market]"
proof -
  define w0 where "w0 = \<lparr>pw_panel = mounted_positions, pw_loads = [], pw_books = []\<rparr>"
  define p where "p = fst (startPositions (mounted_positions\<lparr>ps_authed := True\<rparr>))"
  define w1 where "w1 = w0\<lparr>pw_panel := p, pw_loads := [1]\<rparr>"
  have s: "startPositions ((pw_panel w0)\<lparr>ps_authed := True\<rparr>) = (p, Some 1)"
    by (simp add: w0_def p_def startPositions_def mounted_positions_def Let_def)
  have "positions_reachable [sample_market] w0" unfolding w0_def by (rule mount)
  from sign_in[OF this s] have w1: "positions_reachable [sample_market] w1" by (simp add: w0_def w1_def)
  have "heldMarkets 1 [(sample_market, [])] (pw_panel w1) = Some []"
    by (simp add: w1_def w0_def p_def startPositions_def mounted_positions_def Let_def heldMarkets_def)
  from positions[OF w1, of 1, OF _ _ _ this] have "positions_reachable [sample_market] (w1\<lparr>pw_books := [(1, [])]\<rparr>)"
    by (simp add: w1_def w0_def)
  from books[OF this, of 1 "[]" "\<lambda>_. None"]
  have "positions_reachable [sample_market] (w1\<lparr>pw_books := [(1, [])], pw_panel := flat_panel\<rparr>)"
    by (simp add: w1_def flat_panel_def p_def)
  from events[OF this, of "[PositionEvent (mk_id sample_market) (Some first_position)]"]
  show "positions_reachable [sample_market] opened" by (simp add: opened_def w1_def w0_def first_position_def)
  show "ps_state (pw_panel opened) = PositionsReady [first_entry] []" "ps_unmarked (pw_panel opened) = [mk_id sample_market]"
    by (simp_all add: opened_def flat_panel_def positionsOk_def startPositions_def mounted_positions_def Let_def loadMarks_def
        positionsEvents_def reducePositionEntries_def toEntry_def first_entry_def first_position_def uniqueOf_def)
qed

lemma positions_panel_is_sound_witness:
  "ps_authed (pw_panel opened)
    \<and> (\<exists>m'. ps_state (marksOk (\<lambda>_. None) [sample_market] (pw_panel opened)) = PositionsReady [first_entry] m'
        \<and> mk_id sample_market \<in> fst ` set m')"
  using positions_panel_is_sound[OF opened_reachable(1) _ opened_reachable(2), of "\<lambda>_. None"]
  by (auto simp: first_entry_def)

end
