(* ===== verification/PrivateFeed.thy ===== *)
theory PrivateFeed
  imports EngineTypes
begin

text \<open>
  The private channel in the browser: the effect of \<open>apps/web/lib/user-feed.tsx\<close> that keeps a socket for
  the account that is signed in. Its local variables are the fields of a record, its inner functions are
  definitions, each split where it waits: for the ticket of the socket, for the socket to open, for the
  snapshots of the subscribers. The effect is run again, from fresh variables, when the account changes.
  How long a retry waits is \<open>backoffDelay\<close>, in MarketFeed; here a timer is a number.
\<close>

section \<open>The variables of the effect\<close>

datatype UserFeedStatus = Idle | FeedConnecting | Syncing | FeedLive | FeedReconnecting | FeedDisconnected

definition user_max_buffer :: nat where
  "user_max_buffer = 256"

record private_feed =
  uf_status :: UserFeedStatus
  uf_resyncs :: nat
  uf_socket :: "nat option"
  uf_retryTimer :: "nat option"
  uf_hiddenTimer :: bool
  uf_attempt :: nat
  uf_generation :: nat
  uf_stopped :: bool
  uf_buffering :: bool
  uf_buffer :: "TUserEvent list"

text \<open>
  The effect with what it waits for: the tickets asked for and the snapshots under way, each with the
  generation it was started in, the sockets that are not closed, each with the generation its handlers
  compare, those that have opened, and the timers of retries. \<open>uc_heard\<close> and \<open>uc_told\<close> are what has arrived and what the subscribers were given
  since a socket last opened.
\<close>

record user_channel =
  uc_feed :: private_feed
  uc_tickets :: "nat list"
  uc_sockets :: "(nat \<times> nat) list"
  uc_opened :: "nat list"
  uc_syncs :: "nat list"
  uc_timers :: "nat list"
  uc_next :: nat
  uc_heard :: "TUserEvent list"
  uc_told :: "TUserEvent list"

section \<open>Its functions\<close>

definition setStatus :: "UserFeedStatus \<Rightarrow> user_channel \<Rightarrow> user_channel" where
  "setStatus status c = c\<lparr>uc_feed := (uc_feed c)\<lparr>uf_status := status\<rparr>\<rparr>"

text \<open>Closing the socket first takes its handlers away, so that nothing comes of it any more.\<close>

definition teardownChannel :: "user_channel \<Rightarrow> user_channel" where
  "teardownChannel c =
     (let f = uc_feed c
      in c\<lparr>uc_feed := f\<lparr>uf_generation := uf_generation f + 1, uf_buffering := False, uf_buffer := [],
             uf_retryTimer := None, uf_socket := None\<rparr>,
           uc_timers := (case uf_retryTimer f of None \<Rightarrow> uc_timers c | Some n \<Rightarrow> filter (\<lambda>t. t \<noteq> n) (uc_timers c)),
           uc_sockets := (case uf_socket f of None \<Rightarrow> uc_sockets c | Some n \<Rightarrow> filter (\<lambda>s. fst s \<noteq> n) (uc_sockets c))\<rparr>)"

text \<open>The line that three branches share: the status, the timer, the attempt counted.\<close>

definition scheduleRetry :: "user_channel \<Rightarrow> user_channel" where
  "scheduleRetry c =
     (let f = uc_feed c
      in c\<lparr>uc_feed := f\<lparr>uf_status := FeedReconnecting, uf_retryTimer := Some (uc_next c),
             uf_attempt := uf_attempt f + 1\<rparr>,
           uc_timers := uc_timers c @ [uc_next c], uc_next := uc_next c + 1\<rparr>)"

definition failChannel :: "user_channel \<Rightarrow> user_channel" where
  "failChannel c =
     (if uf_stopped (uc_feed c) \<or> uf_socket (uc_feed c) = None then c else scheduleRetry (teardownChannel c))"

definition connectChannel :: "user_channel \<Rightarrow> user_channel" where
  "connectChannel c =
     (let f = uc_feed c
      in if uf_stopped f then c
         else c\<lparr>uc_feed := f\<lparr>uf_retryTimer := None,
                  uf_status := if uf_attempt f = 0 then FeedConnecting else FeedReconnecting\<rparr>,
                uc_tickets := uc_tickets c @ [uf_generation f]\<rparr>)"

abbreviation outdated :: "nat \<Rightarrow> private_feed \<Rightarrow> bool" where
  "outdated mine f \<equiv> uf_stopped f \<or> mine \<noteq> uf_generation f"

text \<open>The rest of \<open>connect\<close> when the request for the ticket fails, and when the constructor throws.\<close>

definition ticketFailed :: "nat \<Rightarrow> bool \<Rightarrow> user_channel \<Rightarrow> user_channel" where
  "ticketFailed mine silent c =
     (if outdated mine (uc_feed c) then c
      else if silent then setStatus FeedDisconnected (teardownChannel c)
      else scheduleRetry c)"

definition ticketRefused :: "nat \<Rightarrow> user_channel \<Rightarrow> user_channel" where
  "ticketRefused mine c =
     (if outdated mine (uc_feed c) then c
      else scheduleRetry (c\<lparr>uc_feed := (uc_feed c)\<lparr>uf_socket := None\<rparr>\<rparr>))"

text \<open>And when the socket is made. The variable takes the new socket, whatever it held.\<close>

definition ticketOk :: "nat \<Rightarrow> user_channel \<Rightarrow> user_channel" where
  "ticketOk mine c =
     (if outdated mine (uc_feed c) then c
      else c\<lparr>uc_feed := (uc_feed c)\<lparr>uf_socket := Some (uc_next c)\<rparr>,
             uc_sockets := uc_sockets c @ [(uc_next c, mine)], uc_next := uc_next c + 1\<rparr>)"

text \<open>\<open>socket.onopen\<close>, which starts the snapshots; \<open>socket.onmessage\<close>, given the events of a frame.\<close>

definition onOpenSocket :: "nat \<Rightarrow> user_channel \<Rightarrow> user_channel" where
  "onOpenSocket mine c =
     (if outdated mine (uc_feed c) then c
      else c\<lparr>uc_feed := (uc_feed c)\<lparr>uf_attempt := 0, uf_buffering := True, uf_buffer := [], uf_status := Syncing\<rparr>,
             uc_syncs := uc_syncs c @ [mine], uc_heard := [], uc_told := []\<rparr>)"

definition dispatch :: "TUserEvent list \<Rightarrow> user_channel \<Rightarrow> user_channel" where
  "dispatch evs c = c\<lparr>uc_told := uc_told c @ evs\<rparr>"

definition onMessage :: "nat \<Rightarrow> TUserEvent list option \<Rightarrow> user_channel \<Rightarrow> user_channel" where
  "onMessage mine frame c =
     (if outdated mine (uc_feed c) then c
      else (case frame of
              None \<Rightarrow> c
            | Some evs \<Rightarrow>
                (let c1 = c\<lparr>uc_heard := uc_heard c @ evs\<rparr>; f = uc_feed c
                 in if evs = [] then c
                    else if uf_buffering f then
                      (if length (uf_buffer f) < user_max_buffer
                       then c1\<lparr>uc_feed := f\<lparr>uf_buffer := uf_buffer f @ evs\<rparr>\<rparr> else c1)
                    else dispatch evs c1)))"

text \<open>\<open>resyncAndDrain\<close> once every snapshot has been answered, well or not.\<close>

definition drain :: "nat \<Rightarrow> user_channel \<Rightarrow> user_channel" where
  "drain mine c =
     (if outdated mine (uc_feed c) then c
      else
        (let f = uc_feed c;
             c1 = c\<lparr>uc_feed := f\<lparr>uf_buffer := [], uf_buffering := False, uf_status := FeedLive,
                                 uf_resyncs := uf_resyncs f + 1\<rparr>\<rparr>
         in if uf_buffer f = [] then c1 else dispatch (uf_buffer f) c1))"

section \<open>The tab and the account\<close>

definition onHidden :: "user_channel \<Rightarrow> user_channel" where
  "onHidden c = c\<lparr>uc_feed := (uc_feed c)\<lparr>uf_hiddenTimer := True\<rparr>\<rparr>"

definition hiddenLong :: "user_channel \<Rightarrow> user_channel" where
  "hiddenLong c = setStatus FeedDisconnected (teardownChannel (c\<lparr>uc_feed := (uc_feed c)\<lparr>uf_hiddenTimer := False\<rparr>\<rparr>))"

definition onVisible :: "user_channel \<Rightarrow> user_channel" where
  "onVisible c =
     (let c1 = c\<lparr>uc_feed := (uc_feed c)\<lparr>uf_hiddenTimer := False\<rparr>\<rparr>
      in if uf_socket (uc_feed c) = None \<and> uf_retryTimer (uc_feed c) = None
         then connectChannel (c1\<lparr>uc_feed := (uc_feed c1)\<lparr>uf_attempt := 0\<rparr>\<rparr>) else c1)"

text \<open>The clean-up of the effect.\<close>

definition unmount :: "user_channel \<Rightarrow> user_channel" where
  "unmount c = teardownChannel (c\<lparr>uc_feed := (uc_feed c)\<lparr>uf_stopped := True, uf_hiddenTimer := False\<rparr>\<rparr>)"

definition mounted_channel :: user_channel where
  "mounted_channel =
     connectChannel
       \<lparr>uc_feed = \<lparr>uf_status = Idle, uf_resyncs = 0, uf_socket = None, uf_retryTimer = None, uf_hiddenTimer = False,
          uf_attempt = 0, uf_generation = 0, uf_stopped = False, uf_buffering = False, uf_buffer = []\<rparr>,
        uc_tickets = [], uc_sockets = [], uc_opened = [], uc_syncs = [], uc_timers = [], uc_next = 0, uc_heard = [], uc_told = []\<rparr>"

text \<open>
  The states the effect can be in: all of them without the flag. With it, the states in which the tab
  was never shown again while a ticket of the present connection was awaited. Nothing in the code sees to
  that (\<open>onVisible\<close> connects again, user-feed.tsx:346), and what follows otherwise is proved as
  \<open>second_ticket_leaks_a_socket\<close>; what holds with the flag is stated with this condition. A socket that closes or fails leaves
  the list of those that are open and calls \<open>fail\<close>, whichever connection it was of.
\<close>

inductive channel_reachable :: "bool \<Rightarrow> user_channel \<Rightarrow> bool" for patient where
  mounted: "channel_reachable patient mounted_channel"
| ticket: "channel_reachable patient c \<Longrightarrow> mine \<in> set (uc_tickets c) \<Longrightarrow>
    channel_reachable patient (ticketOk mine (c\<lparr>uc_tickets := remove1 mine (uc_tickets c)\<rparr>))"
| no_ticket: "channel_reachable patient c \<Longrightarrow> mine \<in> set (uc_tickets c) \<Longrightarrow>
    channel_reachable patient (ticketFailed mine silent (c\<lparr>uc_tickets := remove1 mine (uc_tickets c)\<rparr>))"
| no_socket: "channel_reachable patient c \<Longrightarrow> mine \<in> set (uc_tickets c) \<Longrightarrow>
    channel_reachable patient (ticketRefused mine (c\<lparr>uc_tickets := remove1 mine (uc_tickets c)\<rparr>))"
| opens: "channel_reachable patient c \<Longrightarrow> (n, mine) \<in> set (uc_sockets c) \<Longrightarrow> n \<notin> set (uc_opened c) \<Longrightarrow>
    channel_reachable patient (onOpenSocket mine (c\<lparr>uc_opened := uc_opened c @ [n]\<rparr>))"
| message: "channel_reachable patient c \<Longrightarrow> (n, mine) \<in> set (uc_sockets c) \<Longrightarrow> n \<in> set (uc_opened c) \<Longrightarrow>
    channel_reachable patient (onMessage mine frame c)"
| closes: "channel_reachable patient c \<Longrightarrow> (n, mine) \<in> set (uc_sockets c) \<Longrightarrow>
    channel_reachable patient (failChannel (c\<lparr>uc_sockets := filter (\<lambda>s. fst s \<noteq> n) (uc_sockets c)\<rparr>))"
| synced: "channel_reachable patient c \<Longrightarrow> mine \<in> set (uc_syncs c) \<Longrightarrow>
    channel_reachable patient (drain mine (c\<lparr>uc_syncs := remove1 mine (uc_syncs c)\<rparr>))"
| retry: "channel_reachable patient c \<Longrightarrow> t \<in> set (uc_timers c) \<Longrightarrow>
    channel_reachable patient (connectChannel (c\<lparr>uc_timers := filter (\<lambda>u. u \<noteq> t) (uc_timers c)\<rparr>))"
| hidden: "channel_reachable patient c \<Longrightarrow> \<not> uf_stopped (uc_feed c) \<Longrightarrow> \<not> uf_hiddenTimer (uc_feed c) \<Longrightarrow>
    channel_reachable patient (onHidden c)"
| hidden_long: "channel_reachable patient c \<Longrightarrow> uf_hiddenTimer (uc_feed c) \<Longrightarrow> channel_reachable patient (hiddenLong c)"
| visible: "channel_reachable patient c \<Longrightarrow> \<not> uf_stopped (uc_feed c) \<Longrightarrow>
    (patient \<Longrightarrow> uf_generation (uc_feed c) \<notin> set (uc_tickets c)) \<Longrightarrow> channel_reachable patient (onVisible c)"
| unmounted: "channel_reachable patient c \<Longrightarrow> channel_reachable patient (unmount c)"

end
