(* ===== verification/PrivateFeedProperties.thy ===== *)
theory PrivateFeedProperties
  imports PrivateFeed "HOL-Library.Sublist"
begin

text \<open>
  The private channel passes through seven phases as long as the tab is not shown again while a ticket
  is awaited; what the status says, what is open and what has been delivered follow from the phase. If
  it is shown then, a second socket is opened and the first is never closed.
\<close>

section \<open>Phases\<close>

datatype phase = Down | Asking | Waiting nat | Opening nat | Fetching nat | Up nat | Ended

fun phase_socket :: "phase \<Rightarrow> nat option" where
  "phase_socket (Opening n) = Some n"
| "phase_socket (Fetching n) = Some n"
| "phase_socket (Up n) = Some n"
| "phase_socket _ = None"

fun phase_timer :: "phase \<Rightarrow> nat option" where
  "phase_timer (Waiting t) = Some t"
| "phase_timer _ = None"

fun phase_status :: "phase \<Rightarrow> UserFeedStatus \<Rightarrow> bool" where
  "phase_status Down s = (s = FeedDisconnected)"
| "phase_status Asking s = (s = FeedConnecting \<or> s = FeedReconnecting)"
| "phase_status (Waiting t) s = (s = FeedReconnecting)"
| "phase_status (Opening n) s = (s = FeedConnecting \<or> s = FeedReconnecting)"
| "phase_status (Fetching n) s = (s = Syncing)"
| "phase_status (Up n) s = (s = FeedLive)"
| "phase_status Ended s = True"

fun fetching :: "phase \<Rightarrow> bool" where
  "fetching (Fetching n) = True"
| "fetching _ = False"

fun open_phase :: "phase \<Rightarrow> bool" where
  "open_phase (Fetching n) = True"
| "open_phase (Up n) = True"
| "open_phase _ = False"

text \<open>What was kept of the events that arrived: all of them, or a part when the buffer was full.\<close>

definition kept :: "TUserEvent list \<Rightarrow> TUserEvent list \<Rightarrow> bool" where
  "kept got heard \<longleftrightarrow> subseq got heard \<and> (got = heard \<or> user_max_buffer \<le> length got)"

fun delivered :: "phase \<Rightarrow> user_channel \<Rightarrow> bool" where
  "delivered (Fetching n) c = (uc_told c = [] \<and> kept (uf_buffer (uc_feed c)) (uc_heard c))"
| "delivered (Up n) c = (uf_buffer (uc_feed c) = [] \<and> kept (uc_told c) (uc_heard c))"
| "delivered _ c = (uf_buffer (uc_feed c) = [])"

definition shaped :: "phase \<Rightarrow> user_channel \<Rightarrow> bool" where
  "shaped ph c \<longleftrightarrow>
     (let f = uc_feed c; g = uf_generation f
      in uf_socket f = phase_socket ph \<and> uc_sockets c = (case phase_socket ph of None \<Rightarrow> [] | Some n \<Rightarrow> [(n, g)])
       \<and> uf_retryTimer f = phase_timer ph \<and> uc_timers c = (case phase_timer ph of None \<Rightarrow> [] | Some t \<Rightarrow> [t])
       \<and> count_list (uc_tickets c) g = of_bool (ph = Asking) \<and> count_list (uc_syncs c) g = of_bool (fetching ph)
       \<and> uf_buffering f = fetching ph
       \<and> (\<forall>n. phase_socket ph = Some n \<longrightarrow> n < uc_next c \<and> (n \<in> set (uc_opened c)) = open_phase ph)
       \<and> delivered ph c)"

definition in_phase :: "phase \<Rightarrow> user_channel \<Rightarrow> bool" where
  "in_phase ph c \<longleftrightarrow> shaped ph c \<and> phase_status ph (uf_status (uc_feed c)) \<and> uf_stopped (uc_feed c) = (ph = Ended)"

text \<open>
  Nothing is awaited of a later generation, numbers are drawn in order, and no timer outlives the effect.
\<close>

definition fresh :: "user_channel \<Rightarrow> bool" where
  "fresh c \<longleftrightarrow>
     (\<forall>m \<in> set (uc_tickets c @ uc_syncs c). m \<le> uf_generation (uc_feed c)) \<and> (\<forall>n \<in> set (uc_opened c). n < uc_next c)
     \<and> (uf_stopped (uc_feed c) \<longrightarrow> \<not> uf_hiddenTimer (uc_feed c))"

lemma kept_Nil [simp]: "kept [] []"
  by (simp add: kept_def)

lemma kept_append: "kept got heard \<Longrightarrow> kept (got @ evs) (heard @ evs)"
  by (auto simp: kept_def)

lemma kept_full: "kept got heard \<Longrightarrow> user_max_buffer \<le> length got \<Longrightarrow> kept got (heard @ evs)"
  by (auto simp: kept_def subseq_rev_drop_many)

lemma count_remove1: "count_list (remove1 x xs) y = count_list xs y - (if x = y \<and> x \<in> set xs then 1 else 0)"
  by (induction xs) (auto simp: count_list_0_iff Suc_diff_le)

lemma count_later: "\<forall>m \<in> set xs. m \<le> (g :: nat) \<Longrightarrow> count_list xs (Suc g) = 0"
  by (simp add: count_list_0_iff) (metis Suc_n_not_le_n)

section \<open>Every step leads from a phase to a phase\<close>

lemma teardown_shaped:
  assumes "shaped ph c" "fresh c" "ph' \<in> {Down, Ended}"
  shows "shaped ph' (teardownChannel c)" "fresh (teardownChannel c)"
proof -
  have z: "count_list (uc_tickets c) (Suc (uf_generation (uc_feed c))) = 0" "count_list (uc_syncs c) (Suc (uf_generation (uc_feed c))) = 0"
    using assms(2) by (simp_all add: fresh_def count_later)
  show "shaped ph' (teardownChannel c)" using assms(1,3) z
    by (cases ph) (auto simp: shaped_def teardownChannel_def Let_def)
  show "fresh (teardownChannel c)" using assms(2) by (auto simp: fresh_def teardownChannel_def Let_def intro: le_SucI)
qed

lemma setStatus_shaped [simp]: "shaped ph (setStatus s c) = shaped ph c" "fresh (setStatus s c) = fresh c"
  by (cases ph; simp add: shaped_def setStatus_def fresh_def Let_def)+

lemma teardown_flags [simp]:
  "uf_stopped (uc_feed (teardownChannel c)) = uf_stopped (uc_feed c)" "uf_status (uc_feed (teardownChannel c)) = uf_status (uc_feed c)"
  "uf_stopped (uc_feed (setStatus s c)) = uf_stopped (uc_feed c)" "uf_status (uc_feed (setStatus s c)) = s"
  by (simp_all add: teardownChannel_def setStatus_def Let_def)

lemma scheduled:
  assumes "shaped Down c" "fresh c" "\<not> uf_stopped (uc_feed c)"
  shows "in_phase (Waiting (uc_next c)) (scheduleRetry c)" "fresh (scheduleRetry c)"
  using assms by (auto simp: in_phase_def shaped_def scheduleRetry_def fresh_def Let_def)

lemma asked:
  assumes "shaped Down c" "fresh c" "\<not> uf_stopped (uc_feed c)"
  shows "in_phase Asking (connectChannel c)" "fresh (connectChannel c)"
  using assms by (auto simp: in_phase_def shaped_def connectChannel_def fresh_def Let_def)

text \<open>An answer to a request: of the present connection, or of one that is gone.\<close>

lemma ticket_taken:
  assumes "in_phase ph c" "fresh c" "mine \<in> set (uc_tickets c)"
  defines "c' \<equiv> c\<lparr>uc_tickets := remove1 mine (uc_tickets c)\<rparr>"
  shows "fresh c'" "outdated mine (uc_feed c') \<Longrightarrow> in_phase ph c'"
    "\<not> outdated mine (uc_feed c') \<Longrightarrow> ph = Asking \<and> shaped Down c' \<and> \<not> uf_stopped (uc_feed c')"
proof -
  show "fresh c'" using assms(2) by (auto simp: fresh_def c'_def dest: subsetD[OF set_remove1_subset])
  have cnt: "count_list (uc_tickets c') g = count_list (uc_tickets c) g - (if mine = g then 1 else 0)" for g
    using assms(3) by (simp add: c'_def count_remove1)
  show "in_phase ph c'" if "outdated mine (uc_feed c')"
    using assms(1) that cnt by (cases ph) (auto simp: in_phase_def shaped_def c'_def Let_def count_remove1)
  assume now: "\<not> outdated mine (uc_feed c')"
  then have "0 < count_list (uc_tickets c) (uf_generation (uc_feed c))"
    using assms(3) by (metis c'_def count_list_0_iff gr0I user_channel.select_convs(1) user_channel.surjective user_channel.update_convs(2))
  then have "ph = Asking" using assms(1) by (auto simp: in_phase_def shaped_def Let_def)
  then show "ph = Asking \<and> shaped Down c' \<and> \<not> uf_stopped (uc_feed c')"
    using assms(1) now by (auto simp: in_phase_def shaped_def c'_def Let_def count_remove1)
qed


definition some_phase :: "user_channel \<Rightarrow> bool" where
  "some_phase c \<longleftrightarrow> (\<exists>ph. in_phase ph c) \<and> fresh c"

lemma some_phaseI: "in_phase ph c \<Longrightarrow> fresh c \<Longrightarrow> some_phase c"
  by (auto simp: some_phase_def)

lemma torn_down:
  assumes "shaped ph c" "fresh c" "\<not> uf_stopped (uc_feed c)"
  shows "some_phase (setStatus FeedDisconnected (teardownChannel c))"
  using teardown_shaped[OF assms(1,2), of Down] assms(3) by (intro some_phaseI[of Down]) (simp_all add: in_phase_def)

lemma ticket_phase:
  assumes "some_phase c" "mine \<in> set (uc_tickets c)"
  defines "c' \<equiv> c\<lparr>uc_tickets := remove1 mine (uc_tickets c)\<rparr>"
  shows "some_phase (ticketOk mine c')" "some_phase (ticketFailed mine silent c')" "some_phase (ticketRefused mine c')"
proof -
  obtain ph where ph: "in_phase ph c" and fr: "fresh c" using assms(1) by (auto simp: some_phase_def)
  note took = ticket_taken[OF ph fr assms(2), folded c'_def]
  show "some_phase (ticketOk mine c')"
  proof (cases "outdated mine (uc_feed c')")
    case False
    note a = took(3)[OF False]
    have st: "phase_status Asking (uf_status (uc_feed c'))" using ph a by (simp add: in_phase_def c'_def)
    have "uc_next c' \<notin> set (uc_opened c')" using took(1) by (auto simp: fresh_def)
    then have "in_phase (Opening (uc_next c')) (ticketOk mine c')"
      using a False st by (auto simp: ticketOk_def in_phase_def shaped_def Let_def)
    moreover have "fresh (ticketOk mine c')" using took(1) False by (auto simp: ticketOk_def fresh_def)
    ultimately show ?thesis by (rule some_phaseI)
  qed (use took in \<open>auto simp: ticketOk_def intro: some_phaseI\<close>)
  show "some_phase (ticketFailed mine silent c')"
  proof (cases "outdated mine (uc_feed c')")
    case False
    note a = took(3)[OF False]
    show ?thesis
    proof (cases silent)
      case True
      then show ?thesis using False torn_down[of Down c'] a took(1) by (simp add: ticketFailed_def)
    next
      case plain: False
      then show ?thesis using False scheduled[of c'] a took(1) by (auto simp: ticketFailed_def intro: some_phaseI)
    qed
  qed (use took in \<open>auto simp: ticketFailed_def intro: some_phaseI\<close>)
  show "some_phase (ticketRefused mine c')"
  proof (cases "outdated mine (uc_feed c')")
    case False
    note a = took(3)[OF False]
    then have "c'\<lparr>uc_feed := (uc_feed c')\<lparr>uf_socket := None\<rparr>\<rparr> = c'" by (auto simp: shaped_def Let_def)
    then show ?thesis using False scheduled[of c'] a took(1) by (auto simp: ticketRefused_def intro: some_phaseI)
  qed (use took in \<open>auto simp: ticketRefused_def intro: some_phaseI\<close>)
qed

text \<open>A socket that is open is the one that is held, of the present generation.\<close>

lemma socket_held:
  assumes "in_phase ph c" "(n, mine) \<in> set (uc_sockets c)"
  shows "phase_socket ph = Some n" "mine = uf_generation (uc_feed c)" "\<not> uf_stopped (uc_feed c)"
    "n \<in> set (uc_opened c) \<longleftrightarrow> open_phase ph" "n < uc_next c" "uc_sockets c = [(n, mine)]"
  using assms by (auto simp: in_phase_def shaped_def Let_def split: option.splits)

lemma socket_phase:
  assumes "some_phase c" "(n, mine) \<in> set (uc_sockets c)"
  shows "n \<notin> set (uc_opened c) \<Longrightarrow> some_phase (onOpenSocket mine (c\<lparr>uc_opened := uc_opened c @ [n]\<rparr>))"
    "n \<in> set (uc_opened c) \<Longrightarrow> some_phase (onMessage mine frame c)"
    "some_phase (failChannel (c\<lparr>uc_sockets := filter (\<lambda>s. fst s \<noteq> n) (uc_sockets c)\<rparr>))"
proof -
  obtain ph where ph: "in_phase ph c" and fr: "fresh c" using assms(1) by (auto simp: some_phase_def)
  note held = socket_held[OF ph assms(2)]
  show "some_phase (onOpenSocket mine (c\<lparr>uc_opened := uc_opened c @ [n]\<rparr>))" if "n \<notin> set (uc_opened c)"
  proof -
    have "ph = Opening n" using held(1,4) that by (cases ph) auto
    then have "in_phase (Fetching n) (onOpenSocket mine (c\<lparr>uc_opened := uc_opened c @ [n]\<rparr>))"
      using ph held(2,3) by (auto simp: in_phase_def shaped_def onOpenSocket_def Let_def)
    moreover have "fresh (onOpenSocket mine (c\<lparr>uc_opened := uc_opened c @ [n]\<rparr>))"
      using fr held(2,3,5) by (auto simp: fresh_def onOpenSocket_def)
    ultimately show ?thesis by (rule some_phaseI)
  qed
  show "some_phase (onMessage mine frame c)" if "n \<in> set (uc_opened c)"
  proof -
    have "open_phase ph" using held(4) that by simp
    then have "in_phase ph (onMessage mine frame c)" using ph held(2,3)
      by (cases ph) (auto simp: in_phase_def shaped_def onMessage_def dispatch_def Let_def kept_append kept_full split: option.split)
    moreover have "fresh (onMessage mine frame c)"
      using fr by (auto simp: fresh_def onMessage_def dispatch_def Let_def split: option.split)
    ultimately show ?thesis by (rule some_phaseI)
  qed
  show "some_phase (failChannel (c\<lparr>uc_sockets := filter (\<lambda>s. fst s \<noteq> n) (uc_sockets c)\<rparr>))"
  proof -
    have "teardownChannel (c\<lparr>uc_sockets := filter (\<lambda>s. fst s \<noteq> n) (uc_sockets c)\<rparr>) = teardownChannel c"
      "uf_socket (uc_feed c) = Some n"
      using ph held(1,6) by (cases ph; simp add: in_phase_def shaped_def teardownChannel_def Let_def)+
    moreover have "shaped ph c" using ph by (simp add: in_phase_def)
    ultimately show ?thesis
      using scheduled[of "teardownChannel c"] teardown_shaped[of ph c Down] fr held(3)
      by (auto simp: failChannel_def intro: some_phaseI)
  qed
qed

lemma drain_phase:
  assumes "some_phase c" "mine \<in> set (uc_syncs c)"
  shows "some_phase (drain mine (c\<lparr>uc_syncs := remove1 mine (uc_syncs c)\<rparr>))"
proof -
  obtain ph where ph: "in_phase ph c" and fr: "fresh c" using assms(1) by (auto simp: some_phase_def)
  let ?c = "c\<lparr>uc_syncs := remove1 mine (uc_syncs c)\<rparr>"
  have cnt: "count_list (uc_syncs ?c) g = count_list (uc_syncs c) g - (if mine = g then 1 else 0)" for g
    using assms(2) by (simp add: count_remove1)
  have fr': "fresh ?c" using fr by (auto simp: fresh_def dest: subsetD[OF set_remove1_subset])
  show ?thesis
  proof (cases "outdated mine (uc_feed c)")
    case True
    then have "in_phase ph ?c" using ph cnt by (cases ph) (auto simp: in_phase_def shaped_def Let_def)
    then show ?thesis using True fr' by (auto simp: drain_def intro: some_phaseI)
  next
    case False
    then have "0 < count_list (uc_syncs c) (uf_generation (uc_feed c))"
      using assms(2) by (metis count_list_0_iff gr0I)
    then have "fetching ph" using ph by (auto simp: in_phase_def shaped_def Let_def)
    then obtain n where n: "ph = Fetching n" by (cases ph) auto
    then have "in_phase (Up n) (drain mine ?c)" using ph False cnt
      by (auto simp: in_phase_def shaped_def drain_def dispatch_def Let_def)
    moreover have "fresh (drain mine ?c)" using fr' False by (auto simp: fresh_def drain_def dispatch_def Let_def)
    ultimately show ?thesis by (rule some_phaseI)
  qed
qed

lemma timer_phase:
  assumes "some_phase c" "t \<in> set (uc_timers c)"
  shows "some_phase (connectChannel (c\<lparr>uc_timers := filter (\<lambda>u. u \<noteq> t) (uc_timers c)\<rparr>))"
proof -
  obtain ph where ph: "in_phase ph c" and fr: "fresh c" using assms(1) by (auto simp: some_phase_def)
  have w: "ph = Waiting t" using ph assms(2) by (cases ph) (auto simp: in_phase_def shaped_def Let_def)
  let ?c = "c\<lparr>uc_timers := filter (\<lambda>u. u \<noteq> t) (uc_timers c)\<rparr>"
  have "in_phase Asking (connectChannel ?c)"
    using ph w by (auto simp: in_phase_def shaped_def connectChannel_def Let_def)
  moreover have "fresh (connectChannel ?c)" using fr by (auto simp: fresh_def connectChannel_def Let_def)
  ultimately show ?thesis by (rule some_phaseI)
qed

lemma timer_flag: "in_phase ph (c\<lparr>uc_feed := (uc_feed c)\<lparr>uf_hiddenTimer := b\<rparr>\<rparr>) = in_phase ph c"
  by (cases ph; simp add: in_phase_def shaped_def Let_def)

lemma timer_fresh: "fresh c \<Longrightarrow> \<not> (b \<and> uf_stopped (uc_feed c)) \<Longrightarrow> fresh (c\<lparr>uc_feed := (uc_feed c)\<lparr>uf_hiddenTimer := b\<rparr>\<rparr>)"
  by (auto simp: fresh_def)

lemma visible_phase:
  assumes "some_phase c" "\<not> uf_stopped (uc_feed c)" "uf_generation (uc_feed c) \<notin> set (uc_tickets c)"
  shows "some_phase (onVisible c)"
proof -
  obtain ph where ph: "in_phase ph c" and fr: "fresh c" using assms(1) by (auto simp: some_phase_def)
  have "ph \<noteq> Asking" using ph assms(3) by (auto simp: in_phase_def shaped_def Let_def count_list_0_iff)
  show ?thesis
  proof (cases "uf_socket (uc_feed c) = None \<and> uf_retryTimer (uc_feed c) = None")
    case True
    then have d: "ph = Down" using ph assms(2) \<open>ph \<noteq> Asking\<close> by (cases ph) (auto simp: in_phase_def shaped_def Let_def)
    let ?c = "c\<lparr>uc_feed := (uc_feed c)\<lparr>uf_hiddenTimer := False, uf_attempt := 0\<rparr>\<rparr>"
    have "shaped Down ?c" "fresh ?c" using ph d fr by (simp_all add: in_phase_def shaped_def fresh_def Let_def)
    then show ?thesis using asked[of ?c] assms(2) True by (auto simp: onVisible_def Let_def intro: some_phaseI)
  next
    case False
    then have "onVisible c = c\<lparr>uc_feed := (uc_feed c)\<lparr>uf_hiddenTimer := False\<rparr>\<rparr>" by (auto simp: onVisible_def Let_def)
    then show ?thesis using ph fr by (auto simp: timer_flag timer_fresh some_phase_def)
  qed
qed

lemma hidden_phase: "some_phase c \<Longrightarrow> \<not> uf_stopped (uc_feed c) \<Longrightarrow> some_phase (onHidden c)"
  by (auto simp: some_phase_def onHidden_def timer_flag timer_fresh)

lemma hidden_long_phase:
  assumes "some_phase c" "uf_hiddenTimer (uc_feed c)"
  shows "some_phase (hiddenLong c)"
proof -
  obtain ph where ph: "in_phase ph c" and fr: "fresh c" using assms(1) by (auto simp: some_phase_def)
  let ?c = "c\<lparr>uc_feed := (uc_feed c)\<lparr>uf_hiddenTimer := False\<rparr>\<rparr>"
  have "shaped ph ?c" using ph timer_flag[where ph = ph and c = c and b = False] by (simp add: in_phase_def)
  moreover have "\<not> uf_stopped (uc_feed ?c)" using fr assms(2) by (auto simp: fresh_def)
  ultimately show ?thesis unfolding hiddenLong_def using fr by (intro torn_down timer_fresh) simp_all
qed

lemma unmount_phase: "some_phase c \<Longrightarrow> some_phase (unmount c)"
proof -
  assume "some_phase c"
  then obtain ph where ph: "in_phase ph c" and fr: "fresh c" by (auto simp: some_phase_def)
  let ?c = "c\<lparr>uc_feed := (uc_feed c)\<lparr>uf_stopped := True, uf_hiddenTimer := False\<rparr>\<rparr>"
  have "shaped ph ?c" "fresh ?c" using ph fr by (cases ph; simp add: in_phase_def shaped_def fresh_def Let_def)+
  then show ?thesis
    using teardown_shaped[of ph ?c Ended] by (auto simp: unmount_def in_phase_def intro!: some_phaseI[of Ended])
qed

lemma reachable_phase: "channel_reachable True c \<Longrightarrow> some_phase c"
proof (induction rule: channel_reachable.induct)
  case mounted
  have "in_phase Asking mounted_channel"
    by (simp add: in_phase_def shaped_def mounted_channel_def connectChannel_def Let_def)
  moreover have "fresh mounted_channel" by (simp add: fresh_def mounted_channel_def connectChannel_def Let_def)
  ultimately show ?case by (rule some_phaseI)
next
  case visible
  then show ?case by (simp add: visible_phase)
qed (simp_all add: ticket_phase socket_phase drain_phase timer_phase hidden_phase hidden_long_phase unmount_phase)

section \<open>What the phases say\<close>

text \<open>
  C20. The status of the private channel is true. As long as the tab is not shown again while a ticket is
  awaited: the channel says it is syncing exactly while it buffers, and live exactly while it holds a
  socket that has opened and does not buffer; whatever it says except that it has given up, it holds a
  socket, awaits a ticket or has a retry scheduled, and no two of these; no socket is open but the one it
  holds; and once the account is gone none is, and no timer is left.
\<close>

theorem channel_status_is_true:
  assumes "channel_reachable True c"
  shows "if uf_stopped (uc_feed c) then uc_sockets c = [] \<and> uc_timers c = [] \<and> \<not> uf_buffering (uc_feed c)
    else (uf_status (uc_feed c) = Syncing) = uf_buffering (uc_feed c)
      \<and> (uf_status (uc_feed c) = FeedLive) =
          ((\<exists>n \<in> set (uc_opened c). uf_socket (uc_feed c) = Some n) \<and> \<not> uf_buffering (uc_feed c))
      \<and> map fst (uc_sockets c) = (case uf_socket (uc_feed c) of None \<Rightarrow> [] | Some n \<Rightarrow> [n])
      \<and> length (uc_sockets c) + length (uc_timers c) + count_list (uc_tickets c) (uf_generation (uc_feed c)) =
          (if uf_status (uc_feed c) = FeedDisconnected then 0 else 1)"
proof -
  obtain ph where "in_phase ph c" using reachable_phase[OF assms] by (auto simp: some_phase_def)
  then show ?thesis by (cases ph) (auto simp: in_phase_def shaped_def Let_def)
qed

text \<open>
  C19. The private channel delivers in order. As long as the tab is not shown again while a ticket is
  awaited: from the opening of a socket until the snapshots have been answered the subscribers are given
  nothing, and afterwards they have been given the events that arrived since it opened, in order, each
  once, except that some may be missing when at least 256 had arrived.
\<close>

theorem channel_delivers_in_order:
  assumes "channel_reachable True c"
  shows "(uf_status (uc_feed c) = Syncing \<and> \<not> uf_stopped (uc_feed c) \<longrightarrow> uc_told c = [])
    \<and> (uf_status (uc_feed c) = FeedLive \<and> \<not> uf_stopped (uc_feed c) \<longrightarrow>
        subseq (uc_told c) (uc_heard c) \<and> (length (uc_heard c) \<le> user_max_buffer \<longrightarrow> uc_told c = uc_heard c))"
proof -
  obtain ph where "in_phase ph c" using reachable_phase[OF assms] by (auto simp: some_phase_def)
  moreover have "got = heard" if "subseq got heard" "length heard \<le> length got" for got heard :: "TUserEvent list"
    using that by (metis list_emb_length le_antisym subseq_same_length)
  ultimately show ?thesis by (cases ph) (auto simp: in_phase_def shaped_def kept_def Let_def dest: order_trans)
qed


text \<open>A connection from its ticket to its first events: one arrives before the snapshots, one after.\<close>

definition sample_event :: "string \<Rightarrow> TUserEvent" where
  "sample_event q = OrderUpdate ''o1'' ''m'' PartiallyFilled q"

definition connected_channel :: user_channel where
  "connected_channel = onOpenSocket 0 ((ticketOk 0 (mounted_channel\<lparr>uc_tickets := []\<rparr>))\<lparr>uc_opened := [0]\<rparr>)"

definition live_channel :: "TUserEvent list \<Rightarrow> TUserEvent list \<Rightarrow> user_channel" where
  "live_channel early late =
     onMessage 0 (Some late) (drain 0 ((onMessage 0 (Some early) connected_channel)\<lparr>uc_syncs := []\<rparr>))"

lemmas channel_defs = connected_channel_def mounted_channel_def connectChannel_def ticketOk_def onOpenSocket_def onMessage_def
  drain_def dispatch_def Let_def user_max_buffer_def

lemma connected_reachable: "channel_reachable patient connected_channel"
proof -
  have "channel_reachable patient (ticketOk 0 (mounted_channel\<lparr>uc_tickets := []\<rparr>))"
    using ticket[OF mounted, of 0] by (simp add: channel_defs)
  from opens[OF this, of 0 0] show ?thesis by (simp add: channel_defs)
qed

lemma connected_simps [simp]:
  "uc_sockets connected_channel = [(0, 0)]" "uc_opened connected_channel = [0]" "uc_syncs connected_channel = [0]"
  "uc_told connected_channel = []" "uc_heard connected_channel = []"
  "uc_feed connected_channel = \<lparr>uf_status = Syncing, uf_resyncs = 0, uf_socket = Some 0, uf_retryTimer = None,
     uf_hiddenTimer = False, uf_attempt = 0, uf_generation = 0, uf_stopped = False, uf_buffering = True, uf_buffer = []\<rparr>"
  by (simp_all add: channel_defs)

lemma live_reachable:
  "channel_reachable patient (live_channel early late)"
  "uf_status (uc_feed (live_channel early late)) = FeedLive" "\<not> uf_stopped (uc_feed (live_channel early late))"
  "uc_told (live_channel early late) = early @ late" "uc_heard (live_channel early late) = early @ late"
  "uf_socket (uc_feed (live_channel early late)) = Some 0" "uc_sockets (live_channel early late) = [(0, 0)]"
proof -
  let ?c = "onMessage 0 (Some early) connected_channel"
  have m: "channel_reachable patient ?c" using message[OF connected_reachable, of 0 0] by simp
  have s: "uc_sockets ?c = [(0, 0)]" "uc_opened ?c = [0]" "uc_syncs ?c = [0]"
    by (simp_all add: onMessage_def Let_def user_max_buffer_def)
  have d: "channel_reachable patient (drain 0 (?c\<lparr>uc_syncs := []\<rparr>))" using synced[OF m, of 0] s by simp
  show "channel_reachable patient (live_channel early late)"
    using message[OF d, of 0 0 "Some late"] s by (simp add: live_channel_def drain_def dispatch_def Let_def)
qed (simp_all add: live_channel_def onMessage_def drain_def dispatch_def Let_def user_max_buffer_def)

lemma channel_status_is_true_witness:
  "uf_status (uc_feed (live_channel [sample_event ''1''] [sample_event ''2''])) = FeedLive
    \<and> length (uc_sockets (live_channel [sample_event ''1''] [sample_event ''2''])) = 1
    \<and> uc_timers (live_channel [sample_event ''1''] [sample_event ''2'']) = []"
  using channel_status_is_true[OF live_reachable(1)[where early = "[sample_event ''1'']" and late = "[sample_event ''2'']"]]
  by (simp add: live_reachable)

lemma channel_delivers_in_order_witness:
  "uc_told (live_channel [sample_event ''1''] [sample_event ''2'']) = [sample_event ''1'', sample_event ''2'']"
  using channel_delivers_in_order[OF live_reachable(1)[where early = "[sample_event ''1'']" and late = "[sample_event ''2'']"]]
  by (simp add: live_reachable user_max_buffer_def)

section \<open>What goes wrong\<close>

text \<open>
  Events that find the buffer full are never delivered: the connection goes live without them, though
  the snapshots may have been read before they happened.
\<close>

theorem overflow_is_never_delivered:
  assumes "user_max_buffer \<le> length first" "lost \<noteq> []"
  defines "c \<equiv> onMessage 0 (Some lost) (onMessage 0 (Some first) connected_channel)"
  shows "channel_reachable True c" "uc_heard c = first @ lost"
    "uf_status (uc_feed (drain 0 c)) = FeedLive" "uc_told (drain 0 c) = first"
proof -
  have "channel_reachable True (onMessage 0 (Some first) connected_channel)" "uc_sockets (onMessage 0 (Some first) connected_channel) = [(0, 0)]"
    "uc_opened (onMessage 0 (Some first) connected_channel) = [0]"
    using message[OF connected_reachable, of 0 0 True "Some first"] by (simp_all add: onMessage_def Let_def user_max_buffer_def)
  then show "channel_reachable True c" unfolding c_def by (auto intro: message[where n = 0])
  show "uc_heard c = first @ lost" "uf_status (uc_feed (drain 0 c)) = FeedLive" "uc_told (drain 0 c) = first"
    using assms(1,2) by (auto simp: c_def onMessage_def drain_def dispatch_def Let_def user_max_buffer_def)
qed

text \<open>
  The tab is shown while a ticket is awaited: the effect asks for a second one, both are answered, and
  of the two sockets it keeps the second. When the account signs out the first stays open.
\<close>

theorem second_ticket_leaks_a_socket:
  "\<exists>c. channel_reachable False c \<and> \<not> uf_stopped (uc_feed c) \<and> map fst (uc_sockets c) = [0, 1] \<and> uf_socket (uc_feed c) = Some 1
    \<and> channel_reachable False (unmount c) \<and> map fst (uc_sockets (unmount c)) = [0]"
proof -
  let ?feed = "\<lambda>socket. \<lparr>uf_status = FeedConnecting, uf_resyncs = 0, uf_socket = socket, uf_retryTimer = None, uf_hiddenTimer = False,
          uf_attempt = 0, uf_generation = 0, uf_stopped = False, uf_buffering = False, uf_buffer = []\<rparr>"
  let ?channel = "\<lambda>socket tickets sockets. \<lparr>uc_feed = ?feed socket, uc_tickets = tickets, uc_sockets = sockets, uc_opened = [],
        uc_syncs = [], uc_timers = [], uc_next = length sockets, uc_heard = [], uc_told = []\<rparr>"
  have m: "mounted_channel = ?channel None [0] []" by (simp add: mounted_channel_def connectChannel_def Let_def)
  have "onVisible (?channel None [0] []) = ?channel None [0, 0] []" by (simp add: onVisible_def connectChannel_def Let_def)
  then have "channel_reachable False (?channel None [0, 0] [])"
    using visible[OF mounted, of False] unfolding m by simp
  from ticket[OF this, of 0] have "channel_reachable False (?channel (Some 0) [0] [(0, 0)])" by (simp add: ticketOk_def)
  from ticket[OF this, of 0] have r: "channel_reachable False (?channel (Some 1) [] [(0, 0), (1, 0)])"
    by (simp add: ticketOk_def numeral_2_eq_2)
  have "uc_sockets (unmount (?channel (Some 1) [] [(0, 0), (1, 0)])) = [(0, 0)]"
    by (simp add: unmount_def teardownChannel_def Let_def)
  with r unmounted[OF r] show ?thesis
    by (intro exI[of _ "?channel (Some 1) [] [(0, 0), (1, 0)]"]) simp
qed

end
