(* ===== verification/BackendComms.thy ===== *)
theory BackendComms
  imports Resilience DbWriter
begin

text \<open>
  How the backend asks the engine: \<open>apps/backend/src/services/backend-comms.ts\<close> and
  \<open>transport-failure.ts\<close>. A call of \<open>sendToEngineStream\<close> is a promise, numbered here in the order of the
  calls; its timer, its resolver in the map and its write to the stream are what can settle it. Redis
  hands over the replies as it does to the other listeners; parsing is a parameter.
\<close>

section \<open>Requests and replies\<close>

datatype 'r engine_answer = Accepted 'r | Declined string

record 'r reply =
  ry_correlationId :: string
  ry_answer :: "'r engine_answer"

datatype transport_error = ServiceUnavailable string string | OtherError "thrown option"

definition asTransportFailure :: "thrown option \<Rightarrow> transport_error" where
  "asTransportFailure err =
     (if isRedisConnectionError err then ServiceUnavailable ''Could not reach the matching engine'' ''ENGINE_TIMEOUT''
      else OtherError err)"

datatype 'r settled = Resolved "'r reply" | Rejected transport_error

text \<open>
  The map of the resolvers leads from a correlation id to the promise; the timers and the writes to the
  stream that have not ended are kept by promise, the outcomes in the order in which they fall.
\<close>

record 'r backend_comms =
  bc_promises :: "string list" \<comment> \<open>the correlation id of every promise\<close>
  bc_promiseResolvers :: "(string \<times> nat) list"
  bc_timers :: "nat list"
  bc_writing :: "nat list"
  bc_outcomes :: "(nat \<times> 'r settled) list"
  bc_acked :: "string list"

definition no_requests :: "'r backend_comms" where
  "no_requests =
     \<lparr>bc_promises = [], bc_promiseResolvers = [], bc_timers = [], bc_writing = [], bc_outcomes = [], bc_acked = []\<rparr>"

text \<open>
  \<open>settle\<close>: the timer and the resolver go, then the promise is resolved or rejected, which counts only
  the first time.
\<close>

definition settle :: "nat \<Rightarrow> 'r settled \<Rightarrow> 'r backend_comms \<Rightarrow> 'r backend_comms" where
  "settle n how c =
     c\<lparr>bc_timers := removeAll n (bc_timers c),
       bc_promiseResolvers := AList.delete (bc_promises c ! n) (bc_promiseResolvers c),
       bc_outcomes := (if n \<in> fst ` set (bc_outcomes c) then bc_outcomes c else bc_outcomes c @ [(n, how)])\<rparr>"

definition sendToEngineStream :: "string \<Rightarrow> 'r backend_comms \<Rightarrow> 'r backend_comms" where
  "sendToEngineStream correlationId c =
     (let n = length (bc_promises c)
      in c\<lparr>bc_promises := bc_promises c @ [correlationId], bc_timers := bc_timers c @ [n],
           bc_promiseResolvers := AList.update correlationId n (bc_promiseResolvers c),
           bc_writing := bc_writing c @ [n]\<rparr>)"

definition engineTimeout :: "nat \<Rightarrow> 'r backend_comms \<Rightarrow> 'r backend_comms" where
  "engineTimeout n c =
     settle n (Rejected (ServiceUnavailable ''The matching engine is not responding'' ''ENGINE_TIMEOUT''))
       (c\<lparr>bc_timers := removeAll n (bc_timers c)\<rparr>)"

definition xAddEnds :: "nat \<Rightarrow> thrown option option \<Rightarrow> 'r backend_comms \<Rightarrow> 'r backend_comms" where
  "xAddEnds n failure c =
     (let c1 = c\<lparr>bc_writing := removeAll n (bc_writing c)\<rparr>
      in case failure of None \<Rightarrow> c1 | Some err \<Rightarrow> settle n (Rejected (asTransportFailure err)) c1)"

definition pendingRequestCount :: "'r backend_comms \<Rightarrow> nat" where
  "pendingRequestCount c = length (bc_promiseResolvers c)"

section \<open>The listener\<close>

definition xAckReply :: "string \<Rightarrow> 'r backend_comms \<Rightarrow> 'r backend_comms" where
  "xAckReply messageId c = c\<lparr>bc_acked := bc_acked c @ [messageId]\<rparr>"

text \<open>The replies found pending at the start are only acknowledged: nobody waits for them any more.\<close>

fun handlePendingReplies :: "(string \<times> 'm) option list list \<Rightarrow> 'r backend_comms \<Rightarrow> 'r backend_comms" where
  "handlePendingReplies [] c = c"
| "handlePendingReplies (messages # batches) c =
     (if messages = [] then c
      else handlePendingReplies batches
        (foldl (\<lambda>c m. case m of None \<Rightarrow> c | Some (messageId, message) \<Rightarrow> xAckReply messageId c) c messages))"

text \<open>One new message; an empty correlation id is none.\<close>

definition replyMessage ::
  "('m \<Rightarrow> 'r reply received) \<Rightarrow> string \<times> 'm \<Rightarrow> 'r backend_comms \<Rightarrow> (unit, 'r backend_comms, unit) outcome" where
  "replyMessage parse = (\<lambda>(messageId, message) c.
     case parse message of
       Malformed \<Rightarrow> Return () (xAckReply messageId c)
     | NotJson \<Rightarrow> Throw () c
     | Received r \<Rightarrow>
         (let correlationId = ry_correlationId r
          in Return () (xAckReply messageId
               (if correlationId = [] then c
                else (case map_of (bc_promiseResolvers c) correlationId of
                        None \<Rightarrow> c
                      | Some n \<Rightarrow> settle n (Resolved r) c)))))"

fun overReplies ::
  "('m \<Rightarrow> 'r reply received) \<Rightarrow> (string \<times> 'm) list \<Rightarrow> 'r backend_comms \<Rightarrow> (unit, 'r backend_comms, unit) outcome" where
  "overReplies parse [] c = Return () c"
| "overReplies parse (m # ms) c =
     (case replyMessage parse m c of Throw u c' \<Rightarrow> Throw u c' | Return _ c' \<Rightarrow> overReplies parse ms c')"

definition readOneReplyBatch ::
  "('m \<Rightarrow> 'r reply received) \<Rightarrow> (string \<times> 'm) list list option \<Rightarrow> 'r backend_comms \<Rightarrow> (unit, 'r backend_comms, unit) outcome" where
  "readOneReplyBatch parse response c =
     (case response of None \<Rightarrow> Return () c | Some streams \<Rightarrow> overReplies parse (concat streams) c)"

text \<open>
  The states of a backend whose correlation ids are drawn afresh (\<open>crypto.randomUUID\<close>) and not empty.
\<close>

inductive comms_reachable :: "('m \<Rightarrow> 'r reply received) \<Rightarrow> 'r backend_comms \<Rightarrow> bool" for parse where
  comms_start: "comms_reachable parse no_requests"
| comms_recovered: "comms_reachable parse c \<Longrightarrow> comms_reachable parse (handlePendingReplies (batches :: (string \<times> 'm) option list list) c)"
| comms_send: "comms_reachable parse c \<Longrightarrow> correlationId \<noteq> [] \<Longrightarrow> correlationId \<notin> set (bc_promises c) \<Longrightarrow>
    comms_reachable parse (sendToEngineStream correlationId c)"
| comms_timeout: "comms_reachable parse c \<Longrightarrow> n \<in> set (bc_timers c) \<Longrightarrow> comms_reachable parse (engineTimeout n c)"
| comms_written: "comms_reachable parse c \<Longrightarrow> n \<in> set (bc_writing c) \<Longrightarrow> comms_reachable parse (xAddEnds n failure c)"
| comms_replies: "comms_reachable parse c \<Longrightarrow> outcome_state (readOneReplyBatch parse response c) = c' \<Longrightarrow> comms_reachable parse c'"

end
