(* ===== verification/BackendCommsProperties.thy ===== *)
theory BackendCommsProperties
  imports BackendComms
begin

text \<open>
  Every request of the backend is answered once: by the reply of its own correlation id, by its timer,
  or by the failure of its write.
\<close>

definition waiting :: "'r backend_comms \<Rightarrow> nat \<Rightarrow> bool" where
  "waiting c n \<longleftrightarrow> n < length (bc_promises c) \<and> n \<notin> fst ` set (bc_outcomes c)"

text \<open>
  What holds of the bookkeeping: a promise that waits has its timer and its resolver, one that does not
  has neither; a promise has one outcome; and a reply settles the promise of its correlation id.
\<close>

definition comms_ok :: "'r backend_comms \<Rightarrow> bool" where
  "comms_ok c \<longleftrightarrow>
     distinct (bc_promises c) \<and> [] \<notin> set (bc_promises c)
     \<and> distinct (map fst (bc_promiseResolvers c)) \<and> distinct (bc_timers c) \<and> distinct (map fst (bc_outcomes c))
     \<and> set (bc_promiseResolvers c) = {(bc_promises c ! n, n) | n. waiting c n}
     \<and> set (bc_timers c) = {n. waiting c n}
     \<and> (\<forall>(n, how) \<in> set (bc_outcomes c). n < length (bc_promises c)
          \<and> (\<forall>r. how = Resolved r \<longrightarrow> ry_correlationId r = bc_promises c ! n))
     \<and> (\<forall>n \<in> set (bc_writing c). n < length (bc_promises c))"

lemma waiting_settle:
  assumes "n < length (bc_promises c)"
  shows "waiting (settle n how c) k \<longleftrightarrow> waiting c k \<and> k \<noteq> n"
  using assms by (auto simp: waiting_def settle_def)

lemma settle_ok:
  assumes "comms_ok c" "n < length (bc_promises c)" "\<And>r. how = Resolved r \<Longrightarrow> ry_correlationId r = bc_promises c ! n"
  shows "comms_ok (settle n how c)"
proof -
  let ?c = "settle n how c"
  have inj: "bc_promises c ! k = bc_promises c ! n \<longleftrightarrow> k = n" if "k < length (bc_promises c)" for k
    using assms(1,2) that by (auto simp: comms_ok_def nth_eq_iff_index_eq)
  have "set (bc_promiseResolvers ?c) = {p \<in> set (bc_promiseResolvers c). fst p \<noteq> bc_promises c ! n}"
    by (auto simp: settle_def AList.delete_eq)
  also have "\<dots> = {(bc_promises ?c ! k, k) | k. waiting ?c k}"
    using assms(1) inj by (auto simp: comms_ok_def waiting_settle[OF assms(2)]) (auto simp: settle_def waiting_def)
  finally have res: "set (bc_promiseResolvers ?c) = {(bc_promises ?c ! k, k) | k. waiting ?c k}" .
  have tim: "set (bc_timers ?c) = {k. waiting ?c k}"
    using assms(1) by (auto simp: comms_ok_def waiting_settle[OF assms(2)]) (auto simp: settle_def)
  show ?thesis unfolding comms_ok_def
  proof (intro conjI)
    show "distinct (map fst (bc_promiseResolvers ?c))" using assms(1) by (simp add: comms_ok_def settle_def distinct_delete)
    show "set (bc_promiseResolvers ?c) = {(bc_promises ?c ! n, n) | n. waiting ?c n}" by (rule res)
    show "set (bc_timers ?c) = {n. waiting ?c n}" by (rule tim)
  qed (use assms in \<open>auto simp: comms_ok_def settle_def distinct_removeAll\<close>)
qed

lemma frame_ok [simp]: "comms_ok (xAckReply i c) = comms_ok c"
  by (simp add: comms_ok_def xAckReply_def waiting_def)

lemma recovered_ok: "comms_ok c \<Longrightarrow> comms_ok (handlePendingReplies batches c)"
proof (induction batches c rule: handlePendingReplies.induct)
  case (2 messages batches c)
  have "comms_ok c \<Longrightarrow> comms_ok (foldl (\<lambda>c m. case m of None \<Rightarrow> c | Some (messageId, message) \<Rightarrow> xAckReply messageId c) c ms)" for ms
    by (induction ms arbitrary: c) (auto split: option.split)
  note acked = this[OF 2(2)]
  show ?case using 2(1)[OF _ acked] 2(2) by auto
qed simp

lemma update_new: "k \<notin> fst ` set al \<Longrightarrow> AList.update k v al = al @ [(k, v)]"
  by (induction al) auto

lemma sent_ok:
  assumes "comms_ok c" "correlationId \<noteq> []" "correlationId \<notin> set (bc_promises c)"
  shows "comms_ok (sendToEngineStream correlationId c)"
proof -
  let ?c = "sendToEngineStream correlationId c" and ?n = "length (bc_promises c)"
  have n: "?n \<notin> fst ` set (bc_outcomes c)" using assms(1) by (auto simp: comms_ok_def)
  have w: "waiting ?c k \<longleftrightarrow> waiting c k \<or> k = ?n" for k
    using n by (auto simp: waiting_def sendToEngineStream_def Let_def)
  have new: "correlationId \<notin> fst ` set (bc_promiseResolvers c)"
    using assms(1,3) by (auto simp: comms_ok_def waiting_def)
  have "set (bc_promiseResolvers ?c) = set (bc_promiseResolvers c) \<union> {(correlationId, ?n)}"
    using new by (simp add: sendToEngineStream_def Let_def update_new)
  also have "\<dots> = {(bc_promises ?c ! k, k) | k. waiting ?c k}"
    using assms(1) unfolding w by (auto simp: comms_ok_def sendToEngineStream_def Let_def nth_append waiting_def)
  finally have res: "set (bc_promiseResolvers ?c) = {(bc_promises ?c ! k, k) | k. waiting ?c k}" .
  have "?n \<notin> set (bc_timers c)" using assms(1) by (auto simp: comms_ok_def waiting_def)
  then have tim: "set (bc_timers ?c) = {k. waiting ?c k}" "distinct (bc_timers ?c)"
    using assms(1) unfolding w by (auto simp: comms_ok_def sendToEngineStream_def Let_def)
  show ?thesis unfolding comms_ok_def
  proof (intro conjI)
    show "distinct (map fst (bc_promiseResolvers ?c))"
      using assms(1) by (simp add: comms_ok_def sendToEngineStream_def Let_def distinct_update)
    show "set (bc_promiseResolvers ?c) = {(bc_promises ?c ! n, n) | n. waiting ?c n}" by (rule res)
    show "set (bc_timers ?c) = {n. waiting ?c n}" "distinct (bc_timers ?c)" by (rule tim)+
    show "\<forall>(n, how) \<in> set (bc_outcomes ?c). n < length (bc_promises ?c)
        \<and> (\<forall>r. how = Resolved r \<longrightarrow> ry_correlationId r = bc_promises ?c ! n)"
      using assms(1) by (force simp: comms_ok_def sendToEngineStream_def Let_def nth_append)
  qed (use assms in \<open>auto simp: comms_ok_def sendToEngineStream_def Let_def\<close>)
qed

lemma engineTimeout_settle: "engineTimeout n c = settle n (Rejected (ServiceUnavailable ''The matching engine is not responding'' ''ENGINE_TIMEOUT'')) c"
  by (simp add: engineTimeout_def settle_def)

lemma written_ok: "comms_ok c \<Longrightarrow> n \<in> set (bc_writing c) \<Longrightarrow> comms_ok (xAddEnds n failure c)"
proof -
  assume ok: "comms_ok c" "n \<in> set (bc_writing c)"
  have c1: "comms_ok (c\<lparr>bc_writing := removeAll n (bc_writing c)\<rparr>)" "n < length (bc_promises c)"
    using ok by (auto simp: comms_ok_def waiting_def)
  then show ?thesis using settle_ok[OF c1(1), of n] by (auto simp: xAddEnds_def Let_def split: option.split)
qed

lemma reply_ok: "comms_ok c \<Longrightarrow> comms_ok (outcome_state (replyMessage parse m c))"
proof -
  assume ok: "comms_ok c"
  have "comms_ok (settle n (Resolved r) c)" if "map_of (bc_promiseResolvers c) (ry_correlationId r) = Some n" for n r
  proof -
    have "(ry_correlationId r, n) \<in> {(bc_promises c ! n, n) | n. waiting c n}"
      using ok map_of_SomeD[OF that] by (simp add: comms_ok_def)
    then show ?thesis using settle_ok[OF ok, of n "Resolved r"] by (auto simp: waiting_def)
  qed
  then have "comms_ok (case map_of (bc_promiseResolvers c) (ry_correlationId r) of None \<Rightarrow> c | Some n \<Rightarrow> settle n (Resolved r) c)" for r
    using ok by (simp split: option.split)
  then show ?thesis using ok
    by (cases m; cases "parse (snd m)") (simp_all add: replyMessage_def Let_def)
qed

lemma replies_ok: "comms_ok c \<Longrightarrow> comms_ok (outcome_state (overReplies parse ms c))"
proof (induction ms arbitrary: c)
  case (Cons m ms)
  have "comms_ok (outcome_state (replyMessage parse m c))" by (rule reply_ok[OF Cons.prems])
  then show ?case using Cons.IH by (cases "replyMessage parse m c") simp_all
qed simp

lemma comms_ok: "comms_reachable parse c \<Longrightarrow> comms_ok c"
proof (induction rule: comms_reachable.induct)
  case comms_start
  then show ?case by (simp add: comms_ok_def no_requests_def waiting_def)
next
  case (comms_timeout c n)
  then have "n < length (bc_promises c)" by (auto simp: comms_ok_def waiting_def)
  then show ?case unfolding engineTimeout_settle by (rule settle_ok[OF comms_timeout.IH]) simp
next
  case (comms_replies c response c')
  then show ?case using replies_ok[of c parse] by (auto simp: readOneReplyBatch_def split: option.splits)
qed (simp_all add: recovered_ok sent_ok written_ok)

text \<open>
  C23. Every request is answered once. In every state the backend can reach, however replies, timeouts
  and failed writes arrive: a request has at most one outcome, a reply is only ever the outcome of the
  request it names, and as long as a request has none its timer runs and its resolver is in the map,
  which holds nothing else: the number of pending requests is the number of those without an outcome.
\<close>

theorem request_is_answered_once:
  assumes "comms_reachable parse c"
  shows "distinct (map fst (bc_outcomes c))
    \<and> (\<forall>(n, how) \<in> set (bc_outcomes c). n < length (bc_promises c)
        \<and> (\<forall>r. how = Resolved r \<longrightarrow> ry_correlationId r = bc_promises c ! n))
    \<and> set (bc_timers c) = {n. n < length (bc_promises c) \<and> n \<notin> fst ` set (bc_outcomes c)}
    \<and> pendingRequestCount c = length (bc_promises c) - length (bc_outcomes c)"
proof -
  have ok: "comms_ok c" by (rule comms_ok[OF assms])
  have w: "{n. waiting c n} = {..<length (bc_promises c)} - fst ` set (bc_outcomes c)" by (auto simp: waiting_def)
  have sub: "fst ` set (bc_outcomes c) \<subseteq> {..<length (bc_promises c)}" using ok by (auto simp: comms_ok_def)
  have "distinct (bc_promiseResolvers c)" using ok by (simp add: comms_ok_def distinct_map)
  then have "pendingRequestCount c = card (set (bc_promiseResolvers c))" by (simp add: pendingRequestCount_def distinct_card)
  also have "set (bc_promiseResolvers c) = (\<lambda>n. (bc_promises c ! n, n)) ` {n. waiting c n}" using ok by (auto simp: comms_ok_def)
  also have "card \<dots> = card {n. waiting c n}" by (intro card_image inj_onI) simp
  also have "\<dots> = length (bc_promises c) - card (fst ` set (bc_outcomes c))"
    unfolding w using sub by (simp add: card_Diff_subset finite_subset)
  also have "card (fst ` set (bc_outcomes c)) = length (bc_outcomes c)"
    using ok distinct_card[of "map fst (bc_outcomes c)"] by (simp add: comms_ok_def)
  finally show ?thesis using ok by (auto simp: comms_ok_def waiting_def)
qed

text \<open>
  Sample: two requests, the first answered, the second timed out.
\<close>

definition sample_requests :: "nat backend_comms" where
  "sample_requests = sendToEngineStream ''b'' (sendToEngineStream ''a'' no_requests)"

lemma sample_requests_reachable: "comms_reachable Received sample_requests"
  unfolding sample_requests_def by (intro comms_send comms_start) (simp_all add: sendToEngineStream_def no_requests_def Let_def)

definition sample_answered :: "nat backend_comms" where
  "sample_answered = outcome_state (readOneReplyBatch Received (Some [[(''1'', \<lparr>ry_correlationId = ''a'', ry_answer = Accepted 7\<rparr>)]]) sample_requests)"

lemma request_is_answered_once_witness:
  "bc_outcomes sample_answered = [(0, Resolved \<lparr>ry_correlationId = ''a'', ry_answer = Accepted 7\<rparr>)]
    \<and> set (bc_timers sample_answered) = {1} \<and> pendingRequestCount sample_answered = 1"
proof -
  have o: "bc_outcomes sample_answered = [(0, Resolved \<lparr>ry_correlationId = ''a'', ry_answer = Accepted 7\<rparr>)]"
    "bc_promises sample_answered = [''a'', ''b'']"
    by (simp_all add: sample_answered_def readOneReplyBatch_def replyMessage_def sample_requests_def sendToEngineStream_def
        no_requests_def settle_def xAckReply_def Let_def)
  have "comms_reachable Received sample_answered"
    unfolding sample_answered_def by (rule comms_replies[OF sample_requests_reachable refl])
  from request_is_answered_once[OF this] o show ?thesis by (auto simp: less_Suc_eq)
qed

end
