(* ===== verification/OrderService.thy ===== *)
theory OrderService
  imports Ticket Engine BackendComms OrderProperties EventProperties
begin

text \<open>
  The backend's order service: \<open>apps/backend/src/services/order-service.ts\<close> (its \<open>getFills\<close> is in Fills).
  The state is the table of orders and whatever answers: \<open>sendToEngine\<close> is a parameter that may change
  both, since the persistence service writes while a reply is awaited. The statements the service sends
  to Postgres are those of the source; what a statement does when Postgres fails is an argument.
\<close>

datatype service_error =
    NotFoundError string
  | InvalidRequestError string
  | TransportFailure transport_error
  | DatabaseError

record 'w service =
  os_orders :: "SelectOrderRecord list"
  os_rest :: 'w

type_synonym ('w, 'r) sender = "TEngineRequest \<Rightarrow> 'w service \<Rightarrow> (transport_error + 'r engine_answer) \<times> 'w service"

type_synonym ('w, 'r) served = "(service_error, 'w service, 'r) outcome"

text \<open>The calls that only pass a request on: a refusal becomes the error of the request.\<close>

definition forward :: "('w, 'r) sender \<Rightarrow> TEngineRequest \<Rightarrow> 'w service \<Rightarrow> ('w, 'r) served" where
  "forward sendToEngine req s =
     (case sendToEngine req s of
        (Inl err, s') \<Rightarrow> Throw (TransportFailure err) s'
      | (Inr (Declined message), s') \<Rightarrow> Throw (InvalidRequestError message) s'
      | (Inr (Accepted data), s') \<Rightarrow> Return data s')"

definition onramp :: "('w, 'r) sender \<Rightarrow> string \<Rightarrow> jsnum \<Rightarrow> 'w service \<Rightarrow> ('w, 'r) served" where
  "onramp sendToEngine userId addBalance s = forward sendToEngine (Onramp userId addBalance) s"

definition getBalances :: "('w, 'r) sender \<Rightarrow> string \<Rightarrow> 'w service \<Rightarrow> ('w, 'r) served" where
  "getBalances sendToEngine userId s = forward sendToEngine (GetBalances userId) s"

definition askOpenPositions :: "('w, 'r) sender \<Rightarrow> string \<Rightarrow> string \<Rightarrow> 'w service \<Rightarrow> ('w, 'r) served" where
  "askOpenPositions sendToEngine userId marketId s = forward sendToEngine (GetOpenPositionsForMarket userId marketId) s"

definition askClosedPositions :: "('w, 'r) sender \<Rightarrow> string \<Rightarrow> string \<Rightarrow> 'w service \<Rightarrow> ('w, 'r) served" where
  "askClosedPositions sendToEngine userId marketId s = forward sendToEngine (GetClosedPositionsForMarket userId marketId) s"

definition getDepth :: "('w, 'r) sender \<Rightarrow> string \<Rightarrow> 'w service \<Rightarrow> ('w, 'r) served" where
  "getDepth sendToEngine marketId s = forward sendToEngine (GetDepth marketId) s"

section \<open>Creating and cancelling\<close>

text \<open>\<open>settleRejectedOrder\<close>; its own failure is logged and swallowed.\<close>

definition settleRejectedOrder :: "bool \<Rightarrow> string \<Rightarrow> 'w service \<Rightarrow> 'w service" where
  "settleRejectedOrder fails orderId s =
     (if fails then s
      else s\<lparr>os_orders := map (\<lambda>r. if r_id r = orderId \<and> r_status r = Pending then r\<lparr>r_status := Cancelled\<rparr> else r) (os_orders s)\<rparr>)"

text \<open>
  \<open>markets\<close> leads from a slug to the id of its row; \<open>inserted\<close> is the id and the time Postgres gives the
  new row, or nothing when it refuses it.
\<close>

definition createOrder ::
  "('w, 'r) sender \<Rightarrow> (string \<times> string) list \<Rightarrow> (string \<times> int) option \<Rightarrow> bool \<Rightarrow> string \<Rightarrow> CreateOrderBody \<Rightarrow> 'w service
    \<Rightarrow> ('w, 'r) served" where
  "createOrder sendToEngine markets inserted updateFails userId payload s =
     (case map_of markets (co_market payload) of
        None \<Rightarrow> Throw (NotFoundError ''Market does not exist'') s
      | Some marketId \<Rightarrow>
          (case inserted of
             None \<Rightarrow> Throw DatabaseError s
           | Some (orderId, created) \<Rightarrow>
               (let order = orderRow orderId userId marketId created payload
                in case sendToEngine (CreateOrder order) (s\<lparr>os_orders := os_orders s @ [order]\<rparr>) of
                     (Inl err, s') \<Rightarrow> Throw (TransportFailure err) (settleRejectedOrder updateFails orderId s')
                   | (Inr (Declined message), s') \<Rightarrow>
                       Throw (InvalidRequestError message) (settleRejectedOrder updateFails orderId s')
                   | (Inr (Accepted data), s') \<Rightarrow> Return data s')))"

definition cancelOrderRoute :: "('w, 'r) sender \<Rightarrow> string \<Rightarrow> string \<Rightarrow> 'w service \<Rightarrow> ('w, 'r) served" where
  "cancelOrderRoute sendToEngine userId orderId s =
     (case find (\<lambda>r. r_id r = orderId \<and> r_userId r = userId) (os_orders s) of
        None \<Rightarrow> Throw (NotFoundError ''Order does not exist'') s
      | Some order \<Rightarrow> forward sendToEngine (CancelOrder order) s)"

section \<open>Reading\<close>

definition OPEN_ORDER_STATUSES :: "TOrderStatus list" where
  "OPEN_ORDER_STATUSES = [Open, PartiallyFilled]"

definition getOpenOrdersForMarket :: "string \<Rightarrow> string \<Rightarrow> 'w service \<Rightarrow> SelectOrderRecord list" where
  "getOpenOrdersForMarket userId marketId s =
     filter (\<lambda>r. r_userId r = userId \<and> r_marketId r = marketId \<and> r_status r \<in> set OPEN_ORDER_STATUSES) (os_orders s)"

definition getOrdersForMarket :: "string \<Rightarrow> string \<Rightarrow> 'w service \<Rightarrow> SelectOrderRecord list" where
  "getOrdersForMarket userId marketId s = filter (\<lambda>r. r_userId r = userId \<and> r_marketId r = marketId) (os_orders s)"

section \<open>The engine at the other end\<close>

text \<open>
  A sender that has the engine handle the request and answer in time: an error of the engine is sent
  as its message (a \<open>TypeError\<close> has one of the runtime), a request without an answer times out.
\<close>

fun messageOf :: "string \<Rightarrow> engine_error \<Rightarrow> string" where
  "messageOf typeErrorText (Error message) = message"
| "messageOf typeErrorText TypeError = typeErrorText"

definition engineSender :: "runtime \<Rightarrow> string \<Rightarrow> string \<Rightarrow> (engine, backend_reply option) sender" where
  "engineSender rt messageId typeErrorText req s =
     (case handle rt messageId req (os_rest s) of
        Throw err e \<Rightarrow> (Inr (Declined (messageOf typeErrorText err)), s\<lparr>os_rest := e\<rparr>)
      | Return None e \<Rightarrow>
          (Inl (ServiceUnavailable ''The matching engine is not responding'' ''ENGINE_TIMEOUT''), s\<lparr>os_rest := e\<rparr>)
      | Return (Some data) e \<Rightarrow> (Inr (Accepted (rs_backend data)), s\<lparr>os_rest := e\<rparr>))"

text \<open>
  The backend and the engine together: what is left of an order that is refused, and whose account a
  cancellation can touch.
\<close>

section \<open>An order is taken or leaves no trace\<close>

lemma map_others: "id0 \<notin> r_id ` set rows \<Longrightarrow> map (\<lambda>r. if r_id r = id0 \<and> r_status r = Pending then f r else r) rows = rows"
  by (induction rows) auto

text \<open>
  C24. An order is taken or leaves no trace. With an engine that answers, whose store is well formed, and
  an id no row has: if the market exists, its id being no name of a member of \<open>Object.prototype\<close> (it is a
  uuid), \<open>createOrder\<close> either answers with what the engine answered,
  the engine having placed the row as it stands in the table, last and pending; or it throws the message
  with which the engine's checks refuse the row, the engine is as it was except that the account exists,
  and the table is as it was except for the row, last and cancelled.
\<close>

theorem order_is_taken_or_leaves_no_trace:
  fixes created :: int and userId :: string
  assumes "store_ok (store (os_rest s))" "map_of markets (co_market body) = Some marketId"
    and "orderId \<notin> r_id ` set (os_orders s)" "\<not> inherited marketId"
  defines "order \<equiv> orderRow orderId userId marketId created body"
    and "e \<equiv> ensureUser userId (os_rest s)"
  shows "case createOrder (engineSender rt messageId typeErrorText) markets (Some (orderId, created)) False userId body s of
      Return answer s' \<Rightarrow> os_orders s' = os_orders s @ [order]
        \<and> (\<exists>resp. placeOrder rt order False e = Return resp (os_rest s') \<and> answer = Some (MatchReply (backend (pr_match resp))))
    | Throw err s' \<Rightarrow> os_orders s' = os_orders s @ [order\<lparr>r_status := Cancelled\<rparr>] \<and> os_rest s' = e
        \<and> (\<exists>message. err = InvalidRequestError message \<and> checkOrder order (store e) = Inl message)"
proof -
  have row: "r_userId order = userId" "r_id order = orderId" "r_status order = Pending" "r_marketId order = marketId"
    by (simp_all add: order_def orderRow_def)
  have ok: "store_ok (store e)" unfolding e_def by (rule ensureUser_ok[OF assms(1)])
  show ?thesis
  proof (cases "placeOrder rt order False e")
    case (Return resp e')
    then show ?thesis using assms(2) row
      by (simp add: createOrder_def engineSender_def Let_def flip: order_def e_def)
  next
    case (Throw err e')
    then obtain message where err: "err = Error message" using placeOrder_ok(2)[OF ok, of rt order] assms(4) row(4) by (cases err) auto
    note refused = refused_order[OF Throw[unfolded err]]
    show ?thesis using Throw assms(2,3) row refused err
      by (simp add: createOrder_def engineSender_def Let_def settleRejectedOrder_def map_others flip: order_def e_def)
  qed
qed

text \<open>Alice asks for more margin than she has.\<close>

definition too_big_body :: CreateOrderBody where
  "too_big_body =
     \<lparr>co_orderType = Limit, co_price = Fin 101, co_slippage = 0, co_market = ''SOL-USD'', co_type = LONG, co_qty = Fin 7,
      co_equity = Some (Fin 5000)\<rparr>"

definition sample_service :: "engine service" where
  "sample_service = \<lparr>os_orders = [], os_rest = sample_engine\<rparr>"

lemma order_is_taken_or_leaves_no_trace_witness:
  "\<exists>s'. createOrder (engineSender sample_rt ''1'' []) [(''SOL-USD'', SOL_ID)] (Some (''t1'', 0)) False ''alice'' too_big_body sample_service =
      Throw (InvalidRequestError ''User does not have available margin'') s'
    \<and> os_rest s' = sample_engine \<and> map r_status (os_orders s') = [Cancelled]"
proof -
  define order where "order = orderRow ''t1'' ''alice'' SOL_ID 0 too_big_body"
  have e: "ensureUser ''alice'' sample_engine = sample_engine"
    by (simp add: ensureUser_def sample_engine_def sample_store_def getUserById_def)
  have c: "checkOrder order (store sample_engine) = Inl ''User does not have available margin''"
    by (simp add: order_def checkOrder_def bookAt_def orderRow_def too_big_body_def sample_engine_def sample_store_def
        getUserById_def new_user_def getUserMarketPosition_def riskCheck_def normalizeOrder_def js_truthy_Fin)
  then have p: "placeOrder sample_rt order False sample_engine = Throw (Error ''User does not have available margin'') sample_engine"
    by (simp add: placeOrder_def)
  have "store_ok (store (os_rest sample_service))" "map_of [(''SOL-USD'', SOL_ID)] (co_market too_big_body) = Some SOL_ID"
    "''t1'' \<notin> r_id ` set (os_orders sample_service)" "\<not> inherited SOL_ID"
    using sample_ok by (simp_all add: sample_service_def too_big_body_def)
  note both = order_is_taken_or_leaves_no_trace[OF this, where rt = sample_rt and messageId = "''1''" and typeErrorText = "[]"
      and userId = "''alice''" and created = 0, folded order_def]
  show ?thesis
  proof (cases "createOrder (engineSender sample_rt ''1'' []) [(''SOL-USD'', SOL_ID)] (Some (''t1'', 0)) False ''alice'' too_big_body sample_service")
    case (Return answer s')
    then show ?thesis using both p e by (simp add: sample_service_def)
  next
    case (Throw err s')
    then show ?thesis using both e c by (simp add: sample_service_def)
  qed
qed

section \<open>A cancellation touches only its account\<close>

lemma publicPayload_throw_users: "publicPayload rt m fs e = Throw err e' \<Longrightarrow> users (store e') = users (store e)"
  by (auto simp: publicPayload_def bumpUpdateId_def Let_def split: sum.splits option.splits prod.splits)

lemma cancelOrder_users:
  assumes "u \<noteq> r_userId order"
  shows "getUserById (users (store (outcome_state (cancelOrder rt order e)))) u = getUserById (users (store e)) u"
proof (cases "cancelOrder rt order e")
  case (Return resp e')
  then show ?thesis
    by (rule cancelOrder_Return) (use Return assms in \<open>simp add: getUserById_setUser\<close>)
next
  case (Throw err e')
  have "getUserById (users (store e')) u = getUserById (users (store e)) u"
    using Throw assms
    by (auto dest!: publicPayload_throw_users simp: cancelOrder_def Let_def getUserById_setUser split: option.splits prod.splits outcome.splits)
  then show ?thesis by (simp add: Throw)
qed

lemma findE: "find P xs = Some x \<Longrightarrow> P x \<and> x \<in> set xs"
  by (auto simp: find_Some_iff)

text \<open>
  Nobody cancels another's order. Whoever asks to cancel whatever order, no account of the engine
  but his own is touched; and unless the table has the order as his, the engine is not even asked.
\<close>

theorem cancelling_touches_own_account:
  "(\<forall>u. u = userId \<or> getUserById (users (store (os_rest (outcome_state
        (cancelOrderRoute (engineSender rt messageId typeErrorText) userId orderId s))))) u = getUserById (users (store (os_rest s))) u)
    \<and> ((\<exists>r \<in> set (os_orders s). r_id r = orderId \<and> r_userId r = userId)
        \<or> cancelOrderRoute sendToEngine userId orderId s = Throw (NotFoundError ''Order does not exist'') s)"
proof (intro conjI allI)
  fix u
  show "u = userId \<or> getUserById (users (store (os_rest (outcome_state
        (cancelOrderRoute (engineSender rt messageId typeErrorText) userId orderId s))))) u = getUserById (users (store (os_rest s))) u"
  proof (cases "find (\<lambda>r. r_id r = orderId \<and> r_userId r = userId) (os_orders s)")
    case (Some order)
    have "os_rest (outcome_state (cancelOrderRoute (engineSender rt messageId typeErrorText) userId orderId s)) =
        outcome_state (cancelOrder rt order (os_rest s))"
      using Some by (cases "cancelOrder rt order (os_rest s)")
        (simp_all add: cancelOrderRoute_def forward_def engineSender_def)
    then show ?thesis using findE[OF Some] cancelOrder_users[of u order rt "os_rest s"] by auto
  qed (simp add: cancelOrderRoute_def)
next
  show "(\<exists>r \<in> set (os_orders s). r_id r = orderId \<and> r_userId r = userId)
      \<or> cancelOrderRoute sendToEngine userId orderId s = Throw (NotFoundError ''Order does not exist'') s"
    by (cases "find (\<lambda>r. r_id r = orderId \<and> r_userId r = userId) (os_orders s)")
      (auto simp: cancelOrderRoute_def dest: findE)
qed

end
