(* ===== verification/WsSockets.thy ===== *)
theory WsSockets
  imports WsServer DbWriter
begin

text \<open>
  The sockets of the socket server: \<open>verify-ticket.ts\<close>, \<open>createWSServer.ts\<close>, the listener of
  \<open>setup-comms.ts\<close>, and the tickets the backend makes (\<open>apps/backend/src/utils/auth.ts\<close>). Signing and
  checking a token are parameters (\<open>jsonwebtoken\<close>); the topics of a socket and \<open>server.publish\<close> are those
  of the runtime: a frame goes to the sockets that have subscribed to its topic, in order.
\<close>

section \<open>Tickets\<close>

text \<open>What the code reads of a payload: the two claims, where they are strings.\<close>

record claims =
  cl_userId :: "string option"
  cl_typ :: "string option"

datatype jwt_check = Verified claims | TokenExpired | TokenInvalid

datatype TicketReason = ReasonExpired | ReasonInvalid

type_synonym TicketResult = "TicketReason + string"

definition verifyTicket :: "(string \<Rightarrow> jwt_check) \<Rightarrow> string \<Rightarrow> TicketResult" where
  "verifyTicket check ticket =
     (case check ticket of
        Verified payload \<Rightarrow>
          if cl_typ payload \<noteq> Some ''ws'' then Inl ReasonInvalid
          else (case cl_userId payload of
                  None \<Rightarrow> Inl ReasonInvalid
                | Some userId \<Rightarrow> if length userId = 0 then Inl ReasonInvalid else Inr userId)
      | TokenExpired \<Rightarrow> Inl ReasonExpired
      | TokenInvalid \<Rightarrow> Inl ReasonInvalid)"

text \<open>The backend's side; an empty \<open>typ\<close> is no \<open>typ\<close>, and the check may throw.\<close>

definition createToken :: "(claims \<Rightarrow> string) \<Rightarrow> string \<Rightarrow> string" where
  "createToken sign userId = sign \<lparr>cl_userId = Some userId, cl_typ = None\<rparr>"

definition createWsTicket :: "(claims \<Rightarrow> string) \<Rightarrow> string \<Rightarrow> string" where
  "createWsTicket sign userId = sign \<lparr>cl_userId = Some userId, cl_typ = Some ''ws''\<rparr>"

definition decodeToken :: "(string \<Rightarrow> jwt_check) \<Rightarrow> string \<Rightarrow> claims option" where
  "decodeToken check token =
     (case check token of
        Verified payload \<Rightarrow> if cl_typ payload \<noteq> None \<and> cl_typ payload \<noteq> Some [] then None else Some payload
      | _ \<Rightarrow> None)"

section \<open>The upgrade\<close>

text \<open>\<open>split(",")\<close>: the pieces between commas, at least one.\<close>

fun split_at :: "char \<Rightarrow> string \<Rightarrow> string list" where
  "split_at c [] = [[]]"
| "split_at c (x # xs) =
     (if x = c then [] # split_at c xs
      else (case split_at c xs of [] \<Rightarrow> [[x]] | piece # pieces \<Rightarrow> (x # piece) # pieces))"

text \<open>The search parameters of the URL that are read.\<close>

record ws_request =
  rq_feeds :: "string option"
  rq_marketId :: "string option"
  rq_ticket :: "string option"

record WebSocketData =
  wsd_id :: string
  wsd_marketId :: string
  wsd_subscribedFeeds :: "string list"
  wsd_userId :: "string option"

definition ValidFeeds :: "string list" where
  "ValidFeeds = [''last-traded-price'', ''mark-price'', ''depth'', ''trades'']"

datatype ws_answer = Unauthorized TicketReason | Upgrade WebSocketData

text \<open>An empty parameter counts as absent. \<open>new Set\<close> keeps the first of equal feeds.\<close>

definition given :: "string option \<Rightarrow> string option" where
  "given param = (case param of Some s \<Rightarrow> if s = [] then None else Some s | None \<Rightarrow> None)"

definition fetch :: "(string \<Rightarrow> jwt_check) \<Rightarrow> string \<Rightarrow> ws_request \<Rightarrow> ws_answer" where
  "fetch check uuid req =
     (let initialFeeds = (case given (rq_feeds req) of None \<Rightarrow> [] | Some s \<Rightarrow> split_at CHR '','' s);
          marketId = (case rq_marketId req of None \<Rightarrow> [] | Some m \<Rightarrow> m);
          data = (\<lambda>userId. \<lparr>wsd_id = uuid, wsd_marketId = marketId, wsd_subscribedFeeds = uniqueOf initialFeeds, wsd_userId = userId\<rparr>)
      in case given (rq_ticket req) of
           None \<Rightarrow> Upgrade (data None)
         | Some ticket \<Rightarrow>
             (case verifyTicket check ticket of
                Inl reason \<Rightarrow> Unauthorized reason
              | Inr userId \<Rightarrow> Upgrade (data (Some userId))))"

section \<open>Topics\<close>

definition userTopic :: "string \<Rightarrow> string" where
  "userTopic userId = ''user:'' @ userId"

definition feedTopic :: "string \<Rightarrow> string \<Rightarrow> string" where
  "feedTopic marketId feed = ''feed:'' @ marketId @ '':'' @ feed"

fun topicOf :: "published \<Rightarrow> string" where
  "topicOf (UserBatch userId events) = userTopic userId"
| "topicOf (LastPriceFrame marketId price) = feedTopic marketId ''last-traded-price''"
| "topicOf (MarkPriceFrame marketId price) = feedTopic marketId ''mark-price''"
| "topicOf (DepthFrameOf marketId depth) = feedTopic marketId ''depth''"
| "topicOf (TradePrint marketId trade) = feedTopic marketId ''trades''"

datatype ws_frame = SystemFrame string | Frame published

record ws_socket =
  sk_data :: WebSocketData
  sk_topics :: "string list"
  sk_frames :: "ws_frame list"

text \<open>An account is subscribed when the id is neither null nor empty.\<close>

definition openSocket :: "WebSocketData \<Rightarrow> ws_socket" where
  "openSocket data =
     (let feeds = filter (\<lambda>feed. feed \<in> set ValidFeeds) (wsd_subscribedFeeds data);
          user = given (wsd_userId data)
      in \<lparr>sk_data = data,
          sk_topics = map (feedTopic (wsd_marketId data)) feeds @ (case user of None \<Rightarrow> [] | Some u \<Rightarrow> [userTopic u]),
          sk_frames = map (\<lambda>feed. SystemFrame (''Auto-subscribed to '' @ feed)) feeds
            @ (case user of None \<Rightarrow> [] | Some u \<Rightarrow> [SystemFrame ''Subscribed to user''])\<rparr>)"

section \<open>The server with its sockets\<close>

text \<open>
  What the broadcaster publishes reaches the sockets that are open. A socket is kept with the request
  it came with and with how much had been published before it opened.
\<close>

record connection =
  cn_request :: ws_request
  cn_since :: nat
  cn_socket :: ws_socket

record ws_server =
  sv_broadcaster :: broadcaster
  sv_connections :: "connection list"

definition deliver :: "published list \<Rightarrow> connection \<Rightarrow> connection" where
  "deliver ps c =
     (let s = cn_socket c
      in c\<lparr>cn_socket := s\<lparr>sk_frames := sk_frames s @ map Frame (filter (\<lambda>p. topicOf p \<in> set (sk_topics s)) ps)\<rparr>\<rparr>)"

definition broadcast :: "broadcaster \<Rightarrow> ws_server \<Rightarrow> ws_server" where
  "broadcast b v =
     (let fresh = drop (length (br_sent (sv_broadcaster v))) (br_sent b)
      in v\<lparr>sv_broadcaster := b, sv_connections := map (deliver fresh) (sv_connections v)\<rparr>)"

definition accept :: "(string \<Rightarrow> jwt_check) \<Rightarrow> string \<Rightarrow> ws_request \<Rightarrow> ws_server \<Rightarrow> ws_server" where
  "accept check uuid req v =
     (case fetch check uuid req of
        Unauthorized reason \<Rightarrow> v
      | Upgrade data \<Rightarrow>
          v\<lparr>sv_connections := sv_connections v @
              [\<lparr>cn_request = req, cn_since = length (br_sent (sv_broadcaster v)), cn_socket = openSocket data\<rparr>]\<rparr>)"

text \<open>
  The listener hands every response to the handler, which does not throw: both loops are those of the
  persistence service (the two files carry the same functions) with the broadcast as the handler.
\<close>

definition responseHandler :: "int \<Rightarrow> ResponseData option \<Rightarrow> ws_server \<Rightarrow> ws_server \<times> string + ws_server" where
  "responseHandler intervalMs data v = Inr (broadcast (handler intervalMs data (sv_broadcaster v)) v)"

definition wsPendingEntries ::
  "int \<Rightarrow> ('m \<Rightarrow> ResponseData option received) \<Rightarrow> (string \<times> 'm) option list list \<Rightarrow> ws_server consumer
    \<Rightarrow> (string, ws_server consumer, unit) outcome" where
  "wsPendingEntries intervalMs parse batches c = handlePendingClientEntries parse (responseHandler intervalMs) batches c"

definition wsReadOneBatch ::
  "int \<Rightarrow> ('m \<Rightarrow> ResponseData option received) \<Rightarrow> (string \<times> 'm) list list option \<Rightarrow> ws_server consumer
    \<Rightarrow> (string, ws_server consumer, unit) outcome" where
  "wsReadOneBatch intervalMs parse response c = readOneClientBatch parse (responseHandler intervalMs) response c"

inductive server_reachable ::
  "(string \<Rightarrow> jwt_check) \<Rightarrow> int \<Rightarrow> ('m \<Rightarrow> ResponseData option received) \<Rightarrow> ws_server \<Rightarrow> bool" for check intervalMs parse where
  started: "server_reachable check intervalMs parse \<lparr>sv_broadcaster = idle, sv_connections = []\<rparr>"
| requested: "server_reachable check intervalMs parse v \<Longrightarrow> server_reachable check intervalMs parse (accept check uuid req v)"
| gone: "server_reachable check intervalMs parse v \<Longrightarrow> c \<in> set (sv_connections v) \<Longrightarrow>
    server_reachable check intervalMs parse (v\<lparr>sv_connections := remove1 c (sv_connections v)\<rparr>)"
| pending: "server_reachable check intervalMs parse v \<Longrightarrow>
    outcome_state (wsPendingEntries intervalMs parse batches \<lparr>co_db = v, co_acked = acked\<rparr>) = c \<Longrightarrow>
    server_reachable check intervalMs parse (co_db c)"
| received: "server_reachable check intervalMs parse v \<Longrightarrow>
    outcome_state (wsReadOneBatch intervalMs parse response \<lparr>co_db = v, co_acked = acked\<rparr>) = c \<Longrightarrow>
    server_reachable check intervalMs parse (co_db c)"
| window: "server_reachable check intervalMs parse v \<Longrightarrow> marketId \<in> set (br_timers (sv_broadcaster v)) \<Longrightarrow>
    server_reachable check intervalMs parse (broadcast (flush marketId (sv_broadcaster v)) v)"

end
