(* ===== verification/WsSocketsProperties.thy ===== *)
theory WsSocketsProperties
  imports WsSockets WsServerProperties
begin

text \<open>
  What a socket is sent: the frames of the feeds it asked for, of the market it named, and the private
  batches of the account its ticket is of, and nothing else.
\<close>

section \<open>Topics do not meet\<close>

lemma last_colon:
  "xs @ CHR '':'' # f = ys @ CHR '':'' # g \<Longrightarrow> CHR '':'' \<notin> set f \<Longrightarrow> CHR '':'' \<notin> set g \<Longrightarrow> xs = ys \<and> f = g"
proof (induction xs arbitrary: ys)
  case Nil
  then show ?case by (cases ys) auto
next
  case (Cons x xs)
  then show ?case by (cases ys) auto
qed

lemma valid_no_colon: "f \<in> set ValidFeeds \<Longrightarrow> CHR '':'' \<notin> set f"
  by (auto simp: ValidFeeds_def)

lemma feedTopic_inj:
  "f \<in> set ValidFeeds \<Longrightarrow> g \<in> set ValidFeeds \<Longrightarrow> feedTopic m f = feedTopic k g \<longleftrightarrow> m = k \<and> f = g"
  using last_colon[of m f k g] valid_no_colon[of f] valid_no_colon[of g] by (auto simp: feedTopic_def)

lemma user_feed_topics [simp]:
  "userTopic u = userTopic w \<longleftrightarrow> u = w" "userTopic u \<noteq> feedTopic m f" "feedTopic m f \<noteq> userTopic u"
  by (simp_all add: userTopic_def feedTopic_def)

text \<open>What a request asks for, and who it proves to be.\<close>

definition identity :: "(string \<Rightarrow> jwt_check) \<Rightarrow> ws_request \<Rightarrow> string option" where
  "identity check req =
     (case given (rq_ticket req) of None \<Rightarrow> None
      | Some ticket \<Rightarrow> (case verifyTicket check ticket of Inl reason \<Rightarrow> None | Inr userId \<Rightarrow> Some userId))"

definition asks :: "ws_request \<Rightarrow> string \<Rightarrow> string \<Rightarrow> bool" where
  "asks req marketId feed \<longleftrightarrow>
     marketId = (case rq_marketId req of None \<Rightarrow> [] | Some m \<Rightarrow> m)
     \<and> (\<exists>s. given (rq_feeds req) = Some s \<and> feed \<in> set (split_at CHR '','' s))"

fun wants :: "(string \<Rightarrow> jwt_check) \<Rightarrow> ws_request \<Rightarrow> published \<Rightarrow> bool" where
  "wants check req (UserBatch userId events) \<longleftrightarrow> identity check req = Some userId"
| "wants check req (LastPriceFrame marketId price) \<longleftrightarrow> asks req marketId ''last-traded-price''"
| "wants check req (MarkPriceFrame marketId price) \<longleftrightarrow> asks req marketId ''mark-price''"
| "wants check req (DepthFrameOf marketId depth) \<longleftrightarrow> asks req marketId ''depth''"
| "wants check req (TradePrint marketId trade) \<longleftrightarrow> asks req marketId ''trades''"

lemma verified_user: "verifyTicket check ticket = Inr u \<Longrightarrow>
    u \<noteq> [] \<and> (\<exists>p. check ticket = Verified p \<and> cl_userId p = Some u \<and> cl_typ p = Some ''ws'')"
  by (auto simp: verifyTicket_def split: jwt_check.splits if_splits option.splits)

lemma upgraded:
  assumes "fetch check uuid req = Upgrade data"
  shows "wsd_userId data = identity check req" "given (wsd_userId data) = identity check req"
    "feed \<in> set (wsd_subscribedFeeds data) \<and> m = wsd_marketId data \<longleftrightarrow> asks req m feed"
proof -
  show i: "wsd_userId data = identity check req"
    using assms by (auto simp: fetch_def identity_def Let_def split: option.splits sum.splits)
  show "given (wsd_userId data) = identity check req" unfolding i
    by (auto simp: identity_def given_def dest: verified_user split: option.split sum.split)
  show "feed \<in> set (wsd_subscribedFeeds data) \<and> m = wsd_marketId data \<longleftrightarrow> asks req m feed"
    using assms by (auto simp: fetch_def asks_def Let_def split: option.splits sum.splits)
qed

lemma subscribed:
  assumes "fetch check uuid req = Upgrade data"
  shows "topicOf p \<in> set (sk_topics (openSocket data)) \<longleftrightarrow> wants check req p"
proof -
  have feed: "feedTopic m f \<in> set (sk_topics (openSocket data)) \<longleftrightarrow> asks req m f" if "f \<in> set ValidFeeds" for m f
    using that upgraded(3)[OF assms, of f m]
    by (auto simp: openSocket_def Let_def feedTopic_inj image_iff split: option.split)
  have user: "userTopic u \<in> set (sk_topics (openSocket data)) \<longleftrightarrow> identity check req = Some u" for u
    using upgraded(2)[OF assms] by (auto simp: openSocket_def Let_def split: option.split)
  show ?thesis by (cases p) (auto simp: feed user ValidFeeds_def)
qed

section \<open>Every reachable server\<close>

definition connection_ok :: "(string \<Rightarrow> jwt_check) \<Rightarrow> published list \<Rightarrow> connection \<Rightarrow> bool" where
  "connection_ok check sent c \<longleftrightarrow>
     (\<exists>uuid data. fetch check uuid (cn_request c) = Upgrade data \<and> sk_topics (cn_socket c) = sk_topics (openSocket data)
        \<and> cn_since c \<le> length sent
        \<and> sk_frames (cn_socket c) = sk_frames (openSocket data) @ map Frame (filter (wants check (cn_request c)) (drop (cn_since c) sent)))"

definition server_ok :: "(string \<Rightarrow> jwt_check) \<Rightarrow> ws_server \<Rightarrow> bool" where
  "server_ok check v \<longleftrightarrow> (\<forall>c \<in> set (sv_connections v). connection_ok check (br_sent (sv_broadcaster v)) c)"

lemma delivered_ok: "connection_ok check sent c \<Longrightarrow> connection_ok check (sent @ ps) (deliver ps c)"
  using subscribed by (fastforce simp: connection_ok_def deliver_def Let_def)

lemma broadcast_ok:
  assumes "server_ok check v" "br_sent b = br_sent (sv_broadcaster v) @ ps"
  shows "server_ok check (broadcast b v)"
  using assms delivered_ok by (auto simp: server_ok_def broadcast_def Let_def)

lemma handler_sends: "\<exists>ps. br_sent (handler i data b) = br_sent b @ ps"
  by (auto simp: handler_def publishMarketState_def send_def Let_def split: option.split)

lemma flush_sends: "\<exists>ps. br_sent (flush m b) = br_sent b @ ps"
  by (auto simp: flush_def send_def split: option.split)

lemma accept_ok: "server_ok check v \<Longrightarrow> server_ok check (accept check uuid req v)"
  by (auto simp: server_ok_def accept_def connection_ok_def split: ws_answer.split)

text \<open>What every response keeps, the loops of the listener keep.\<close>

lemma eachPending_keeps:
  assumes "\<And>data db. P db \<Longrightarrow> P (case h data db of Inl (db', code) \<Rightarrow> db' | Inr db' \<Rightarrow> db')"
  shows "P (co_db c) \<Longrightarrow> P (co_db (outcome_state (eachPending parse h ms c)))"
proof (induction ms arbitrary: c)
  case (Cons m ms)
  have "P (co_db (outcome_state (pendingClientEntry parse h m c)))"
  proof (cases m)
    case (Some im)
    obtain i msg where m: "m = Some (i, msg)" using Some by (metis surj_pair)
    show ?thesis
    proof (cases "parse msg")
      case (Received data)
      show ?thesis
      proof (cases "h data (co_db c)")
        case (Inl e)
        obtain db code where "e = (db, code)" by (metis surj_pair)
        then show ?thesis using m Received Inl assms[OF Cons.prems, of data] by (simp add: pendingClientEntry_def ack_def)
      next
        case (Inr db)
        then show ?thesis using m Received assms[OF Cons.prems, of data] by (simp add: pendingClientEntry_def ack_def)
      qed
    qed (use m Cons.prems in \<open>simp_all add: pendingClientEntry_def ack_def\<close>)
  qed (use Cons.prems in \<open>simp add: pendingClientEntry_def\<close>)
  then show ?case using Cons.IH by (cases "pendingClientEntry parse h m c") auto
qed simp

lemma pending_keeps:
  assumes "\<And>data db. P db \<Longrightarrow> P (case h data db of Inl (db', code) \<Rightarrow> db' | Inr db' \<Rightarrow> db')"
  shows "P (co_db c) \<Longrightarrow> P (co_db (outcome_state (handlePendingClientEntries parse h batches c)))"
proof (induction batches arbitrary: c)
  case (Cons ms batches)
  have "P (co_db (outcome_state (eachPending parse h ms c)))" by (rule eachPending_keeps[where P = P and h = h, OF assms Cons.prems])
  then show ?case using Cons.IH Cons.prems by (cases "eachPending parse h ms c") simp_all
qed simp

lemma new_keeps:
  assumes "\<And>data db. P db \<Longrightarrow> P (case h data db of Inl (db', code) \<Rightarrow> db' | Inr db' \<Rightarrow> db')"
  shows "P (co_db c) \<Longrightarrow> P (co_db (outcome_state (eachNew parse h ms c)))"
proof (induction ms arbitrary: c)
  case (Cons m ms)
  obtain i msg where m: "m = (i, msg)" by (metis surj_pair)
  show ?case
  proof (cases "parse msg")
    case (Received data)
    show ?thesis
    proof (cases "h data (co_db c)")
      case (Inl e)
      obtain db code where "e = (db, code)" by (metis surj_pair)
      then show ?thesis using m Received Inl assms[OF Cons.prems, of data] by simp
    next
      case (Inr db)
      then show ?thesis using m Received Cons.IH[of "ack i (c\<lparr>co_db := db\<rparr>)"] assms[OF Cons.prems, of data] by (simp add: ack_def)
    qed
  qed (use m Cons in \<open>simp_all add: ack_def\<close>)
qed simp

lemma server_reachable_ok: "server_reachable check intervalMs parse v \<Longrightarrow> server_ok check v"
proof (induction rule: server_reachable.induct)
  case started
  then show ?case by (simp add: server_ok_def)
next
  case (requested v uuid req)
  then show ?case by (simp add: accept_ok)
next
  case (gone v c)
  then show ?case by (auto simp: server_ok_def dest: subsetD[OF set_remove1_subset])
next
  case (pending v batches acked c)
  have "server_ok check (case responseHandler intervalMs data db of Inl (db', code) \<Rightarrow> db' | Inr db' \<Rightarrow> db')" if "server_ok check db" for data db
    using that handler_sends[of intervalMs data "sv_broadcaster db"] broadcast_ok by (auto simp: responseHandler_def)
  then show ?case using pending pending_keeps[of "server_ok check" "responseHandler intervalMs" "\<lparr>co_db = v, co_acked = acked\<rparr>"]
    by (auto simp: wsPendingEntries_def)
next
  case (received v response acked c)
  have "server_ok check (case responseHandler intervalMs data db of Inl (db', code) \<Rightarrow> db' | Inr db' \<Rightarrow> db')" if "server_ok check db" for data db
    using that handler_sends[of intervalMs data "sv_broadcaster db"] broadcast_ok by (auto simp: responseHandler_def)
  then show ?case using received new_keeps[of "server_ok check" "responseHandler intervalMs" "\<lparr>co_db = v, co_acked = acked\<rparr>"]
    by (auto simp: wsReadOneBatch_def readOneClientBatch_def split: option.splits)
next
  case (window v marketId)
  then show ?case using flush_sends[of marketId "sv_broadcaster v"] broadcast_ok by auto
qed

text \<open>
  C22. A socket is sent what it asked for. Whatever requests, closings, responses and timers come
  before and after, the frames a socket has been sent after its greetings are, in order and each once, those published since it opened that are of a valid feed it
  named and of its market, and the private batches of the account its ticket verified as; no frame of
  another market, feed or account, whatever the parameters of its URL.
\<close>

theorem socket_gets_what_it_asked_for:
  assumes "server_reachable check intervalMs parse v" "c \<in> set (sv_connections v)"
  shows "\<exists>greetings. sk_frames (cn_socket c) =
    map SystemFrame greetings @ map Frame (filter (wants check (cn_request c)) (drop (cn_since c) (br_sent (sv_broadcaster v))))"
proof -
  obtain uuid data where f: "sk_frames (cn_socket c) = sk_frames (openSocket data) @
      map Frame (filter (wants check (cn_request c)) (drop (cn_since c) (br_sent (sv_broadcaster v))))"
    using server_reachable_ok[OF assms(1)] assms(2) by (auto simp: server_ok_def connection_ok_def)
  have "\<exists>greetings. sk_frames (openSocket data) = map SystemFrame greetings"
    by (intro exI[of _ "map (\<lambda>feed. ''Auto-subscribed to '' @ feed) (filter (\<lambda>feed. feed \<in> set ValidFeeds) (wsd_subscribedFeeds data))
      @ (case given (wsd_userId data) of None \<Rightarrow> [] | Some u \<Rightarrow> [''Subscribed to user''])"])
      (simp add: openSocket_def Let_def split: option.split)
  then show ?thesis using f by auto
qed

text \<open>
  C21. Private events stay private. Whoever is sent a batch of an account has presented a ticket that
  the signature check accepts as unexpired, that names the account, and that was made for a socket.
\<close>

theorem private_events_stay_private:
  assumes "server_reachable check intervalMs parse v" "c \<in> set (sv_connections v)"
    and "Frame (UserBatch userId events) \<in> set (sk_frames (cn_socket c))"
  shows "\<exists>ticket payload. rq_ticket (cn_request c) = Some ticket \<and> check ticket = Verified payload
    \<and> cl_userId payload = Some userId \<and> cl_typ payload = Some ''ws''"
proof -
  have "connection_ok check (br_sent (sv_broadcaster v)) c"
    using server_reachable_ok[OF assms(1)] assms(2) by (simp add: server_ok_def)
  then have "identity check (cn_request c) = Some userId"
    using assms(3) by (auto simp: connection_ok_def openSocket_def Let_def split: option.splits)
  then show ?thesis
    by (auto simp: identity_def given_def dest: verified_user split: option.splits sum.splits if_splits)
qed


text \<open>
  Tickets and sessions do not stand in for each other. If checking what was signed gives it back
  or finds it expired, then a session token never verifies as a ticket, a ticket is never accepted as a
  session, and each is accepted for what it was made for, naming the account it was made for, until it
  expires.
\<close>

theorem tickets_are_not_sessions:
  assumes "\<And>kind. check (sign \<lparr>cl_userId = Some userId, cl_typ = kind\<rparr>) \<in> {Verified \<lparr>cl_userId = Some userId, cl_typ = kind\<rparr>, TokenExpired}"
    and "userId \<noteq> []"
  shows "verifyTicket check (createToken sign userId) \<in> {Inl ReasonInvalid, Inl ReasonExpired}
    \<and> decodeToken check (createWsTicket sign userId) = None
    \<and> verifyTicket check (createWsTicket sign userId) \<in> {Inr userId, Inl ReasonExpired}
    \<and> decodeToken check (createToken sign userId) \<in> {Some \<lparr>cl_userId = Some userId, cl_typ = None\<rparr>, None}"
  using assms(1)[of None] assms(1)[of "Some ''ws''"] assms(2)
  by (auto simp: verifyTicket_def createToken_def createWsTicket_def decodeToken_def)

section \<open>Two sockets\<close>

text \<open>A signature that says who signed what, and a check that reads it.\<close>

definition sample_sign :: "claims \<Rightarrow> string" where
  "sample_sign p = (case cl_typ p of None \<Rightarrow> ''.'' | Some kind \<Rightarrow> CHR ''+'' # kind)"

definition sample_check :: "string \<Rightarrow> jwt_check" where
  "sample_check token =
     (case token of
        [] \<Rightarrow> TokenInvalid
      | c # kind \<Rightarrow> Verified \<lparr>cl_userId = Some ''u'', cl_typ = if c = CHR ''+'' then Some kind else None\<rparr>)"

lemma tickets_are_not_sessions_witness:
  "verifyTicket sample_check (createToken sample_sign ''u'') \<noteq> Inr ''u''
    \<and> decodeToken sample_check (createWsTicket sample_sign ''u'') = None"
proof -
  have "sample_check (sample_sign \<lparr>cl_userId = Some ''u'', cl_typ = kind\<rparr>) = Verified \<lparr>cl_userId = Some ''u'', cl_typ = kind\<rparr>" for kind
    by (cases kind) (simp_all add: sample_check_def sample_sign_def)
  then show ?thesis using tickets_are_not_sessions[of sample_check sample_sign "''u''"] by auto
qed

text \<open>One socket has a ticket and asks for the books of a market; the other names the account in vain.\<close>

definition own_request :: ws_request where
  "own_request = \<lparr>rq_feeds = Some ''depth'', rq_marketId = Some ''m'', rq_ticket = Some ''+ws''\<rparr>"

definition other_request :: ws_request where
  "other_request = \<lparr>rq_feeds = Some ''user:u,trades'', rq_marketId = Some ''m'', rq_ticket = None\<rparr>"

definition sample_server :: ws_server where
  "sample_server =
     (let v = accept sample_check ''2'' other_request (accept sample_check ''1'' own_request \<lparr>sv_broadcaster = idle, sv_connections = []\<rparr>)
      in broadcast (handler 100 (Some (sample_data 1)) (sv_broadcaster v)) v)"

lemma accept_broadcaster [simp]: "sv_broadcaster (accept check uuid req v) = sv_broadcaster v"
  by (simp add: accept_def split: ws_answer.split)

lemma sample_server_reachable: "server_reachable sample_check 100 Received sample_server"
proof -
  define v where "v = accept sample_check ''2'' other_request (accept sample_check ''1'' own_request \<lparr>sv_broadcaster = idle, sv_connections = []\<rparr>)"
  have "server_reachable sample_check 100 Received v" unfolding v_def by (intro requested started)
  from received[OF this refl, of "Some [[(''1'', Some (sample_data 1))]]" "[]"]
  show ?thesis
    by (simp add: wsReadOneBatch_def readOneClientBatch_def responseHandler_def ack_def sample_server_def v_def Let_def)
qed

lemma sample_sent: "br_sent (sv_broadcaster sample_server) =
    [UserBatch ''u'' [BalanceEvent ''1'' ''0''], TradePrint ''m'' \<lparr>t_id = ''t'', t_price = ''1'', t_qty = ''1'', t_side = Buy, t_ts = 0\<rparr>,
     LastPriceFrame ''m'' ''1'', MarkPriceFrame ''m'' ''1'', DepthFrameOf ''m'' (ws_depth (sample_update 1))]"
  by (simp add: sample_server_def broadcast_def run_simps)

lemma sample_connections: "map cn_request (sv_connections sample_server) = [own_request, other_request]"
    "map cn_since (sv_connections sample_server) = [0, 0]"
  by (simp_all add: sample_server_def broadcast_def deliver_def accept_def fetch_def verifyTicket_def sample_check_def given_def
      own_request_def other_request_def idle_def Let_def)

lemma sample_wants: "identity sample_check own_request = Some ''u''" "identity sample_check other_request = None"
    "asks own_request m f \<longleftrightarrow> m = ''m'' \<and> f = ''depth''" "asks other_request m f \<longleftrightarrow> m = ''m'' \<and> f \<in> {''user:u'', ''trades''}"
  by (auto simp: identity_def asks_def given_def own_request_def other_request_def verifyTicket_def sample_check_def)

lemma socket_gets_what_it_asked_for_witness:
  "\<exists>own other. sv_connections sample_server = [own, other]
    \<and> (\<exists>greetings. sk_frames (cn_socket own) = map SystemFrame greetings
         @ [Frame (UserBatch ''u'' [BalanceEvent ''1'' ''0'']), Frame (DepthFrameOf ''m'' (ws_depth (sample_update 1)))])
    \<and> (\<exists>greetings. sk_frames (cn_socket other) = map SystemFrame greetings
         @ [Frame (TradePrint ''m'' \<lparr>t_id = ''t'', t_price = ''1'', t_qty = ''1'', t_side = Buy, t_ts = 0\<rparr>)])"
proof -
  obtain own other where c: "sv_connections sample_server = [own, other]" "cn_request own = own_request"
    "cn_request other = other_request" "cn_since own = 0" "cn_since other = 0"
    using sample_connections by (auto simp: map_eq_Cons_conv)
  have "own \<in> set (sv_connections sample_server)" "other \<in> set (sv_connections sample_server)" by (simp_all add: c)
  from this[THEN socket_gets_what_it_asked_for[OF sample_server_reachable]]
  show ?thesis using c by (simp add: sample_sent sample_wants)
qed

lemma private_events_stay_private_witness:
  "\<exists>c \<in> set (sv_connections sample_server). Frame (UserBatch ''u'' [BalanceEvent ''1'' ''0'']) \<in> set (sk_frames (cn_socket c))
    \<and> rq_ticket (cn_request c) \<noteq> None"
proof -
  obtain c where c: "c \<in> set (sv_connections sample_server)" "cn_request c = own_request" "cn_since c = 0"
    using sample_connections by (fastforce simp: map_eq_Cons_conv)
  have "connection_ok sample_check (br_sent (sv_broadcaster sample_server)) c"
    using server_reachable_ok[OF sample_server_reachable] c(1) by (simp add: server_ok_def)
  then have f: "Frame (UserBatch ''u'' [BalanceEvent ''1'' ''0'']) \<in> set (sk_frames (cn_socket c))"
    using c by (auto simp: connection_ok_def sample_sent sample_wants)
  show ?thesis using private_events_stay_private[OF sample_server_reachable c(1) f] f c(1) by auto
qed

end
