(* ===== verification/Session.thy ===== *)
theory Session
  imports Prelude
begin

text \<open>
  The session in the browser: what an answer of the API means (\<open>lib/api/errors.ts\<close>), the life of a request
  and the handler of an expired session (\<open>lib/api/http.ts\<close>), and the provider that holds who is signed in
  (\<open>lib/auth/session-provider.tsx\<close>) with the guard of the pages that need it (\<open>require-session.tsx\<close>), all
  under \<open>apps/web\<close>. The schema of a successful answer is a parameter; \<open>encodeURIComponent\<close> is too.
  The provider stays mounted, so that its handler is the registered one. A state set in React is what
  the next render shows; the handler reads it through a reference that follows at that render, which is
  a step of its own.
\<close>

section \<open>Errors\<close>

record ApiError =
  ae_status :: nat
  ae_code :: string
  ae_message :: string
  ae_fieldErrors :: "(string \<times> string) list option"

definition isAuthFailure :: "ApiError \<Rightarrow> bool" where
  "isAuthFailure e \<longleftrightarrow>
     ae_status e = 401 \<or> ae_code e = ''TOKEN_EXPIRED'' \<or> ae_code e = ''TOKEN_INVALID'' \<or> ae_code e = ''TOKEN_MISSING''"

definition isCancelled :: "ApiError \<Rightarrow> bool" where
  "isCancelled e \<longleftrightarrow> ae_code e = ''CANCELLED''"

definition isSilent :: "ApiError \<Rightarrow> bool" where
  "isSilent e \<longleftrightarrow> isAuthFailure e \<or> isCancelled e"

definition isEngineDown :: "ApiError \<Rightarrow> bool" where
  "isEngineDown e \<longleftrightarrow> ae_code e = ''ENGINE_TIMEOUT''"

definition isOutcomeUnknown :: "ApiError \<Rightarrow> bool" where
  "isOutcomeUnknown e \<longleftrightarrow> isEngineDown e \<or> ae_code e = ''NETWORK'' \<or> ae_code e = ''TIMEOUT''"

definition isRetryable :: "ApiError \<Rightarrow> bool" where
  "isRetryable e \<longleftrightarrow>
     ae_code e = ''NETWORK'' \<or> ae_code e = ''TIMEOUT'' \<or> ae_code e = ''ENGINE_TIMEOUT'' \<or> ae_status e \<ge> 500"

text \<open>What is read of a body that is an object: the members, where they have the type asked for.\<close>

record error_body =
  eb_error :: "string option"
  eb_details :: "(string option \<times> string option) list option"
  eb_code :: "string option"
  eb_message :: "string option"

text \<open>The first message of a field wins. A field does not have the name of a member that every object has.\<close>

definition fieldErrorsOf :: "(string option \<times> string option) list \<Rightarrow> (string \<times> string) list" where
  "fieldErrorsOf details =
     foldl (\<lambda>errors detail.
       case detail of
         (Some field, Some message) \<Rightarrow> if map_of errors field = None then AList.update field message errors else errors
       | _ \<Rightarrow> errors) [] details"

definition toApiError :: "(nat \<Rightarrow> string) \<Rightarrow> nat \<Rightarrow> error_body option \<Rightarrow> ApiError" where
  "toApiError statusText status body =
     (let unknown = \<lparr>ae_status = status, ae_code = ''UNKNOWN'', ae_message = ''Request failed with status '' @ statusText status,
                     ae_fieldErrors = None\<rparr>
      in case body of
           None \<Rightarrow> unknown
         | Some shape \<Rightarrow>
             (case (eb_error shape, eb_details shape) of
                (Some err, Some details) \<Rightarrow>
                  \<lparr>ae_status = status, ae_code = ''VALIDATION_FAILED'', ae_message = err,
                   ae_fieldErrors = Some (fieldErrorsOf details)\<rparr>
              | _ \<Rightarrow>
                  (case (eb_code shape, eb_message shape) of
                     (Some code, message) \<Rightarrow>
                       \<lparr>ae_status = status, ae_code = code,
                        ae_message = (case message of Some m \<Rightarrow> m | None \<Rightarrow> ''Request failed''), ae_fieldErrors = None\<rparr>
                   | (None, Some message) \<Rightarrow>
                       \<lparr>ae_status = status, ae_code = (if status = 401 then ''TOKEN_MISSING'' else ''UNKNOWN''),
                        ae_message = message, ae_fieldErrors = None\<rparr>
                   | (None, None) \<Rightarrow> unknown)))"

section \<open>The state of a tab\<close>

datatype SessionStatus = SessionLoading | Authed | Anon

record SessionIdentity =
  si_userId :: string
  si_username :: string

text \<open>
  A request: the scope it joined, whether its controller has been aborted, and how far it is. The
  scopes are numbered; every scope before the present one has been aborted. \<open>tb_statusRef\<close> is
  \<open>statusRef.current\<close>, the status of the last render.
\<close>

datatype 'a progress = Fetching | Reading nat | Succeeded 'a | Failed ApiError

record 'a request =
  rq_auth :: bool
  rq_notify :: bool
  rq_scope :: "nat option"
  rq_aborted :: bool
  rq_progress :: "'a progress"

record 'a tab =
  tb_status :: SessionStatus
  tb_statusRef :: SessionStatus
  tb_identity :: "SessionIdentity option"
  tb_signingOut :: bool
  tb_expiredCount :: nat
  tb_probing :: bool
  tb_scope :: nat
  tb_latch :: bool
  tb_requests :: "'a request list"
  tb_redirects :: "string list"

definition fresh_tab :: "'a tab" where
  "fresh_tab =
     \<lparr>tb_status = SessionLoading, tb_statusRef = SessionLoading, tb_identity = None, tb_signingOut = False, tb_expiredCount = 0, tb_probing = True,
      tb_scope = 0, tb_latch = False, tb_requests = [], tb_redirects = []\<rparr>"

section \<open>Requests\<close>

definition startRequest :: "bool \<Rightarrow> bool \<Rightarrow> 'a tab \<Rightarrow> 'a tab" where
  "startRequest auth notify t =
     t\<lparr>tb_requests := tb_requests t @
         [\<lparr>rq_auth = auth, rq_notify = notify, rq_scope = if auth then Some (tb_scope t) else None, rq_aborted = False,
           rq_progress = Fetching\<rparr>]\<rparr>"

definition setProgress :: "nat \<Rightarrow> 'a progress \<Rightarrow> 'a tab \<Rightarrow> 'a tab" where
  "setProgress i p t = t\<lparr>tb_requests := (tb_requests t)[i := (tb_requests t ! i)\<lparr>rq_progress := p\<rparr>]\<rparr>"

text \<open>The deadline, or a signal of the caller: listeners that the headers take away.\<close>

definition abortRequest :: "'a request \<Rightarrow> 'a request" where
  "abortRequest r = (case rq_progress r of Fetching \<Rightarrow> r\<lparr>rq_aborted := True\<rparr> | _ \<Rightarrow> r)"

definition abortSessionRequests :: "'a tab \<Rightarrow> 'a tab" where
  "abortSessionRequests t =
     t\<lparr>tb_requests := map (\<lambda>r. if rq_scope r = Some (tb_scope t) then abortRequest r else r) (tb_requests t),
       tb_scope := tb_scope t + 1\<rparr>"

definition transportError :: "nat \<Rightarrow> 'a request \<Rightarrow> ApiError" where
  "transportError present r =
     (case rq_scope r of
        Some scope \<Rightarrow>
          if scope < present
          then \<lparr>ae_status = 0, ae_code = ''CANCELLED'', ae_message = ''The request was cancelled because the session ended.'',
                ae_fieldErrors = None\<rparr>
          else if rq_aborted r
          then \<lparr>ae_status = 0, ae_code = ''TIMEOUT'', ae_message = ''The request took too long. Check your connection and try again.'',
                ae_fieldErrors = None\<rparr>
          else \<lparr>ae_status = 0, ae_code = ''NETWORK'', ae_message = ''Could not reach the server. Check your connection and try again.'',
                ae_fieldErrors = None\<rparr>
      | None \<Rightarrow>
          if rq_aborted r
          then \<lparr>ae_status = 0, ae_code = ''TIMEOUT'', ae_message = ''The request took too long. Check your connection and try again.'',
                ae_fieldErrors = None\<rparr>
          else \<lparr>ae_status = 0, ae_code = ''NETWORK'', ae_message = ''Could not reach the server. Check your connection and try again.'',
                ae_fieldErrors = None\<rparr>)"

section \<open>The provider\<close>

definition clearLocally :: "'a tab \<Rightarrow> 'a tab" where
  "clearLocally t = t\<lparr>tb_identity := None, tb_status := Anon\<rparr>"

definition probeOk :: "SessionIdentity \<Rightarrow> 'a tab \<Rightarrow> 'a tab" where
  "probeOk who t = t\<lparr>tb_probing := False, tb_identity := Some who, tb_status := Authed\<rparr>"

definition probeFails :: "'a tab \<Rightarrow> 'a tab" where
  "probeFails t = t\<lparr>tb_probing := False, tb_identity := None, tb_status := Anon\<rparr>"

text \<open>A render: the reference follows the status.\<close>

definition renderProvider :: "'a tab \<Rightarrow> 'a tab" where
  "renderProvider t = t\<lparr>tb_statusRef := tb_status t\<rparr>"

text \<open>\<open>signIn\<close> and \<open>signUp\<close>, once the API has answered.\<close>

definition signedIn :: "SessionIdentity \<Rightarrow> 'a tab \<Rightarrow> 'a tab" where
  "signedIn who t = t\<lparr>tb_signingOut := False, tb_identity := Some who, tb_status := Authed\<rparr>"

text \<open>\<open>signOut\<close>, before and after the request, which may fail.\<close>

definition startSignOut :: "'a tab \<Rightarrow> 'a tab" where
  "startSignOut t = clearLocally (t\<lparr>tb_signingOut := True\<rparr>)"

definition endSignOut :: "'a tab \<Rightarrow> 'a tab" where
  "endSignOut t = t\<lparr>tb_redirects := tb_redirects t @ [''/'']\<rparr>"

definition sign_in_path :: string where
  "sign_in_path = ''/signin''"

definition onAuthFailure :: "(string \<Rightarrow> string) \<Rightarrow> string \<Rightarrow> 'a tab \<Rightarrow> 'a tab" where
  "onAuthFailure encodeURIComponent here t =
     (if tb_statusRef t = Anon then t
      else (let t1 = clearLocally t
            in t1\<lparr>tb_expiredCount := tb_expiredCount t1 + 1,
                  tb_redirects := tb_redirects t1 @
                    [if take (length sign_in_path) here = sign_in_path then sign_in_path
                     else sign_in_path @ ''?next='' @ encodeURIComponent here]\<rparr>))"

definition notifyAuthFailureHandler :: "(string \<Rightarrow> string) \<Rightarrow> string \<Rightarrow> 'a tab \<Rightarrow> 'a tab" where
  "notifyAuthFailureHandler encodeURIComponent here t =
     (if tb_latch t then t
      else abortSessionRequests (onAuthFailure encodeURIComponent here (t\<lparr>tb_latch := True\<rparr>)))"

text \<open>
  The end of a request: \<open>fetch\<close> rejects; its headers are in; its body is in, which is what the schema
  makes of it for a success, and what the server said otherwise; its body does not arrive.
\<close>

definition fetchFails :: "nat \<Rightarrow> 'a tab \<Rightarrow> 'a tab" where
  "fetchFails i t = setProgress i (Failed (transportError (tb_scope t) (tb_requests t ! i))) t"

definition headersIn :: "nat \<Rightarrow> nat \<Rightarrow> 'a tab \<Rightarrow> 'a tab" where
  "headersIn i status t = setProgress i (Reading status) t"

datatype 'a body = Data 'a | Unexpected string | ErrorBody "error_body option"

definition schemaError :: "nat \<Rightarrow> string \<Rightarrow> ApiError" where
  "schemaError status issues = \<lparr>ae_status = status, ae_code = ''SCHEMA'', ae_message = issues, ae_fieldErrors = None\<rparr>"

definition bodyIn :: "(nat \<Rightarrow> string) \<Rightarrow> (string \<Rightarrow> string) \<Rightarrow> string \<Rightarrow> nat \<Rightarrow> nat \<Rightarrow> 'a body \<Rightarrow> 'a tab \<Rightarrow> 'a tab" where
  "bodyIn statusText encodeURIComponent here i status body t =
     (case body of
        Data a \<Rightarrow> setProgress i (Succeeded a) t
      | Unexpected issues \<Rightarrow> setProgress i (Failed (schemaError status issues)) t
      | ErrorBody shape \<Rightarrow>
          (let err = toApiError statusText status shape; r = tb_requests t ! i
           in setProgress i (Failed err)
                (if rq_auth r \<and> rq_notify r \<and> isAuthFailure err
                 then notifyAuthFailureHandler encodeURIComponent here t else t)))"

definition releaseLatch :: "'a tab \<Rightarrow> 'a tab" where
  "releaseLatch t = t\<lparr>tb_latch := False\<rparr>"

section \<open>The guard\<close>

definition guardRedirect :: "(string \<Rightarrow> string) \<Rightarrow> nat \<Rightarrow> string \<Rightarrow> 'a tab \<Rightarrow> string option" where
  "guardRedirect encodeURIComponent expiredAtMount pathname t =
     (if tb_status t \<noteq> Anon \<or> tb_signingOut t \<or> tb_expiredCount t \<noteq> expiredAtMount then None
      else Some (sign_in_path @ ''?next='' @ encodeURIComponent pathname))"

section \<open>The states of a tab\<close>

text \<open>
  \<open>fetch\<close> rejects a request whose controller has been aborted; a body belongs to the kind of its status.
\<close>

fun body_of :: "nat \<Rightarrow> 'a body \<Rightarrow> bool" where
  "body_of status (ErrorBody shape) \<longleftrightarrow> \<not> (200 \<le> status \<and> status < 300)"
| "body_of status b \<longleftrightarrow> 200 \<le> status \<and> status < 300"

inductive tab_step :: "(nat \<Rightarrow> string) \<Rightarrow> (string \<Rightarrow> string) \<Rightarrow> 'a tab \<Rightarrow> 'a tab \<Rightarrow> bool" for statusText encode where
  probe_ok: "tb_probing t \<Longrightarrow> tab_step statusText encode t (probeOk who t)"
| probe_fails: "tb_probing t \<Longrightarrow> tab_step statusText encode t (probeFails t)"
| sign_in: "tab_step statusText encode t (signedIn who t)"
| sign_out: "tab_step statusText encode t (startSignOut t)"
| signed_out: "tb_signingOut t \<Longrightarrow> tab_step statusText encode t (endSignOut t)"
| request: "tab_step statusText encode t (startRequest auth notify t)"
| abort: "i < length (tb_requests t) \<Longrightarrow> tab_step statusText encode t (t\<lparr>tb_requests := (tb_requests t)[i := abortRequest (tb_requests t ! i)]\<rparr>)"
| unreachable: "i < length (tb_requests t) \<Longrightarrow> rq_progress (tb_requests t ! i) = Fetching \<Longrightarrow>
    tab_step statusText encode t (fetchFails i t)"
| headers: "i < length (tb_requests t) \<Longrightarrow> rq_progress (tb_requests t ! i) = Fetching \<Longrightarrow> \<not> rq_aborted (tb_requests t ! i) \<Longrightarrow>
    tab_step statusText encode t (headersIn i status t)"
| body: "i < length (tb_requests t) \<Longrightarrow> rq_progress (tb_requests t ! i) = Reading status \<Longrightarrow> body_of status b \<Longrightarrow>
    tab_step statusText encode t (bodyIn statusText encode here i status b t)"
| broken_body: "i < length (tb_requests t) \<Longrightarrow> rq_progress (tb_requests t ! i) = Reading status \<Longrightarrow>
    tab_step statusText encode t (fetchFails i t)"
| render: "tab_step statusText encode t (renderProvider t)"
| tick: "tab_step statusText encode t (releaseLatch t)"

end
