(* ===== verification/SessionProperties.thy ===== *)
theory SessionProperties
  imports Session
begin

text \<open>
  How a session ends: what is announced, where the tab goes, and what becomes of the requests that were
  on their way.
\<close>

abbreviation tab_steps :: "(nat \<Rightarrow> string) \<Rightarrow> (string \<Rightarrow> string) \<Rightarrow> 'a tab \<Rightarrow> 'a tab \<Rightarrow> bool" where
  "tab_steps statusText encode \<equiv> (tab_step statusText encode)\<^sup>*\<^sup>*"

section \<open>What an answer says\<close>

text \<open>The first message of a field is the one shown.\<close>

lemma first_message_of_a_field:
  "map_of (fieldErrorsOf details) = map_of [(field, message). (Some field, Some message) \<leftarrow> details]"
proof -
  have "map_of (foldl (\<lambda>errors detail.
       case detail of
         (Some field, Some message) \<Rightarrow> if map_of errors field = None then AList.update field message errors else errors
       | _ \<Rightarrow> errors) errors details)
     = map_of [(field, message). (Some field, Some message) \<leftarrow> details] ++ map_of errors" for errors
  proof (induction details arbitrary: errors)
    case (Cons d details)
    then show ?case by (cases d) (auto simp: update_conv' map_add_def fun_eq_iff split: option.splits)
  qed simp
  from this[of "[]"] show ?thesis by (simp add: fieldErrorsOf_def)
qed

text \<open>An error without a body that can be read is shown unless the session is over; what may have happened may be tried again.\<close>

lemma unread_body_is_loud:
  "status \<noteq> 401 \<Longrightarrow> \<not> isSilent (toApiError statusText status None)"
  "isSilent (toApiError statusText 401 shape)"
  "isOutcomeUnknown e \<Longrightarrow> isRetryable e"
  by (auto simp: toApiError_def isSilent_def isAuthFailure_def isCancelled_def isOutcomeUnknown_def isEngineDown_def
      isRetryable_def Let_def split: option.split)

section \<open>Every reachable tab\<close>

text \<open>
  Somebody is known exactly while the tab is signed in; a request has joined a scope that was present when it
  started, exactly if it needs the session; and one whose scope is over has been aborted, unless its
  headers were in.
\<close>

definition request_ok :: "nat \<Rightarrow> 'a request \<Rightarrow> bool" where
  "request_ok present r \<longleftrightarrow>
     (rq_auth r \<longleftrightarrow> rq_scope r \<noteq> None)
     \<and> (\<forall>s. rq_scope r = Some s \<longrightarrow> s \<le> present \<and> (s < present \<and> rq_progress r = Fetching \<longrightarrow> rq_aborted r))"

definition tab_ok :: "'a tab \<Rightarrow> bool" where
  "tab_ok t \<longleftrightarrow> (tb_status t = Authed \<longleftrightarrow> tb_identity t \<noteq> None) \<and> (\<forall>r \<in> set (tb_requests t). request_ok (tb_scope t) r)"

lemma progress_ok:
  assumes "tab_ok t" "i < length (tb_requests t)" "p \<noteq> Fetching"
  shows "tab_ok (setProgress i p t)"
proof -
  have "request_ok (tb_scope t) ((tb_requests t ! i)\<lparr>rq_progress := p\<rparr>)"
    using assms by (auto simp: tab_ok_def request_ok_def)
  then show ?thesis using assms(1) set_update_subset_insert[of "tb_requests t" i "(tb_requests t ! i)\<lparr>rq_progress := p\<rparr>"]
    by (auto simp: tab_ok_def setProgress_def)
qed

lemma abort_ok: "request_ok s r \<Longrightarrow> request_ok s (abortRequest r)"
  by (auto simp: request_ok_def abortRequest_def split: progress.split)

lemma scope_over:
  "request_ok s r \<Longrightarrow> rq_scope r = Some s \<Longrightarrow> request_ok (Suc s) (abortRequest r)"
  "request_ok s r \<Longrightarrow> rq_scope r \<noteq> Some s \<Longrightarrow> request_ok (Suc s) r"
  by (auto simp: request_ok_def abortRequest_def less_Suc_eq split: progress.splits)

lemma aborted_ok: "tab_ok t \<Longrightarrow> tab_ok (abortSessionRequests t)"
  by (auto simp: tab_ok_def abortSessionRequests_def scope_over)

definition scope_and_auth :: "'a request \<Rightarrow> nat option \<times> bool" where
  "scope_and_auth r = (rq_scope r, rq_auth r)"

lemma requests_kept:
  "i < length (tb_requests t) \<Longrightarrow> map scope_and_auth (tb_requests (setProgress i p t)) = map scope_and_auth (tb_requests t)"
  "map scope_and_auth (tb_requests (abortSessionRequests t)) = map scope_and_auth (tb_requests t)"
  by (simp_all add: scope_and_auth_def setProgress_def map_list_update_same abortSessionRequests_def abortRequest_def split: progress.split)

lemma kept_scope:
  assumes "tab_ok t" "map scope_and_auth rs = map scope_and_auth (tb_requests t)" "r \<in> set rs" "rq_auth r"
  shows "\<exists>s \<le> tb_scope t. rq_scope r = Some s"
proof -
  have "scope_and_auth r \<in> set (map scope_and_auth (tb_requests t))" using assms(3) by (simp flip: assms(2))
  then obtain q where q: "q \<in> set (tb_requests t)" "scope_and_auth r = scope_and_auth q" by auto
  then have "request_ok (tb_scope t) q" using assms(1) by (simp add: tab_ok_def)
  then show ?thesis using assms(4) q(2) by (auto simp: request_ok_def scope_and_auth_def)
qed

lemma notified_ok: "tab_ok t \<Longrightarrow> tab_ok (notifyAuthFailureHandler encode here t)"
proof -
  assume "tab_ok t"
  then have "tab_ok (onAuthFailure encode here (t\<lparr>tb_latch := True\<rparr>))"
    by (auto simp: tab_ok_def onAuthFailure_def clearLocally_def Let_def)
  then show ?thesis using \<open>tab_ok t\<close> by (simp add: notifyAuthFailureHandler_def aborted_ok)
qed

lemma notified_requests [simp]: "length (tb_requests (notifyAuthFailureHandler encode here t)) = length (tb_requests t)"
  by (simp add: notifyAuthFailureHandler_def abortSessionRequests_def onAuthFailure_def clearLocally_def Let_def)

lemma step_ok: "tab_step statusText encode t t' \<Longrightarrow> tab_ok t \<Longrightarrow> tab_ok t'"
proof (induction rule: tab_step.induct)
  case (request t auth notify)
  then show ?case by (auto simp: tab_ok_def startRequest_def request_ok_def)
next
  case (abort i t)
  then have "request_ok (tb_scope t) (abortRequest (tb_requests t ! i))" by (simp add: tab_ok_def abort_ok)
  then show ?case using abort set_update_subset_insert[of "tb_requests t" i "abortRequest (tb_requests t ! i)"]
    by (auto simp: tab_ok_def)
next
  case (unreachable i t)
  then show ?case by (simp add: fetchFails_def progress_ok)
next
  case (headers i t status)
  then show ?case by (simp add: headersIn_def progress_ok)
next
  case (body i t status b here)
  then show ?case by (simp add: bodyIn_def progress_ok notified_ok Let_def split: body.split)
next
  case (broken_body i t status)
  then show ?case by (simp add: fetchFails_def progress_ok)
qed (auto simp: tab_ok_def probeOk_def probeFails_def signedIn_def startSignOut_def endSignOut_def clearLocally_def releaseLatch_def
    renderProvider_def)

lemma steps_ok: "tab_steps statusText encode fresh_tab t \<Longrightarrow> tab_ok t"
  by (induction rule: rtranclp_induct) (simp_all add: step_ok, simp add: tab_ok_def fresh_tab_def)

section \<open>An expired session\<close>

lemma cancelled_silent: "rq_scope r = Some s \<Longrightarrow> s < present \<Longrightarrow> isSilent (transportError present r)"
  by (simp add: transportError_def isSilent_def isCancelled_def)

text \<open>While nobody signs in and the tab has rendered that nobody is, nothing is announced.\<close>

lemma anon_step_quiet:
  assumes "tab_step statusText encode t t'" "tb_statusRef t = Anon" "tb_status t = Anon" "tb_status t' = Anon"
  shows "tb_statusRef t' = Anon \<and> tb_expiredCount t' = tb_expiredCount t"
  using assms
proof cases
  case (body i status b here)
  then show ?thesis using assms(2)
    by (cases b) (auto simp: bodyIn_def setProgress_def Let_def notifyAuthFailureHandler_def abortSessionRequests_def onAuthFailure_def)
qed (use assms in \<open>auto simp: probeOk_def probeFails_def signedIn_def startSignOut_def endSignOut_def clearLocally_def
      releaseLatch_def startRequest_def fetchFails_def headersIn_def setProgress_def renderProvider_def\<close>)

text \<open>The steps of a tab in which nobody signs in.\<close>

abbreviation anon_steps :: "(nat \<Rightarrow> string) \<Rightarrow> (string \<Rightarrow> string) \<Rightarrow> 'a tab \<Rightarrow> 'a tab \<Rightarrow> bool" where
  "anon_steps statusText encode \<equiv> (\<lambda>t t'. tab_step statusText encode t t' \<and> tb_status t' = Anon)\<^sup>*\<^sup>*"

lemma anon_steps_status: "anon_steps statusText encode t u \<Longrightarrow> tb_status t = Anon \<Longrightarrow> tb_status u = Anon"
  by (induction rule: rtranclp_induct) auto

lemma anon_steps_quiet:
  "anon_steps statusText encode t u \<Longrightarrow> tb_status t = Anon \<Longrightarrow> tb_statusRef t = Anon \<Longrightarrow>
     tb_status u = Anon \<and> tb_statusRef u = Anon \<and> tb_expiredCount u = tb_expiredCount t"
proof (induction rule: rtranclp_induct)
  case (step u v)
  then show ?case using anon_step_quiet[of statusText encode u v] by simp
qed simp

text \<open>
  C32. An expired session is announced once. A step that announces an expiry announces one, only if at
  the last render the tab did not take itself for signed out, and leaves it signed out with one redirect
  to the sign-in page, to which the guard adds none; every request of the session that has no headers yet
  is aborted and ends in an error that nobody shows; and once the tab has rendered again, nothing more is
  announced until somebody signs in. (Before that render it can be: \<open>second_401_announces_again\<close>.)
\<close>

theorem expiry_is_announced_once:
  assumes "tab_steps statusText encode fresh_tab t" "tab_step statusText encode t t'"
    and "tb_expiredCount t' \<noteq> tb_expiredCount t"
  shows "tb_expiredCount t' = tb_expiredCount t + 1 \<and> tb_statusRef t \<noteq> Anon \<and> tb_status t' = Anon \<and> tb_identity t' = None
    \<and> (\<exists>rest. tb_redirects t' = tb_redirects t @ [''/signin'' @ rest])
    \<and> guardRedirect encode (tb_expiredCount t) pathname t' = None
    \<and> (\<forall>r \<in> set (tb_requests t'). rq_auth r \<and> rq_progress r = Fetching \<longrightarrow>
        rq_aborted r \<and> isSilent (transportError (tb_scope t') r))
    \<and> (\<forall>u v. anon_steps statusText encode t' u \<and> anon_steps statusText encode (renderProvider u) v \<longrightarrow>
        tb_expiredCount v = tb_expiredCount u)"
proof -
  have ok: "tab_ok t'" by (rule step_ok[OF assms(2) steps_ok[OF assms(1)]])
  have scoped: "tab_ok t" by (rule steps_ok[OF assms(1)])
  have later: "tb_expiredCount v = tb_expiredCount u"
    if "tb_status t' = Anon" "anon_steps statusText encode t' u" "anon_steps statusText encode (renderProvider u) v" for u v
  proof -
    have "tb_status u = Anon" by (rule anon_steps_status[OF that(2,1)])
    then have "tb_status (renderProvider u) = Anon" "tb_statusRef (renderProvider u) = Anon"
      "tb_expiredCount (renderProvider u) = tb_expiredCount u" by (simp_all add: renderProvider_def)
    then show ?thesis using anon_steps_quiet[OF that(3)] by metis
  qed
  from assms(2) show ?thesis
  proof cases
    case (body i status b here)
    obtain shape where b: "b = ErrorBody shape"
      using body assms(3) by (cases b) (auto simp: bodyIn_def setProgress_def)
    let ?n = "notifyAuthFailureHandler encode here t"
    have t': "t' = setProgress i (Failed (toApiError statusText status shape)) ?n"
      using body(1) assms(3) b by (auto simp: bodyIn_def Let_def setProgress_def split: if_splits)
    have not_anon: "\<not> tb_latch t" "tb_statusRef t \<noteq> Anon"
      using assms(3) unfolding t'
      by (auto simp: setProgress_def notifyAuthFailureHandler_def abortSessionRequests_def onAuthFailure_def split: if_splits)
    then have n: "?n = abortSessionRequests (onAuthFailure encode here (t\<lparr>tb_latch := True\<rparr>))"
      by (simp add: notifyAuthFailureHandler_def)
    have scope: "tb_scope t' = tb_scope t + 1"
      using not_anon by (simp add: t' n setProgress_def abortSessionRequests_def onAuthFailure_def clearLocally_def Let_def)
    have len: "length (tb_requests ?n) = length (tb_requests t)" by simp
    have "map scope_and_auth (tb_requests t') = map scope_and_auth (tb_requests ?n)"
      unfolding t' using body(2) len by (intro requests_kept(1)) simp
    also have "\<dots> = map scope_and_auth (tb_requests t)"
      unfolding n requests_kept(2) using not_anon by (simp add: onAuthFailure_def clearLocally_def Let_def)
    finally have scope_and_auth: "map scope_and_auth (tb_requests t') = map scope_and_auth (tb_requests t)" .
    have req: "rq_aborted r \<and> isSilent (transportError (tb_scope t') r)"
      if r: "r \<in> set (tb_requests t')" "rq_auth r" "rq_progress r = Fetching" for r
    proof -
      obtain s where "s \<le> tb_scope t" "rq_scope r = Some s" using kept_scope[OF scoped scope_and_auth r(1,2)] by blast
      then have s: "s < tb_scope t'" "rq_scope r = Some s" by (simp_all add: scope)
      then show ?thesis using ok r cancelled_silent[OF s(2,1)] by (auto simp: tab_ok_def request_ok_def)
    qed
    have "\<exists>rest. tb_redirects t' = tb_redirects t @ [''/signin'' @ rest]"
      using not_anon by (auto simp: t' n setProgress_def abortSessionRequests_def onAuthFailure_def clearLocally_def sign_in_path_def Let_def)
    moreover have "tb_expiredCount t' = tb_expiredCount t + 1" "tb_status t' = Anon" "tb_identity t' = None"
      using not_anon by (simp_all add: t' n setProgress_def abortSessionRequests_def onAuthFailure_def clearLocally_def Let_def)
    moreover have "guardRedirect encode (tb_expiredCount t) pathname t' = None"
      using calculation by (simp add: guardRedirect_def)
    ultimately show ?thesis using not_anon req later by blast
  qed (use assms(3) in \<open>auto simp: probeOk_def probeFails_def signedIn_def startSignOut_def endSignOut_def clearLocally_def
      releaseLatch_def startRequest_def fetchFails_def headersIn_def setProgress_def renderProvider_def\<close>)
qed

text \<open>Two tables on their way, one of which is answered 401.\<close>

lemma expiry_is_announced_once_witness:
  "\<exists>t t' :: nat tab. tab_steps (\<lambda>_. ''401'') id fresh_tab t \<and> tab_step (\<lambda>_. ''401'') id t t' \<and> tb_expiredCount t' = 1
    \<and> tb_redirects t' = [''/signin?next=/trade''] \<and> guardRedirect id 0 ''/trade'' t' = None"
proof -
  let ?who = "\<lparr>si_userId = ''u1'', si_username = ''ann''\<rparr>"
  let ?a = "signedIn ?who (fresh_tab :: nat tab)"
  let ?b = "startRequest True True ?a"
  let ?c = "startRequest True True ?b"
  let ?d = "headersIn 0 401 ?c"
  let ?e = "bodyIn (\<lambda>_. ''401'') id ''/trade'' 0 401 (ErrorBody None) ?d"
  note tab = fresh_tab_def signedIn_def startRequest_def headersIn_def setProgress_def
  have "tab_steps (\<lambda>_. ''401'') id (fresh_tab :: nat tab) ?a"
    by (rule r_into_rtranclp) (rule sign_in)
  then have "tab_steps (\<lambda>_. ''401'') id (fresh_tab :: nat tab) ?b"
    by (rule rtranclp.rtrancl_into_rtrancl) (rule request)
  then have "tab_steps (\<lambda>_. ''401'') id (fresh_tab :: nat tab) ?c"
    by (rule rtranclp.rtrancl_into_rtrancl) (rule request)
  then have d: "tab_steps (\<lambda>_. ''401'') id (fresh_tab :: nat tab) ?d"
    by (rule rtranclp.rtrancl_into_rtrancl) (rule headers, simp_all add: tab)
  have e: "tab_step (\<lambda>_. ''401'') id ?d ?e" by (rule body) (simp_all add: tab)
  have n: "tb_expiredCount ?e \<noteq> tb_expiredCount ?d"
    by (simp add: tab bodyIn_def toApiError_def isAuthFailure_def notifyAuthFailureHandler_def abortSessionRequests_def
        onAuthFailure_def clearLocally_def sign_in_path_def)
  have "tb_redirects ?e = [''/signin?next=/trade'']" "tb_expiredCount ?d = 0"
    by (simp_all add: tab bodyIn_def toApiError_def isAuthFailure_def notifyAuthFailureHandler_def abortSessionRequests_def
        onAuthFailure_def clearLocally_def sign_in_path_def)
  then show ?thesis using d e expiry_is_announced_once[OF d e n, where pathname = "''/trade''"] by (intro exI[of _ ?d] exI[of _ ?e]) simp
qed

section \<open>A burst of refusals\<close>

text \<open>
  The latch that makes one announcement of a burst is released in a microtask, the reference follows at
  the next render, which comes later: a second request of the same session whose 401 is read in between
  announces the expiry again and redirects again.
\<close>

definition two_requests :: "SessionIdentity \<Rightarrow> 'a tab" where
  "two_requests who = headersIn 1 401 (headersIn 0 401 (startRequest True True (startRequest True True
     (renderProvider (signedIn who fresh_tab)))))"

theorem second_401_announces_again:
  fixes statusText encode here who
  defines "one \<equiv> bodyIn statusText encode here 0 401 (ErrorBody None) (two_requests who :: 'a tab)"
  defines "two \<equiv> bodyIn statusText encode here 1 401 (ErrorBody None) (releaseLatch one)"
  shows "tab_steps statusText encode fresh_tab (two_requests who :: 'a tab)"
    "tab_steps statusText encode (two_requests who) two"
    "tb_expiredCount two = 2 \<and> length (tb_redirects two) = 2"
proof -
  note tab = fresh_tab_def signedIn_def startRequest_def headersIn_def setProgress_def renderProvider_def two_requests_def
  let ?one = "renderProvider (signedIn who (fresh_tab :: 'a tab))"
  let ?two = "startRequest True True (startRequest True True ?one)"
  have "tab_steps statusText encode fresh_tab (signedIn who (fresh_tab :: 'a tab))" by (rule r_into_rtranclp) (rule sign_in)
  then have "tab_steps statusText encode fresh_tab ?one" by (rule rtranclp.rtrancl_into_rtrancl) (rule render)
  then have "tab_steps statusText encode fresh_tab (startRequest True True ?one)"
    by (rule rtranclp.rtrancl_into_rtrancl) (rule request)
  then have "tab_steps statusText encode fresh_tab ?two" by (rule rtranclp.rtrancl_into_rtrancl) (rule request)
  then have "tab_steps statusText encode fresh_tab (headersIn 0 401 ?two)"
    by (rule rtranclp.rtrancl_into_rtrancl) (rule headers, simp_all add: tab)
  then show "tab_steps statusText encode fresh_tab (two_requests who :: 'a tab)"
    unfolding two_requests_def by (rule rtranclp.rtrancl_into_rtrancl) (rule headers, simp_all add: tab)
  have "tab_steps statusText encode (two_requests who) one"
    unfolding one_def by (rule r_into_rtranclp) (rule body, simp_all add: tab)
  then have "tab_steps statusText encode (two_requests who) (releaseLatch one)"
    by (rule rtranclp.rtrancl_into_rtrancl) (rule tick)
  then show "tab_steps statusText encode (two_requests who) two"
    unfolding two_def
    by (rule rtranclp.rtrancl_into_rtrancl)
      (rule body, simp_all add: one_def tab releaseLatch_def bodyIn_def toApiError_def isAuthFailure_def
        notifyAuthFailureHandler_def abortSessionRequests_def abortRequest_def onAuthFailure_def clearLocally_def Let_def)
  show "tb_expiredCount two = 2 \<and> length (tb_redirects two) = 2"
    by (simp add: two_def one_def tab releaseLatch_def bodyIn_def toApiError_def isAuthFailure_def notifyAuthFailureHandler_def
        abortSessionRequests_def abortRequest_def onAuthFailure_def clearLocally_def Let_def)
qed

section \<open>What ends a session it should not\<close>

text \<open>
  The probe that asks at the start who is signed in has no right to the last word, but has it: when it
  fails after a sign-in, the user who has just signed in is taken for nobody.
\<close>

theorem slow_probe_signs_out:
  fixes who :: SessionIdentity
  defines "t \<equiv> signedIn who (fresh_tab :: 'a tab)"
  shows "tb_status t = Authed" "tab_steps statusText encode fresh_tab t"
    "tab_step statusText encode t (probeFails t)" "tb_status (probeFails t) = Anon"
proof -
  show "tab_steps statusText encode fresh_tab t" unfolding t_def by (rule r_into_rtranclp) (rule sign_in)
  show "tab_step statusText encode t (probeFails t)" by (rule probe_fails) (simp add: t_def signedIn_def fresh_tab_def)
qed (simp_all add: t_def signedIn_def probeFails_def)

definition second_session :: "SessionIdentity \<Rightarrow> SessionIdentity \<Rightarrow> 'a tab" where
  "second_session one two = renderProvider (signedIn two (renderProvider (startSignOut
     (startRequest True True (renderProvider (signedIn one fresh_tab))))))"

text \<open>
  Signing out leaves the requests of the session on their way, in the scope that the next session goes on
  using: one of them that is answered 401 after the next sign-in announces the expiry of the new session.
\<close>

theorem late_401_ends_the_next_session:
  fixes statusText encode here one two
  defines "t' \<equiv> bodyIn statusText encode here 0 401 (ErrorBody None) (headersIn 0 401 (second_session one two :: 'a tab))"
  shows "tab_steps statusText encode fresh_tab (second_session one two :: 'a tab)"
    "tb_identity (second_session one two :: 'a tab) = Some two"
    "tab_steps statusText encode (second_session one two) t'" "tb_expiredCount t' = 1 \<and> tb_status t' = Anon"
proof -
  note tab = fresh_tab_def signedIn_def startRequest_def startSignOut_def clearLocally_def headersIn_def setProgress_def
    second_session_def renderProvider_def
  let ?one = "renderProvider (signedIn one (fresh_tab :: 'a tab))"
  have "tab_steps statusText encode fresh_tab (signedIn one (fresh_tab :: 'a tab))" by (rule r_into_rtranclp) (rule sign_in)
  then have "tab_steps statusText encode fresh_tab ?one" by (rule rtranclp.rtrancl_into_rtrancl) (rule render)
  then have "tab_steps statusText encode fresh_tab (startRequest True True ?one)"
    by (rule rtranclp.rtrancl_into_rtrancl) (rule request)
  then have "tab_steps statusText encode fresh_tab (startSignOut (startRequest True True ?one))"
    by (rule rtranclp.rtrancl_into_rtrancl) (rule sign_out)
  then have "tab_steps statusText encode fresh_tab (renderProvider (startSignOut (startRequest True True ?one)))"
    by (rule rtranclp.rtrancl_into_rtrancl) (rule render)
  then have "tab_steps statusText encode fresh_tab (signedIn two (renderProvider (startSignOut (startRequest True True ?one))))"
    by (rule rtranclp.rtrancl_into_rtrancl) (rule sign_in)
  then show "tab_steps statusText encode fresh_tab (second_session one two :: 'a tab)"
    unfolding second_session_def by (rule rtranclp.rtrancl_into_rtrancl) (rule render)
  have "tab_steps statusText encode (second_session one two) (headersIn 0 401 (second_session one two :: 'a tab))"
    by (rule r_into_rtranclp) (rule headers, simp_all add: tab)
  then show "tab_steps statusText encode (second_session one two) t'"
    unfolding t'_def by (rule rtranclp.rtrancl_into_rtrancl) (rule body, simp_all add: tab)
  show "tb_identity (second_session one two :: 'a tab) = Some two" by (simp add: tab)
  show "tb_expiredCount t' = 1 \<and> tb_status t' = Anon"
    by (simp add: t'_def tab bodyIn_def toApiError_def isAuthFailure_def notifyAuthFailureHandler_def abortSessionRequests_def
        onAuthFailure_def)
qed

end
