(* ===== verification/MakerClient.thy ===== *)
theory MakerClient
  imports Main "HOL-Library.Multiset"
begin

text \<open>
  The HTTP client of the market maker's two accounts, \<open>apps/market-maker/src/services/api-client.ts\<close>: the
  gate that bounds how many requests run at once, the one sign-in that requests with an expired session
  share, and the retry. What a request says and how an answer is parsed are left out; a request is
  numbered in the order of the calls and goes through phases, a callback or a promise that has been
  resolved but has not run yet being a phase of its own.
\<close>

text \<open>
  The flag tells the retry of a request, which runs inside the request and so keeps its slot, from the
  request itself.
\<close>

datatype task =
    Queued bool     \<comment> \<open>waits in the gate\<close>
  | Woken bool      \<comment> \<open>its turn has come\<close>
  | Sending bool    \<comment> \<open>holds a slot and waits for the answer\<close>
  | SigningIn       \<comment> \<open>was answered 401 and waits for the session\<close>
  | Retrying        \<comment> \<open>has a session again\<close>
  | Failing         \<comment> \<open>the sign-in failed\<close>
  | Settled

record api_client =
  ac_active :: nat
  ac_waiting :: "nat list"
  ac_tasks :: "task list"
  ac_cookie :: bool
  ac_userId :: bool
  ac_pendingSignIn :: bool

definition createApiClient :: api_client where
  "createApiClient =
     \<lparr>ac_active = 0, ac_waiting = [], ac_tasks = [], ac_cookie = False, ac_userId = False, ac_pendingSignIn = False\<rparr>"

definition concurrency :: nat where
  "concurrency = 6"

section \<open>The gate\<close>

definition enterGate :: "nat \<Rightarrow> bool \<Rightarrow> nat \<Rightarrow> api_client \<Rightarrow> api_client" where
  "enterGate limit inner r c =
     (if ac_active c \<ge> limit then c\<lparr>ac_waiting := ac_waiting c @ [r], ac_tasks := (ac_tasks c)[r := Queued inner]\<rparr>
      else c\<lparr>ac_active := ac_active c + 1, ac_tasks := (ac_tasks c)[r := Sending inner]\<rparr>)"

fun wake :: "task \<Rightarrow> task" where
  "wake (Queued inner) = Woken inner"
| "wake t = t"

definition leaveGate :: "api_client \<Rightarrow> api_client" where
  "leaveGate c =
     (let c1 = c\<lparr>ac_active := ac_active c - 1\<rparr>
      in case ac_waiting c of
           [] \<Rightarrow> c1
         | r # rs \<Rightarrow> c1\<lparr>ac_waiting := rs, ac_tasks := (ac_tasks c)[r := wake (ac_tasks c ! r)]\<rparr>)"

definition resumeTask :: "bool \<Rightarrow> nat \<Rightarrow> api_client \<Rightarrow> api_client" where
  "resumeTask inner r c = c\<lparr>ac_active := ac_active c + 1, ac_tasks := (ac_tasks c)[r := Sending inner]\<rparr>"

section \<open>A request\<close>

definition callRequest :: "nat \<Rightarrow> api_client \<Rightarrow> api_client" where
  "callRequest limit c = enterGate limit False (length (ac_tasks c)) (c\<lparr>ac_tasks := ac_tasks c @ [Settled]\<rparr>)"

definition ensureSession :: "api_client \<Rightarrow> api_client" where
  "ensureSession c = (if ac_cookie c \<and> ac_userId c then c else c\<lparr>ac_pendingSignIn := True\<rparr>)"

text \<open>The answer to a request, to one that is not to be retried, and what follows a sign-in.\<close>

definition answerRequest :: "nat \<Rightarrow> nat \<Rightarrow> api_client \<Rightarrow> api_client" where
  "answerRequest status r c =
     (if status = 401 then ensureSession (c\<lparr>ac_cookie := False, ac_tasks := (ac_tasks c)[r := SigningIn]\<rparr>)
      else leaveGate (c\<lparr>ac_tasks := (ac_tasks c)[r := Settled]\<rparr>))"

definition answerRetry :: "nat \<Rightarrow> api_client \<Rightarrow> api_client" where
  "answerRetry r c = leaveGate (leaveGate (c\<lparr>ac_tasks := (ac_tasks c)[r := Settled]\<rparr>))"

definition signInEnds :: "bool \<Rightarrow> api_client \<Rightarrow> api_client" where
  "signInEnds ok c =
     c\<lparr>ac_pendingSignIn := False, ac_cookie := ok \<or> ac_cookie c, ac_userId := ok \<or> ac_userId c,
       ac_tasks := map (\<lambda>t. if t = SigningIn then (if ok then Retrying else Failing) else t) (ac_tasks c)\<rparr>"

definition failRequest :: "nat \<Rightarrow> api_client \<Rightarrow> api_client" where
  "failRequest r c = leaveGate (c\<lparr>ac_tasks := (ac_tasks c)[r := Settled]\<rparr>)"

inductive client_step :: "nat \<Rightarrow> api_client \<Rightarrow> api_client \<Rightarrow> bool" for limit where
  call: "client_step limit c (callRequest limit c)"
| boot: "client_step limit c (ensureSession c)"
| resume: "r < length (ac_tasks c) \<Longrightarrow> ac_tasks c ! r = Woken inner \<Longrightarrow> client_step limit c (resumeTask inner r c)"
| answer: "r < length (ac_tasks c) \<Longrightarrow> ac_tasks c ! r = Sending False \<Longrightarrow> client_step limit c (answerRequest status r c)"
| answer_retry: "r < length (ac_tasks c) \<Longrightarrow> ac_tasks c ! r = Sending True \<Longrightarrow> client_step limit c (answerRetry r c)"
| signed_in: "ac_pendingSignIn c \<Longrightarrow> client_step limit c (signInEnds ok c)"
| again: "r < length (ac_tasks c) \<Longrightarrow> ac_tasks c ! r = Retrying \<Longrightarrow> client_step limit c (enterGate limit True r c)"
| no_session: "r < length (ac_tasks c) \<Longrightarrow> ac_tasks c ! r = Failing \<Longrightarrow> client_step limit c (failRequest r c)"

abbreviation client_steps :: "nat \<Rightarrow> api_client \<Rightarrow> api_client \<Rightarrow> bool" where
  "client_steps limit \<equiv> (client_step limit)\<^sup>*\<^sup>*"

end
