(* ===== verification/MakerClientProperties.thy ===== *)
theory MakerClientProperties
  imports MakerClient
begin

text \<open>
  The gate counts its slots right and leaves none free while a request waits for it; but a request
  that was answered 401 keeps its slot while its retry asks for another one, and as many of them as
  there are slots wait for each other for ever.
\<close>

section \<open>Slots\<close>

fun slots :: "task \<Rightarrow> nat" where
  "slots (Queued inner) = of_bool inner"
| "slots (Woken inner) = of_bool inner"
| "slots (Sending inner) = 1 + of_bool inner"
| "slots SigningIn = 1"
| "slots Retrying = 1"
| "slots Failing = 1"
| "slots Settled = 0"

fun queued :: "task \<Rightarrow> bool" where
  "queued (Queued inner) = True"
| "queued t = False"

fun woken :: "task \<Rightarrow> nat" where
  "woken (Woken inner) = 1"
| "woken t = 0"

definition total_of :: "(task \<Rightarrow> nat) \<Rightarrow> task list \<Rightarrow> nat" where
  "total_of f ts = sum_list (map f ts)"

definition waiting_in :: "task list \<Rightarrow> nat set" where
  "waiting_in ts = {r. r < length ts \<and> queued (ts ! r)}"

lemma total_update: "r < length ts \<Longrightarrow> total_of f (ts[r := t]) + f (ts ! r) = total_of f ts + f t"
proof (induction ts arbitrary: r)
  case (Cons a ts)
  show ?case
  proof (cases r)
    case (Suc n)
    then show ?thesis using Cons.IH[of n] Cons.prems by (simp add: total_of_def)
  qed (simp add: total_of_def)
qed simp

lemma waiting_update:
  "r < length ts \<Longrightarrow> waiting_in (ts[r := t]) = (if queued t then insert r (waiting_in ts) else waiting_in ts - {r})"
  by (auto simp: waiting_in_def nth_list_update)

text \<open>The gate with slots of which the count says that they are held while nobody holds them any more.\<close>

definition held :: "nat \<Rightarrow> nat \<Rightarrow> nat \<Rightarrow> nat list \<Rightarrow> task list \<Rightarrow> bool \<Rightarrow> bool" where
  "held limit k active waiting ts pending \<longleftrightarrow>
     active = total_of slots ts + k \<and> distinct waiting \<and> set waiting = waiting_in ts
     \<and> (waiting = [] \<or> limit \<le> active + total_of woken ts) \<and> (SigningIn \<in> set ts \<longrightarrow> pending)"

abbreviation gate_held :: "nat \<Rightarrow> nat \<Rightarrow> api_client \<Rightarrow> bool" where
  "gate_held limit k c \<equiv> held limit k (ac_active c) (ac_waiting c) (ac_tasks c) (ac_pendingSignIn c)"

lemma signing_update: "SigningIn \<in> set (ts[r := t]) \<Longrightarrow> t = SigningIn \<or> SigningIn \<in> set ts"
  using set_update_subset_insert[of ts r t] by auto

lemma leave_held:
  assumes "gate_held limit (Suc k) c" shows "gate_held limit k (leaveGate c)"
proof (cases "ac_waiting c")
  case Nil
  then show ?thesis using assms by (simp add: held_def leaveGate_def Let_def)
next
  case (Cons r rs)
  have r: "r < length (ac_tasks c)" "queued (ac_tasks c ! r)" "set rs = waiting_in (ac_tasks c) - {r}"
    using assms Cons by (auto simp: held_def waiting_in_def)
  then obtain inner where q: "ac_tasks c ! r = Queued inner" by (cases "ac_tasks c ! r") auto
  have l: "leaveGate c = c\<lparr>ac_active := ac_active c - 1, ac_waiting := rs, ac_tasks := (ac_tasks c)[r := Woken inner]\<rparr>"
    using Cons q by (simp add: leaveGate_def Let_def)
  show ?thesis
    using total_update[OF r(1), of slots "Woken inner"] total_update[OF r(1), of woken "Woken inner"] q assms Cons r(3)
      signing_update[of "ac_tasks c" r "Woken inner"] by (auto simp: l held_def waiting_update[OF r(1)])
qed

lemma task_held:
  assumes "held limit k a ws ts p" "r < length ts" "\<not> queued (ts ! r)" "\<not> queued t"
    "slots (ts ! r) = slots t + j" "woken (ts ! r) = 0" "p \<or> t = SigningIn \<Longrightarrow> p'"
  shows "held limit (k + j) a ws (ts[r := t]) p'"
proof -
  have "r \<notin> waiting_in ts" using assms(3) by (simp add: waiting_in_def)
  then show ?thesis
    using total_update[OF assms(2), of slots t] total_update[OF assms(2), of woken t] assms signing_update[of ts r t]
    by (auto simp: held_def waiting_update[OF assms(2)])
qed

lemma enter_held:
  assumes "gate_held limit 0 c" "r < length (ac_tasks c)" "\<not> queued (ac_tasks c ! r)" "woken (ac_tasks c ! r) = 0"
    "slots (ac_tasks c ! r) = of_bool inner"
  shows "gate_held limit 0 (enterGate limit inner r c)"
proof -
  have "r \<notin> waiting_in (ac_tasks c)" using assms(3) by (simp add: waiting_in_def)
  then show ?thesis
    using total_update[OF assms(2), of slots "Queued inner"] total_update[OF assms(2), of woken "Queued inner"]
      total_update[OF assms(2), of slots "Sending inner"] total_update[OF assms(2), of woken "Sending inner"] assms
      signing_update[of "ac_tasks c" r "Queued inner"] signing_update[of "ac_tasks c" r "Sending inner"]
    by (auto simp: held_def enterGate_def waiting_update[OF assms(2)])
qed

lemma call_held: "gate_held limit 0 c \<Longrightarrow> gate_held limit 0 (callRequest limit c)"
proof -
  assume ok: "gate_held limit 0 c"
  let ?c = "c\<lparr>ac_tasks := ac_tasks c @ [Settled]\<rparr>"
  have "waiting_in (ac_tasks c @ [Settled]) = waiting_in (ac_tasks c)" by (auto simp: waiting_in_def nth_append less_Suc_eq)
  then have "gate_held limit 0 ?c" using ok by (auto simp: held_def total_of_def)
  then show ?thesis unfolding callRequest_def by (rule enter_held) (simp_all add: nth_append)
qed

lemma resume_held:
  assumes "gate_held limit 0 c" "r < length (ac_tasks c)" "ac_tasks c ! r = Woken inner"
  shows "gate_held limit 0 (resumeTask inner r c)"
proof -
  have "r \<notin> waiting_in (ac_tasks c)" using assms(3) by (simp add: waiting_in_def)
  then show ?thesis
    using total_update[OF assms(2), of slots "Sending inner"] total_update[OF assms(2), of woken "Sending inner"] assms
      signing_update[of "ac_tasks c" r "Sending inner"]
    by (auto simp: held_def resumeTask_def waiting_update[OF assms(2)])
qed

lemma signIn_held:
  assumes "gate_held limit 0 c" shows "gate_held limit 0 (signInEnds ok c)"
proof -
  define g where "g = (\<lambda>t. if t = SigningIn then (if ok then Retrying else Failing) else t)"
  have s: "slots (g t) = slots t" "woken (g t) = woken t" "queued (g t) = queued t" "g t \<noteq> SigningIn" for t by (simp_all add: g_def)
  have "total_of slots (map g ts) = total_of slots ts" "total_of woken (map g ts) = total_of woken ts"
    "waiting_in (map g ts) = waiting_in ts" "SigningIn \<notin> set (map g ts)" for ts
    using s(4) by (auto simp: total_of_def waiting_in_def s o_def) (metis s(4))
  then show ?thesis using assms by (auto simp: held_def signInEnds_def simp flip: g_def)
qed

lemma settle_held:
  assumes "gate_held limit 0 c" "r < length (ac_tasks c)" "\<not> queued (ac_tasks c ! r)" "slots (ac_tasks c ! r) = j" "woken (ac_tasks c ! r) = 0"
  shows "gate_held limit j (c\<lparr>ac_tasks := (ac_tasks c)[r := Settled]\<rparr>)"
  using task_held[OF assms(1,2,3), of Settled j "ac_pendingSignIn c"] assms(4,5) by simp

lemma step_held: "client_step limit c c' \<Longrightarrow> gate_held limit 0 c \<Longrightarrow> gate_held limit 0 c'"
proof (induction rule: client_step.induct)
  case (call c)
  then show ?case by (rule call_held)
next
  case (boot c)
  then show ?case by (auto simp: ensureSession_def held_def)
next
  case (resume r c inner)
  then show ?case by (intro resume_held) simp_all
next
  case (answer r c status)
  show ?case
  proof (cases "status = 401")
    case True
    then show ?thesis using task_held[OF answer(3,1), of SigningIn 0 True] answer(2)
      by (simp add: answerRequest_def ensureSession_def)
  next
    case False
    then show ?thesis using settle_held[OF answer(3,1), of 1] answer(2) by (simp add: answerRequest_def leave_held)
  qed
next
  case (answer_retry r c)
  then show ?case using settle_held[OF answer_retry(3,1), of 2] unfolding answerRetry_def
    by (intro leave_held) (simp add: numeral_2_eq_2)
next
  case (signed_in c ok)
  then show ?case by (intro signIn_held)
next
  case (again r c)
  then show ?case by (intro enter_held) simp_all
next
  case (no_session r c)
  then show ?case using settle_held[OF no_session(3,1), of 1] by (simp add: failRequest_def leave_held)
qed

lemma steps_held: "client_steps limit createApiClient c \<Longrightarrow> gate_held limit 0 c"
proof (induction rule: rtranclp_induct)
  case base
  then show ?case by (simp add: held_def createApiClient_def total_of_def waiting_in_def)
qed (rule step_held)

section \<open>The bound\<close>

text \<open>
  A request that is woken goes on in a microtask. A run in which it does so before anything else happens
  to the client is prompt.
\<close>

definition prompt_step :: "nat \<Rightarrow> api_client \<Rightarrow> api_client \<Rightarrow> bool" where
  "prompt_step limit c c' \<longleftrightarrow> client_step limit c c'
     \<and> (total_of woken (ac_tasks c) = 0
        \<or> (\<exists>r inner. r < length (ac_tasks c) \<and> ac_tasks c ! r = Woken inner \<and> c' = resumeTask inner r c))"

abbreviation prompt_steps :: "nat \<Rightarrow> api_client \<Rightarrow> api_client \<Rightarrow> bool" where
  "prompt_steps limit \<equiv> (prompt_step limit)\<^sup>*\<^sup>*"

definition promised :: "api_client \<Rightarrow> nat" where
  "promised c = ac_active c + total_of woken (ac_tasks c)"

text \<open>Leaving hands the slot to the first that waits, or frees it.\<close>

lemma leave_promised:
  assumes "gate_held limit (Suc k) c"
  shows "promised (leaveGate c) \<le> promised c" "gate_held limit k (leaveGate c)"
proof -
  show "gate_held limit k (leaveGate c)" by (rule leave_held[OF assms])
  have pos: "0 < ac_active c" using assms by (simp add: held_def)
  show "promised (leaveGate c) \<le> promised c"
  proof (cases "ac_waiting c")
    case (Cons r rs)
    then have r: "r < length (ac_tasks c)" "queued (ac_tasks c ! r)" using assms by (auto simp: held_def waiting_in_def)
    then obtain inner where q: "ac_tasks c ! r = Queued inner" by (cases "ac_tasks c ! r") auto
    then show ?thesis using Cons pos total_update[OF r(1), of woken "Woken inner"]
      by (simp add: promised_def leaveGate_def Let_def)
  qed (simp add: promised_def leaveGate_def Let_def)
qed

lemma enter_promised:
  assumes "r < length (ac_tasks c)" "woken (ac_tasks c ! r) = 0" "total_of woken (ac_tasks c) = 0" "ac_active c \<le> limit"
  shows "promised (enterGate limit inner r c) \<le> limit"
  using assms total_update[OF assms(1), of woken "Queued inner"] total_update[OF assms(1), of woken "Sending inner"]
  by (auto simp: promised_def enterGate_def)

lemma replaced_promised:
  "r < length (ac_tasks c) \<Longrightarrow> woken (ac_tasks c ! r) = 0 \<Longrightarrow> woken t = 0 \<Longrightarrow>
     promised (c\<lparr>ac_tasks := (ac_tasks c)[r := t]\<rparr>) = promised c"
  using total_update[of r "ac_tasks c" woken t] by (simp add: promised_def)

lemma settled_promised:
  assumes "gate_held limit 0 c" "r < length (ac_tasks c)" "\<not> queued (ac_tasks c ! r)" "slots (ac_tasks c ! r) = Suc j"
    "woken (ac_tasks c ! r) = 0"
  shows "promised (leaveGate (c\<lparr>ac_tasks := (ac_tasks c)[r := Settled]\<rparr>)) \<le> promised c"
    "gate_held limit j (leaveGate (c\<lparr>ac_tasks := (ac_tasks c)[r := Settled]\<rparr>))"
  using leave_promised[OF settle_held[OF assms]] replaced_promised[OF assms(2,5), of Settled] by simp_all

lemma prompt_promised:
  assumes "prompt_step limit c c'" "gate_held limit 0 c" "promised c \<le> limit" shows "promised c' \<le> limit"
proof (cases "total_of woken (ac_tasks c) = 0")
  case False
  then obtain r inner where r: "r < length (ac_tasks c)" "ac_tasks c ! r = Woken inner" "c' = resumeTask inner r c"
    using assms(1) by (auto simp: prompt_step_def)
  then show ?thesis using total_update[OF r(1), of woken "Sending inner"] assms(3) by (simp add: promised_def resumeTask_def)
next
  case True
  have step: "client_step limit c c'" using assms(1) by (simp add: prompt_step_def)
  have act: "ac_active c \<le> limit" using assms(3) by (simp add: promised_def)
  from step show ?thesis
  proof cases
    case call
    then show ?thesis using enter_promised[of "length (ac_tasks c)" "c\<lparr>ac_tasks := ac_tasks c @ [Settled]\<rparr>" limit False] True act
      by (simp add: callRequest_def total_of_def)
  next
    case boot
    then show ?thesis using assms(3) by (simp add: ensureSession_def promised_def)
  next
    case (resume r inner)
    then show ?thesis using total_update[of r "ac_tasks c" woken "Sending inner"] True by simp
  next
    case (answer r status)
    then show ?thesis using settled_promised(1)[OF assms(2) answer(2), of 0] replaced_promised[of r c SigningIn] assms(3)
      by (auto simp: answerRequest_def ensureSession_def promised_def)
  next
    case (answer_retry r)
    then show ?thesis
      using settled_promised[OF assms(2) answer_retry(2), of 1] leave_promised(1)[of limit 0] assms(3)
      by (fastforce simp: answerRetry_def)
  next
    case (signed_in ok)
    have "woken (if t = SigningIn then (if ok then Retrying else Failing) else t) = woken t" for t by simp
    then have "total_of woken (map (\<lambda>t. if t = SigningIn then (if ok then Retrying else Failing) else t) ts) = total_of woken ts" for ts
      by (simp add: total_of_def o_def)
    then show ?thesis using assms(3) signed_in by (simp add: signInEnds_def promised_def)
  next
    case (again r)
    then show ?thesis using enter_promised[of r c limit True] True act by simp
  next
    case (no_session r)
    then show ?thesis using settled_promised(1)[OF assms(2) no_session(2), of 0] assms(3) by (simp add: failRequest_def)
  qed
qed

lemma prompt_steps_steps: "prompt_steps limit c c' \<Longrightarrow> client_steps limit c c'"
proof (induction rule: rtranclp_induct)
  case (step u v)
  then have "client_step limit u v" by (simp add: prompt_step_def)
  then show ?case using step.IH by (rule rtranclp.rtrancl_into_rtrancl[rotated])
qed simp

lemma prompt_steps_promised: "prompt_steps limit createApiClient c \<Longrightarrow> promised c \<le> limit"
proof (induction rule: rtranclp_induct)
  case base
  then show ?case by (simp add: promised_def createApiClient_def total_of_def)
next
  case (step c c')
  then show ?case using prompt_promised steps_held[OF prompt_steps_steps[OF step.hyps(1)]] by blast
qed

text \<open>
  C33. The gate keeps its promise. In every state of the client the count of active tasks is the number of
  slots held, a retry holding one and its request another; exactly those wait that have not been
  woken, in one queue; while a request waits, no slot is free that has not been promised to one that was
  woken; and if whoever is woken goes on before anything else happens, the slots held and promised are
  never more than there are.
\<close>

theorem gate_leaves_no_slot_free:
  assumes "client_steps limit createApiClient c"
  shows "ac_active c = total_of slots (ac_tasks c)
    \<and> distinct (ac_waiting c) \<and> set (ac_waiting c) = {r. r < length (ac_tasks c) \<and> (\<exists>inner. ac_tasks c ! r = Queued inner)}
    \<and> (ac_waiting c = [] \<or> limit \<le> ac_active c + total_of woken (ac_tasks c))
    \<and> (prompt_steps limit createApiClient c \<longrightarrow> ac_active c + total_of woken (ac_tasks c) \<le> limit)"
proof -
  have "queued t \<longleftrightarrow> (\<exists>inner. t = Queued inner)" for t by (cases t) auto
  then show ?thesis using steps_held[OF assms] prompt_steps_promised[of limit c]
    by (auto simp: held_def waiting_in_def promised_def)
qed

text \<open>
  Not before: \<open>active\<close> is counted up when the woken request goes on, not when it is woken, so that a request
  made in between finds a slot free and both go on. With one slot, two are then active.
\<close>

theorem barging_exceeds_the_limit: "\<exists>c. client_steps 1 createApiClient c \<and> ac_active c = 2"
proof -
  define c1 where "c1 = callRequest 1 createApiClient"
  define c2 where "c2 = callRequest 1 c1"
  define c3 where "c3 = answerRequest 200 0 c2"
  define c4 where "c4 = callRequest 1 c3"
  define c5 where "c5 = resumeTask False 1 c4"
  note defs = c1_def c2_def c3_def c4_def createApiClient_def callRequest_def enterGate_def answerRequest_def leaveGate_def
  have s: "client_step 1 createApiClient c1" "client_step 1 c1 c2" "client_step 1 c3 c4"
    unfolding c1_def c2_def c4_def by (rule call)+
  have s3: "client_step 1 c2 c3" unfolding c3_def by (rule answer) (simp_all add: defs)
  have s5: "client_step 1 c4 c5" unfolding c5_def by (rule resume) (simp_all add: defs)
  note go = converse_rtranclp_into_rtranclp[of "client_step 1"]
  have "client_steps 1 createApiClient c5" by (rule go[OF s(1) go[OF s(2) go[OF s3 go[OF s(3) go[OF s5 rtranclp.rtrancl_refl]]]]])
  moreover have "ac_active c5 = 2" by (simp add: c5_def resumeTask_def defs)
  ultimately show ?thesis by blast
qed

section \<open>A deadlock\<close>

lemma calls: "k \<le> limit \<Longrightarrow> client_steps limit createApiClient
    \<lparr>ac_active = k, ac_waiting = [], ac_tasks = replicate k (Sending False), ac_cookie = True, ac_userId = True, ac_pendingSignIn = False\<rparr>"
proof (induction k)
  case 0
  have b: "client_step limit createApiClient (ensureSession createApiClient)" by (rule boot)
  have s: "client_step limit (ensureSession createApiClient) (signInEnds True (ensureSession createApiClient))"
    by (rule signed_in) (simp add: ensureSession_def createApiClient_def)
  have e: "signInEnds True (ensureSession createApiClient) =
      \<lparr>ac_active = 0, ac_waiting = [], ac_tasks = [], ac_cookie = True, ac_userId = True, ac_pendingSignIn = False\<rparr>"
    by (simp add: ensureSession_def createApiClient_def signInEnds_def)
  from rtranclp.rtrancl_into_rtrancl[OF r_into_rtranclp[of "client_step limit", OF b] s] show ?case by (simp add: e)
next
  case (Suc k)
  let ?c = "\<lparr>ac_active = k, ac_waiting = [], ac_tasks = replicate k (Sending False), ac_cookie = True, ac_userId = True, ac_pendingSignIn = False\<rparr>"
  have "callRequest limit ?c = ?c\<lparr>ac_active := Suc k, ac_tasks := replicate (Suc k) (Sending False)\<rparr>"
    using Suc.prems by (simp add: callRequest_def enterGate_def list_update_append replicate_append_same)
  moreover have "client_step limit ?c (callRequest limit ?c)" by (rule call)
  moreover have "client_steps limit createApiClient ?c" using Suc by simp
  ultimately show ?case using rtranclp.rtrancl_into_rtrancl[where b = ?c] by simp
qed

lemma replicate_step: "(replicate j a @ replicate (Suc m) b)[j := a] = replicate (Suc j) a @ replicate m b"
  by (simp add: list_update_append) (simp add: replicate_append_same)

lemma expired: "j \<le> limit \<Longrightarrow> client_steps limit createApiClient
    \<lparr>ac_active = limit, ac_waiting = [], ac_tasks = replicate j SigningIn @ replicate (limit - j) (Sending False),
     ac_cookie = (j = 0), ac_userId = True, ac_pendingSignIn = (0 < j)\<rparr>"
proof (induction j)
  case 0
  then show ?case using calls[of limit limit] by simp
next
  case (Suc j)
  let ?c = "\<lparr>ac_active = limit, ac_waiting = [], ac_tasks = replicate j SigningIn @ replicate (limit - j) (Sending False),
     ac_cookie = (j = 0), ac_userId = True, ac_pendingSignIn = (0 < j)\<rparr>"
  obtain m where m: "limit - j = Suc m" "limit - Suc j = m" using Suc.prems by (metis Suc_diff_Suc Suc_le_lessD)
  have "client_step limit ?c (answerRequest 401 j ?c)" using Suc.prems m by (intro answer) (simp_all add: nth_append)
  moreover have "answerRequest 401 j ?c = ?c\<lparr>ac_tasks := replicate (Suc j) SigningIn @ replicate m (Sending False), ac_cookie := False, ac_pendingSignIn := True\<rparr>"
    using replicate_step[of j SigningIn m "Sending False"] by (simp add: answerRequest_def ensureSession_def m)
  moreover have "client_steps limit createApiClient ?c" using Suc by simp
  ultimately show ?case using rtranclp.rtrancl_into_rtrancl[where b = ?c] m by simp
qed

lemma queued_again: "j \<le> limit \<Longrightarrow> 0 < limit \<Longrightarrow> client_steps limit createApiClient
    \<lparr>ac_active = limit, ac_waiting = [0..<j], ac_tasks = replicate j (Queued True) @ replicate (limit - j) Retrying,
     ac_cookie = True, ac_userId = True, ac_pendingSignIn = False\<rparr>"
proof (induction j)
  case 0
  let ?c = "\<lparr>ac_active = limit, ac_waiting = [], ac_tasks = replicate limit SigningIn, ac_cookie = False, ac_userId = True, ac_pendingSignIn = True\<rparr>"
  have "client_step limit ?c (signInEnds True ?c)" by (rule signed_in) simp
  moreover have "client_steps limit createApiClient ?c" using expired[of limit limit] 0 by simp
  ultimately show ?case using rtranclp.rtrancl_into_rtrancl[where b = ?c] by (simp add: signInEnds_def)
next
  case (Suc j)
  let ?c = "\<lparr>ac_active = limit, ac_waiting = [0..<j], ac_tasks = replicate j (Queued True) @ replicate (limit - j) Retrying,
     ac_cookie = True, ac_userId = True, ac_pendingSignIn = False\<rparr>"
  obtain m where m: "limit - j = Suc m" "limit - Suc j = m" using Suc.prems by (metis Suc_diff_Suc Suc_le_lessD)
  have "client_step limit ?c (enterGate limit True j ?c)" using Suc.prems m by (intro again) (simp_all add: nth_append)
  moreover have "enterGate limit True j ?c = ?c\<lparr>ac_waiting := [0..<Suc j], ac_tasks := replicate (Suc j) (Queued True) @ replicate m Retrying\<rparr>"
    using replicate_step[of j "Queued True" m Retrying] by (simp add: enterGate_def m)
  moreover have "client_steps limit createApiClient ?c" using Suc by simp
  ultimately show ?case using rtranclp.rtrancl_into_rtrancl[where b = ?c] m by simp
qed

definition all_wait :: "nat \<Rightarrow> api_client \<Rightarrow> bool" where
  "all_wait limit c \<longleftrightarrow>
     ac_active c = limit \<and> limit \<le> length (ac_tasks c) \<and> (\<forall>t \<in> set (ac_tasks c). queued t)
     \<and> ac_cookie c \<and> ac_userId c \<and> \<not> ac_pendingSignIn c"

lemma all_wait_on: "client_step limit c c' \<Longrightarrow> all_wait limit c \<Longrightarrow> all_wait limit c'"
proof (induction rule: client_step.induct)
  case (call c)
  then show ?case by (auto simp: all_wait_def callRequest_def enterGate_def list_update_append)
next
  case (boot c)
  then show ?case by (simp add: all_wait_def ensureSession_def)
qed (auto simp: all_wait_def dest!: nth_mem)

text \<open>
  When the session of a client that has signed in has expired and as many requests as there are slots are on their way, each is answered
  401 and keeps its slot while its retry waits for another: from then on every request waits for ever,
  those made later included.
\<close>

theorem expired_session_deadlocks:
  assumes "0 < limit"
  shows "\<exists>c. client_steps limit createApiClient c
    \<and> (\<forall>c'. client_steps limit c c' \<longrightarrow> limit \<le> length (ac_tasks c') \<and> (\<forall>r < length (ac_tasks c'). queued (ac_tasks c' ! r)))"
proof (intro exI conjI allI impI)
  let ?c = "\<lparr>ac_active = limit, ac_waiting = [0..<limit], ac_tasks = replicate limit (Queued True), ac_cookie = True,
     ac_userId = True, ac_pendingSignIn = False\<rparr>"
  show "client_steps limit createApiClient ?c" using queued_again[of limit limit] assms by simp
  fix c' assume steps: "client_steps limit ?c c'"
  have "all_wait limit c'" using steps
    by (induction rule: rtranclp_induct) (simp_all add: all_wait_on, simp add: all_wait_def)
  then show "limit \<le> length (ac_tasks c')" "r < length (ac_tasks c') \<Longrightarrow> queued (ac_tasks c' ! r)" for r
    by (auto simp: all_wait_def)
qed

text \<open>Two requests and one slot: the second waits, and no more than one is active.\<close>

lemma gate_leaves_no_slot_free_witness:
  "\<exists>c. prompt_steps 1 createApiClient c \<and> ac_waiting c = [1] \<and> ac_tasks c = [Sending False, Queued False] \<and> ac_active c = 1
    \<and> ac_active c + total_of woken (ac_tasks c) \<le> 1"
proof -
  define c1 where "c1 = callRequest 1 createApiClient"
  define c2 where "c2 = callRequest 1 c1"
  note defs = c1_def c2_def createApiClient_def callRequest_def enterGate_def
  have "total_of woken (ac_tasks createApiClient) = 0" "total_of woken (ac_tasks c1) = 0"
    by (simp_all add: defs total_of_def)
  then have "prompt_step 1 createApiClient c1" "prompt_step 1 c1 c2"
    unfolding prompt_step_def using call[of 1] by (auto simp: c1_def c2_def)
  then have p: "prompt_steps 1 createApiClient c2" by (rule rtranclp.rtrancl_into_rtrancl[OF r_into_rtranclp])
  note g = gate_leaves_no_slot_free[OF prompt_steps_steps[OF p]]
  have "ac_tasks c2 = [Sending False, Queued False]" "ac_waiting c2 = [1]" by (simp_all add: defs)
  then show ?thesis using p g by (intro exI[of _ c2]) (simp add: total_of_def)
qed

end
