(* ===== verification/Bots.thy ===== *)
theory Bots
  imports Ticket QuoteLadder
begin

text \<open>
  The two bots of the market maker, \<open>apps/market-maker/src/services\<close>: the price feed they share
  (\<open>market-feed.ts\<close>), the account that keeps itself funded (\<open>bot-account.ts\<close>), a cycle of the maker
  (\<open>maker.ts\<close>) and a trade of the taker (\<open>taker.ts\<close>). What the exchange answers, the clock and the two
  draws of \<open>Math.random\<close> are arguments; a string made with \<open>toFixed\<close> stands for the number the exchange
  reads it as.
\<close>

section \<open>The feed\<close>

record MarketSnapshot =
  sn_indexPrice :: "jsnum option"
  sn_lastTradedPrice :: "jsnum option"
  sn_depth :: "TMarketDepth option"
  sn_indexPriceAt :: int

datatype FeedFrame =
    MarkPriceFrame "string option"
  | LastTradedFrame "string option"
  | DepthFrame "TMarketDepth option"
  | OtherFrame

text \<open>
  A socket and a pending reconnect are named by their market; the sockets the map holds are kept apart
  from those that are open.
\<close>

record BotFeed =
  bf_snapshots :: "string \<rightharpoonup> MarketSnapshot"
  bf_sockets :: "string set"
  bf_open :: "string list"
  bf_retries :: "string list"
  bf_stopped :: bool

definition empty_snapshot :: MarketSnapshot where
  "empty_snapshot = \<lparr>sn_indexPrice = None, sn_lastTradedPrice = None, sn_depth = None, sn_indexPriceAt = 0\<rparr>"

definition createMarketFeed :: "string list \<Rightarrow> BotFeed" where
  "createMarketFeed marketIds =
     \<lparr>bf_snapshots = foldl (\<lambda>m marketId. m(marketId \<mapsto> empty_snapshot)) Map.empty marketIds,
      bf_sockets = {}, bf_open = [], bf_retries = [], bf_stopped = False\<rparr>"

definition connectFeed :: "string \<Rightarrow> BotFeed \<Rightarrow> BotFeed" where
  "connectFeed marketId f =
     (if bf_stopped f then f
      else f\<lparr>bf_sockets := insert marketId (bf_sockets f), bf_open := bf_open f @ [marketId]\<rparr>)"

definition startFeed :: "string list \<Rightarrow> BotFeed \<Rightarrow> BotFeed" where
  "startFeed marketIds f = foldl (\<lambda>f marketId. connectFeed marketId f) f marketIds"

text \<open>A price that is absent reads as \<open>NaN\<close>.\<close>

definition framePrice :: "string option \<Rightarrow> jsnum option" where
  "framePrice raw =
     (let price = (case raw of None \<Rightarrow> NaN | Some s \<Rightarrow> js_number s)
      in if js_finite price \<and> price > 0 then Some price else None)"

definition applyBotFrame :: "int \<Rightarrow> FeedFrame \<Rightarrow> MarketSnapshot \<Rightarrow> MarketSnapshot" where
  "applyBotFrame now frame snapshot =
     (case frame of
        MarkPriceFrame raw \<Rightarrow>
          (case framePrice raw of
             Some price \<Rightarrow> snapshot\<lparr>sn_indexPrice := Some price, sn_indexPriceAt := now\<rparr>
           | None \<Rightarrow> snapshot)
      | LastTradedFrame raw \<Rightarrow>
          (case framePrice raw of Some price \<Rightarrow> snapshot\<lparr>sn_lastTradedPrice := Some price\<rparr> | None \<Rightarrow> snapshot)
      | DepthFrame data \<Rightarrow> snapshot\<lparr>sn_depth := data\<rparr>
      | OtherFrame \<Rightarrow> snapshot)"

definition frameArrives :: "int \<Rightarrow> string \<Rightarrow> FeedFrame \<Rightarrow> BotFeed \<Rightarrow> BotFeed" where
  "frameArrives now marketId frame f =
     (case bf_snapshots f marketId of
        None \<Rightarrow> f
      | Some snapshot \<Rightarrow> f\<lparr>bf_snapshots := (bf_snapshots f)(marketId \<mapsto> applyBotFrame now frame snapshot)\<rparr>)"

definition socketCloses :: "string \<Rightarrow> BotFeed \<Rightarrow> BotFeed" where
  "socketCloses marketId f =
     (let f1 = f\<lparr>bf_sockets := bf_sockets f - {marketId}, bf_open := remove1 marketId (bf_open f)\<rparr>
      in if bf_stopped f1 then f1 else f1\<lparr>bf_retries := bf_retries f1 @ [marketId]\<rparr>)"

definition retryFires :: "string \<Rightarrow> BotFeed \<Rightarrow> BotFeed" where
  "retryFires marketId f = connectFeed marketId (f\<lparr>bf_retries := remove1 marketId (bf_retries f)\<rparr>)"

text \<open>A closed socket delivers nothing; its \<open>close\<close> event finds the feed stopped and does nothing.\<close>

definition stopFeed :: "BotFeed \<Rightarrow> BotFeed" where
  "stopFeed f =
     f\<lparr>bf_stopped := True, bf_open := fold remove1 (filter (\<lambda>m. m \<in> bf_sockets f) (remdups (bf_open f))) (bf_open f),
       bf_sockets := {}\<rparr>"

definition anchor :: "int \<Rightarrow> string \<Rightarrow> int \<Rightarrow> BotFeed \<Rightarrow> jsnum option" where
  "anchor now marketId staleMs f =
     (case bf_snapshots f marketId of
        None \<Rightarrow> None
      | Some snapshot \<Rightarrow>
          (case sn_indexPrice snapshot of
             None \<Rightarrow> None
           | Some price \<Rightarrow>
               if \<not> js_truthy price then None
               else if now - sn_indexPriceAt snapshot > staleMs then None else Some price))"

section \<open>The account of a bot\<close>

text \<open>
  \<open>ensureFunds\<close> once the balances have been answered: the time of the last top-up, and whether one is
  sent.
\<close>

definition ensureFunds :: "jsnum \<Rightarrow> bool \<Rightarrow> jsnum \<Rightarrow> int \<Rightarrow> int \<Rightarrow> int \<times> bool" where
  "ensureFunds balanceFloor force free now lastTopUpAt =
     (if \<not> force \<and> free \<ge> balanceFloor then (lastTopUpAt, False)
      else if now - lastTopUpAt < 10000 then (lastTopUpAt, False)
      else (now, True))"

definition signedInventoryNotional :: "TPosition list \<Rightarrow> jsnum \<Rightarrow> jsnum" where
  "signedInventoryNotional positions markPrice =
     foldl (\<lambda>sum p. let notional = p_qty p * markPrice
                    in sum + (if p_type p = LONG then notional else - notional)) (Fin 0) positions"

section \<open>A cycle of the maker\<close>

text \<open>A row of \<open>GET /orders/open\<close> as a resting order.\<close>

definition toResting :: "SelectOrderRecord \<Rightarrow> Resting" where
  "toResting order =
     \<lparr>rs_id = r_id order, rs_side = r_positionType order, rs_price = js_number (r_price order),
      rs_remainingQty = js_number (r_qty order) - js_number (r_filledQty order)\<rparr>"

text \<open>
  What a cycle cancels, places and cancels afterwards, from the open orders and positions it was
  answered; without an anchor it pulls every order.
\<close>

definition makerCycle ::
  "(jsnum \<Rightarrow> jsnum) \<Rightarrow> int \<Rightarrow> int \<Rightarrow> BotFeed \<Rightarrow> string \<Rightarrow> MarketSpec \<Rightarrow> LadderConfig \<Rightarrow> SelectOrderRecord list
    \<Rightarrow> TPosition list \<Rightarrow> Resting list \<times> Quote list \<times> Resting list" where
  "makerCycle log2 now staleMs f marketId market config orders positions =
     (let resting = map toResting orders
      in case anchor now marketId staleMs f of
           None \<Rightarrow> (resting, [], [])
         | Some price \<Rightarrow> cyclePlan log2 price (signedInventoryNotional positions price) market config resting)"

section \<open>A trade of the taker\<close>

definition randomBetween :: "jsnum \<Rightarrow> jsnum \<Rightarrow> jsnum \<Rightarrow> jsnum" where
  "randomBetween random low high = low + random * (high - low)"

definition offsetProbability :: "jsnum \<Rightarrow> jsnum" where
  "offsetProbability normalised = Fin (1 / 2) + js (45 / 100) * js_min (Fin 1) \<bar>normalised\<bar>"

definition takerSide :: "LadderConfig \<Rightarrow> jsnum \<Rightarrow> jsnum \<Rightarrow> TPositionType" where
  "takerSide config random makerInventory =
     (let normalised = makerInventory / lc_maxInventoryNotional config;
          offsetSide = (if makerInventory \<ge> 0 then LONG else SHORT);
          takeOffset = random < offsetProbability normalised
      in if takeOffset then offsetSide else if offsetSide = LONG then SHORT else LONG)"

definition reachableQty :: "(string \<times> string) list \<Rightarrow> jsnum" where
  "reachableQty book = foldl (\<lambda>sum (price, qty). sum + js_number qty) (Fin 0) (take 2 book)"

text \<open>The best price and the quantity to take, if there is anything to take.\<close>

definition takerSize :: "jsnum \<Rightarrow> jsnum \<Rightarrow> nat \<Rightarrow> (string \<times> string) list \<Rightarrow> (jsnum \<times> jsnum) option" where
  "takerSize notional random sizeDecimals book =
     (let reachable = reachableQty book
      in if \<not> reachable > 0 then None
         else
           (let best = (case book of [] \<Rightarrow> NaN | (price, _) # _ \<Rightarrow> js_number price)
            in if \<not> js_finite best \<or> best \<le> 0 then None
               else
                 (let wanted = (notional * randomBetween random (Fin (1 / 2)) (Fin (3 / 2))) / best;
                      qty = roundQty (js_min wanted (reachable * js (9 / 10))) sizeDecimals
                  in if \<not> qty > 0 \<or> qty > reachable then None else Some (best, qty))))"

definition takerOrder ::
  "LadderConfig \<Rightarrow> MarketSpec \<Rightarrow> jsnum \<Rightarrow> jsnum \<Rightarrow> jsnum \<Rightarrow> jsnum \<Rightarrow> TMarketDepth \<Rightarrow> jsnum \<Rightarrow> TPosition list
    \<Rightarrow> CreateOrderBody option" where
  "takerOrder config market notional slippagePct random1 random2 depth makerInventory positions =
     (let side = takerSide config random1 makerInventory;
          book = (if side = LONG then d_asks depth else d_bids depth)
      in case takerSize notional random2 (ms_sizeDecimals market) book of
           None \<Rightarrow> None
         | Some (best, qty) \<Rightarrow>
             (let reduces = (case positions of
                    [] \<Rightarrow> False
                  | position # _ \<Rightarrow> p_type position \<noteq> side \<and> qty \<le> Fin 2 * p_qty position);
                  worstPrice = best * (Fin 1 + slippagePct / Fin 100);
                  leverage = effectiveLeverage config market
              in Some \<lparr>co_orderType = Market, co_price = Fin 0, co_slippage = slippagePct, co_market = ms_slug market,
                   co_type = side, co_qty = js_fixed (ms_sizeDecimals market) qty,
                   co_equity = (if reduces then None else Some (marginFor worstPrice qty leverage))\<rparr>))"

definition takerTrade ::
  "LadderConfig \<Rightarrow> MarketSpec \<Rightarrow> jsnum \<Rightarrow> jsnum \<Rightarrow> jsnum \<Rightarrow> jsnum \<Rightarrow> int \<Rightarrow> int \<Rightarrow> BotFeed \<Rightarrow> string \<Rightarrow> TPosition list
    \<Rightarrow> TPosition list \<Rightarrow> CreateOrderBody option" where
  "takerTrade config market notional slippagePct random1 random2 now staleMs f marketId makerPositions positions =
     (case anchor now marketId staleMs f of
        None \<Rightarrow> None
      | Some price \<Rightarrow>
          (case bf_snapshots f marketId of
             Some snapshot \<Rightarrow>
               (case sn_depth snapshot of
                  None \<Rightarrow> None
                | Some depth \<Rightarrow> takerOrder config market notional slippagePct random1 random2 depth
                    (signedInventoryNotional makerPositions price) positions)
           | None \<Rightarrow> None))"

section \<open>What the feed has been through\<close>

text \<open>The states of a feed, with the frames that arrived on its open sockets.\<close>

inductive feed_run :: "string list \<Rightarrow> (int \<times> string \<times> FeedFrame) list \<Rightarrow> BotFeed \<Rightarrow> bool" for marketIds where
  started: "feed_run marketIds [] (startFeed marketIds (createMarketFeed marketIds))"
| arrives: "feed_run marketIds tr f \<Longrightarrow> m \<in> set (bf_open f) \<Longrightarrow> feed_run marketIds (tr @ [(now, m, frame)]) (frameArrives now m frame f)"
| closes: "feed_run marketIds tr f \<Longrightarrow> m \<in> set (bf_open f) \<Longrightarrow> feed_run marketIds tr (socketCloses m f)"
| retries: "feed_run marketIds tr f \<Longrightarrow> m \<in> set (bf_retries f) \<Longrightarrow> feed_run marketIds tr (retryFires m f)"
| stopped: "feed_run marketIds tr f \<Longrightarrow> feed_run marketIds tr (stopFeed f)"

end
