(* ===== verification/BotsProperties.thy ===== *)
theory BotsProperties
  imports Bots LadderGrid Orders
begin

text \<open>
  The bots trade on fresh prices only, through one socket per market; the taker asks for no more than it
  saw resting, and leaves its margin out only when the engine asks for none.
\<close>

section \<open>The feed\<close>

definition marks :: "string \<Rightarrow> (int \<times> string \<times> FeedFrame) list \<Rightarrow> (jsnum \<times> int) list" where
  "marks m tr = List.map_filter (\<lambda>(t, m', frame).
     case frame of
       MarkPriceFrame raw \<Rightarrow> if m' = m then map_option (\<lambda>p. (p, t)) (framePrice raw) else None
     | _ \<Rightarrow> None) tr"

definition shows_marks :: "(jsnum \<times> int) list \<Rightarrow> MarketSnapshot \<Rightarrow> bool" where
  "shows_marks ms s \<longleftrightarrow>
     (if ms = [] then sn_indexPrice s = None
      else sn_indexPrice s = Some (fst (last ms)) \<and> sn_indexPriceAt s = snd (last ms))
     \<and> (\<forall>x \<in> set ms. js_truthy (fst x))"

lemma marks_snoc:
  "marks m (tr @ [(t, m', frame)]) =
     marks m tr @ (if m' = m then (case frame of MarkPriceFrame raw \<Rightarrow>
       (case framePrice raw of Some p \<Rightarrow> [(p, t)] | None \<Rightarrow> []) | _ \<Rightarrow> []) else [])"
  by (auto simp: marks_def map_filter_def split: FeedFrame.split option.splits)

lemma framePrice_truthy: "framePrice raw = Some p \<Longrightarrow> js_truthy p"
  by (auto simp: framePrice_def Let_def split: if_splits elim!: js_finiteE)

lemma frame_shown:
  "shows_marks (marks m tr) s \<Longrightarrow> shows_marks (marks m (tr @ [(t, m, frame)])) (applyBotFrame t frame s)"
  by (cases frame; cases "case frame of MarkPriceFrame raw \<Rightarrow> framePrice raw | LastTradedFrame raw \<Rightarrow> framePrice raw | _ \<Rightarrow> None")
    (simp_all add: applyBotFrame_def marks_snoc shows_marks_def framePrice_truthy ball_Un)

lemma other_market: "m' \<noteq> m \<Longrightarrow> marks m (tr @ [(t, m', frame)]) = marks m tr"
  by (simp add: marks_snoc)

lemma connected_snapshots [simp]: "bf_snapshots (connectFeed m f) = bf_snapshots f"
  by (simp add: connectFeed_def)

lemma started_snapshots: "bf_snapshots (foldl (\<lambda>f m. connectFeed m f) f ms) = bf_snapshots f"
  by (induction ms arbitrary: f) simp_all

lemma created_snapshots: "foldl (\<lambda>s m. s(m \<mapsto> empty_snapshot)) s0 ms m' = (if m' \<in> set ms then Some empty_snapshot else s0 m')"
  by (induction ms arbitrary: s0) auto

lemma feed_shows:
  "feed_run ids tr f \<Longrightarrow> (m \<in> set ids \<longleftrightarrow> bf_snapshots f m \<noteq> None)
     \<and> (\<forall>s. bf_snapshots f m = Some s \<longrightarrow> shows_marks (marks m tr) s)"
proof (induction rule: feed_run.induct)
  case started
  have s: "bf_snapshots (startFeed ids (createMarketFeed ids)) m = (if m \<in> set ids then Some empty_snapshot else None)"
    by (simp add: startFeed_def createMarketFeed_def started_snapshots created_snapshots)
  show ?case unfolding s by (simp add: marks_def map_filter_def shows_marks_def empty_snapshot_def)
next
  case (arrives tr f m' now frame)
  then show ?case
    by (cases "bf_snapshots f m'"; cases "m' = m") (auto simp: frameArrives_def frame_shown other_market)
qed (simp_all add: socketCloses_def retryFires_def stopFeed_def Let_def)

text \<open>
  C34. The anchor is the newest price. Whatever frames arrived on whatever sockets, the anchor of a market of
  the feed is the price of the last frame of the market that carried a positive number, if it arrived
  no longer ago than allowed, and nothing otherwise; without an anchor the maker pulls every order and
  places none, and the taker does not trade.
\<close>

theorem bots_trade_on_fresh_prices:
  fixes now staleMs :: int
  assumes "feed_run marketIds tr f" "m \<in> set marketIds"
  defines "stale \<equiv> marks m tr = [] \<or> now - snd (last (marks m tr)) > staleMs"
  shows "anchor now m staleMs f = (if stale then None else Some (fst (last (marks m tr))))
    \<and> (stale \<longrightarrow> makerCycle log2 now staleMs f m market config orders positions = (map toResting orders, [], [])
      \<and> takerTrade config market notional slippagePct random1 random2 now staleMs f m positions own = None)"
proof -
  obtain s where s: "bf_snapshots f m = Some s" "shows_marks (marks m tr) s"
    using feed_shows[OF assms(1), of m] assms(2) by auto
  have "anchor now m staleMs f = (if stale then None else Some (fst (last (marks m tr))))"
    using s by (cases "marks m tr = []") (auto simp: anchor_def shows_marks_def stale_def)
  then show ?thesis by (simp add: makerCycle_def takerTrade_def)
qed

section \<open>One socket per market\<close>

definition one_socket :: "string list \<Rightarrow> BotFeed \<Rightarrow> bool" where
  "one_socket ids f \<longleftrightarrow>
     bf_sockets f = set (bf_open f) \<and> distinct (bf_open f)
     \<and> (if bf_stopped f then bf_open f = [] else mset (bf_open f) + mset (bf_retries f) = mset ids)"

lemma remove_all: "distinct xs \<Longrightarrow> fold remove1 xs xs = []"
  by (induction xs) auto

lemma connected_one:
  assumes "distinct ids" "bf_sockets f = set (bf_open f)" "distinct (bf_open f)"
    "\<not> bf_stopped f \<Longrightarrow> mset (bf_open f) + mset (bf_retries f) + {#m#} = mset ids" "bf_stopped f \<Longrightarrow> bf_open f = []"
  shows "one_socket ids (connectFeed m f)"
proof (cases "bf_stopped f")
  case False
  have "mset (bf_open f @ bf_retries f @ [m]) = mset ids" using assms(4) False by simp
  then have "distinct (bf_open f @ bf_retries f @ [m])" using assms(1) mset_eq_imp_distinct_iff by blast
  then show ?thesis using assms False by (auto simp: one_socket_def connectFeed_def)
qed (use assms in \<open>simp add: one_socket_def connectFeed_def\<close>)

lemma started_one: "distinct ids \<Longrightarrow> one_socket ids (startFeed ids (createMarketFeed ids))"
proof -
  have "\<lbrakk>distinct (bf_open f @ ms); bf_sockets f = set (bf_open f); \<not> bf_stopped f; bf_retries f = []\<rbrakk>
    \<Longrightarrow> one_socket (bf_open f @ ms) (foldl (\<lambda>f m. connectFeed m f) f ms)" for ms f
  proof (induction ms arbitrary: f)
    case (Cons m ms)
    then show ?case using Cons.IH[of "connectFeed m f"] by (simp add: connectFeed_def)
  qed (simp add: one_socket_def)
  from this[of "createMarketFeed ids" ids] show "distinct ids \<Longrightarrow> ?thesis" by (simp add: startFeed_def createMarketFeed_def)
qed

lemma feed_one_socket: "feed_run ids tr f \<Longrightarrow> distinct ids \<Longrightarrow> one_socket ids f"
proof (induction rule: feed_run.induct)
  case started
  then show ?case by (rule started_one)
next
  case (arrives tr f m now frame)
  then show ?case by (simp add: frameArrives_def one_socket_def split: option.split)
next
  case (closes tr f m)
  show ?case
  proof (cases "bf_stopped f")
    case False
    then have "m \<in># mset ids" using closes by (metis UnCI one_socket_def set_mset_mset set_mset_union)
    then show ?thesis using closes False by (auto simp: one_socket_def socketCloses_def Let_def)
  qed (use closes in \<open>simp add: one_socket_def socketCloses_def\<close>)
next
  case (retries tr f m)
  have "m \<in># mset ids" if "\<not> bf_stopped f" using that retries by (metis UnCI one_socket_def set_mset_mset set_mset_union)
  then show ?case using retries unfolding retryFires_def
    by (intro connected_one) (auto simp: one_socket_def)
next
  case (stopped tr f)
  then show ?case by (auto simp: one_socket_def stopFeed_def remove_all distinct_remdups_id)
qed

text \<open>As long as the feed runs every market has one socket open or one reconnect pending; stopped, none is open.\<close>

theorem feed_keeps_one_socket:
  assumes "feed_run marketIds tr f" "distinct marketIds"
  shows "if bf_stopped f then bf_open f = [] else mset (bf_open f) + mset (bf_retries f) = mset marketIds"
  using feed_one_socket[OF assms] by (simp add: one_socket_def)

section \<open>Top-ups\<close>

text \<open>The times at which the answers to a sequence of checks send a top-up.\<close>

fun top_ups :: "jsnum \<Rightarrow> int \<Rightarrow> (bool \<times> jsnum \<times> int) list \<Rightarrow> int list" where
  "top_ups balanceFloor last_at [] = []"
| "top_ups balanceFloor last_at ((force, free, now) # checks) =
     (let (last_at', sent) = ensureFunds balanceFloor force free now last_at
      in (if sent then [now] else []) @ top_ups balanceFloor last_at' checks)"

lemma top_ups_apart: "sorted_wrt (\<lambda>a b. b - a \<ge> 10000) (last_at # top_ups balanceFloor last_at checks)"
proof (induction checks arbitrary: last_at)
  case (Cons c checks)
  obtain force free now where c: "c = (force, free, now)" by (cases c)
  show ?case
    using Cons.IH[of last_at] Cons.IH[of now] by (auto simp: c ensureFunds_def)
qed simp

theorem top_ups_are_apart:
  "sorted_wrt (\<lambda>a b. b - a \<ge> 10000) (top_ups balanceFloor 0 checks)"
  "\<not> free \<ge> balanceFloor \<Longrightarrow> now - last_at \<ge> 10000 \<Longrightarrow> snd (ensureFunds balanceFloor force free now last_at)"
  using top_ups_apart[of 0 balanceFloor checks] by (simp_all add: ensureFunds_def)

section \<open>The order of the taker\<close>

lemma js_le_double: "a \<le> b \<Longrightarrow> is_double (Fin b) \<Longrightarrow> js a \<le> Fin b"
  using b64.rnd_le_fixed[of b a] by (auto simp: js_def Let_def binary64_def)

lemma fixed_again:
  assumes "js_fixed d y = Fin q" "\<bar>q\<bar> * 10 ^ d \<le> 2 ^ 47" "d \<le> 20"
  shows "js_fixed d (Fin q) = Fin q" "is_double (Fin q)"
proof -
  obtain r where y: "y = Fin r" using assms(1) by (cases y) (auto simp: js_fixed_def)
  have "\<bar>q\<bar> * 1 \<le> \<bar>q\<bar> * 10 ^ d" by (intro mult_left_mono) auto
  then have "\<bar>q\<bar> < 10 ^ 21" using assms(2) by simp
  then have small: "\<not> 10 ^ 21 \<le> \<bar>r\<bar>" using assms(1) by (auto simp: y js_fixed_def)
  define k where "k = \<lfloor>\<bar>r\<bar> * 10 ^ d + 1 / 2\<rfloor>"
  have "\<exists>a. sgn r * of_int k = (of_int a :: rat)"
    by (rule exI[of _ "if r < 0 then - k else if r = 0 then 0 else k"]) (simp add: sgn_if)
  then obtain a where a: "sgn r * of_int \<lfloor>\<bar>r\<bar> * 10 ^ d + 1 / 2\<rfloor> = (of_int a :: rat)" by (auto simp: k_def)
  have dec: "decimal d a = Fin q" using assms(1) small by (simp add: y js_fixed_def a decimal_def)
  then have "q = round64 (of_int a / 10 ^ d)" by (auto simp: decimal_def js_def Let_def split: if_splits)
  then have "\<bar>q - of_int a / 10 ^ d\<bar> \<le> \<bar>of_int a / 10 ^ d\<bar> / 2 ^ 53 + 1 / 2 ^ 200"
    using round64_error[of "of_int a / 10 ^ d"] tiny by simp
  then have "\<bar>of_int a / 10 ^ d\<bar> * (1 - 1 / 2 ^ 53) \<le> \<bar>q\<bar> + 1 / 2 ^ 200" by (simp add: algebra_simps)
  then have "\<bar>of_int a / 10 ^ d\<bar> * (1 - 1 / 2 ^ 53) * 10 ^ d \<le> (\<bar>q\<bar> + 1 / 2 ^ 200) * 10 ^ d" by (rule mult_right_mono) simp
  also have "\<dots> = \<bar>q\<bar> * 10 ^ d + 10 ^ d / 2 ^ 200" by (simp add: distrib_right)
  also have "\<dots> \<le> 2 ^ 47 + 10 ^ 20 / 2 ^ 200"
    using assms(2,3) by (intro add_mono divide_right_mono power_increasing) auto
  also have "\<bar>of_int a / 10 ^ d\<bar> * (1 - 1 / 2 ^ 53) * 10 ^ d = \<bar>of_int a :: rat\<bar> * (1 - 1 / 2 ^ 53)" by (simp add: abs_divide)
  finally have "\<bar>of_int a\<bar> \<le> (2 ^ 48 :: rat)" by simp
  then have "of_int \<bar>a\<bar> \<le> (of_int (2 ^ 48) :: rat)" by simp
  then have "\<bar>a\<bar> \<le> 2 ^ 48" by (simp only: of_int_le_iff)
  then show "js_fixed d (Fin q) = Fin q"
    using decimal_near[of a d] near_fixed[of d q a "1 / 16"] dec assms(3) by (simp add: decimal_def)
  show "is_double (Fin q)" using is_double_js[of "of_int a / 10 ^ d"] unfolding dec[unfolded decimal_def] .
qed

lemma round64_twice:
  assumes "binary64 h" shows "round64 (2 * h) = 2 * h"
proof -
  obtain m k where h: "h = of_int m * 2 powi k" "\<bar>m\<bar> \<le> 2 ^ 53" "- 1074 \<le> k"
    using round64_representable[of h] assms by (auto simp: binary64_def)
  have "2 * h = of_int m * 2 powi (k + 1)" by (simp add: h(1) powi2_add)
  then show ?thesis using round64_exact[OF h(2), of "k + 1"] h(3) by simp
qed

lemma within_twice:
  assumes "Fin q \<le> Fin 2 * Fin h" "is_double (Fin h)" "0 < q" "q \<le> 2 ^ 47"
  shows "\<not> Fin h < js (q - h)"
proof -
  have "q \<le> 2 * h" using assms round64_twice[of h] by (auto simp: js_def Let_def split: if_splits)
  then have "js (q - h) \<le> Fin h" using assms(2) by (intro js_le_double) auto
  then show ?thesis using js_le_less_trans js_less_irrefl by blast
qed

lemma takerSize_bounds:
  assumes "takerSize notional random d book = Some (best, qty)"
  shows "0 < qty" "qty \<le> reachableQty book" "\<exists>y. qty = js_fixed d y"
proof -
  have s: "\<not> reachableQty book < qty" "0 < reachableQty book" "0 < qty"
    "\<exists>x. qty = roundQty x d"
    using assms by (auto simp: takerSize_def Let_def split: if_splits)
  then show "0 < qty" by simp
  show "qty \<le> reachableQty book" using s js_less_not_NaN js_not_less by metis
  show "\<exists>y. qty = js_fixed d y" using s(4) by (auto simp: roundQty_def Let_def split: if_splits)
qed

text \<open>
  C35. The order of the taker is one the engine reads as meant. Its quantity is positive and no more than the
  two best levels of the side it hits showed, and when it is sent without margin the engine, holding the
  position the taker was shown, takes it for risk reducing and asks for none.
\<close>

theorem taker_order_is_covered:
  fixes orderId userId marketId created
  assumes "takerOrder config market notional slippagePct random1 random2 depth inventory positions = Some body"
    and "ms_sizeDecimals market \<le> 20"
    and "reachableQty (if co_type body = LONG then d_asks depth else d_bids depth) \<le> Fin (2 ^ 47 / 10 ^ ms_sizeDecimals market)"
    and "\<forall>p \<in> set positions. js_finite (p_qty p) \<and> is_double (p_qty p)"
  defines "order \<equiv> normalizeOrder (orderRow orderId userId marketId created body)"
  shows "0 < n_qty order \<and> n_qty order \<le> reachableQty (if n_positionType order = LONG then d_asks depth else d_bids depth)
    \<and> (co_equity body = None \<longrightarrow> riskCheck order (Some (hd positions)) = Inr True)"
proof -
  let ?d = "ms_sizeDecimals market" let ?book = "if co_type body = LONG then d_asks depth else d_bids depth"
  define side where "side = takerSide config random1 inventory"
  obtain best qty where ts: "takerSize notional random2 ?d (if side = LONG then d_asks depth else d_bids depth) = Some (best, qty)"
    using assms(1) by (auto simp: takerOrder_def Let_def side_def split: option.splits)
  then have b: "co_type body = side" "co_qty body = js_fixed ?d qty"
    "co_equity body = None \<Longrightarrow> (\<exists>p rest. positions = p # rest \<and> p_type p \<noteq> side \<and> qty \<le> Fin 2 * p_qty p)"
    using assms(1) by (auto simp: takerOrder_def Let_def side_def[symmetric] split: list.splits if_splits)
  note bounds = takerSize_bounds[OF ts, folded b(1)]
  have le: "qty \<le> Fin (2 ^ 47 / 10 ^ ?d)" using bounds(2) assms(3) js_le_trans by blast
  then obtain q where q: "qty = Fin q" "0 < q" using bounds(1) by (cases qty) auto
  have "q * 10 ^ ?d \<le> 2 ^ 47" using le by (simp add: q pos_le_divide_eq)
  then have small: "\<bar>q\<bar> * 10 ^ ?d \<le> 2 ^ 47" using q(2) by simp
  obtain y where y: "js_fixed ?d y = Fin q" using bounds(3) q(1) by auto
  note fixed = fixed_again[OF y small assms(2), folded q(1)]
  then have n: "n_qty order = qty" "n_positionType order = side"
    using b(1,2) fixed by (simp_all add: order_def normalizeOrder_def orderRow_def js_number_string)
  have "riskCheck order (Some (hd positions)) = Inr True" if none: "co_equity body = None"
  proof -
    obtain p rest where p: "positions = p # rest" "p_type p \<noteq> side" "qty \<le> Fin 2 * p_qty p" using b(3)[OF none] by blast
    obtain h where h: "p_qty p = Fin h" "is_double (Fin h)" using assms(4) p(1) by (auto elim!: js_finiteE)
    have "q * 1 \<le> q * 10 ^ ?d" using q(2) by (intro mult_left_mono) auto
    then have "q \<le> 2 ^ 47" using small q(2) by linarith
    then have "\<not> Fin h < js (q - h)" using within_twice[of q h] p(3) h q by simp
    moreover have "js_number ''0'' = Fin 0"
      by (simp add: js_number_def trim_def is_space_def js_unsigned_def is_digit_def nat_of_digits_def digit_val_def)
    then have "n_initialMargin order = Fin 0" using none by (simp add: order_def normalizeOrder_def orderRow_def)
    ultimately show ?thesis using p h q n by (auto simp: riskCheck_def)
  qed
  then show ?thesis using bounds n b(1) by auto
qed

definition taker_market :: MarketSpec where
  "taker_market = \<lparr>ms_slug = ''X'', ms_priceDecimals = 0, ms_sizeDecimals = 0, ms_tickSize = ''1'', ms_maxLeverage = Fin 8\<rparr>"

definition taker_config :: LadderConfig where
  "taker_config = \<lparr>lc_levels = 1, lc_spreadBps = Fin 8, lc_levelStepBps = Fin 2, lc_skewBps = Fin 0, lc_baseNotional = Fin 64,
     lc_sizeGrowth = Fin 0, lc_sizeJitter = Fin 0, lc_leverage = Fin 2, lc_requoteBps = Fin 1, lc_maxInventoryNotional = Fin 1\<rparr>"

definition taker_depth :: TMarketDepth where
  "taker_depth = \<lparr>d_market = ''X'', d_lastUpdateId = Fin 1, d_timestamp = 0, d_bids = [], d_asks = [(''8'', ''2''), (''9'', ''2'')]\<rparr>"

definition sample_short :: TPosition where
  "sample_short = \<lparr>p_marketId = ''m'', p_type = SHORT, p_qty = Fin 1, p_margin = Fin 4, p_liquidationPrice = Fin 12,
     p_pnL = None, p_averagePrice = Fin 8\<rparr>"

lemma sample_numbers: "js_number ''8'' = Fin 8" "js_number ''9'' = Fin 9" "js_number ''2'' = Fin 2"
  by (simp_all add: js_number_def trim_def is_space_def js_unsigned_def is_digit_def nat_of_digits_def digit_val_def)

lemma floor_one: "js_floor (js (1 + slack)) = Fin 1"
proof -
  have s: "0 \<le> slack" "slack \<le> 1 / 4" by (simp_all add: slack_def)
  then have "js (1 + slack) = Fin (round64 (1 + slack))" by (intro js_moderate) simp
  moreover have "round64 1 \<le> round64 (1 + slack)" using s(1) by (intro round64_mono) simp
  moreover have "\<bar>round64 (1 + slack) - (1 + slack)\<bar> \<le> 1 / 4000" using s by (intro moderate_error) simp
  ultimately have "js (1 + slack) = Fin (round64 (1 + slack))" "1 \<le> round64 (1 + slack)" "round64 (1 + slack) < 2"
    using s round64_of_int[of 1] unfolding abs_le_iff by simp_all
  then show ?thesis by (simp add: js_floor_def floor_eq_iff)
qed

lemma taker_takes:
  "takerOrder taker_config taker_market (Fin 8) (Fin 1) (Fin 0) (Fin (1 / 2)) taker_depth (Fin 0) [sample_short]
   = Some \<lparr>co_orderType = Market, co_price = Fin 0, co_slippage = Fin 1, co_market = ''X'', co_type = LONG, co_qty = Fin 1,
       co_equity = None\<rparr>"
proof -
  obtain r where r: "js (9 / 20) = Fin r" using js_moderate[of "9 / 20"] by auto
  have half: "js (1 / 2) = Fin (1 / 2)" using js_dyadic[of 1 1] by simp
  have side: "takerSide taker_config (Fin 0) (Fin 0) = LONG"
    by (simp add: takerSide_def taker_config_def offsetProbability_def js_min_def r half Let_def)
  obtain n where n: "js (9 / 10) = Fin n" "\<bar>n - 9 / 10\<bar> \<le> 1 / 4000"
    using js_moderate[of "9 / 10"] moderate_error[of "9 / 10"] by auto
  obtain w where w: "js (4 * n) = Fin w" "\<bar>w - 4 * n\<bar> \<le> 1 / 4000"
    using js_moderate[of "4 * n"] moderate_error[of "4 * n"] n(2) unfolding abs_le_iff by auto
  have "\<not> w < 1" using n(2) w(2) by linarith
  then have "takerSize (Fin 8) (Fin (1 / 2)) 0 (d_asks taker_depth) = Some (Fin 8, Fin 1)"
    by (simp add: takerSize_def taker_depth_def reachableQty_def sample_numbers randomBetween_def half n(1) w(1) js_min_def
        roundQty_def nano floor_one js_fixed_def floor_rat_numeral Let_def)
  then show ?thesis
    by (simp add: takerOrder_def taker_market_def side sample_short_def js_fixed_def floor_rat_numeral)
qed

lemma taker_order_is_covered_witness:
  "riskCheck (normalizeOrder (orderRow ''o'' ''u'' ''m'' 0 \<lparr>co_orderType = Market, co_price = Fin 0, co_slippage = Fin 1,
     co_market = ''X'', co_type = LONG, co_qty = Fin 1, co_equity = None\<rparr>)) (Some sample_short) = Inr True"
  using taker_order_is_covered[OF taker_takes, of "''o''" "''u''" "''m''" 0] binary64_of_int[of 1]
  by (simp add: taker_market_def taker_depth_def reachableQty_def sample_numbers sample_short_def)

lemma bots_trade_on_fresh_prices_witness:
  "\<exists>f. anchor 900 ''m'' 500 f = Some (Fin 8) \<and> makerCycle id 9000 500 f ''m'' taker_market taker_config [] [] = ([], [], [])"
proof -
  let ?f = "startFeed [''m''] (createMarketFeed [''m''])"
  have "feed_run [''m''] [] ?f" by (rule feed_run.started)
  then have run: "feed_run [''m''] ([] @ [(500, ''m'', MarkPriceFrame (Some ''8''))])
      (frameArrives 500 ''m'' (MarkPriceFrame (Some ''8'')) ?f)"
    by (rule feed_run.arrives) (simp add: startFeed_def createMarketFeed_def connectFeed_def)
  have "marks ''m'' ([] @ [(500, ''m'', MarkPriceFrame (Some ''8''))]) = [(Fin 8, 500)]"
    by (simp add: marks_def map_filter_def framePrice_def sample_numbers)
  note m = this
  note fresh = bots_trade_on_fresh_prices[OF run, where m = "''m''", simplified m]
  show ?thesis
    using fresh[where now = 900 and staleMs = 500] fresh[where now = 9000 and staleMs = 500 and ?log2.0 = id
        and market = taker_market and config = taker_config and orders = "[]" and positions = "[]"] by auto
qed

end
