(* ===== verification/Api.thy ===== *)
theory Api
  imports WsSockets
begin

text \<open>
  The backend's HTTP API around its services, \<open>apps/backend/src\<close>: the order of the middlewares in
  \<open>server.ts\<close>, \<open>verify-origin.ts\<close>, \<open>authenticate.ts\<close>, \<open>validate.ts\<close>, the cookie of \<open>session-cookie.ts\<close>, the
  errors, the auth routes with \<open>auth-service.ts\<close>, and the market list. Signatures, password hashes, zod
  schemas and the services behind the order routes are parameters; Postgres keeps the table of users
  and its unique index, and may be down.
\<close>

section \<open>Errors\<close>

record AppError =
  ap_message :: string
  ap_statusCode :: nat
  ap_errorCode :: string

datatype thrown_error = Operational AppError | Unexpected_error string

definition appError :: "string \<Rightarrow> nat \<Rightarrow> string \<Rightarrow> thrown_error" where
  "appError message statusCode errorCode =
     Operational \<lparr>ap_message = message, ap_statusCode = statusCode, ap_errorCode = errorCode\<rparr>"

definition conflictError :: thrown_error where
  "conflictError = appError ''Resource already exists'' 409 ''RESOURCE_ALREADY_EXISTS''"

definition invalidRequestError :: "string \<Rightarrow> thrown_error" where
  "invalidRequestError message = appError message 400 ''INVALID_REQUEST''"

definition unauthorizedError :: "string \<Rightarrow> string \<Rightarrow> thrown_error" where
  "unauthorizedError message errorCode = appError message 401 errorCode"

section \<open>Requests and responses\<close>

text \<open>
  A route of the orders carries its parameters. The body may be missing, may be no JSON, or is a value.
\<close>

datatype 'r route = Signup | Signin | Signout | Me | WsTicket | OrderRoute 'r | PublicRoute 'r

datatype 'b raw_body = NoBody | Malformed string | Json 'b

record ('r, 'b) http_request =
  hq_method :: string
  hq_route :: "'r route"
  hq_origin :: "string option"
  hq_cookies :: "(string \<times> string) list"
  hq_authorization :: "string option"
  hq_body :: "'b raw_body"

type_synonym issues = "(string \<times> string) list"

datatype 'd response_body =
    CodeAndMessage string string
  | ErrorAndDetails string issues
  | Identity string string
  | OkTrue
  | Ticket string nat
  | Answer 'd

datatype cookie = KeepCookie | SetCookie string | ClearCookie

record 'd http_response =
  hr_status :: nat
  hr_body :: "'d response_body"
  hr_cookie :: cookie

record user_row =
  ur_id :: string
  ur_username :: string
  ur_passwordHash :: string
  ur_name :: string

record 'w api_state =
  as_users :: "user_row list"
  as_initialised :: "string list"
  as_rest :: 'w

text \<open>
  What the API takes from libraries and from the rest of the program: \<open>serve\<close> is a service called with
  the account and the validated input.
\<close>

record ('r, 'b, 'p, 'd, 'w) platform =
  pf_sign :: "claims \<Rightarrow> string"
  pf_check :: "string \<Rightarrow> jwt_check"
  pf_hash :: "string \<Rightarrow> string"
  pf_compare :: "string \<Rightarrow> string \<Rightarrow> bool"
  pf_corsOrigins :: "string list"
  pf_sessionCookie :: string
  pf_createUser :: "'b option \<Rightarrow> issues + (string \<times> string \<times> string)"
  pf_credentials :: "'b option \<Rightarrow> issues + (string \<times> string)"
  pf_input :: "'r \<Rightarrow> 'b option \<Rightarrow> (string \<times> issues) + 'p"
  pf_serve :: "string option \<Rightarrow> 'p \<Rightarrow> 'w \<Rightarrow> (thrown_error + 'd) \<times> 'w"
  pf_public :: "'p \<Rightarrow> 'w \<Rightarrow> (thrown_error + 'd) \<times> 'w"

section \<open>Middlewares\<close>

definition UNSAFE_METHODS :: "string list" where
  "UNSAFE_METHODS = [''POST'', ''PUT'', ''PATCH'', ''DELETE'']"

definition verifyOrigin :: "string list \<Rightarrow> ('r, 'b) http_request \<Rightarrow> thrown_error option" where
  "verifyOrigin corsOrigins req =
     (if hq_method req \<notin> set UNSAFE_METHODS then None
      else (case given (hq_origin req) of
              None \<Rightarrow> None
            | Some origin \<Rightarrow>
                if origin \<in> set corsOrigins then None
                else Some (appError ''Request origin is not allowed.'' 403 ''ORIGIN_NOT_ALLOWED'')))"

definition readToken :: "string \<Rightarrow> ('r, 'b) http_request \<Rightarrow> string option" where
  "readToken sessionCookie req =
     (case given (map_of (hq_cookies req) sessionCookie) of
        Some token \<Rightarrow> Some token
      | None \<Rightarrow>
          (case hq_authorization req of
             Some header \<Rightarrow> if take 7 header = ''Bearer '' then Some (drop 7 header) else None
           | None \<Rightarrow> None))"

text \<open>An empty token is no token; a payload without a user is passed on as it is.\<close>

definition authenticate :: "(string \<Rightarrow> jwt_check) \<Rightarrow> string \<Rightarrow> ('r, 'b) http_request \<Rightarrow> thrown_error + string option" where
  "authenticate check sessionCookie req =
     (case given (readToken sessionCookie req) of
        None \<Rightarrow> Inl (unauthorizedError ''Missing token'' ''TOKEN_MISSING'')
      | Some token \<Rightarrow>
          (case decodeToken check token of
             Some payload \<Rightarrow> Inr (cl_userId payload)
           | None \<Rightarrow>
               if check token = TokenExpired then Inl (unauthorizedError ''Session expired'' ''TOKEN_EXPIRED'')
               else Inl (unauthorizedError ''Invalid token'' ''TOKEN_INVALID'')))"

definition fromError :: "thrown_error \<Rightarrow> 'd http_response" where
  "fromError err =
     (case err of
        Operational e \<Rightarrow> \<lparr>hr_status = ap_statusCode e, hr_body = CodeAndMessage (ap_errorCode e) (ap_message e), hr_cookie = KeepCookie\<rparr>
      | Unexpected_error message \<Rightarrow>
          \<lparr>hr_status = 500, hr_body = CodeAndMessage ''INTERNAL_SERVER_ERROR'' ''Something went wrong on our end.'',
           hr_cookie = KeepCookie\<rparr>)"

definition invalidInput :: "string \<Rightarrow> issues \<Rightarrow> 'd http_response" where
  "invalidInput target issues =
     \<lparr>hr_status = 400, hr_body = ErrorAndDetails (''Invalid '' @ target) issues, hr_cookie = KeepCookie\<rparr>"

definition okResponse :: "nat \<Rightarrow> 'd response_body \<Rightarrow> cookie \<Rightarrow> 'd http_response" where
  "okResponse status body cookie = \<lparr>hr_status = status, hr_body = body, hr_cookie = cookie\<rparr>"

section \<open>The auth service\<close>

definition findUser :: "string \<Rightarrow> user_row list \<Rightarrow> user_row option" where
  "findUser username rows = find (\<lambda>u. ur_username u = username) rows"

text \<open>
  \<open>signup\<close>: what it throws, or the token and the id. While the password is hashed other requests may
  insert users, which is \<open>meanwhile\<close>; then the unique index decides. Every failure that is no
  \<open>AppError\<close> becomes an invalid request.
\<close>

definition signup ::
  "(claims \<Rightarrow> string) \<Rightarrow> (string \<Rightarrow> string) \<Rightarrow> bool \<Rightarrow> (user_row list \<Rightarrow> user_row list) \<Rightarrow> string \<Rightarrow> string \<Rightarrow> string \<Rightarrow> string
    \<Rightarrow> 'w api_state \<Rightarrow> (thrown_error + string \<times> string) \<times> 'w api_state" where
  "signup sign hash databaseDown meanwhile newId username password name s =
     (if databaseDown then (Inl (invalidRequestError ''Invalid Request''), s)
      else if findUser username (as_users s) \<noteq> None then (Inl conflictError, s)
      else
        (let rows = meanwhile (as_users s)
         in if findUser username rows \<noteq> None then (Inl (invalidRequestError ''Invalid Request''), s\<lparr>as_users := rows\<rparr>)
            else
              (let newUser = \<lparr>ur_id = newId, ur_username = username, ur_passwordHash = hash password, ur_name = name\<rparr>
               in (Inr (createToken sign newId, newId),
                   s\<lparr>as_users := rows @ [newUser], as_initialised := as_initialised s @ [newId]\<rparr>))))"

definition signin ::
  "(claims \<Rightarrow> string) \<Rightarrow> (string \<Rightarrow> string \<Rightarrow> bool) \<Rightarrow> bool \<Rightarrow> string \<Rightarrow> string \<Rightarrow> 'w api_state \<Rightarrow> thrown_error + string \<times> string" where
  "signin sign compare databaseDown username password s =
     (if databaseDown then Inl (invalidRequestError ''Invalid Request'')
      else (case findUser username (as_users s) of
              None \<Rightarrow> Inl (invalidRequestError ''Invalid Credentials'')
            | Some user \<Rightarrow>
                if \<not> compare password (ur_passwordHash user) then Inl (invalidRequestError ''Invalid Credentials'')
                else Inr (createToken sign (ur_id user), ur_id user)))"

definition getUserById_auth :: "bool \<Rightarrow> string option \<Rightarrow> 'w api_state \<Rightarrow> thrown_error + user_row" where
  "getUserById_auth databaseDown userId s =
     (if databaseDown then Inl (Unexpected_error ''Failed query'')
      else (case find (\<lambda>u. Some (ur_id u) = userId) (as_users s) of
              None \<Rightarrow> Inl (unauthorizedError ''Session is no longer valid'' ''TOKEN_INVALID'')
            | Some user \<Rightarrow> Inr user))"

text \<open>The market list: every row has to satisfy its schema.\<close>

definition getMarkets :: "('row \<Rightarrow> 'dto option) \<Rightarrow> ('row \<Rightarrow> string) \<Rightarrow> 'row list \<Rightarrow> thrown_error + 'dto list" where
  "getMarkets parse slug rows =
     (case find (\<lambda>row. parse row = None) rows of
        Some row \<Rightarrow> Inl (appError (''Market '' @ [CHR 0x22] @ slug row @ [CHR 0x22] @
            '' is missing required metadata. Run: bun run --filter '' @ [CHR 0x27] @ ''@repo/db'' @ [CHR 0x27] @ '' db:seed'') 500 ''MARKET_METADATA_INCOMPLETE'')
      | None \<Rightarrow> Inr (map (the \<circ> parse) rows))"

section \<open>The app\<close>

definition WS_TICKET_TTL_SECONDS :: nat where
  "WS_TICKET_TTL_SECONDS = 60"

definition jsonBody :: "'b raw_body \<Rightarrow> 'b option" where
  "jsonBody body = (case body of Json b \<Rightarrow> Some b | _ \<Rightarrow> None)"

definition signupRoute ::
  "('r, 'b, 'p, 'd, 'w) platform \<Rightarrow> bool \<Rightarrow> (user_row list \<Rightarrow> user_row list) \<Rightarrow> string \<Rightarrow> 'b option \<Rightarrow> 'w api_state
    \<Rightarrow> 'd http_response \<times> 'w api_state" where
  "signupRoute pf databaseDown meanwhile newId body s =
     (case pf_createUser pf body of
        Inl issues \<Rightarrow> (invalidInput ''body'' issues, s)
      | Inr (username, password, name) \<Rightarrow>
          (case signup (pf_sign pf) (pf_hash pf) databaseDown meanwhile newId username password name s of
             (Inl err, s') \<Rightarrow> (fromError err, s')
           | (Inr (token, userId), s') \<Rightarrow> (okResponse 201 (Identity userId username) (SetCookie token), s')))"

definition signinRoute :: "('r, 'b, 'p, 'd, 'w) platform \<Rightarrow> bool \<Rightarrow> 'b option \<Rightarrow> 'w api_state \<Rightarrow> 'd http_response" where
  "signinRoute pf databaseDown body s =
     (case pf_credentials pf body of
        Inl issues \<Rightarrow> invalidInput ''body'' issues
      | Inr (username, password) \<Rightarrow>
          (case signin (pf_sign pf) (pf_compare pf) databaseDown username password s of
             Inl err \<Rightarrow> fromError err
           | Inr (token, userId) \<Rightarrow> okResponse 200 (Identity userId username) (SetCookie token)))"

definition meRoute :: "bool \<Rightarrow> string option \<Rightarrow> 'w api_state \<Rightarrow> 'd http_response" where
  "meRoute databaseDown userId s =
     (case getUserById_auth databaseDown userId s of
        Inl err \<Rightarrow> fromError err
      | Inr user \<Rightarrow> okResponse 200 (Identity (ur_id user) (ur_username user)) KeepCookie)"

text \<open>A ticket names the account of the session; a payload without one is signed as it is.\<close>

definition wsTicketRoute :: "(claims \<Rightarrow> string) \<Rightarrow> string option \<Rightarrow> 'd http_response" where
  "wsTicketRoute sign userId =
     okResponse 200 (Ticket (case userId of Some u \<Rightarrow> createWsTicket sign u
                                          | None \<Rightarrow> sign \<lparr>cl_userId = None, cl_typ = Some ''ws''\<rparr>) WS_TICKET_TTL_SECONDS) KeepCookie"

text \<open>A service call: what it throws goes to the error handler.\<close>

definition serveRoute ::
  "('w \<Rightarrow> (thrown_error + 'd) \<times> 'w) \<Rightarrow> 'w api_state \<Rightarrow> 'd http_response \<times> 'w api_state" where
  "serveRoute call s =
     (case call (as_rest s) of
        (Inl err, w) \<Rightarrow> (fromError err, s\<lparr>as_rest := w\<rparr>)
      | (Inr data, w) \<Rightarrow> (okResponse 200 (Answer data) KeepCookie, s\<lparr>as_rest := w\<rparr>))"

definition validated ::
  "((string \<times> issues) + 'p) \<Rightarrow> ('p \<Rightarrow> 'd http_response \<times> 'w api_state) \<Rightarrow> 'w api_state \<Rightarrow> 'd http_response \<times> 'w api_state" where
  "validated parsed continue s =
     (case parsed of
        Inl (target, issues) \<Rightarrow> (invalidInput target issues, s)
      | Inr p \<Rightarrow> continue p)"

definition authenticated ::
  "('r, 'b, 'p, 'd, 'w) platform \<Rightarrow> ('r, 'b) http_request \<Rightarrow> (string option \<Rightarrow> 'd http_response \<times> 'w api_state)
    \<Rightarrow> 'w api_state \<Rightarrow> 'd http_response \<times> 'w api_state" where
  "authenticated pf req continue s =
     (case authenticate (pf_check pf) (pf_sessionCookie pf) req of
        Inl err \<Rightarrow> (fromError err, s)
      | Inr userId \<Rightarrow> continue userId)"

text \<open>The whole app: the middlewares in their order, then the route.\<close>

definition respond ::
  "('r, 'b, 'p, 'd, 'w) platform \<Rightarrow> bool \<Rightarrow> (user_row list \<Rightarrow> user_row list) \<Rightarrow> string \<Rightarrow> ('r, 'b) http_request \<Rightarrow> 'w api_state
    \<Rightarrow> 'd http_response \<times> 'w api_state" where
  "respond pf databaseDown meanwhile newId req s =
     (case verifyOrigin (pf_corsOrigins pf) req of
        Some err \<Rightarrow> (fromError err, s)
      | None \<Rightarrow>
          (case hq_body req of
             Malformed message \<Rightarrow> (fromError (Unexpected_error message), s)
           | _ \<Rightarrow>
               (let body = jsonBody (hq_body req)
                in case hq_route req of
                     Signup \<Rightarrow> signupRoute pf databaseDown meanwhile newId body s
                   | Signin \<Rightarrow> (signinRoute pf databaseDown body s, s)
                   | Signout \<Rightarrow> (okResponse 200 OkTrue ClearCookie, s)
                   | Me \<Rightarrow> authenticated pf req (\<lambda>userId. (meRoute databaseDown userId s, s)) s
                   | WsTicket \<Rightarrow> authenticated pf req (\<lambda>userId. (wsTicketRoute (pf_sign pf) userId, s)) s
                   | OrderRoute r \<Rightarrow>
                       authenticated pf req
                         (\<lambda>userId. validated (pf_input pf r body) (\<lambda>p. serveRoute (pf_serve pf userId p) s) s) s
                   | PublicRoute r \<Rightarrow> validated (pf_input pf r body) (\<lambda>p. serveRoute (pf_public pf p) s) s)))"

text \<open>Requests one after the other; what other requests insert meanwhile is what the code inserts.\<close>

definition inserts :: "(user_row list \<Rightarrow> user_row list) \<Rightarrow> user_row list \<Rightarrow> bool" where
  "inserts meanwhile rows \<longleftrightarrow> (\<exists>new. meanwhile rows = rows @ new \<and> (distinct (map ur_username rows) \<longrightarrow> distinct (map ur_username (rows @ new))))"

inductive api_reachable :: "('r, 'b, 'p, 'd, 'w) platform \<Rightarrow> 'w api_state \<Rightarrow> bool" for pf where
  empty: "api_reachable pf \<lparr>as_users = [], as_initialised = [], as_rest = w\<rparr>"
| request: "api_reachable pf s \<Longrightarrow> inserts meanwhile (as_users s) \<Longrightarrow>
    respond pf databaseDown meanwhile newId req s = (answer, s') \<Longrightarrow> api_reachable pf s'"

end
