(* ===== verification/ApiProperties.thy ===== *)
theory ApiProperties
  imports Api Session
begin

text \<open>
  Who gets what from the API: a service is called for an account only by a request with a session of that
  account, a page of another origin changes nothing, and what the API refuses is what the browser takes
  for the end of a session.
\<close>

section \<open>The middlewares\<close>

lemma authenticate_Inr:
  "authenticate check sessionCookie req = Inr userId \<longleftrightarrow>
     (\<exists>token payload. given (readToken sessionCookie req) = Some token \<and> check token = Verified payload
        \<and> given (cl_typ payload) = None \<and> userId = cl_userId payload)"
  by (auto simp: authenticate_def decodeToken_def given_def split: option.splits jwt_check.splits if_splits)

text \<open>
  C29. A service is called for an account only with a session of that account. Whenever a request to an
  order route changes anything or is answered with data, it carries, in the cookie or the header, a
  token the check verifies, that is no ticket of the socket, and the service is called for the account
  the token names and nothing else; and if its method is unsafe and it has an \<open>Origin\<close> header, it comes
  from an allowed origin (without the header it passes, as the code says it means to).
\<close>

theorem services_need_a_session:
  assumes "respond pf databaseDown meanwhile newId req s = (answer, s')" "hq_route req = OrderRoute r"
    and "s' \<noteq> s \<or> (\<exists>data. hr_body answer = Answer data)"
  shows "\<exists>token payload p. given (readToken (pf_sessionCookie pf) req) = Some token \<and> pf_check pf token = Verified payload
    \<and> given (cl_typ payload) = None
    \<and> pf_input pf r (jsonBody (hq_body req)) = Inr p
    \<and> (answer, s') = serveRoute (pf_serve pf (cl_userId payload) p) s
    \<and> (hq_method req \<in> set UNSAFE_METHODS \<longrightarrow> (\<forall>origin. given (hq_origin req) = Some origin \<longrightarrow> origin \<in> set (pf_corsOrigins pf)))"
proof -
  have origin: "verifyOrigin (pf_corsOrigins pf) req = None" and body: "\<nexists>m. hq_body req = Malformed m"
    using assms by (auto simp: respond_def fromError_def split: option.splits thrown_error.splits raw_body.splits)
  then have r: "respond pf databaseDown meanwhile newId req s =
      authenticated pf req (\<lambda>userId. validated (pf_input pf r (jsonBody (hq_body req))) (\<lambda>p. serveRoute (pf_serve pf userId p) s) s) s"
    using assms(2) by (auto simp: respond_def Let_def split: raw_body.split)
  obtain userId where a: "authenticate (pf_check pf) (pf_sessionCookie pf) req = Inr userId"
    using r assms by (auto simp: authenticated_def fromError_def split: sum.splits thrown_error.splits)
  obtain p where p: "pf_input pf r (jsonBody (hq_body req)) = Inr p"
    using r a assms by (auto simp: authenticated_def validated_def invalidInput_def split: sum.splits)
  have "(answer, s') = serveRoute (pf_serve pf userId p) s" using r a p assms(1) by (simp add: authenticated_def validated_def)
  moreover have "hq_method req \<in> set UNSAFE_METHODS \<longrightarrow> (\<forall>origin. given (hq_origin req) = Some origin \<longrightarrow> origin \<in> set (pf_corsOrigins pf))"
    using origin by (auto simp: verifyOrigin_def split: if_splits option.splits)
  ultimately show ?thesis using a p unfolding authenticate_Inr by blast
qed

lemma other_origins_change_nothing:
  assumes "hq_method req \<in> set UNSAFE_METHODS" "given (hq_origin req) = Some origin" "origin \<notin> set (pf_corsOrigins pf)"
  shows "respond pf databaseDown meanwhile newId req s =
    (\<lparr>hr_status = 403, hr_body = CodeAndMessage ''ORIGIN_NOT_ALLOWED'' ''Request origin is not allowed.'', hr_cookie = KeepCookie\<rparr>, s)"
  using assms by (simp add: respond_def verifyOrigin_def fromError_def appError_def)

text \<open>The words of an unexpected error stay in the log.\<close>

lemma unexpected_errors_look_alike: "fromError (Unexpected_error message) = fromError (Unexpected_error other)"
  by (simp add: fromError_def)

section \<open>Accounts\<close>

lemma find_user_append: "find P (xs @ ys) = (case find P xs of Some x \<Rightarrow> Some x | None \<Rightarrow> find P ys)"
  by (induction xs) auto

lemma findUser_fresh: "findUser username rows = None \<longleftrightarrow> username \<notin> ur_username ` set rows"
  by (auto simp: findUser_def find_None_iff)

lemma signup_rows:
  assumes "signup sign hash databaseDown meanwhile newId username password name s = (out, s')" "inserts meanwhile (as_users s)"
    "distinct (map ur_username (as_users s))"
  shows "distinct (map ur_username (as_users s'))"
proof -
  obtain new where new: "meanwhile (as_users s) = as_users s @ new" "distinct (map ur_username (as_users s @ new))"
    using assms(2,3) by (auto simp: inserts_def)
  show ?thesis using assms(1,3) new
    by (auto simp: signup_def findUser_fresh Let_def split: if_splits)
qed

lemma served_rows: "as_users (snd (serveRoute call s)) = as_users s"
  by (simp add: serveRoute_def split: prod.split sum.split)

lemma validated_rows: "(\<And>p. as_users (snd (continue p)) = as_users s) \<Longrightarrow> as_users (snd (validated parsed continue s)) = as_users s"
  by (simp add: validated_def split: sum.split prod.split)

lemma authenticated_rows:
  "(\<And>userId. as_users (snd (continue userId)) = as_users s) \<Longrightarrow> as_users (snd (authenticated pf req continue s)) = as_users s"
  by (simp add: authenticated_def split: sum.split)

lemma respond_cases:
  "as_users (snd (respond pf databaseDown meanwhile newId req s)) = as_users s
   \<or> respond pf databaseDown meanwhile newId req s = signupRoute pf databaseDown meanwhile newId (jsonBody (hq_body req)) s"
  by (cases "hq_route req"; cases "verifyOrigin (pf_corsOrigins pf) req"; cases "hq_body req")
    (simp_all add: respond_def Let_def authenticated_rows validated_rows served_rows)

lemma respond_rows:
  assumes "inserts meanwhile (as_users s)" "distinct (map ur_username (as_users s))"
  shows "distinct (map ur_username (as_users (snd (respond pf databaseDown meanwhile newId req s))))"
proof -
  have "distinct (map ur_username (as_users (snd (signupRoute pf databaseDown meanwhile newId body s))))" for body
  proof (cases "pf_createUser pf body")
    case (Inr x)
    obtain username password name where x: "x = (username, password, name)" by (cases x)
    obtain out s' where o: "signup (pf_sign pf) (pf_hash pf) databaseDown meanwhile newId username password name s = (out, s')" by fastforce
    show ?thesis using signup_rows[OF o assms] by (cases out) (auto simp: signupRoute_def Inr x o)
  qed (simp add: signupRoute_def assms(2))
  then show ?thesis using respond_cases[of pf databaseDown meanwhile newId req s] assms(2) by auto
qed

text \<open>Whatever the requests and however they overlap, no two accounts have the same name.\<close>

theorem usernames_stay_unique: "api_reachable pf s \<Longrightarrow> distinct (map ur_username (as_users s))"
proof (induction rule: api_reachable.induct)
  case (request s meanwhile databaseDown newId req answer s')
  then show ?case using respond_rows[of meanwhile s pf databaseDown newId req] by simp
qed simp

text \<open>
  C30. Whoever has signed up can sign in. After a sign-up that succeeded, and whatever accounts were added
  later, signing in with the same name and password succeeds, and the cookie either of them sets is a
  session of the new account, whose name the API then gives.
\<close>

theorem signed_up_can_sign_in:
  assumes laws: "\<And>p. pf_compare pf p (pf_hash pf p)" 
      "\<And>u. pf_check pf (createToken (pf_sign pf) u) = Verified \<lparr>cl_userId = Some u, cl_typ = None\<rparr>" "pf_check pf [] = TokenInvalid"
    and up: "signupRoute pf False meanwhile newId body s = (answer, s')" "hr_status answer = 201"
      "pf_createUser pf body = Inr (username, password, name)"
    and fresh: "newId \<notin> ur_id ` set (meanwhile (as_users s))"
    and later: "as_users s'' = as_users s' @ others" "pf_credentials pf body' = Inr (username, password)"
    and cookie: "hr_cookie (signinRoute pf False body' s'') = SetCookie token \<or> hr_cookie answer = SetCookie token"
      "map_of (hq_cookies req) (pf_sessionCookie pf) = Some token"
  shows "hr_status (signinRoute pf False body' s'') = 200
    \<and> authenticate (pf_check pf) (pf_sessionCookie pf) req = Inr (Some newId)
    \<and> meRoute False (Some newId) s'' = okResponse 200 (Identity newId username) KeepCookie"
proof -
  let ?new = "\<lparr>ur_id = newId, ur_username = username, ur_passwordHash = pf_hash pf password, ur_name = name\<rparr>"
  let ?rows = "meanwhile (as_users s)"
  have r: "findUser username ?rows = None" "as_users s' = ?rows @ [?new]" "hr_cookie answer = SetCookie (createToken (pf_sign pf) newId)"
    using up by (auto simp: signupRoute_def signup_def fromError_def conflictError_def invalidRequestError_def appError_def
        okResponse_def Let_def split: if_splits)
  have user: "findUser username (as_users s'') = Some ?new"
    using r(1) by (simp add: later(1) r(2) findUser_def find_user_append)
  have i: "signinRoute pf False body' s'' = okResponse 200 (Identity newId username) (SetCookie (createToken (pf_sign pf) newId))"
    using user laws(1) later(2) by (simp add: signinRoute_def signin_def)
  then have t: "token = createToken (pf_sign pf) newId" using cookie(1) r(3) by (auto simp: okResponse_def)
  then have "pf_check pf token = Verified \<lparr>cl_userId = Some newId, cl_typ = None\<rparr>" by (simp add: laws(2))
  moreover from this have "token \<noteq> []" using laws(3) by auto
  then have "given (readToken (pf_sessionCookie pf) req) = Some token" using cookie(2) by (simp add: readToken_def given_def)
  ultimately have "authenticate (pf_check pf) (pf_sessionCookie pf) req = Inr (Some newId)"
    unfolding authenticate_Inr by (auto simp: given_def)
  moreover have "find (\<lambda>u. Some (ur_id u) = Some newId) ?rows = None" using fresh by (auto simp: find_None_iff)
  then have "getUserById_auth False (Some newId) s'' = Inr ?new" by (simp add: getUserById_auth_def later(1) r(2) find_user_append)
  ultimately show ?thesis by (simp add: i meRoute_def okResponse_def)
qed

section \<open>What the browser makes of it\<close>

text \<open>The members of an error answer that the browser reads.\<close>

fun errorBody :: "'d response_body \<Rightarrow> error_body option" where
  "errorBody (CodeAndMessage code message) =
     Some \<lparr>eb_error = None, eb_details = None, eb_code = Some code, eb_message = Some message\<rparr>"
| "errorBody (ErrorAndDetails err issues) =
     Some \<lparr>eb_error = Some err, eb_details = Some (map (\<lambda>(field, message). (Some field, Some message)) issues),
           eb_code = None, eb_message = None\<rparr>"
| "errorBody _ = Some \<lparr>eb_error = None, eb_details = None, eb_code = None, eb_message = None\<rparr>"

text \<open>
  C31. A refused session is recognised. A request without a valid session to a route that needs one, whose
  origin passes and whose body parses, is answered 401 and changes nothing; and the browser takes the
  answer, to a request that reports refusals and while no other is being reported, for the end of the
  session: unless at its last render it took itself for signed out, it clears its identity, announces the
  expiry once and goes to the sign-in page.
\<close>

theorem refused_session_is_announced:
  fixes statusText encode here
  assumes "authenticate (pf_check pf) (pf_sessionCookie pf) req = Inl err"
    and "(\<exists>r. hq_route req = OrderRoute r) \<or> hq_route req = Me \<or> hq_route req = WsTicket"
    and "verifyOrigin (pf_corsOrigins pf) req = None" "\<nexists>m. hq_body req = Malformed m"
    and "respond pf databaseDown meanwhile newId req s = (answer, s')"
    and "i < length (tb_requests t)" "rq_auth (tb_requests t ! i)" "rq_notify (tb_requests t ! i)" "\<not> tb_latch t"
  defines "t' \<equiv> bodyIn statusText encode here i (hr_status answer) (ErrorBody (errorBody (hr_body answer))) t"
  shows "s' = s \<and> hr_status answer = 401 \<and> isAuthFailure (toApiError statusText (hr_status answer) (errorBody (hr_body answer)))
    \<and> (if tb_statusRef t = Anon then tb_expiredCount t' = tb_expiredCount t \<and> tb_redirects t' = tb_redirects t
        else tb_expiredCount t' = tb_expiredCount t + 1 \<and> tb_status t' = Anon \<and> tb_identity t' = None
          \<and> (\<exists>rest. tb_redirects t' = tb_redirects t @ [''/signin'' @ rest]))"
proof -
  have r: "answer = fromError err" "s' = s"
    using assms(1-5) by (auto simp: respond_def authenticated_def Let_def split: raw_body.splits)
  obtain message code where "err = unauthorizedError message code"
    using assms(1) by (auto simp: authenticate_def split: option.splits if_splits)
  then have a: "hr_status answer = 401" "hr_body answer = CodeAndMessage code message"
    by (simp_all add: r fromError_def unauthorizedError_def appError_def)
  then have f: "isAuthFailure (toApiError statusText 401 (errorBody (hr_body answer)))" by (simp add: toApiError_def isAuthFailure_def)
  have "t' = setProgress i (Failed (toApiError statusText 401 (errorBody (hr_body answer)))) (notifyAuthFailureHandler encode here t)"
    using assms(7,8) f by (simp add: t'_def bodyIn_def a(1))
  then show ?thesis using assms(9) f a(1) r(2)
    by (auto simp: setProgress_def notifyAuthFailureHandler_def abortSessionRequests_def onAuthFailure_def clearLocally_def
        sign_in_path_def Let_def)
qed

text \<open>Input the schema refuses comes back with a message per field, which is no reason to sign out.\<close>

theorem refused_input_names_fields:
  "toApiError statusText 400 (errorBody (hr_body (invalidInput target issues))) =
     \<lparr>ae_status = 400, ae_code = ''VALIDATION_FAILED'', ae_message = ''Invalid '' @ target,
      ae_fieldErrors = Some (fieldErrorsOf (map (\<lambda>(field, message). (Some field, Some message)) issues))\<rparr>"
  "\<not> isSilent (toApiError statusText 400 (errorBody (hr_body (invalidInput target issues))))"
  by (simp_all add: invalidInput_def toApiError_def isSilent_def isAuthFailure_def isCancelled_def)

section \<open>Surprises\<close>

text \<open>
  With Postgres down signing in is answered with an invalid request, which the browser does not offer to
  try again, whoever signs in; asking who is signed in is an internal error, which it does.
\<close>

theorem outage_looks_like_a_bad_request:
  "signin sign compare True username password s = Inl (invalidRequestError ''Invalid Request'')"
  "\<not> isRetryable (toApiError statusText 400 (errorBody (hr_body (fromError (invalidRequestError ''Invalid Request'')))))"
  "isRetryable (toApiError statusText 500 (errorBody (hr_body (meRoute True userId s))))"
  by (simp_all add: signin_def invalidRequestError_def appError_def fromError_def toApiError_def isRetryable_def meRoute_def
      getUserById_auth_def)

text \<open>A body that is no JSON is the client's error and is answered as one of the server.\<close>

theorem malformed_body_is_internal_error:
  "verifyOrigin (pf_corsOrigins pf) req = None \<Longrightarrow> hq_body req = Malformed message \<Longrightarrow>
    hr_status (fst (respond pf databaseDown meanwhile newId req s)) = 500"
  by (simp add: respond_def fromError_def)

text \<open>Of two overlapping sign-ups with one name the second is told of an invalid request, not of the conflict.\<close>

theorem overlapping_signup_is_invalid:
  assumes "findUser username (as_users s) = None" "findUser username (meanwhile (as_users s)) \<noteq> None"
  shows "fst (signup sign hash False meanwhile newId username password name s) = Inl (invalidRequestError ''Invalid Request'')"
  using assms by (simp add: signup_def)

section \<open>A small platform\<close>

text \<open>A platform the properties are tried on: readable tokens, reversed passwords, one counter as the rest of the state.\<close>

definition plain_sign :: "claims \<Rightarrow> string" where
  "plain_sign c = (if cl_typ c = None then CHR ''s'' else CHR ''w'') # (case cl_userId c of Some u \<Rightarrow> u | None \<Rightarrow> [])"

definition plain_check :: "string \<Rightarrow> jwt_check" where
  "plain_check t =
     (case t of
        [] \<Rightarrow> TokenInvalid
      | k # u \<Rightarrow> if k = CHR ''s'' then Verified \<lparr>cl_userId = Some u, cl_typ = None\<rparr>
                 else if k = CHR ''w'' then Verified \<lparr>cl_userId = Some u, cl_typ = Some ''ws''\<rparr> else TokenInvalid)"

definition small_platform :: "(unit, string \<times> string, unit, nat, nat) platform" where
  "small_platform =
     \<lparr>pf_sign = plain_sign, pf_check = plain_check, pf_hash = rev, pf_compare = (\<lambda>p h. rev p = h),
      pf_corsOrigins = [''app''], pf_sessionCookie = ''c'',
      pf_createUser = (\<lambda>b. case b of Some (u, p) \<Rightarrow> Inr (u, p, u) | None \<Rightarrow> Inl []),
      pf_credentials = (\<lambda>b. case b of Some (u, p) \<Rightarrow> Inr (u, p) | None \<Rightarrow> Inl []),
      pf_input = (\<lambda>r b. Inr ()), pf_serve = (\<lambda>u p w. (Inr w, w + 1)), pf_public = (\<lambda>p w. (Inr w, w))\<rparr>"

definition empty_api :: "nat api_state" where
  "empty_api = \<lparr>as_users = [], as_initialised = [], as_rest = 0\<rparr>"

definition with_cookie :: "string \<Rightarrow> (unit, string \<times> string) http_request" where
  "with_cookie token =
     \<lparr>hq_method = ''GET'', hq_route = OrderRoute (), hq_origin = None, hq_cookies = [(''c'', token)], hq_authorization = None,
      hq_body = NoBody\<rparr>"

lemmas small = small_platform_def plain_sign_def plain_check_def with_cookie_def empty_api_def

lemma small_parts: "pf_check small_platform = plain_check" "pf_sessionCookie small_platform = ''c''"
  by (simp_all add: small_platform_def)

lemma services_need_a_session_witness:
  "\<exists>token payload p. given (readToken ''c'' (with_cookie ''su1'')) = Some token \<and> plain_check token = Verified payload
    \<and> given (cl_typ payload) = None \<and> pf_input small_platform () None = Inr p"
proof -
  have "respond small_platform False id [] (with_cookie ''su1'') empty_api
      = (okResponse 200 (Answer 0) KeepCookie, empty_api\<lparr>as_rest := 1\<rparr>)"
    by (simp add: respond_def verifyOrigin_def UNSAFE_METHODS_def authenticated_def authenticate_def readToken_def given_def
        decodeToken_def validated_def serveRoute_def small)
  from services_need_a_session[OF this, of "()"] show ?thesis
    by (simp add: small okResponse_def jsonBody_def) blast
qed

lemma signed_up_can_sign_in_witness:
  "\<exists>s :: nat api_state. hr_status (signinRoute small_platform False (Some (''ann'', ''pw'')) s) = 200
    \<and> authenticate plain_check ''c'' (with_cookie ''su1'') = Inr (Some ''u1'')"
proof -
  let ?s = "empty_api\<lparr>as_users := [\<lparr>ur_id = ''u1'', ur_username = ''ann'', ur_passwordHash = rev ''pw'', ur_name = ''ann''\<rparr>],
     as_initialised := [''u1'']\<rparr>"
  have up: "signupRoute small_platform False id ''u1'' (Some (''ann'', ''pw'')) empty_api
      = (okResponse 201 (Identity ''u1'' ''ann'') (SetCookie ''su1''), ?s)"
    by (simp add: signupRoute_def signup_def findUser_def createToken_def small)
  have "hr_status (signinRoute small_platform False (Some (''ann'', ''pw'')) ?s) = 200
    \<and> authenticate (pf_check small_platform) (pf_sessionCookie small_platform) (with_cookie ''su1'') = Inr (Some ''u1'')
    \<and> meRoute False (Some ''u1'') ?s = okResponse 200 (Identity ''u1'' ''ann'') KeepCookie"
    by (rule signed_up_can_sign_in[OF _ _ _ up, where token = "''su1''" and others = "[]" and password = "''pw''" and name = "''ann''"
        and body' = "Some (''ann'', ''pw'')"])
      (simp_all add: small okResponse_def createToken_def)
  from this[unfolded small_parts] show ?thesis by (intro exI[of _ ?s]) (elim conjE, intro conjI)
qed

text \<open>Ann is signed in and loads a table; her cookie names a session the check does not accept.\<close>

definition ann_tab :: "nat tab" where
  "ann_tab = startRequest True True (renderProvider (signedIn \<lparr>si_userId = ''u'', si_username = ''ann''\<rparr> fresh_tab))"

lemma refused_session_is_announced_witness:
  "\<exists>answer t'. respond small_platform False id [] (with_cookie ''x'') empty_api = (answer, empty_api) \<and> hr_status answer = 401
    \<and> t' = bodyIn (\<lambda>_. []) id ''/trade'' 0 (hr_status answer) (ErrorBody (errorBody (hr_body answer))) ann_tab
    \<and> tb_status ann_tab = Authed \<and> tb_expiredCount ann_tab = 0 \<and> tb_redirects ann_tab = []
    \<and> tb_status t' = Anon \<and> tb_identity t' = None \<and> tb_expiredCount t' = 1 \<and> length (tb_redirects t') = 1"
proof -
  let ?r = "with_cookie ''x''"
  obtain answer s' where r: "respond small_platform False id [] ?r empty_api = (answer, s')" by force
  define t' where "t' = bodyIn (\<lambda>_. []) id ''/trade'' 0 (hr_status answer) (ErrorBody (errorBody (hr_body answer))) ann_tab"
  have "authenticate (pf_check small_platform) (pf_sessionCookie small_platform) ?r = Inl (unauthorizedError ''Invalid token'' ''TOKEN_INVALID'')"
    by (simp add: authenticate_def readToken_def given_def decodeToken_def small)
  note refused = refused_session_is_announced[OF this, where databaseDown = False and meanwhile = id and newId = "[]" and s = empty_api
      and t = ann_tab and i = 0 and statusText = "\<lambda>_. []" and encode = id and here = "''/trade''", OF _ _ _ r, folded t'_def]
  have tab: "tb_status ann_tab = Authed" "tb_statusRef ann_tab = Authed" "tb_expiredCount ann_tab = 0" "tb_redirects ann_tab = []"
    "\<not> tb_latch ann_tab" "length (tb_requests ann_tab) = 1" "rq_auth (tb_requests ann_tab ! 0)" "rq_notify (tb_requests ann_tab ! 0)"
    by (simp_all add: ann_tab_def startRequest_def renderProvider_def signedIn_def fresh_tab_def)
  have "s' = empty_api" "hr_status answer = 401" "tb_expiredCount t' = 1" "tb_status t' = Anon" "tb_identity t' = None"
    "length (tb_redirects t') = 1"
    using refused tab by (auto simp: with_cookie_def verifyOrigin_def UNSAFE_METHODS_def)
  with r tab show ?thesis unfolding t'_def by blast
qed

end
