(* ===== verification/Backup.thy ===== *)
theory Backup
  imports Prelude JsDate "HOL-Library.AList"
begin

text \<open>
  The backup of the engine in object storage, \<open>apps/engine/src/services/upload-file.ts\<close>: what
  \<open>JSON.stringify\<close> and \<open>JSON.parse\<close> make of a value with the replacer and the reviver the uploader gives
  them, and the two objects a bucket holds after an upload. A JSON text is the tree it denotes, with
  numbers as they are written; the requests to the bucket succeed or fail.
\<close>

section \<open>Values\<close>

text \<open>The values a store holds; a \<open>Date\<close> is valid, by its milliseconds.\<close>

datatype js_value =
    Undefined
  | Null
  | Boolean bool
  | Number jsnum
  | Text string
  | DateOf int
  | Array "js_value list"
  | Object "(string \<times> js_value) list"
  | MapOf "(js_value \<times> js_value) list"

datatype json =
    JNull
  | JBoolean bool
  | JNumber string
  | JText string
  | JArray "json list"
  | JObject "(string \<times> json) list"

section \<open>Writing and reading\<close>

text \<open>
  \<open>JSON.stringify\<close> with the replacer: a member that is undefined is left out, an element that is
  undefined and a number that is not finite become \<open>null\<close>, a \<open>Map\<close> becomes an object of its entries, and a
  \<open>Date\<close> reaches the replacer as the text of its \<open>toJSON\<close>.
\<close>

definition element :: "json option \<Rightarrow> json" where
  "element j = (case j of None \<Rightarrow> JNull | Some j \<Rightarrow> j)"

function (sequential) stringify :: "js_value \<Rightarrow> json option"
and stringify_elements :: "js_value list \<Rightarrow> json list"
and stringify_members :: "(string \<times> js_value) list \<Rightarrow> (string \<times> json) list"
and stringify_entries :: "(js_value \<times> js_value) list \<Rightarrow> json list" where
  "stringify Undefined = None"
| "stringify Null = Some JNull"
| "stringify (Boolean b) = Some (JBoolean b)"
| "stringify (Number x) = Some (if js_finite x then JNumber (js_string x) else JNull)"
| "stringify (Text s) = Some (JText s)"
| "stringify (DateOf t) = Some (JText (toISOString t))"
| "stringify (Array vs) = Some (JArray (stringify_elements vs))"
| "stringify (Object ms) = Some (JObject (stringify_members ms))"
| "stringify (MapOf es) = Some (JObject [(''_type'', JText ''Map''), (''data'', JArray (stringify_entries es))])"
| "stringify_elements [] = []"
| "stringify_elements (v # vs) = element (stringify v) # stringify_elements vs"
| "stringify_members [] = []"
| "stringify_members ((k, v) # ms) =
     (case stringify v of None \<Rightarrow> stringify_members ms | Some j \<Rightarrow> (k, j) # stringify_members ms)"
| "stringify_entries [] = []"
| "stringify_entries ((k, v) # es) = JArray [element (stringify k), element (stringify v)] # stringify_entries es"
  by pat_completeness auto

termination
  by (relation "measure (case_sum (case_sum size (size_list size))
      (case_sum (size_list (size_prod (\<lambda>_. 0) size)) (size_list (size_prod size size))))") auto

text \<open>
  \<open>new Map(data)\<close>; what is no list of pairs is refused here, and the uploader writes nothing else. A key
  that is an object is equal to itself alone.
\<close>

fun primitive :: "js_value \<Rightarrow> bool" where
  "primitive (DateOf t) = False"
| "primitive (Array vs) = False"
| "primitive (Object ms) = False"
| "primitive (MapOf es) = False"
| "primitive v = True"

definition setEntry :: "(js_value \<times> js_value) list \<Rightarrow> js_value \<times> js_value \<Rightarrow> (js_value \<times> js_value) list" where
  "setEntry m e = (if primitive (fst e) then AList.update (fst e) (snd e) m else m @ [e])"

fun pairs_of :: "js_value list \<Rightarrow> (js_value \<times> js_value) list option" where
  "pairs_of [] = Some []"
| "pairs_of (Array [k, v] # vs) = map_option (\<lambda>es. (k, v) # es) (pairs_of vs)"
| "pairs_of (v # vs) = None"

definition newMap :: "js_value option \<Rightarrow> js_value option" where
  "newMap data =
     (case data of
        None \<Rightarrow> Some (MapOf [])
      | Some Null \<Rightarrow> Some (MapOf [])
      | Some (Array vs) \<Rightarrow> map_option (\<lambda>es. MapOf (foldl setEntry [] es)) (pairs_of vs)
      | Some _ \<Rightarrow> None)"

definition reviver :: "(string \<times> js_value) list \<Rightarrow> js_value option" where
  "reviver ms =
     (if map_of ms ''_type'' = Some (Text ''Map'') then newMap (map_of ms ''data'') else Some (Object ms))"

text \<open>\<open>JSON.parse\<close> with the reviver, from the leaves up; \<open>None\<close> when it throws.\<close>

fun revive :: "json \<Rightarrow> js_value option"
and revive_elements :: "json list \<Rightarrow> js_value list option"
and revive_members :: "(string \<times> json) list \<Rightarrow> (string \<times> js_value) list option" where
  "revive JNull = Some Null"
| "revive (JBoolean b) = Some (Boolean b)"
| "revive (JNumber s) = Some (Number (js_number s))"
| "revive (JText s) = Some (Text s)"
| "revive (JArray elements) = map_option Array (revive_elements elements)"
| "revive (JObject ms) = Option.bind (revive_members ms) reviver"
| "revive_elements [] = Some []"
| "revive_elements (j # js1) = Option.bind (revive j) (\<lambda>v. map_option (\<lambda>vs. v # vs) (revive_elements js1))"
| "revive_members [] = Some []"
| "revive_members ((k, j) # ms) = Option.bind (revive j) (\<lambda>v. map_option (\<lambda>vs. (k, v) # vs) (revive_members ms))"

section \<open>The bucket\<close>

definition BACKUP_FILE_NAME :: string where
  "BACKUP_FILE_NAME = ''store-backup-latest.json''"

text \<open>\<open>uploadToS3\<close>; a failure is logged and swallowed. Nothing is written for a value without a text.\<close>

definition uploadToS3 :: "bool \<Rightarrow> bool \<Rightarrow> js_value \<Rightarrow> string \<Rightarrow> (string \<rightharpoonup> json) \<Rightarrow> (string \<rightharpoonup> json)" where
  "uploadToS3 putFails copyFails payload destinationFileName bucket =
     (case stringify payload of
        None \<Rightarrow> bucket
      | Some body \<Rightarrow>
          if putFails then bucket
          else
            (let stored = bucket(destinationFileName \<mapsto> body)
             in if copyFails then stored else stored(BACKUP_FILE_NAME \<mapsto> body)))"

text \<open>\<open>loadStoreFromS3\<close>: it throws, or answers null, or the backup.\<close>

definition loadStoreFromS3 :: "bool \<Rightarrow> (string \<rightharpoonup> json) \<Rightarrow> js_value option option" where
  "loadStoreFromS3 requestFails bucket =
     (if requestFails then None
      else (case bucket BACKUP_FILE_NAME of
              None \<Rightarrow> Some None
            | Some body \<Rightarrow> map_option Some (revive body)))"

text \<open>\<open>getCurrentFormattedDate\<close> from year, month, day, hours and minutes, and the name of an upload.\<close>

definition padStart2 :: "nat \<Rightarrow> string" where
  "padStart2 n = (if length (digits_of n) < 2 then CHR ''0'' # digits_of n else digits_of n)"

definition backupName :: "nat \<Rightarrow> nat \<Rightarrow> nat \<Rightarrow> nat \<Rightarrow> nat \<Rightarrow> string" where
  "backupName year month day hours minutes =
     digits_of year @ ''-'' @ padStart2 day @ ''-'' @ padStart2 month @ ''-'' @ padStart2 hours @ ''-'' @ padStart2 minutes
     @ ''-store-backup''"

end
