(* ===== verification/BackupProperties.thy ===== *)
theory BackupProperties
  imports Backup
begin

text \<open>
  What comes back of a backup, with its maps, and that what is loaded is the last backup both of whose
  requests succeeded.
\<close>

section \<open>Values that survive\<close>

text \<open>
  What JSON carries of a value, said without the text: everything, but for the numbers that are not
  finite and the elements that are undefined, which are \<open>null\<close>, the members that are undefined, which
  are gone, and the dates, which are their texts.
\<close>

function (sequential) carried :: "js_value \<Rightarrow> js_value"
and carried_elements :: "js_value list \<Rightarrow> js_value list"
and carried_members :: "(string \<times> js_value) list \<Rightarrow> (string \<times> js_value) list"
and carried_entries :: "(js_value \<times> js_value) list \<Rightarrow> (js_value \<times> js_value) list" where
  "carried Undefined = Null"
| "carried Null = Null"
| "carried (Boolean b) = Boolean b"
| "carried (Number x) = (if js_finite x then Number x else Null)"
| "carried (Text s) = Text s"
| "carried (DateOf t) = Text (toISOString t)"
| "carried (Array vs) = Array (carried_elements vs)"
| "carried (Object ms) = Object (carried_members ms)"
| "carried (MapOf es) = MapOf (carried_entries es)"
| "carried_elements [] = []"
| "carried_elements (v # vs) = carried v # carried_elements vs"
| "carried_members [] = []"
| "carried_members ((k, v) # ms) = (if v = Undefined then carried_members ms else (k, carried v) # carried_members ms)"
| "carried_entries [] = []"
| "carried_entries ((k, v) # es) = (k, carried v) # carried_entries es"
  by pat_completeness auto

termination
  by (relation "measure (case_sum (case_sum size (size_list size))
      (case_sum (size_list (size_prod (\<lambda>_. 0) size)) (size_list (size_prod size size))))") auto

text \<open>
  The values it is about: numbers are doubles, keys are distinct and those of maps are texts, and no
  object would be taken for a map.
\<close>

function (sequential) plain :: "js_value \<Rightarrow> bool"
and plain_elements :: "js_value list \<Rightarrow> bool"
and plain_members :: "(string \<times> js_value) list \<Rightarrow> bool"
and plain_entries :: "(js_value \<times> js_value) list \<Rightarrow> bool" where
  "plain (Number x) = is_double x"
| "plain (Array vs) = plain_elements vs"
| "plain (Object ms) =
     (plain_members ms \<and> distinct (map fst ms) \<and> map_of (carried_members ms) ''_type'' \<noteq> Some (Text ''Map''))"
| "plain (MapOf es) = (plain_entries es \<and> distinct (map fst es))"
| "plain v = True"
| "plain_elements [] = True"
| "plain_elements (v # vs) = (plain v \<and> plain_elements vs)"
| "plain_members [] = True"
| "plain_members ((k, v) # ms) = (plain v \<and> plain_members ms)"
| "plain_entries [] = True"
| "plain_entries ((Text k, v) # es) = (plain v \<and> plain_entries es)"
| "plain_entries es = False"
  by pat_completeness auto

termination
  by (relation "measure (case_sum (case_sum size (size_list size))
      (case_sum (size_list (size_prod (\<lambda>_. 0) size)) (size_list (size_prod size size))))") auto

lemma set_all: "distinct (map fst (m @ es)) \<Longrightarrow> foldl setEntry m es = m @ es"
proof (induction es arbitrary: m)
  case (Cons e es)
  have "fst e \<notin> fst ` set m" using Cons.prems by auto
  then have "setEntry m e = m @ [e]" unfolding setEntry_def by (induction m) auto
  then show ?case using Cons.IH[of "m @ [e]"] Cons.prems by simp
qed simp

lemma carried_entries_keys [simp]: "map fst (carried_entries es) = map fst es"
  by (induction es) auto

lemma stringify_None [simp]: "stringify v = None \<longleftrightarrow> v = Undefined"
  by (cases v) auto

lemma written_back:
  "plain v \<Longrightarrow> revive (element (stringify v)) = Some (carried v)"
  "plain_elements vs \<Longrightarrow> revive_elements (stringify_elements vs) = Some (carried_elements vs)"
  "plain_members ms \<Longrightarrow> revive_members (stringify_members ms) = Some (carried_members ms)"
  "plain_entries es \<Longrightarrow> \<exists>vs. revive_elements (stringify_entries es) = Some vs \<and> pairs_of vs = Some (carried_entries es)"
proof (induction v and vs and ms and es rule: plain_plain_elements_plain_members_plain_entries.induct)
  case (4 es)
  then show ?case using set_all[of "[]" "carried_entries es"] by (auto simp: element_def reviver_def newMap_def)
qed (auto simp: js_number_string element_def reviver_def split: option.split)

text \<open>
  A backup reads back. Any value, however maps, objects and arrays are nested in it, is written by the
  uploader and revived by the loader as what JSON carries of it.
\<close>

theorem backup_reads_back:
  "plain v \<Longrightarrow> v \<noteq> Undefined \<Longrightarrow> \<exists>body. stringify v = Some body \<and> revive body = Some (carried v)"
  using written_back(1)[of v] by (cases "stringify v") (auto simp: element_def)

text \<open>
  So an infinite price or a profit that is \<open>NaN\<close> comes back as \<open>null\<close>, and the date of a resting order as
  a text.
\<close>

lemma dates_come_back_as_text: "\<exists>body. stringify (DateOf t) = Some body \<and> revive body = Some (Text (toISOString t))"
  by simp

lemma infinite_numbers_are_lost:
  "\<not> js_finite x \<Longrightarrow> \<exists>body. stringify (Object [(k, Number x)]) = Some body \<and> (k \<noteq> ''_type'' \<longrightarrow> revive body = Some (Object [(k, Null)]))"
  by (auto simp: reviver_def)

section \<open>The bucket over time\<close>

text \<open>The name of an upload is never the name the latest backup has.\<close>

lemma backupName_fresh: "backupName year month day hours minutes \<noteq> BACKUP_FILE_NAME"
proof
  assume "backupName year month day hours minutes = BACKUP_FILE_NAME"
  from arg_cong[OF this, of last] show False by (simp add: backupName_def BACKUP_FILE_NAME_def)
qed

record upload =
  up_payload :: js_value
  up_name :: string
  up_putFails :: bool
  up_copyFails :: bool

definition uploadAll :: "upload list \<Rightarrow> (string \<rightharpoonup> json) \<Rightarrow> (string \<rightharpoonup> json)" where
  "uploadAll ups bucket = foldl (\<lambda>b u. uploadToS3 (up_putFails u) (up_copyFails u) (up_payload u) (up_name u) b) bucket ups"

definition arrived :: "upload \<Rightarrow> bool" where
  "arrived u \<longleftrightarrow> \<not> up_putFails u \<and> \<not> up_copyFails u"

lemma latest_upload:
  "\<forall>u \<in> set ups. up_name u \<noteq> BACKUP_FILE_NAME \<and> up_payload u \<noteq> Undefined \<Longrightarrow>
    uploadAll ups bucket BACKUP_FILE_NAME =
      (if filter arrived ups = [] then bucket BACKUP_FILE_NAME else stringify (up_payload (last (filter arrived ups))))"
proof (induction ups rule: rev_induct)
  case (snoc u ups)
  obtain body where body: "stringify (up_payload u) = Some body" using snoc.prems by (cases "stringify (up_payload u)") auto
  have step: "uploadAll (ups @ [u]) bucket = uploadToS3 (up_putFails u) (up_copyFails u) (up_payload u) (up_name u) (uploadAll ups bucket)"
    by (simp add: uploadAll_def)
  have "uploadToS3 (up_putFails u) (up_copyFails u) (up_payload u) (up_name u) b BACKUP_FILE_NAME =
      (if arrived u then Some body else b BACKUP_FILE_NAME)" for b
    using snoc.prems by (auto simp: uploadToS3_def body arrived_def)
  then show ?case using snoc body by (auto simp: step)
qed (simp add: uploadAll_def)

text \<open>
  C27. The engine starts from its last backup. Whatever uploads failed, before the object was stored or
  between storing and copying it, the loader finds what JSON carries of the value of the last upload both
  of whose requests succeeded: dates as texts, numbers that are not finite as \<open>null\<close>, undefined members
  gone, everything else, the maps included, as it was. It finds nothing when there was none in a new
  bucket.
\<close>

theorem last_arrived_backup_is_loaded:
  assumes "\<forall>u \<in> set ups. plain (up_payload u) \<and> up_payload u \<noteq> Undefined
    \<and> (\<exists>year month day hours minutes. up_name u = backupName year month day hours minutes)"
  shows "loadStoreFromS3 False (uploadAll ups Map.empty) =
    Some (if filter arrived ups = [] then None else Some (carried (up_payload (last (filter arrived ups)))))"
proof -
  have "\<forall>u \<in> set ups. up_name u \<noteq> BACKUP_FILE_NAME \<and> up_payload u \<noteq> Undefined" using assms backupName_fresh by metis
  note latest = latest_upload[OF this, of Map.empty]
  show ?thesis
  proof (cases "filter arrived ups = []")
    case True
    then show ?thesis using latest by (simp add: loadStoreFromS3_def)
  next
    case False
    then have "last (filter arrived ups) \<in> set ups" using last_in_set by fastforce
    then obtain body where "stringify (up_payload (last (filter arrived ups))) = Some body"
      "revive body = Some (carried (up_payload (last (filter arrived ups))))" using assms backup_reads_back by blast
    then show ?thesis using latest False by (simp add: loadStoreFromS3_def)
  qed
qed

text \<open>Four uploads: the second arrives, the third is not stored, the fourth is not copied.\<close>

definition sample_backup :: js_value where
  "sample_backup = Object [(''users'', MapOf [(Text ''u'', Object [(''available'', Number (Fin 5)), (''pnL'', Undefined)])]),
     (''markPrice'', Number PInf), (''createdAt'', DateOf 0)]"

definition sample_uploads :: "upload list" where
  "sample_uploads = map (\<lambda>(v, put, copy). \<lparr>up_payload = v, up_name = backupName 2024 1 2 3 4, up_putFails = put, up_copyFails = copy\<rparr>)
     [(Null, False, False), (sample_backup, False, False), (Null, True, False), (Null, False, True)]"

lemma last_arrived_backup_is_loaded_witness:
  "loadStoreFromS3 False (uploadAll sample_uploads Map.empty) =
     Some (Some (Object [(''users'', MapOf [(Text ''u'', Object [(''available'', Number (Fin 5))])]),
       (''markPrice'', Null), (''createdAt'', Text (toISOString 0))]))"
proof -
  have "\<forall>u \<in> set sample_uploads. plain (up_payload u) \<and> up_payload u \<noteq> Undefined
    \<and> (\<exists>year month day hours minutes. up_name u = backupName year month day hours minutes)"
    using binary64_of_int[of 5] by (auto simp: sample_uploads_def sample_backup_def simp del: One_nat_def) blast+
  from last_arrived_backup_is_loaded[OF this] show ?thesis
    by (simp add: sample_uploads_def sample_backup_def arrived_def js_finite_def)
qed

end
