(* ===== verification/OrderForm.thy ===== *)
theory OrderForm
  imports Ticket Session
begin

text \<open>
  The order ticket, \<open>apps/web/components/terminal/order-form.tsx\<close>, with its number fields
  (\<open>ui/numeric-input.tsx\<close>), its leverage slider, what it says of a failure (\<open>order-payload.ts\<close>) and of an
  outcome (\<open>fill-toast.tsx\<close>). A render computes the derived values from the state and the props; the
  submission is split at the answer, before which the trader and the feed may change anything.
\<close>

section \<open>Numbers as text\<close>

text \<open>\<open>toFixed\<close>, as text.\<close>

definition fixedDigits :: "nat \<Rightarrow> nat \<Rightarrow> string" where
  "fixedDigits d n =
     (let ds = digits_of n; padded = replicate (d + 1 - length ds) (CHR ''0'') @ ds; k = length padded - d
      in if d = 0 then ds else take k padded @ ''.'' @ drop k padded)"

definition toFixed :: "nat \<Rightarrow> jsnum \<Rightarrow> string" where
  "toFixed d x =
     (case x of
        Fin r \<Rightarrow>
          (if 10 ^ 21 \<le> \<bar>r\<bar> then js_string x
           else (if r < 0 then ''-'' else []) @ fixedDigits d (nat \<lfloor>\<bar>r\<bar> * 10 ^ d + 1 / 2\<rfloor>))
      | _ \<Rightarrow> js_string x)"

definition floorTo :: "jsnum \<Rightarrow> nat \<Rightarrow> string" where
  "floorTo v decimals =
     (if \<not> js_finite v \<or> v \<le> 0 then toFixed decimals 0
      else (let scale = Fin (10 ^ decimals) in toFixed decimals (js_floor (v * scale) / scale)))"

lemma is_double_js_parse_float: "is_double (js_parse_float s)"
  by (auto simp: js_parse_float_def Let_def intro!: is_double_js_neg split: option.split)

section \<open>Number fields\<close>

definition digits_only :: "string \<Rightarrow> bool" where
  "digits_only s \<longleftrightarrow> (\<forall>c \<in> set s. is_digit c)"

text \<open>The pattern of the keystrokes: digits with at most one dot, or digits alone.\<close>

definition allowedText :: "bool \<Rightarrow> string \<Rightarrow> bool" where
  "allowedText integerOnly raw \<longleftrightarrow>
     (if integerOnly then digits_only raw
      else (let before = takeWhile is_digit raw; rest = dropWhile is_digit raw
            in rest = [] \<or> (hd rest = CHR ''.'' \<and> digits_only (tl rest))))"

text \<open>
  A keystroke: a text that is empty or matches is handed to \<open>onValueChange\<close>; any other is dropped, and
  nothing is called. \<open>handleChange\<close> is the value of a field whose \<open>onValueChange\<close> only stores it.
\<close>

definition acceptsText :: "bool \<Rightarrow> string \<Rightarrow> bool" where
  "acceptsText integerOnly raw \<longleftrightarrow> raw = [] \<or> allowedText integerOnly raw"

definition handleChange :: "bool \<Rightarrow> string \<Rightarrow> string \<Rightarrow> string" where
  "handleChange integerOnly raw old = (if raw = [] \<or> allowedText integerOnly raw then raw else old)"

definition clampTo :: "jsnum option \<Rightarrow> jsnum option \<Rightarrow> jsnum \<Rightarrow> jsnum" where
  "clampTo least greatest n =
     (case least of
        Some lo \<Rightarrow> if n < lo then lo else (case greatest of Some hi \<Rightarrow> if n > hi then hi else n | None \<Rightarrow> n)
      | None \<Rightarrow> (case greatest of Some hi \<Rightarrow> if n > hi then hi else n | None \<Rightarrow> n))"

text \<open>The digits after the dot of the step as it is printed; none when it is printed with an exponent.\<close>

definition stepDecimals :: "bool \<Rightarrow> jsnum \<Rightarrow> nat" where
  "stepDecimals integerOnly step =
     (if integerOnly then 0
      else (let s = js_string step; rest = dropWhile (\<lambda>c. c \<noteq> CHR ''.'') s
            in length (takeWhile (\<lambda>c. c \<noteq> CHR ''.'') (drop 1 rest))))"

definition nudge :: "bool \<Rightarrow> jsnum \<Rightarrow> jsnum option \<Rightarrow> jsnum option \<Rightarrow> bool \<Rightarrow> string \<Rightarrow> string" where
  "nudge integerOnly step least greatest up v =
     (let current = js_parse_float v;
          base = (if js_finite current then current else 0)
      in toFixed (stepDecimals integerOnly step) (clampTo least greatest (base + (if up then 1 else - 1) * step)))"

definition defaultStops :: "nat \<Rightarrow> nat list" where
  "defaultStops cap =
     (if cap \<le> 10 then filter (\<lambda>n. n \<le> cap) [1, 2, 5, 10]
      else if cap \<le> 20 then filter (\<lambda>n. n \<le> cap) [1, 5, 10, 15, 20]
      else [1, 10, 25, 50, cap])"

section \<open>The ticket\<close>

record ticket_props =
  tp_slug :: string
  tp_maxLeverage :: nat
  tp_sizeDecimals :: nat
  tp_lastPrice :: "jsnum option"
  tp_bestBid :: "jsnum option"
  tp_bestAsk :: "jsnum option"
  tp_price :: string
  tp_available :: "string option"

record FillEvent =
  fe_orderId :: "string option"
  fe_side :: TPositionType
  fe_status :: FillStatus
  fe_qty :: string
  fe_price :: "string option"
  fe_slug :: string
  fe_reason :: "string option"

text \<open>\<open>of_pending\<close> is the submission that waits for its answer; the toasts are those fired so far.\<close>

record order_form =
  of_side :: TPositionType
  of_orderType :: TOrderType
  of_qty :: string
  of_slippage :: string
  of_leverage :: nat
  of_confirming :: bool
  of_submitting :: bool
  of_submitError :: "string option"
  of_stalled :: "string option"
  of_pending :: "TicketDraft option"
  of_toasts :: "FillEvent list"

definition DEFAULT_LEVERAGE :: nat where
  "DEFAULT_LEVERAGE = 5"

definition openTicket :: "nat \<Rightarrow> order_form" where
  "openTicket maxLeverage =
     \<lparr>of_side = LONG, of_orderType = Limit, of_qty = [], of_slippage = ''1'', of_leverage = min DEFAULT_LEVERAGE maxLeverage,
      of_confirming = False, of_submitting = False, of_submitError = None, of_stalled = None, of_pending = None,
      of_toasts = []\<rparr>"

definition marketChanged :: "nat \<Rightarrow> order_form \<Rightarrow> order_form" where
  "marketChanged maxLeverage f = f\<lparr>of_leverage := min (of_leverage f) maxLeverage\<rparr>"

subsection \<open>What a render derives\<close>

definition balanceOf :: "ticket_props \<Rightarrow> jsnum" where
  "balanceOf p = (case tp_available p of Some a \<Rightarrow> js_parse_float a | None \<Rightarrow> 0)"

definition or_else :: "'a option \<Rightarrow> 'a option \<Rightarrow> 'a option" where
  "or_else a b = (case a of Some x \<Rightarrow> Some x | None \<Rightarrow> b)"

definition marketBasis :: "ticket_props \<Rightarrow> TPositionType \<Rightarrow> jsnum option" where
  "marketBasis p side =
     (if side = LONG then or_else (tp_bestAsk p) (or_else (tp_bestBid p) (tp_lastPrice p))
      else or_else (tp_bestBid p) (or_else (tp_bestAsk p) (tp_lastPrice p)))"

definition parsedOrZero :: "string \<Rightarrow> jsnum" where
  "parsedOrZero s = (if js_truthy (js_parse_float s) then js_parse_float s else 0)"

definition effectivePrice :: "ticket_props \<Rightarrow> order_form \<Rightarrow> jsnum" where
  "effectivePrice p f =
     (if of_orderType f = Limit then parsedOrZero (tp_price p)
      else (case marketBasis p (of_side f) of Some x \<Rightarrow> x | None \<Rightarrow> 0))"

definition quantity :: "order_form \<Rightarrow> jsnum" where
  "quantity f = parsedOrZero (of_qty f)"

definition leverageNum :: "order_form \<Rightarrow> jsnum" where
  "leverageNum f = Fin (of_nat (of_leverage f))"

definition ticketMargin :: "ticket_props \<Rightarrow> order_form \<Rightarrow> jsnum" where
  "ticketMargin p f =
     (if leverageNum f > 0 then (effectivePrice p f * quantity f) / leverageNum f else 0)"

definition ticketError :: "ticket_props \<Rightarrow> order_form \<Rightarrow> string option" where
  "ticketError p f =
     (if quantity f \<le> 0 then None
      else if ticketMargin p f > balanceOf p then Some ''Insufficient margin for this size.''
      else if of_orderType f = Limit \<and> effectivePrice p f \<le> 0 then Some ''Limit price must be above 0.''
      else if of_orderType f = Market \<and> effectivePrice p f \<le> 0 then Some ''No price for this market yet - nothing is quoted and nothing has traded.''
      else None)"

definition canSubmit :: "ticket_props \<Rightarrow> order_form \<Rightarrow> bool" where
  "canSubmit p f \<longleftrightarrow> quantity f > 0 \<and> ticketError p f = None \<and> effectivePrice p f > 0"

subsection \<open>Edits\<close>

definition clearRejection :: "order_form \<Rightarrow> order_form" where
  "clearRejection f = f\<lparr>of_submitError := None, of_stalled := None\<rparr>"

definition changeQty :: "string \<Rightarrow> order_form \<Rightarrow> order_form" where
  "changeQty next f = (clearRejection f)\<lparr>of_qty := next\<rparr>"

definition changeSide :: "TPositionType \<Rightarrow> order_form \<Rightarrow> order_form" where
  "changeSide next f = (clearRejection f)\<lparr>of_side := next\<rparr>"

definition changeOrderType :: "TOrderType \<Rightarrow> order_form \<Rightarrow> order_form" where
  "changeOrderType next f = (clearRejection f)\<lparr>of_orderType := next\<rparr>"

definition changeSlippage :: "string \<Rightarrow> order_form \<Rightarrow> order_form" where
  "changeSlippage next f = (clearRejection f)\<lparr>of_slippage := next\<rparr>"

definition changeLeverage :: "nat \<Rightarrow> order_form \<Rightarrow> order_form" where
  "changeLeverage next f = (clearRejection f)\<lparr>of_leverage := next\<rparr>"

definition setPct :: "ticket_props \<Rightarrow> nat \<Rightarrow> order_form \<Rightarrow> order_form" where
  "setPct p pct f =
     (if effectivePrice p f \<le> 0 then f
      else
        (let usable = (balanceOf p * Fin (of_nat pct)) / Fin 100
         in (clearRejection f)\<lparr>of_qty := floorTo ((usable * leverageNum f) / effectivePrice p f) (tp_sizeDecimals p)\<rparr>))"

definition askToConfirm :: "ticket_props \<Rightarrow> order_form \<Rightarrow> order_form" where
  "askToConfirm p f = (if canSubmit p f then f\<lparr>of_confirming := True\<rparr> else f)"

definition onOpenChange :: "bool \<Rightarrow> order_form \<Rightarrow> order_form" where
  "onOpenChange next f = (if of_submitting f then f else f\<lparr>of_confirming := next\<rparr>)"

subsection \<open>Submitting\<close>

definition draftOf :: "ticket_props \<Rightarrow> order_form \<Rightarrow> TicketDraft" where
  "draftOf p f =
     \<lparr>td_marketSlug = tp_slug p, td_side = of_side f, td_orderType = of_orderType f, td_price = tp_price p,
      td_slippage = of_slippage f, td_qty = of_qty f, td_margin = ticketMargin p f\<rparr>"

definition submitOrder :: "ticket_props \<Rightarrow> order_form \<Rightarrow> order_form" where
  "submitOrder p f =
     (if of_submitting f \<or> \<not> canSubmit p f then f
      else f\<lparr>of_submitting := True, of_submitError := None, of_stalled := None, of_pending := Some (draftOf p f)\<rparr>)"

text \<open>The reply: the id, the status, the filled quantity and the average price.\<close>

definition orderAnswered :: "string \<Rightarrow> TOrderStatus \<Rightarrow> string \<Rightarrow> string \<Rightarrow> order_form \<Rightarrow> order_form" where
  "orderAnswered orderId status filledQty averagePrice f =
     (case of_pending f of
        None \<Rightarrow> f
      | Some draft \<Rightarrow>
          (let outcome = outcomeFromResult status filledQty averagePrice draft
           in f\<lparr>of_confirming := False, of_qty := [], of_submitting := False, of_pending := None,
                of_toasts := of_toasts f @ [\<lparr>fe_orderId = Some orderId, fe_side = td_side draft, fe_status = oo_status outcome,
                  fe_qty = oo_qty outcome, fe_price = oo_price outcome, fe_slug = td_marketSlug draft, fe_reason = None\<rparr>]\<rparr>))"

definition followedBy :: "string \<Rightarrow> string \<Rightarrow> string" where
  "followedBy message followUp =
     (let said = trim message
      in if said = [] then followUp
         else (if last said \<in> {CHR ''.'', CHR ''!'', CHR ''?''} then said else said @ ''.'') @ '' '' @ followUp)"

definition rejectionMessage :: "ApiError \<Rightarrow> string" where
  "rejectionMessage err =
     (case ae_fieldErrors err of
        Some ((field, message) # _) \<Rightarrow>
          if message \<noteq> [] then message
          else if ae_message err \<noteq> [] then ae_message err else ''The order could not be placed.''
      | _ \<Rightarrow> if ae_message err \<noteq> [] then ae_message err else ''The order could not be placed.'')"

definition orderFailed :: "ApiError \<Rightarrow> order_form \<Rightarrow> order_form" where
  "orderFailed err f =
     (case of_pending f of
        None \<Rightarrow> f
      | Some draft \<Rightarrow>
          if isSilent err then f\<lparr>of_submitting := False, of_pending := None\<rparr>
          else
            (let unknown = isOutcomeUnknown err;
                 reason = (if unknown then followedBy (ae_message err) ''Check Open orders before placing it again.''
                           else rejectionMessage err);
                 f1 = (if unknown then f\<lparr>of_stalled := Some reason\<rparr> else f\<lparr>of_submitError := Some reason\<rparr>)
             in f1\<lparr>of_confirming := False, of_submitting := False, of_pending := None,
                   of_toasts := of_toasts f @ [\<lparr>fe_orderId = None, fe_side = td_side draft,
                     fe_status = (if unknown then UnknownToast else RejectedToast), fe_qty = td_qty draft, fe_price = None,
                     fe_slug = td_marketSlug draft, fe_reason = Some reason\<rparr>]\<rparr>))"

text \<open>The schema of the body, on values that are numbers already.\<close>

definition positive :: "jsnum \<Rightarrow> bool" where
  "positive x \<longleftrightarrow> js_finite x \<and> x > 0"

definition CreateOrderSchema :: "CreateOrderBody \<Rightarrow> bool" where
  "CreateOrderSchema b \<longleftrightarrow>
     positive (co_qty b) \<and> (case co_equity b of None \<Rightarrow> True | Some e \<Rightarrow> positive e) \<and> trim (co_market b) \<noteq> []
     \<and> (if co_orderType b = Limit then positive (co_price b) \<and> co_slippage b = 0
        else co_price b = 0 \<and> positive (co_slippage b))"

section \<open>Toasts of an order\<close>

datatype ToastIntent = NeutralIntent | InfoIntent | SuccessIntent | WarningIntent | DangerIntent

datatype BadgeIntent = NeutralBadge | WarningBadge | DangerBadge | OutlineBadge

fun STATUS_LABEL :: "FillStatus \<Rightarrow> string" where
  "STATUS_LABEL FilledToast = ''Filled''"
| "STATUS_LABEL PartialToast = ''Partially filled''"
| "STATUS_LABEL RestingToast = ''Order placed''"
| "STATUS_LABEL RejectedToast = ''Rejected''"
| "STATUS_LABEL UnknownToast = ''Not confirmed''"
| "STATUS_LABEL CancelledToast = ''Cancelled''"
| "STATUS_LABEL LiquidatedToast = ''Liquidated''"

fun STATUS_BADGE :: "FillStatus \<Rightarrow> BadgeIntent" where
  "STATUS_BADGE FilledToast = NeutralBadge"
| "STATUS_BADGE PartialToast = WarningBadge"
| "STATUS_BADGE LiquidatedToast = DangerBadge"
| "STATUS_BADGE RestingToast = OutlineBadge"
| "STATUS_BADGE RejectedToast = DangerBadge"
| "STATUS_BADGE UnknownToast = WarningBadge"
| "STATUS_BADGE CancelledToast = OutlineBadge"

fun STATUS_INTENT :: "FillStatus \<Rightarrow> ToastIntent" where
  "STATUS_INTENT RejectedToast = DangerIntent"
| "STATUS_INTENT UnknownToast = WarningIntent"
| "STATUS_INTENT LiquidatedToast = DangerIntent"
| "STATUS_INTENT s = NeutralIntent"

text \<open>The words and figures of a toast, without their layout; \<open>to_action\<close> is the label of its button.\<close>

record ToastOptions =
  to_intent :: ToastIntent
  to_hideIcon :: bool
  to_duration :: nat
  to_badge :: "BadgeIntent \<times> string"
  to_side :: TPositionType
  to_slug :: string
  to_qty :: string
  to_price :: "string option"
  to_reason :: "string option"
  to_orderId :: "string option"
  to_action :: "string option"

definition fillToastOptions :: "FillEvent \<Rightarrow> bool \<Rightarrow> ToastOptions" where
  "fillToastOptions fill onView =
     (let status = fe_status fill;
          isUnresolved = (status = RejectedToast \<or> status = UnknownToast);
          isAlarming = (isUnresolved \<or> status = LiquidatedToast)
      in \<lparr>to_intent = STATUS_INTENT status, to_hideIcon = (\<not> isAlarming), to_duration = (if isAlarming then 8000 else 6000),
          to_badge = (STATUS_BADGE status, STATUS_LABEL status), to_side = fe_side fill, to_slug = fe_slug fill,
          to_qty = fe_qty fill, to_price = (if isUnresolved then None else fe_price fill),
          to_reason = (case fe_reason fill of Some r \<Rightarrow> if r = [] then None else Some r | None \<Rightarrow> None),
          to_orderId = (case fe_orderId fill of Some i \<Rightarrow> if i = [] then None else Some i | None \<Rightarrow> None),
          to_action = (if onView then Some (if isUnresolved then ''View order'' else ''View position'') else None)\<rparr>)"

section \<open>The ticket over time\<close>

datatype ticket_event =
    Edit "order_form \<Rightarrow> order_form"
  | PropsChange ticket_props
  | PriceTyped string
  | PriceStepped jsnum bool
  | SliderChange nat
  | StopButton nat
  | PercentButton nat
  | BuyButton
  | DialogChange bool
  | ConfirmButton
  | OrderAnswer string TOrderStatus string string
  | OrderError ApiError

text \<open>
  What the trader edits through a field or the segmented controls. The field of the limit price is shown
  for a limit order only: an edit of it clears the rejection and sets the price the terminal holds
  (\<open>PriceTyped\<close>, \<open>PriceStepped\<close> with the tick size); a \<open>PropsChange\<close> is what else changes the props, the
  feed, another market, a click on the book.
\<close>

inductive edit :: "(order_form \<Rightarrow> order_form) \<Rightarrow> bool" where
  "edit (\<lambda>f. if acceptsText False raw then changeQty raw f else f)"
| "edit (\<lambda>f. changeQty (nudge False step (Some 0) None up (of_qty f)) f)"
| "edit (changeSide side)"
| "edit (changeOrderType orderType)"
| "edit (\<lambda>f. if acceptsText True raw then changeSlippage raw f else f)"
| "edit (\<lambda>f. changeSlippage (nudge True 1 (Some 1) None up (of_slippage f)) f)"

definition ticketStep :: "ticket_event \<Rightarrow> ticket_props \<times> order_form \<Rightarrow> ticket_props \<times> order_form" where
  "ticketStep e s =
     (case s of (p, f) \<Rightarrow>
        (case e of
           Edit g \<Rightarrow> (p, g f)
         | PropsChange p' \<Rightarrow> (p', marketChanged (tp_maxLeverage p') f)
         | PriceTyped raw \<Rightarrow>
             if of_orderType f = Limit \<and> acceptsText False raw then (p\<lparr>tp_price := raw\<rparr>, clearRejection f) else (p, f)
         | PriceStepped tickSize up \<Rightarrow>
             if of_orderType f = Limit
             then (p\<lparr>tp_price := nudge False tickSize (Some 0) None up (tp_price p)\<rparr>, clearRejection f) else (p, f)
         | SliderChange n \<Rightarrow> (p, if 1 \<le> n \<and> n \<le> tp_maxLeverage p then changeLeverage n f else f)
         | StopButton n \<Rightarrow> (p, if n \<in> set (defaultStops (tp_maxLeverage p)) then changeLeverage n f else f)
         | PercentButton pct \<Rightarrow> (p, setPct p pct f)
         | BuyButton \<Rightarrow> (p, askToConfirm p f)
         | DialogChange isOpen \<Rightarrow> (p, onOpenChange isOpen f)
         | ConfirmButton \<Rightarrow> (p, if of_confirming f then submitOrder p f else f)
         | OrderAnswer orderId status filledQty averagePrice \<Rightarrow> (p, orderAnswered orderId status filledQty averagePrice f)
         | OrderError err \<Rightarrow> (p, orderFailed err f)))"

text \<open>The ticket after some events, with the submissions made and the props they were made under.\<close>

inductive ticket_run :: "ticket_props \<times> order_form \<Rightarrow> (ticket_props \<times> TicketDraft) list \<Rightarrow> bool" where
  opened: "ticket_run (p, openTicket (tp_maxLeverage p)) []"
| event: "ticket_run s sent \<Longrightarrow> (case e of Edit g \<Rightarrow> edit g | _ \<Rightarrow> True) \<Longrightarrow> s' = ticketStep e s \<Longrightarrow>
    sent' = (if of_pending (snd s) = None \<and> of_pending (snd s') \<noteq> None then sent @ [(fst s', the (of_pending (snd s')))] else sent) \<Longrightarrow>
    ticket_run s' sent'"

end
