(* ===== verification/OrderFormProperties.thy ===== *)
theory OrderFormProperties
  imports OrderForm Ticket
begin

text \<open>
  The ticket sends one order at a time, and only orders its own checks pass, which the schema of the API
  accepts; and three ways in which an order the ticket offers is not one the exchange takes.
\<close>

section \<open>One submission at a time\<close>

lemmas edits = clearRejection_def changeQty_def changeSide_def changeOrderType_def changeSlippage_def changeLeverage_def

text \<open>What no edit touches.\<close>

definition untouched :: "order_form \<Rightarrow> order_form \<Rightarrow> bool" where
  "untouched f f' \<longleftrightarrow> of_submitting f' = of_submitting f \<and> of_pending f' = of_pending f \<and> of_toasts f' = of_toasts f
     \<and> of_confirming f' = of_confirming f
     \<and> (of_submitError f' = None \<and> of_stalled f' = None \<or> of_submitError f' = of_submitError f \<and> of_stalled f' = of_stalled f)"

lemma edit_untouched: "edit g \<Longrightarrow> untouched f (g f)"
  by (induction rule: edit.induct) (simp_all add: untouched_def edits)

lemma other_untouched:
  "untouched f (clearRejection f)" "untouched f (changeLeverage n f)" "untouched f (setPct p pct f)" "untouched f (marketChanged n f)" "untouched f f"
  by (simp_all add: untouched_def edits setPct_def marketChanged_def Let_def)

definition form_ok :: "order_form \<Rightarrow> (ticket_props \<times> TicketDraft) list \<Rightarrow> bool" where
  "form_ok f sent \<longleftrightarrow>
     of_submitting f = (of_pending f \<noteq> None) \<and> (of_submitting f \<longrightarrow> of_confirming f)
     \<and> (of_submitError f = None \<or> of_stalled f = None) \<and> (of_submitting f \<longrightarrow> of_submitError f = None \<and> of_stalled f = None)
     \<and> (of_pending f \<noteq> None \<longrightarrow> sent \<noteq> [] \<and> of_pending f = Some (snd (last sent)))
     \<and> length (of_toasts f) + (if of_submitting f then 1 else 0) \<le> length sent
     \<and> (\<forall>(p, d) \<in> set sent. \<exists>g. canSubmit p g \<and> d = draftOf p g)"

lemma form_ok_untouched: "untouched f f' \<Longrightarrow> form_ok f sent \<Longrightarrow> form_ok f' sent"
  by (auto simp: form_ok_def untouched_def)

lemma form_ok_submit:
  assumes "form_ok f sent"
  shows "form_ok (submitOrder p f)
    (if of_pending f = None \<and> of_pending (submitOrder p f) \<noteq> None then sent @ [(p, the (of_pending (submitOrder p f)))] else sent)
    \<or> \<not> of_confirming f"
  using assms by (auto simp: form_ok_def submitOrder_def)

lemma form_ok_answer:
  assumes "form_ok f sent"
  shows "form_ok (orderAnswered orderId status filledQty averagePrice f) sent" "form_ok (orderFailed err f) sent"
  using assms by (auto simp: form_ok_def orderAnswered_def orderFailed_def Let_def split: option.split)

lemma answers_do_not_send:
  "of_pending f = None \<Longrightarrow> of_pending (orderAnswered orderId status filledQty averagePrice f) = None"
  "of_pending f = None \<Longrightarrow> of_pending (orderFailed err f) = None"
  by (simp_all add: orderAnswered_def orderFailed_def)

lemma run_ok: "ticket_run s sent \<Longrightarrow> form_ok (snd s) sent"
proof (induction rule: ticket_run.induct)
  case (opened p)
  then show ?case by (simp add: form_ok_def openTicket_def)
next
  case (event s sent e s' sent')
  obtain p f where s: "s = (p, f)" by fastforce
  have ok: "form_ok f sent" using event.IH s by simp
  have quiet: "form_ok (snd s') sent'" if "untouched f (snd s')"
    using form_ok_untouched[OF that ok] that event.hyps(4) s by (auto simp: untouched_def)
  show ?case
  proof (cases e)
    case (ConfirmButton)
    then show ?thesis using ok form_ok_submit[OF ok, of p] event.hyps(3,4) s by (auto simp: ticketStep_def)
  next
    case (OrderAnswer a b c d)
    then have "s' = (p, orderAnswered a b c d f)" using event.hyps(3) s by (simp add: ticketStep_def)
    then show ?thesis using form_ok_answer(1)[OF ok] answers_do_not_send(1)[of f] event.hyps(4) s by auto
  next
    case (OrderError err)
    then have "s' = (p, orderFailed err f)" using event.hyps(3) s by (simp add: ticketStep_def)
    then show ?thesis using form_ok_answer(2)[OF ok] answers_do_not_send(2)[of f] event.hyps(4) s by auto
  next
    case (BuyButton)
    then show ?thesis using ok event.hyps(3,4) s by (auto simp: ticketStep_def askToConfirm_def form_ok_def)
  next
    case (DialogChange b)
    then show ?thesis using ok event.hyps(3,4) s by (auto simp: ticketStep_def onOpenChange_def form_ok_def)
  next
    case (Edit g)
    then show ?thesis using quiet edit_untouched event.hyps(2,3) s by (simp add: ticketStep_def)
  qed (use quiet other_untouched event.hyps(3) s in \<open>simp_all add: ticketStep_def split: if_splits\<close>)
qed

section \<open>A ticket that is filled in and sent\<close>

lemma parse_one: "js_parse_float ''1'' = Fin 1"
  using js_parse_float_literal[of "CHR ''1''" "[]" 1]
  by (simp add: js_unsigned_def is_digit_def nat_of_digits_def digit_val_def)

definition plain_props :: ticket_props where
  "plain_props = \<lparr>tp_slug = ''M'', tp_maxLeverage = 1, tp_sizeDecimals = 2, tp_lastPrice = None, tp_bestBid = None,
     tp_bestAsk = None, tp_price = ''1'', tp_available = Some ''1''\<rparr>"

text \<open>The trader types a quantity, asks for the confirmation and confirms.\<close>

definition plain_form :: order_form where
  "plain_form = changeQty ''1'' (openTicket 1)"

definition plain_draft :: TicketDraft where
  "plain_draft = draftOf plain_props plain_form"

definition plain_sent :: order_form where
  "plain_sent = plain_form\<lparr>of_confirming := True, of_submitting := True, of_submitError := None, of_stalled := None,
     of_pending := Some plain_draft\<rparr>"

lemma plain_draft_fields: "td_margin plain_draft = Fin 1" "td_qty plain_draft = ''1''"
  by (simp_all add: plain_draft_def draftOf_def ticketMargin_def quantity_def parsedOrZero_def effectivePrice_def
      plain_form_def edits openTicket_def plain_props_def leverageNum_def DEFAULT_LEVERAGE_def parse_one)

lemma plain_run: "ticket_run (plain_props, plain_sent) [(plain_props, plain_draft)]"
proof -
  let ?f = "\<lambda>f. if acceptsText False ''1'' then changeQty ''1'' f else f"
  have fields: "of_pending plain_form = None" "\<not> of_submitting plain_form" by (simp_all add: plain_form_def edits openTicket_def)
  have can: "canSubmit plain_props plain_form"
    by (simp add: ticketMargin_def canSubmit_def ticketError_def quantity_def parsedOrZero_def effectivePrice_def balanceOf_def
        plain_form_def edits openTicket_def plain_props_def leverageNum_def DEFAULT_LEVERAGE_def parse_one)
  have "canSubmit p (f\<lparr>of_confirming := b\<rparr>) = canSubmit p f" "draftOf p (f\<lparr>of_confirming := b\<rparr>) = draftOf p f" for p f b
    by (simp_all add: canSubmit_def ticketError_def quantity_def ticketMargin_def effectivePrice_def leverageNum_def draftOf_def)
  then have same: "canSubmit plain_props (plain_form\<lparr>of_confirming := True\<rparr>)"
    "draftOf plain_props (plain_form\<lparr>of_confirming := True\<rparr>) = plain_draft"
    using can by (simp_all add: plain_draft_def)
  have s1: "ticketStep (Edit ?f) (plain_props, openTicket 1) = (plain_props, plain_form)"
    by (simp add: ticketStep_def plain_form_def acceptsText_def allowedText_def is_digit_def)
  have s2: "ticketStep BuyButton (plain_props, plain_form) = (plain_props, plain_form\<lparr>of_confirming := True\<rparr>)"
    by (simp add: ticketStep_def askToConfirm_def can)
  have s3: "ticketStep ConfirmButton (plain_props, plain_form\<lparr>of_confirming := True\<rparr>) = (plain_props, plain_sent)"
    using fields by (simp add: ticketStep_def submitOrder_def same plain_sent_def)
  have "ticket_run (plain_props, openTicket 1) []" using ticket_run.opened[of plain_props] by (simp add: plain_props_def)
  then have "ticket_run (plain_props, plain_form) []"
    using edit.intros(1)[of "''1''"] fields by (intro ticket_run.event[OF _ _ s1[symmetric]]) simp_all
  then have "ticket_run (plain_props, plain_form\<lparr>of_confirming := True\<rparr>) []"
    using fields by (intro ticket_run.event[OF _ _ s2[symmetric]]) simp_all
  then show ?thesis using fields by (intro ticket_run.event[OF _ _ s3[symmetric]]) (simp_all add: plain_sent_def)
qed

section \<open>One at a time\<close>

text \<open>
  C25. One order at a time. Whatever the trader and the feed do while a submission waits for its answer,
  no second one is made, the dialog stays, and the pending one is the last that was sent; every order
  sent passed the checks of the ticket with the props of that moment; no more outcomes are shown than
  orders were sent; and a refusal and a silence are never shown together.
\<close>

theorem ticket_sends_one_order_at_a_time:
  assumes "ticket_run (p, f) sent"
  shows "(of_submitting f \<longleftrightarrow> of_pending f \<noteq> None) \<and> (of_submitting f \<longrightarrow> of_confirming f)
    \<and> (of_submitting f \<longrightarrow> submitOrder p' f = f \<and> of_pending f = Some (snd (last sent)))
    \<and> (\<forall>(q, d) \<in> set sent. \<exists>g. canSubmit q g \<and> d = draftOf q g)
    \<and> length (of_toasts f) + (if of_submitting f then 1 else 0) \<le> length sent
    \<and> (of_submitError f = None \<or> of_stalled f = None)"
  using run_ok[OF assms] by (auto simp: form_ok_def submitOrder_def)

lemma ticket_sends_one_order_at_a_time_witness:
  "ticket_run (plain_props, plain_sent) [(plain_props, plain_draft)] \<and> of_submitting plain_sent \<and> of_confirming plain_sent
    \<and> ticketStep ConfirmButton (plain_props, plain_sent) = (plain_props, plain_sent)
    \<and> (\<exists>g. canSubmit plain_props g \<and> plain_draft = draftOf plain_props g)"
  using ticket_sends_one_order_at_a_time[OF plain_run, of plain_props] plain_run
  by (auto simp: ticketStep_def plain_sent_def)

section \<open>What is sent is accepted by the schema\<close>

lemma binary64_powi: "- 1074 \<le> k \<Longrightarrow> binary64 (2 powi k)"
  using round64_exact[of 1 k] by (simp add: binary64_def)

lemma js_between:
  assumes "a \<le> r" "r \<le> b" "binary64 a" "binary64 b" "\<bar>a\<bar> < 2 ^ 1024" "\<bar>b\<bar> < 2 ^ 1024"
  shows "\<exists>z. js r = Fin z \<and> a \<le> z \<and> z \<le> b"
proof -
  have "a \<le> round64 r" "round64 r \<le> b"
    using assms b64.rnd_le_fixed[of b r] b64.rnd_ge_fixed[of a r] by (auto simp: binary64_def)
  with assms(5,6) show ?thesis by (auto simp: js_def Let_def)
qed

lemma powers: "(2::rat) powi 927 = 2 ^ 927" "(2::rat) powi (- 30) = 1 / 2 ^ 30" "(2::rat) ^ 927 < 2 ^ 1024"
  using power_strict_increasing[of 927 1024 "2::rat"] by (simp_all add: power_int_minus inverse_eq_divide)

lemma rounded_margin_positive:
  assumes "is_double (Fin m)" "0 < m" "m \<le> 2 ^ 900"
  shows "positive (roundMarginUp (Fin m))"
proof -
  have big: "binary64 (2 ^ 927)" "\<bar>(2::rat) ^ 927\<bar> < 2 ^ 1024" using binary64_powi[of 927] powers by simp_all
  have less: "\<bar>m\<bar> < 2 ^ 1024" using assms(1) by simp
  have "m * 100000000 \<le> 2 ^ 900 * 2 ^ 27" using assms(3) by (intro mult_mono) auto
  then have u: "m * 100000000 \<le> 2 ^ 927" by (simp only: power_add[symmetric] numeral_plus_numeral add_num_simps)
  have "m \<le> m * 100000000" using assms(2) by simp
  then obtain z where z: "js (m * 100000000) = Fin z" "m \<le> z" "z \<le> 2 ^ 927"
    using js_between[OF _ u _ big(1) less big(2)] assms(1) by auto
  have c: "1 \<le> \<lceil>z\<rceil>" using z(2) assms(2) by linarith
  have "\<lceil>z\<rceil> \<le> 2 ^ 927" using z(3) by (simp add: ceiling_le_iff)
  then have "(of_int \<lceil>z\<rceil> :: rat) \<le> of_int (2 ^ 927)" by (simp only: of_int_le_iff)
  then have "(of_int \<lceil>z\<rceil> :: rat) / 100000000 \<le> 2 ^ 927 / 1" by (intro frac_le) auto
  moreover have "(1::rat) / 2 ^ 30 \<le> of_int \<lceil>z\<rceil> / 100000000" using c by (intro frac_le) auto
  ultimately obtain y where y: "js (of_int \<lceil>z\<rceil> / 100000000) = Fin y" "1 / 2 ^ 30 \<le> y"
    using js_between[of "1 / 2 ^ 30" "of_int \<lceil>z\<rceil> / 100000000" "2 ^ 927"] big binary64_powi[of "- 30"] powers by auto
  have "0 < y" using y(2) by (rule less_le_trans[rotated]) simp
  with y(1) show ?thesis using assms(2) by (simp add: positive_def roundMarginUp_def z(1) js_ceil_def)
qed

lemma whole_percent_positive: "positive (toWholePercent s)"
proof (cases "js_parse_float s")
  case (Fin r)
  then show ?thesis by (auto simp: toWholePercent_def positive_def js_round_def js_max_def)
qed (auto simp: toWholePercent_def positive_def js_finite_def)

lemma sendable_parts:
  assumes "canSubmit p g" "js_finite (balanceOf p)" "0 < ticketMargin p g"
  shows "positive (quantity g)" "positive (effectivePrice p g)" "\<exists>m. ticketMargin p g = Fin m \<and> Fin m \<le> balanceOf p \<and> 0 < m \<and> is_double (Fin m)"
proof -
  obtain b where b: "balanceOf p = Fin b" using assms(2) by (elim js_finiteE)
  have q: "quantity g > 0" "effectivePrice p g > 0" using assms(1) by (auto simp: canSubmit_def)
  then have "\<not> quantity g \<le> 0" using js_less_le_trans js_less_irrefl by blast
  then have le: "\<not> ticketMargin p g > balanceOf p" using assms(1) by (auto simp: canSubmit_def ticketError_def split: if_splits)
  obtain n where lev: "leverageNum g = Fin n" "0 < n" using assms(3) by (auto simp: ticketMargin_def leverageNum_def split: if_splits)
  have m: "ticketMargin p g = (effectivePrice p g * quantity g) / Fin n" using lev by (simp add: ticketMargin_def)
  obtain x where x: "ticketMargin p g = Fin x" using le assms(3) b by (cases "ticketMargin p g") auto
  show "\<exists>m. ticketMargin p g = Fin m \<and> Fin m \<le> balanceOf p \<and> 0 < m \<and> is_double (Fin m)"
  proof -
    obtain y where "effectivePrice p g * quantity g = Fin y"
      using x m lev(2) by (cases "effectivePrice p g * quantity g") (auto simp: divide_jsnum_def signed_inf_def)
    then have "js (y / n) = Fin x" using x m lev(2) by simp
    then have "is_double (Fin x)" using is_double_js[of "y / n"] by metis
    then show ?thesis using x le assms(3) b by auto
  qed
  show "positive (quantity g)" "positive (effectivePrice p g)"
    using q x m lev(2) by (cases "quantity g"; cases "effectivePrice p g";
      auto simp: positive_def times_jsnum_def divide_jsnum_def signed_inf_def split: if_splits)+
qed

text \<open>
  C26. What the ticket sends is what it showed, and the API accepts it. The body of every order sent names
  the market, the side and the quantity of the ticket, with the margin it showed, which its checks found
  covered by the balance, rounded up to eight decimals (the rounded amount itself need not be covered); a
  limit order has its price and no slippage, a market order at least one percent and no price; and it
  passes the schema of the API, if the market has a name, the balance is at most two to the power 900 and
  the margin shown is above zero: a margin so small that it is rounded to zero gives an equity of zero,
  which the schema refuses.
\<close>

theorem sent_orders_fit_the_schema:
  assumes "ticket_run s sent" "(p, d) \<in> set sent"
    and "js_finite (balanceOf p)" "balanceOf p \<le> Fin (2 ^ 900)" "0 < td_margin d" "trim (tp_slug p) \<noteq> []"
  shows "CreateOrderSchema (buildOrderPayload d) \<and> co_market (buildOrderPayload d) = tp_slug p
    \<and> co_type (buildOrderPayload d) = td_side d \<and> co_qty (buildOrderPayload d) = js_parse_float (td_qty d)
    \<and> co_equity (buildOrderPayload d) = Some (roundMarginUp (td_margin d)) \<and> td_margin d \<le> balanceOf p"
proof -
  obtain g where g: "canSubmit p g" "d = draftOf p g"
    using run_ok[OF assms(1)] assms(2) by (auto simp: form_ok_def)
  have "0 < ticketMargin p g" using assms(5) g(2) by (simp add: draftOf_def)
  note parts = sendable_parts[OF g(1) assms(3) this]
  obtain m where m: "ticketMargin p g = Fin m" "Fin m \<le> balanceOf p" "0 < m" "is_double (Fin m)" using parts(3) by blast
  have "m \<le> 2 ^ 900" using js_le_trans[OF m(2) assms(4)] by simp
  then have "positive (roundMarginUp (td_margin d))" using rounded_margin_positive[of m] m g(2) by (simp add: draftOf_def)
  moreover have "positive (js_parse_float (of_qty g))"
    using parts(1) by (auto simp: quantity_def parsedOrZero_def positive_def split: if_splits)
  moreover have "of_orderType g = Limit \<Longrightarrow> positive (js_parse_float (tp_price p))"
    using parts(2) by (auto simp: effectivePrice_def parsedOrZero_def positive_def split: if_splits)
  ultimately show ?thesis using m assms(6) g(2) whole_percent_positive
    by (auto simp: CreateOrderSchema_def buildOrderPayload_def Let_def draftOf_def)
qed

lemma sent_orders_fit_the_schema_witness:
  "\<exists>s d. ticket_run s [(plain_props, d)] \<and> td_margin d = Fin 1 \<and> CreateOrderSchema (buildOrderPayload d)
    \<and> co_qty (buildOrderPayload d) = Fin 1"
proof -
  have "trim ''M'' = ''M''" by (simp add: trim_def is_space_def)
  then have "CreateOrderSchema (buildOrderPayload plain_draft) \<and> co_qty (buildOrderPayload plain_draft) = js_parse_float (td_qty plain_draft)"
    using sent_orders_fit_the_schema[OF plain_run, of plain_props plain_draft] plain_draft_fields
    by (simp add: balanceOf_def plain_props_def parse_one js_finite_def)
  then show ?thesis using plain_run plain_draft_fields parse_one by auto
qed

section \<open>Orders the ticket offers and the exchange does not take\<close>

text \<open>
  Up to a cap of 20 every stop of the slider is within it. Between 21 and 49, as for SOL with its 30,
  the stop at 50 is not, and pressing it asks for a leverage the engine refuses.
\<close>

lemma stops_within_cap: "cap \<le> 20 \<Longrightarrow> n \<in> set (defaultStops cap) \<Longrightarrow> 1 \<le> n \<and> n \<le> cap"
  by (auto simp: defaultStops_def split: if_splits)

theorem stop_beyond_the_cap:
  assumes "20 < tp_maxLeverage p" "tp_maxLeverage p < 50"
  shows "of_leverage (snd (ticketStep (StopButton 50) (p, f))) = 50 \<and> tp_maxLeverage p < 50"
  using assms by (simp add: ticketStep_def defaultStops_def changeLeverage_def clearRejection_def)

text \<open>
  A market buy at the leverage of the cap is refused, whatever the size of the account. The ticket takes
  the margin from the best ask, the engine the leverage from the best ask and the slippage on top of
  it. On a market with a cap of three, as ETH, the ticket opens at three.
\<close>

lemma one_percent:
  assumes "1 \<le> k" "k \<le> (10 ^ 7 :: nat)"
  shows "\<exists>e. Fin (3 * of_nat k) + Fin 1 * js_0_01 * Fin (3 * of_nat k) = Fin e \<and> 193 / 64 * of_nat k \<le> e \<and> e \<le> 4 * of_nat k
    \<and> js e = Fin e"
proof -
  let ?h = "5764607523034235 / 2 ^ 59 :: rat" and ?K = "of_nat k :: rat"
  have k: "1 \<le> ?K" "?K \<le> 10 ^ 7" using assms of_nat_mono[OF assms(2), where ?'a = rat] by simp_all
  have i: "binary64 (of_int (int k * c) / 2 ^ 6)" if "\<bar>c\<bar> \<le> 256" for c
  proof -
    have "\<bar>int k * c\<bar> \<le> 10 ^ 7 * 256" unfolding abs_mult using assms that by (intro mult_mono) auto
    then show ?thesis using round64_exact[of "int k * c" "- 6"] by (simp add: binary64_def power_int_minus inverse_eq_divide)
  qed
  have b: "binary64 (?K / 64)" "binary64 (193 / 64 * ?K)" "binary64 (4 * ?K)" "binary64 ?K"
    using i[of 1] i[of 193] i[of 256] i[of 64] by (simp_all add: field_simps)
  have "(10 ^ 9 :: rat) < 2 ^ 1024" using power_strict_increasing[of 53 1024 "2::rat"] by simp
  then have small: "\<bar>x\<bar> < 2 ^ 1024" if "0 \<le> x" "x \<le> 4 * ?K" for x using that k(2) by simp
  have zb: "?K / 64 \<le> ?h * (3 * ?K)" "?h * (3 * ?K) \<le> ?K" using k(1) by (simp_all add: field_simps)
  obtain z where z: "js (?h * (3 * ?K)) = Fin z" "?K / 64 \<le> z" "z \<le> ?K"
    using js_between[OF zb b(1,4)] small[of "?K / 64"] small[of ?K] k by auto
  obtain e where e: "js (3 * ?K + z) = Fin e" "193 / 64 * ?K \<le> e" "e \<le> 4 * ?K"
    using js_between[of "193 / 64 * ?K" "3 * ?K + z" "4 * ?K"] b z small[of "193 / 64 * ?K"] small[of "4 * ?K"] k by auto
  have "js ?h = Fin ?h" using js_hundredth is_double_js js_is_double by metis
  then have "Fin 1 * js_0_01 = Fin ?h" by (simp only: js_0_01_def js_hundredth js_arith_simps mult_1)
  then have "Fin (3 * ?K) + Fin 1 * js_0_01 * Fin (3 * ?K) = Fin e" by (simp only: js_arith_simps z(1) e(1))
  moreover have "js e = Fin e" using e(1) is_double_js js_is_double by metis
  ultimately show ?thesis using e(2,3) by blast
qed

definition eth_buy :: "nat \<Rightarrow> string \<Rightarrow> ticket_props" where
  "eth_buy k free =
     \<lparr>tp_slug = ''ETH-USD'', tp_maxLeverage = 3, tp_sizeDecimals = 3, tp_lastPrice = None, tp_bestBid = None,
      tp_bestAsk = Some (Fin (3 * of_nat k)), tp_price = [], tp_available = Some free\<rparr>"

definition eth_ticket :: order_form where
  "eth_ticket = changeQty ''1'' (changeOrderType Market (openTicket 3))"

lemma eth_margin:
  assumes "1 \<le> k" "k \<le> (10 ^ 7 :: nat)"
  shows "ticketMargin (eth_buy k free) eth_ticket = Fin (of_nat k)" "roundMarginUp (Fin (of_nat k)) = Fin (of_nat k)"
proof -
  have "js (of_int (int n)) = Fin (of_nat n)" if "n \<le> 2 ^ 53" for n using js_of_int[of "int n"] that by simp
  then have j: "js (of_nat n) = Fin (of_nat n)" if "n \<le> 2 ^ 53" for n using that by simp
  have "3 * (of_nat k :: rat) = of_nat (3 * k)" "of_nat k * 100000000 = (of_nat (k * 100000000) :: rat)" by simp_all
  then have "js (3 * of_nat k) = Fin (3 * of_nat k)" "js (of_nat k * 100000000) = Fin (of_nat k * 100000000)" "js (of_nat k) = Fin (of_nat k)"
    using j[of "3 * k"] j[of "k * 100000000"] j[of k] assms(2) by simp_all
  then show "ticketMargin (eth_buy k free) eth_ticket = Fin (of_nat k)" "roundMarginUp (Fin (of_nat k)) = Fin (of_nat k)"
    using assms(1) by (simp_all add: ticketMargin_def leverageNum_def eth_ticket_def eth_buy_def edits openTicket_def DEFAULT_LEVERAGE_def
        effectivePrice_def marketBasis_def or_else_def quantity_def parsedOrZero_def parse_one roundMarginUp_def js_finite_def js_ceil_def)
qed

theorem market_buy_at_the_cap_is_refused:
  assumes "1 \<le> k" "k \<le> (10 ^ 7 :: nat)" "js_parse_float free = Fin x" "of_nat k \<le> x"
    and "map_of (orderbooks s) m = Some ob" "allowedLeverage ob = Fin 3" "getNextBestAskPrice (asks ob) ask_start = Some (Fin (3 * of_nat k))"
    and "getUserById (users s) u = Some user" "getUserMarketPosition (u_positions user) m = None"
    and "available (u_collateral user) = Fin x"
  shows "canSubmit (eth_buy k free) eth_ticket"
    and "checkOrder (orderRow orderId u m created (buildOrderPayload (draftOf (eth_buy k free) eth_ticket))) s = Inl ''Leverage not supported''"
proof -
  let ?K = "of_nat k :: rat"
  define row where "row = orderRow orderId u m created (buildOrderPayload (draftOf (eth_buy k free) eth_ticket))"
  have percent: "toWholePercent ''1'' = Fin 1"
    by (simp add: toWholePercent_def parse_one js_finite_def js_round_def js_max_def)
  note margin = eth_margin[OF assms(1,2)]
  have fields: "of_orderType eth_ticket = Market" "of_side eth_ticket = LONG" "of_qty eth_ticket = ''1''" "of_slippage eth_ticket = ''1''"
    "balanceOf (eth_buy k free) = Fin x" "quantity eth_ticket = Fin 1" "effectivePrice (eth_buy k free) eth_ticket = Fin (3 * ?K)"
    using assms(3) by (simp_all add: eth_ticket_def edits openTicket_def balanceOf_def eth_buy_def quantity_def parsedOrZero_def parse_one
        effectivePrice_def marketBasis_def or_else_def)
  show "canSubmit (eth_buy k free) eth_ticket"
    using assms(1,4) margin(1) fields by (simp add: canSubmit_def ticketError_def)
  have row: "r_marketId row = m" "r_userId row = u" "r_orderType row = Market" "r_positionType row = LONG" "r_slippage row = Fin 1"
      "r_price row = js_string (Fin 0)" "r_qty row = js_string (Fin 1)" "r_initialMargin row = js_string (Fin ?K)"
    using assms(1) fields margin
    by (simp_all add: row_def orderRow_def buildOrderPayload_def Let_def draftOf_def percent parse_one)
  have "js ?K = Fin ?K" using js_of_int[of "int k"] assms(2) by simp
  then have "is_double (Fin ?K)" using is_double_js by metis
  moreover have "is_double (Fin 1)" "is_double (Fin 0)" using is_double_js[of 1] is_double_js[of 0] by simp_all
  ultimately have n: "n_qty (normalizeOrder row) = Fin 1" "n_initialMargin (normalizeOrder row) = Fin ?K"
    using row js_number_string by (simp_all add: normalizeOrder_def)
  obtain e where e: "Fin (3 * ?K) + Fin 1 * js_0_01 * Fin (3 * ?K) = Fin e" "193 / 64 * ?K \<le> e" "e \<le> 4 * ?K" and ed: "js e = Fin e"
    using one_percent[OF assms(1,2)] by blast
  have entry: "entryPrice row (n_price (normalizeOrder row)) ob = Some (Fin e)"
    using assms(1,7) row e(1) by (simp add: entryPrice_def Let_def)
  have k: "1 \<le> ?K" using assms(1) by simp
  have "193 / 64 \<le> e / ?K" "e / ?K \<le> 4" using e(2,3) k by (simp_all add: field_simps)
  moreover have "binary64 (193 / 64)" using round64_exact[of 193 "- 6"] by (simp add: binary64_def power_int_minus inverse_eq_divide)
  ultimately obtain l where l: "js (e / ?K) = Fin l" "193 / 64 \<le> l"
    using js_between[of "193 / 64" "e / ?K" 4] binary64_of_int[of 4] power_strict_increasing[of 53 1024 "2::rat"] by auto
  have "riskCheck (normalizeOrder row) None = Inr False" using k by (simp add: riskCheck_def n js_truthy_def)
  then show "checkOrder row s = Inl ''Leverage not supported''"
    using assms(4,10) entry k l by (simp add: checkOrder_def bookAt_def Let_def row assms(5,6,8,9) n ed)
qed

text \<open>
  The button for all of the buying power fills in a quantity the ticket then calls insufficient: with
  18.4 free, at 10 and a leverage of 8, it is 14.72, of which the margin is a last place above 18.4.
\<close>

definition btc_props :: ticket_props where
  "btc_props = \<lparr>tp_slug = ''BTC-USD'', tp_maxLeverage = 8, tp_sizeDecimals = 4, tp_lastPrice = None, tp_bestBid = None,
     tp_bestAsk = None, tp_price = ''10'', tp_available = Some ''18.4''\<rparr>"

definition btc_ticket :: order_form where
  "btc_ticket = changeLeverage 8 (openTicket 8)"

theorem whole_buying_power_is_insufficient:
  "of_qty (setPct btc_props 100 btc_ticket) = ''14.7200''
   \<and> ticketError btc_props (setPct btc_props 100 btc_ticket) = Some ''Insufficient margin for this size.''"
proof -
  let ?A = "5179139571476070 / 2 ^ 48 :: rat" and ?Q = "8286623314361713 / 2 ^ 49 :: rat" and ?V = "8286623314361712 / 2 ^ 49 :: rat"
  have u: "js_unsigned ''18.4'' = Some (184 / 10)" "js_unsigned ''10'' = Some 10" "js_unsigned ''14.7200'' = Some (147200 / 10000)"
    by (simp_all add: js_unsigned_def is_digit_def nat_of_digits_def digit_val_def power_int_minus inverse_eq_divide)
  have a: "js (184 / 10) = Fin ?A" using js_eval[of "184 / 10" 48 5179139571476070] by simp
  have q: "js (147200 / 10000) = Fin ?Q" using js_eval[of "147200 / 10000" 49 8286623314361713] by simp
  have p: "js_parse_float ''18.4'' = Fin ?A" "js_parse_float ''10'' = Fin 10" "js_parse_float ''14.7200'' = Fin ?Q"
    using js_parse_float_literal[OF u(1)] js_parse_float_literal[OF u(2)] js_parse_float_literal[OF u(3)] a q
    by (simp_all add: is_digit_def)
  have f: "effectivePrice btc_props btc_ticket = Fin 10" "balanceOf btc_props = Fin ?A" "leverageNum btc_ticket = Fin 8"
    by (simp_all add: effectivePrice_def btc_ticket_def edits openTicket_def parsedOrZero_def btc_props_def balanceOf_def leverageNum_def p)
  have usable: "Fin ?A * Fin 100 / Fin 100 = Fin ?A"
    using js_eval[of "?A * 100" 42 8092405580431359] js_eval[of "8092405580431359 / 2 ^ 42 / 100" 48 5179139571476070] by simp
  have afford: "Fin ?A * Fin 8 / Fin 10 = Fin ?V"
    using js_eval[of "?A * 8" 45 5179139571476070] js_eval[of "?A * 8 / 10" 49 8286623314361712] by simp
  have scaled: "Fin ?V * Fin 10000 = Fin 147200" using js_eval[of "?V * 10000" 35 5057753487769600] by simp
  have whole: "Fin 147200 / Fin 10000 = Fin ?Q" using q by simp
  have shown: "toFixed 4 (Fin ?Q) = ''14.7200''"
    by (simp add: toFixed_def fixedDigits_def floor_rat_numeral digits_of.simps digit_char_def) code_simp
  have "floorTo (Fin ?V) 4 = ''14.7200''"
  proof -
    have "floorTo (Fin ?V) 4 = toFixed 4 (js_floor (Fin ?V * Fin (10 ^ 4)) / Fin (10 ^ 4))"
      by (simp add: floorTo_def js_finite_def Let_def)
    also have "(10::rat) ^ 4 = 10000" by simp
    also have "js_floor (Fin ?V * Fin 10000) / Fin 10000 = Fin ?Q" unfolding scaled using whole by (simp add: js_floor_def)
    finally show ?thesis unfolding shown .
  qed
  then have qty: "setPct btc_props 100 btc_ticket = (clearRejection btc_ticket)\<lparr>of_qty := ''14.7200''\<rparr>"
  proof -
    have step: "setPct p 100 b = (clearRejection b)\<lparr>of_qty := floorTo (balanceOf p * Fin 100 / Fin 100 * leverageNum b / effectivePrice p b)
      (tp_sizeDecimals p)\<rparr>" if "\<not> effectivePrice p b \<le> 0" for p b
      using that by (simp add: setPct_def Let_def)
    have size: "tp_sizeDecimals btc_props = 4" by (simp add: btc_props_def)
    show ?thesis using step[of btc_props btc_ticket] \<open>floorTo (Fin ?V) 4 = ''14.7200''\<close> unfolding f usable afford size by simp
  qed
  have margin: "Fin 10 * Fin ?Q / Fin 8 = Fin (5179139571476071 / 2 ^ 48)"
    using js_eval[of "10 * ?Q" 45 5179139571476071] js_eval[of "5179139571476071 / 2 ^ 45 / 8" 48 5179139571476071] by simp
  let ?f = "(clearRejection btc_ticket)\<lparr>of_qty := ''14.7200''\<rparr>"
  have g: "quantity ?f = Fin ?Q" "effectivePrice btc_props ?f = Fin 10" "leverageNum ?f = Fin 8"
  proof -
    have "effectivePrice p ((clearRejection b)\<lparr>of_qty := x\<rparr>) = effectivePrice p b"
      "leverageNum ((clearRejection b)\<lparr>of_qty := x\<rparr>) = leverageNum b" for p b x
      by (simp_all add: effectivePrice_def leverageNum_def edits)
    then show "effectivePrice btc_props ?f = Fin 10" "leverageNum ?f = Fin 8" by (simp_all only: f)
    show "quantity ?f = Fin ?Q" by (simp add: quantity_def parsedOrZero_def p)
  qed
  have "ticketMargin btc_props ?f = Fin (5179139571476071 / 2 ^ 48)"
    unfolding ticketMargin_def g margin by simp
  then show ?thesis unfolding qty ticketError_def g f by simp
qed

end
