(* ===== verification/Poller.thy ===== *)
theory Poller
  imports Engine Resilience
begin

text \<open>
  The two services that speak to the engine on a clock: the poller of spot prices
  (\<open>apps/price-poller/src/services/createPoller.ts\<close>, \<open>setupComms.ts\<close>) and the scheduler of backups and
  funding (\<open>apps/scheduler/src/services\<close>). Binance, the job queue and Redis are outside: frames, closings,
  timers and jobs are events, and an \<open>xAdd\<close> succeeds or throws.
\<close>

section \<open>The poller\<close>

text \<open>
  \<open>po_sockets\<close> are the sockets that have not closed, \<open>po_intervals\<close> the timers that tick, of which
  \<open>po_intervalId\<close> is the one held; \<open>po_reconnects\<close> counts the pending five-second timers.
\<close>

record poller =
  po_messages :: "TSupportedAssets \<Rightarrow> string option"
  po_sockets :: "nat list"
  po_nextSocket :: nat
  po_intervals :: "nat list"
  po_intervalId :: "nat option"
  po_nextInterval :: nat
  po_reconnects :: nat

definition createPoller :: poller where
  "createPoller =
     \<lparr>po_messages = (\<lambda>_. None), po_sockets = [], po_nextSocket = 0, po_intervals = [], po_intervalId = None,
      po_nextInterval = 0, po_reconnects = 0\<rparr>"

definition connectPoller :: "poller \<Rightarrow> poller" where
  "connectPoller p = p\<lparr>po_sockets := po_sockets p @ [po_nextSocket p], po_nextSocket := po_nextSocket p + 1\<rparr>"

definition clearHeldInterval :: "poller \<Rightarrow> poller" where
  "clearHeldInterval p =
     (case po_intervalId p of
        None \<Rightarrow> p
      | Some i \<Rightarrow> p\<lparr>po_intervals := filter (\<lambda>j. j \<noteq> i) (po_intervals p)\<rparr>)"

definition resetPushingEvents :: "poller \<Rightarrow> poller" where
  "resetPushingEvents p =
     (let p1 = clearHeldInterval p
      in p1\<lparr>po_intervals := po_intervals p1 @ [po_nextInterval p1], po_intervalId := Some (po_nextInterval p1),
            po_nextInterval := po_nextInterval p1 + 1\<rparr>)"

fun assetOf :: "string \<Rightarrow> TSupportedAssets option" where
  "assetOf s =
     (if s = ''SOLUSDT'' then Some SOL else if s = ''BTCUSDT'' then Some BTC else if s = ''ETHUSDT'' then Some ETH else None)"

definition onMiniTicker :: "string \<Rightarrow> string \<Rightarrow> poller \<Rightarrow> poller" where
  "onMiniTicker symbol close p =
     (case assetOf symbol of
        Some asset \<Rightarrow> p\<lparr>po_messages := (po_messages p)(asset := Some close)\<rparr>
      | None \<Rightarrow> p)"

definition onPollerClose :: "nat \<Rightarrow> poller \<Rightarrow> poller" where
  "onPollerClose socket p =
     (clearHeldInterval p)\<lparr>po_sockets := filter (\<lambda>j. j \<noteq> socket) (po_sockets p), po_messages := (\<lambda>_. None),
        po_reconnects := po_reconnects p + 1\<rparr>"

definition onReconnectTimer :: "poller \<Rightarrow> poller" where
  "onReconnectTimer p = connectPoller (resetPushingEvents (p\<lparr>po_reconnects := po_reconnects p - 1\<rparr>))"

text \<open>A tick takes what arrived since the last and sends one update per asset.\<close>

definition pollerTick :: "poller \<Rightarrow> (TSupportedAssets \<times> string option) list \<times> poller" where
  "pollerTick p =
     ([(SOL, po_messages p SOL), (BTC, po_messages p BTC), (ETH, po_messages p ETH)], p\<lparr>po_messages := (\<lambda>_. None)\<rparr>)"

datatype poller_event =
    SocketOpened
  | MiniTicker nat string string
  | BadFrame nat
  | PollerClosed nat
  | ReconnectTimer
  | IntervalFires nat

text \<open>
  The updates sent by an event, after those sent before. An event of a socket or a timer that is gone cannot
  come. A frame that is not JSON, or has no \<open>data\<close>, makes the listener throw before it has written
  anything; nothing in the service catches it, so what follows is up to the runtime: the events after it
  are those that still come.
\<close>

definition pollerStep ::
  "poller_event \<Rightarrow> poller \<times> (TSupportedAssets \<times> string option) list \<Rightarrow> poller \<times> (TSupportedAssets \<times> string option) list" where
  "pollerStep e s =
     (case s of (p, sent) \<Rightarrow>
        (case e of
           SocketOpened \<Rightarrow> (if po_sockets p = [] then (p, sent) else (resetPushingEvents p, sent))
         | MiniTicker i symbol close \<Rightarrow> (if i \<in> set (po_sockets p) then (onMiniTicker symbol close p, sent) else (p, sent))
         | BadFrame i \<Rightarrow> (p, sent)
         | PollerClosed i \<Rightarrow> (if i \<in> set (po_sockets p) then (onPollerClose i p, sent) else (p, sent))
         | ReconnectTimer \<Rightarrow> (if po_reconnects p = 0 then (p, sent) else (onReconnectTimer p, sent))
         | IntervalFires i \<Rightarrow>
             (if i \<in> set (po_intervals p) then (let (updates, p') = pollerTick p in (p', sent @ updates)) else (p, sent))))"

definition pollerRun :: "poller_event list \<Rightarrow> poller \<times> (TSupportedAssets \<times> string option) list" where
  "pollerRun es = foldl (\<lambda>s e. pollerStep e s) (connectPoller createPoller, []) es"

text \<open>The request an update becomes: a price of null is left as it is, a price is read as a number.\<close>

definition spotPriceUpdate :: "TSupportedAssets \<times> string option \<Rightarrow> TEngineRequest" where
  "spotPriceUpdate u = SpotPriceUpdate (\<lambda>a. if a = fst u then map_option js_number (snd u) else None)"

text \<open>
  \<open>sendToResponseStream\<close>: whether the update was added, and the length of the outage; an error that is no
  lost connection is thrown.
\<close>

definition sendToResponseStream_poller :: "thrown option option \<Rightarrow> nat \<Rightarrow> (thrown option + bool) \<times> nat" where
  "sendToResponseStream_poller xAdd outage =
     (case xAdd of
        None \<Rightarrow> (Inr True, 0)
      | Some err \<Rightarrow> if \<not> isRedisConnectionError err then (Inl err, outage) else (Inr False, outage + 1))"

section \<open>The scheduler\<close>

text \<open>The two jobs, what the worker puts on the stream of the engine for a job, and when a job is due in an hour.\<close>

definition scheduledJobs :: "(string \<times> string) list" where
  "scheduledJobs = [(''backup-event'', ''*/15 * * * *''), (''funding-rate-dispersal'', ''0 * * * *'')]"

definition dueAt :: "string \<Rightarrow> nat \<Rightarrow> bool" where
  "dueAt pattern minute =
     (if pattern = ''*/15 * * * *'' then minute mod 15 = 0
      else if pattern = ''0 * * * *'' then minute = 0 else False)"

definition worker :: "int \<Rightarrow> string \<Rightarrow> TEngineRequest list" where
  "worker now job =
     (if job = ''backup-event'' then [BackupStore now] else [])
     @ (if job = ''funding-rate-dispersal'' then [FundingRateDispersal] else [])"

definition requestsAt :: "int \<Rightarrow> nat \<Rightarrow> TEngineRequest list" where
  "requestsAt now minute = concat (map (\<lambda>(job, pattern). if dueAt pattern minute then worker now job else []) scheduledJobs)"

end
