(* ===== verification/PollerProperties.thy ===== *)
theory PollerProperties
  imports Poller
begin

text \<open>
  One timer ticks at a time, and every price it sends arrived since the tick before; what it sends is a
  price update the engine knows, or nothing it acts on; and every hour has four backups and one funding.
\<close>

section \<open>One timer\<close>

text \<open>
  No interval but the one held ticks. There is one socket, or one timer that will open one, never both.
\<close>

definition poller_ok :: "poller \<Rightarrow> bool" where
  "poller_ok p \<longleftrightarrow>
     (po_intervals p = [] \<or> (\<exists>i. po_intervalId p = Some i \<and> po_intervals p = [i]))
     \<and> length (po_sockets p) + po_reconnects p = 1"

lemma reset_intervals:
  assumes "po_intervals p = [] \<or> (\<exists>i. po_intervalId p = Some i \<and> po_intervals p = [i])"
  shows "po_intervals (resetPushingEvents p) = [po_nextInterval p]" "po_intervalId (resetPushingEvents p) = Some (po_nextInterval p)"
    "po_nextInterval (resetPushingEvents p) = po_nextInterval p + 1" "po_sockets (resetPushingEvents p) = po_sockets p"
    "po_reconnects (resetPushingEvents p) = po_reconnects p" "po_messages (resetPushingEvents p) = po_messages p"
  using assms by (auto simp: resetPushingEvents_def clearHeldInterval_def Let_def split: option.splits)

lemma poller_reset_ok: "poller_ok p \<Longrightarrow> poller_ok (resetPushingEvents p)"
  using reset_intervals[of p] by (simp add: poller_ok_def)

lemma reset_messages: "po_messages (resetPushingEvents p) = po_messages p"
  by (simp add: resetPushingEvents_def clearHeldInterval_def Let_def split: option.split)

lemma poller_close_ok: "poller_ok p \<Longrightarrow> i \<in> set (po_sockets p) \<Longrightarrow> poller_ok (onPollerClose i p)"
  by (cases "po_sockets p") (auto simp: poller_ok_def onPollerClose_def clearHeldInterval_def split: option.splits)

lemma poller_reconnect_ok:
  assumes "poller_ok p" "po_reconnects p \<noteq> 0" shows "poller_ok (onReconnectTimer p)"
proof -
  define q where "q = p\<lparr>po_reconnects := po_reconnects p - 1\<rparr>"
  have "length (po_sockets p) = 0" "po_reconnects p = 1" using assms unfolding poller_ok_def by linarith+
  then have q: "po_intervals q = [] \<or> (\<exists>i. po_intervalId q = Some i \<and> po_intervals q = [i])" "po_sockets q = []" "po_reconnects q = 0"
    using assms(1) by (simp_all add: q_def poller_ok_def)
  show ?thesis unfolding onReconnectTimer_def q_def[symmetric]
    by (simp add: connectPoller_def poller_ok_def reset_intervals[OF q(1)] q)
qed

lemma poller_step_ok: "poller_ok p \<Longrightarrow> poller_ok (fst (pollerStep e (p, sent)))"
proof (cases e)
  case (MiniTicker i symbol close)
  moreover assume "poller_ok p"
  ultimately show ?thesis by (simp add: pollerStep_def onMiniTicker_def poller_ok_def split: option.split)
next
  case (IntervalFires i)
  moreover assume "poller_ok p"
  ultimately show ?thesis by (simp add: pollerStep_def pollerTick_def poller_ok_def)
qed (simp_all add: pollerStep_def poller_reset_ok poller_close_ok poller_reconnect_ok)

lemma poller_run_snoc: "pollerRun (es @ [e]) = pollerStep e (pollerRun es)"
  by (simp add: pollerRun_def)

lemma poller_run_ok: "poller_ok (fst (pollerRun es))"
proof (induction es rule: rev_induct)
  case (snoc e es)
  then show ?case using poller_step_ok[of "fst (pollerRun es)" e "snd (pollerRun es)"] by (simp add: poller_run_snoc)
qed (simp add: pollerRun_def poller_ok_def connectPoller_def createPoller_def)

text \<open>
  What arrived of an asset since the last tick or closing: the last close of a frame that names it, of
  the events that had an effect, latest first.
\<close>

fun fresh_price :: "TSupportedAssets \<Rightarrow> poller_event list \<Rightarrow> string option" where
  "fresh_price a [] = None"
| "fresh_price a (e # es) =
     (case e of
        MiniTicker i symbol close \<Rightarrow>
          if i \<in> set (po_sockets (fst (pollerRun (rev es)))) \<and> assetOf symbol = Some a then Some close else fresh_price a es
      | PollerClosed i \<Rightarrow> if i \<in> set (po_sockets (fst (pollerRun (rev es)))) then None else fresh_price a es
      | IntervalFires i \<Rightarrow> if i \<in> set (po_intervals (fst (pollerRun (rev es)))) then None else fresh_price a es
      | _ \<Rightarrow> fresh_price a es)"

lemma messages_are_fresh: "po_messages (fst (pollerRun es)) a = fresh_price a (rev es)"
proof (induction es rule: rev_induct)
  case (snoc e es)
  obtain p sent where r: "pollerRun es = (p, sent)" by fastforce
  have held: "po_messages p a = fresh_price a (rev es)" using snoc r by simp
  have quiet: "po_messages (onReconnectTimer p) = po_messages p"
    by (simp add: onReconnectTimer_def connectPoller_def reset_messages)
  show ?case using held
    by (cases e) (auto simp: poller_run_snoc r pollerStep_def quiet reset_messages onMiniTicker_def onPollerClose_def clearHeldInterval_def pollerTick_def
        simp del: assetOf.simps split: option.splits)
qed (simp add: pollerRun_def connectPoller_def createPoller_def)

text \<open>
  C40. One update per asset and tick, with a price that is fresh. However the socket opens, drops and is
  replaced, at most one timer ticks; a tick sends each asset once, with the last price that arrived since
  the tick before on the connection that is up, or null if none did, so that no price is sent twice.
\<close>

theorem ticks_send_fresh_prices:
  assumes "pollerRun es = (p, sent)" "i \<in> set (po_intervals p)"
  shows "po_intervals p = [i]
    \<and> pollerRun (es @ [IntervalFires i]) = (p\<lparr>po_messages := (\<lambda>_. None)\<rparr>,
        sent @ map (\<lambda>a. (a, fresh_price a (rev es))) [SOL, BTC, ETH])
    \<and> (\<forall>a. fresh_price a (rev (es @ [IntervalFires i])) = None)"
proof -
  have "poller_ok p" using poller_run_ok[of es] assms(1) by simp
  then have one: "po_intervals p = [i]" using assms(2) by (auto simp: poller_ok_def)
  have m: "po_messages p a = fresh_price a (rev es)" for a using messages_are_fresh[of es a] assms(1) by simp
  have "pollerRun (es @ [IntervalFires i]) = (p\<lparr>po_messages := (\<lambda>_. None)\<rparr>, sent @ map (\<lambda>a. (a, fresh_price a (rev es))) [SOL, BTC, ETH])"
    using one by (simp add: poller_run_snoc assms(1) pollerStep_def pollerTick_def m)
  then show ?thesis using one assms by simp
qed

lemma ticks_send_fresh_prices_witness:
  "snd (pollerRun [SocketOpened, MiniTicker 0 ''SOLUSDT'' ''90'', MiniTicker 0 ''SOLUSDT'' ''91'', IntervalFires 0])
    = [(SOL, Some ''91''), (BTC, None), (ETH, None)]"
proof -
  let ?es = "[SocketOpened, MiniTicker 0 ''SOLUSDT'' ''90'', MiniTicker 0 ''SOLUSDT'' ''91'']"
  let ?p = "\<lparr>po_messages = (\<lambda>_. None)(SOL := Some ''91''), po_sockets = [0], po_nextSocket = 1, po_intervals = [0],
    po_intervalId = Some 0, po_nextInterval = 1, po_reconnects = 0\<rparr>"
  have r: "pollerRun ?es = (?p, [])"
    by (simp add: pollerRun_def pollerStep_def connectPoller_def createPoller_def resetPushingEvents_def clearHeldInterval_def
        onMiniTicker_def)
  have f: "fresh_price a (rev ?es) = po_messages ?p a" for a using messages_are_fresh[of ?es a] r by simp
  have "snd (pollerRun (?es @ [IntervalFires 0])) = [] @ map (\<lambda>a. (a, fresh_price a (rev ?es))) [SOL, BTC, ETH]"
    using ticks_send_fresh_prices[OF r, of 0] by simp
  then show ?thesis unfolding f by simp
qed

text \<open>Prices of a connection that dropped are never sent, and a lost Redis loses updates but raises nothing.\<close>

lemma dropped_prices_are_forgotten:
  "i \<in> set (po_sockets (fst (pollerRun es))) \<Longrightarrow> po_messages (fst (pollerRun (es @ [PollerClosed i]))) = (\<lambda>_. None)"
  by (cases "pollerRun es") (simp add: poller_run_snoc pollerStep_def onPollerClose_def)

section \<open>What the engine makes of it\<close>

text \<open>An update with a price is one for exactly that asset; one without is refused and changes nothing.\<close>

lemma spot_price_of_update:
  "js_truthy x \<Longrightarrow> spotPrice (\<lambda>b. if b = a then Some x else None) = Some (a, x)" "spotPrice (\<lambda>b. None) = None"
  by (cases a; simp add: spotPrice_def)+

theorem priced_updates_are_swept:
  assumes "js_truthy (js_number price)" "liqudationChecks rt a (js_number price) e = Return resp e'"
  shows "\<exists>r. handle rt messageId (spotPriceUpdate (a, Some price)) e = Return (Some r) e' \<and> rs_wsServer r = sr_wsServer resp"
proof -
  have "spotPriceUpdate (a, Some price) = SpotPriceUpdate (\<lambda>b. if b = a then Some (js_number price) else None)"
    by (simp add: spotPriceUpdate_def fun_eq_iff)
  then show ?thesis using assms by (simp add: spot_price_of_update)
qed

theorem null_prices_are_refused:
  "handle rt messageId (spotPriceUpdate (a, None)) e = Throw (Error ''Unsupported request type'') e"
proof -
  have "spotPriceUpdate (a, None) = SpotPriceUpdate (\<lambda>b. None)" by (simp add: spotPriceUpdate_def fun_eq_iff)
  then show ?thesis by (simp add: spot_price_of_update)
qed

section \<open>The scheduler\<close>

text \<open>In every hour the engine is asked for four backups, at the quarters, and for the funding once, on the hour.\<close>

theorem hourly_requests:
  "filter (\<lambda>m. BackupStore now \<in> set (requestsAt now m)) [0..<60] = [0, 15, 30, 45]"
  "filter (\<lambda>m. FundingRateDispersal \<in> set (requestsAt now m)) [0..<60] = [0]"
  by (simp_all add: requestsAt_def scheduledJobs_def dueAt_def worker_def) code_simp+

end
