(* ===== verification/Maintenance.thy ===== *)
theory Maintenance
  imports Api EngineTypes
begin

text \<open>
  The scripts of \<open>packages/db\<close>: \<open>seed.ts\<close> with the definitions of \<open>markets.ts\<close>, and \<open>prune-bots.ts\<close>. A
  table is the list of its rows. Deleting an order a fill refers to fails, and then the transaction
  leaves everything as it was; sizes, vacuuming and what is printed are left out.
\<close>

section \<open>Seeding the markets\<close>

record MarketDefinition =
  md_id :: string
  md_slug :: string
  md_base :: string
  md_quote :: string
  md_priceDecimals :: nat
  md_sizeDecimals :: nat
  md_tickSize :: string
  md_maxLeverage :: nat
  md_binanceSymbol :: string

fun MARKETS :: "TSupportedAssets \<Rightarrow> MarketDefinition" where
  "MARKETS SOL = \<lparr>md_id = SOL_ID, md_slug = ''SOL-USD'', md_base = ''SOL'', md_quote = ''USD'', md_priceDecimals = 2,
     md_sizeDecimals = 2, md_tickSize = ''0.01'', md_maxLeverage = 30, md_binanceSymbol = ''SOLUSDT''\<rparr>"
| "MARKETS ETH = \<lparr>md_id = ETH_ID, md_slug = ''ETH-USD'', md_base = ''ETH'', md_quote = ''USD'', md_priceDecimals = 2,
     md_sizeDecimals = 3, md_tickSize = ''0.01'', md_maxLeverage = 3, md_binanceSymbol = ''ETHUSDT''\<rparr>"
| "MARKETS BTC = \<lparr>md_id = BTC_ID, md_slug = ''BTC-USD'', md_base = ''BTC'', md_quote = ''USD'', md_priceDecimals = 1,
     md_sizeDecimals = 4, md_tickSize = ''0.1'', md_maxLeverage = 8, md_binanceSymbol = ''BTCUSDT''\<rparr>"

definition MARKET_LIST :: "MarketDefinition list" where
  "MARKET_LIST = [MARKETS SOL, MARKETS ETH, MARKETS BTC]"

text \<open>A row of the table; all but the id and the slug may be null.\<close>

record market_row =
  mr_id :: string
  mr_slug :: string
  mr_imageUrl :: "string option"
  mr_base :: "string option"
  mr_quote :: "string option"
  mr_priceDecimals :: "nat option"
  mr_sizeDecimals :: "nat option"
  mr_tickSize :: "string option"
  mr_maxLeverage :: "nat option"
  mr_binanceSymbol :: "string option"

definition rowOf :: "MarketDefinition \<Rightarrow> string option \<Rightarrow> market_row" where
  "rowOf m url =
     \<lparr>mr_id = md_id m, mr_slug = md_slug m, mr_imageUrl = url, mr_base = Some (md_base m), mr_quote = Some (md_quote m),
      mr_priceDecimals = Some (md_priceDecimals m), mr_sizeDecimals = Some (md_sizeDecimals m), mr_tickSize = Some (md_tickSize m),
      mr_maxLeverage = Some (md_maxLeverage m), mr_binanceSymbol = Some (md_binanceSymbol m)\<rparr>"

text \<open>An insertion that refreshes the row with the same key but for the columns that are not set.\<close>

definition upsertMarket :: "MarketDefinition \<Rightarrow> market_row list \<Rightarrow> market_row list" where
  "upsertMarket m rows =
     (if \<exists>r \<in> set rows. mr_id r = md_id m
      then map (\<lambda>r. if mr_id r = md_id m then rowOf m (mr_imageUrl r) else r) rows
      else rows @ [rowOf m None])"

definition seedMarkets :: "market_row list \<Rightarrow> market_row list" where
  "seedMarkets rows = foldl (\<lambda>rows m. upsertMarket m rows) rows MARKET_LIST"

text \<open>\<open>MarketDtoSchema\<close>; what is an identifier is for the schema library to say.\<close>

definition MarketDtoSchema :: "(string \<Rightarrow> bool) \<Rightarrow> market_row \<Rightarrow> (MarketDefinition \<times> string option) option" where
  "MarketDtoSchema uuid r =
     (case (mr_base r, mr_quote r, mr_priceDecimals r, mr_sizeDecimals r, mr_tickSize r, mr_maxLeverage r, mr_binanceSymbol r) of
        (Some base, Some quote, Some pd, Some sd, Some tick, Some lev, Some symbol) \<Rightarrow>
          if uuid (mr_id r) \<and> mr_slug r \<noteq> [] \<and> base \<noteq> [] \<and> quote \<noteq> [] \<and> tick \<noteq> [] \<and> 0 < lev \<and> symbol \<noteq> []
          then Some (\<lparr>md_id = mr_id r, md_slug = mr_slug r, md_base = base, md_quote = quote, md_priceDecimals = pd,
                      md_sizeDecimals = sd, md_tickSize = tick, md_maxLeverage = lev, md_binanceSymbol = symbol\<rparr>, mr_imageUrl r)
          else None
      | _ \<Rightarrow> None)"

section \<open>Pruning the bots\<close>

record pr_user =
  pu_id :: string
  pu_username :: string

record pr_order =
  pr_orderId :: string
  pr_userId :: string
  pr_status :: TOrderStatus

record pr_fill =
  pf_id :: string
  pf_makerId :: string
  pf_takerId :: string
  pf_makerOrderId :: string
  pf_takerOrderId :: string

record pr_event =
  pe_key :: string
  pe_createdAt :: int

record database =
  db_users :: "pr_user list"
  db_orders :: "pr_order list"
  db_fills :: "pr_fill list"
  db_events :: "pr_event list"

record prune_report =
  rp_bots :: "string list"
  rp_orders :: nat
  rp_fills :: nat
  rp_events :: nat
  rp_kept :: nat
  rp_eventsHeld :: nat

definition DEFAULT_EVENT_RETENTION_HOURS :: int where
  "DEFAULT_EVENT_RETENTION_HOURS = 24"

definition botIdsOf :: "string list \<Rightarrow> database \<Rightarrow> string list" where
  "botIdsOf bots db = map pu_id (filter (\<lambda>u. pu_username u \<in> set bots) (db_users db))"

definition noiseFills :: "string list \<Rightarrow> database \<Rightarrow> string list" where
  "noiseFills botIds db =
     map pf_id (filter (\<lambda>f. pf_makerId f \<in> set botIds \<and> pf_takerId f \<in> set botIds) (db_fills db))"

definition orphanOrders :: "string list \<Rightarrow> database \<Rightarrow> string list" where
  "orphanOrders botIds db =
     map pr_orderId (filter (\<lambda>o1. pr_userId o1 \<in> set botIds
       \<and> \<not> (\<exists>f \<in> set (db_fills db). (pf_makerOrderId f = pr_orderId o1 \<or> pf_takerOrderId f = pr_orderId o1)
              \<and> pf_id f \<notin> set (noiseFills botIds db))) (db_orders db))"

definition staleEvents :: "int \<Rightarrow> int \<Rightarrow> database \<Rightarrow> string list" where
  "staleEvents now hours db = map pe_key (filter (\<lambda>e. pe_createdAt e < now - hours * 3600000) (db_events db))"

definition deleteFills :: "string list \<Rightarrow> database \<Rightarrow> database" where
  "deleteFills ids db = db\<lparr>db_fills := filter (\<lambda>f. pf_id f \<notin> set ids) (db_fills db)\<rparr>"

text \<open>\<open>None\<close> when the foreign keys of the fills refuse.\<close>

definition deleteOrders :: "string list \<Rightarrow> database \<Rightarrow> database option" where
  "deleteOrders ids db =
     (if \<exists>f \<in> set (db_fills db). pf_makerOrderId f \<in> set ids \<or> pf_takerOrderId f \<in> set ids then None
      else Some (db\<lparr>db_orders := filter (\<lambda>o1. pr_orderId o1 \<notin> set ids) (db_orders db)\<rparr>))"

definition deleteEvents :: "string list \<Rightarrow> database \<Rightarrow> database" where
  "deleteEvents ids db = db\<lparr>db_events := filter (\<lambda>e. pe_key e \<notin> set ids) (db_events db)\<rparr>"

text \<open>The sub-queries are run again inside the transaction, each on what the statements before it left.\<close>

definition pruneTransaction :: "string list \<Rightarrow> bool \<Rightarrow> int \<Rightarrow> int \<Rightarrow> database \<Rightarrow> database option" where
  "pruneTransaction botIds keepEvents now hours db =
     (let db1 = deleteFills (noiseFills botIds db) db
      in case deleteOrders (orphanOrders botIds db1) db1 of
           None \<Rightarrow> None
         | Some db2 \<Rightarrow> Some (if keepEvents then db2 else deleteEvents (staleEvents now hours db2) db2))"

definition pruneBotData ::
  "string list \<Rightarrow> bool \<Rightarrow> bool \<Rightarrow> int \<Rightarrow> int \<Rightarrow> database \<Rightarrow> (prune_report \<times> database) option" where
  "pruneBotData bots dryRun keepEvents hours now db =
     (let botIds = botIdsOf bots db
      in if botIds = [] then
           Some (\<lparr>rp_bots = [], rp_orders = 0, rp_fills = 0, rp_events = 0, rp_kept = 0, rp_eventsHeld = 0\<rparr>, db)
         else
           (let fillCount = length (noiseFills botIds db);
                orderCount = length (orphanOrders botIds db);
                eventCount = (if keepEvents then 0 else length (staleEvents now hours db));
                eventsHeld = (if keepEvents then 0 else length (db_events db) - eventCount);
                kept = length (filter (\<lambda>o1. pr_userId o1 \<in> set botIds) (db_orders db));
                report = \<lparr>rp_bots = botIds, rp_orders = orderCount, rp_fills = fillCount, rp_events = eventCount,
                          rp_kept = kept - orderCount, rp_eventsHeld = eventsHeld\<rparr>
            in if dryRun then Some (report, db)
               else map_option (\<lambda>db'. (report, db')) (pruneTransaction botIds keepEvents now hours db)))"

end
