(* ===== verification/MaintenanceProperties.thy ===== *)
theory MaintenanceProperties
  imports Maintenance
begin

text \<open>
  Pruning keeps every fill a human took part in and whatever it refers to, and does what the dry run
  says; seeding any number of times is seeding once, and what is seeded the API can serve.
\<close>

section \<open>Pruning\<close>

definition refs_ok :: "database \<Rightarrow> bool" where
  "refs_ok db \<longleftrightarrow>
     (\<forall>o1 \<in> set (db_orders db). pr_userId o1 \<in> pu_id ` set (db_users db))
     \<and> (\<forall>f \<in> set (db_fills db). pf_makerId f \<in> pu_id ` set (db_users db) \<and> pf_takerId f \<in> pu_id ` set (db_users db)
          \<and> pf_makerOrderId f \<in> pr_orderId ` set (db_orders db) \<and> pf_takerOrderId f \<in> pr_orderId ` set (db_orders db))"

definition keys_ok :: "database \<Rightarrow> bool" where
  "keys_ok db \<longleftrightarrow> distinct (map pf_id (db_fills db)) \<and> distinct (map pr_orderId (db_orders db)) \<and> distinct (map pe_key (db_events db))"

definition human_fill :: "string list \<Rightarrow> pr_fill \<Rightarrow> bool" where
  "human_fill botIds f \<longleftrightarrow> pf_makerId f \<notin> set botIds \<or> pf_takerId f \<notin> set botIds"

definition behind :: "database \<Rightarrow> pr_order \<Rightarrow> bool" where
  "behind db o1 \<longleftrightarrow> (\<exists>f \<in> set (db_fills db). pf_makerOrderId f = pr_orderId o1 \<or> pf_takerOrderId f = pr_orderId o1)"

lemma filter_keys: "distinct (map key xs) \<Longrightarrow> filter (\<lambda>x. key x \<notin> set (map key (filter P xs))) xs = filter (\<lambda>x. \<not> P x) xs"
  by (rule filter_cong) (auto simp: distinct_map inj_on_def)

lemma fills_left: "keys_ok db \<Longrightarrow> db_fills (deleteFills (noiseFills botIds db) db) = filter (human_fill botIds) (db_fills db)"
proof -
  assume "keys_ok db"
  then have "distinct (map pf_id (db_fills db))" by (simp add: keys_ok_def)
  from filter_keys[OF this, of "\<lambda>f. pf_makerId f \<in> set botIds \<and> pf_takerId f \<in> set botIds"]
  have "db_fills (deleteFills (noiseFills botIds db) db)
      = filter (\<lambda>f. \<not> (pf_makerId f \<in> set botIds \<and> pf_takerId f \<in> set botIds)) (db_fills db)"
    by (simp add: deleteFills_def noiseFills_def)
  then show ?thesis by (simp add: human_fill_def[abs_def])
qed

lemma human_id: "keys_ok db \<Longrightarrow> f \<in> set (db_fills db) \<Longrightarrow> pf_id f \<notin> set (noiseFills botIds db) \<longleftrightarrow> human_fill botIds f"
  by (auto simp: noiseFills_def human_fill_def keys_ok_def distinct_map inj_on_def)

lemma orphans:
  fixes botIds
  assumes "keys_ok db"
  defines "db1 \<equiv> deleteFills (noiseFills botIds db) db"
  shows "orphanOrders botIds db1 = orphanOrders botIds db"
    and "orphanOrders botIds db = map pr_orderId (filter (\<lambda>o1. pr_userId o1 \<in> set botIds \<and> \<not> behind db1 o1) (db_orders db))"
proof -
  have f: "db_fills db1 = filter (human_fill botIds) (db_fills db)" using fills_left[OF assms(1)] by (simp add: db1_def)
  have none: "noiseFills botIds db1 = []" unfolding noiseFills_def f by (auto simp: filter_empty_conv human_fill_def)
  have o: "db_orders db1 = db_orders db" by (simp add: db1_def deleteFills_def)
  show a: "orphanOrders botIds db = map pr_orderId (filter (\<lambda>o1. pr_userId o1 \<in> set botIds \<and> \<not> behind db1 o1) (db_orders db))"
    unfolding orphanOrders_def behind_def f using human_id[OF assms(1)] by (intro arg_cong[where f = "map pr_orderId"] filter_cong) auto
  show "orphanOrders botIds db1 = orphanOrders botIds db"
    unfolding a unfolding orphanOrders_def none o behind_def by simp
qed

lemma orders_left:
  fixes botIds
  assumes "keys_ok db"
  defines "db1 \<equiv> deleteFills (noiseFills botIds db) db"
  shows "deleteOrders (orphanOrders botIds db1) db1 =
    Some (db1\<lparr>db_orders := filter (\<lambda>o1. pr_userId o1 \<in> set botIds \<longrightarrow> behind db1 o1) (db_orders db)\<rparr>)"
proof -
  have o: "orphanOrders botIds db1 = map pr_orderId (filter (\<lambda>o1. pr_userId o1 \<in> set botIds \<and> \<not> behind db1 o1) (db_orders db))"
    using orphans[OF assms(1)] by (simp add: db1_def)
  have "\<not> (\<exists>f \<in> set (db_fills db1). pf_makerOrderId f \<in> set (orphanOrders botIds db1) \<or> pf_takerOrderId f \<in> set (orphanOrders botIds db1))"
    unfolding o by (auto simp: behind_def)
  moreover have "db_orders db1 = db_orders db" by (simp add: db1_def deleteFills_def)
  moreover have "filter (\<lambda>o1. pr_orderId o1 \<notin> set (orphanOrders botIds db1)) (db_orders db)
      = filter (\<lambda>o1. \<not> (pr_userId o1 \<in> set botIds \<and> \<not> behind db1 o1)) (db_orders db)"
    using assms(1) unfolding o keys_ok_def by (simp only: filter_keys)
  ultimately show ?thesis by (auto simp: deleteOrders_def intro!: arg_cong[where f = "\<lambda>os. db1\<lparr>db_orders := os\<rparr>"] filter_cong)
qed

lemma length_filter_not: "length (filter (\<lambda>x. \<not> P x) xs) = length xs - length (filter P xs)"
  using sum_length_filter_compl[of P xs] by simp

text \<open>
  C28. Pruning keeps everybody's history. It never meets a foreign key; exactly the fills between two bots
  go, with the orders of bots no other fill refers to; so every row the remaining rows refer to is
  there, and users and the orders of others stay. The counts of a dry run are the rows that go.
\<close>

theorem pruning_keeps_history:
  assumes "refs_ok db" "keys_ok db" "botIdsOf bots db \<noteq> []"
    and "pruneBotData bots True keepEvents hours now db = Some (report, unchanged)"
  shows "unchanged = db \<and> (\<exists>db'. pruneBotData bots False keepEvents hours now db = Some (report, db')
    \<and> refs_ok db' \<and> db_users db' = db_users db
    \<and> db_fills db' = filter (human_fill (botIdsOf bots db)) (db_fills db)
    \<and> db_orders db' = filter (\<lambda>o1. pr_userId o1 \<in> set (botIdsOf bots db) \<longrightarrow> behind db' o1) (db_orders db)
    \<and> rp_fills report = length (db_fills db) - length (db_fills db')
    \<and> rp_orders report = length (db_orders db) - length (db_orders db')
    \<and> rp_events report = length (db_events db) - length (db_events db'))"
proof -
  let ?b = "botIdsOf bots db"
  define db1 where "db1 = deleteFills (noiseFills ?b db) db"
  let ?P = "\<lambda>o1. pr_userId o1 \<in> set ?b \<longrightarrow> behind db1 o1"
  define db2 where "db2 = db1\<lparr>db_orders := filter ?P (db_orders db)\<rparr>"
  define db' where "db' = (if keepEvents then db2 else deleteEvents (staleEvents now hours db2) db2)"
  have t: "pruneTransaction ?b keepEvents now hours db = Some db'"
    using orders_left[OF assms(2), of ?b] by (simp add: pruneTransaction_def Let_def db1_def[symmetric] db2_def[symmetric] db'_def)
  have parts: "db_users db' = db_users db" "db_fills db' = filter (human_fill ?b) (db_fills db)" "db_orders db' = filter ?P (db_orders db)"
    using fills_left[OF assms(2), of ?b] by (auto simp: db'_def db2_def deleteEvents_def db1_def deleteFills_def)
  have f1: "db_fills db1 = db_fills db'" using fills_left[OF assms(2), of ?b] parts(2) by (simp add: db1_def)
  have behind: "behind db1 = behind db'" by (simp add: behind_def fun_eq_iff f1)
  have events: "db_events db' = (if keepEvents then db_events db
      else filter (\<lambda>e. \<not> pe_createdAt e < now - hours * 3600000) (db_events db))"
  proof -
    have "db_events db2 = db_events db" by (simp add: db2_def db1_def deleteFills_def)
    moreover have "filter (\<lambda>e. pe_key e \<notin> set (staleEvents now hours db2)) (db_events db2)
        = filter (\<lambda>e. \<not> pe_createdAt e < now - hours * 3600000) (db_events db2)"
      using assms(2) unfolding staleEvents_def keys_ok_def calculation by (simp only: filter_keys)
    ultimately show ?thesis by (simp add: db'_def deleteEvents_def)
  qed
  have ids: "pr_orderId ` set (db_orders db') \<supseteq> {i \<in> pr_orderId ` set (db_orders db).
      \<exists>f \<in> set (db_fills db'). pf_makerOrderId f = i \<or> pf_takerOrderId f = i}"
    by (auto simp: parts(3) behind behind_def intro!: imageI)
  have "refs_ok db'" using assms(1) ids unfolding refs_ok_def parts(1) by (auto simp: parts(2,3))
  moreover have "length (noiseFills ?b db) = length (db_fills db) - length (db_fills db')"
    using length_filter_not[of "\<lambda>f. \<not> human_fill ?b f" "db_fills db"] sum_length_filter_compl[of "human_fill ?b" "db_fills db"]
    by (simp add: noiseFills_def parts(2) human_fill_def[abs_def])
  moreover have "length (orphanOrders ?b db) = length (db_orders db) - length (db_orders db')"
    using sum_length_filter_compl[of ?P "db_orders db"] orphans(2)[OF assms(2), of ?b] by (simp add: parts(3) db1_def[symmetric])
  moreover have "(if keepEvents then 0 else length (staleEvents now hours db)) = length (db_events db) - length (db_events db')"
    using sum_length_filter_compl[of "\<lambda>e. pe_createdAt e < now - hours * 3600000" "db_events db"]
    by (cases keepEvents) (simp_all add: events staleEvents_def del: not_less linorder_not_less)
  ultimately show ?thesis using assms(3,4) t parts behind by (auto simp: pruneBotData_def Let_def)
qed

definition small_db :: database where
  "small_db =
     \<lparr>db_users = [\<lparr>pu_id = ''b'', pu_username = ''market-maker-bot''\<rparr>, \<lparr>pu_id = ''t'', pu_username = ''flow-bot''\<rparr>,
        \<lparr>pu_id = ''h'', pu_username = ''ann''\<rparr>],
      db_orders = [\<lparr>pr_orderId = ''o1'', pr_userId = ''b'', pr_status = Filled\<rparr>, \<lparr>pr_orderId = ''o2'', pr_userId = ''h'', pr_status = Filled\<rparr>,
        \<lparr>pr_orderId = ''o3'', pr_userId = ''b'', pr_status = Open\<rparr>],
      db_fills = [\<lparr>pf_id = ''f1'', pf_makerId = ''b'', pf_takerId = ''h'', pf_makerOrderId = ''o1'', pf_takerOrderId = ''o2''\<rparr>,
        \<lparr>pf_id = ''f2'', pf_makerId = ''b'', pf_takerId = ''t'', pf_makerOrderId = ''o1'', pf_takerOrderId = ''o3''\<rparr>],
      db_events = [\<lparr>pe_key = ''e1'', pe_createdAt = 0\<rparr>, \<lparr>pe_key = ''e2'', pe_createdAt = 90000000\<rparr>]\<rparr>"

definition small_bots :: "string list" where
  "small_bots = [''market-maker-bot'', ''flow-bot'']"

lemma small_db_ok: "refs_ok small_db" "keys_ok small_db" "botIdsOf small_bots small_db = [''b'', ''t'']"
  by (simp_all add: refs_ok_def keys_ok_def small_db_def botIdsOf_def small_bots_def)

lemma pruning_keeps_history_witness:
  "\<exists>report db'. pruneBotData small_bots False False 24 90000000 small_db = Some (report, db') \<and> map pf_id (db_fills db') = [''f1'']
    \<and> refs_ok db'"
proof -
  obtain report where r: "pruneBotData small_bots True False 24 90000000 small_db = Some (report, small_db)"
    by (simp add: pruneBotData_def Let_def small_db_ok)
  have "map pf_id (filter (human_fill [''b'', ''t'']) (db_fills small_db)) = [''f1'']"
    by (simp add: small_db_def human_fill_def)
  then show ?thesis using pruning_keeps_history[OF small_db_ok(1,2) _ r] by (auto simp: small_db_ok(3))
qed

text \<open>
  Pruning again finds nothing: no fill of two bots and no order of a bot that no fill refers to is left.
\<close>

theorem pruning_again_finds_nothing:
  assumes "keys_ok db" "pruneBotData bots False keepEvents hours now db = Some (report, db')" "botIdsOf bots db \<noteq> []"
  shows "noiseFills (botIdsOf bots db') db' = [] \<and> orphanOrders (botIdsOf bots db') db' = []"
proof -
  let ?b = "botIdsOf bots db"
  define db1 where "db1 = deleteFills (noiseFills ?b db) db"
  define db2 where "db2 = db1\<lparr>db_orders := filter (\<lambda>o1. pr_userId o1 \<in> set ?b \<longrightarrow> behind db1 o1) (db_orders db)\<rparr>"
  have e: "db' = (if keepEvents then db2 else deleteEvents (staleEvents now hours db2) db2)"
    using assms(2,3) orders_left[OF assms(1), of ?b]
    by (simp add: pruneBotData_def pruneTransaction_def Let_def db1_def[symmetric] db2_def[symmetric])
  have "db_users db' = db_users db" by (simp add: e db2_def db1_def deleteEvents_def deleteFills_def)
  then have b: "botIdsOf bots db' = ?b" by (simp add: botIdsOf_def)
  have f: "db_fills db' = filter (human_fill ?b) (db_fills db)" "db_fills db1 = filter (human_fill ?b) (db_fills db)"
    using fills_left[OF assms(1), of ?b] by (auto simp: e db2_def db1_def deleteEvents_def)
  have o: "db_orders db' = filter (\<lambda>o1. pr_userId o1 \<in> set ?b \<longrightarrow> behind db1 o1) (db_orders db)"
    by (simp add: e db2_def deleteEvents_def)
  have n: "noiseFills ?b db' = []" unfolding noiseFills_def f by (auto simp: filter_empty_conv human_fill_def)
  have "orphanOrders ?b db' = []"
    unfolding orphanOrders_def n o f(1) by (auto simp: filter_empty_conv behind_def f(2))
  then show ?thesis using n b by simp
qed

text \<open>
  The script does not look at the status: an order of a bot that rests goes with the others, although
  the engine, started again from its backup, still has it in its book.
\<close>

theorem resting_orders_are_pruned:
  "\<exists>report db'. pruneBotData small_bots False True 24 0 (small_db\<lparr>db_fills := []\<rparr>) = Some (report, db')
    \<and> (\<exists>o1 \<in> set (db_orders small_db). pr_status o1 = Open \<and> o1 \<notin> set (db_orders db'))"
proof -
  have k: "keys_ok (small_db\<lparr>db_fills := []\<rparr>)" by (simp add: keys_ok_def small_db_def)
  have b: "botIdsOf small_bots (small_db\<lparr>db_fills := []\<rparr>) = [''b'', ''t'']"
    using small_db_ok(3) by (simp add: botIdsOf_def)
  show ?thesis using orders_left[OF k, of "[''b'', ''t'']"]
    by (simp add: pruneBotData_def pruneTransaction_def Let_def b behind_def deleteFills_def noiseFills_def)
      (simp add: small_db_def)
qed

section \<open>Seeding\<close>

lemma upsert_ids: "mr_id ` set (upsertMarket m rows) = insert (md_id m) (mr_id ` set rows)"
proof -
  have "map mr_id (map (\<lambda>r. if mr_id r = md_id m then rowOf m (mr_imageUrl r) else r) rs) = map mr_id rs" for rs
    by (simp add: rowOf_def)
  then have same: "mr_id ` set (map (\<lambda>r. if mr_id r = md_id m then rowOf m (mr_imageUrl r) else r) rows) = mr_id ` set rows"
    by (metis set_map)
  show ?thesis
  proof (cases "\<exists>r \<in> set rows. mr_id r = md_id m")
    case True
    then have "md_id m \<in> mr_id ` set rows" by (metis image_eqI)
    then show ?thesis using True same by (simp only: upsertMarket_def if_True insert_absorb)
  qed (simp add: upsertMarket_def rowOf_def)
qed

lemma upsert_done:
  "(\<forall>r \<in> set rows. mr_id r = md_id m \<longrightarrow> r = rowOf m (mr_imageUrl r)) \<Longrightarrow> md_id m \<in> mr_id ` set rows \<Longrightarrow> upsertMarket m rows = rows"
  by (auto simp: upsertMarket_def intro!: map_idI)

text \<open>Rows that carry what a definition says, for the definitions given; an upsert of one keeps the others.\<close>

definition conforms :: "MarketDefinition list \<Rightarrow> market_row list \<Rightarrow> bool" where
  "conforms ms rows \<longleftrightarrow> (\<forall>m \<in> set ms. md_id m \<in> mr_id ` set rows \<and> (\<forall>r \<in> set rows. mr_id r = md_id m \<longrightarrow> r = rowOf m (mr_imageUrl r)))"

lemma upsert_conforms:
  assumes "conforms ms rows" "md_id m \<notin> md_id ` set ms" shows "conforms (ms @ [m]) (upsertMarket m rows)"
  using assms unfolding conforms_def upsert_ids by (auto simp: upsertMarket_def rowOf_def)

lemma market_ids_differ: "SOL_ID \<noteq> ETH_ID" "SOL_ID \<noteq> BTC_ID" "ETH_ID \<noteq> BTC_ID"
  by (simp_all add: SOL_ID_def ETH_ID_def BTC_ID_def)

lemma seed_conforms: "conforms MARKET_LIST (seedMarkets rows)"
proof -
  note ids = market_ids_differ
  have "conforms [MARKETS SOL] (upsertMarket (MARKETS SOL) rows)"
    using upsert_conforms[of "[]" rows "MARKETS SOL"] by (simp add: conforms_def)
  from upsert_conforms[OF this, of "MARKETS ETH"] have "conforms [MARKETS SOL, MARKETS ETH] (upsertMarket (MARKETS ETH) (upsertMarket (MARKETS SOL) rows))"
    using ids by simp
  from upsert_conforms[OF this, of "MARKETS BTC"] show ?thesis using ids by (simp add: seedMarkets_def MARKET_LIST_def)
qed

lemma upsert_others:
  assumes "md_id m \<in> A"
  shows "filter (\<lambda>r. mr_id r \<notin> A) (upsertMarket m rs) = filter (\<lambda>r. mr_id r \<notin> A) rs"
proof (cases "\<exists>r \<in> set rs. mr_id r = md_id m")
  case True
  have "filter (\<lambda>r. mr_id r \<notin> A) (map (\<lambda>r. if mr_id r = md_id m then rowOf m (mr_imageUrl r) else r) xs)
      = filter (\<lambda>r. mr_id r \<notin> A) xs" for xs
    using assms by (induction xs) (auto simp: rowOf_def)
  then show ?thesis using True by (simp add: upsertMarket_def)
qed (use assms in \<open>simp add: upsertMarket_def rowOf_def\<close>)

lemma upserts_others:
  "set ms \<subseteq> set MARKET_LIST \<Longrightarrow> filter (\<lambda>r. mr_id r \<notin> md_id ` set MARKET_LIST) (foldl (\<lambda>rows m. upsertMarket m rows) rs ms)
    = filter (\<lambda>r. mr_id r \<notin> md_id ` set MARKET_LIST) rs"
  by (induction ms arbitrary: rs) (simp_all add: upsert_others)

lemma seed_twice: "seedMarkets (seedMarkets rows) = seedMarkets rows"
proof -
  let ?s = "seedMarkets rows"
  have stays: "upsertMarket m ?s = ?s" if "m \<in> set MARKET_LIST" for m
    using seed_conforms[of rows] that by (intro upsert_done) (auto simp: conforms_def)
  have "foldl (\<lambda>rows m. upsertMarket m rows) ?s ms = ?s" if "set ms \<subseteq> set MARKET_LIST" for ms
    using that by (induction ms) (simp_all add: stays)
  then show ?thesis by (subst seedMarkets_def) simp
qed

lemma seed_ids: "mr_id ` set (seedMarkets rows) = mr_id ` set rows \<union> md_id ` set MARKET_LIST"
  by (auto simp: seedMarkets_def MARKET_LIST_def upsert_ids)

lemma definitions_unique: "m \<in> set MARKET_LIST \<Longrightarrow> m' \<in> set MARKET_LIST \<Longrightarrow> md_id m = md_id m' \<Longrightarrow> m = m'"
  using market_ids_differ by (auto simp: MARKET_LIST_def)

lemma seeded_row_parses:
  assumes uuid: "\<And>a. uuid (market_id a)" and known: "mr_id ` set rows \<subseteq> md_id ` set MARKET_LIST" and r: "r \<in> set (seedMarkets rows)"
  shows "\<exists>m \<in> set MARKET_LIST. mr_id r = md_id m \<and> MarketDtoSchema uuid r = Some (m, mr_imageUrl r)"
proof -
  have serve: "MarketDtoSchema uuid (rowOf m url) = Some (m, url)" if "m \<in> set MARKET_LIST" for m url
    using that uuid[of SOL] uuid[of ETH] uuid[of BTC] by (auto simp: MARKET_LIST_def MarketDtoSchema_def rowOf_def)
  obtain m where m: "m \<in> set MARKET_LIST" "r = rowOf m (mr_imageUrl r)"
    using seed_conforms[of rows] r seed_ids[of rows] known unfolding conforms_def by blast
  have "mr_id (rowOf m url) = md_id m" for url by (simp add: rowOf_def)
  then show ?thesis using m serve[OF m(1), of "mr_imageUrl r"] by metis
qed

lemma seeded_markets_are_served:
  assumes "\<And>a. uuid (market_id a)" "mr_id ` set rows \<subseteq> md_id ` set MARKET_LIST"
  shows "\<exists>dtos. getMarkets (MarketDtoSchema uuid) mr_slug (seedMarkets rows) = Inr dtos \<and> set (map fst dtos) = set MARKET_LIST"
proof -
  let ?s = "seedMarkets rows"
  note parse = seeded_row_parses[where uuid = uuid and rows = rows, OF assms]
  then have "find (\<lambda>r. MarketDtoSchema uuid r = None) ?s = None" by (fastforce simp: find_None_iff)
  then have g: "getMarkets (MarketDtoSchema uuid) mr_slug ?s = Inr (map (the \<circ> MarketDtoSchema uuid) ?s)" by (simp add: getMarkets_def)
  have "set (map fst (map (the \<circ> MarketDtoSchema uuid) ?s)) = set MARKET_LIST"
  proof (intro equalityI subsetI)
    fix m assume m: "m \<in> set MARKET_LIST"
    then obtain r where r: "r \<in> set ?s" "mr_id r = md_id m" using seed_ids[of rows] by (metis Un_iff image_iff)
    then obtain m' where "m' \<in> set MARKET_LIST" "mr_id r = md_id m'" "MarketDtoSchema uuid r = Some (m', mr_imageUrl r)"
      using parse by blast
    then show "m \<in> set (map fst (map (the \<circ> MarketDtoSchema uuid) ?s))"
      using r definitions_unique[of m m'] m by (auto simp: image_iff intro!: bexI[of _ r])
  qed (use parse in fastforce)
  with g show ?thesis by blast
qed

text \<open>
  Seeding converges. Seeding twice is seeding once; rows of other markets stay; and in a database
  whose markets are those of the definitions the API then serves exactly these, complete.
\<close>

theorem seeding_converges:
  assumes "\<And>a. uuid (market_id a)"
  shows "seedMarkets (seedMarkets rows) = seedMarkets rows
    \<and> filter (\<lambda>r. mr_id r \<notin> md_id ` set MARKET_LIST) (seedMarkets rows) = filter (\<lambda>r. mr_id r \<notin> md_id ` set MARKET_LIST) rows
    \<and> (mr_id ` set rows \<subseteq> md_id ` set MARKET_LIST \<longrightarrow>
        (\<exists>dtos. getMarkets (MarketDtoSchema uuid) mr_slug (seedMarkets rows) = Inr dtos \<and> set (map fst dtos) = set MARKET_LIST))"
  using seed_twice upserts_others[of MARKET_LIST rows] seeded_markets_are_served[where uuid = uuid, OF assms]
  by (simp add: seedMarkets_def)

lemma seeding_from_nothing:
  "\<exists>dtos. getMarkets (MarketDtoSchema (\<lambda>s. s \<noteq> [])) mr_slug (seedMarkets []) = Inr dtos \<and> set (map fst dtos) = set MARKET_LIST"
proof -
  have "market_id a \<noteq> []" for a by (cases a) (simp_all add: SOL_ID_def ETH_ID_def BTC_ID_def)
  from seeding_converges[where uuid = "\<lambda>s. s \<noteq> []" and rows = "[]", OF this] show ?thesis by simp
qed

text \<open>The caps of the table are those of the engine.\<close>

lemma caps_agree: "market_id a = md_id (MARKETS a)" "market_maxLeverage a = Fin (of_nat (md_maxLeverage (MARKETS a)))"
  by (cases a; simp)+

end
