(* ===== verification/Toasts.thy ===== *)
theory Toasts
  imports OrderForm
begin

text \<open>
  The stack of toasts, \<open>apps/web/components/ui/toast.tsx\<close>: what is shown, what is closed and waits for its
  exit to end, and the timers that drop it if the exit never does. The library that draws a toast tells
  when it wants it closed and when an animation ends; both are events.
\<close>

record toast_item =
  ti_id :: nat
  ti_open :: bool
  ti_options :: ToastOptions

record toasts =
  tt_items :: "toast_item list"
  tt_nextId :: nat
  tt_timers :: "nat list"

definition MAX_VISIBLE :: nat where
  "MAX_VISIBLE = 4"

definition EXIT_GRACE_MS :: nat where
  "EXIT_GRACE_MS = 400"

definition no_toasts :: toasts where
  "no_toasts = \<lparr>tt_items = [], tt_nextId = 0, tt_timers = []\<rparr>"

definition removeToast :: "nat \<Rightarrow> toasts \<Rightarrow> toasts" where
  "removeToast i t = t\<lparr>tt_items := filter (\<lambda>x. ti_id x \<noteq> i) (tt_items t)\<rparr>"

definition closeIf :: "(toast_item \<Rightarrow> bool) \<Rightarrow> toast_item list \<Rightarrow> toast_item list" where
  "closeIf P xs = map (\<lambda>x. if P x then x\<lparr>ti_open := False\<rparr> else x) xs"

definition dismiss :: "nat \<Rightarrow> toasts \<Rightarrow> toasts" where
  "dismiss i t = t\<lparr>tt_items := closeIf (\<lambda>x. ti_id x = i) (tt_items t), tt_timers := tt_timers t @ [i]\<rparr>"

definition toast :: "ToastOptions \<Rightarrow> toasts \<Rightarrow> toasts" where
  "toast options t =
     (let next1 = tt_items t @ [\<lparr>ti_id = tt_nextId t, ti_open = True, ti_options = options\<rparr>];
          live = filter ti_open next1;
          evicted = take (length live - MAX_VISIBLE) live;
          evictedIds = map ti_id evicted
      in if evicted = [] then t\<lparr>tt_items := next1, tt_nextId := tt_nextId t + 1\<rparr>
         else t\<lparr>tt_items := closeIf (\<lambda>x. ti_id x \<in> set evictedIds) next1, tt_nextId := tt_nextId t + 1,
                tt_timers := tt_timers t @ evictedIds\<rparr>)"

text \<open>The library asks for an open toast to be closed; a closed one has played its exit; a timer runs out.\<close>

definition onOpenChangeToast :: "nat \<Rightarrow> toasts \<Rightarrow> toasts" where
  "onOpenChangeToast i t = (if \<exists>x \<in> set (tt_items t). ti_id x = i then dismiss i t else t)"

definition onAnimationEnd :: "nat \<Rightarrow> toasts \<Rightarrow> toasts" where
  "onAnimationEnd i t = (if \<exists>x \<in> set (tt_items t). ti_id x = i \<and> \<not> ti_open x then removeToast i t else t)"

definition timerFires :: "nat \<Rightarrow> toasts \<Rightarrow> toasts" where
  "timerFires i t = (if i \<in> set (tt_timers t) then (removeToast i t)\<lparr>tt_timers := remove1 i (tt_timers t)\<rparr> else t)"

datatype toast_event =
    ShowToast ToastOptions
  | DismissToast nat
  | CloseToast nat
  | AnimationEnds nat
  | TimerFires nat

fun toastStep :: "toast_event \<Rightarrow> toasts \<Rightarrow> toasts" where
  "toastStep (ShowToast options) t = toast options t"
| "toastStep (DismissToast i) t = (if i < tt_nextId t then dismiss i t else t)"
| "toastStep (CloseToast i) t = onOpenChangeToast i t"
| "toastStep (AnimationEnds i) t = onAnimationEnd i t"
| "toastStep (TimerFires i) t = timerFires i t"

definition toastRun :: "toast_event list \<Rightarrow> toasts" where
  "toastRun es = foldl (\<lambda>t e. toastStep e t) no_toasts es"

text \<open>What is on screen.\<close>

definition shown :: "toasts \<Rightarrow> toast_item list" where
  "shown t = filter ti_open (tt_items t)"

text \<open>
  At most four toasts are open, the oldest give way, the newest is always shown, an open one never
  disappears without being closed first, and a closed one always goes, whether its exit plays or not.
\<close>

section \<open>Items in the order they came\<close>

definition idsOf :: "toasts \<Rightarrow> nat list" where
  "idsOf t = map ti_id (tt_items t)"

definition marked :: "toasts \<Rightarrow> bool" where
  "marked t \<longleftrightarrow> (\<forall>x \<in> set (tt_items t). ti_open x \<longleftrightarrow> ti_id x \<notin> set (tt_timers t))"

definition toasts_ok :: "toasts \<Rightarrow> bool" where
  "toasts_ok t \<longleftrightarrow>
     sorted_wrt (<) (idsOf t) \<and> (\<forall>i \<in> set (idsOf t) \<union> set (tt_timers t). i < tt_nextId t)
     \<and> length (shown t) \<le> MAX_VISIBLE \<and> marked t"

lemma closeIf_ids: "map ti_id (closeIf P xs) = map ti_id xs"
  by (simp add: closeIf_def)

lemma closeIf_shown: "filter ti_open (closeIf P xs) = filter (\<lambda>x. \<not> P x) (filter ti_open xs)"
  by (induction xs) (auto simp: closeIf_def)

lemma remove_ids: "idsOf (removeToast i t) = filter (\<lambda>j. j \<noteq> i) (idsOf t)"
  by (simp add: idsOf_def removeToast_def filter_map comp_def)

lemma remove_shown: "shown (removeToast i t) = filter (\<lambda>x. ti_id x \<noteq> i) (shown t)"
  by (simp add: shown_def removeToast_def conj_commute)

lemma remove_fields [simp]: "tt_nextId (removeToast i t) = tt_nextId t" "tt_timers (removeToast i t) = tt_timers t"
  by (simp_all add: removeToast_def)

lemma marked_remove: "marked t \<Longrightarrow> marked (removeToast i t)"
  by (simp add: marked_def removeToast_def)

lemma marked_timer: "marked t \<Longrightarrow> marked ((removeToast i t)\<lparr>tt_timers := remove1 i (tt_timers t)\<rparr>)"
  by (simp add: marked_def removeToast_def in_set_remove1)

lemma marked_dismiss: "marked t \<Longrightarrow> marked (dismiss i t)"
  unfolding marked_def dismiss_def closeIf_def by auto

lemma shown_dismiss: "shown (dismiss i t) = filter (\<lambda>x. ti_id x \<noteq> i) (shown t)"
  by (simp add: shown_def dismiss_def closeIf_shown del: filter_filter)

lemma fewer: "length (shown t) \<le> MAX_VISIBLE \<Longrightarrow> length (filter P (shown t)) \<le> MAX_VISIBLE"
  using length_filter_le[of P "shown t"] by linarith

lemma remove_toast_ok: "toasts_ok t \<Longrightarrow> toasts_ok (removeToast i t)"
  unfolding toasts_ok_def remove_ids remove_shown
  by (auto simp: marked_remove fewer sorted_wrt_filter)

lemma dismiss_ok: "toasts_ok t \<Longrightarrow> i < tt_nextId t \<Longrightarrow> toasts_ok (dismiss i t)"
  unfolding toasts_ok_def shown_dismiss by (simp add: marked_dismiss fewer) (simp add: idsOf_def dismiss_def closeIf_ids)

lemma timer_ok: "toasts_ok t \<Longrightarrow> toasts_ok (timerFires i t)"
proof -
  assume ok: "toasts_ok t"
  have "toasts_ok (removeToast i t)" by (rule remove_toast_ok[OF ok])
  moreover have "marked ((removeToast i t)\<lparr>tt_timers := remove1 i (tt_timers t)\<rparr>)"
    by (rule marked_timer) (use ok in \<open>simp add: toasts_ok_def\<close>)
  ultimately show ?thesis using ok set_remove1_subset[of i "tt_timers t"]
    by (auto simp: timerFires_def toasts_ok_def idsOf_def shown_def)
qed

text \<open>What showing one more does: with fewer than four open they stay, else the oldest is closed.\<close>

lemma evicted_live:
  assumes "length live \<le> MAX_VISIBLE"
  shows "take (length (live @ [new]) - MAX_VISIBLE) (live @ [new]) = (if length live = MAX_VISIBLE then [hd live] else [])"
  using assms by (cases live) (auto simp: MAX_VISIBLE_def)

definition added :: "ToastOptions \<Rightarrow> toasts \<Rightarrow> toasts" where
  "added options t = t\<lparr>tt_items := tt_items t @ [\<lparr>ti_id = tt_nextId t, ti_open = True, ti_options = options\<rparr>], tt_nextId := tt_nextId t + 1\<rparr>"

lemma shown_in: "x \<in> set (shown t) \<Longrightarrow> x \<in> set (tt_items t) \<and> ti_open x"
  by (simp add: shown_def)

lemma toast_cases:
  assumes "toasts_ok t"
  shows "toast options t =
    (if length (shown t) < MAX_VISIBLE then added options t else added options (dismiss (ti_id (hd (shown t))) t))"
proof -
  define new where "new = \<lparr>ti_id = tt_nextId t, ti_open = True, ti_options = options\<rparr>"
  have le: "length (shown t) \<le> MAX_VISIBLE" using assms by (simp add: toasts_ok_def)
  have live: "filter ti_open (tt_items t @ [new]) = shown t @ [new]" by (simp add: shown_def new_def)
  have u: "toast options t =
     (if take (length (shown t @ [new]) - MAX_VISIBLE) (shown t @ [new]) = [] then added options t
      else (let evictedIds = map ti_id (take (length (shown t @ [new]) - MAX_VISIBLE) (shown t @ [new]))
            in t\<lparr>tt_items := closeIf (\<lambda>x. ti_id x \<in> set evictedIds) (tt_items t @ [new]), tt_nextId := tt_nextId t + 1,
                tt_timers := tt_timers t @ evictedIds\<rparr>))"
    unfolding toast_def Let_def added_def new_def[symmetric] live by (rule refl)
  show ?thesis
  proof (cases "length (shown t) < MAX_VISIBLE")
    case True
    then show ?thesis unfolding u evicted_live[OF le] by simp
  next
    case False
    then have f: "length (shown t) = MAX_VISIBLE" using le by simp
    then have "hd (shown t) \<in> set (shown t)" by (cases "shown t") (auto simp: MAX_VISIBLE_def)
    then have "ti_id (hd (shown t)) \<in> set (idsOf t)" using shown_in by (simp add: idsOf_def)
    then have "ti_id (hd (shown t)) \<noteq> tt_nextId t" using assms by (auto simp: toasts_ok_def)
    then show ?thesis unfolding u evicted_live[OF le] using f by (simp add: added_def dismiss_def closeIf_def new_def)
  qed
qed

lemma added_ok: "toasts_ok t \<Longrightarrow> length (shown t) < MAX_VISIBLE \<Longrightarrow> toasts_ok (added options t)"
  unfolding toasts_ok_def marked_def idsOf_def shown_def added_def by (auto simp: sorted_wrt_append less_Suc_eq)

lemma dismissed_fewer:
  assumes "shown t \<noteq> []" shows "length (shown (dismiss (ti_id (hd (shown t))) t)) < length (shown t)"
  unfolding shown_dismiss using assms by (intro length_filter_less[of "hd (shown t)"]) auto

lemma full_shown: "\<not> length (shown t) < MAX_VISIBLE \<Longrightarrow> shown t \<noteq> [] \<and> ti_id (hd (shown t)) \<in> set (idsOf t)"
  using shown_in[of "hd (shown t)" t] by (cases "shown t") (auto simp: MAX_VISIBLE_def idsOf_def)

lemma toast_ok:
  assumes "toasts_ok t" shows "toasts_ok (toast options t)"
proof (cases "length (shown t) < MAX_VISIBLE")
  case True
  then show ?thesis using assms by (simp add: toast_cases added_ok)
next
  case False
  let ?d = "dismiss (ti_id (hd (shown t))) t"
  have "toasts_ok ?d" using assms full_shown[OF False] by (intro dismiss_ok) (auto simp: toasts_ok_def)
  moreover have "length (shown ?d) < MAX_VISIBLE"
    using dismissed_fewer[of t] full_shown[OF False] assms by (auto simp: toasts_ok_def)
  ultimately show ?thesis using False assms by (simp add: toast_cases added_ok)
qed

lemma toast_step_ok: "toasts_ok t \<Longrightarrow> toasts_ok (toastStep e t)"
proof (cases e)
  case (CloseToast i)
  assume ok: "toasts_ok t"
  then have "i < tt_nextId t" if "\<exists>x \<in> set (tt_items t). ti_id x = i" using that by (auto simp: toasts_ok_def idsOf_def)
  then show ?thesis using CloseToast ok by (simp add: onOpenChangeToast_def dismiss_ok)
qed (simp_all add: toast_ok timer_ok remove_toast_ok dismiss_ok onAnimationEnd_def)

lemma toast_run_snoc: "toastRun (es @ [e]) = toastStep e (toastRun es)"
  by (simp add: toastRun_def)

lemma toast_run_ok: "toasts_ok (toastRun es)"
proof (induction es rule: rev_induct)
  case (snoc e es)
  then show ?case using toast_step_ok by (simp add: toast_run_snoc)
qed (simp add: toastRun_def no_toasts_def toasts_ok_def shown_def idsOf_def marked_def)

section \<open>The stack\<close>

text \<open>
  The stack stays readable and nothing is lost in it. Whatever is shown, dismissed and animated, at most
  four toasts are open, and showing one more leaves it open as the last, all others but the oldest
  beside it; a toast that is open stays until it is closed, so that only closed ones are removed; and
  when the timers have run out every toast still held is open.
\<close>

theorem toasts_are_few_and_kept:
  fixes es options
  defines "t \<equiv> toastRun es"
  shows "length (shown t) \<le> 4
    \<and> shown (toast options t) = drop (length (shown t) + 1 - 4) (shown t) @ [\<lparr>ti_id = tt_nextId t, ti_open = True, ti_options = options\<rparr>]
    \<and> shown (timerFires i t) = shown t \<and> shown (onAnimationEnd i t) = shown t
    \<and> shown (dismiss i t) = filter (\<lambda>x. ti_id x \<noteq> i) (shown t)
    \<and> (tt_timers t = [] \<longrightarrow> shown t = tt_items t)"
proof -
  have ok: "toasts_ok t" unfolding t_def by (rule toast_run_ok)
  have m: "ti_open x \<longleftrightarrow> ti_id x \<notin> set (tt_timers t)" if "x \<in> set (tt_items t)" for x
    using ok that by (auto simp: toasts_ok_def marked_def)
  have le: "length (shown t) \<le> 4" using ok by (simp add: toasts_ok_def MAX_VISIBLE_def)
  have a: "shown (added options u) = shown u @ [\<lparr>ti_id = tt_nextId u, ti_open = True, ti_options = options\<rparr>]" for u
    by (simp add: shown_def added_def)
  have first: "filter (\<lambda>x. ti_id x \<noteq> ti_id (hd (shown t))) (shown t) = tl (shown t)"
  proof (cases "shown t")
    case (Cons y ys)
    have "sorted_wrt (<) (map ti_id (shown t))"
      using ok unfolding toasts_ok_def idsOf_def shown_def by (simp add: sorted_wrt_map sorted_wrt_filter)
    then have "\<forall>x \<in> set ys. ti_id x \<noteq> ti_id y" using Cons by auto
    then show ?thesis using Cons by (auto simp: filter_id_conv)
  qed simp
  have n: "tt_nextId (dismiss j t) = tt_nextId t" for j by (simp add: dismiss_def)
  have show_more: "shown (toast options t) = drop (length (shown t) + 1 - 4) (shown t) @ [\<lparr>ti_id = tt_nextId t, ti_open = True, ti_options = options\<rparr>]"
    using le first by (auto simp: toast_cases[OF ok] a shown_dismiss n MAX_VISIBLE_def drop_Suc)
  have "filter (\<lambda>x. ti_id x \<noteq> i) (shown t) = shown t" if "i \<in> set (tt_timers t)"
    unfolding shown_def filter_filter by (rule filter_cong) (use that m in auto)
  then have timer: "shown (timerFires i t) = shown t"
    using remove_shown[of i t] by (simp add: timerFires_def shown_def)
  have "filter (\<lambda>x. ti_id x \<noteq> i) (shown t) = shown t" if "x \<in> set (tt_items t)" "ti_id x = i" "\<not> ti_open x" for x
    unfolding shown_def filter_filter by (rule filter_cong) (use that m in auto)
  then have animation: "shown (onAnimationEnd i t) = shown t" using remove_shown[of i t] by (auto simp: onAnimationEnd_def)
  have "shown t = tt_items t" if "tt_timers t = []" using m that by (simp add: shown_def filter_id_conv)
  then show ?thesis using le show_more timer animation shown_dismiss by blast
qed

end
