(* ===== verification/Dialogs.thy ===== *)
theory Dialogs
  imports OrderForm Account PositionsPanel
begin

text \<open>
  The dialogs and row actions of the terminal that move money: the deposit
  (\<open>components/terminal/deposit-dialog.tsx\<close>) and, of \<open>account-tabs.tsx\<close>, the close of a position, the
  cancel of an order and the choice between the states of a tab. A button that is disabled or loading
  takes no click. An error that is no
  \<open>ApiError\<close> is \<open>None\<close>. A string is of 8-bit characters, so a dash of the copy is written with two hyphens.
\<close>

section \<open>The deposit\<close>

record deposit_dialog =
  dd_open :: bool
  dd_amount :: string
  dd_pending :: bool
  dd_submitError :: "string option"

definition PRESETS :: "nat list" where
  "PRESETS = [100, 500, 1000, 5000]"

definition mountDeposit :: deposit_dialog where
  "mountDeposit = \<lparr>dd_open = False, dd_amount = [], dd_pending = False, dd_submitError = None\<rparr>"

definition depositValue :: "deposit_dialog \<Rightarrow> jsnum" where
  "depositValue d = parsedOrZero (dd_amount d)"

definition depositError :: "deposit_dialog \<Rightarrow> string option" where
  "depositError d =
     (case dd_submitError d of
        Some e \<Rightarrow> Some e
      | None \<Rightarrow> if dd_amount d \<noteq> [] \<and> depositValue d \<le> 0 then Some ''Amount must be greater than 0.'' else None)"

definition canDeposit :: "deposit_dialog \<Rightarrow> bool" where
  "canDeposit d \<longleftrightarrow> depositValue d > 0 \<and> (dd_submitError d = None \<or> dd_submitError d = Some [])"

definition changeAmount :: "string \<Rightarrow> deposit_dialog \<Rightarrow> deposit_dialog" where
  "changeAmount amount d = d\<lparr>dd_amount := amount\<rparr>"

definition depositOpenChange :: "bool \<Rightarrow> deposit_dialog \<Rightarrow> deposit_dialog" where
  "depositOpenChange next d = (let d1 = d\<lparr>dd_open := next\<rparr> in if next then d1 else d1\<lparr>dd_amount := []\<rparr>)"

text \<open>\<open>submit\<close> up to its request, whose body has the amount as a number.\<close>

definition onrampBody :: "string \<Rightarrow> jsnum" where
  "onrampBody amount = js_number amount"

definition submitDeposit :: "deposit_dialog \<Rightarrow> deposit_dialog \<times> jsnum option" where
  "submitDeposit d =
     (if \<not> canDeposit d \<or> dd_pending d then (d, None)
      else (d\<lparr>dd_pending := True, dd_submitError := None\<rparr>, Some (onrampBody (dd_amount d))))"

text \<open>Its answer, with the available collateral, which is applied to the account; its failure.\<close>

definition depositAnswered :: "string \<Rightarrow> deposit_dialog \<times> AccountState \<Rightarrow> deposit_dialog \<times> AccountState" where
  "depositAnswered av s =
     ((fst s)\<lparr>dd_open := False, dd_amount := [], dd_pending := False\<rparr>, applyDeposit av (snd s))"

definition depositFailed :: "ApiError option \<Rightarrow> deposit_dialog \<Rightarrow> deposit_dialog" where
  "depositFailed err d =
     d\<lparr>dd_submitError := Some (case err of Some e \<Rightarrow> ae_message e | None \<Rightarrow> ''Could not complete the deposit.''),
       dd_pending := False\<rparr>"

text \<open>
  What happens to the dialog: its opening and dismissal, the amount typed, stepped or picked, the click on
  the button, and the answer or failure of the request that is out. The account changes on its own, too.
\<close>

datatype deposit_event =
    ShowDeposit bool
  | TypeAmount string
  | StepAmount bool
  | PresetAmount nat
  | DepositClick
  | DepositAnswer string
  | DepositError "ApiError option"
  | AccountChange AccountState

definition depositStep ::
  "deposit_event \<Rightarrow> deposit_dialog \<times> AccountState \<Rightarrow> (deposit_dialog \<times> AccountState) \<times> jsnum list" where
  "depositStep e s =
     (case s of (d, a) \<Rightarrow>
        (case e of
           ShowDeposit next \<Rightarrow> ((depositOpenChange next d, a), [])
         | TypeAmount raw \<Rightarrow>
             ((if dd_open d then changeAmount (handleChange False raw (dd_amount d)) d else d, a), [])
         | StepAmount up \<Rightarrow>
             ((if dd_open d then changeAmount (nudge False (Fin 100) (Some 0) None up (dd_amount d)) d else d, a), [])
         | PresetAmount n \<Rightarrow>
             ((if dd_open d \<and> n \<in> set PRESETS then changeAmount (digits_of n) d else d, a), [])
         | DepositClick \<Rightarrow>
             (if \<not> dd_open d then ((d, a), [])
              else (case submitDeposit d of (d', request) \<Rightarrow> ((d', a), outstanding request)))
         | DepositAnswer av \<Rightarrow> (if dd_pending d then depositAnswered av (d, a) else (d, a), [])
         | DepositError err \<Rightarrow> ((if dd_pending d then depositFailed err d else d, a), [])
         | AccountChange a' \<Rightarrow> ((d, a'), [])))"

fun depositRun ::
  "deposit_event list \<Rightarrow> deposit_dialog \<times> AccountState \<Rightarrow> (deposit_dialog \<times> AccountState) \<times> jsnum list" where
  "depositRun [] s = (s, [])"
| "depositRun (e # es) s =
     (case depositStep e s of (s1, sent) \<Rightarrow> (case depositRun es s1 of (s2, sent') \<Rightarrow> (s2, sent @ sent')))"

section \<open>Closing a position\<close>

record close_dialog =
  cd_open :: bool
  cd_failure :: "(string \<times> string) option"

text \<open>The title and the words of a failure; none for one that is reported elsewhere.\<close>

definition closeFailure :: "ApiError option \<Rightarrow> (string \<times> string) option" where
  "closeFailure err =
     (case err of
        None \<Rightarrow> Some (''Could not close position'', ''The order could not be placed.'')
      | Some e \<Rightarrow>
          if isSilent e then None
          else if isOutcomeUnknown e
          then Some (''Close not confirmed'',
                 followedBy (ae_message e)
                   ''This close may still have gone through -- check your positions before trying again.'')
          else Some (''Could not close position'', rejectionMessage e))"

definition closeOpenChange :: "bool \<Rightarrow> close_dialog \<Rightarrow> close_dialog" where
  "closeOpenChange next c =
     (let c1 = (if next then c else c\<lparr>cd_failure := None\<rparr>) in c1\<lparr>cd_open := next\<rparr>)"

text \<open>
  The dialog of the position of a market beside the provider: the click, whose request the provider makes,
  and its end.
\<close>

definition clickClose :: "string \<Rightarrow> close_dialog \<times> positions_panel \<Rightarrow> close_dialog \<times> positions_panel" where
  "clickClose marketId s =
     (case s of (c, p) \<Rightarrow>
        if \<not> cd_open c \<or> marketId \<in> set (ps_closing p) then (c, p)
        else (c\<lparr>cd_failure := None\<rparr>, startClose marketId p))"

definition closeSucceeds :: "string \<Rightarrow> close_dialog \<times> positions_panel \<Rightarrow> close_dialog \<times> positions_panel" where
  "closeSucceeds marketId s =
     (case s of (c, p) \<Rightarrow> (c\<lparr>cd_open := False, cd_failure := None\<rparr>, endClose marketId p))"

definition closeFails :: "ApiError option \<Rightarrow> string \<Rightarrow> close_dialog \<times> positions_panel \<Rightarrow> close_dialog \<times> positions_panel" where
  "closeFails err marketId s =
     (case s of (c, p) \<Rightarrow>
        (case closeFailure err of None \<Rightarrow> c | Some f \<Rightarrow> c\<lparr>cd_failure := Some f\<rparr>, endClose marketId p))"

datatype close_event =
    CloseDialogChange bool
  | CloseClick
  | CloseDone
  | CloseError "ApiError option"

definition closeStep :: "string \<Rightarrow> close_event \<Rightarrow> close_dialog \<times> positions_panel \<Rightarrow> close_dialog \<times> positions_panel" where
  "closeStep marketId e s =
     (case e of
        CloseDialogChange next \<Rightarrow> (closeOpenChange next (fst s), snd s)
      | CloseClick \<Rightarrow> clickClose marketId s
      | CloseDone \<Rightarrow> if marketId \<in> set (ps_closing (snd s)) then closeSucceeds marketId s else s
      | CloseError err \<Rightarrow> if marketId \<in> set (ps_closing (snd s)) then closeFails err marketId s else s)"

section \<open>Cancelling an order\<close>

definition cancelToast :: "ApiError option \<Rightarrow> (string \<times> string) option" where
  "cancelToast err =
     (case err of
        None \<Rightarrow> Some (''Could not cancel order'', ''The order is still resting on the book.'')
      | Some e \<Rightarrow>
          if isSilent e then None
          else if isOutcomeUnknown e
          then Some (''Cancel not confirmed'',
                 followedBy (ae_message e) ''The order is shown as it was -- it may still have been cancelled.'')
          else Some (''Could not cancel order'', ae_message e))"

section \<open>A tab\<close>

datatype tab_view = SkeletonView | ErrorView | EmptyView | TableView

definition tabPanel :: "bool \<Rightarrow> bool \<Rightarrow> bool \<Rightarrow> tab_view" where
  "tabPanel loading failed isEmpty =
     (if loading then SkeletonView else if failed then ErrorView else if isEmpty then EmptyView else TableView)"

definition positionsTab :: "PositionsState \<Rightarrow> tab_view" where
  "positionsTab st =
     (let openPositions = (case st of PositionsReady entries marks \<Rightarrow> entries | _ \<Rightarrow> [])
      in tabPanel (st = PositionsLoading) (case st of PositionsError m \<Rightarrow> True | _ \<Rightarrow> False) (openPositions = []))"

text \<open>
  A deposit is asked for once, for the amount on screen; no failure of a write is called a refusal when
  its outcome is unknown and the code can tell; and what goes wrong around the dialogs.
\<close>

section \<open>The amount of a deposit\<close>

lemma digits_plain: "digits_only s \<Longrightarrow> list_all plain_char s"
  by (auto simp: digits_only_def list_all_iff plain_char_def)

lemma digits_takeWhile: "digits_only s \<Longrightarrow> takeWhile is_digit s = s" "digits_only s \<Longrightarrow> dropWhile is_digit s = []"
  by (simp_all add: digits_only_def)

lemma allowed_plain: "allowedText False s \<Longrightarrow> list_all plain_char s"
proof -
  assume a: "allowedText False s"
  have "list_all plain_char (takeWhile is_digit s)"
    by (auto simp: list_all_iff plain_char_def dest: set_takeWhileD)
  moreover have "list_all plain_char (dropWhile is_digit s)"
    using a digits_plain by (cases "dropWhile is_digit s") (auto simp: allowedText_def Let_def plain_char_def simp del: dropWhile_eq_Nil_conv)
  ultimately show ?thesis
    by (metis list_all_append takeWhile_dropWhile_id)
qed

lemma allowed_read:
  assumes "allowedText False s"
  shows "js_unsigned s \<noteq> None \<or> s = [] \<or> s = ''.''"
proof -
  have s: "s = takeWhile is_digit s @ dropWhile is_digit s" by simp
  show ?thesis
  proof (cases "dropWhile is_digit s")
    case Nil
    then show ?thesis using s by (simp add: js_unsigned_def Let_def del: dropWhile_eq_Nil_conv takeWhile_eq_all_conv)
  next
    case (Cons c t)
    then have "c = CHR ''.''" "digits_only t" using assms by (auto simp: allowedText_def Let_def)
    then show ?thesis using s Cons by (auto simp: js_unsigned_def Let_def digits_takeWhile)
  qed
qed

text \<open>Text that is one unsigned literal is the same number to both readers.\<close>

lemma readers_agree:
  assumes "js_unsigned s = Some v" "list_all plain_char s"
  shows "js_number s = js v" "js_parse_float s = js v"
proof -
  obtain c t where ct: "s = c # t" "is_digit c \<or> c = CHR ''.''" using js_unsigned_head assms(1) by blast
  have c: "c \<noteq> CHR ''-''" "c \<noteq> CHR ''+''" "c \<noteq> CHR ''I''" "\<not> is_space c"
    using ct(2) by (auto simp: is_digit_def is_space_def)
  have np: "\<not> plain_char (CHR ''x'')" "\<not> plain_char (CHR ''X'')" "\<not> plain_char (CHR ''o'')"
    "\<not> plain_char (CHR ''O'')" "\<not> plain_char (CHR ''b'')" "\<not> plain_char (CHR ''B'')"
    by (simp_all add: plain_char_def is_digit_def)
  have h: "take 1 t \<noteq> [d]" if "\<not> plain_char d" for d using assms(2) ct(1) that by (cases t) auto
  have t2: "take 2 (c # t) = c # take 1 t" by (simp add: numeral_2_eq_2)
  show "js_number s = js v"
    using assms(1) c h np t2 unfolding js_number_def trim_plain[OF assms(2)] Let_def by (simp add: ct(1))
  have inf: "take 8 (c # t) \<noteq> ''Infinity''" using c(3) by (simp add: numeral_eq_Suc)
  have "find (\<lambda>n. js_unsigned (take n (c # t)) \<noteq> None) (rev [1..<Suc (length (c # t))]) = Some (length (c # t))"
    using longest_prefix assms(1) by (simp only: ct(1))
  then show "js_parse_float s = js v"
    using assms(1) c inf unfolding ct(1) js_parse_float_def Let_def by (simp del: upt_Suc)
qed

text \<open>What the field can hold: what its pattern lets through, and what its buttons print.\<close>

definition amountText :: "string \<Rightarrow> bool" where
  "amountText s \<longleftrightarrow> allowedText False s \<or> (\<exists>x. is_double x \<and> x \<noteq> NaN \<and> s = js_string x)"

lemma dot_is_nothing: "parsedOrZero [] = 0" "parsedOrZero ''.'' = 0"
  by (simp_all add: parsedOrZero_def js_parse_float_def is_space_def js_unsigned_def js_truthy_def)

lemma js_parse_float_infinite: "js_parse_float (js_string PInf) = PInf" "js_parse_float (js_string NInf) = NInf"
  by (simp_all add: js_parse_float_def is_space_def js_string.simps Let_def del: upt_Suc)

lemma amount_read:
  assumes "amountText s" "parsedOrZero s > 0"
  shows "js_number s = parsedOrZero s"
proof -
  consider "allowedText False s" | x where "is_double x" "x \<noteq> NaN" "s = js_string x" using assms(1) by (auto simp: amountText_def)
  then show ?thesis
  proof cases
    case 1
    have "s \<noteq> []" "s \<noteq> ''.''" using assms(2) dot_is_nothing by auto
    then obtain v where "js_unsigned s = Some v" using allowed_read[OF 1] by auto
    from readers_agree[OF this allowed_plain[OF 1]] show ?thesis
      using assms(2) by (auto simp: parsedOrZero_def split: if_splits)
  next
    case 2
    have "js_parse_float s = x"
    proof (cases x)
      case (Fin r)
      then show ?thesis using 2 js_parse_float_string by simp
    qed (use 2 js_parse_float_infinite in simp_all)
    then show ?thesis using js_number_string[OF 2(1)] 2(3) assms(2) by (auto simp: parsedOrZero_def split: if_splits)
  qed
qed


lemma digits_of_allowed: "allowedText False (digits_of n)"
  using digits_of_digits[of n] by (simp add: allowedText_def list_all_iff dropWhile_eq_Nil_conv[THEN iffD2])

lemma allowed_fixed: "allowedText False (fixedDigits d n)"
proof -
  have dots: "allowedText False (a @ CHR ''.'' # b)" if "\<forall>c \<in> set a. is_digit c" "digits_only b" for a b
    using that by (simp add: allowedText_def takeWhile_append dropWhile_append)
  have "\<forall>c \<in> set (replicate (d + 1 - length (digits_of n)) (CHR ''0'') @ digits_of n). is_digit c"
    using digits_of_digits[of n] by (auto simp: list_all_iff is_digit_def)
  moreover have "allowedText False (take k p @ ''.'' @ drop k p)" if "\<forall>c \<in> set p. is_digit c" for k p
    using dots that by (simp add: digits_only_def) (meson in_set_takeD in_set_dropD)
  ultimately show ?thesis using digits_of_allowed[of n] unfolding fixedDigits_def Let_def
    by (simp only: split: if_split) blast
qed

lemma amountTexts: "allowedText False s \<Longrightarrow> amountText s" "is_double x \<Longrightarrow> x \<noteq> NaN \<Longrightarrow> amountText (js_string x)"
  "amountText []"
  by (auto simp: amountText_def allowedText_def)

lemma fixed_amount: "is_double x \<Longrightarrow> x \<noteq> NaN \<Longrightarrow> \<not> x < 0 \<Longrightarrow> amountText (toFixed d x)"
  using allowed_fixed amountTexts by (cases x) (auto simp: toFixed_def zero_jsnum_def)

lemma stepped: "is_double (Fin a) \<Longrightarrow> \<exists>r. Fin a + (if up then 1 else - 1) * Fin 100 = js r"
  by (auto simp: one_jsnum_def)

lemma nudge_amount: "amountText (nudge False (Fin 100) (Some 0) None up s)"
proof -
  define base where "base = (if js_finite (js_parse_float s) then js_parse_float s else 0)"
  obtain a where a: "base = Fin a" "is_double (Fin a)"
    using is_double_js_parse_float[of s] by (cases "js_parse_float s") (auto simp: base_def zero_jsnum_def js_finite_def simp del: is_double_simps(1))
  obtain r where r: "base + (if up then 1 else - 1) * Fin 100 = js r" using stepped a by metis
  have n: "js r \<noteq> NaN" by (simp add: js_def Let_def)
  have "amountText (toFixed d (clampTo (Some 0) None (js r)))" for d
    using n by (auto simp: clampTo_def intro!: fixed_amount)
  then show ?thesis unfolding nudge_def Let_def base_def[symmetric] r .
qed

section \<open>One deposit at a time\<close>

abbreviation ends :: "deposit_event \<Rightarrow> bool" where
  "ends e \<equiv> (case e of DepositAnswer av \<Rightarrow> True | DepositError err \<Rightarrow> True | _ \<Rightarrow> False)"

lemma amount_kept:
  assumes "amountText (dd_amount (fst s))" "depositStep e s = (s', sent)"
  shows "amountText (dd_amount (fst s'))"
proof -
  obtain d a where s: "s = (d, a)" by fastforce
  note [simp] = amountTexts(3)
  have [simp]: "amountText (digits_of n)" for n using digits_of_allowed amountTexts(1) by simp
  have [simp]: "amountText (handleChange False raw (dd_amount d))" for raw
    using assms(1) s amountTexts(1) by (simp add: handleChange_def)
  have [simp]: "dd_amount (fst (submitDeposit d)) = dd_amount d" by (simp add: submitDeposit_def)
  show ?thesis using assms nudge_amount unfolding s
    by (cases e) (auto simp: depositStep_def depositOpenChange_def changeAmount_def Let_def split_beta
        depositAnswered_def depositFailed_def split: if_splits)
qed

lemma run_amounts:
  assumes "depositRun es s = (s', sent)" "amountText (dd_amount (fst s))" "x \<in> set sent"
  shows "\<exists>d. x = depositValue d \<and> x > 0 \<and> canDeposit d"
  using assms
proof (induction es arbitrary: s sent)
  case (Cons e es)
  obtain s1 new rest where r: "depositStep e s = (s1, new)" "depositRun es s1 = (s', rest)" "sent = new @ rest"
    using Cons.prems(1) by (auto split: prod.splits)
  have "\<exists>d. x = depositValue d \<and> x > 0 \<and> canDeposit d" if "x \<in> set new"
  proof -
    obtain d a where s: "s = (d, a)" by fastforce
    have "canDeposit d \<and> x = js_number (dd_amount d)"
      using r(1) that s by (cases e) (auto simp: depositStep_def submitDeposit_def onrampBody_def split: if_splits)
    then show ?thesis using amount_read Cons.prems(2) s by (auto simp: canDeposit_def depositValue_def)
  qed
  then show ?case using Cons.IH[OF r(2) amount_kept[OF Cons.prems(2) r(1)]] Cons.prems(3) r(3) by auto
qed simp

lemma run_amount_kept:
  "depositRun es s = (s', sent) \<Longrightarrow> amountText (dd_amount (fst s)) \<Longrightarrow> amountText (dd_amount (fst s'))"
proof (induction es arbitrary: s sent)
  case (Cons e es)
  then show ?case using amount_kept[of s e] by (auto split: prod.splits)
qed simp

lemma run_sends_once:
  assumes "depositRun es s = (s', sent)" "\<forall>e \<in> set es. \<not> ends e"
  shows "(if dd_pending (fst s) then sent = [] \<and> dd_pending (fst s')
    else length sent \<le> 1 \<and> (dd_pending (fst s') \<longleftrightarrow> sent \<noteq> []))"
  using assms
proof (induction es arbitrary: s sent)
  case (Cons e es)
  obtain s1 new rest where r: "depositStep e s = (s1, new)" "depositRun es s1 = (s', rest)" "sent = new @ rest"
    using Cons.prems(1) by (auto split: prod.splits)
  have "if dd_pending (fst s) then new = [] \<and> dd_pending (fst s1)
      else length new \<le> 1 \<and> (dd_pending (fst s1) \<longleftrightarrow> new \<noteq> [])"
    using r(1) Cons.prems(2) by (cases s; cases e) (auto simp: depositStep_def depositOpenChange_def changeAmount_def Let_def
        submitDeposit_def split: if_splits)
  then show ?case using Cons.IH[OF r(2)] Cons.prems(2) r(3) by (auto split: if_splits)
qed auto

text \<open>
  A deposit is sent once, for the amount on screen. However the dialog is opened, dismissed, filled in and
  clicked, between two ends of a request at most one is sent, none while one is out; and the number sent,
  which is read by another function than the one shown, is the positive amount the dialog showed.
\<close>

theorem deposit_is_sent_once:
  assumes "depositRun es (mountDeposit, a) = (s, sent)" "depositRun es' s = (s', sent')" "\<forall>e \<in> set es'. \<not> ends e"
  shows "length sent' \<le> 1 \<and> (dd_pending (fst s) \<longrightarrow> sent' = []) \<and> (sent' \<noteq> [] \<longrightarrow> dd_pending (fst s'))
    \<and> (\<forall>x \<in> set sent \<union> set sent'. \<exists>d. x = depositValue d \<and> x > 0 \<and> canDeposit d)"
proof -
  have m: "amountText (dd_amount (fst (mountDeposit, a)))" using amountTexts(3) by (simp add: mountDeposit_def)
  show ?thesis using run_sends_once[OF assms(2,3)] run_amounts[OF assms(1) m] run_amounts[OF assms(2) run_amount_kept[OF assms(1) m]]
    by (auto split: if_splits)
qed

lemma deposit_is_sent_once_witness:
  "\<exists>d. depositValue d > 0 \<and> canDeposit d"
proof -
  let ?d = "\<lparr>dd_open = True, dd_amount = ''100'', dd_pending = False, dd_submitError = None\<rparr>"
  have h: "js_unsigned ''100'' = Some 100" by (simp add: js_unsigned_def is_digit_def nat_of_digits_def digit_val_def)
  have p: "list_all plain_char ''100''" by (simp add: plain_char_def is_digit_def)
  have v: "depositValue ?d = Fin 100"
    using readers_agree[OF h p] by (simp add: depositValue_def parsedOrZero_def)
  have d: "handleChange False ''100'' [] = ''100''" by (simp add: handleChange_def allowedText_def is_digit_def)
  have one: "depositRun [ShowDeposit True, TypeAmount ''100''] (mountDeposit, AccountLoading) = ((?d, AccountLoading), [])"
    by (simp add: depositStep_def depositOpenChange_def mountDeposit_def changeAmount_def d)
  have two: "depositRun [DepositClick] (?d, AccountLoading) = ((?d\<lparr>dd_pending := True\<rparr>, AccountLoading), [Fin 100])"
    using readers_agree[OF h p] v by (simp add: depositStep_def submitDeposit_def canDeposit_def onrampBody_def zero_jsnum_def)
  have "\<forall>e \<in> set [DepositClick]. \<not> ends e" by simp
  from deposit_is_sent_once[OF one two this]
  have "\<forall>x \<in> set [] \<union> set [Fin 100]. \<exists>d. x = depositValue d \<and> x > 0 \<and> canDeposit d" by (elim conjE)
  then have "\<exists>d. Fin 100 = depositValue d \<and> Fin 100 > 0 \<and> canDeposit d" by (rule bspec) simp
  then show ?thesis by metis
qed

text \<open>
  A failed deposit shuts the dialog for good: the error disables the button, only the button clears the
  error, and neither typing nor dismissing does, so nothing is ever sent again from this dialog.
\<close>

theorem failed_deposit_locks_the_dialog:
  assumes "\<not> dd_pending d" "dd_submitError d = Some m" "m \<noteq> []" "depositRun es (d, a) = ((d', a'), sent)"
  shows "sent = [] \<and> depositError d' = Some m \<and> \<not> canDeposit d'"
  using assms
proof (induction es arbitrary: d a sent)
  case Nil
  then show ?case by (simp add: depositError_def canDeposit_def)
next
  case (Cons e es)
  obtain s1 new rest where r: "depositStep e (d, a) = (s1, new)" "depositRun es s1 = ((d', a'), rest)" "sent = new @ rest"
    using Cons.prems(4) by (auto split: prod.splits)
  have "new = [] \<and> \<not> dd_pending (fst s1) \<and> dd_submitError (fst s1) = Some m"
    using r(1) Cons.prems(1-3) by (cases e) (auto simp: depositStep_def depositOpenChange_def changeAmount_def Let_def
        submitDeposit_def canDeposit_def split: if_splits)
  then show ?case using Cons.IH[of "fst s1" "snd s1"] Cons.prems(3) r by auto
qed

text \<open>Any failure with words does it, a silent one and one that has nothing to do with the amount included.\<close>

lemma failure_locks:
  assumes "case err of Some e \<Rightarrow> ae_message e \<noteq> [] | None \<Rightarrow> True"
  shows "\<exists>m. m \<noteq> [] \<and> dd_submitError (depositFailed err d) = Some m \<and> \<not> dd_pending (depositFailed err d)"
  using assms by (auto simp: depositFailed_def split: option.splits)

section \<open>What is said of a failure\<close>

lemma followedBy_says: "followUp \<noteq> [] \<Longrightarrow> followedBy message followUp \<noteq> []"
  by (simp add: followedBy_def Let_def)

lemma rejectionMessage_says: "rejectionMessage e \<noteq> []"
  by (simp add: rejectionMessage_def split: option.split list.split)

lemma orderFailed_toast:
  assumes "of_pending f = Some draft" "\<not> isSilent e"
  shows "\<exists>t. of_toasts (orderFailed (e) f) = of_toasts f @ [t]
    \<and> fe_status t = (if isOutcomeUnknown e then UnknownToast else RejectedToast) \<and> (\<exists>r. fe_reason t = Some r \<and> r \<noteq> [])"
  using assms followedBy_says rejectionMessage_says by (auto simp: orderFailed_def Let_def)

text \<open>
  A write whose outcome is unknown is never called a refusal. Whatever the failure that is shown at all,
  the toast of the ticket, the dialog of a close and the toast of a cancel say that it is not confirmed
  exactly when the outcome is unknown, and the first two have words for it; a request the engine left
  without an answer is such a failure, and so is one the browser gave up or could not send.
\<close>

theorem unknown_outcome_is_no_refusal:
  assumes "\<not> isSilent e" "of_pending f = Some draft"
  shows "(\<exists>t. of_toasts (orderFailed e f) = of_toasts f @ [t]
      \<and> fe_status t = (if isOutcomeUnknown e then UnknownToast else RejectedToast) \<and> (\<exists>r. fe_reason t = Some r \<and> r \<noteq> []))
    \<and> (\<exists>words. words \<noteq> [] \<and> closeFailure (Some e) =
        Some (if isOutcomeUnknown e then ''Close not confirmed'' else ''Could not close position'', words))
    \<and> (\<exists>words. cancelToast (Some e) =
        Some (if isOutcomeUnknown e then ''Cancel not confirmed'' else ''Could not cancel order'', words))"
  using orderFailed_toast[OF assms(2,1)] assms(1) followedBy_says rejectionMessage_says
  by (auto simp: closeFailure_def cancelToast_def)

lemma unanswered_writes_are_unknown:
  "isOutcomeUnknown (toApiError statusText 503 (Some \<lparr>eb_error = None, eb_details = None, eb_code = Some ''ENGINE_TIMEOUT'', eb_message = m\<rparr>))"
  "isOutcomeUnknown (transportError present r) \<or> isSilent (transportError present r)"
  by (auto simp: toApiError_def isOutcomeUnknown_def isEngineDown_def isSilent_def isCancelled_def transportError_def split: option.split)

lemma unknown_outcome_is_no_refusal_witness:
  "\<exists>words. closeFailure (Some \<lparr>ae_status = 503, ae_code = ''ENGINE_TIMEOUT'', ae_message = [], ae_fieldErrors = None\<rparr>)
    = Some (''Close not confirmed'', words)"
proof -
  let ?e = "\<lparr>ae_status = 503, ae_code = ''ENGINE_TIMEOUT'', ae_message = [], ae_fieldErrors = None\<rparr>"
  let ?d = "\<lparr>td_marketSlug = [], td_side = LONG, td_orderType = Limit, td_price = [], td_slippage = [], td_qty = [], td_margin = 0\<rparr>"
  have "\<not> isSilent ?e" by (simp add: isSilent_def isAuthFailure_def isCancelled_def)
  moreover have "of_pending ((openTicket 3)\<lparr>of_pending := Some ?d\<rparr>) = Some ?d" by simp
  ultimately show ?thesis using unknown_outcome_is_no_refusal[of ?e "(openTicket 3)\<lparr>of_pending := Some ?d\<rparr>" ?d]
    by (auto simp: isOutcomeUnknown_def isEngineDown_def)
qed

text \<open>
  A proxy that gives up on the backend answers 502 or 504 with a page of its own, and an answer of success
  may not have the form expected. The engine may have traded in both; both are called a refusal.
\<close>

theorem gateway_timeout_is_called_a_refusal:
  "closeFailure (Some (toApiError statusText 504 None)) =
     Some (''Could not close position'', ''Request failed with status '' @ statusText 504)"
  "issues \<noteq> [] \<Longrightarrow> closeFailure (Some (schemaError 201 issues)) = Some (''Could not close position'', issues)"
  by (simp_all add: closeFailure_def toApiError_def schemaError_def isSilent_def isAuthFailure_def isCancelled_def
      isOutcomeUnknown_def isEngineDown_def rejectionMessage_def)

section \<open>Closing once\<close>

lemma count_filter_neq: "count_list (filter (\<lambda>i. i \<noteq> m) xs) m = 0"
  by (induction xs) auto

text \<open>A position has at most one close on its way from its dialog, which takes no second click meanwhile.\<close>

lemma close_is_sent_once:
  assumes "count_list (ps_closing p) m \<le> 1"
  shows "count_list (ps_closing (snd (foldl (\<lambda>s e. closeStep m e s) (c, p) es))) m \<le> 1"
proof -
  have step: "count_list (ps_closing (snd (closeStep m e s))) m \<le> 1" if "count_list (ps_closing (snd s)) m \<le> 1" for e s
    using that count_filter_neq[of m "ps_closing (snd s)"]
    by (cases e; cases s) (auto simp: closeStep_def clickClose_def closeSucceeds_def closeFails_def startClose_def endClose_def
        count_list_0_iff)
  have "count_list (ps_closing (snd (foldl (\<lambda>s e. closeStep m e s) s es))) m \<le> 1" if "count_list (ps_closing (snd s)) m \<le> 1" for s
    using that by (induction es arbitrary: s) (simp_all add: step del: One_nat_def)
  then show ?thesis using assms by simp
qed

text \<open>
  A dialog dismissed while its close is on the way, with the Escape key, is told of the failure when it is
  no longer there, and shows it when it is opened the next time.
\<close>

theorem late_refusal_meets_the_next_opening:
  assumes "m \<notin> set (ps_closing p)" "closeFailure err = Some words"
  shows "fst (foldl (\<lambda>s e. closeStep m e s) (\<lparr>cd_open = True, cd_failure = None\<rparr>, p)
      [CloseClick, CloseDialogChange False, CloseError err, CloseDialogChange True])
    = \<lparr>cd_open = True, cd_failure = Some words\<rparr>"
  using assms by (simp add: closeStep_def clickClose_def startClose_def closeOpenChange_def closeFails_def)

section \<open>A tab says nothing it does not know\<close>

theorem no_positions_is_said_of_loaded_ones:
  "positionsTab st = EmptyView \<longleftrightarrow> (\<exists>marks. st = PositionsReady [] marks)"
  "positionsTab st = TableView \<longleftrightarrow> (\<exists>rows marks. st = PositionsReady rows marks \<and> rows \<noteq> [])"
  by (cases st; simp add: positionsTab_def tabPanel_def)+

end
