(* ===== verification/Credentials.thy ===== *)
theory Credentials
  imports ApiProperties
begin

text \<open>
  Signing in and up: \<open>apps/web/app/(auth)/_components/credentials-form.tsx\<close>. The form, what it makes of a
  failure, and where it goes on success. The market the app starts on is a parameter, as is the session
  provider, whose promise resolves or rejects; an error that is no \<open>ApiError\<close> is \<open>None\<close>.
\<close>

section \<open>The destination\<close>

definition safeDestination :: "string \<Rightarrow> string option \<Rightarrow> string" where
  "safeDestination fallback nextParam =
     (case nextParam of
        None \<Rightarrow> fallback
      | Some path \<Rightarrow>
          if path = [] \<or> take 1 path \<noteq> ''/'' \<or> take 2 path = ''//'' then fallback else path)"

section \<open>The errors\<close>

datatype AuthMode = SigninMode | SignupMode

record FormErrors =
  fe_username :: "string option"
  fe_password :: "string option"
  fe_name :: "string option"
  fe_form :: "string option"

definition no_errors :: FormErrors where
  "no_errors = \<lparr>fe_username = None, fe_password = None, fe_name = None, fe_form = None\<rparr>"

definition formError :: "string \<Rightarrow> FormErrors" where
  "formError message = no_errors\<lparr>fe_form := Some message\<rparr>"

definition mapField :: "FormErrors \<Rightarrow> string \<times> string \<Rightarrow> FormErrors" where
  "mapField mapped entry =
     (case entry of (field, message) \<Rightarrow>
        if field = ''username'' then mapped\<lparr>fe_username := Some message\<rparr>
        else if field = ''password'' then mapped\<lparr>fe_password := Some message\<rparr>
        else if field = ''name'' then mapped\<lparr>fe_name := Some message\<rparr>
        else mapped\<lparr>fe_form := Some message\<rparr>)"

definition toFormErrors :: "ApiError option \<Rightarrow> AuthMode \<Rightarrow> FormErrors" where
  "toFormErrors thrown mode =
     (case thrown of
        None \<Rightarrow> formError ''Something went wrong. Please try again.''
      | Some err \<Rightarrow>
          (case (ae_code err = ''VALIDATION_FAILED'', ae_fieldErrors err) of
             (True, Some fieldErrors) \<Rightarrow>
               (let mapped = foldl mapField no_errors fieldErrors
                in if fieldErrors \<noteq> [] then mapped else formError (ae_message err))
           | _ \<Rightarrow>
               if ae_code err = ''RESOURCE_ALREADY_EXISTS'' then no_errors\<lparr>fe_username := Some ''That username is taken.''\<rparr>
               else if isAuthFailure err \<or> ae_code err = ''INVALID_REQUEST''
               then formError
                 (case mode of
                    SigninMode \<Rightarrow> ''Invalid username or password.''
                  | SignupMode \<Rightarrow> if ae_message err \<noteq> [] then ae_message err else ''Could not create your account.'')
               else if isRetryable err then formError (ae_message err @ '' Please try again.'')
               else formError (ae_message err)))"

section \<open>The form\<close>

record credentials_form =
  cf_username :: string
  cf_password :: string
  cf_name :: string
  cf_errors :: FormErrors
  cf_submitting :: bool
  cf_replaced :: "string list" \<comment> \<open>where the router was sent\<close>

definition openForm :: credentials_form where
  "openForm =
     \<lparr>cf_username = [], cf_password = [], cf_name = [], cf_errors = no_errors, cf_submitting = False, cf_replaced = []\<rparr>"

text \<open>\<open>onSubmit\<close> up to the call of the provider, with what it is given; the name goes with a sign-up only.\<close>

datatype auth_call = SignInCall string string | SignUpCall string string string

definition onSubmit :: "AuthMode \<Rightarrow> credentials_form \<Rightarrow> credentials_form \<times> auth_call option" where
  "onSubmit mode f =
     (if cf_submitting f then (f, None)
      else (f\<lparr>cf_submitting := True, cf_errors := no_errors\<rparr>,
            Some (case mode of SignupMode \<Rightarrow> SignUpCall (cf_username f) (cf_password f) (cf_name f)
                             | SigninMode \<Rightarrow> SignInCall (cf_username f) (cf_password f))))"

definition submitSucceeds :: "string \<Rightarrow> string option \<Rightarrow> credentials_form \<Rightarrow> credentials_form" where
  "submitSucceeds fallback nextParam f = f\<lparr>cf_replaced := cf_replaced f @ [safeDestination fallback nextParam]\<rparr>"

definition submitFails :: "AuthMode \<Rightarrow> ApiError option \<Rightarrow> credentials_form \<Rightarrow> credentials_form" where
  "submitFails mode thrown f = f\<lparr>cf_errors := toFormErrors thrown mode, cf_submitting := False\<rparr>"

text \<open>The messages on screen: the name is a field of the sign-up form only.\<close>

definition fieldMessage :: "string option \<Rightarrow> string list" where
  "fieldMessage e = (case e of None \<Rightarrow> [] | Some m \<Rightarrow> if m = [] then [] else [m])"

definition shownErrors :: "AuthMode \<Rightarrow> FormErrors \<Rightarrow> string list" where
  "shownErrors mode e =
     (case mode of SignupMode \<Rightarrow> fieldMessage (fe_name e) | SigninMode \<Rightarrow> [])
     @ fieldMessage (fe_username e) @ fieldMessage (fe_password e) @ fieldMessage (fe_form e)"

text \<open>
  The form of the credentials: where it leads, that it has words for every failure, and that a failed
  sign-in tells nobody whether an account exists, from the database to the screen.
\<close>

section \<open>The destination\<close>

text \<open>
  What a browser reads of an address relative to a page of the web, by the URL standard: tabs and line ends
  are dropped, a backslash is a slash, and what follows two slashes at the start is a host.
\<close>

definition namesHost :: "string \<Rightarrow> bool" where
  "namesHost address =
     (case filter (\<lambda>c. c \<noteq> CHR 0x09 \<and> c \<noteq> CHR 0x0A \<and> c \<noteq> CHR 0x0D) address of
        c # d # rest \<Rightarrow> c \<in> {CHR ''/'', CHR 0x5C} \<and> d \<in> {CHR ''/'', CHR 0x5C}
      | _ \<Rightarrow> False)"

text \<open>
  A destination without backslashes, tabs and line ends stays in the app, whatever the parameter says, and
  the page a session expired on is the one returned to.
\<close>

theorem destination_stays_in_the_app:
  assumes "\<not> namesHost fallback" "\<forall>path. nextParam = Some path \<longrightarrow> set path \<inter> {CHR 0x5C, CHR 0x09, CHR 0x0A, CHR 0x0D} = {}"
  shows "\<not> namesHost (safeDestination fallback nextParam)"
proof (cases "safeDestination fallback nextParam = fallback")
  case False
  then obtain path where p: "nextParam = Some path" "path \<noteq> []" "take 1 path = ''/''" "take 2 path \<noteq> ''//''"
    by (auto simp: safeDestination_def split: option.splits if_splits)
  have "filter (\<lambda>c. c \<noteq> CHR 0x09 \<and> c \<noteq> CHR 0x0A \<and> c \<noteq> CHR 0x0D) path = path"
    using assms(2) p(1) by (auto simp: filter_id_conv)
  moreover have "CHR 0x5C \<notin> set path" using assms(2) p(1) by auto
  ultimately have "\<not> namesHost path" using p
    by (cases path; cases "tl path") (auto simp: namesHost_def numeral_2_eq_2)
  then show ?thesis using p by (simp add: safeDestination_def)
qed (use assms(1) in simp)

lemma page_is_returned_to: "take 1 here = ''/'' \<Longrightarrow> take 2 here \<noteq> ''//'' \<Longrightarrow> safeDestination fallback (Some here) = here"
  by (auto simp: safeDestination_def)

text \<open>A backslash or a tab after the slash passes the checks, and the browser goes to another host.\<close>

theorem backslash_leaves_the_app:
  "safeDestination fallback (Some (CHR ''/'' # CHR 0x5C # host)) = CHR ''/'' # CHR 0x5C # host"
  "namesHost (CHR ''/'' # CHR 0x5C # host)"
  "safeDestination fallback (Some (CHR ''/'' # CHR 0x09 # CHR ''/'' # host)) = CHR ''/'' # CHR 0x09 # CHR ''/'' # host"
  "namesHost (CHR ''/'' # CHR 0x09 # CHR ''/'' # host)"
  by (simp_all add: safeDestination_def namesHost_def)

section \<open>Every failure has words\<close>

definition formFilled :: "FormErrors \<Rightarrow> bool" where
  "formFilled e \<longleftrightarrow> fe_username e \<noteq> Some [] \<and> fe_password e \<noteq> Some [] \<and> fe_name e \<noteq> Some [] \<and> fe_form e \<noteq> Some []"

definition formSaid :: "AuthMode \<Rightarrow> FormErrors \<Rightarrow> bool" where
  "formSaid mode e \<longleftrightarrow> fe_username e \<noteq> None \<or> fe_password e \<noteq> None \<or> (mode = SignupMode \<and> fe_name e \<noteq> None) \<or> fe_form e \<noteq> None"

lemma shown_said: "formFilled e \<Longrightarrow> shownErrors mode e \<noteq> [] \<longleftrightarrow> formSaid mode e"
  by (cases mode) (auto simp: shownErrors_def formFilled_def formSaid_def fieldMessage_def split: option.splits)

lemma mapField_keeps: "formSaid mode e \<Longrightarrow> formSaid mode (mapField e entry)"
  by (cases entry) (auto simp: mapField_def formSaid_def)

lemma mapField_says: "(mode = SigninMode \<longrightarrow> fst entry \<noteq> ''name'') \<Longrightarrow> formSaid mode (mapField e entry)"
  by (cases entry; cases mode) (auto simp: mapField_def formSaid_def)

lemma mapFields:
  "formFilled e \<Longrightarrow> \<forall>(field, message) \<in> set entries. message \<noteq> [] \<Longrightarrow> formFilled (foldl mapField e entries)"
  "formSaid mode e \<Longrightarrow> formSaid mode (foldl mapField e entries)"
proof -
  have "formFilled (mapField e (f, m))" if "formFilled e" "m \<noteq> []" for e f m using that by (auto simp: mapField_def formFilled_def)
  then show "formFilled e \<Longrightarrow> \<forall>(field, message) \<in> set entries. message \<noteq> [] \<Longrightarrow> formFilled (foldl mapField e entries)"
    by (induction entries arbitrary: e) (auto split: prod.splits)
  show "formSaid mode e \<Longrightarrow> formSaid mode (foldl mapField e entries)"
    using mapField_keeps by (induction entries arbitrary: e) auto
qed

lemma other_errors:
  assumes "\<not> (ae_code err = ''VALIDATION_FAILED'' \<and> (\<exists>x xs. ae_fieldErrors err = Some (x # xs)))" "ae_message err \<noteq> []"
  shows "\<exists>m. m \<noteq> [] \<and> (toFormErrors (Some err) mode = formError m \<or> toFormErrors (Some err) mode = no_errors\<lparr>fe_username := Some m\<rparr>)"
proof (cases "ae_code err = ''VALIDATION_FAILED'' \<and> ae_fieldErrors err \<noteq> None")
  case True
  then have "ae_fieldErrors err = Some []" using assms(1) by (metis list.exhaust option.exhaust)
  then have "toFormErrors (Some err) mode = formError (ae_message err)" using True by (simp add: toFormErrors_def)
  then show ?thesis using assms(2) by blast
next
  case False
  have r: "toFormErrors (Some err) mode =
      (if ae_code err = ''RESOURCE_ALREADY_EXISTS'' then no_errors\<lparr>fe_username := Some ''That username is taken.''\<rparr>
       else if isAuthFailure err \<or> ae_code err = ''INVALID_REQUEST''
       then formError (case mode of SigninMode \<Rightarrow> ''Invalid username or password.'' | SignupMode \<Rightarrow> ae_message err)
       else if isRetryable err then formError (ae_message err @ '' Please try again.'')
       else formError (ae_message err))"
    using False assms(2) by (cases "ae_fieldErrors err"; cases "ae_code err = ''VALIDATION_FAILED''") (simp_all add: toFormErrors_def split: AuthMode.split)
  have "(case mode of SigninMode \<Rightarrow> ''Invalid username or password.'' | SignupMode \<Rightarrow> ae_message err) \<noteq> []"
    "ae_message err @ '' Please try again.'' \<noteq> []" "''That username is taken.'' \<noteq> []"
    using assms(2) by (simp_all split: AuthMode.split)
  then show ?thesis unfolding r using assms(2) by metis
qed

text \<open>
  Something is on screen after every failure that came with words, if the server has nothing to say about
  a name to somebody who signs in.
\<close>

theorem failure_has_words:
  assumes "\<forall>err. thrown = Some err \<longrightarrow> ae_message err \<noteq> []
      \<and> (\<forall>entries. ae_fieldErrors err = Some entries \<longrightarrow>
          (\<forall>(field, message) \<in> set entries. message \<noteq> [] \<and> (mode = SigninMode \<longrightarrow> field \<noteq> ''name'')))"
  shows "shownErrors mode (cf_errors (submitFails mode thrown f)) \<noteq> [] \<and> \<not> cf_submitting (submitFails mode thrown f)"
proof -
  let ?e = "toFormErrors thrown mode"
  have one: "formFilled (formError m) \<and> formSaid mode (formError m)" if "m \<noteq> []" for m
    using that by (simp add: formFilled_def formSaid_def formError_def no_errors_def)
  have "formFilled ?e \<and> formSaid mode ?e"
  proof (cases thrown)
    case None
    then show ?thesis using one by (simp add: toFormErrors_def)
  next
    case (Some err)
    show ?thesis
    proof (cases "ae_code err = ''VALIDATION_FAILED'' \<and> (\<exists>x xs. ae_fieldErrors err = Some (x # xs))")
      case True
      then obtain x xs where fe: "ae_fieldErrors err = Some (x # xs)" by blast
      have ok: "\<forall>(field, message) \<in> set (x # xs). message \<noteq> [] \<and> (mode = SigninMode \<longrightarrow> field \<noteq> ''name'')"
        using assms Some fe by blast
      have e: "?e = foldl mapField no_errors (x # xs)" using Some True fe by (simp add: toFormErrors_def)
      have "formFilled no_errors" by (simp add: formFilled_def no_errors_def)
      moreover have "formSaid mode (mapField no_errors x)" using ok by (intro mapField_says) auto
      ultimately show ?thesis using mapFields(1)[of no_errors "x # xs"] mapFields(2)[of mode "mapField no_errors x" xs] ok
        unfolding e by auto
    next
      case False
      have "ae_message err \<noteq> []" using assms Some by blast
      with False obtain m where "m \<noteq> []" "?e = formError m \<or> ?e = no_errors\<lparr>fe_username := Some m\<rparr>"
        unfolding Some using other_errors by blast
      then show ?thesis using one[of m] by (elim disjE) (simp_all add: formFilled_def formSaid_def no_errors_def)
    qed
  qed
  then show ?thesis using shown_said by (simp add: submitFails_def)
qed

section \<open>From the database to the screen\<close>

text \<open>The error the provider rejects with when the API has given an answer.\<close>

definition errorOf :: "(nat \<Rightarrow> string) \<Rightarrow> 'd http_response \<Rightarrow> ApiError" where
  "errorOf statusText answer = toApiError statusText (hr_status answer) (errorBody (hr_body answer))"

lemma invalid_request_error:
  "errorOf statusText (fromError (invalidRequestError message)) =
     \<lparr>ae_status = 400, ae_code = ''INVALID_REQUEST'', ae_message = message, ae_fieldErrors = None\<rparr>"
  by (simp add: errorOf_def invalidRequestError_def appError_def fromError_def toApiError_def)

text \<open>
  C39. Signing in tells nobody whether an account exists. Two sign-ins that are well formed and fail, be it that
  there is no such account or that the password is wrong, get the same answer, whatever the accounts are,
  and the form says the same of both.
\<close>

theorem failed_sign_in_reveals_no_account:
  assumes "pf_credentials pf body = Inr (username, password)" "pf_credentials pf body' = Inr (username', password')"
    and "hr_status (signinRoute pf False body s) \<noteq> 200" "hr_status (signinRoute pf False body' s') \<noteq> 200"
  shows "signinRoute pf False body s = signinRoute pf False body' s'
    \<and> toFormErrors (Some (errorOf statusText (signinRoute pf False body s))) SigninMode = formError ''Invalid username or password.''"
proof -
  have "signinRoute pf False b t = fromError (invalidRequestError ''Invalid Credentials'')"
    if "pf_credentials pf b = Inr (u, p)" "hr_status (signinRoute pf False b t) \<noteq> 200" for b t u p
    using that by (auto simp: signinRoute_def signin_def okResponse_def split: option.splits if_splits)
  from this[OF assms(1,3)] this[OF assms(2,4)] show ?thesis
    by (simp add: invalid_request_error toFormErrors_def isAuthFailure_def)
qed

text \<open>A name that is taken is said so at its field, unless the other sign-up is still on its way.\<close>

theorem taken_name_is_named:
  assumes "pf_createUser pf body = Inr (username, password, name)" "findUser username (as_users s) \<noteq> None"
  shows "toFormErrors (Some (errorOf statusText (fst (signupRoute pf False meanwhile newId body s)))) SignupMode
    = no_errors\<lparr>fe_username := Some ''That username is taken.''\<rparr>"
  using assms by (simp add: signupRoute_def signup_def conflictError_def errorOf_def appError_def fromError_def
      toApiError_def toFormErrors_def)

text \<open>With the database down everybody is told that the password is wrong.\<close>

theorem outage_blames_the_password:
  assumes "pf_credentials pf body = Inr (username, password)"
  shows "toFormErrors (Some (errorOf statusText (signinRoute pf True body s))) SigninMode = formError ''Invalid username or password.''"
  using assms by (simp add: signinRoute_def signin_def invalid_request_error toFormErrors_def isAuthFailure_def)

section \<open>One call at a time\<close>

lemma no_call_while_submitting: "cf_submitting f \<Longrightarrow> onSubmit mode f = (f, None)"
  "snd (onSubmit mode (fst (onSubmit mode f))) = None"
  by (simp_all add: onSubmit_def)

section \<open>Two visitors\<close>

lemma failed_sign_in_reveals_no_account_witness:
  "\<exists>s :: nat api_state. as_users s \<noteq> []
    \<and> signinRoute small_platform False (Some (''ann'', ''x'')) s = signinRoute small_platform False (Some (''bob'', ''x'')) s"
proof -
  let ?s = "empty_api\<lparr>as_users := [\<lparr>ur_id = ''u1'', ur_username = ''ann'', ur_passwordHash = rev ''pw'', ur_name = ''ann''\<rparr>]\<rparr>"
  have "pf_credentials small_platform (Some (u, p)) = Inr (u, p)" for u p by (simp add: small)
  from failed_sign_in_reveals_no_account[OF this this, where statusText = "\<lambda>n. []" and s = ?s and s' = ?s
      and username = "''ann''" and username' = "''bob''" and password = "''x''" and password' = "''x''"]
  have "signinRoute small_platform False (Some (''ann'', ''x'')) ?s = signinRoute small_platform False (Some (''bob'', ''x'')) ?s"
    by (simp add: signinRoute_def signin_def findUser_def fromError_def invalidRequestError_def appError_def small)
  then show ?thesis by (intro exI[of _ ?s]) simp
qed

end
