(* ===== verification/BookPane.thy ===== *)
theory BookPane
  imports OrderForm MarketFeed
begin

text \<open>
  The order book on screen, \<open>apps/web/components/terminal/order-book.tsx\<close>: the rows of its ladder with their
  bars, and what it says when there is none; and of \<open>terminal.tsx\<close> the price of the ticket and the top of
  the book it is given. Effects run after the render whose change they depend on.
\<close>

section \<open>The ladder\<close>

record Row =
  row_price :: jsnum
  row_qty :: jsnum
  row_total :: jsnum

definition accumulateLevel :: "Row list \<times> jsnum \<Rightarrow> string \<times> string \<Rightarrow> Row list \<times> jsnum" where
  "accumulateLevel acc level =
     (case acc of (rows, running) \<Rightarrow>
        (let price = js_parse_float (fst level); qty = js_parse_float (snd level)
         in if \<not> js_finite price \<or> \<not> js_finite qty then acc
            else (rows @ [\<lparr>row_price = price, row_qty = qty, row_total = running + qty\<rparr>], running + qty)))"

definition accumulate :: "(string \<times> string) list \<Rightarrow> nat \<Rightarrow> Row list" where
  "accumulate levels limit = fst (foldl accumulateLevel ([], 0) (take limit levels))"

definition lastTotal :: "Row list \<Rightarrow> jsnum" where
  "lastTotal rows = (if rows = [] then 0 else row_total (last rows))"

text \<open>Both sides with the greater of their totals.\<close>

definition ladder :: "TMarketDepth option \<Rightarrow> nat \<Rightarrow> Row list \<times> Row list \<times> jsnum" where
  "ladder depth rows =
     (let b = accumulate (case depth of Some d \<Rightarrow> d_bids d | None \<Rightarrow> []) rows;
          a = accumulate (case depth of Some d \<Rightarrow> d_asks d | None \<Rightarrow> []) rows
      in (b, a, js_max (lastTotal b) (lastTotal a)))"

text \<open>The bars of a row, in percent.\<close>

definition depthPct :: "jsnum \<Rightarrow> Row \<Rightarrow> jsnum" where
  "depthPct greatest row = (if greatest > 0 then (row_total row / greatest) * Fin 100 else 0)"

definition levelPct :: "jsnum \<Rightarrow> Row \<Rightarrow> jsnum" where
  "levelPct greatest row = (if greatest > 0 then (row_qty row / greatest) * Fin 100 else 0)"

section \<open>The seam and the states of the pane\<close>

datatype tick = UpTick | DownTick | FlatTick

definition tickOf :: "jsnum option \<Rightarrow> jsnum option \<Rightarrow> tick" where
  "tickOf lastPrice prevPrice =
     (case (lastPrice, prevPrice) of
        (Some l, Some p) \<Rightarrow> if l > p then UpTick else if l < p then DownTick else FlatTick
      | _ \<Rightarrow> FlatTick)"

datatype book_view = Unavailable | ConnectingView | EmptyBook | Ladder

definition bookView :: "TMarketDepth option \<Rightarrow> FeedSource \<Rightarrow> nat \<Rightarrow> book_view" where
  "bookView depth source rows =
     (let isDown = (source = Reconnecting \<or> source = Disconnected)
      in if depth = None \<and> isDown then Unavailable
         else if depth = None \<and> \<not> isDown then ConnectingView
         else (case ladder depth rows of (b, a, greatest) \<Rightarrow> if b = [] \<and> a = [] then EmptyBook else Ladder))"

text \<open>
  \<open>useSettled\<close>: the value of the last render, what is settled, and the time the timer is due. A render with
  another value runs the effect, which drops the timer of the one before.
\<close>

definition EMPTY_CONFIRM_MS :: nat where
  "EMPTY_CONFIRM_MS = 600"

record settling =
  sl_value :: bool
  sl_settled :: bool
  sl_due :: "nat option"

definition unsettled :: settling where
  "unsettled = \<lparr>sl_value = False, sl_settled = False, sl_due = None\<rparr>"

definition renderSettled :: "nat \<Rightarrow> nat \<Rightarrow> bool \<Rightarrow> settling \<Rightarrow> settling" where
  "renderSettled delayMs now v s =
     (if v = sl_value s then s
      else if \<not> v then \<lparr>sl_value = False, sl_settled = False, sl_due = None\<rparr>
      else s\<lparr>sl_value := True, sl_due := Some (now + delayMs)\<rparr>)"

definition settleTimer :: "nat \<Rightarrow> settling \<Rightarrow> settling" where
  "settleTimer now s =
     (case sl_due s of Some due \<Rightarrow> if due \<le> now then s\<lparr>sl_settled := True, sl_due := None\<rparr> else s | None \<Rightarrow> s)"

text \<open>
  The pane over time, with the time since which the book has been empty on every render: the clock goes on,
  a timer may run late, and a book is rendered.
\<close>

inductive settle_run :: "nat \<Rightarrow> nat \<Rightarrow> nat option \<Rightarrow> settling \<Rightarrow> bool" for delayMs where
  mounted: "settle_run delayMs now None unsettled"
| clock: "settle_run delayMs now since s \<Longrightarrow> settle_run delayMs (now + d) since s"
| timer: "settle_run delayMs now since s \<Longrightarrow> settle_run delayMs now since (settleTimer now s)"
| render: "settle_run delayMs now since s \<Longrightarrow>
    since' = (if \<not> v then None else case since of None \<Rightarrow> Some now | Some t \<Rightarrow> Some t) \<Longrightarrow>
    settle_run delayMs now since' (renderSettled delayMs now v s)"

section \<open>The ticket's price and the top of the book\<close>

definition topPrice :: "string option \<Rightarrow> jsnum option" where
  "topPrice v =
     (let parsed = (case v of None \<Rightarrow> NaN | Some s \<Rightarrow> js_number s) in if js_finite parsed \<and> parsed > 0 then Some parsed else None)"

definition bestBidOf :: "TMarketDepth option \<Rightarrow> jsnum option" where
  "bestBidOf depth = topPrice (case depth of Some d \<Rightarrow> best_of (d_bids d) | None \<Rightarrow> None)"

definition bestAskOf :: "TMarketDepth option \<Rightarrow> jsnum option" where
  "bestAskOf depth = topPrice (case depth of Some d \<Rightarrow> best_of (d_asks d) | None \<Rightarrow> None)"

text \<open>The effect that fills in the price, and a row of the ladder that is clicked.\<close>

definition seedPrice :: "nat \<Rightarrow> jsnum option \<Rightarrow> string \<Rightarrow> string" where
  "seedPrice priceDecimals lastPrice price =
     (case lastPrice of Some l \<Rightarrow> if price = [] then toFixed priceDecimals l else price | None \<Rightarrow> price)"

definition onPriceSelect :: "nat \<Rightarrow> jsnum \<Rightarrow> string" where
  "onPriceSelect priceDecimals p = toFixed priceDecimals p"

text \<open>
  The bars of the ladder nest and fit, roundings included; the empty book is spoken of only when it has
  stayed empty; and the price field that cannot be emptied.
\<close>

section \<open>Rounding keeps the order\<close>

lemma js_mono: "r \<le> s \<Longrightarrow> js r \<le> js s"
  using round64_mono[of r s] by (auto simp: js_def Let_def less_eq_jsnum_def)

lemma inf_add: "Fin a + PInf = PInf" "PInf + Fin a = PInf" "PInf + PInf = PInf"
  by (simp_all add: plus_jsnum_def)

lemma js_le_not_NaN: "(x::jsnum) \<le> y \<Longrightarrow> x \<noteq> NaN \<and> y \<noteq> NaN"
  by (cases x; cases y) auto

lemma js_add_ge:
  assumes "is_double x" "is_double y" "0 \<le> x" "0 \<le> y"
  shows "x \<le> x + y" "y \<le> x + y" "0 \<le> x + y" "is_double (x + y)"
proof -
  have fin: "Fin a \<le> js (a + b)" if "is_double (Fin a)" "0 \<le> b" for a b
    using js_mono[of a "a + b"] js_is_double[OF that(1)] that(2) by simp
  have fin2: "Fin b \<le> js (a + b)" if "is_double (Fin b)" "0 \<le> a" for a b
    using fin[OF that] by (simp add: add.commute)
  show "x \<le> x + y" using assms fin by (cases x; cases y) (auto simp: inf_add simp del: is_double_simps(4))
  show "y \<le> x + y" using assms fin2 by (cases x; cases y) (auto simp: inf_add simp del: is_double_simps(4))
  then show "0 \<le> x + y" using assms(4) js_le_trans by blast
  show "is_double (x + y)" using assms by (cases x; cases y) (auto simp: inf_add)
qed

section \<open>The bars\<close>

definition row_ok :: "jsnum \<Rightarrow> Row \<Rightarrow> bool" where
  "row_ok running row \<longleftrightarrow> 0 \<le> row_qty row \<and> row_qty row \<le> row_total row \<and> row_total row \<le> running
     \<and> is_double (row_qty row) \<and> is_double (row_total row)"

lemma accumulate_ok:
  assumes "\<forall>(p, q) \<in> set levels. js_finite (js_parse_float q) \<longrightarrow> 0 \<le> js_parse_float q"
    and "\<forall>row \<in> set rows. row_ok running row" "0 \<le> running" "is_double running" "rows \<noteq> [] \<longrightarrow> row_total (last rows) = running"
  shows "case foldl accumulateLevel (rows, running) levels of
    (rows', running') \<Rightarrow> (\<forall>row \<in> set rows'. row_ok running' row) \<and> 0 \<le> running' \<and> is_double running'
      \<and> (rows' \<noteq> [] \<longrightarrow> row_total (last rows') = running')"
  using assms
proof (induction levels arbitrary: rows running)
  case (Cons level levels)
  obtain p q where l: "level = (p, q)" by fastforce
  let ?p = "js_parse_float p" and ?q = "js_parse_float q"
  show ?case
  proof (cases "\<not> js_finite ?p \<or> \<not> js_finite ?q")
    case True
    then show ?thesis using Cons l by (simp add: accumulateLevel_def)
  next
    case False
    then have q: "0 \<le> ?q" "is_double ?q" using Cons.prems(1) l is_double_js_parse_float by auto
    note s = js_add_ge[OF Cons.prems(4) q(2) Cons.prems(3) q(1)]
    have "row_ok (running + ?q) \<lparr>row_price = ?p, row_qty = ?q, row_total = running + ?q\<rparr>"
      using q s js_le_refl[of "running + ?q"] js_le_not_NaN[OF s(1)] by (auto simp: row_ok_def)
    moreover have "row_ok (running + ?q) row" if "row_ok running row" for row
      using that s(1) js_le_trans by (auto simp: row_ok_def)
    ultimately show ?thesis
      using Cons.IH[of "rows @ [\<lparr>row_price = ?p, row_qty = ?q, row_total = running + ?q\<rparr>]" "running + ?q"] Cons.prems s l False
      by (simp add: accumulateLevel_def Let_def)
  qed
qed simp

lemma sides_ok:
  assumes "\<forall>(p, q) \<in> set levels. js_finite (js_parse_float q) \<longrightarrow> 0 \<le> js_parse_float q"
  shows "\<forall>row \<in> set (accumulate levels n). row_ok (lastTotal (accumulate levels n)) row"
    and "0 \<le> lastTotal (accumulate levels n)"
proof -
  obtain rows running where f: "foldl accumulateLevel ([], 0) (take n levels) = (rows, running)" by fastforce
  have "\<forall>(p, q) \<in> set (take n levels). js_finite (js_parse_float q) \<longrightarrow> 0 \<le> js_parse_float q"
    using assms by (auto dest: in_set_takeD)
  from accumulate_ok[OF this, of "[]" 0] have o: "\<forall>row \<in> set rows. row_ok running row" "0 \<le> running"
    "rows \<noteq> [] \<longrightarrow> row_total (last rows) = running" by (simp_all only: f prod.case) auto
  have acc: "accumulate levels n = rows" by (simp only: accumulate_def f fst_conv)
  from o show "\<forall>row \<in> set (accumulate levels n). row_ok (lastTotal (accumulate levels n)) row" "0 \<le> lastTotal (accumulate levels n)"
    by (auto simp: acc lastTotal_def)
qed

lemma pct_nested:
  assumes "row_ok tot row" "tot \<le> Fin m" "0 < m" "is_double (Fin m)"
  shows "0 \<le> levelPct (Fin m) row \<and> levelPct (Fin m) row \<le> depthPct (Fin m) row \<and> depthPct (Fin m) row \<le> Fin 100"
proof -
  obtain q t where qt: "row_qty row = Fin q" "row_total row = Fin t" "0 \<le> q" "q \<le> t" "t \<le> m"
    using assms(1,2) js_le_trans[of "row_total row" tot "Fin m"] unfolding row_ok_def
    by (cases "row_qty row"; cases "row_total row") auto
  have unit: "js 1 = Fin 1" "js 0 = Fin 0" "js 100 = Fin 100" by simp_all
  have d: "0 \<le> q / m" "q / m \<le> t / m" "t / m \<le> 1" using qt assms(3) by (auto simp: divide_right_mono)
  have j: "js 0 \<le> js (q / m)" "js (q / m) \<le> js (t / m)" "js (t / m) \<le> js 1"
    using js_mono[OF d(1)] js_mono[OF d(2)] js_mono[OF d(3)] by simp_all
  then obtain x y where xy: "js (q / m) = Fin x" "js (t / m) = Fin y" "0 \<le> x" "x \<le> y" "y \<le> 1"
    by (cases "js (q / m)"; cases "js (t / m)") (auto simp: unit)
  have "js 0 \<le> js (x * 100)" "js (x * 100) \<le> js (y * 100)" "js (y * 100) \<le> js 100"
    using js_mono[of 0 "x * 100"] js_mono[of "x * 100" "y * 100"] js_mono[of "y * 100" 100] xy by simp_all
  then show ?thesis using assms(3) qt xy by (simp add: levelPct_def depthPct_def unit)
qed

text \<open>
  The bars nest and fit. For a book of levels whose quantities are no less than zero, and whose sums are finite,
  the bar of a level is no longer than the bar of the sum up to it, on either side, and that one no
  longer than the row, roundings included; so nothing has to be clamped.
\<close>

theorem bars_nest_and_fit:
  assumes "\<forall>(p, q) \<in> set (d_bids depth) \<union> set (d_asks depth). js_finite (js_parse_float q) \<longrightarrow> 0 \<le> js_parse_float q"
    and "ladder (Some depth) n = (b, a, greatest)" "js_finite greatest" "row \<in> set b \<union> set a"
  shows "0 \<le> levelPct greatest row \<and> levelPct greatest row \<le> depthPct greatest row \<and> depthPct greatest row \<le> Fin 100"
proof -
  have l: "b = accumulate (d_bids depth) n" "a = accumulate (d_asks depth) n" "greatest = js_max (lastTotal b) (lastTotal a)"
    using assms(2) by (auto simp: ladder_def Let_def)
  have sb: "\<forall>row \<in> set b. row_ok (lastTotal b) row" "0 \<le> lastTotal b" and sa: "\<forall>row \<in> set a. row_ok (lastTotal a) row" "0 \<le> lastTotal a"
    using sides_ok[of "d_bids depth" n] sides_ok[of "d_asks depth" n] assms(1) by (auto simp: l(1,2))
  obtain m where m: "greatest = Fin m" using assms(3) by (elim js_finiteE)
  have g: "lastTotal b \<le> Fin m" "lastTotal a \<le> Fin m"
    using js_max_bound[of "lastTotal b" "lastTotal a"] sb(2) sa(2) js_le_not_NaN m l(3) by metis+
  obtain tot where t: "row_ok tot row" "tot \<le> Fin m" using assms(4) sa(1) sb(1) g by blast
  show ?thesis
  proof (cases "0 < m")
    case True
    have "greatest \<in> {lastTotal b, lastTotal a}" using m l(3) by (auto simp: js_max_def split: if_splits)
    moreover have "is_double (lastTotal xs)" if "\<forall>row \<in> set xs. row_ok t row" for xs t
      using that by (auto simp: lastTotal_def row_ok_def)
    ultimately have "is_double (Fin m)" using sa(1) sb(1) unfolding m by (metis insertE singletonD)
    then show ?thesis using pct_nested[OF t True] m by simp
  next
    case False
    then show ?thesis using m by (simp add: levelPct_def depthPct_def)
  qed
qed

section \<open>An empty book\<close>

lemma settle_invariant:
  assumes "settle_run delayMs now since s"
  shows "(sl_value s \<longleftrightarrow> since \<noteq> None) \<and> (\<forall>t. since = Some t \<longrightarrow> t \<le> now \<and>
      (if sl_settled s then t + delayMs \<le> now \<and> sl_due s = None else sl_due s = Some (t + delayMs)))
    \<and> (since = None \<longrightarrow> \<not> sl_settled s \<and> sl_due s = None)"
  using assms
proof (induction rule: settle_run.induct)
  case (timer now since s)
  then show ?case by (cases since) (auto simp: settleTimer_def split: if_splits option.splits)
next
  case (render now since s since' v)
  then show ?case by (cases since) (auto simp: renderSettled_def split: if_splits)
qed (auto simp: unsettled_def split: if_splits)

text \<open>
  The sentence about an empty book waits. It is shown only when the book has been empty on every render for
  the whole of the delay, so a gap between two ladders that is shorter is passed in silence; and from then
  on it is shown as soon as the timer has run.
\<close>

theorem empty_book_is_said_late:
  assumes "settle_run EMPTY_CONFIRM_MS now since s"
  shows "sl_settled s \<longrightarrow> (\<exists>t. since = Some t \<and> t + 600 \<le> now)"
    and "since = Some t \<Longrightarrow> t + 600 \<le> now \<Longrightarrow> sl_settled (settleTimer now s)"
  using settle_invariant[OF assms] by (auto simp: EMPTY_CONFIRM_MS_def settleTimer_def split: option.splits if_splits)

theorem no_book_is_no_empty_book: "bookView depth source n = EmptyBook \<Longrightarrow> depth \<noteq> None"
  by (auto simp: bookView_def Let_def split: if_splits)

section \<open>The price field\<close>

text \<open>
  The comment says the first tick fills in the price. The effect runs whenever the field is empty, so a
  trader who empties it to type another price finds the last traded one in it again.
\<close>

theorem emptied_price_is_refilled: "seedPrice d (Some l) (handleChange False [] old) = toFixed d l"
  by (simp add: seedPrice_def handleChange_def)

end
