(* ===== verification/Notifications.thy ===== *)
theory Notifications
  imports UserFeedProperties OrderForm SessionProperties
begin

text \<open>
  What the app says on its own: the fills nobody asked for (\<open>apps/web/components/chrome/fill-notifications.tsx\<close>)
  and the end of a session (\<open>session-notice.tsx\<close>), with the figures of \<open>lib/format.ts\<close> that are no
  matter of the locale. Both components draw nothing; they hand toasts over.
\<close>

section \<open>Fills\<close>

record notices =
  nt_seen :: "string list"
  nt_toasts :: "FillEvent list"

definition no_notices :: notices where
  "no_notices = \<lparr>nt_seen = [], nt_toasts = []\<rparr>"

text \<open>The maps of a batch by order; of two entries the later one counts.\<close>

definition originOf :: "TUserEvent list \<Rightarrow> string \<Rightarrow> TOrigin option" where
  "originOf events orderId =
     map_of (rev (concat (map (\<lambda>e. case e of OrderNew order origin \<Rightarrow> [(uo_id order, origin)] | _ \<Rightarrow> []) events))) orderId"

definition finishedOf :: "TUserEvent list \<Rightarrow> string \<Rightarrow> TOrderStatus option" where
  "finishedOf events orderId =
     map_of (rev (concat (map (\<lambda>e. case e of OrderUpdate i m status filledQty \<Rightarrow> [(i, status)] | _ \<Rightarrow> []) events))) orderId"

definition noticeStatus :: "TUserEvent list \<Rightarrow> FillGroup \<Rightarrow> FillStatus" where
  "noticeStatus events grp =
     (if originOf events (fg_orderId grp) = Some Liquidation then LiquidatedToast
      else if finishedOf events (fg_orderId grp) = Some Filled then FilledToast
      else PartialToast)"

definition noticeGroup :: "Market list \<Rightarrow> TUserEvent list \<Rightarrow> notices \<Rightarrow> FillGroup \<Rightarrow> notices" where
  "noticeGroup markets events n grp =
     (let origin = originOf events (fg_orderId grp); seen = rememberFills (nt_seen n) (fg_fillIds grp)
      in if fg_role grp = Taker \<and> origin \<noteq> Some Liquidation then n\<lparr>nt_seen := seen\<rparr>
         else (case find (\<lambda>m. mk_id m = fg_marketId grp) markets of
                 None \<Rightarrow> n
               | Some market \<Rightarrow>
                   n\<lparr>nt_seen := seen,
                     nt_toasts := nt_toasts n @
                       [\<lparr>fe_orderId = Some (fg_orderId grp), fe_side = fg_side grp,
                         fe_status = noticeStatus events grp, fe_qty = fg_qty grp, fe_price = Some (fg_price grp),
                         fe_slug = mk_slug market, fe_reason = None\<rparr>]\<rparr>))"

definition noticeFills :: "Market list \<Rightarrow> notices \<Rightarrow> TUserEvent list \<Rightarrow> notices" where
  "noticeFills markets n events = foldl (noticeGroup markets events) n (groupFills events (set (nt_seen n)))"

section \<open>The end of a session\<close>

text \<open>The number of expiries last announced, and how many toasts there were.\<close>

record session_notice =
  sn_announced :: nat
  sn_toasts :: nat

definition mountNotice :: "nat \<Rightarrow> session_notice" where
  "mountNotice expiredCount = \<lparr>sn_announced = expiredCount, sn_toasts = 0\<rparr>"

definition renderNotice :: "nat \<Rightarrow> session_notice \<Rightarrow> session_notice" where
  "renderNotice expiredCount n =
     (if expiredCount = sn_announced n then n
      else \<lparr>sn_announced = expiredCount, sn_toasts = sn_toasts n + 1\<rparr>)"

section \<open>Figures\<close>

text \<open>The minus sign and the dash of the source are written as hyphens.\<close>

definition formatSignedPercent :: "jsnum \<Rightarrow> nat \<Rightarrow> string" where
  "formatSignedPercent v decimals =
     (if \<not> js_finite v then ''-''
      else (if v > 0 then ''+'' else if v < 0 then ''-'' else []) @ toFixed decimals \<bar>v\<bar> @ ''%'')"

definition formatCompact :: "jsnum \<Rightarrow> nat \<Rightarrow> string" where
  "formatCompact n decimals =
     (if \<not> js_finite n then ''-''
      else if \<bar>n\<bar> \<ge> Fin 1000000000 then toFixed decimals (n / Fin 1000000000) @ ''B''
      else if \<bar>n\<bar> \<ge> Fin 1000000 then toFixed decimals (n / Fin 1000000) @ ''M''
      else if \<bar>n\<bar> \<ge> Fin 1000 then toFixed decimals (n / Fin 1000) @ ''K''
      else toFixed decimals n)"

definition pad2 :: "nat \<Rightarrow> string" where
  "pad2 n = (let ds = digits_of n in replicate (2 - length ds) (CHR ''0'') @ ds)"

text \<open>The remaining time is a whole number of milliseconds.\<close>

definition formatCountdown :: "int \<Rightarrow> string" where
  "formatCountdown msRemaining =
     (let tot = nat (max 0 msRemaining) div 1000;
          h = tot div 3600; m = (tot mod 3600) div 60; s = tot mod 60
      in if 0 < h then pad2 h @ '':'' @ pad2 m @ '':'' @ pad2 s else pad2 m @ '':'' @ pad2 s)"

definition truncateId :: "string \<Rightarrow> nat \<Rightarrow> nat \<Rightarrow> string" where
  "truncateId i k l =
     (if length i \<le> k + l + 1 then i
      else take k i @ ''.'' @ (if l = 0 then i else drop (length i - l) i))"

text \<open>
  Every fill the trader did not ask for is announced once, every end of a session once, and a countdown can
  be read back.
\<close>

section \<open>What is announced\<close>

definition announced :: "Market list \<Rightarrow> TUserEvent list \<Rightarrow> FillGroup \<Rightarrow> bool" where
  "announced markets events g \<longleftrightarrow>
     \<not> (fg_role g = Taker \<and> originOf events (fg_orderId g) \<noteq> Some Liquidation) \<and> fg_marketId g \<in> mk_id ` set markets"

definition remembered :: "Market list \<Rightarrow> TUserEvent list \<Rightarrow> FillGroup \<Rightarrow> bool" where
  "remembered markets events g \<longleftrightarrow>
     announced markets events g \<or> fg_role g = Taker \<and> originOf events (fg_orderId g) \<noteq> Some Liquidation"

definition toastOf :: "Market list \<Rightarrow> TUserEvent list \<Rightarrow> FillGroup \<Rightarrow> FillEvent" where
  "toastOf markets events g =
     \<lparr>fe_orderId = Some (fg_orderId g), fe_side = fg_side g, fe_status = noticeStatus events g, fe_qty = fg_qty g,
      fe_price = Some (fg_price g), fe_slug = mk_slug (the (find (\<lambda>m. mk_id m = fg_marketId g) markets)), fe_reason = None\<rparr>"

lemma market_found: "find (\<lambda>m. mk_id m = i) markets = None \<longleftrightarrow> i \<notin> mk_id ` set markets"
  by (auto simp: find_None_iff)

lemma noticeGroup_parts:
  "nt_toasts (noticeGroup markets events n g) = nt_toasts n @ (if announced markets events g then [toastOf markets events g] else [])"
  "nt_seen (noticeGroup markets events n g) =
     (if remembered markets events g then rememberFills (nt_seen n) (fg_fillIds g) else nt_seen n)"
  using market_found[of "fg_marketId g" markets]
  by (auto simp: noticeGroup_def announced_def remembered_def toastOf_def Let_def split: option.splits)

lemma noticeFills_toasts:
  "nt_toasts (noticeFills markets n events) =
     nt_toasts n @ map (toastOf markets events) (filter (announced markets events) (groupFills events (set (nt_seen n))))"
proof -
  have "nt_toasts (foldl (noticeGroup markets events) n gs) = nt_toasts n @ map (toastOf markets events) (filter (announced markets events) gs)" for gs
    by (induction gs arbitrary: n) (simp_all add: noticeGroup_parts)
  then show ?thesis by (simp add: noticeFills_def)
qed

lemma rememberFills_all:
  "length seen + length ids \<le> 500 \<Longrightarrow> set (rememberFills seen ids) = set seen \<union> set ids \<and> length (rememberFills seen ids) \<le> length seen + length ids"
proof -
  have len: "length (foldl touch acc ks) \<le> length acc + length ks" for acc ks
    by (induction ks arbitrary: acc) (simp, fastforce simp: touch_def intro: le_trans)
  assume "length seen + length ids \<le> 500"
  then show ?thesis using len[of "[]" "seen @ ids"] by (simp add: rememberFills_def Let_def max_seen_fills_def touch_set)
qed

lemma noticeFills_seen:
  assumes "length (nt_seen n) + length (concat (map fg_fillIds (groupFills events (set (nt_seen n))))) \<le> 500"
  shows "set (nt_seen (noticeFills markets n events)) = set (nt_seen n)
      \<union> (\<Union>g \<in> {g \<in> set (groupFills events (set (nt_seen n))). remembered markets events g}. set (fg_fillIds g))
    \<and> length (nt_seen (noticeFills markets n events)) \<le> length (nt_seen n) + length (concat (map fg_fillIds (groupFills events (set (nt_seen n)))))"
proof -
  have "set (nt_seen (foldl (noticeGroup markets events) n gs)) = set (nt_seen n) \<union> (\<Union>g \<in> {g \<in> set gs. remembered markets events g}. set (fg_fillIds g))
      \<and> length (nt_seen (foldl (noticeGroup markets events) n gs)) \<le> length (nt_seen n) + length (concat (map fg_fillIds gs))"
    if "length (nt_seen n) + length (concat (map fg_fillIds gs)) \<le> 500" for gs n
    using that
  proof (induction gs arbitrary: n)
    case (Cons g gs)
    let ?n = "noticeGroup markets events n g"
    have s: "set (nt_seen ?n) = set (nt_seen n) \<union> (if remembered markets events g then set (fg_fillIds g) else {})"
      "length (nt_seen ?n) \<le> length (nt_seen n) + length (fg_fillIds g)"
      using rememberFills_all[of "nt_seen n" "fg_fillIds g"] Cons.prems by (auto simp: noticeGroup_parts)
    then have "length (nt_seen ?n) + length (concat (map fg_fillIds gs)) \<le> 500" using Cons.prems by simp
    from Cons.IH[OF this] s show ?case by auto
  qed simp
  from this[OF assms] show ?thesis by (simp add: noticeFills_def)
qed

text \<open>
  A fill is announced once. As long as the fills the app is told of fit its memory, a fill that one batch
  announced is announced by no later one, in whatever batches it comes again.
\<close>

fun noticeRun :: "Market list \<Rightarrow> notices \<Rightarrow> TUserEvent list list \<Rightarrow> notices \<times> FillGroup list list" where
  "noticeRun markets n [] = (n, [])"
| "noticeRun markets n (batch # rest) =
     (case noticeRun markets (noticeFills markets n batch) rest of
        (n', told) \<Rightarrow> (n', filter (announced markets batch) (groupFills batch (set (nt_seen n))) # told))"

definition fillsIn :: "TUserEvent list \<Rightarrow> nat" where
  "fillsIn events = length (filter (\<lambda>e. case e of FillEvent a b c d r p q ts \<Rightarrow> True | _ \<Rightarrow> False) events)"

lemma groupFills_count: "length (concat (map fg_fillIds (groupFills events seen))) \<le> fillsIn events"
proof -
  have step: "sum_list (map (\<lambda>x. length (fg_fillIds (fst (snd x)))) (groupFill seen gs e))
      \<le> sum_list (map (\<lambda>x. length (fg_fillIds (fst (snd x)))) gs) + fillsIn [e]" for gs e
  proof (cases e)
    case (FillEvent f k m side role price qty ts)
    have new: "sum_list (map (\<lambda>x. length (fg_fillIds (fst (snd x)))) (AList.update k v gs))
        + (case map_of gs k of None \<Rightarrow> 0 | Some w \<Rightarrow> length (fg_fillIds (fst w)))
        = sum_list (map (\<lambda>x. length (fg_fillIds (fst (snd x)))) gs) + length (fg_fillIds (fst v))" for v
      by (induction gs) auto
    have grown: "sum_list (map (\<lambda>x. length (fg_fillIds (fst (snd x)))) (AList.update k v gs))
        \<le> sum_list (map (\<lambda>x. length (fg_fillIds (fst (snd x)))) gs) + 1"
      if "length (fg_fillIds (fst v)) \<le> (case map_of gs k of None \<Rightarrow> 0 | Some w \<Rightarrow> length (fg_fillIds (fst w))) + 1" for v
      using new[of v] that by linarith
    show ?thesis
      by (cases "map_of gs k") (auto simp: FillEvent fillsIn_def Let_def intro!: grown[simplified] split: prod.split)
  qed (simp_all add: fillsIn_def)
  have "sum_list (map (\<lambda>x. length (fg_fillIds (fst (snd x)))) (foldl (groupFill seen) gs events))
      \<le> sum_list (map (\<lambda>x. length (fg_fillIds (fst (snd x)))) gs) + fillsIn events" for gs
  proof (induction events arbitrary: gs)
    case (Cons e es)
    have "fillsIn (e # es) = fillsIn [e] + fillsIn es" by (simp add: fillsIn_def)
    then show ?case using Cons.IH[of "groupFill seen gs e"] step[of gs e] by simp
  qed (simp add: fillsIn_def)
  from this[of "[]"] show ?thesis by (simp add: groupFills_def length_concat comp_def)
qed

lemma groupFills_fresh: "g \<in> set (groupFills events seen) \<Longrightarrow> f \<in> set (fg_fillIds g) \<Longrightarrow> f \<notin> seen"
  using fills_noticed_once[of events seen "fg_orderId g" f] by (auto simp: list_ex_iff notable_def split: TUserEvent.splits)

lemma noticeRun_fresh:
  assumes "length (nt_seen n) + sum_list (map fillsIn batches) \<le> 500" "noticeRun markets n batches = (n', told)"
    and "gs \<in> set told" "g \<in> set gs" "f \<in> set (fg_fillIds g)"
  shows "f \<notin> set (nt_seen n)"
  using assms
proof (induction batches arbitrary: n told)
  case (Cons batch rest)
  let ?n = "noticeFills markets n batch"
  obtain told' where r: "noticeRun markets ?n rest = (n', told')"
    "told = filter (announced markets batch) (groupFills batch (set (nt_seen n))) # told'"
    using Cons.prems(2) by (auto split: prod.splits)
  have fit: "length (nt_seen n) + length (concat (map fg_fillIds (groupFills batch (set (nt_seen n))))) \<le> 500"
    using groupFills_count[of batch "set (nt_seen n)"] Cons.prems(1) by simp
  note seen = noticeFills_seen[OF fit, of markets]
  show ?case
  proof (cases "gs \<in> set told'")
    case True
    have "length (nt_seen ?n) + sum_list (map fillsIn rest) \<le> 500"
      using seen groupFills_count[of batch "set (nt_seen n)"] Cons.prems(1) by simp
    from Cons.IH[OF this r(1) True Cons.prems(4,5)] show ?thesis using seen by blast
  next
    case False
    then show ?thesis using r(2) Cons.prems(3-5) groupFills_fresh[of g batch "set (nt_seen n)" f] by auto
  qed
qed simp

theorem fills_are_announced_once:
  assumes "sum_list (map fillsIn (batch # batches)) + length (nt_seen n) \<le> 500"
    and "noticeRun markets n (batch # batches) = (n', told # later)"
    and "g \<in> set told" "gs \<in> set later" "g' \<in> set gs"
  shows "set (fg_fillIds g) \<inter> set (fg_fillIds g') = {}"
proof -
  let ?n = "noticeFills markets n batch"
  have r: "noticeRun markets ?n batches = (n', later)" "told = filter (announced markets batch) (groupFills batch (set (nt_seen n)))"
    using assms(2) by (auto split: prod.splits)
  have fit: "length (nt_seen n) + length (concat (map fg_fillIds (groupFills batch (set (nt_seen n))))) \<le> 500"
    using groupFills_count[of batch "set (nt_seen n)"] assms(1) by simp
  note seen = noticeFills_seen[OF fit, of markets]
  have "set (fg_fillIds g) \<subseteq> set (nt_seen ?n)" using seen assms(3) r(2) by (auto simp: remembered_def)
  moreover have "length (nt_seen ?n) + sum_list (map fillsIn batches) \<le> 500"
    using seen groupFills_count[of batch "set (nt_seen n)"] assms(1) by simp
  ultimately show ?thesis using noticeRun_fresh[OF _ r(1) assms(4,5)] by blast
qed

text \<open>
  Nothing is kept from a maker: a fill of a resting order in a known market that was not announced before,
  with a positive size and price, is announced, in a toast of its order.
\<close>

theorem maker_fills_are_announced:
  assumes "FillEvent f k m side Maker price qty ts \<in> set events" "f \<notin> set (nt_seen n)" "m \<in> mk_id ` set markets"
    and "js_finite (js_number qty)" "js_finite (js_number price)" "0 < js_number qty" "0 < js_number price"
    and "\<forall>g \<in> set (groupFills events (set (nt_seen n))). fg_orderId g = k \<longrightarrow> fg_role g = Maker \<and> fg_marketId g = m"
  shows "\<exists>g. g \<in> set (groupFills events (set (nt_seen n))) \<and> f \<in> set (fg_fillIds g)
    \<and> toastOf markets events g \<in> set (nt_toasts (noticeFills markets n events))
    \<and> fe_orderId (toastOf markets events g) = Some k"
proof -
  have pos: "\<not> x \<le> 0" if "0 < x" for x :: jsnum using that js_less_le_trans js_less_irrefl by blast
  have "list_ex (notable (set (nt_seen n)) k f) events"
    using assms(2,4,5) pos[OF assms(6)] pos[OF assms(7)] by (auto simp: list_ex_iff notable_def intro!: bexI[OF _ assms(1)])
  then obtain g where g: "g \<in> set (groupFills events (set (nt_seen n)))" "fg_orderId g = k" "f \<in> set (fg_fillIds g)"
    using fills_noticed_once[of events "set (nt_seen n)" k f] by (auto simp: list_ex_iff)
  then have "announced markets events g" using assms(3,8) by (auto simp: announced_def)
  then show ?thesis using g by (intro exI[of _ g]) (auto simp: noticeFills_toasts toastOf_def)
qed

section \<open>One toast per expiry\<close>

text \<open>However often the component is rendered, the toasts are as many as the changes of the count it saw.\<close>

lemma notice_follows: "sn_announced (foldl (\<lambda>n c. renderNotice c n) (mountNotice c0) counts) = last (c0 # counts)"
  by (induction counts rule: rev_induct) (auto simp: mountNotice_def renderNotice_def)

lemma sorted_last: "sorted xs \<Longrightarrow> xs \<noteq> [] \<Longrightarrow> last xs \<in> set xs \<and> (\<forall>x \<in> set xs. x \<le> last xs)" for xs :: "nat list"
  by (induction xs) auto

theorem expiry_is_told_once:
  assumes "sorted (c0 # counts)"
  shows "sn_toasts (foldl (\<lambda>n c. renderNotice c n) (mountNotice c0) counts) + 1 = card (set (c0 # counts))"
  using assms
proof (induction counts rule: rev_induct)
  case (snoc c counts)
  have s: "sorted (c0 # counts)" "\<forall>x \<in> set (c0 # counts). x \<le> c" using snoc.prems by (auto simp: sorted_append)
  have l: "last (c0 # counts) \<in> set (c0 # counts)" "\<forall>x \<in> set (c0 # counts). x \<le> last (c0 # counts)"
    using sorted_last[OF s(1)] by (simp_all del: last.simps list.set)
  have "c = last (c0 # counts) \<longleftrightarrow> c \<in> set (c0 # counts)" using s(2) l by (metis antisym)
  then show ?case using snoc.IH[OF s(1)] notice_follows[of c0 counts]
    by (auto simp: renderNotice_def card_insert_if insert_commute simp del: last.simps)
qed (simp add: mountNotice_def)

section \<open>Reading a countdown\<close>

lemma formatCountdown_past: "ms \<le> 0 \<Longrightarrow> formatCountdown ms = ''00:00''"
  by (simp add: formatCountdown_def pad2_def digits_of.simps digit_char_def Let_def) code_simp

text \<open>A shortened id keeps both ends and is no longer than asked for; a short one is left as it is.\<close>

lemma truncateId_length: "0 < l \<Longrightarrow> length (truncateId i k l) = min (length i) (k + l + 1)"
  by (auto simp: truncateId_def)

lemma truncateId_ends:
  assumes "0 < l" "k + l + 1 < length i"
  shows "take k (truncateId i k l) = take k i \<and> drop (k + 1) (truncateId i k l) = drop (length i - l) i"
  using assms by (simp add: truncateId_def)

end
