(* ===== verification/Spec2Isabelle.thy ===== *)
theory Spec2Isabelle
  imports MatchingProperties OrderProperties DepthProperties PositionProperties EventProperties EngineProperties
    DbProperties Resilience UserFeedProperties LadderProperties MarketFeedProperties WsServerProperties Ticket
    History MoneyProperties OrdersPanelProperties PositionsPanelProperties PrivateFeedProperties
    BackendCommsProperties OrderService WsSocketsProperties SessionProperties MakerClientProperties
    BotsProperties ApiProperties BackupProperties OrderFormProperties PollerProperties
    MaintenanceProperties Toasts Dialogs Credentials BookPane Notifications
begin

text \<open>
  \<^bold>\<open>perp-v2: a verification development\<close>

  The repository is a perpetual futures exchange in TypeScript. The backend turns HTTP requests into
  messages on a Redis stream; the engine (\<open>apps/engine\<close>) is the only reader of that stream that changes
  the exchange's state, which it keeps in memory and backs up; its answers go to the response stream,
  from which the persistence service (\<open>apps/db-writer\<close>) writes orders and fills to Postgres, and to
  channels, from which the socket server feeds the browsers (\<open>apps/web\<close>). A price poller sends one price
  per second and market, on which the engine liquidates; a market maker trades against the HTTP API.
  The development models the engine whole, its backups and the clocks that drive it, the backend's API, its
  order service and its requests to the engine,
  the persistence service's writing, the shared policy towards Redis, the socket server with its tickets
  and sockets, the browser's public and private channels, its panels of orders, positions, history and
  balances, its session and sign-in form, its order ticket and dialogs and its book, the market maker and its client, and the scripts that seed and
  prune the database: the decisions the repository takes about
  money, from the form a trader fills in to the row of the database and back to the table he reads.

  \<^bold>\<open>Theories and code\<close>

  \<^item> Prelude: associations that keep the order of insertion for \<open>Map\<close> and plain objects, \<open>find\<close>,
    \<open>findIndex\<close> and \<open>splice\<close>, and \<open>outcome\<close>, the value of code that may throw: \<open>Return\<close> or \<open>Throw\<close>, each
    with the state left behind, since what was mutated before a throw stays mutated.
  \<^item> JsNumber, JsString, JsMath: the numbers of the language. A \<open>jsnum\<close> is a rational of the double format,
    an infinity or \<open>NaN\<close>; every operation rounds to nearest even. \<open>js_string\<close> is \<open>String\<close> (the shortest
    digits that read back), \<open>js_number\<close> is \<open>Number\<close>, \<open>js_fixed\<close> is \<open>toFixed\<close>. Minus zero is identified with
    zero. That a printed number reads back as itself is proved, and is what makes prices usable as keys.
  \<^item> EngineTypes: \<open>store.ts\<close>, \<open>markets.ts\<close>, \<open>schema.ts\<close> and the payloads of \<open>redis-events.ts\<close> as records and
    datatypes with the names of the source.
  \<^item> OrderBook: \<open>getNextBestAskPrice\<close>, \<open>getNextBestBidPrice\<close>, \<open>getFirstCreatedOrder\<close>, \<open>getMarketDepth\<close>.
  \<^item> Positions: averages, \<open>calculateLiquidationPrice\<close>, \<open>createPosition\<close>, mark to market and funding.
  \<^item> Matching: \<open>matchLongOrder\<close> and \<open>matchShortOrder\<close>. The two functions are the same text with the side
    exchanged; the model has the text once, with the side as a parameter, and the two names as instances.
  \<^item> UserEvents: trade prints and \<open>userEventsForMatch\<close>.
  \<^item> Orders: \<open>placeOrder\<close>, \<open>cancelOrder\<close>, \<open>getOpenPositionsForMarket\<close>, \<open>getClosedPositionsForMarket\<close>.
  \<^item> Engine: \<open>liqudationChecks\<close>, \<open>arrayToObjectUtil\<close>, deposits, \<open>backupStore\<close>, \<open>handle\<close>.
  \<^item> EngineComms: \<open>engine-comms.ts\<close> and \<open>index.ts\<close>: recovery from a backup, pending entries, new messages.
  \<^item> DbWriter: \<open>writer.ts\<close> and the message handling of \<open>setup-comms.ts\<close> of the persistence service.
  \<^item> Resilience: \<open>redis-resilience.ts\<close>: reconnect delay, error classification, \<open>runStreamLoop\<close>.
  \<^item> BackendComms, OrderService: \<open>backend-comms.ts\<close> with its promises, timers and replies, and
    \<open>order-service.ts\<close> of the backend over the table of orders and any sender; a sender that has the
    engine of the model answer puts the two together.
  \<^item> JsDate, Fills: times as the API writes them, and the pages of \<open>getFills\<close> with the cursors and the two
    views of a fill of \<open>fill-view.ts\<close>.
  \<^item> WsServer: \<open>createHandler.ts\<close> of the socket server. A timer that fires is an event of the model.
  \<^item> WsSockets: \<open>verify-ticket.ts\<close>, \<open>createWSServer.ts\<close> and the listener of the socket server, and the
    tokens of the backend's \<open>utils/auth.ts\<close>: which socket is sent which of the frames of WsServer.
  \<^item> UserFeed: the reducers of \<open>user-feed-core.ts\<close> with the rows of \<open>orders.tsx\<close> and \<open>positions.tsx\<close>.
  \<^item> MarketFeed: the reducers of \<open>market-feed-core.ts\<close> and, as an inductive relation over the calls a
    browser makes of it, the provider of \<open>market-feed.tsx\<close>.
  \<^item> PrivateFeed: the socket of the private channel, \<open>user-feed.tsx\<close>, as a relation over what it waits for.
  \<^item> OrdersPanel, PositionsPanel, History, Account, Money: the providers \<open>orders.tsx\<close>, \<open>positions.tsx\<close>,
    \<open>history.tsx\<close> (with \<open>order-history.ts\<close>) and \<open>account.tsx\<close> (with \<open>money.ts\<close>). A call that waits for an
    answer is split at the wait, and a relation lets the answers come in any order.
  \<^item> Ticket: \<open>position-math.ts\<close>, \<open>order-payload.ts\<close> and the checks with which \<open>createOrder\<close> of the backend
    turns the payload into a row and a message to the engine.
  \<^item> QuoteLadder: \<open>quote-ladder.ts\<close> of the market maker and the requests of one cycle of \<open>maker.ts\<close>.
    \<open>Math.log2\<close> is a parameter, powers are correctly rounded, and the hash is on words of 32 bits.
  \<^item> MakerClient, Bots: \<open>api-client.ts\<close>, and \<open>market-feed.ts\<close>, \<open>bot-account.ts\<close>, \<open>taker.ts\<close> and the cycle of
    \<open>maker.ts\<close>, of the market maker.
  \<^item> Session: \<open>errors.ts\<close> and \<open>http.ts\<close> of the browser's API client, \<open>session-provider.tsx\<close>, whose renders
    are steps of their own, and \<open>require-session.tsx\<close>.
  \<^item> OrderForm: the ticket \<open>order-form.tsx\<close> with its fields and slider, \<open>fill-toast.tsx\<close>, and the schema of an order.
  \<^item> Backup: \<open>upload-file.ts\<close> of the engine: JSON with maps and dates, the latest backup and its loader.
  \<^item> Poller: the price poller (\<open>createPoller.ts\<close>) and the jobs of the scheduler.
  \<^item> Maintenance: \<open>seed.ts\<close> and \<open>prune-bots.ts\<close>. Toasts, Notifications: the stack of \<open>ui/toast.tsx\<close>,
    and what \<open>fill-notifications.tsx\<close> and \<open>session-notice.tsx\<close> put on it.
  \<^item> Dialogs, Credentials, BookPane: \<open>deposit-dialog.tsx\<close> and the actions of \<open>account-tabs.tsx\<close>,
    \<open>credentials-form.tsx\<close>, and \<open>order-book.tsx\<close> with the price the terminal keeps for the ticket.
  \<^item> Api: \<open>server.ts\<close> of the backend with its middlewares, errors and cookie, the auth routes and
    \<open>auth-service.ts\<close>, and the market list.
  \<^item> Decimals: how far rounding moves a decimal number, used by LadderGrid: the maker's prices are
    exactly the doubles nearest to multiples of the market's tick.

  \<^bold>\<open>Correspondence\<close>

  The engine's state is \<open>engine\<close>: the store, the clock and the counter of drawn identifiers. The clock
  and the identifiers are those of the parameter \<open>runtime\<close>, which the code takes from \<open>Date\<close> and from its
  random identifiers; the properties hold for every runtime, with the hypotheses on it that they name.
  Maps and objects are association lists in insertion order. A JavaScript object lists keys that are
  array indices first and in numeric order; every scan of an object in the engine (best price, depth)
  has a result that does not depend on the order, so the difference is not visible. A key an object does
  not have is looked up in \<open>Object.prototype\<close>; this is modelled where the engine reads a market or a price
  level that a request names (\<open>inherited\<close> in OrderBook), elsewhere the keys are the program's own or uuids.
  Objects the code
  shares and mutates (an account, a level, an order) are looked up again where they are written, as the
  code reaches them through the store. A store that is restored has texts where it had the dates of resting
  orders (\<open>dates_come_back_as_text\<close>); in the model of the engine they stay dates, which makes no difference
  to a level in order of arrival, as the engine keeps them while the clock does not go back. Log lines are
  left out.

  \<^bold>\<open>Lemmas and properties\<close>

  \<^item> MatchingLoop and Regimes reason about the matching loop once: a locale states what an invariant of
    the loop must satisfy (entering a level, one fill, leaving it) and derives the invariant of the whole
    match and its termination; three regimes of quantities interpret it: any, finite non-negative
    doubles, and whole numbers up to two to the power 53, where the arithmetic is exact.
  \<^item> WellFormed, EngineSafety, Lots: well-formedness of the store and of the quantities, kept by every
    request. PriceTime: the specification of matching, on the book sorted by price (\<open>spec_book\<close>, which does
    not use the scans of the code), and the refinement. MatchLedger: what a report says.
  \<^item> MatchingProperties, OrderProperties, DepthProperties, PositionProperties, EventProperties,
    EngineProperties: the properties of the engine, with concrete witnesses on the small exchange of Samples.
  \<^item> DbProperties, WsServerProperties, UserFeedProperties, MarketFeedProperties, LadderGrid, LadderProperties,
    FillsProperties, MoneyProperties, OrdersPanelProperties, PositionsPanelProperties,
    PrivateFeedProperties, BackendCommsProperties, WsSocketsProperties, SessionProperties,
    MakerClientProperties, BotsProperties, ApiProperties, BackupProperties, OrderFormProperties,
    PollerProperties, MaintenanceProperties, and the second halves of Resilience, Ticket, OrderService,
    History, Toasts, Dialogs, Credentials, BookPane and Notifications: those of the other parts. Several relate a part to
    another: the browser's position and balances after a batch of events are the engine's, the profit it
    computes is the one the engine stores, the history it shows is the table the service pages through,
    and an order the engine refuses is one the service retires.
  \<^item> Some theorems record behaviour one would not expect, such as
    \<open>partly_closed_long_liquidates_above_entry\<close>, \<open>undelivered_message_runs_twice\<close>,
    \<open>redelivered_creation_revives_order\<close>, \<open>second_401_announces_again\<close>, \<open>barging_exceeds_the_limit\<close> or
    \<open>full_leverage_order_can_be_refused\<close>: each exhibits a run.

  \<^bold>\<open>Bounds and fuel\<close>

  The matching loop has no fuel: \<open>matchLevel\<close> ends because every fill that does not end the match removes
  an open order of the level, \<open>matchLoop\<close> because every round removes a price of the book or ends; both
  are proved as measures, for every store. \<open>runRecovery\<close> reads the stream in slices of a hundred and takes
  the number of slices as fuel, since Redis may hold any number of entries; a property states that enough
  slices for the stream give the result. The loops over batches and over digits end by measures; all
  others are over finite lists.

  \<^bold>\<open>Not modelled\<close>

  Redis, Postgres, object storage, signatures, \<open>JSON.parse\<close> and the zod schemas are parameters, with what
  they document as hypotheses. The layout of pages and components of the web application, the readers of the
  environment and the wiring of the processes are input and output around library calls. The clean-up of
  consumer groups and the health route are left out.
\<close>

end
